(* ===== verification/Machines.thy ===== *)
theory Machines
  imports Main
begin

text \<open>
  Contracts that the stateful components share, as locales over a labelled step relation:
  an invariant that every step keeps, a cursor that every step advances to the stamp of its
  event, and a set of terminal states that no step leaves. Their client
  lemmas about whole runs are proved here once and reach a component through an interpretation
  on its own step relation.
\<close>

inductive runs :: "('s \<Rightarrow> 'e \<Rightarrow> 's \<Rightarrow> bool) \<Rightarrow> 's \<Rightarrow> 'e list \<Rightarrow> 's \<Rightarrow> bool"
  for step :: "'s \<Rightarrow> 'e \<Rightarrow> 's \<Rightarrow> bool" where
  runs_Nil: "runs step s [] s"
| runs_Cons: "step s e s' \<Longrightarrow> runs step s' es s'' \<Longrightarrow> runs step s (e # es) s''"

inductive_simps runs_Nil_iff [simp]: "runs step s [] s'"
inductive_simps runs_Cons_iff: "runs step s (e # es) s'"

lemma runs_append_iff: "runs step s (es @ es') s'' \<longleftrightarrow> (\<exists>s'. runs step s es s' \<and> runs step s' es' s'')"
proof (induction es arbitrary: s)
  case (Cons e es)
  then show ?case by (simp add: runs_Cons_iff) blast
qed simp

text \<open>
  Delivering events one by one to a component that may refuse an event or find that it changes
  nothing: each delivery keeps the state or is a step, so the steps among them form a run.
\<close>

fun steps_among :: "('s \<Rightarrow> 'e \<Rightarrow> bool) \<Rightarrow> ('s \<Rightarrow> 'e \<Rightarrow> 's) \<Rightarrow> 's \<Rightarrow> 'e list \<Rightarrow> 'e list" where
  "steps_among accepts deliver s [] = []"
| "steps_among accepts deliver s (e # es) =
     (if accepts s e then e # steps_among accepts deliver (deliver s e) es
      else steps_among accepts deliver (deliver s e) es)"

lemma deliver_runs:
  assumes "\<And>s e. e \<in> set es \<Longrightarrow> if accepts s e then step s e (deliver s e) else deliver s e = s"
  shows "runs step s (steps_among accepts deliver s es) (foldl deliver s es)"
  using assms
proof (induction es arbitrary: s)
  case (Cons e es)
  from Cons.IH [OF Cons.prems] Cons.prems [of e s] show ?case
    by (auto intro: runs.intros split: if_splits)
qed simp

locale invariant_machine =
  fixes step :: "'s \<Rightarrow> 'e \<Rightarrow> 's \<Rightarrow> bool" and inv :: "'s \<Rightarrow> bool"
  assumes inv_step: "inv s \<Longrightarrow> step s e s' \<Longrightarrow> inv s'"
begin

lemma runs_inv: "runs step s es s' \<Longrightarrow> inv s \<Longrightarrow> inv s'"
  by (induction rule: runs.induct) (auto intro: inv_step)

end

locale cursor_machine =
  fixes step :: "'s \<Rightarrow> 'e \<Rightarrow> 's \<Rightarrow> bool" and cursor :: "'s \<Rightarrow> int" and stamp :: "'e \<Rightarrow> int"
  assumes advance: "step s e s' \<Longrightarrow> cursor s < stamp e \<and> cursor s' = stamp e"
begin

lemma runs_stamps:
  "runs step s es s' \<Longrightarrow>
     sorted_wrt (<) (map stamp es) \<and> (\<forall>e \<in> set es. cursor s < stamp e \<and> stamp e \<le> cursor s') \<and>
     cursor s \<le> cursor s'"
proof (induction rule: runs.induct)
  case (runs_Cons s e s' es s'')
  from advance [OF runs_Cons.hyps(1)] runs_Cons.IH show ?case by force
qed simp

lemma runs_distinct: "runs step s es s' \<Longrightarrow> distinct (map stamp es)"
  using runs_stamps strict_sorted_iff by blast

lemma stale_rejected: "runs step s es s' \<Longrightarrow> e \<in> set es \<Longrightarrow> stamp e' \<le> stamp e \<Longrightarrow> \<not> step s' e' s''"
  using runs_stamps [of s es s'] advance [of s' e' s''] by force

end

locale terminal_machine =
  fixes step :: "'s \<Rightarrow> 'e \<Rightarrow> 's \<Rightarrow> bool" and terminal :: "'s \<Rightarrow> bool"
  assumes terminal_step: "terminal s \<Longrightarrow> step s e s' \<Longrightarrow> terminal s'"
begin

lemma runs_terminal: "runs step s es s' \<Longrightarrow> terminal s \<Longrightarrow> terminal s'"
  by (induction rule: runs.induct) (auto intro: terminal_step)

end

sublocale terminal_machine \<subseteq> invariant_machine step terminal
  by unfold_locales (rule terminal_step)

end
