(* ===== verification/Go_Base.thy ===== *)
theory Go_Base
  imports Main "HOL-Library.Multiset" "HOL-Library.Char_ord" "HOL-Library.List_Lexorder"
begin

text \<open>
  Prelude of the development: what the backend's Go code uses of the language and its
  standard library, and the generic lemmas the components share.

  \<^item> Strings are byte lists (\<^typ>\<open>string\<close>); \<open>trim_space\<close> is \<^verbatim>\<open>strings.TrimSpace\<close> on UTF-8
    bytes, \<open>to_upper\<close> and \<open>equal_fold\<close> are \<^verbatim>\<open>strings.ToUpper\<close> and \<^verbatim>\<open>strings.EqualFold\<close> on
    ASCII letters (other bytes are left as they are). Comparison is bytewise.
  \<^item> An instant (\<^verbatim>\<open>time.Time\<close>) is a count of nanoseconds since the zero time together with a
    location; a \<^verbatim>\<open>time.Duration\<close> is an \<^typ>\<open>int\<close> of nanoseconds. The range limits of both
    types (about 292 years) are not modelled.
  \<^item> A pointer that may be nil is an \<open>option\<close>; a call that returns an error is a sum.
  \<^item> \<open>go_sort\<close> is the insertion sort that \<^verbatim>\<open>sort.Slice\<close> runs on short slices, and
    \<open>go_search\<close> the binary search of \<^verbatim>\<open>sort.Search\<close>.
\<close>

named_theorems go_time "unfolding rules for instants"
named_theorems go_valid "unfolding rules for validators"

section \<open>Strings\<close>

text \<open>The UTF-8 encodings of the code points with the Unicode property White\_Space.\<close>

definition go_spaces :: "string list" where
  "go_spaces =
     [[CHR 0x09], [CHR 0x0A], [CHR 0x0B], [CHR 0x0C], [CHR 0x0D], [CHR 0x20],
      [CHR 0xC2, CHR 0x85], [CHR 0xC2, CHR 0xA0], [CHR 0xE1, CHR 0x9A, CHR 0x80],
      [CHR 0xE2, CHR 0x80, CHR 0x80], [CHR 0xE2, CHR 0x80, CHR 0x81],
      [CHR 0xE2, CHR 0x80, CHR 0x82], [CHR 0xE2, CHR 0x80, CHR 0x83],
      [CHR 0xE2, CHR 0x80, CHR 0x84], [CHR 0xE2, CHR 0x80, CHR 0x85],
      [CHR 0xE2, CHR 0x80, CHR 0x86], [CHR 0xE2, CHR 0x80, CHR 0x87],
      [CHR 0xE2, CHR 0x80, CHR 0x88], [CHR 0xE2, CHR 0x80, CHR 0x89],
      [CHR 0xE2, CHR 0x80, CHR 0x8A], [CHR 0xE2, CHR 0x80, CHR 0xA8],
      [CHR 0xE2, CHR 0x80, CHR 0xA9], [CHR 0xE2, CHR 0x80, CHR 0xAF],
      [CHR 0xE2, CHR 0x81, CHR 0x9F], [CHR 0xE3, CHR 0x80, CHR 0x80]]"

text \<open>Remove one leading word of \<open>ws\<close>, if there is one.\<close>

definition strip_space :: "string list \<Rightarrow> string \<Rightarrow> string option" where
  "strip_space ws s =
     (case find (\<lambda>w. w \<noteq> [] \<and> take (length w) s = w) ws of
        None \<Rightarrow> None
      | Some w \<Rightarrow> Some (drop (length w) s))"

lemma strip_space_shorter: "strip_space ws s = Some r \<Longrightarrow> length r < length s"
  by (cases s) (auto simp: strip_space_def find_Some_iff split: option.splits)

function trim_with :: "string list \<Rightarrow> string \<Rightarrow> string" where
  "trim_with ws s = (case strip_space ws s of None \<Rightarrow> s | Some r \<Rightarrow> trim_with ws r)"
  by pat_completeness auto
termination
  by (relation "measure (\<lambda>(ws, s). length s)") (auto dest: strip_space_shorter)

declare trim_with.simps [simp del]

definition trim_space :: "string \<Rightarrow> string" where
  "trim_space s = rev (trim_with (map rev go_spaces) (rev (trim_with go_spaces s)))"

definition upper_char :: "char \<Rightarrow> char" where
  "upper_char c =
     (let n = (of_char c :: nat) in if 97 \<le> n \<and> n \<le> 122 then char_of (n - 32) else c)"

definition to_upper :: "string \<Rightarrow> string" where
  "to_upper s = map upper_char s"

definition equal_fold :: "string \<Rightarrow> string \<Rightarrow> bool" where
  "equal_fold a b \<longleftrightarrow> to_upper a = to_upper b"

text \<open>A non-empty string equal to its trimmed form (\<^verbatim>\<open>isTrimmedNonEmpty\<close>, \<^verbatim>\<open>present\<close>).\<close>

definition trimmed_non_empty :: "string \<Rightarrow> bool" where
  "trimmed_non_empty s \<longleftrightarrow> s \<noteq> '''' \<and> trim_space s = s"

definition value_or_empty :: "string option \<Rightarrow> string" where
  "value_or_empty v = (case v of None \<Rightarrow> '''' | Some s \<Rightarrow> s)"

lemma value_or_empty_simps [simp]:
  "value_or_empty None = ''''" "value_or_empty (Some s) = s"
  by (simp_all add: value_or_empty_def)

lemma trim_with_fixed: "strip_space ws (trim_with ws s) = None"
proof (induction ws s rule: trim_with.induct)
  case (1 ws s)
  then show ?case
    by (cases "strip_space ws s") (simp_all add: trim_with.simps [of ws s])
qed

lemma trim_with_id: "strip_space ws s = None \<Longrightarrow> trim_with ws s = s"
  by (simp add: trim_with.simps [of ws s])

lemma trim_with_suffix: "\<exists>p. s = p @ trim_with ws s"
proof (induction ws s rule: trim_with.induct)
  case (1 ws s)
  show ?case
  proof (cases "strip_space ws s")
    case None
    then show ?thesis by (simp add: trim_with_id)
  next
    case (Some r)
    then obtain w where r: "r = drop (length w) s" and "take (length w) s = w"
      by (auto simp: strip_space_def find_Some_iff split: option.splits)
    then have "s = w @ r" by (metis append_take_drop_id)
    moreover from 1 Some obtain p where "r = p @ trim_with ws r" by blast
    ultimately have "s = (w @ p) @ trim_with ws r" by simp
    moreover from Some have "trim_with ws s = trim_with ws r" by (simp add: trim_with.simps [of ws s])
    ultimately show ?thesis by metis
  qed
qed

lemma strip_space_None_prefix:
  assumes "strip_space ws (p @ q) = None"
  shows "strip_space ws p = None"
proof -
  have "\<forall>w \<in> set ws. \<not> (w \<noteq> [] \<and> take (length w) (p @ q) = w)"
    using assms by (auto simp: strip_space_def find_None_iff split: option.splits)
  moreover have "take (length w) (p @ q) = w" if "take (length w) p = w" for w
    using that by (metis append_take_drop_id append.assoc append_eq_conv_conj)
  ultimately have "\<forall>w \<in> set ws. \<not> (w \<noteq> [] \<and> take (length w) p = w)" by blast
  then have "find (\<lambda>w. w \<noteq> [] \<and> take (length w) p = w) ws = None"
    by (simp add: find_None_iff)
  then show ?thesis by (simp add: strip_space_def)
qed

lemma trim_space_idem [simp]: "trim_space (trim_space s) = trim_space s"
proof -
  let ?l = "trim_with go_spaces s" and ?R = "map rev go_spaces"
  obtain p where p: "rev ?l = p @ trim_with ?R (rev ?l)" using trim_with_suffix by blast
  then have l: "?l = trim_space s @ rev p"
    by (metis rev_append rev_rev_ident trim_space_def)
  have "strip_space go_spaces (trim_space s) = None"
    using trim_with_fixed [of go_spaces s] strip_space_None_prefix [of go_spaces "trim_space s" "rev p"]
    by (simp add: l)
  then have "trim_with go_spaces (trim_space s) = trim_space s" by (rule trim_with_id)
  moreover have "trim_with ?R (rev (trim_space s)) = rev (trim_space s)"
    by (simp add: trim_space_def trim_with_id trim_with_fixed)
  ultimately show ?thesis by (simp add: trim_space_def [of "trim_space s"])
qed

lemma trim_space_Nil [simp]: "trim_space '''' = ''''"
  by code_simp

lemma upper_char_idem [simp]: "upper_char (upper_char c) = upper_char c"
proof (cases "97 \<le> (of_char c :: nat) \<and> (of_char c :: nat) \<le> 122")
  case True
  then have "(of_char c :: nat) - 32 < 256" by linarith
  then have "of_char (char_of (of_char c - 32 :: nat) :: char) = (of_char c - 32 :: nat)"
    by simp
  with True show ?thesis by (auto simp: upper_char_def Let_def)
next
  case False
  then show ?thesis by (auto simp: upper_char_def Let_def)
qed

lemma to_upper_idem [simp]: "to_upper (to_upper s) = to_upper s"
  by (simp add: to_upper_def)

lemma equal_fold_refl [simp]: "equal_fold a a"
  by (simp add: equal_fold_def)

lemma equal_fold_sym: "equal_fold a b \<longleftrightarrow> equal_fold b a"
  by (auto simp: equal_fold_def)

lemma equal_fold_trans: "equal_fold a b \<Longrightarrow> equal_fold b c \<Longrightarrow> equal_fold a c"
  by (simp add: equal_fold_def)

section \<open>Instants and durations\<close>

datatype location = UTC | Zone int

datatype gotime = Time (ns: int) (loc: location)

type_synonym duration = int

abbreviation second :: duration where "second \<equiv> 1000000000"
abbreviation minute :: duration where "minute \<equiv> 60000000000"
abbreviation hour :: duration where "hour \<equiv> 3600000000000"

definition zero_time :: gotime where "zero_time = Time 0 UTC"

definition is_zero :: "gotime \<Rightarrow> bool" where [go_time]: "is_zero t \<longleftrightarrow> ns t = 0"

definition t_add :: "gotime \<Rightarrow> duration \<Rightarrow> gotime" where
  [go_time]: "t_add t d = Time (ns t + d) (loc t)"

definition t_sub :: "gotime \<Rightarrow> gotime \<Rightarrow> duration" where [go_time]: "t_sub a b = ns a - ns b"

definition before :: "gotime \<Rightarrow> gotime \<Rightarrow> bool" where [go_time]: "before a b \<longleftrightarrow> ns a < ns b"

definition after :: "gotime \<Rightarrow> gotime \<Rightarrow> bool" where [go_time]: "after a b \<longleftrightarrow> ns b < ns a"

definition t_equal :: "gotime \<Rightarrow> gotime \<Rightarrow> bool" where [go_time]: "t_equal a b \<longleftrightarrow> ns a = ns b"

text \<open>The check \<^verbatim>\<open>!value.IsZero() && value.Location() == time.UTC\<close> (\<^verbatim>\<open>validUTC\<close>, \<^verbatim>\<open>utc\<close>).\<close>

definition valid_utc :: "gotime \<Rightarrow> bool" where
  [go_time]: "valid_utc t \<longleftrightarrow> \<not> is_zero t \<and> loc t = UTC"

definition absolute :: "duration \<Rightarrow> duration" where
  "absolute d = (if d < 0 then - d else d)"

lemma absolute_abs [simp]: "absolute d = \<bar>d\<bar>"
  by (simp add: absolute_def)

lemma utc_eqI: "ns a = ns b \<Longrightarrow> loc a = loc b \<Longrightarrow> a = b"
  by (cases a; cases b) simp

text \<open>Go's integer division and remainder truncate towards zero.\<close>

definition go_quot :: "int \<Rightarrow> int \<Rightarrow> int" where
  "go_quot a b = sgn a * sgn b * (\<bar>a\<bar> div \<bar>b\<bar>)"

definition go_rem :: "int \<Rightarrow> int \<Rightarrow> int" where
  "go_rem a b = a - b * go_quot a b"

lemma go_quot_nonneg: "0 \<le> a \<Longrightarrow> 0 < b \<Longrightarrow> go_quot a b = a div b"
  by (cases "a = 0") (simp_all add: go_quot_def)

lemma go_rem_nonneg: "0 \<le> a \<Longrightarrow> 0 < b \<Longrightarrow> go_rem a b = a mod b"
  by (simp add: go_rem_def go_quot_nonneg minus_mult_div_eq_mod)

lemma go_quot_bounds:
  assumes "0 < b"
  shows "\<bar>b * go_quot a b\<bar> \<le> \<bar>a\<bar>" and "\<bar>a - b * go_quot a b\<bar> < b"
proof -
  have m: "b * (\<bar>a\<bar> div b) + \<bar>a\<bar> mod b = \<bar>a\<bar>" by simp
  have r: "0 \<le> \<bar>a\<bar> mod b" "\<bar>a\<bar> mod b < b" using assms by simp_all
  have q: "0 \<le> b * (\<bar>a\<bar> div b)" using assms by (simp add: pos_imp_zdiv_nonneg_iff)
  have g: "b * go_quot a b = sgn a * (b * (\<bar>a\<bar> div b))"
    using assms by (simp add: go_quot_def)
  show "\<bar>b * go_quot a b\<bar> \<le> \<bar>a\<bar>"
  proof -
    have "\<bar>b * go_quot a b\<bar> \<le> b * (\<bar>a\<bar> div b)"
      unfolding g using q by (cases "a = 0") (simp_all only: abs_mult abs_sgn_eq, simp_all)
    with m r show ?thesis by linarith
  qed
  show "\<bar>a - b * go_quot a b\<bar> < b"
  proof (cases "0 \<le> a")
    case True
    then have "go_quot a b = a div b" using assms by (rule go_quot_nonneg)
    with assms show ?thesis by (simp add: minus_mult_div_eq_mod)
  next
    case False
    then have "sgn a = - 1" "\<bar>a\<bar> = - a" by simp_all
    with m have "a - b * go_quot a b = - (\<bar>a\<bar> mod b)"
      unfolding g by (simp only: mult_minus1)
    with r show ?thesis by simp
  qed
qed

lemma go_rem_wrap:
  assumes "0 < b"
  shows "(if go_rem a b < 0 then go_rem a b + b else go_rem a b) = a mod b"
proof -
  let ?r = "go_rem a b"
  have "\<bar>?r\<bar> < b" using go_quot_bounds(2) [OF assms] by (simp add: go_rem_def)
  then have "0 \<le> (if ?r < 0 then ?r + b else ?r)" "(if ?r < 0 then ?r + b else ?r) < b" by auto
  then have "(if ?r < 0 then ?r + b else ?r) = (if ?r < 0 then ?r + b else ?r) mod b" by simp
  also have "\<dots> = ?r mod b" by simp
  also have "\<dots> = a mod b" using mod_mult_self2 [of a b "- go_quot a b"] by (simp add: go_rem_def)
  finally show ?thesis .
qed

section \<open>Slices\<close>

text \<open>
  \<^verbatim>\<open>sort.Slice\<close> inserts each element into the sorted prefix, moving it left while it is less
  than its neighbour; \<open>go_insert\<close> works on the prefix reversed.
\<close>

fun go_insert :: "('a \<Rightarrow> 'a \<Rightarrow> bool) \<Rightarrow> 'a \<Rightarrow> 'a list \<Rightarrow> 'a list" where
  "go_insert lt x [] = [x]"
| "go_insert lt x (y # ys) = (if lt x y then y # go_insert lt x ys else x # y # ys)"

definition go_sort :: "('a \<Rightarrow> 'a \<Rightarrow> bool) \<Rightarrow> 'a list \<Rightarrow> 'a list" where
  "go_sort lt xs = rev (foldl (\<lambda>acc x. go_insert lt x acc) [] xs)"

function go_search_between :: "nat \<Rightarrow> nat \<Rightarrow> (nat \<Rightarrow> bool) \<Rightarrow> nat" where
  "go_search_between i j f =
     (if i < j then (let h = (i + j) div 2 in
        if f h then go_search_between i h f else go_search_between (Suc h) j f)
      else i)"
  by pat_completeness auto
termination
  by (relation "measure (\<lambda>(i, j, f). j - i)") auto

declare go_search_between.simps [simp del]

definition go_search :: "nat \<Rightarrow> (nat \<Rightarrow> bool) \<Rightarrow> nat" where
  "go_search n f = go_search_between 0 n f"

lemma mset_go_insert [simp]: "mset (go_insert lt x xs) = add_mset x (mset xs)"
  by (induction xs) auto

lemma set_go_insert [simp]: "set (go_insert lt x xs) = insert x (set xs)"
  by (induction xs) auto

lemma mset_foldl_go_insert:
  "mset (foldl (\<lambda>acc x. go_insert lt x acc) acc xs) = mset acc + mset xs"
  by (induction xs arbitrary: acc) auto

lemma mset_go_sort [simp]: "mset (go_sort lt xs) = mset xs"
  by (simp add: go_sort_def mset_foldl_go_insert)

lemma set_go_sort [simp]: "set (go_sort lt xs) = set xs"
  by (metis mset_go_sort set_mset_mset)

lemma length_go_sort [simp]: "length (go_sort lt xs) = length xs"
  by (metis mset_go_sort size_mset)

lemma distinct_go_sort [simp]: "distinct (go_sort lt xs) \<longleftrightarrow> distinct xs"
  by (metis mset_go_sort mset_eq_imp_distinct_iff)

lemma go_sort_Nil [simp]: "go_sort lt [] = []"
  by (simp add: go_sort_def)

lemma go_sort_snoc: "go_sort lt (xs @ [x]) = rev (go_insert lt x (rev (go_sort lt xs)))"
  by (simp add: go_sort_def)

text \<open>
  A comparator that looks at a key first sorts by that key, whatever it does with ties:
  \<open>key_first\<close> states it, and \<open>sorted_go_sort_key\<close> needs no transitivity of the tie-breaker.
\<close>

definition key_first :: "('a \<Rightarrow> 'b :: linorder) \<Rightarrow> ('a \<Rightarrow> 'a \<Rightarrow> bool) \<Rightarrow> bool" where
  "key_first k lt \<longleftrightarrow> (\<forall>x y. (k x < k y \<longrightarrow> lt x y) \<and> (lt x y \<longrightarrow> k x \<le> k y))"

lemma sorted_wrt_go_insert_key:
  assumes "key_first k lt" "sorted_wrt (\<lambda>a b. k b \<le> k a) xs"
  shows "sorted_wrt (\<lambda>a b. k b \<le> k a) (go_insert lt x xs)"
  using assms(2)
proof (induction xs)
  case Nil
  then show ?case by simp
next
  case (Cons y ys)
  show ?case
  proof (cases "lt x y")
    case True
    with assms(1) have "k x \<le> k y" by (auto simp: key_first_def)
    with True Cons show ?thesis by auto
  next
    case False
    with assms(1) have "k y \<le> k x" by (meson key_first_def leI)
    with False Cons.prems show ?thesis by force
  qed
qed

lemma sorted_go_sort_key:
  assumes "key_first k lt"
  shows "sorted (map k (go_sort lt xs))"
proof -
  have "sorted_wrt (\<lambda>a b. k b \<le> k a) (rev (go_sort lt xs))"
    using sorted_wrt_go_insert_key [OF assms]
    by (induction xs rule: rev_induct) (simp_all add: go_sort_snoc)
  then show ?thesis by (simp add: sorted_wrt_rev sorted_map)
qed

section \<open>Binary search\<close>

text \<open>
  Where the predicate is monotone (false up to some index, true from there on), the search
  returns the first index that satisfies it, or \<open>n\<close>.
\<close>

lemma go_search_between_done: "\<not> i < j \<Longrightarrow> go_search_between i j f = i"
  by (simp add: go_search_between.simps [of i j f])

lemma go_search_between_low:
  "i < j \<Longrightarrow> f ((i + j) div 2) \<Longrightarrow> go_search_between i j f = go_search_between i ((i + j) div 2) f"
  by (simp add: go_search_between.simps [of i j f] Let_def)

lemma go_search_between_high:
  "i < j \<Longrightarrow> \<not> f ((i + j) div 2) \<Longrightarrow>
     go_search_between i j f = go_search_between (Suc ((i + j) div 2)) j f"
  by (simp add: go_search_between.simps [of i j f] Let_def)

lemma go_search_between_spec:
  assumes "\<forall>a b. i \<le> a \<and> a \<le> b \<and> b < j \<and> f a \<longrightarrow> f b" and "i \<le> j"
  shows "i \<le> go_search_between i j f \<and> go_search_between i j f \<le> j \<and>
         (\<forall>k. i \<le> k \<and> k < go_search_between i j f \<longrightarrow> \<not> f k) \<and>
         (\<forall>k. go_search_between i j f \<le> k \<and> k < j \<longrightarrow> f k)"
  using assms
proof (induction i j f rule: go_search_between.induct)
  case (1 i j f)
  let ?h = "(i + j) div 2"
  consider (stop) "\<not> i < j" | (low) "i < j" "f ?h" | (high) "i < j" "\<not> f ?h" by blast
  then show ?case
  proof cases
    case stop
    with "1.prems"(2) show ?thesis by (auto simp: go_search_between_done)
  next
    case low
    let ?r = "go_search_between i ?h f"
    have h: "i \<le> ?h" "?h < j" using low by auto
    have mono: "\<forall>a b. i \<le> a \<and> a \<le> b \<and> b < ?h \<and> f a \<longrightarrow> f b"
      using "1.prems"(1) h by (meson less_trans)
    have IH: "i \<le> ?r" "?r \<le> ?h" "\<And>k. i \<le> k \<Longrightarrow> k < ?r \<Longrightarrow> \<not> f k" "\<And>k. ?r \<le> k \<Longrightarrow> k < ?h \<Longrightarrow> f k"
      using "1.IH"(1) [OF low(1) refl low(2) mono h(1)] by blast+
    have "f k" if "?r \<le> k" "k < j" for k
      using IH(4) [OF that(1)] "1.prems"(1) h low(2) that(2) by (cases "k < ?h") (auto simp: not_less)
    with IH h show ?thesis by (simp add: go_search_between_low [of i j f, OF low])
  next
    case high
    let ?r = "go_search_between (Suc ?h) j f"
    have h: "i \<le> ?h" "?h < j" using high by auto
    have mono: "\<forall>a b. Suc ?h \<le> a \<and> a \<le> b \<and> b < j \<and> f a \<longrightarrow> f b"
      using "1.prems"(1) h by (meson Suc_leD le_trans)
    have sh: "Suc ?h \<le> j" using h by simp
    have IH: "Suc ?h \<le> ?r" "?r \<le> j" "\<And>k. Suc ?h \<le> k \<Longrightarrow> k < ?r \<Longrightarrow> \<not> f k"
        "\<And>k. ?r \<le> k \<Longrightarrow> k < j \<Longrightarrow> f k"
      using "1.IH"(2) [OF high(1) refl high(2) mono sh] by blast+
    have "\<not> f k" if "i \<le> k" "k < ?r" for k
      using IH(3) [OF _ that(2)] "1.prems"(1) h high(2) that(1)
      by (cases "Suc ?h \<le> k") (auto simp: not_less_eq_eq)
    with IH h show ?thesis by (simp add: go_search_between_high [of i j f, OF high])
  qed
qed

lemma go_search_between_le: "i \<le> j \<Longrightarrow> go_search_between i j f \<le> j"
proof (induction i j f rule: go_search_between.induct)
  case (1 i j f)
  let ?h = "(i + j) div 2"
  consider (stop) "\<not> i < j" | (low) "i < j" "f ?h" | (high) "i < j" "\<not> f ?h" by blast
  then show ?case
  proof cases
    case stop
    with 1 show ?thesis by (simp add: go_search_between_done)
  next
    case low
    then have "go_search_between i ?h f \<le> ?h" "?h \<le> j" using "1.IH"(1) by auto
    then show ?thesis by (simp add: go_search_between_low [of i j f, OF low])
  next
    case high
    then have "go_search_between (Suc ?h) j f \<le> j" using "1.IH"(2) by auto
    then show ?thesis by (simp add: go_search_between_high [of i j f, OF high])
  qed
qed

lemma go_search_le: "go_search n f \<le> n"
  using go_search_between_le [of 0 n f] by (simp add: go_search_def)

lemma go_search_spec:
  assumes "\<And>a b. a \<le> b \<Longrightarrow> b < n \<Longrightarrow> f a \<Longrightarrow> f b"
  shows "k < go_search n f \<Longrightarrow> \<not> f k" and "go_search n f \<le> k \<Longrightarrow> k < n \<Longrightarrow> f k"
proof -
  have "\<forall>a b. 0 \<le> a \<and> a \<le> b \<and> b < n \<and> f a \<longrightarrow> f b" using assms by blast
  from go_search_between_spec [OF this]
  show "k < go_search n f \<Longrightarrow> \<not> f k" and "go_search n f \<le> k \<Longrightarrow> k < n \<Longrightarrow> f k"
    by (simp_all add: go_search_def)
qed

text \<open>Over a slice sorted by a key, searching for the first key at or above a bound.\<close>

lemma go_search_sorted_ge:
  fixes k :: "'a \<Rightarrow> 'b :: linorder" and b :: 'b and xs :: "'a list"
  assumes "sorted (map k xs)"
  defines "i \<equiv> go_search (length xs) (\<lambda>n. \<not> k (xs ! n) < b)"
  shows "\<forall>x \<in> set (take i xs). k x < b" and "\<forall>x \<in> set (drop i xs). b \<le> k x"
proof -
  have mono: "\<not> k (xs ! m) < b" if "l \<le> m" "m < length xs" "\<not> k (xs ! l) < b" for l m
    using that assms(1) sorted_nth_mono [of "map k xs" l m] by fastforce
  have "i \<le> length xs" by (simp add: i_def go_search_le)
  then show "\<forall>x \<in> set (take i xs). k x < b"
    using go_search_spec(1) [of "length xs" "\<lambda>n. \<not> k (xs ! n) < b", OF mono]
    by (auto simp: i_def in_set_conv_nth)
  show "\<forall>x \<in> set (drop i xs). b \<le> k x"
    using go_search_spec(2) [of "length xs" "\<lambda>n. \<not> k (xs ! n) < b", OF mono]
    by (auto simp: i_def in_set_conv_nth not_less)
qed

text \<open>Even without monotonicity the predicate changes at the index found.\<close>

lemma go_search_between_boundary:
  assumes "i \<le> j" "i = 0 \<or> \<not> f (i - 1)" "j = n \<or> f j"
  shows "(go_search_between i j f = 0 \<or> \<not> f (go_search_between i j f - 1)) \<and>
    (go_search_between i j f = n \<or> f (go_search_between i j f))"
  using assms
proof (induction i j f rule: go_search_between.induct)
  case (1 i j f)
  let ?h = "(i + j) div 2"
  consider (stop) "\<not> i < j" | (low) "i < j" "f ?h" | (high) "i < j" "\<not> f ?h" by blast
  then show ?case
  proof cases
    case stop
    with 1 have "i = j" by simp
    with stop 1 show ?thesis by (simp add: go_search_between_done)
  next
    case low
    with 1 show ?thesis by (simp add: go_search_between_low [of i j f, OF low])
  next
    case high
    then have "Suc ?h \<le> j" by simp
    with 1 high show ?thesis by (simp add: go_search_between_high [of i j f, OF high])
  qed
qed

lemma go_search_boundary:
  "go_search n f \<noteq> 0 \<Longrightarrow> \<not> f (go_search n f - 1)" "go_search n f \<noteq> n \<Longrightarrow> f (go_search n f)"
  using go_search_between_boundary [of 0 n f n] by (auto simp: go_search_def)

lemma go_search_mono:
  assumes "\<forall>a b. a \<le> b \<and> b < n \<and> f a \<longrightarrow> f b"
  shows "k < go_search n f \<Longrightarrow> \<not> f k" "go_search n f \<le> k \<Longrightarrow> k < n \<Longrightarrow> f k"
  using assms go_search_spec [of n f] by blast+

section \<open>Linear search and filters\<close>

lemma length_filter_mono: "(\<And>x. P x \<Longrightarrow> Q x) \<Longrightarrow> length (filter P xs) \<le> length (filter Q xs)"
  by (induction xs) (auto simp: le_SucI)

lemma length_filter_strict:
  assumes "\<And>x. P x \<Longrightarrow> Q x" "x \<in> set xs" "Q x" "\<not> P x"
  shows "length (filter P xs) < length (filter Q xs)"
  using assms(2)
proof (induction xs)
  case (Cons y ys)
  have m: "length (filter P ys) \<le> length (filter Q ys)" using assms(1) by (rule length_filter_mono)
  show ?case
  proof (cases "y = x")
    case True
    with m assms(3,4) show ?thesis by simp
  next
    case False
    with Cons have "length (filter P ys) < length (filter Q ys)" by simp
    with assms(1) [of y] show ?thesis by (cases "P y") (simp_all add: less_SucI)
  qed
qed simp

lemma find_SomeD: "find P xs = Some x \<Longrightarrow> x \<in> set xs \<and> P x"
  by (induction xs) (auto split: if_splits)

section \<open>Sequencing of checks\<close>

text \<open>
  A validator returns the first failing check: \<open>ensure\<close> is one \<^verbatim>\<open>if bad { return err }\<close> and
  \<open>and_then\<close> continues after it.
\<close>

definition ensure :: "bool \<Rightarrow> 'e \<Rightarrow> 'e + unit" where
  "ensure ok e = (if ok then Inr () else Inl e)"

definition and_then :: "'e + unit \<Rightarrow> 'e + 'a \<Rightarrow> 'e + 'a" where
  "and_then r k = (case r of Inl e \<Rightarrow> Inl e | Inr _ \<Rightarrow> k)"

fun ensure_all :: "('a \<Rightarrow> 'e + unit) \<Rightarrow> 'a list \<Rightarrow> 'e + unit" where
  "ensure_all f [] = Inr ()"
| "ensure_all f (x # xs) = and_then (f x) (ensure_all f xs)"

lemma ensure_Inr [simp]: "ensure ok e = Inr u \<longleftrightarrow> ok"
  by (simp add: ensure_def)

lemma and_then_Inr [simp]: "and_then r k = Inr x \<longleftrightarrow> (\<exists>u. r = Inr u) \<and> k = Inr x"
  by (cases r) (simp_all add: and_then_def)

lemma ensure_all_Inr [simp]: "ensure_all f xs = Inr u \<longleftrightarrow> (\<forall>x \<in> set xs. f x = Inr u)"
  by (induction xs) auto

end
