(* ===== verification/Go_Format.thy ===== *)
theory Go_Format
  imports Go_Base
begin

text \<open>
  What the backend uses of \<^verbatim>\<open>strconv\<close>, \<^verbatim>\<open>fmt\<close> and \<^verbatim>\<open>time.Format\<close>: decimal numerals, zero padding,
  the civil date of an instant and the layouts \<^verbatim>\<open>time.RFC3339Nano\<close> and \<^verbatim>\<open>150405\<close>.
\<close>

definition digit_char :: "int \<Rightarrow> char" where
  "digit_char d = char_of (48 + d)"

function decimal :: "int \<Rightarrow> string" where
  "decimal n = (if n < 10 then [digit_char n] else decimal (n div 10) @ [digit_char (n mod 10)])"
  by pat_completeness auto
termination
  by (relation "measure nat") auto

declare decimal.simps [simp del]

definition pad_left :: "nat \<Rightarrow> string \<Rightarrow> string" where
  "pad_left w s = replicate (w - length s) (CHR ''0'') @ s"

text \<open>A non-negative number printed as \<^verbatim>\<open>%0wd\<close>.\<close>

definition pad_num :: "nat \<Rightarrow> int \<Rightarrow> string" where
  "pad_num w n = pad_left w (decimal n)"

text \<open>Two decimal digits, as \<^verbatim>\<open>%02d\<close> prints a number below one hundred.\<close>

definition two_digits :: "int \<Rightarrow> string" where
  "two_digits n = [digit_char (n div 10), digit_char (n mod 10)]"

lemma pad_num_two_digits:
  assumes "0 \<le> n" "n < 100"
  shows "pad_num 2 n = two_digits n"
proof -
  have "n div 10 < 10" using assms by simp
  moreover have "CHR ''0'' = digit_char 0" by code_simp
  ultimately show ?thesis
    using assms
    by (cases "n < 10")
       (simp_all add: pad_num_def pad_left_def two_digits_def decimal.simps [of n]
          decimal.simps [of "n div 10"])
qed

text \<open>The civil date of a day number counted from 0001-01-01 (proleptic Gregorian).\<close>

definition civil_of_days :: "int \<Rightarrow> int \<times> int \<times> int" where
  "civil_of_days days =
     (let z = days + 306; era = z div 146097; doe = z mod 146097;
          yoe = (doe - doe div 1460 + doe div 36524 - doe div 146096) div 365;
          doy = doe - (365 * yoe + yoe div 4 - yoe div 100);
          mp = (5 * doy + 2) div 153;
          d = doy - (153 * mp + 2) div 5 + 1;
          m = (if mp < 10 then mp + 3 else mp - 9);
          y = yoe + era * 400 + (if m \<le> 2 then 1 else 0)
      in (y, m, d))"

definition zone_offset :: "location \<Rightarrow> int" where
  "zone_offset l = (case l of UTC \<Rightarrow> 0 | Zone s \<Rightarrow> s)"

definition local_seconds :: "gotime \<Rightarrow> int" where
  "local_seconds t = ns t div second + zone_offset (loc t)"

definition seconds_of_day :: "int \<Rightarrow> int" where
  "seconds_of_day s = s mod 86400"

definition fraction_digits :: "int \<Rightarrow> string" where
  "fraction_digits f =
     (if f = 0 then ''''
      else CHR ''.'' # rev (dropWhile (\<lambda>c. c = CHR ''0'') (rev (pad_num 9 f))))"

definition zone_suffix :: "location \<Rightarrow> string" where
  "zone_suffix l =
     (let o' = zone_offset l; a = \<bar>o'\<bar> div 60 in
      if o' = 0 then ''Z''
      else (if o' < 0 then ''-'' else ''+'') @ pad_num 2 (a div 60) @ '':'' @ pad_num 2 (a mod 60))"

definition rfc3339_nano :: "gotime \<Rightarrow> string" where
  "rfc3339_nano t =
     (let s = local_seconds t; sod = seconds_of_day s; (y, m, d) = civil_of_days (s div 86400) in
      pad_num 4 y @ ''-'' @ pad_num 2 m @ ''-'' @ pad_num 2 d @ ''T'' @
      pad_num 2 (sod div 3600) @ '':'' @ pad_num 2 (sod div 60 mod 60) @ '':'' @ pad_num 2 (sod mod 60) @
      fraction_digits (ns t mod second) @ zone_suffix (loc t))"

text \<open>\<^verbatim>\<open>now.UTC().Format("150405")\<close>: the time of day of the instant in UTC.\<close>

definition utc_seconds_of_day :: "gotime \<Rightarrow> int" where
  "utc_seconds_of_day t = seconds_of_day (ns t div second)"

lemma utc_seconds_of_day_range: "0 \<le> utc_seconds_of_day t" "utc_seconds_of_day t < 86400"
  by (simp_all add: utc_seconds_of_day_def seconds_of_day_def)

section \<open>Decimal numerals are read back\<close>

definition read_decimal :: "string \<Rightarrow> int" where
  "read_decimal s = foldl (\<lambda>a c. 10 * a + (of_char c - 48)) 0 s"

lemma of_char_digit: "0 \<le> d \<Longrightarrow> d < 10 \<Longrightarrow> (of_char (digit_char d) :: int) = 48 + d"
  by (simp add: digit_char_def)

lemma read_decimal: "0 \<le> n \<Longrightarrow> read_decimal (decimal n) = n"
proof (induction n rule: decimal.induct)
  case (1 n)
  show ?case
  proof (cases "n < 10")
    case True
    with 1 show ?thesis by (simp add: decimal.simps [of n] read_decimal_def of_char_digit)
  next
    case False
    with 1 have "read_decimal (decimal (n div 10)) = n div 10" by simp
    with False show ?thesis by (simp add: decimal.simps [of n] read_decimal_def of_char_digit)
  qed
qed

lemma decimal_inj: "0 \<le> m \<Longrightarrow> 0 \<le> n \<Longrightarrow> decimal m = decimal n \<Longrightarrow> m = n"
  by (metis read_decimal)

lemma decimal_digits: "0 \<le> n \<Longrightarrow> c \<in> set (decimal n) \<Longrightarrow> 48 \<le> (of_char c :: int) \<and> (of_char c :: int) < 58"
proof (induction n rule: decimal.induct)
  case (1 n)
  show ?case
  proof (cases "n < 10")
    case True
    with 1 show ?thesis by (simp add: decimal.simps [of n] of_char_digit)
  next
    case False
    with 1 have "c = digit_char (n mod 10) \<or> c \<in> set (decimal (n div 10))" by (simp add: decimal.simps [of n])
    with 1 False show ?thesis by (auto simp: of_char_digit)
  qed
qed

end
