(* ===== verification/Aman_Types.thy ===== *)
theory Aman_Types
  imports Complex_Main "HOL-Library.Word" Go_Format
begin

text \<open>
  The persisted AMAN aggregate of \<^verbatim>\<open>internal/aman/types.go\<close> as far as the lifecycle, prediction,
  review and sequencing components read or write it, with the source's validators.

  A Go string enumeration becomes a datatype with one constructor per declared constant and
  one more for the strings that are none of them, so that the \<^verbatim>\<open>Valid\<close> checks keep their failing branch. A
  \<^verbatim>\<open>float64\<close> is a rational number or one of the three special values.
\<close>

section \<open>Domain errors\<close>

datatype error_class = ErrorInvalidArgument | ErrorNotFound | ErrorRevisionConflict
  | ErrorUnauthorized | ErrorReadOnly | ErrorInvalidTransition | ErrorDependencyUnavailable
  | ErrorDegradedOrIncompleteGeometry | ErrorUnsupportedLeg | ErrorDatasetMismatch
  | ErrorCorruptData | ErrorActiveFlightConflict

datatype domain_error = DomainError (err_class: error_class) (err_message: string)

definition invalid :: "string \<Rightarrow> domain_error" where
  "invalid msg = DomainError ErrorInvalidArgument msg"

definition requireUTCTime :: "string \<Rightarrow> gotime \<Rightarrow> domain_error + unit" where
  "requireUTCTime name v =
     (if is_zero v then Inl (invalid (name @ '' is required''))
      else if loc v \<noteq> UTC then Inl (invalid (name @ '' must be UTC''))
      else Inr ())"

lemma requireUTCTime_Inr [simp]: "requireUTCTime name v = Inr u \<longleftrightarrow> valid_utc v"
  by (auto simp: requireUTCTime_def valid_utc_def)

definition require_opt :: "('a \<Rightarrow> domain_error + unit) \<Rightarrow> 'a option \<Rightarrow> domain_error + unit" where
  "require_opt f v = (case v of None \<Rightarrow> Inr () | Some x \<Rightarrow> f x)"

lemma require_opt_Inr [simp]: "require_opt f v = Inr u \<longleftrightarrow> (\<forall>x. v = Some x \<longrightarrow> f x = Inr ())"
  by (simp add: require_opt_def split: option.split)

section \<open>Floating-point values\<close>

datatype f64 = NaN | PosInf | NegInf | Fin rat

definition f_finite :: "f64 \<Rightarrow> bool" where
  "f_finite x = (case x of Fin _ \<Rightarrow> True | _ \<Rightarrow> False)"

text \<open>IEEE comparison against a constant: every comparison with NaN is false.\<close>

fun f_lt :: "f64 \<Rightarrow> rat \<Rightarrow> bool" where
  "f_lt (Fin r) c \<longleftrightarrow> r < c"
| "f_lt NegInf c \<longleftrightarrow> True"
| "f_lt _ c \<longleftrightarrow> False"

fun f_le :: "f64 \<Rightarrow> rat \<Rightarrow> bool" where
  "f_le (Fin r) c \<longleftrightarrow> r \<le> c"
| "f_le NegInf c \<longleftrightarrow> True"
| "f_le _ c \<longleftrightarrow> False"

fun f_gt :: "f64 \<Rightarrow> rat \<Rightarrow> bool" where
  "f_gt (Fin r) c \<longleftrightarrow> c < r"
| "f_gt PosInf c \<longleftrightarrow> True"
| "f_gt _ c \<longleftrightarrow> False"

fun f_ge :: "f64 \<Rightarrow> rat \<Rightarrow> bool" where
  "f_ge (Fin r) c \<longleftrightarrow> c \<le> r"
| "f_ge PosInf c \<longleftrightarrow> True"
| "f_ge _ c \<longleftrightarrow> False"

section \<open>Enumerations\<close>

datatype FlightState = StatePlanned | StateAirborne | StateUnstable | StateStable | StateLanded
  | StateGoAround | StateRemoved | StateOther string

fun FlightState_text :: "FlightState \<Rightarrow> string" where
  "FlightState_text StatePlanned = ''planned''"
| "FlightState_text StateAirborne = ''airborne''"
| "FlightState_text StateUnstable = ''unstable''"
| "FlightState_text StateStable = ''stable''"
| "FlightState_text StateLanded = ''landed''"
| "FlightState_text StateGoAround = ''go_around''"
| "FlightState_text StateRemoved = ''removed''"
| "FlightState_text (StateOther s) = s"

fun FlightState_Valid :: "FlightState \<Rightarrow> bool" where
  "FlightState_Valid (StateOther _) = False"
| "FlightState_Valid _ = True"

datatype LifecycleReason = LifecycleReasonInitial | LifecycleReasonAirborneDetected
  | LifecycleReasonUnstableHorizon | LifecycleReasonStableHorizon
  | LifecycleReasonGoAroundConfirmed | LifecycleReasonLandingConfirmed
  | LifecycleReasonSuddenAppearance | LifecycleReasonManualRemoval | LifecycleReasonDiverted
  | LifecycleReasonLandedTimeout | LifecycleReasonPlannedCancellation
  | LifecycleReasonSourceDisappearance | LifecycleReasonOther string

fun LifecycleReason_Valid :: "LifecycleReason \<Rightarrow> bool" where
  "LifecycleReason_Valid (LifecycleReasonOther _) = False"
| "LifecycleReason_Valid _ = True"

datatype DataStatus = DataFresh | DataStale | DataDisconnected | DataStatusOther string

fun DataStatus_text :: "DataStatus \<Rightarrow> string" where
  "DataStatus_text DataFresh = ''fresh''"
| "DataStatus_text DataStale = ''stale''"
| "DataStatus_text DataDisconnected = ''disconnected''"
| "DataStatus_text (DataStatusOther s) = s"

text \<open>The zero value of the Go type, written \<^verbatim>\<open>""\<close> in the source.\<close>

abbreviation DataStatusEmpty :: DataStatus where "DataStatusEmpty \<equiv> DataStatusOther ''''"

definition DataStatus_Valid :: "DataStatus \<Rightarrow> bool" where
  "DataStatus_Valid s \<longleftrightarrow> s = DataFresh \<or> s = DataStale \<or> s = DataDisconnected"

datatype Confidence = ConfidenceUnknown | ConfidenceLow | ConfidenceMedium | ConfidenceHigh
  | ConfidenceOther string

fun Confidence_Valid :: "Confidence \<Rightarrow> bool" where
  "Confidence_Valid (ConfidenceOther _) = False"
| "Confidence_Valid _ = True"

datatype OperationalReason = OperationalReasonPredicted | OperationalReasonSmoothed
  | OperationalReasonDeadband | OperationalReasonRateLimited | OperationalReasonRouteRevision
  | OperationalReasonRouteRecovery | OperationalReasonRunwayGroupChanged
  | OperationalReasonFirstUnstable | OperationalReasonManualOverride
  | OperationalReasonSuperstableFreeze | OperationalReasonTMAFreeze | OperationalReasonGoAround
  | OperationalReasonHoldingPriority | OperationalReasonOther string

fun OperationalReason_Valid :: "OperationalReason \<Rightarrow> bool" where
  "OperationalReason_Valid (OperationalReasonOther _) = False"
| "OperationalReason_Valid _ = True"

datatype FreezeReason = FreezeNone | FreezeSuperstable | FreezeTMA | FreezeManual
  | FreezeOther string

fun FreezeReason_Valid :: "FreezeReason \<Rightarrow> bool" where
  "FreezeReason_Valid (FreezeOther _) = False"
| "FreezeReason_Valid _ = True"

datatype FeederETASource = FeederETASourceRoute | FeederETASourceHolding
  | FeederETASourceManual | FeederETASourcePassed | FeederETASourceOther string

fun FeederETASource_text :: "FeederETASource \<Rightarrow> string" where
  "FeederETASource_text FeederETASourceRoute = ''route''"
| "FeederETASource_text FeederETASourceHolding = ''holding''"
| "FeederETASource_text FeederETASourceManual = ''manual''"
| "FeederETASource_text FeederETASourcePassed = ''passed''"
| "FeederETASource_text (FeederETASourceOther s) = s"

fun FeederETASource_Valid :: "FeederETASource \<Rightarrow> bool" where
  "FeederETASource_Valid (FeederETASourceOther _) = False"
| "FeederETASource_Valid _ = True"

datatype PredictionBasis = PredictionBasisEmpty | PredictionBasisPerformanceWind
  | PredictionBasisRETA | PredictionBasisOther string

fun PredictionBasis_Valid :: "PredictionBasis \<Rightarrow> bool" where
  "PredictionBasis_Valid (PredictionBasisOther _) = False"
| "PredictionBasis_Valid _ = True"

datatype BaselineSource = BaselineSourceNone | BaselineSourcePlannedEOBTFiledEET
  | BaselineSourcePlannedEstimatedDepartureFiledEET
  | BaselineSourcePlannedEOBTAPIEstimatedFlightTime
  | BaselineSourcePlannedEstimatedDepartureAPIEstimatedFlightTime
  | BaselineSourceAirborneFiledEET | BaselineSourceAirborneAPIEstimatedFlightTime
  | BaselineSourceAirborneGreatCircle | BaselineSourceRouteAware | BaselineSourceOther string

fun BaselineSource_Valid :: "BaselineSource \<Rightarrow> bool" where
  "BaselineSource_Valid (BaselineSourceOther _) = False"
| "BaselineSource_Valid _ = True"

definition holdsAirborneBaseline :: "BaselineSource \<Rightarrow> bool" where
  "holdsAirborneBaseline s \<longleftrightarrow> s = BaselineSourceAirborneFiledEET \<or>
     s = BaselineSourceAirborneAPIEstimatedFlightTime \<or> s = BaselineSourceAirborneGreatCircle"

datatype BaselineDegradationReason = BaselineDegradationFiledEETMissingAPIUsed
  | BaselineDegradationGreatCircleUsed | BaselineDegradationOther string

datatype ETAReviewStatus = ReviewNone | ReviewPending | ReviewAcceptedCalculatedTETA
  | ReviewKeptInitialFPLETA | ReviewManualETA | ReviewAutoAcceptedCalculatedTETA
  | ReviewOther string

fun ETAReviewStatus_Valid :: "ETAReviewStatus \<Rightarrow> bool" where
  "ETAReviewStatus_Valid (ReviewOther _) = False"
| "ETAReviewStatus_Valid _ = True"

datatype OperationalExceptionReason = OperationalExceptionSuddenInsideFreeze
  | OperationalExceptionOther string

section \<open>Feeder timing and holding plans\<close>

record FeederETAState =
  feeder_ETA :: "gotime option"
  feeder_Source :: FeederETASource
  feeder_Passed :: bool

definition FeederETAState_Validate :: "FeederETAState \<Rightarrow> domain_error + unit" where
  "FeederETAState_Validate s =
     (if \<not> FeederETASource_Valid (feeder_Source s) then Inl (invalid ''feeder ETA source is invalid'')
      else if feeder_Passed s then
        (if feeder_Source s \<noteq> FeederETASourcePassed \<or> feeder_ETA s \<noteq> None
         then Inl (invalid ''passed feeder must use passed provenance without an ETA'')
         else Inr ())
      else (case feeder_ETA s of
          None \<Rightarrow> Inl (invalid ''unpassed feeder requires an ETA and timing provenance'')
        | Some eta \<Rightarrow>
            (if feeder_Source s = FeederETASourcePassed
             then Inl (invalid ''unpassed feeder requires an ETA and timing provenance'')
             else requireUTCTime ''feeder ETA'' eta)))"

record HoldingPlan =
  hp_HoldingEntryTime :: gotime
  hp_ApproachReleaseTime :: gotime
  hp_ExpectedHoldingDuration :: duration
  hp_PostHoldingTransit :: duration
  hp_AdditionalApproachTime :: duration

definition HoldingPlan_Validate :: "HoldingPlan \<Rightarrow> domain_error + unit" where
  "HoldingPlan_Validate p =
     and_then (requireUTCTime ''holding entry time'' (hp_HoldingEntryTime p))
     (and_then (requireUTCTime ''approach release time'' (hp_ApproachReleaseTime p))
     (and_then (ensure (\<not> hp_AdditionalApproachTime p < 0)
        (invalid ''additional approach time cannot be negative''))
     (and_then (ensure (after (hp_ApproachReleaseTime p) (hp_HoldingEntryTime p) \<and>
          \<not> hp_ExpectedHoldingDuration p \<le> 0 \<and> \<not> hp_PostHoldingTransit p \<le> 0)
        (invalid ''holding plan timing is invalid''))
     (ensure (t_sub (hp_ApproachReleaseTime p) (hp_HoldingEntryTime p) = hp_ExpectedHoldingDuration p)
        (invalid ''holding plan duration does not match entry and release'')))))"

section \<open>Prediction calculation\<close>

record PredictionLeg =
  leg_ID :: string
  leg_From :: string
  leg_To :: string
  leg_StartLatitude :: f64
  leg_StartLongitude :: f64
  leg_EndLatitude :: f64
  leg_EndLongitude :: f64
  leg_DistanceNM :: f64
  leg_CourseTrueDegrees :: f64
  leg_NoWindDuration :: duration
  leg_Duration :: duration

definition leg_coordinate_ok :: "f64 \<times> f64 \<Rightarrow> bool" where
  "leg_coordinate_ok c = (case c of (lat, lon) \<Rightarrow>
     f_finite lat \<and> \<not> f_lt lat (-90) \<and> \<not> f_gt lat 90 \<and>
     f_finite lon \<and> \<not> f_lt lon (-180) \<and> \<not> f_gt lon 180)"

definition PredictionLeg_Validate :: "PredictionLeg \<Rightarrow> domain_error + unit" where
  "PredictionLeg_Validate l =
     and_then (ensure (trimmed_non_empty (leg_ID l) \<and> trimmed_non_empty (leg_From l) \<and>
          trimmed_non_empty (leg_To l) \<and>
          \<not> f_le (leg_DistanceNM l) 0 \<and> f_finite (leg_DistanceNM l) \<and>
          \<not> f_lt (leg_CourseTrueDegrees l) 0 \<and> \<not> f_ge (leg_CourseTrueDegrees l) 360 \<and>
          f_finite (leg_CourseTrueDegrees l) \<and>
          \<not> leg_NoWindDuration l < 0 \<and> \<not> leg_Duration l \<le> 0)
        (invalid ''prediction leg is invalid''))
     (ensure_all (\<lambda>c. ensure (leg_coordinate_ok c) (invalid ''prediction leg coordinate is invalid''))
        [(leg_StartLatitude l, leg_StartLongitude l), (leg_EndLatitude l, leg_EndLongitude l)])"

record PredictionSegment =
  seg_RouteLegIndex :: int
  seg_PreTOD :: bool
  seg_PhaseID :: string
  seg_PhaseName :: string
  seg_PhaseFormula :: string
  seg_DistanceNM :: f64
  seg_CourseTrueDegrees :: f64
  seg_StartAltitudeFeet :: f64
  seg_EndAltitudeFeet :: f64
  seg_AltitudeFeet :: f64
  seg_IndicatedAirspeedKnots :: "f64 option"
  seg_NoWindGroundspeedKnots :: f64
  seg_GroundspeedKnots :: f64
  seg_TailwindKnots :: "f64 option"
  seg_NoWindDuration :: duration
  seg_Duration :: duration

definition PredictionSegment_Validate :: "int \<Rightarrow> PredictionSegment \<Rightarrow> domain_error + unit" where
  "PredictionSegment_Validate legCount s =
     and_then (ensure (\<not> seg_RouteLegIndex s < 0 \<and> \<not> seg_RouteLegIndex s \<ge> legCount \<and>
          \<not> f_le (seg_DistanceNM s) 0 \<and>
          \<not> f_lt (seg_CourseTrueDegrees s) 0 \<and> \<not> f_ge (seg_CourseTrueDegrees s) 360 \<and>
          \<not> f_lt (seg_StartAltitudeFeet s) 0 \<and> \<not> f_lt (seg_EndAltitudeFeet s) 0 \<and>
          \<not> f_lt (seg_AltitudeFeet s) 0 \<and> \<not> f_le (seg_NoWindGroundspeedKnots s) 0 \<and>
          \<not> f_le (seg_GroundspeedKnots s) 0 \<and>
          \<not> seg_NoWindDuration s \<le> 0 \<and> \<not> seg_Duration s \<le> 0)
        (invalid ''prediction segment is invalid''))
     (and_then (ensure (\<not> ((seg_PhaseID s \<noteq> '''' \<or> seg_PhaseName s \<noteq> '''' \<or> seg_PhaseFormula s \<noteq> '''') \<and>
          (\<not> trimmed_non_empty (seg_PhaseID s) \<or> \<not> trimmed_non_empty (seg_PhaseName s) \<or>
           \<not> trimmed_non_empty (seg_PhaseFormula s))))
        (invalid ''prediction segment phase is invalid''))
     (and_then (ensure_all (\<lambda>v. ensure (f_finite v) (invalid ''prediction segment is invalid''))
        [seg_DistanceNM s, seg_CourseTrueDegrees s, seg_StartAltitudeFeet s, seg_EndAltitudeFeet s,
         seg_AltitudeFeet s, seg_NoWindGroundspeedKnots s, seg_GroundspeedKnots s])
     (ensure_all (\<lambda>v. case v of None \<Rightarrow> Inr ()
          | Some x \<Rightarrow> ensure (f_finite x) (invalid ''prediction segment is invalid''))
        [seg_IndicatedAirspeedKnots s, seg_TailwindKnots s])))"

record PredictionCalculation =
  calc_NoWindDuration :: duration
  calc_Duration :: duration
  calc_Legs :: "PredictionLeg list"
  calc_Segments :: "PredictionSegment list"

definition PredictionCalculation_Validate :: "PredictionCalculation \<Rightarrow> domain_error + unit" where
  "PredictionCalculation_Validate c =
     (let total = sum_list (map leg_Duration (calc_Legs c));
          noWindTotal = sum_list (map leg_NoWindDuration (calc_Legs c));
          hasNoWind = list_ex (\<lambda>l. leg_NoWindDuration l > 0) (calc_Legs c);
          missingNoWind = list_ex (\<lambda>l. leg_NoWindDuration l = 0) (calc_Legs c)
      in
      and_then (ensure (\<not> calc_NoWindDuration c \<le> 0 \<and> \<not> calc_Duration c \<le> 0 \<and> calc_Legs c \<noteq> [])
         (invalid ''prediction calculation is incomplete''))
      (and_then (ensure_all PredictionLeg_Validate (calc_Legs c))
      (and_then (ensure (total = calc_Duration c)
         (invalid ''prediction calculation duration does not match its legs''))
      (and_then (ensure (\<not> (hasNoWind \<and> missingNoWind))
         (invalid ''prediction no-wind leg durations must be complete''))
      (and_then (ensure (\<not> (hasNoWind \<and> noWindTotal \<noteq> calc_NoWindDuration c))
         (invalid ''prediction no-wind calculation duration does not match its legs''))
      (if calc_Segments c = [] then Inr ()
       else and_then (ensure_all (PredictionSegment_Validate (int (length (calc_Legs c)))) (calc_Segments c))
         (ensure (sum_list (map seg_Duration (calc_Segments c)) = calc_Duration c \<and>
              sum_list (map seg_NoWindDuration (calc_Segments c)) = calc_NoWindDuration c)
            (invalid ''prediction calculation duration does not match its segments'')))))))) "

section \<open>Prediction\<close>

record Prediction =
  pred_RawTETA :: gotime
  pred_RawRETA :: "gotime option"
  pred_OperationalTETA :: gotime
  pred_OperationalReason :: OperationalReason
  pred_GeneratedAt :: gotime
  pred_InputObservedAt :: gotime
  pred_Confidence :: Confidence
  pred_Publishable :: bool
  pred_DegradationReason :: "string option"
  pred_DatasetVersion :: string
  pred_GeometryDigest :: string
  pred_DistanceToGoNM :: "f64 option"
  pred_RemainingRouteFixes :: "string list"
  pred_HoldingFixETA :: "gotime option"
  pred_HoldingPlan :: "HoldingPlan option"
  pred_HoldingPlanBlockedBy :: "string option"
  pred_ModelVersion :: string
  pred_ConfigVersion :: string
  pred_Basis :: PredictionBasis
  pred_PerformanceProfileID :: "string option"
  pred_WeatherSource :: "string option"
  pred_Sources :: "string list option"
  pred_Calculation :: "PredictionCalculation option"

definition Prediction_Validate :: "Prediction \<Rightarrow> domain_error + unit" where
  "Prediction_Validate p =
     and_then (requireUTCTime ''raw TETA'' (pred_RawTETA p))
     (and_then (requireUTCTime ''operational TETA'' (pred_OperationalTETA p))
     (and_then (require_opt (requireUTCTime ''raw RETA'') (pred_RawRETA p))
     (and_then (ensure (OperationalReason_Valid (pred_OperationalReason p))
        (invalid ''operational reason is invalid''))
     (and_then (requireUTCTime ''generated at'' (pred_GeneratedAt p))
     (and_then (requireUTCTime ''input observed at'' (pred_InputObservedAt p))
     (and_then (ensure (Confidence_Valid (pred_Confidence p)) (invalid ''confidence is invalid''))
     (and_then (ensure (trim_space (pred_DatasetVersion p) \<noteq> '''' \<and> trim_space (pred_GeometryDigest p) \<noteq> '''' \<and>
          trim_space (pred_ModelVersion p) \<noteq> '''' \<and> trim_space (pred_ConfigVersion p) \<noteq> '''')
        (invalid ''prediction provenance is incomplete''))
     (and_then (ensure (PredictionBasis_Valid (pred_Basis p)) (invalid ''prediction basis is invalid''))
     (and_then (require_opt (\<lambda>d. ensure (\<not> f_lt d 0) (invalid ''distance to go cannot be negative''))
        (pred_DistanceToGoNM p))
     (and_then (require_opt (requireUTCTime ''holding fix ETA'') (pred_HoldingFixETA p))
     (and_then (require_opt HoldingPlan_Validate (pred_HoldingPlan p))
     (and_then (ensure (pred_Sources p \<noteq> None) (invalid ''prediction sources must be explicit''))
     (require_opt PredictionCalculation_Validate (pred_Calculation p))))))))))))))"

record RawTETASample =
  sample_TETA :: gotime
  sample_GeneratedAt :: gotime
  sample_ObservedAt :: gotime

definition RawTETASample_Validate :: "RawTETASample \<Rightarrow> domain_error + unit" where
  "RawTETASample_Validate s =
     and_then (if is_zero (sample_ObservedAt s) then Inr ()
        else and_then (requireUTCTime ''raw TETA sample observed at'' (sample_ObservedAt s))
          (ensure (\<not> after (sample_ObservedAt s) (sample_GeneratedAt s))
             (invalid ''raw TETA sample observation is in the future'')))
     (and_then (requireUTCTime ''raw TETA sample'' (sample_TETA s))
     (requireUTCTime ''raw TETA sample generated at'' (sample_GeneratedAt s)))"

record BaselineState =
  base_ArrivalAt :: gotime
  base_AirborneSensedAt :: gotime
  base_Source :: BaselineSource
  base_Confidence :: Confidence
  base_DegradationReason :: "BaselineDegradationReason option"
  base_SpeedDefaultsVersion :: string
  base_FlightPlanRevision :: "nat option"
  base_FlightPlanObservedAt :: gotime
  base_ModelVersion :: string
  base_ConfigVersion :: string

definition BaselineState_Validate :: "BaselineState \<Rightarrow> domain_error + unit" where
  "BaselineState_Validate b =
     and_then (requireUTCTime ''baseline arrival'' (base_ArrivalAt b))
     (and_then (requireUTCTime ''baseline airborne sensed at'' (base_AirborneSensedAt b))
     (and_then (ensure (after (base_ArrivalAt b) (base_AirborneSensedAt b))
        (invalid ''baseline arrival must be after airborne sensed at''))
     (and_then (requireUTCTime ''baseline flight plan observed at'' (base_FlightPlanObservedAt b))
     (and_then (ensure (BaselineSource_Valid (base_Source b) \<and> holdsAirborneBaseline (base_Source b) \<and>
          Confidence_Valid (base_Confidence b))
        (invalid ''baseline provenance is invalid''))
     (and_then (ensure (trim_space (base_ModelVersion b) \<noteq> '''' \<and> trim_space (base_ConfigVersion b) \<noteq> '''')
        (invalid ''baseline model and config versions are required''))
     (case base_Source b of
        BaselineSourceAirborneFiledEET \<Rightarrow>
          ensure (base_DegradationReason b = None \<and> base_SpeedDefaultsVersion b = '''')
            (invalid ''filed airborne baseline must not claim degradation or speed defaults'')
      | BaselineSourceAirborneAPIEstimatedFlightTime \<Rightarrow>
          ensure (base_DegradationReason b = Some BaselineDegradationFiledEETMissingAPIUsed \<and>
              base_SpeedDefaultsVersion b = '''')
            (invalid ''API airborne baseline provenance is invalid'')
      | BaselineSourceAirborneGreatCircle \<Rightarrow>
          ensure (base_DegradationReason b = Some BaselineDegradationGreatCircleUsed \<and>
              trim_space (base_SpeedDefaultsVersion b) \<noteq> '''')
            (invalid ''great-circle airborne baseline provenance is invalid'')
      | _ \<Rightarrow> Inr ()))))))"

section \<open>Slots, reviews and lifecycle metadata\<close>

record Slot =
  slot_Time :: gotime
  slot_RunwayGroupID :: string
  slot_Sequence :: int
  slot_Revision :: nat
  slot_Reason :: string

definition Slot_validate :: "Slot \<Rightarrow> domain_error + unit" where
  "Slot_validate s =
     and_then (requireUTCTime ''slot time'' (slot_Time s))
     (ensure (trim_space (slot_RunwayGroupID s) \<noteq> '''' \<and> \<not> slot_Sequence s < 1 \<and>
          trim_space (slot_Reason s) \<noteq> '''')
        (invalid ''slot is incomplete''))"

record ETAReview =
  review_Status :: ETAReviewStatus
  review_CreatedAt :: gotime
  review_DeadlineAt :: gotime
  review_ResolvedAt :: "gotime option"
  review_Actor :: "string option"
  review_Note :: "string option"
  review_InitialBaselineTETA :: gotime
  review_CalculatedOperationalTETA :: gotime
  review_SelectedTETA :: gotime
  review_ManualTETA :: "gotime option"

definition validReviewActor :: "string option \<Rightarrow> bool" where
  "validReviewActor actor = (case actor of None \<Rightarrow> False | Some a \<Rightarrow> trimmed_non_empty a)"

text \<open>The checks of \<^verbatim>\<open>ETAReview.Validate\<close> on a review resolved at \<open>tm\<close>.\<close>

definition ETAReview_Validate_resolved :: "ETAReview \<Rightarrow> gotime \<Rightarrow> domain_error + unit" where
  "ETAReview_Validate_resolved r tm =
     (case review_Status r of
        ReviewAcceptedCalculatedTETA \<Rightarrow>
          ensure (validReviewActor (review_Actor r) \<and> review_ManualTETA r = None \<and>
              t_equal (review_SelectedTETA r) (review_CalculatedOperationalTETA r) \<and>
              before tm (review_DeadlineAt r))
            (invalid ''accepted calculated ETA review is inconsistent'')
      | ReviewKeptInitialFPLETA \<Rightarrow>
          ensure (validReviewActor (review_Actor r) \<and> review_ManualTETA r = None \<and>
              t_equal (review_SelectedTETA r) (review_InitialBaselineTETA r) \<and>
              before tm (review_DeadlineAt r))
            (invalid ''kept initial ETA review is inconsistent'')
      | ReviewManualETA \<Rightarrow>
          (case review_ManualTETA r of
             None \<Rightarrow> Inl (invalid ''manual ETA review is inconsistent'')
           | Some manual \<Rightarrow>
               and_then (ensure (validReviewActor (review_Actor r) \<and>
                    t_equal (review_SelectedTETA r) manual \<and> before tm (review_DeadlineAt r))
                  (invalid ''manual ETA review is inconsistent''))
               (requireUTCTime ''ETA review manual TETA'' manual))
      | ReviewAutoAcceptedCalculatedTETA \<Rightarrow>
          ensure (review_Actor r = None \<and> review_Note r = None \<and> review_ManualTETA r = None \<and>
              t_equal (review_SelectedTETA r) (review_CalculatedOperationalTETA r) \<and>
              t_equal tm (review_DeadlineAt r))
            (invalid ''auto-accepted ETA review is inconsistent'')
      | _ \<Rightarrow> Inr ())"

definition ETAReview_Validate :: "ETAReview \<Rightarrow> domain_error + unit" where
  "ETAReview_Validate r =
     and_then (ensure (ETAReviewStatus_Valid (review_Status r)) (invalid ''ETA review status is invalid''))
     (if review_Status r = ReviewNone then
        ensure (is_zero (review_CreatedAt r) \<and> is_zero (review_DeadlineAt r) \<and> review_ResolvedAt r = None \<and>
            review_Actor r = None \<and> review_Note r = None \<and> is_zero (review_InitialBaselineTETA r) \<and>
            is_zero (review_CalculatedOperationalTETA r) \<and> is_zero (review_SelectedTETA r) \<and>
            review_ManualTETA r = None)
          (invalid ''empty ETA review cannot retain review values'')
      else
        and_then (ensure_all (\<lambda>(label, v). requireUTCTime label v)
          [(''ETA review created at'', review_CreatedAt r),
           (''ETA review deadline at'', review_DeadlineAt r),
           (''ETA review initial baseline'', review_InitialBaselineTETA r),
           (''ETA review calculated operational TETA'', review_CalculatedOperationalTETA r),
           (''ETA review selected TETA'', review_SelectedTETA r)])
        (and_then (ensure (after (review_DeadlineAt r) (review_CreatedAt r))
          (invalid ''ETA review deadline must follow creation''))
        (and_then (require_opt (\<lambda>n. ensure (trimmed_non_empty n)
              (invalid ''ETA review note must be trimmed and non-empty'')) (review_Note r))
        (if review_Status r = ReviewPending then
           ensure (review_ResolvedAt r = None \<and> review_Actor r = None \<and> review_Note r = None \<and>
               review_ManualTETA r = None \<and>
               t_equal (review_SelectedTETA r) (review_CalculatedOperationalTETA r))
             (invalid ''pending ETA review has resolved values'')
         else (case review_ResolvedAt r of
             None \<Rightarrow> Inl (invalid ''resolved ETA review requires resolution time'')
           | Some tm \<Rightarrow>
               and_then (requireUTCTime ''ETA review resolved at'' tm)
               (and_then (ensure (\<not> before tm (review_CreatedAt r))
                  (invalid ''ETA review resolution cannot predate creation''))
               (ETAReview_Validate_resolved r tm)))))))"

record OperationalException =
  oe_Reason :: OperationalExceptionReason
  oe_DetectedAt :: gotime

record AbsenceState =
  abs_MissingSince :: gotime
  abs_RemovalDueAt :: "gotime option"
  abs_Remaining :: duration

definition AbsenceState_Validate :: "AbsenceState \<Rightarrow> domain_error + unit" where
  "AbsenceState_Validate s =
     and_then (requireUTCTime ''absence missing since'' (abs_MissingSince s))
     (and_then (ensure (\<not> abs_Remaining s < 0) (invalid ''absence remaining duration cannot be negative''))
     (case abs_RemovalDueAt s of
        None \<Rightarrow> Inr ()
      | Some due \<Rightarrow>
          and_then (ensure (abs_Remaining s = 0)
             (invalid ''running absence timer cannot retain a paused duration''))
          (and_then (requireUTCTime ''absence removal due at'' due)
          (ensure (\<not> before due (abs_MissingSince s))
             (invalid ''absence removal deadline cannot predate disappearance'')))))"

record LifecycleState =
  lc_EnteredAt :: gotime
  lc_Reason :: LifecycleReason
  lc_LastEventID :: string
  lc_LastEventFingerprint :: string
  lc_LastEventAt :: gotime
  lc_ReconciliationPending :: bool
  lc_Absence :: "AbsenceState option"

definition LifecycleState_Validate :: "LifecycleState \<Rightarrow> domain_error + unit" where
  "LifecycleState_Validate s =
     and_then (ensure (LifecycleReason_Valid (lc_Reason s)) (invalid ''lifecycle reason is invalid''))
     (and_then (requireUTCTime ''lifecycle entered at'' (lc_EnteredAt s))
     (and_then (requireUTCTime ''lifecycle last event at'' (lc_LastEventAt s))
     (ensure (trimmed_non_empty (lc_LastEventID s) \<and> trimmed_non_empty (lc_LastEventFingerprint s))
        (invalid ''lifecycle last event identity is required''))))"

section \<open>The spike filter\<close>

record PredictionCandidate =
  pcand_TETA :: gotime
  pcand_FeederETA :: "gotime option"
  pcand_FirstObservedAt :: gotime
  pcand_Since :: gotime
  pcand_Samples :: "32 word"

record PredictionFilterState =
  pf_LastObservedAt :: gotime
  pf_Pending :: "PredictionCandidate option"
  pf_Unreliable :: bool

definition PredictionFilterState_Validate :: "PredictionFilterState \<Rightarrow> domain_error + unit" where
  "PredictionFilterState_Validate s =
     and_then (requireUTCTime ''prediction filter observed at'' (pf_LastObservedAt s))
     (and_then (ensure (\<not> (pf_Unreliable s \<and> pf_Pending s = None))
        (invalid ''unreliable prediction requires a pending candidate''))
     (require_opt (\<lambda>p.
        and_then (ensure (\<not> (pcand_Samples p = 0 \<or> after (pcand_FirstObservedAt p) (pf_LastObservedAt s)))
           (invalid ''prediction filter candidate has invalid observation evidence''))
        (and_then (ensure_all (requireUTCTime ''prediction filter candidate'')
           [pcand_TETA p, pcand_FirstObservedAt p, pcand_Since p])
        (require_opt (requireUTCTime ''prediction filter feeder ETA'') (pcand_FeederETA p)))) (pf_Pending s)))"

section \<open>The flight aggregate\<close>

text \<open>
  The fields of \<^verbatim>\<open>AMANFlight\<close> that the modelled reducers read or write. Every other field of the
  struct is carried through these reducers unchanged and is left out.
\<close>

record AMANFlight =
  f_Callsign :: string
  f_State :: FlightState
  f_DataStatus :: DataStatus
  f_Prediction :: "Prediction option"
  f_PredictionFilter :: "PredictionFilterState option"
  f_FeederETA :: "FeederETAState option"
  f_DerivedFeederETA :: "FeederETAState option"
  f_RawTETASamples :: "RawTETASample list"
  f_ArrivalBaseline :: "BaselineState option"
  f_FreezeReason :: FreezeReason
  f_FrozenAt :: "gotime option"
  f_FrozenOperationalTETA :: "gotime option"
  f_FrozenSlot :: "Slot option"
  f_Slot :: "Slot option"
  f_ETAReview :: "ETAReview option"
  f_OperationalException :: "OperationalException option"
  f_Lifecycle :: "LifecycleState option"
  f_UpdatedAt :: gotime

text \<open>\<^verbatim>\<open>lifecycleReasonMatchesState\<close>, with the reason of the (non-nil) lifecycle metadata as an argument.\<close>

fun lifecycleReasonMatchesState :: "LifecycleReason \<Rightarrow> FlightState \<Rightarrow> bool" where
  "lifecycleReasonMatchesState LifecycleReasonInitial s \<longleftrightarrow> True"
| "lifecycleReasonMatchesState LifecycleReasonAirborneDetected s \<longleftrightarrow> s = StateAirborne"
| "lifecycleReasonMatchesState LifecycleReasonUnstableHorizon s \<longleftrightarrow> s = StateUnstable"
| "lifecycleReasonMatchesState LifecycleReasonStableHorizon s \<longleftrightarrow> s = StateStable"
| "lifecycleReasonMatchesState LifecycleReasonGoAroundConfirmed s \<longleftrightarrow> s = StateGoAround"
| "lifecycleReasonMatchesState LifecycleReasonLandingConfirmed s \<longleftrightarrow> s = StateLanded"
| "lifecycleReasonMatchesState LifecycleReasonSuddenAppearance s \<longleftrightarrow>
     s = StateAirborne \<or> s = StateUnstable \<or> s = StateStable"
| "lifecycleReasonMatchesState LifecycleReasonManualRemoval s \<longleftrightarrow> s = StateRemoved"
| "lifecycleReasonMatchesState LifecycleReasonDiverted s \<longleftrightarrow> s = StateRemoved"
| "lifecycleReasonMatchesState LifecycleReasonLandedTimeout s \<longleftrightarrow> s = StateRemoved"
| "lifecycleReasonMatchesState LifecycleReasonPlannedCancellation s \<longleftrightarrow> s = StateRemoved"
| "lifecycleReasonMatchesState LifecycleReasonSourceDisappearance s \<longleftrightarrow> s = StateRemoved"
| "lifecycleReasonMatchesState (LifecycleReasonOther _) s \<longleftrightarrow> False"

definition validateFreeze :: "AMANFlight \<Rightarrow> domain_error + unit" where
  "validateFreeze f =
     (if f_FreezeReason f = FreezeNone then
        ensure (f_FrozenAt f = None \<and> f_FrozenOperationalTETA f = None \<and> f_FrozenSlot f = None)
          (invalid ''unfrozen flight cannot retain freeze values'')
      else (case (f_FrozenAt f, f_FrozenOperationalTETA f) of
          (Some tm, Some teta) \<Rightarrow>
            and_then (requireUTCTime ''frozen at'' tm)
            (and_then (requireUTCTime ''frozen operational TETA'' teta)
            (and_then (if f_FreezeReason f = FreezeSuperstable then
                (case f_FrozenSlot f of
                   None \<Rightarrow> Inl (invalid ''Superstable freeze requires a captured slot'')
                 | Some s \<Rightarrow> and_then (ensure (f_Slot f \<noteq> None)
                     (invalid ''Superstable freeze requires a captured slot'')) (Slot_validate s))
              else Inr ())
            (if f_FreezeReason f = FreezeTMA then require_opt Slot_validate (f_FrozenSlot f) else Inr ())))
        | _ \<Rightarrow> Inl (invalid ''frozen flight requires timestamp and operational TETA'')))"

text \<open>The smoothing-window checks of \<^verbatim>\<open>AMANFlight.Validate\<close>: \<open>prev\<close> is the sample before.\<close>

fun validateSamples_from :: "RawTETASample option \<Rightarrow> RawTETASample list \<Rightarrow> domain_error + unit" where
  "validateSamples_from prev [] = Inr ()"
| "validateSamples_from prev (s # ss) =
     and_then (RawTETASample_Validate s)
     (and_then (require_opt (\<lambda>p. ensure (after (sample_GeneratedAt s) (sample_GeneratedAt p))
          (invalid ''raw TETA smoothing samples must be ordered by generation time'')) prev)
     (validateSamples_from (Some s) ss))"

definition validateSamples :: "RawTETASample list \<Rightarrow> domain_error + unit" where
  "validateSamples xs =
     and_then (ensure (length xs \<le> 3) (invalid ''raw TETA smoothing window exceeds three samples''))
     (validateSamples_from None xs)"

text \<open>The checks of \<^verbatim>\<open>AMANFlight.Validate\<close> on the lifecycle metadata and on the review.\<close>

definition validateLifecycle :: "AMANFlight \<Rightarrow> domain_error + unit" where
  "validateLifecycle f =
     require_opt (\<lambda>l.
       and_then (LifecycleState_Validate l)
       (and_then (ensure (\<not> after (lc_EnteredAt l) (lc_LastEventAt l))
          (invalid ''lifecycle state entry cannot follow its event cursor''))
       (and_then (ensure (lifecycleReasonMatchesState (lc_Reason l) (f_State f))
          (invalid ''lifecycle reason does not match flight state''))
       (require_opt (\<lambda>a.
          and_then (AbsenceState_Validate a)
          (ensure (\<not> (lc_ReconciliationPending l \<and> abs_RemovalDueAt a \<noteq> None))
             (invalid ''pending source reconciliation cannot run an absence timer'')))
          (lc_Absence l))))) (f_Lifecycle f)"

definition validateReview :: "AMANFlight \<Rightarrow> domain_error + unit" where
  "validateReview f =
     require_opt (\<lambda>r.
       and_then (ETAReview_Validate r)
       (ensure (review_Status r = ReviewNone \<or>
           (case f_ArrivalBaseline f of None \<Rightarrow> False
            | Some b \<Rightarrow> t_equal (base_ArrivalAt b) (review_InitialBaselineTETA r)))
          (invalid ''ETA review initial baseline does not match the flight baseline'')))
       (f_ETAReview f)"

end
