(* ===== verification/Aman_Lifecycle.thy ===== *)
theory Aman_Lifecycle
  imports Aman_Types Machines
begin

text \<open>
  The lifecycle reducer of \<^verbatim>\<open>internal/aman/lifecycle/reducer.go\<close>: configuration, events, the
  transition function \<open>nextState\<close>, the reducer \<open>Reduce\<close> with its ordering cursor and its
  absence timer, and runs of the reducer over a sequence of events.

  The facts proved are about every accepted event and every run: the event cursor only moves
  forward, an exact retry changes nothing, \<open>Removed\<close> is terminal, the state graph has only the
  edges of the code, and a flight is removed for disappearance only after the source was fresh
  and the flight missing for the whole removal timeout.
\<close>

section \<open>Configuration and events\<close>

record Config =
  cfg_UnstableHorizon :: duration
  cfg_StableHorizon :: duration
  cfg_SuperstableHorizon :: duration
  cfg_MinimumUnstableDwell :: duration
  cfg_RemovalTimeout :: duration

definition DefaultConfig :: Config where
  "DefaultConfig = \<lparr> cfg_UnstableHorizon = 45 * minute, cfg_StableHorizon = 20 * minute,
     cfg_SuperstableHorizon = 10 * minute, cfg_MinimumUnstableDwell = 2 * minute,
     cfg_RemovalTimeout = 5 * minute \<rparr>"

definition invalidArgument :: "string \<Rightarrow> domain_error" where
  "invalidArgument msg = DomainError ErrorInvalidArgument msg"

definition Config_Validate :: "Config \<Rightarrow> domain_error + unit" where
  "Config_Validate c =
     and_then (ensure (\<not> cfg_UnstableHorizon c \<le> 0)
        (invalidArgument ''Unstable horizon must be greater than zero''))
     (and_then (ensure (\<not> cfg_StableHorizon c \<le> 0 \<and> \<not> cfg_StableHorizon c \<ge> cfg_UnstableHorizon c)
        (invalidArgument ''Stable horizon must be positive and shorter than the Unstable horizon''))
     (and_then (ensure (\<not> cfg_SuperstableHorizon c \<le> 0 \<and> \<not> cfg_SuperstableHorizon c \<ge> cfg_StableHorizon c)
        (invalidArgument ''Superstable horizon must be positive and shorter than the Stable horizon''))
     (and_then (ensure (\<not> cfg_MinimumUnstableDwell c < 0)
        (invalidArgument ''minimum Unstable dwell cannot be negative''))
     (ensure (\<not> cfg_RemovalTimeout c \<le> 0)
        (invalidArgument ''removal timeout must be greater than zero'')))))"

datatype EventKind = EventAirborneDetected | EventPredictionAccepted | EventDataStatusChanged
  | EventSourceRestarted | EventSuddenAppearance | EventFlightObserved | EventFlightMissing
  | EventRemovalTimeout | EventPredictionExpired | EventGoAroundConfirmed
  | EventLandingConfirmed | EventManualRemoval | EventLandedTimeout | EventPlannedCancellation
  | EventOther string

fun EventKind_Valid :: "EventKind \<Rightarrow> bool" where
  "EventKind_Valid (EventOther _) = False"
| "EventKind_Valid _ = True"

fun EventKind_text :: "EventKind \<Rightarrow> string" where
  "EventKind_text EventAirborneDetected = ''airborne_detected''"
| "EventKind_text EventPredictionAccepted = ''prediction_accepted''"
| "EventKind_text EventDataStatusChanged = ''data_status_changed''"
| "EventKind_text EventSourceRestarted = ''source_restarted''"
| "EventKind_text EventSuddenAppearance = ''sudden_appearance''"
| "EventKind_text EventFlightObserved = ''flight_observed''"
| "EventKind_text EventFlightMissing = ''flight_missing''"
| "EventKind_text EventRemovalTimeout = ''removal_timeout''"
| "EventKind_text EventPredictionExpired = ''prediction_expired''"
| "EventKind_text EventGoAroundConfirmed = ''go_around_confirmed''"
| "EventKind_text EventLandingConfirmed = ''landing_confirmed''"
| "EventKind_text EventManualRemoval = ''manual_removal''"
| "EventKind_text EventLandedTimeout = ''landed_timeout''"
| "EventKind_text EventPlannedCancellation = ''planned_cancellation''"
| "EventKind_text (EventOther s) = s"

record Event =
  ev_ID :: string
  ev_Kind :: EventKind
  ev_OccurredAt :: gotime
  ev_DataStatus :: DataStatus
  ev_OperationalTETA :: "gotime option"
  ev_FeederETA :: "FeederETAState option"

record Transition =
  tr_EventID :: string
  tr_From :: FlightState
  tr_To :: FlightState
  tr_Reason :: LifecycleReason
  tr_At :: gotime

record Result =
  res_Flight :: AMANFlight
  res_Transition :: "Transition option"
  res_Duplicate :: bool

definition invalidTransition :: "FlightState \<Rightarrow> EventKind \<Rightarrow> string \<Rightarrow> domain_error" where
  "invalidTransition state k msg = DomainError ErrorInvalidTransition
     (EventKind_text k @ '' from '' @ FlightState_text state @ '': '' @ msg)"

section \<open>Event validation and fingerprint\<close>

definition validateEvent :: "Event \<Rightarrow> domain_error + unit" where
  "validateEvent e =
     (let k = ev_Kind e in
      and_then (ensure (EventKind_Valid k) (invalidArgument ''lifecycle event kind is invalid''))
      (and_then (ensure (\<not> (ev_ID e = '''' \<or> trim_space (ev_ID e) \<noteq> ev_ID e))
         (invalidArgument ''lifecycle event ID is required''))
      (and_then (ensure (\<not> (is_zero (ev_OccurredAt e) \<or> loc (ev_OccurredAt e) \<noteq> UTC))
         (invalidArgument ''lifecycle event time must be UTC''))
      (if k = EventDataStatusChanged then
         ensure (DataStatus_Valid (ev_DataStatus e) \<and> ev_OperationalTETA e = None)
           (invalidArgument ''data-status event payload is invalid'')
       else if k = EventSuddenAppearance then
         ensure (ev_DataStatus e = DataStatusEmpty \<and>
             (case ev_OperationalTETA e of None \<Rightarrow> False
              | Some teta \<Rightarrow> \<not> is_zero teta \<and> loc teta = UTC \<and> after teta (ev_OccurredAt e)))
           (invalidArgument ''sudden appearance requires a future UTC operational TETA'')
       else and_then (ensure (ev_DataStatus e = DataStatusEmpty)
         (invalidArgument ''only a data-status event may change DataStatus''))
       (if k = EventPredictionAccepted then
          and_then (ensure (case ev_OperationalTETA e of None \<Rightarrow> False
                      | Some teta \<Rightarrow> \<not> is_zero teta \<and> loc teta = UTC)
             (invalidArgument ''accepted prediction requires a UTC operational TETA''))
          (require_opt (\<lambda>f. ensure (FeederETAState_Validate f = Inr ())
             (invalidArgument ''accepted prediction feeder ETA is invalid'')) (ev_FeederETA e))
        else ensure (ev_OperationalTETA e = None \<and> ev_FeederETA e = None)
          (invalidArgument ''only an accepted prediction may carry timing evidence''))))))"

definition format_opt :: "gotime option \<Rightarrow> string" where
  "format_opt v = (case v of None \<Rightarrow> '''' | Some t \<Rightarrow> rfc3339_nano t)"

definition fingerprint :: "Event \<Rightarrow> string" where
  "fingerprint e =
     (let common = EventKind_text (ev_Kind e) @ ''|'' @ rfc3339_nano (ev_OccurredAt e) @ ''|'' @
            DataStatus_text (ev_DataStatus e) @ ''|'' @ format_opt (ev_OperationalTETA e)
      in case ev_FeederETA e of
           None \<Rightarrow> common
         | Some f \<Rightarrow> common @ ''|'' @ FeederETASource_text (feeder_Source f) @ ''|'' @
             (if feeder_Passed f then ''true'' else ''false'') @ ''|'' @ format_opt (feeder_ETA f))"

section \<open>Transitions\<close>

definition StableFeederEligible :: "FeederETAState option \<Rightarrow> gotime \<Rightarrow> duration \<Rightarrow> bool" where
  "StableFeederEligible feeder now horizon =
     (case feeder of None \<Rightarrow> False
      | Some f \<Rightarrow> FeederETAState_Validate f = Inr () \<and>
          (feeder_Passed f \<or>
           (case feeder_ETA f of None \<Rightarrow> False | Some eta \<Rightarrow> t_sub eta now \<le> horizon)))"

definition SuperstableFeederEligible :: "FeederETAState option \<Rightarrow> gotime \<Rightarrow> duration \<Rightarrow> bool" where
  "SuperstableFeederEligible feeder now horizon = StableFeederEligible feeder now horizon"

text \<open>
  The two nil dereferences of the source cannot happen: an unpassed feeder that validates has
  an ETA, and \<open>validateEvent\<close> lets no \<open>SuddenAppearance\<close> or \<open>PredictionAccepted\<close> event without
  an operational TETA through. The model gives these unreachable branches the value of the
  surrounding guard.
\<close>

definition until_arrival :: "Event \<Rightarrow> duration" where
  "until_arrival e = (case ev_OperationalTETA e of None \<Rightarrow> 0 | Some teta \<Rightarrow> t_sub teta (ev_OccurredAt e))"

text \<open>The running deadline that \<open>EventRemovalTimeout\<close> requires.\<close>

definition removal_due :: "AMANFlight \<Rightarrow> gotime option" where
  "removal_due f =
     (case f_Lifecycle f of None \<Rightarrow> None
      | Some l \<Rightarrow> (if f_DataStatus f \<noteq> DataFresh \<or> lc_ReconciliationPending l then None
         else (case lc_Absence l of None \<Rightarrow> None | Some a \<Rightarrow> abs_RemovalDueAt a)))"

definition stay :: "AMANFlight \<Rightarrow> domain_error + FlightState \<times> LifecycleReason" where
  "stay f = Inr (f_State f, LifecycleReasonOther '''')"

definition nextState :: "Config \<Rightarrow> AMANFlight \<Rightarrow> gotime \<Rightarrow> Event \<Rightarrow> domain_error + FlightState \<times> LifecycleReason" where
  "nextState c f enteredAt e =
     (let reject = (\<lambda>msg. Inl (invalidTransition (f_State f) (ev_Kind e) msg)) in
      case ev_Kind e of
        EventDataStatusChanged \<Rightarrow>
          (if f_State f = StateRemoved then reject ''Removed is terminal'' else stay f)
      | EventSourceRestarted \<Rightarrow>
          (if f_State f = StateRemoved then reject ''Removed is terminal'' else stay f)
      | EventSuddenAppearance \<Rightarrow>
          (if f_State f \<noteq> StatePlanned
           then reject ''sudden appearance requires a newly planned aggregate''
           else if until_arrival e \<le> cfg_UnstableHorizon c
           then Inr (StateUnstable, LifecycleReasonSuddenAppearance)
           else Inr (StateAirborne, LifecycleReasonSuddenAppearance))
      | EventFlightObserved \<Rightarrow>
          (if f_State f = StateRemoved then reject ''Removed is terminal''
           else if f_DataStatus f \<noteq> DataFresh
           then reject ''current reconciliation requires fresh source data'' else stay f)
      | EventFlightMissing \<Rightarrow>
          (if f_State f = StateRemoved then reject ''Removed is terminal''
           else if f_DataStatus f \<noteq> DataFresh
           then reject ''current reconciliation requires fresh source data'' else stay f)
      | EventPredictionExpired \<Rightarrow>
          (if f_State f = StateRemoved then reject ''Removed is terminal'' else stay f)
      | EventRemovalTimeout \<Rightarrow>
          (if f_State f = StateRemoved then reject ''Removed is terminal''
           else (case removal_due f of
               None \<Rightarrow> reject ''removal requires a running fresh-data absence timer''
             | Some due \<Rightarrow>
                 (if before (ev_OccurredAt e) due then reject ''removal timeout has not elapsed''
                  else Inr (StateRemoved, LifecycleReasonSourceDisappearance))))
      | EventAirborneDetected \<Rightarrow>
          (case f_State f of
             StatePlanned \<Rightarrow> Inr (StateAirborne, LifecycleReasonAirborneDetected)
           | StateAirborne \<Rightarrow> stay f
           | _ \<Rightarrow> reject ''airborne evidence cannot enter this state'')
      | EventPredictionAccepted \<Rightarrow>
          (if f_DataStatus f \<noteq> DataFresh then stay f
           else if f_State f = StateAirborne \<or> f_State f = StateGoAround then
             (if until_arrival e \<le> cfg_UnstableHorizon c
              then Inr (StateUnstable, LifecycleReasonUnstableHorizon) else stay f)
           else if f_State f = StateUnstable then
             (if StableFeederEligible (ev_FeederETA e) (ev_OccurredAt e) (cfg_StableHorizon c) \<and>
                 t_sub (ev_OccurredAt e) enteredAt \<ge> cfg_MinimumUnstableDwell c
              then Inr (StateStable, LifecycleReasonStableHorizon) else stay f)
           else if f_State f = StateStable then stay f
           else reject ''prediction cannot advance this state'')
      | EventGoAroundConfirmed \<Rightarrow>
          (if f_State f \<noteq> StateUnstable \<and> f_State f \<noteq> StateStable
           then reject ''go-around requires an arriving flight''
           else Inr (StateGoAround, LifecycleReasonGoAroundConfirmed))
      | EventLandingConfirmed \<Rightarrow>
          (if f_State f = StateAirborne \<or> f_State f = StateUnstable \<or> f_State f = StateStable \<or>
              f_State f = StateGoAround
           then Inr (StateLanded, LifecycleReasonLandingConfirmed)
           else reject ''landing requires an airborne flight'')
      | EventManualRemoval \<Rightarrow>
          (if f_State f = StateRemoved then reject ''Removed is terminal''
           else Inr (StateRemoved, LifecycleReasonManualRemoval))
      | EventLandedTimeout \<Rightarrow>
          (if f_State f \<noteq> StateLanded then reject ''landing timeout requires Landed''
           else Inr (StateRemoved, LifecycleReasonLandedTimeout))
      | EventPlannedCancellation \<Rightarrow>
          (if f_State f \<noteq> StatePlanned then reject ''planned cancellation requires Planned''
           else Inr (StateRemoved, LifecycleReasonPlannedCancellation))
      | EventOther _ \<Rightarrow> Inl (invalidArgument ''lifecycle event kind is invalid''))"

section \<open>The absence timer and the other side effects of an event\<close>

definition pauseAbsence :: "AbsenceState option \<Rightarrow> gotime \<Rightarrow> AbsenceState option" where
  "pauseAbsence absence tm =
     (case absence of None \<Rightarrow> None
      | Some a \<Rightarrow> (case abs_RemovalDueAt a of None \<Rightarrow> Some a
          | Some due \<Rightarrow> Some (a\<lparr> abs_Remaining := (if t_sub due tm < 0 then 0 else t_sub due tm),
                               abs_RemovalDueAt := None \<rparr>)))"

definition applySourceStatus :: "LifecycleState \<Rightarrow> gotime \<Rightarrow> LifecycleState" where
  "applySourceStatus l tm = l\<lparr> lc_ReconciliationPending := True, lc_Absence := pauseAbsence (lc_Absence l) tm \<rparr>"

definition applyMissing :: "Config \<Rightarrow> LifecycleState \<Rightarrow> gotime \<Rightarrow> LifecycleState" where
  "applyMissing c l tm =
     (let l' = l\<lparr> lc_ReconciliationPending := False \<rparr> in
      case lc_Absence l of
        None \<Rightarrow> l'\<lparr> lc_Absence := Some \<lparr> abs_MissingSince = tm,
                  abs_RemovalDueAt = Some (t_add tm (cfg_RemovalTimeout c)), abs_Remaining = 0 \<rparr> \<rparr>
      | Some a \<Rightarrow> (case abs_RemovalDueAt a of
          None \<Rightarrow> l'\<lparr> lc_Absence := Some (a\<lparr> abs_RemovalDueAt := Some (t_add tm (abs_Remaining a)),
                                           abs_Remaining := 0 \<rparr>) \<rparr>
        | Some _ \<Rightarrow> l'))"

definition suddenException :: "Config \<Rightarrow> Event \<Rightarrow> OperationalException option" where
  "suddenException c e =
     (if until_arrival e > cfg_SuperstableHorizon c then None
      else Some \<lparr> oe_Reason = OperationalExceptionSuddenInsideFreeze, oe_DetectedAt = ev_OccurredAt e \<rparr>)"

text \<open>
  \<open>l\<close> is the lifecycle metadata that \<open>Reduce\<close> has just built and that the source reaches through
  \<^verbatim>\<open>flight.Lifecycle\<close>.
\<close>

definition applyOperationalExceptionState :: "Config \<Rightarrow> AMANFlight \<Rightarrow> LifecycleState \<Rightarrow> Event \<Rightarrow> AMANFlight" where
  "applyOperationalExceptionState c f l e =
     (case ev_Kind e of
        EventDataStatusChanged \<Rightarrow> f\<lparr> f_Lifecycle := Some (applySourceStatus l (ev_OccurredAt e)) \<rparr>
      | EventSourceRestarted \<Rightarrow> f\<lparr> f_Lifecycle := Some (applySourceStatus l (ev_OccurredAt e)) \<rparr>
      | EventSuddenAppearance \<Rightarrow>
          f\<lparr> f_Lifecycle := Some (l\<lparr> lc_ReconciliationPending := False, lc_Absence := None \<rparr>),
             f_OperationalException := suddenException c e \<rparr>
      | EventFlightObserved \<Rightarrow>
          f\<lparr> f_Lifecycle := Some (l\<lparr> lc_ReconciliationPending := False, lc_Absence := None \<rparr>) \<rparr>
      | EventFlightMissing \<Rightarrow> f\<lparr> f_Lifecycle := Some (applyMissing c l (ev_OccurredAt e)) \<rparr>
      | EventPredictionExpired \<Rightarrow>
          f\<lparr> f_Lifecycle := Some l,
             f_Prediction := (case f_Prediction f of None \<Rightarrow> None
               | Some p \<Rightarrow> Some (p\<lparr> pred_Publishable := False,
                                   pred_DegradationReason := Some ''source_data_expired'' \<rparr>)) \<rparr>
      | _ \<Rightarrow> f\<lparr> f_Lifecycle := Some l \<rparr>)"

section \<open>The reducer\<close>

definition order_check :: "AMANFlight \<Rightarrow> Event \<Rightarrow> domain_error + unit" where
  "order_check f e =
     (case f_Lifecycle f of
        Some l \<Rightarrow> ensure (after (ev_OccurredAt e) (lc_LastEventAt l))
          (invalidTransition (f_State f) (ev_Kind e) ''event is out of order'')
      | None \<Rightarrow> ensure (\<not> before (ev_OccurredAt e) (f_UpdatedAt f))
          (invalidTransition (f_State f) (ev_Kind e) ''event predates the aggregate''))"

definition entered_at :: "AMANFlight \<Rightarrow> gotime" where
  "entered_at f = (case f_Lifecycle f of None \<Rightarrow> f_UpdatedAt f | Some l \<Rightarrow> lc_EnteredAt l)"

definition entry_reason :: "AMANFlight \<Rightarrow> LifecycleReason" where
  "entry_reason f = (case f_Lifecycle f of None \<Rightarrow> LifecycleReasonInitial | Some l \<Rightarrow> lc_Reason l)"

definition new_data_status :: "AMANFlight \<Rightarrow> Event \<Rightarrow> DataStatus" where
  "new_data_status f e =
     (case ev_Kind e of
        EventDataStatusChanged \<Rightarrow> ev_DataStatus e
      | EventSourceRestarted \<Rightarrow> DataDisconnected
      | EventSuddenAppearance \<Rightarrow> DataFresh
      | _ \<Rightarrow> f_DataStatus f)"

definition new_lifecycle :: "AMANFlight \<Rightarrow> Event \<Rightarrow> FlightState \<Rightarrow> LifecycleReason \<Rightarrow> LifecycleState" where
  "new_lifecycle f e to r =
     \<lparr> lc_EnteredAt = (if to \<noteq> f_State f then ev_OccurredAt e else entered_at f),
       lc_Reason = (if to \<noteq> f_State f then r else entry_reason f),
       lc_LastEventID = ev_ID e,
       lc_LastEventFingerprint = fingerprint e,
       lc_LastEventAt = ev_OccurredAt e,
       lc_ReconciliationPending = (case f_Lifecycle f of None \<Rightarrow> False | Some l \<Rightarrow> lc_ReconciliationPending l),
       lc_Absence = (case f_Lifecycle f of None \<Rightarrow> None | Some l \<Rightarrow> lc_Absence l) \<rparr>"

text \<open>The part of \<open>Reduce\<close> after the duplicate check, for an event that is not a retry.\<close>

definition apply_event :: "Config \<Rightarrow> AMANFlight \<Rightarrow> Event \<Rightarrow> domain_error + Result" where
  "apply_event c f e =
     and_then (order_check f e)
     (case nextState c f (entered_at f) e of
        Inl err \<Rightarrow> Inl err
      | Inr (to, r) \<Rightarrow>
          Inr \<lparr> res_Flight = applyOperationalExceptionState c
                   (f\<lparr> f_State := to, f_DataStatus := new_data_status f e, f_UpdatedAt := ev_OccurredAt e \<rparr>)
                   (new_lifecycle f e to r) e,
                res_Transition = (if to \<noteq> f_State f
                   then Some \<lparr> tr_EventID = ev_ID e, tr_From = f_State f, tr_To = to, tr_Reason = r,
                               tr_At = ev_OccurredAt e \<rparr>
                   else None),
                res_Duplicate = False \<rparr>)"

definition Reduce :: "Config \<Rightarrow> AMANFlight \<Rightarrow> Event \<Rightarrow> domain_error + Result" where
  "Reduce c f e =
     and_then (Config_Validate c)
     (and_then (validateEvent e)
     (and_then (ensure (FlightState_Valid (f_State f) \<and> DataStatus_Valid (f_DataStatus f))
        (invalidArgument ''flight lifecycle state is invalid''))
     (case f_Lifecycle f of
        Some l \<Rightarrow>
          (if ev_ID e = lc_LastEventID l then
             (if fingerprint e = lc_LastEventFingerprint l
              then Inr \<lparr> res_Flight = f, res_Transition = None, res_Duplicate = True \<rparr>
              else Inl (invalidTransition (f_State f) (ev_Kind e) ''event ID was reused with different content''))
           else apply_event c f e)
      | None \<Rightarrow> apply_event c f e)))"

section \<open>Inversion lemmas\<close>

lemma Reduce_cases:
  assumes "Reduce c f e = Inr r"
  obtains (duplicate) l where "f_Lifecycle f = Some l" "ev_ID e = lc_LastEventID l"
      "fingerprint e = lc_LastEventFingerprint l" "res_Flight r = f" "res_Transition r = None" "res_Duplicate r"
  | (accepted) "apply_event c f e = Inr r" "\<not> res_Duplicate r"
proof -
  have "(\<exists>l. f_Lifecycle f = Some l \<and> ev_ID e = lc_LastEventID l \<and>
      fingerprint e = lc_LastEventFingerprint l \<and> r = \<lparr> res_Flight = f, res_Transition = None, res_Duplicate = True \<rparr>)
      \<or> apply_event c f e = Inr r"
    using assms by (auto simp: Reduce_def split: option.splits if_splits)
  moreover have "\<not> res_Duplicate r" if "apply_event c f e = Inr r"
    using that by (auto simp: apply_event_def split: sum.splits)
  ultimately show ?thesis using that by fastforce
qed

lemma Reduce_valid:
  assumes "Reduce c f e = Inr r"
  shows "Config_Validate c = Inr ()" "validateEvent e = Inr ()" "FlightState_Valid (f_State f)"
    "DataStatus_Valid (f_DataStatus f)"
  using assms by (auto simp: Reduce_def)

lemma validateEvent_basic:
  assumes "validateEvent e = Inr ()"
  shows "valid_utc (ev_OccurredAt e)" "trimmed_non_empty (ev_ID e)" "EventKind_Valid (ev_Kind e)"
  using assms by (auto simp: validateEvent_def Let_def valid_utc_def trimmed_non_empty_def)

lemma validateEvent_status:
  "validateEvent e = Inr () \<Longrightarrow> ev_Kind e = EventDataStatusChanged \<Longrightarrow> DataStatus_Valid (ev_DataStatus e)"
  by (simp add: validateEvent_def Let_def)

text \<open>The abstract state machine: the edges of the lifecycle and the event and reason of each.\<close>

inductive lifecycle_edge :: "FlightState \<Rightarrow> EventKind \<Rightarrow> FlightState \<Rightarrow> LifecycleReason \<Rightarrow> bool" where
  "lifecycle_edge StatePlanned EventAirborneDetected StateAirborne LifecycleReasonAirborneDetected"
| "lifecycle_edge StatePlanned EventSuddenAppearance StateAirborne LifecycleReasonSuddenAppearance"
| "lifecycle_edge StatePlanned EventSuddenAppearance StateUnstable LifecycleReasonSuddenAppearance"
| "s = StateAirborne \<or> s = StateGoAround \<Longrightarrow>
     lifecycle_edge s EventPredictionAccepted StateUnstable LifecycleReasonUnstableHorizon"
| "lifecycle_edge StateUnstable EventPredictionAccepted StateStable LifecycleReasonStableHorizon"
| "s = StateUnstable \<or> s = StateStable \<Longrightarrow>
     lifecycle_edge s EventGoAroundConfirmed StateGoAround LifecycleReasonGoAroundConfirmed"
| "s = StateAirborne \<or> s = StateUnstable \<or> s = StateStable \<or> s = StateGoAround \<Longrightarrow>
     lifecycle_edge s EventLandingConfirmed StateLanded LifecycleReasonLandingConfirmed"
| "s \<noteq> StateRemoved \<Longrightarrow> lifecycle_edge s EventManualRemoval StateRemoved LifecycleReasonManualRemoval"
| "s \<noteq> StateRemoved \<Longrightarrow> lifecycle_edge s EventRemovalTimeout StateRemoved LifecycleReasonSourceDisappearance"
| "lifecycle_edge StateLanded EventLandedTimeout StateRemoved LifecycleReasonLandedTimeout"
| "lifecycle_edge StatePlanned EventPlannedCancellation StateRemoved LifecycleReasonPlannedCancellation"

inductive_cases lifecycle_edge_from_RemovedE: "lifecycle_edge StateRemoved k s r"
inductive_cases lifecycle_edge_to_StableE: "lifecycle_edge s k StateStable r"

lemma lifecycle_edge_reason: "lifecycle_edge s k s' r \<Longrightarrow> lifecycleReasonMatchesState r s'"
  by (induction rule: lifecycle_edge.induct) simp_all

lemma lifecycle_edge_valid: "lifecycle_edge s k s' r \<Longrightarrow> FlightState_Valid s' \<and> LifecycleReason_Valid r"
  by (induction rule: lifecycle_edge.induct) simp_all

lemma nextState_edge:
  assumes "nextState c f t e = Inr (to, r)"
  shows "to = f_State f \<or> lifecycle_edge (f_State f) (ev_Kind e) to r"
proof (cases "ev_Kind e")
  case EventRemovalTimeout
  with assms show ?thesis
    by (auto simp: nextState_def Let_def stay_def intro: lifecycle_edge.intros split: if_splits option.splits)
next
  case EventAirborneDetected
  with assms show ?thesis
    by (auto simp: nextState_def Let_def stay_def intro: lifecycle_edge.intros split: FlightState.splits)
qed (use assms in \<open>auto simp: nextState_def Let_def stay_def intro: lifecycle_edge.intros split: if_splits\<close>)

text \<open>What an accepted event that is not a retry does to the aggregate.\<close>

lemma apply_event_step:
  assumes "apply_event c f e = Inr r"
  obtains to rs where "nextState c f (entered_at f) e = Inr (to, rs)" "order_check f e = Inr ()"
    "res_Flight r = applyOperationalExceptionState c
       (f\<lparr> f_State := to, f_DataStatus := new_data_status f e, f_UpdatedAt := ev_OccurredAt e \<rparr>)
       (new_lifecycle f e to rs) e"
    "res_Transition r = (if to \<noteq> f_State f
       then Some \<lparr> tr_EventID = ev_ID e, tr_From = f_State f, tr_To = to, tr_Reason = rs, tr_At = ev_OccurredAt e \<rparr>
       else None)"
proof -
  from assms obtain to rs where n: "nextState c f (entered_at f) e = Inr (to, rs)"
    by (auto simp: apply_event_def split: sum.splits)
  with assms show ?thesis by (intro that [OF n]) (auto simp: apply_event_def)
qed

lemma applyOperationalExceptionState_fields [simp]:
  "f_State (applyOperationalExceptionState c f l e) = f_State f"
  "f_DataStatus (applyOperationalExceptionState c f l e) = f_DataStatus f"
  "f_UpdatedAt (applyOperationalExceptionState c f l e) = f_UpdatedAt f"
  by (simp_all add: applyOperationalExceptionState_def split: EventKind.splits)

lemma absence_updates [simp]:
  "lc_EnteredAt (applySourceStatus l t) = lc_EnteredAt l"
  "lc_Reason (applySourceStatus l t) = lc_Reason l"
  "lc_LastEventID (applySourceStatus l t) = lc_LastEventID l"
  "lc_LastEventFingerprint (applySourceStatus l t) = lc_LastEventFingerprint l"
  "lc_LastEventAt (applySourceStatus l t) = lc_LastEventAt l"
  "lc_EnteredAt (applyMissing c l t) = lc_EnteredAt l"
  "lc_Reason (applyMissing c l t) = lc_Reason l"
  "lc_LastEventID (applyMissing c l t) = lc_LastEventID l"
  "lc_LastEventFingerprint (applyMissing c l t) = lc_LastEventFingerprint l"
  "lc_LastEventAt (applyMissing c l t) = lc_LastEventAt l"
  by (simp_all add: applySourceStatus_def applyMissing_def Let_def split: option.splits)

lemma applyOperationalExceptionState_Lifecycle:
  obtains l' where "f_Lifecycle (applyOperationalExceptionState c f l e) = Some l'"
    "lc_EnteredAt l' = lc_EnteredAt l" "lc_Reason l' = lc_Reason l" "lc_LastEventID l' = lc_LastEventID l"
    "lc_LastEventFingerprint l' = lc_LastEventFingerprint l" "lc_LastEventAt l' = lc_LastEventAt l"
  by (cases "ev_Kind e") (auto simp: applyOperationalExceptionState_def intro: that)

lemma accepted_metadata:
  assumes "apply_event c f e = Inr r"
  obtains to rs l where "nextState c f (entered_at f) e = Inr (to, rs)" "f_State (res_Flight r) = to"
    "f_DataStatus (res_Flight r) = new_data_status f e" "f_UpdatedAt (res_Flight r) = ev_OccurredAt e"
    "f_Lifecycle (res_Flight r) = Some l"
    "lc_EnteredAt l = (if to \<noteq> f_State f then ev_OccurredAt e else entered_at f)"
    "lc_Reason l = (if to \<noteq> f_State f then rs else entry_reason f)"
    "lc_LastEventID l = ev_ID e" "lc_LastEventFingerprint l = fingerprint e" "lc_LastEventAt l = ev_OccurredAt e"
proof -
  from assms obtain to rs where s: "nextState c f (entered_at f) e = Inr (to, rs)"
    "res_Flight r = applyOperationalExceptionState c
       (f\<lparr> f_State := to, f_DataStatus := new_data_status f e, f_UpdatedAt := ev_OccurredAt e \<rparr>)
       (new_lifecycle f e to rs) e"
    by (rule apply_event_step)
  obtain l' where "f_Lifecycle (res_Flight r) = Some l'"
    "lc_EnteredAt l' = lc_EnteredAt (new_lifecycle f e to rs)"
    "lc_Reason l' = lc_Reason (new_lifecycle f e to rs)"
    "lc_LastEventID l' = lc_LastEventID (new_lifecycle f e to rs)"
    "lc_LastEventFingerprint l' = lc_LastEventFingerprint (new_lifecycle f e to rs)"
    "lc_LastEventAt l' = lc_LastEventAt (new_lifecycle f e to rs)"
    unfolding s(2) by (rule applyOperationalExceptionState_Lifecycle)
  with s show ?thesis by (intro that [of to rs l']) (simp_all add: new_lifecycle_def)
qed

lemma new_data_status_valid:
  "DataStatus_Valid (f_DataStatus f) \<Longrightarrow> validateEvent e = Inr () \<Longrightarrow> DataStatus_Valid (new_data_status f e)"
  by (auto simp: new_data_status_def DataStatus_Valid_def dest!: validateEvent_status split: EventKind.splits)

section \<open>Step relation\<close>

inductive lifecycle_step :: "Config \<Rightarrow> AMANFlight \<Rightarrow> Event \<Rightarrow> AMANFlight \<Rightarrow> bool" for c :: Config where
  accept: "Reduce c f e = Inr r \<Longrightarrow> \<not> res_Duplicate r \<Longrightarrow> lifecycle_step c f e (res_Flight r)"

inductive_cases lifecycle_stepE: "lifecycle_step c f e f'"

definition lifecycle_cursor :: "AMANFlight \<Rightarrow> int" where
  "lifecycle_cursor f = (case f_Lifecycle f of None \<Rightarrow> ns (f_UpdatedAt f) - 1 | Some l \<Rightarrow> ns (lc_LastEventAt l))"

lemma order_check_cursor: "order_check f e = Inr () \<longleftrightarrow> lifecycle_cursor f < ns (ev_OccurredAt e)"
  by (auto simp: order_check_def lifecycle_cursor_def go_time split: option.splits)

lemma lifecycle_step_apply:
  assumes "lifecycle_step c f e f'"
  obtains r where "f' = res_Flight r" "Reduce c f e = Inr r" "apply_event c f e = Inr r"
  using assms by (auto elim!: lifecycle_stepE elim: Reduce_cases)

interpretation lifecycle_cursor: cursor_machine "lifecycle_step c" lifecycle_cursor "\<lambda>e. ns (ev_OccurredAt e)" for c
proof
  fix f e f'
  assume "lifecycle_step c f e f'"
  then obtain r where r: "f' = res_Flight r" and a: "apply_event c f e = Inr r" by (rule lifecycle_step_apply)
  from a have "lifecycle_cursor f < ns (ev_OccurredAt e)" by (metis apply_event_step order_check_cursor)
  moreover from a have "lifecycle_cursor f' = ns (ev_OccurredAt e)"
    by (rule accepted_metadata) (simp add: lifecycle_cursor_def r)
  ultimately show "lifecycle_cursor f < ns (ev_OccurredAt e) \<and> lifecycle_cursor f' = ns (ev_OccurredAt e)" ..
qed

interpretation lifecycle_removed: terminal_machine "lifecycle_step c" "\<lambda>f. f_State f = StateRemoved" for c
proof
  fix f e f'
  assume "f_State f = StateRemoved" "lifecycle_step c f e f'"
  then show "f_State f' = StateRemoved"
    by (auto elim!: lifecycle_step_apply accepted_metadata dest!: nextState_edge
        elim: lifecycle_edge_from_RemovedE)
qed

section \<open>The event fingerprint is a trimmed string\<close>

definition visible :: "char \<Rightarrow> bool" where
  "visible c \<longleftrightarrow> 32 < (of_char c :: int) \<and> (of_char c :: int) < 128"

lemma go_spaces_invisible: "\<forall>w \<in> set go_spaces. w \<noteq> [] \<longrightarrow> \<not> visible (hd w) \<and> \<not> visible (last w)"
  by (simp add: go_spaces_def visible_def)

lemma strip_space_visible:
  assumes "visible c" "\<forall>w \<in> set ws. w \<noteq> [] \<longrightarrow> \<not> visible (hd w)"
  shows "strip_space ws (c # s) = None"
proof -
  have "\<not> (w \<noteq> [] \<and> take (length w) (c # s) = w)" if "w \<in> set ws" for w
    using assms that by (cases w) auto
  then have "find (\<lambda>w. w \<noteq> [] \<and> take (length w) (c # s) = w) ws = None" by (simp add: find_None_iff)
  then show ?thesis by (simp add: strip_space_def)
qed

lemma trimmed_visible:
  assumes "s \<noteq> []" "visible (hd s)" "visible (last s)"
  shows "trimmed_non_empty s"
proof -
  have sp: "\<forall>w \<in> set go_spaces. w \<noteq> [] \<longrightarrow> \<not> visible (hd w)"
    "\<forall>w \<in> set (map rev go_spaces). w \<noteq> [] \<longrightarrow> \<not> visible (hd w)"
    using go_spaces_invisible by (auto simp: hd_rev)
  have "trim_with go_spaces s = s"
    using assms by (cases s) (simp_all add: trim_with_id strip_space_visible [OF _ sp(1)])
  moreover have "trim_with (map rev go_spaces) (rev s) = rev s"
    using assms by (cases s rule: rev_cases) (simp_all add: trim_with_id strip_space_visible [OF _ sp(2)])
  ultimately show ?thesis using assms(1) by (simp add: trimmed_non_empty_def trim_space_def)
qed

lemma visible_digit: "0 \<le> d \<Longrightarrow> d < 10 \<Longrightarrow> visible (digit_char d)"
  by (simp add: visible_def digit_char_def)

lemma last_decimal: "0 \<le> n \<Longrightarrow> decimal n \<noteq> [] \<and> visible (last (decimal n))"
  by (cases "n < 10") (simp_all add: decimal.simps [of n] visible_digit)

lemma last_pad_num: "0 \<le> n \<Longrightarrow> pad_num w n \<noteq> [] \<and> visible (last (pad_num w n))"
  by (simp add: pad_num_def pad_left_def last_decimal)

lemma last_zone_suffix: "zone_suffix l \<noteq> [] \<and> visible (last (zone_suffix l))"
  by (simp add: zone_suffix_def Let_def last_pad_num) (simp add: visible_def)

lemma last_rfc3339: "rfc3339_nano t \<noteq> [] \<and> visible (last (rfc3339_nano t))"
  by (simp add: rfc3339_nano_def Let_def last_zone_suffix split: prod.split)

lemma visible_bar: "visible (CHR ''|'')" by (simp add: visible_def)

lemma last_format_opt: "visible (last (CHR ''|'' # format_opt v))"
  by (cases v) (simp_all add: format_opt_def visible_bar last_rfc3339)

lemma kind_text_visible: "EventKind_Valid k \<Longrightarrow> EventKind_text k \<noteq> [] \<and> visible (hd (EventKind_text k))"
  by (cases k) (simp_all add: visible_def)

lemma fingerprint_trimmed:
  assumes "EventKind_Valid (ev_Kind e)"
  shows "trimmed_non_empty (fingerprint e)"
proof -
  have "\<exists>x v. fingerprint e = EventKind_text (ev_Kind e) @ x @ CHR ''|'' # format_opt v"
  proof (cases "ev_FeederETA e")
    case None
    then have "fingerprint e = EventKind_text (ev_Kind e) @ (''|'' @ rfc3339_nano (ev_OccurredAt e) @ ''|'' @
      DataStatus_text (ev_DataStatus e)) @ CHR ''|'' # format_opt (ev_OperationalTETA e)"
      by (simp add: fingerprint_def)
    then show ?thesis by blast
  next
    case (Some f)
    then have "fingerprint e = EventKind_text (ev_Kind e) @ (''|'' @ rfc3339_nano (ev_OccurredAt e) @ ''|'' @
      DataStatus_text (ev_DataStatus e) @ ''|'' @ format_opt (ev_OperationalTETA e) @ ''|'' @
      FeederETASource_text (feeder_Source f) @ ''|'' @ (if feeder_Passed f then ''true'' else ''false'')) @
      CHR ''|'' # format_opt (feeder_ETA f)"
      by (simp add: fingerprint_def)
    then show ?thesis by blast
  qed
  then obtain x v where f: "fingerprint e = EventKind_text (ev_Kind e) @ x @ CHR ''|'' # format_opt v" by blast
  have "last (fingerprint e) = last (CHR ''|'' # format_opt v)" unfolding f by simp
  moreover have "hd (fingerprint e) = hd (EventKind_text (ev_Kind e))"
    unfolding f using kind_text_visible [OF assms] by simp
  ultimately show ?thesis
    using kind_text_visible [OF assms] last_format_opt [of v] by (intro trimmed_visible) (simp_all add: f)
qed

section \<open>Well-formedness is kept\<close>

text \<open>
  The metadata is valid and, beyond the checks of \<^verbatim>\<open>Validate\<close>, an absence began no later than the last
  event. The prediction reducer also writes \<open>f_UpdatedAt\<close>, so nothing relates that to the last event.
\<close>

definition last_stamp :: "AMANFlight \<Rightarrow> gotime" where
  "last_stamp f = (case f_Lifecycle f of None \<Rightarrow> f_UpdatedAt f | Some l \<Rightarrow> lc_LastEventAt l)"

definition lifecycle_wf :: "AMANFlight \<Rightarrow> bool" where
  "lifecycle_wf f \<longleftrightarrow> FlightState_Valid (f_State f) \<and> DataStatus_Valid (f_DataStatus f) \<and>
     validateLifecycle f = Inr () \<and> valid_utc (last_stamp f) \<and> 0 < ns (last_stamp f) \<and>
     (\<forall>l a. f_Lifecycle f = Some l \<longrightarrow> lc_Absence l = Some a \<longrightarrow> ns (abs_MissingSince a) \<le> ns (lc_LastEventAt l))"

text \<open>The absence timer as an invariant of one event time \<open>now\<close>.\<close>

definition absence_ok :: "gotime \<Rightarrow> AbsenceState option \<Rightarrow> bool" where
  "absence_ok now absence \<longleftrightarrow>
     (\<forall>a. absence = Some a \<longrightarrow> AbsenceState_Validate a = Inr () \<and> ns (abs_MissingSince a) \<le> ns now)"

lemma absence_ok_later: "absence_ok t a \<Longrightarrow> ns t \<le> ns t' \<Longrightarrow> absence_ok t' a"
  by (auto simp: absence_ok_def)

lemma absence_ok_None [simp]: "absence_ok t None"
  by (simp add: absence_ok_def)

lemma pauseAbsence_ok:
  assumes "absence_ok t a" shows "absence_ok t (pauseAbsence a t)"
proof (cases a)
  case (Some x)
  with assms show ?thesis
    by (cases "abs_RemovalDueAt x") (auto simp: absence_ok_def pauseAbsence_def AbsenceState_Validate_def)
qed (simp add: pauseAbsence_def)

lemma pauseAbsence_paused: "pauseAbsence a t = Some x \<Longrightarrow> abs_RemovalDueAt x = None"
  by (auto simp: pauseAbsence_def split: option.splits)

definition prior_absence :: "AMANFlight \<Rightarrow> AbsenceState option" where
  "prior_absence f = (case f_Lifecycle f of None \<Rightarrow> None | Some l \<Rightarrow> lc_Absence l)"

definition prior_pending :: "AMANFlight \<Rightarrow> bool" where
  "prior_pending f = (case f_Lifecycle f of None \<Rightarrow> False | Some l \<Rightarrow> lc_ReconciliationPending l)"

text \<open>The absence timer and the reconciliation flag after an accepted event, by the kind of event.\<close>

definition next_absence :: "Config \<Rightarrow> AMANFlight \<Rightarrow> Event \<Rightarrow> bool \<times> AbsenceState option" where
  "next_absence c f e =
     (case ev_Kind e of
        EventDataStatusChanged \<Rightarrow> (True, pauseAbsence (prior_absence f) (ev_OccurredAt e))
      | EventSourceRestarted \<Rightarrow> (True, pauseAbsence (prior_absence f) (ev_OccurredAt e))
      | EventSuddenAppearance \<Rightarrow> (False, None)
      | EventFlightObserved \<Rightarrow> (False, None)
      | EventFlightMissing \<Rightarrow> (False,
          (case prior_absence f of
             None \<Rightarrow> Some \<lparr> abs_MissingSince = ev_OccurredAt e,
               abs_RemovalDueAt = Some (t_add (ev_OccurredAt e) (cfg_RemovalTimeout c)), abs_Remaining = 0 \<rparr>
           | Some a \<Rightarrow> (case abs_RemovalDueAt a of
               None \<Rightarrow> Some (a\<lparr> abs_RemovalDueAt := Some (t_add (ev_OccurredAt e) (abs_Remaining a)), abs_Remaining := 0 \<rparr>)
             | Some _ \<Rightarrow> Some a)))
      | _ \<Rightarrow> (prior_pending f, prior_absence f))"

lemma accepted_absence:
  assumes "apply_event c f e = Inr r" "f_Lifecycle (res_Flight r) = Some l"
  shows "(lc_ReconciliationPending l, lc_Absence l) = next_absence c f e"
proof -
  from assms(1) obtain to rs where
    "res_Flight r = applyOperationalExceptionState c
       (f\<lparr> f_State := to, f_DataStatus := new_data_status f e, f_UpdatedAt := ev_OccurredAt e \<rparr>)
       (new_lifecycle f e to rs) e"
    by (rule apply_event_step)
  with assms(2) show ?thesis
    by (cases "ev_Kind e")
       (auto simp: applyOperationalExceptionState_def next_absence_def new_lifecycle_def prior_absence_def
          prior_pending_def applySourceStatus_def applyMissing_def Let_def split: option.splits)
qed

lemma next_absence_ok:
  assumes "absence_ok (ev_OccurredAt e) (prior_absence f)" "valid_utc (ev_OccurredAt e)" "0 < ns (ev_OccurredAt e)"
    "0 < cfg_RemovalTimeout c" "next_absence c f e = (p, a)"
  shows "absence_ok (ev_OccurredAt e) a"
proof (cases "ev_Kind e = EventFlightMissing")
  case missing: True
  show ?thesis
  proof (cases "prior_absence f")
    case None
    with missing assms show ?thesis
      by (auto simp: next_absence_def absence_ok_def AbsenceState_Validate_def go_time)
  next
    case (Some x)
    with missing assms show ?thesis
      by (cases "abs_RemovalDueAt x") (auto simp: next_absence_def absence_ok_def AbsenceState_Validate_def go_time)
  qed
next
  case False
  with assms show ?thesis
    by (cases "ev_Kind e") (auto simp: next_absence_def intro: pauseAbsence_ok)
qed

text \<open>A pending reconciliation never runs the timer.\<close>

lemma next_absence_pending:
  assumes "next_absence c f e = (True, Some x)" "prior_pending f \<Longrightarrow> prior_absence f = Some x \<Longrightarrow> abs_RemovalDueAt x = None"
  shows "abs_RemovalDueAt x = None"
  using assms by (cases "ev_Kind e") (auto simp: next_absence_def dest: pauseAbsence_paused)

lemma wf_prior:
  assumes "lifecycle_wf f"
  shows "absence_ok (last_stamp f) (prior_absence f)"
    "prior_pending f \<Longrightarrow> prior_absence f = Some x \<Longrightarrow> abs_RemovalDueAt x = None"
    "lifecycle_cursor f \<ge> ns (last_stamp f) - 1" "0 < ns (last_stamp f)" "valid_utc (entered_at f)"
    "ns (entered_at f) \<le> ns (last_stamp f)" "LifecycleReason_Valid (entry_reason f)"
    "lifecycleReasonMatchesState (entry_reason f) (f_State f)"
  using assms
  by (auto simp: lifecycle_wf_def validateLifecycle_def LifecycleState_Validate_def absence_ok_def prior_absence_def
      prior_pending_def lifecycle_cursor_def last_stamp_def entered_at_def entry_reason_def go_time split: option.splits)

lemma lifecycle_wf_step:
  assumes "lifecycle_wf f" "lifecycle_step c f e f'"
  shows "lifecycle_wf f'"
proof -
  from assms(2) obtain r where r: "f' = res_Flight r" "Reduce c f e = Inr r" "apply_event c f e = Inr r"
    by (rule lifecycle_step_apply)
  note v = Reduce_valid [OF r(2)] and w = wf_prior [OF assms(1)]
  note ev = validateEvent_basic [OF v(2)]
  from v(1) have timeout: "0 < cfg_RemovalTimeout c" by (simp add: Config_Validate_def)
  from lifecycle_cursor.advance [OF assms(2)] w(3) have later: "ns (last_stamp f) \<le> ns (ev_OccurredAt e)" by simp
  from r(3) obtain to rs l where m: "nextState c f (entered_at f) e = Inr (to, rs)" "f_State f' = to"
    "f_DataStatus f' = new_data_status f e" "f_UpdatedAt f' = ev_OccurredAt e" "f_Lifecycle f' = Some l"
    "lc_EnteredAt l = (if to \<noteq> f_State f then ev_OccurredAt e else entered_at f)"
    "lc_Reason l = (if to \<noteq> f_State f then rs else entry_reason f)"
    "lc_LastEventID l = ev_ID e" "lc_LastEventFingerprint l = fingerprint e" "lc_LastEventAt l = ev_OccurredAt e"
    unfolding r(1) by (rule accepted_metadata)
  from accepted_absence [OF r(3)] m(5) r(1)
  have a: "next_absence c f e = (lc_ReconciliationPending l, lc_Absence l)" by simp
  have "absence_ok (ev_OccurredAt e) (lc_Absence l)"
    using next_absence_ok [OF absence_ok_later [OF w(1) later] ev(1) _ timeout a] w(4) later by simp
  moreover have "abs_RemovalDueAt x = None" if "lc_ReconciliationPending l" "lc_Absence l = Some x" for x
    using next_absence_pending [of c f e x] a that w(2) by simp
  moreover have "FlightState_Valid to \<and> LifecycleReason_Valid (lc_Reason l) \<and> lifecycleReasonMatchesState (lc_Reason l) to"
    using nextState_edge [OF m(1)] v(3) w(7,8) by (auto simp: m(7) dest: lifecycle_edge_valid lifecycle_edge_reason)
  moreover have "DataStatus_Valid (new_data_status f e)" using v(4,2) by (rule new_data_status_valid)
  ultimately show ?thesis
    using m w(4,5,6) ev later fingerprint_trimmed [OF ev(3)]
    by (auto simp: lifecycle_wf_def last_stamp_def validateLifecycle_def LifecycleState_Validate_def absence_ok_def after_def)
qed

interpretation lifecycle_wf: invariant_machine "lifecycle_step c" lifecycle_wf for c
  by unfold_locales (rule lifecycle_wf_step)

section \<open>The removal timer\<close>

text \<open>
  The time for which a flight was observably missing, told from the accepted events alone: reports that
  it is missing start the count, an interruption of the source stops it, and a sighting sets it back to zero.
  The aggregate keeps none of this; its deadline is compared with it.
\<close>

record absence_watch =
  w_counting :: bool
  w_total :: duration
  w_last :: int

definition no_watch :: absence_watch where
  "no_watch = \<lparr> w_counting = False, w_total = 0, w_last = 0 \<rparr>"

definition watch_event :: "Event \<Rightarrow> absence_watch \<Rightarrow> absence_watch" where
  "watch_event e w =
     (let t = ns (ev_OccurredAt e); total = (if w_counting w then w_total w + (t - w_last w) else w_total w) in
      if ev_Kind e = EventFlightObserved \<or> ev_Kind e = EventSuddenAppearance
      then \<lparr> w_counting = False, w_total = 0, w_last = t \<rparr>
      else if ev_Kind e = EventDataStatusChanged \<or> ev_Kind e = EventSourceRestarted
      then \<lparr> w_counting = False, w_total = total, w_last = t \<rparr>
      else if ev_Kind e = EventFlightMissing
      then \<lparr> w_counting = True, w_total = total, w_last = t \<rparr>
      else \<lparr> w_counting = w_counting w, w_total = total, w_last = t \<rparr>)"

definition watch :: "Event list \<Rightarrow> absence_watch" where
  "watch es = fold watch_event es no_watch"

definition missing_for :: "absence_watch \<Rightarrow> gotime \<Rightarrow> duration" where
  "missing_for w t = w_total w + (ns t - w_last w)"

inductive watched_step :: "Config \<Rightarrow> AMANFlight \<times> absence_watch \<Rightarrow> Event \<Rightarrow> AMANFlight \<times> absence_watch \<Rightarrow> bool" for c :: Config where
  "lifecycle_step c f e f' \<Longrightarrow> watched_step c (f, w) e (f', watch_event e w)"

inductive_cases watched_stepE: "watched_step c s e s'"

lemma watched_runs:
  "runs (lifecycle_step c) f es f' \<Longrightarrow> runs (watched_step c) (f, w) es (f', fold watch_event es w)"
  by (induction arbitrary: w rule: runs.induct) (auto intro: runs.intros watched_step.intros)

text \<open>
  The deadline and the paused rest of it stand for what the watch lacks of the removal timeout; a deadline
  that has passed stays passed.
\<close>

definition timer_ok :: "Config \<Rightarrow> AMANFlight \<times> absence_watch \<Rightarrow> bool" where
  "timer_ok c s = (case s of (f, w) \<Rightarrow>
     (case f_Lifecycle f of None \<Rightarrow> w = no_watch
      | Some l \<Rightarrow> w_last w = ns (lc_LastEventAt l) \<and>
          (case lc_Absence l of None \<Rightarrow> \<not> w_counting w \<and> w_total w = 0
           | Some a \<Rightarrow>
               (case abs_RemovalDueAt a of
                  Some due \<Rightarrow> w_counting w \<and> f_DataStatus f = DataFresh \<and> \<not> lc_ReconciliationPending l \<and>
                    (ns due - w_last w = cfg_RemovalTimeout c - w_total w \<or> ns due \<le> w_last w \<and> cfg_RemovalTimeout c \<le> w_total w)
                | None \<Rightarrow> \<not> w_counting w \<and> lc_ReconciliationPending l \<and> abs_Remaining a = max 0 (cfg_RemovalTimeout c - w_total w)))))"

text \<open>A flight is only reported missing, and its timer only started, on fresh data.\<close>

lemma accepted_missing_fresh:
  assumes "nextState c f t e = Inr x" "ev_Kind e = EventFlightMissing"
  shows "f_DataStatus f = DataFresh"
  using assms by (auto simp: nextState_def Let_def split: if_splits)

lemma timer_ok_step:
  assumes "timer_ok c s" "watched_step c s e s'"
  shows "timer_ok c s'"
proof -
  from assms(2) obtain f w f' where s: "s = (f, w)" "s' = (f', watch_event e w)" "lifecycle_step c f e f'"
    by (auto elim: watched_stepE)
  from s(3) obtain r where r: "f' = res_Flight r" "Reduce c f e = Inr r" "apply_event c f e = Inr r"
    by (rule lifecycle_step_apply)
  from r(3) obtain to rs l where m: "nextState c f (entered_at f) e = Inr (to, rs)"
    "f_DataStatus f' = new_data_status f e" "f_Lifecycle f' = Some l" "lc_LastEventAt l = ev_OccurredAt e"
    unfolding r(1) by (rule accepted_metadata)
  from accepted_absence [OF r(3)] m(3) r(1)
  have a: "lc_ReconciliationPending l = fst (next_absence c f e)" "lc_Absence l = snd (next_absence c f e)"
    by (metis fst_conv, metis snd_conv)
  from lifecycle_cursor.advance [OF s(3)] have later: "f_Lifecycle f = Some l0 \<Longrightarrow> ns (lc_LastEventAt l0) < ns (ev_OccurredAt e)" for l0
    by (simp add: lifecycle_cursor_def)
  note fresh = accepted_missing_fresh [OF m(1)]
  note after = timer_ok_def m(2-4) a watch_event_def Let_def next_absence_def new_data_status_def pauseAbsence_def t_sub_def t_add_def max_def
  have ok: "timer_ok c (f, w)" using assms(1) s(1) by simp
  have "timer_ok c (f', watch_event e w)"
  proof (cases "f_Lifecycle f")
    case None
    with ok have "w = no_watch" "prior_absence f = None" "prior_pending f = False"
      by (simp_all add: timer_ok_def prior_absence_def prior_pending_def)
    with fresh show ?thesis by (cases "ev_Kind e") (simp_all add: after no_watch_def)
  next
    case (Some l0)
    then have p: "prior_absence f = lc_Absence l0" "prior_pending f = lc_ReconciliationPending l0"
      by (simp_all add: prior_absence_def prior_pending_def)
    have w: "w_last w = ns (lc_LastEventAt l0)" using ok Some by (simp add: timer_ok_def)
    show ?thesis
    proof (cases "lc_Absence l0")
      case None
      with ok Some have "\<not> w_counting w" "w_total w = 0" by (simp_all add: timer_ok_def)
      with fresh None w show ?thesis by (cases "ev_Kind e") (simp_all add: after p)
    next
      case (Some x)
      show ?thesis
      proof (cases "abs_RemovalDueAt x")
        case None
        with ok \<open>f_Lifecycle f = Some l0\<close> Some have "\<not> w_counting w" "lc_ReconciliationPending l0"
            "abs_Remaining x = max 0 (cfg_RemovalTimeout c - w_total w)" by (simp_all add: timer_ok_def)
        with fresh None Some w show ?thesis by (cases "ev_Kind e") (simp_all add: after p)
      next
        case (Some due)
        with ok \<open>f_Lifecycle f = Some l0\<close> \<open>lc_Absence l0 = Some x\<close> have "w_counting w" "f_DataStatus f = DataFresh" "\<not> lc_ReconciliationPending l0"
            "ns due - w_last w = cfg_RemovalTimeout c - w_total w \<or> ns due \<le> w_last w \<and> cfg_RemovalTimeout c \<le> w_total w"
          by (auto simp: timer_ok_def)
        with Some \<open>lc_Absence l0 = Some x\<close> w later [OF \<open>f_Lifecycle f = Some l0\<close>] show ?thesis
          by (cases "ev_Kind e"; simp add: after p; linarith?)
      qed
    qed
  qed
  with s(2) show ?thesis by simp
qed

interpretation timer: invariant_machine "watched_step c" "timer_ok c" for c
  by unfold_locales (rule timer_ok_step)

lemma timer_ok_due:
  assumes "timer_ok c (f, w)" "lifecycle_cursor f < ns t"
  shows "(\<exists>due. removal_due f = Some due \<and> ns due \<le> ns t) \<longleftrightarrow>
     w_counting w \<and> cfg_RemovalTimeout c \<le> missing_for w t"
  using assms
  by (auto simp: timer_ok_def removal_due_def missing_for_def no_watch_def lifecycle_cursor_def split: option.splits)

lemma timer_ok_fresh:
  assumes "timer_ok c (f, w)" "w_counting w"
  shows "\<exists>l. f_Lifecycle f = Some l \<and> f_DataStatus f = DataFresh \<and> \<not> lc_ReconciliationPending l"
  using assms by (auto simp: timer_ok_def no_watch_def split: option.splits)

lemma removal_next:
  assumes "ev_Kind e = EventRemovalTimeout"
  shows "(\<exists>to rs. nextState c f t e = Inr (to, rs)) \<longleftrightarrow>
      f_State f \<noteq> StateRemoved \<and> (\<exists>due. removal_due f = Some due \<and> ns due \<le> ns (ev_OccurredAt e))"
    "nextState c f t e = Inr (to, rs) \<Longrightarrow> to = StateRemoved \<and> rs = LifecycleReasonSourceDisappearance"
  using assms by (auto simp: nextState_def Let_def go_time split: if_splits option.splits)

section \<open>Delivery of arbitrary events\<close>

text \<open>
  An event that the reducer rejects leaves the aggregate as it was: the caller commits nothing.
\<close>

definition deliver :: "Config \<Rightarrow> AMANFlight \<Rightarrow> Event \<Rightarrow> AMANFlight" where
  "deliver c f e = (case Reduce c f e of Inl _ \<Rightarrow> f | Inr r \<Rightarrow> res_Flight r)"

definition accepts :: "Config \<Rightarrow> AMANFlight \<Rightarrow> Event \<Rightarrow> bool" where
  "accepts c f e = (case Reduce c f e of Inl _ \<Rightarrow> False | Inr r \<Rightarrow> \<not> res_Duplicate r)"

lemma deliver_step: "if accepts c f e then lifecycle_step c f e (deliver c f e) else deliver c f e = f"
proof (cases "Reduce c f e")
  case (Inr r)
  show ?thesis
  proof (cases "res_Duplicate r")
    case True
    with Inr have "res_Flight r = f" by (auto elim: Reduce_cases)
    with Inr True show ?thesis by (simp add: accepts_def deliver_def)
  next
    case False
    with Inr show ?thesis by (simp add: accepts_def deliver_def lifecycle_step.accept)
  qed
qed (simp add: accepts_def deliver_def)

lemma deliver_all_runs:
  "runs (lifecycle_step c) f (steps_among (accepts c) (deliver c) f es) (foldl (deliver c) f es)"
  by (rule deliver_runs) (rule deliver_step)

text \<open>An event that the reducer would look at: valid, with an identifier of its own and after the last one.\<close>

definition presentable :: "Config \<Rightarrow> AMANFlight \<Rightarrow> Event \<Rightarrow> bool" where
  "presentable c f e \<longleftrightarrow> Config_Validate c = Inr () \<and> validateEvent e = Inr () \<and> FlightState_Valid (f_State f) \<and> DataStatus_Valid (f_DataStatus f) \<and>
     (case f_Lifecycle f of None \<Rightarrow> True | Some l \<Rightarrow> ev_ID e \<noteq> lc_LastEventID l) \<and> lifecycle_cursor f < ns (ev_OccurredAt e)"

lemma and_then_unit [simp]: "and_then (Inr u) k = k"
  by (simp add: and_then_def)

lemma accepts_presentable:
  assumes "presentable c f e"
  shows "accepts c f e \<longleftrightarrow> (\<exists>to rs. nextState c f (entered_at f) e = Inr (to, rs))"
    "nextState c f (entered_at f) e = Inr (to, rs) \<Longrightarrow> f_State (deliver c f e) = to"
proof -
  have o: "order_check f e = Inr ()" using assms by (simp add: presentable_def order_check_cursor)
  have R: "Reduce c f e = apply_event c f e" using assms by (auto simp: presentable_def Reduce_def and_then_def ensure_def split: option.splits)
  show "accepts c f e \<longleftrightarrow> (\<exists>to rs. nextState c f (entered_at f) e = Inr (to, rs))"
    by (auto simp: accepts_def R apply_event_def o split: sum.splits)
  show "nextState c f (entered_at f) e = Inr (to, rs) \<Longrightarrow> f_State (deliver c f e) = to"
    by (simp add: deliver_def R apply_event_def o)
qed

lemma accepts_order: "accepts c f e \<Longrightarrow> lifecycle_cursor f < ns (ev_OccurredAt e)"
  using deliver_step [of c f e] lifecycle_cursor.advance by simp

lemma accepts_next: "accepts c f e \<Longrightarrow> \<exists>to rs. nextState c f (entered_at f) e = Inr (to, rs)"
  by (auto simp: accepts_def split: sum.splits elim!: Reduce_cases apply_event_step)

section \<open>Properties\<close>

text \<open>A concrete arrival and events for the witnesses.\<close>

definition sample_flight :: AMANFlight where
  "sample_flight = \<lparr> f_Callsign = ''SAS123'', f_State = StatePlanned, f_DataStatus = DataFresh,
     f_Prediction = None, f_PredictionFilter = None, f_FeederETA = None, f_DerivedFeederETA = None,
     f_RawTETASamples = [], f_ArrivalBaseline = None, f_FreezeReason = FreezeNone,
     f_FrozenAt = None, f_FrozenOperationalTETA = None, f_FrozenSlot = None, f_Slot = None,
     f_ETAReview = None, f_OperationalException = None, f_Lifecycle = None, f_UpdatedAt = Time hour UTC \<rparr>"

definition sample_event :: "string \<Rightarrow> EventKind \<Rightarrow> duration \<Rightarrow> Event" where
  "sample_event i k d = \<lparr> ev_ID = i, ev_Kind = k, ev_OccurredAt = Time (hour + d) UTC,
     ev_DataStatus = DataStatusEmpty, ev_OperationalTETA = None, ev_FeederETA = None \<rparr>"

definition sample_prediction :: "string \<Rightarrow> duration \<Rightarrow> Event" where
  "sample_prediction i d = (sample_event i EventPredictionAccepted d)
     \<lparr> ev_OperationalTETA := Some (Time (hour + d + 30 * minute) UTC),
       ev_FeederETA := Some \<lparr> feeder_ETA = Some (Time (hour + d + 15 * minute) UTC),
         feeder_Source = FeederETASourceRoute, feeder_Passed = False \<rparr> \<rparr>"

text \<open>
  C1. Removal for disappearance, exactly: whatever events a new aggregate has been given, a removal timeout
  is accepted only if, by the accepted events, the flight is missing at present, the source is fresh and
  reconciled, and the time for which that was so since the flight was last seen (outages do not count) adds up to
  the removal timeout; and then any valid and later timeout event is accepted and removes the flight.
\<close>

theorem removal_needs_fresh_absence:
  assumes "f_Lifecycle f0 = None" "f = foldl (deliver c) f0 es" "w = watch (steps_among (accepts c) (deliver c) f0 es)"
    and "ev_Kind e = EventRemovalTimeout"
  shows "(accepts c f e \<longrightarrow> w_counting w \<and> cfg_RemovalTimeout c \<le> missing_for w (ev_OccurredAt e) \<and>
      (\<exists>l. f_Lifecycle f = Some l \<and> f_DataStatus f = DataFresh \<and> \<not> lc_ReconciliationPending l)) \<and>
    (presentable c f e \<and> f_State f \<noteq> StateRemoved \<and> w_counting w \<and> cfg_RemovalTimeout c \<le> missing_for w (ev_OccurredAt e) \<longrightarrow>
      accepts c f e \<and> f_State (deliver c f e) = StateRemoved)"
proof -
  have "timer_ok c (f0, no_watch)" using assms(1) by (simp add: timer_ok_def)
  with timer.runs_inv [OF watched_runs [OF deliver_all_runs]] have ok: "timer_ok c (f, w)"
    by (simp add: assms(2,3) watch_def)
  note due = timer_ok_due [OF ok]
  have "w_counting w \<and> cfg_RemovalTimeout c \<le> missing_for w (ev_OccurredAt e)" if "accepts c f e"
    using due [OF accepts_order [OF that]] accepts_next [OF that] removal_next(1) [OF assms(4)] by blast
  moreover have "accepts c f e \<and> f_State (deliver c f e) = StateRemoved"
    if p: "presentable c f e" "f_State f \<noteq> StateRemoved" "w_counting w \<and> cfg_RemovalTimeout c \<le> missing_for w (ev_OccurredAt e)"
  proof -
    have "lifecycle_cursor f < ns (ev_OccurredAt e)" using p(1) by (simp add: presentable_def)
    with p(2,3) due obtain to rs where n: "nextState c f (entered_at f) e = Inr (to, rs)" using removal_next(1) [OF assms(4)] by blast
    with removal_next(2) [OF assms(4) n] accepts_presentable [OF p(1)] show ?thesis by blast
  qed
  ultimately show ?thesis using timer_ok_fresh [OF ok] by blast
qed

text \<open>A flight that is missed, seen again, and missed for six minutes with an outage of one.\<close>

definition missed_events :: "Event list" where
  "missed_events =
     [sample_event ''a'' EventFlightMissing minute, sample_event ''b'' EventFlightObserved (2 * minute),
      sample_event ''c'' EventFlightMissing (3 * minute), sample_event ''d'' EventSourceRestarted (4 * minute),
      (sample_event ''e'' EventDataStatusChanged (4 * minute + second))\<lparr> ev_DataStatus := DataFresh \<rparr>,
      sample_event ''f'' EventFlightMissing (5 * minute)]"

theorem removal_needs_fresh_absence_witness:
  "\<not> accepts DefaultConfig (foldl (deliver DefaultConfig) sample_flight missed_events) (sample_event ''g'' EventRemovalTimeout (8 * minute)) \<and>
   f_State (deliver DefaultConfig (foldl (deliver DefaultConfig) sample_flight missed_events) (sample_event ''g'' EventRemovalTimeout (9 * minute))) = StateRemoved"
proof -
  let ?f = "foldl (deliver DefaultConfig) sample_flight missed_events"
  let ?w = "watch (steps_among (accepts DefaultConfig) (deliver DefaultConfig) sample_flight missed_events)"
  have w: "?w = \<lparr> w_counting = True, w_total = minute, w_last = hour + 5 * minute \<rparr>" by code_simp
  have f: "f_Lifecycle sample_flight = None" by (simp add: sample_flight_def)
  have k: "ev_Kind (sample_event ''g'' EventRemovalTimeout d) = EventRemovalTimeout" for d by (simp add: sample_event_def)
  have "presentable DefaultConfig ?f (sample_event ''g'' EventRemovalTimeout (9 * minute))"
    unfolding presentable_def by code_simp
  moreover have "f_State ?f \<noteq> StateRemoved" by code_simp
  ultimately show ?thesis
    using removal_needs_fresh_absence [OF f refl w [symmetric] k, of "8 * minute"]
      removal_needs_fresh_absence [OF f refl w [symmetric] k, of "9 * minute"]
    by (simp add: missing_for_def sample_event_def DefaultConfig_def)
qed

text \<open>
  Exact retries are idempotent: an event that the reducer accepted, presented again to the
  aggregate it produced, is recognised as a duplicate and changes nothing.
\<close>

theorem exact_retry:
  assumes "Reduce c f e = Inr r"
  shows "Reduce c (res_Flight r) e = Inr \<lparr> res_Flight = res_Flight r, res_Transition = None, res_Duplicate = True \<rparr>"
  using assms
proof (cases rule: Reduce_cases)
  case duplicate
  with assms show ?thesis by (cases r) simp
next
  case accepted
  note v = Reduce_valid [OF assms]
  from accepted(1) obtain to rs l where m: "nextState c f (entered_at f) e = Inr (to, rs)"
    "f_State (res_Flight r) = to" "f_DataStatus (res_Flight r) = new_data_status f e"
    "f_Lifecycle (res_Flight r) = Some l" "lc_LastEventID l = ev_ID e" "lc_LastEventFingerprint l = fingerprint e"
    by (rule accepted_metadata)
  have "FlightState_Valid to" using nextState_edge [OF m(1)] v(3) by (auto dest: lifecycle_edge_valid)
  moreover have "DataStatus_Valid (new_data_status f e)" using v(4,2) by (rule new_data_status_valid)
  ultimately show ?thesis using v m by (simp add: Reduce_def)
qed

theorem exact_retry_witness:
  "\<exists>r. Reduce DefaultConfig sample_flight (sample_event ''a'' EventAirborneDetected minute) = Inr r \<and>
     Reduce DefaultConfig (res_Flight r) (sample_event ''a'' EventAirborneDetected minute) =
       Inr \<lparr> res_Flight = res_Flight r, res_Transition = None, res_Duplicate = True \<rparr>"
proof -
  let ?R = "Reduce DefaultConfig sample_flight (sample_event ''a'' EventAirborneDetected minute)"
  have "?R = Inr (projr ?R)" by code_simp
  with exact_retry [OF this] show ?thesis by metis
qed

text \<open>
  C3. Ordering: among any events presented to an aggregate, the accepted ones have strictly
  increasing times, and the cursor is the time of the last of them.
\<close>

theorem accepted_in_order:
  "sorted_wrt (<) (map (\<lambda>e. ns (ev_OccurredAt e)) (steps_among (accepts c) (deliver c) f es)) \<and>
   (\<forall>e \<in> set (steps_among (accepts c) (deliver c) f es).
      ns (ev_OccurredAt e) \<le> lifecycle_cursor (foldl (deliver c) f es)) \<and>
   lifecycle_cursor f \<le> lifecycle_cursor (foldl (deliver c) f es)"
  using lifecycle_cursor.runs_stamps [OF deliver_all_runs [of c f es]] by blast

theorem accepted_in_order_witness:
  "ns (ev_OccurredAt (sample_event ''a'' EventAirborneDetected minute)) \<le>
     lifecycle_cursor (foldl (deliver DefaultConfig) sample_flight
       [sample_event ''a'' EventAirborneDetected minute, sample_event ''b'' EventFlightObserved 0])"
proof -
  let ?es = "[sample_event ''a'' EventAirborneDetected minute, sample_event ''b'' EventFlightObserved 0]"
  have "steps_among (accepts DefaultConfig) (deliver DefaultConfig) sample_flight ?es =
      [sample_event ''a'' EventAirborneDetected minute]" by code_simp
  with accepted_in_order [of DefaultConfig sample_flight ?es] show ?thesis by simp
qed

text \<open>
  C4. Refinement of the abstract state machine: an accepted event keeps the state and reports no
  transition, or takes an edge of \<open>lifecycle_edge\<close> and reports exactly that edge.
\<close>

theorem reduce_follows_edges:
  assumes "Reduce c f e = Inr r"
  shows "f_State (res_Flight r) = f_State f \<and> res_Transition r = None \<or>
    (\<exists>rs. f_State (res_Flight r) \<noteq> f_State f \<and> lifecycle_edge (f_State f) (ev_Kind e) (f_State (res_Flight r)) rs \<and>
       res_Transition r = Some \<lparr> tr_EventID = ev_ID e, tr_From = f_State f, tr_To = f_State (res_Flight r),
         tr_Reason = rs, tr_At = ev_OccurredAt e \<rparr>)"
  using assms
proof (cases rule: Reduce_cases)
  case accepted
  from accepted(1) show ?thesis by (rule apply_event_step) (auto dest: nextState_edge)
qed simp

theorem reduce_follows_edges_witness:
  "\<exists>r. Reduce DefaultConfig sample_flight (sample_event ''a'' EventAirborneDetected minute) = Inr r \<and>
     lifecycle_edge StatePlanned EventAirborneDetected StateAirborne LifecycleReasonAirborneDetected \<and>
     map_option tr_Reason (res_Transition r) = Some LifecycleReasonAirborneDetected"
proof -
  let ?R = "Reduce DefaultConfig sample_flight (sample_event ''a'' EventAirborneDetected minute)"
  have R: "?R = Inr (projr ?R)" "f_State (res_Flight (projr ?R)) = StateAirborne" by code_simp+
  have f: "f_State sample_flight = StatePlanned" by code_simp
  have "map_option tr_Reason (res_Transition (projr ?R)) = Some LifecycleReasonAirborneDetected" by code_simp
  with reduce_follows_edges [OF R(1)] R show ?thesis
    by (auto simp: f sample_event_def intro!: exI [of _ "projr ?R"])
qed

text \<open>
  C5. The lifecycle metadata stays valid: from a well-formed aggregate (whatever other reducers did to its
  update time), any events at all lead to a well-formed aggregate whose metadata passes \<^verbatim>\<open>AMANFlight.Validate\<close>, the reason matching the state and the
  absence timer never running while reconciliation is pending.
\<close>

theorem lifecycle_stays_valid:
  assumes "lifecycle_wf f"
  shows "lifecycle_wf (foldl (deliver c) f es) \<and> validateLifecycle (foldl (deliver c) f es) = Inr ()"
  using lifecycle_wf.runs_inv [OF deliver_all_runs assms] by (simp add: lifecycle_wf_def)

theorem lifecycle_stays_valid_witness:
  "validateLifecycle (foldl (deliver DefaultConfig) sample_flight
     [sample_event ''a'' EventAirborneDetected minute, sample_event ''b'' EventFlightMissing (2 * minute)]) = Inr ()"
proof -
  have "lifecycle_wf sample_flight"
    by (simp add: lifecycle_wf_def last_stamp_def sample_flight_def validateLifecycle_def DataStatus_Valid_def go_time)
  from lifecycle_stays_valid [OF this] show ?thesis by blast
qed

text \<open>
  C6. The stable state is entered only from \<open>Unstable\<close>, on fresh data, after the minimum dwell, by an
  accepted prediction whose validated feeder evidence lies within the stable horizon.
\<close>

theorem stable_entry_guarded:
  assumes "Reduce c f e = Inr r" "f_State (res_Flight r) = StateStable" "f_State f \<noteq> StateStable"
  shows "f_State f = StateUnstable \<and> ev_Kind e = EventPredictionAccepted \<and> f_DataStatus f = DataFresh \<and>
    StableFeederEligible (ev_FeederETA e) (ev_OccurredAt e) (cfg_StableHorizon c) \<and>
    cfg_MinimumUnstableDwell c \<le> t_sub (ev_OccurredAt e) (entered_at f)"
  using assms(1)
proof (cases rule: Reduce_cases)
  case accepted
  from accepted(1) obtain to rs where n: "nextState c f (entered_at f) e = Inr (to, rs)" "f_State (res_Flight r) = to"
    by (rule accepted_metadata)
  with assms(2,3) have "lifecycle_edge (f_State f) (ev_Kind e) StateStable rs" using nextState_edge by force
  then have "f_State f = StateUnstable" "ev_Kind e = EventPredictionAccepted"
    by (auto elim: lifecycle_edge_to_StableE)
  with n assms(2,3) show ?thesis by (auto simp: nextState_def Let_def stay_def split: if_splits)
qed (use assms in simp)

theorem stable_entry_guarded_witness:
  "f_State (foldl (deliver DefaultConfig) sample_flight
      [sample_event ''a'' EventAirborneDetected 0, sample_prediction ''b'' minute]) = StateUnstable \<and>
   f_State (foldl (deliver DefaultConfig) sample_flight
      [sample_event ''a'' EventAirborneDetected 0, sample_prediction ''b'' minute, sample_prediction ''c'' (3 * minute)]) = StateStable"
proof -
  let ?f = "foldl (deliver DefaultConfig) sample_flight [sample_event ''a'' EventAirborneDetected 0, sample_prediction ''b'' minute]"
  let ?R = "Reduce DefaultConfig ?f (sample_prediction ''c'' (3 * minute))"
  have R: "?R = Inr (projr ?R)" "f_State (res_Flight (projr ?R)) = StateStable" "f_State ?f \<noteq> StateStable" by code_simp+
  have "f_State (deliver DefaultConfig ?f (sample_prediction ''c'' (3 * minute))) = StateStable" by code_simp
  with stable_entry_guarded [OF R] show ?thesis by simp
qed

text \<open>Removal is final: no sequence of events brings a removed flight back.\<close>

theorem removed_is_terminal:
  assumes "f_State f = StateRemoved"
  shows "f_State (foldl (deliver c) f es) = StateRemoved"
  using lifecycle_removed.runs_terminal [OF deliver_all_runs assms] .

theorem removed_is_terminal_witness:
  "f_State (foldl (deliver DefaultConfig) (sample_flight\<lparr> f_State := StateRemoved \<rparr>)
     [sample_event ''a'' EventAirborneDetected minute]) = StateRemoved"
  by (rule removed_is_terminal) simp

end
