(* ===== verification/Coordination_Request.thy ===== *)
theory Coordination_Request
  imports Go_Format Machines
begin

text \<open>
  The coordination request aggregate of \<^verbatim>\<open>internal/coordinationrequest/request.go\<close>: its records, its
  validator and its transitions. A transition of the source returns the new request together with
  the error of its final \<^verbatim>\<open>Validate\<close>; the model returns the error alone in that case, as every
  caller drops the value. Identifier types are plain strings, revisions (\<^verbatim>\<open>uint64\<close>) are \<^typ>\<open>nat\<close>.
\<close>

section \<open>Data\<close>

datatype Kind = KindRouteDirect | KindSpeed | KindOther string

datatype State = StatePending | StateAccepted | StateRejected | StateSuperseded | StateExpired
  | StateUnknown string

datatype RecipientStatus = RecipientAssigned | RecipientUnassigned | RecipientOmitted
  | RecipientOther string

datatype ExpiryReason = ExpiryFlightCompleted | ExpiryGoAroundConfirmed | ExpiryAuthoritativeRemoval
  | ExpiryDesequenced | ExpiryOther string

datatype request_error = RequestError string | UnknownKind Kind

record RouteDirectPayload =
  rd_Route :: string
  rd_DirectTo :: string

record SpeedPayload =
  sp_Requested :: string

record Payload =
  pl_RouteDirect :: "RouteDirectPayload option"
  pl_Speed :: "SpeedPayload option"

record Decision =
  dc_CommandID :: string
  dc_Airport :: string
  dc_Actor :: string
  dc_Role :: string
  dc_AuthoritativeRecipient :: string
  dc_RequestID :: string
  dc_RequestKind :: Kind
  dc_BeforeState :: State
  dc_AfterState :: State
  dc_Reason :: string
  dc_ReceivedAt :: gotime

record RecipientTransfer =
  xf_OwnershipFact :: string
  xf_OwnershipRevision :: nat
  xf_PreviousRecipient :: string
  xf_NewRecipient :: string
  xf_TransferredAt :: gotime

record Expiry =
  ex_FactID :: string
  ex_FactRevision :: nat
  ex_Reason :: ExpiryReason
  ex_ExpiredAt :: gotime

record ClearanceAudit =
  cl_FactID :: string
  cl_Kind :: Kind
  cl_Value :: string
  cl_Issuer :: string
  cl_ObservedAt :: gotime

record Request =
  rq_ID :: string
  rq_CommandID :: string
  rq_Airport :: string
  rq_Callsign :: string
  rq_RecipientController :: string
  rq_RecipientStatus :: RecipientStatus
  rq_SubmittedBy :: string
  rq_SubmittedRole :: string
  rq_Kind :: Kind
  rq_State :: State
  rq_Payload :: Payload
  rq_CreatedAt :: gotime
  rq_UpdatedAt :: gotime
  rq_ResolvedAt :: "gotime option"
  rq_Supersedes :: "string option"
  rq_SupersededBy :: "string option"
  rq_Decision :: "Decision option"
  rq_RecipientTransfers :: "RecipientTransfer list"
  rq_Expiry :: "Expiry option"
  rq_Clearance :: "ClearanceAudit option"

section \<open>Validation\<close>

definition present :: "string \<Rightarrow> bool" where
  "present v \<longleftrightarrow> v \<noteq> '''' \<and> v = trim_space v"

definition optional :: "string \<Rightarrow> bool" where
  "optional v \<longleftrightarrow> v = '''' \<or> present v"

definition utc :: "gotime \<Rightarrow> bool" where
  "utc t \<longleftrightarrow> \<not> is_zero t \<and> loc t = UTC"

definition terminal :: "State \<Rightarrow> bool" where
  "terminal s \<longleftrightarrow> s = StateAccepted \<or> s = StateRejected \<or> s = StateSuperseded \<or> s = StateExpired"

definition ExpiryReason_valid :: "ExpiryReason \<Rightarrow> bool" where
  "ExpiryReason_valid r \<longleftrightarrow> r = ExpiryFlightCompleted \<or> r = ExpiryGoAroundConfirmed \<or>
     r = ExpiryAuthoritativeRemoval \<or> r = ExpiryDesequenced"

definition Payload_validate :: "Payload \<Rightarrow> Kind \<Rightarrow> request_error + unit" where
  "Payload_validate p k =
     (case k of
        KindRouteDirect \<Rightarrow>
          ensure (case pl_RouteDirect p of None \<Rightarrow> False
                  | Some d \<Rightarrow> pl_Speed p = None \<and> optional (rd_Route d) \<and> optional (rd_DirectTo d) \<and>
                      \<not> (rd_Route d = '''' \<and> rd_DirectTo d = ''''))
            (RequestError ''route/direct request requires only route/direct payload'')
      | KindSpeed \<Rightarrow>
          ensure (case pl_Speed p of None \<Rightarrow> False
                  | Some s \<Rightarrow> pl_RouteDirect p = None \<and> present (sp_Requested s))
            (RequestError ''speed request requires only speed payload'')
      | KindOther _ \<Rightarrow> Inl (UnknownKind k))"

definition IDForCommand :: "string \<Rightarrow> string" where
  "IDForCommand commandID = ''coordination-request/'' @ commandID"

text \<open>The loop over the transfer audit: \<open>prev\<close> is the revision of the entry before.\<close>

fun transfers_ok :: "gotime \<Rightarrow> nat option \<Rightarrow> RecipientTransfer list \<Rightarrow> bool" where
  "transfers_ok created prev [] \<longleftrightarrow> True"
| "transfers_ok created prev (x # xs) \<longleftrightarrow>
     present (xf_OwnershipFact x) \<and> xf_OwnershipRevision x \<noteq> 0 \<and> utc (xf_TransferredAt x) \<and>
     \<not> before (xf_TransferredAt x) created \<and> xf_PreviousRecipient x \<noteq> xf_NewRecipient x \<and>
     (case prev of None \<Rightarrow> True | Some p \<Rightarrow> p < xf_OwnershipRevision x) \<and>
     transfers_ok created (Some (xf_OwnershipRevision x)) xs"

definition decision_ok :: "Request \<Rightarrow> gotime \<Rightarrow> bool" where
  "decision_ok r resolved =
     (case rq_Decision r of None \<Rightarrow> False
      | Some d \<Rightarrow> present (dc_CommandID d) \<and> dc_Airport d = rq_Airport r \<and> present (dc_Actor d) \<and>
          present (dc_Role d) \<and> dc_AuthoritativeRecipient d = rq_RecipientController r \<and>
          dc_RequestID d = rq_ID r \<and> dc_RequestKind d = rq_Kind r \<and> dc_BeforeState d = StatePending \<and>
          dc_AfterState d = rq_State r \<and> t_equal (dc_ReceivedAt d) resolved \<and>
          \<not> (rq_State r = StateRejected \<and> \<not> present (dc_Reason d)) \<and>
          \<not> (rq_State r = StateAccepted \<and> dc_Reason d \<noteq> ''''))"

definition clearance_ok :: "Request \<Rightarrow> gotime \<Rightarrow> bool" where
  "clearance_ok r resolved =
     (case rq_Clearance r of None \<Rightarrow> True
      | Some c \<Rightarrow> rq_State r = StateAccepted \<and> cl_Kind c = rq_Kind r \<and> present (cl_FactID c) \<and>
          present (cl_Value c) \<and> present (cl_Issuer c) \<and> utc (cl_ObservedAt c) \<and>
          \<not> before (cl_ObservedAt c) resolved)"

definition expiry_ok :: "Request \<Rightarrow> gotime \<Rightarrow> bool" where
  "expiry_ok r resolved =
     (case rq_Expiry r of None \<Rightarrow> False
      | Some x \<Rightarrow> present (ex_FactID x) \<and> ex_FactRevision x \<noteq> 0 \<and> ExpiryReason_valid (ex_Reason x) \<and>
          t_equal (ex_ExpiredAt x) resolved)"

text \<open>The second half of \<^verbatim>\<open>Validate\<close>, on a request that is not pending.\<close>

definition Validate_terminal :: "Request \<Rightarrow> request_error + unit" where
  "Validate_terminal r =
     (case rq_ResolvedAt r of
        None \<Rightarrow> Inl (RequestError ''terminal coordination request requires one chronological resolution timestamp'')
      | Some resolved \<Rightarrow>
          and_then (ensure (terminal (rq_State r) \<and> utc resolved \<and> \<not> before resolved (rq_CreatedAt r) \<and>
               t_equal (rq_UpdatedAt r) resolved)
             (RequestError ''terminal coordination request requires one chronological resolution timestamp''))
          (and_then (ensure ((rq_State r = StateSuperseded) = (rq_SupersededBy r \<noteq> None) \<and>
               rq_SupersededBy r \<noteq> Some (rq_ID r) \<and> rq_Supersedes r \<noteq> Some (rq_ID r))
             (RequestError ''coordination request supersede audit links are invalid''))
          (and_then (if rq_State r = StateAccepted \<or> rq_State r = StateRejected
             then ensure (decision_ok r resolved) (RequestError ''coordination request decision audit is invalid'')
             else ensure (rq_Decision r = None)
               (RequestError ''only accepted or rejected requests may contain a decision audit''))
          (and_then (ensure (clearance_ok r resolved) (RequestError ''coordination clearance correlation is invalid''))
          (if rq_State r = StateExpired
           then ensure (expiry_ok r resolved)
             (RequestError ''expired coordination request requires an authoritative expiry audit'')
           else ensure (rq_Expiry r = None)
             (RequestError ''only expired requests may contain an expiry audit''))))))"

definition Validate :: "Request \<Rightarrow> request_error + unit" where
  "Validate r =
     and_then (ensure (present (rq_CommandID r) \<and> rq_ID r = IDForCommand (rq_CommandID r) \<and>
          present (rq_Airport r) \<and> present (rq_Callsign r) \<and> present (rq_SubmittedBy r) \<and>
          present (rq_SubmittedRole r))
        (RequestError ''coordination request identity and ownership must be complete and trimmed''))
     (and_then (ensure (\<not> ((rq_RecipientStatus r = RecipientOmitted \<or> rq_RecipientStatus r = RecipientAssigned) \<and>
            \<not> present (rq_RecipientController r) \<or>
          rq_RecipientStatus r = RecipientUnassigned \<and> rq_RecipientController r \<noteq> '''' \<or>
          rq_RecipientStatus r \<noteq> RecipientOmitted \<and> rq_RecipientStatus r \<noteq> RecipientAssigned \<and>
            rq_RecipientStatus r \<noteq> RecipientUnassigned))
        (RequestError ''coordination request recipient assignment is invalid''))
     (and_then (ensure (utc (rq_CreatedAt r) \<and> utc (rq_UpdatedAt r) \<and> \<not> before (rq_UpdatedAt r) (rq_CreatedAt r))
        (RequestError ''coordination request timestamps must be chronological UTC values''))
     (and_then (ensure (transfers_ok (rq_CreatedAt r) None (rq_RecipientTransfers r))
        (RequestError ''coordination request recipient transfer audit is invalid''))
     (and_then (Payload_validate (rq_Payload r) (rq_Kind r))
     (if rq_State r = StatePending then
        ensure (rq_ResolvedAt r = None \<and> rq_SupersededBy r = None \<and> rq_Decision r = None \<and> rq_Expiry r = None)
          (RequestError ''pending coordination request cannot be resolved'')
      else Validate_terminal r)))))"

definition checked :: "Request \<Rightarrow> request_error + Request" where
  "checked r = and_then (Validate r) (Inr r)"

section \<open>Transitions\<close>

definition New :: "string \<Rightarrow> string \<Rightarrow> string \<Rightarrow> string \<Rightarrow> string \<Rightarrow> string \<Rightarrow> Kind \<Rightarrow> Payload \<Rightarrow> gotime \<Rightarrow> request_error + Request" where
  "New commandID airport flightID recipient actor role kind payload tm =
     checked \<lparr> rq_ID = IDForCommand commandID, rq_CommandID = commandID, rq_Airport = airport,
       rq_Callsign = flightID, rq_RecipientController = recipient,
       rq_RecipientStatus = (if recipient = '''' then RecipientUnassigned else RecipientAssigned),
       rq_SubmittedBy = actor, rq_SubmittedRole = role, rq_Kind = kind, rq_State = StatePending,
       rq_Payload = payload, rq_CreatedAt = tm, rq_UpdatedAt = tm, rq_ResolvedAt = None,
       rq_Supersedes = None, rq_SupersededBy = None, rq_Decision = None, rq_RecipientTransfers = [],
       rq_Expiry = None, rq_Clearance = None \<rparr>"

definition effectiveRecipientStatus :: "Request \<Rightarrow> RecipientStatus" where
  "effectiveRecipientStatus r =
     (if rq_RecipientStatus r = RecipientOmitted then RecipientAssigned else rq_RecipientStatus r)"

definition Correlate :: "Request \<Rightarrow> ClearanceAudit \<Rightarrow> request_error + Request" where
  "Correlate r fct =
     (if Validate r \<noteq> Inr () \<or> rq_State r \<noteq> StateAccepted \<or> rq_Clearance r \<noteq> None
      then Inl (RequestError ''coordination request cannot be correlated'')
      else checked (r\<lparr> rq_Clearance := Some fct \<rparr>))"

definition Supersede :: "Request \<Rightarrow> string \<Rightarrow> gotime \<Rightarrow> request_error + Request" where
  "Supersede r nxt tm =
     (if \<not> present nxt \<or> nxt = rq_ID r
      then Inl (RequestError ''superseding coordination request identity is required'')
      else if Validate r \<noteq> Inr () \<or> rq_State r \<noteq> StatePending \<or> \<not> utc tm \<or> before tm (rq_UpdatedAt r)
      then Inl (RequestError ''coordination request supersede transition is invalid'')
      else checked (r\<lparr> rq_State := StateSuperseded, rq_UpdatedAt := tm, rq_ResolvedAt := Some tm,
                       rq_SupersededBy := Some nxt \<rparr>))"

definition Expire :: "Request \<Rightarrow> Expiry \<Rightarrow> request_error + Request" where
  "Expire r fct =
     and_then (Validate r)
     (if rq_State r \<noteq> StatePending \<or> \<not> present (ex_FactID fct) \<or> ex_FactRevision fct = 0 \<or>
         \<not> ExpiryReason_valid (ex_Reason fct) \<or> \<not> utc (ex_ExpiredAt fct) \<or>
         before (ex_ExpiredAt fct) (rq_UpdatedAt r)
      then Inl (RequestError ''coordination request transition is invalid'')
      else checked (r\<lparr> rq_State := StateExpired, rq_UpdatedAt := ex_ExpiredAt fct,
                       rq_ResolvedAt := Some (ex_ExpiredAt fct), rq_Expiry := Some fct \<rparr>))"

definition Decide :: "Request \<Rightarrow> string \<Rightarrow> string \<Rightarrow> string \<Rightarrow> string \<Rightarrow> State \<Rightarrow> string \<Rightarrow> gotime \<Rightarrow> request_error + Request" where
  "Decide r commandID actor role recipient nxt reason tm =
     (if nxt \<noteq> StateAccepted \<and> nxt \<noteq> StateRejected
      then Inl (RequestError ''coordination request decision must accept or reject'')
      else if \<not> present commandID \<or> \<not> present actor \<or> \<not> present role \<or> recipient = '''' \<or>
        nxt = StateRejected \<and> \<not> present reason \<or> nxt = StateAccepted \<and> reason \<noteq> ''''
      then Inl (RequestError ''coordination request decision identity and reason are invalid'')
      else if Validate r \<noteq> Inr () \<or> rq_State r \<noteq> StatePending \<or> \<not> utc tm \<or> before tm (rq_UpdatedAt r)
      then Inl (RequestError ''coordination request decision transition is invalid'')
      else checked (r\<lparr> rq_State := nxt, rq_UpdatedAt := tm, rq_ResolvedAt := Some tm,
        rq_Decision := Some \<lparr> dc_CommandID = commandID, dc_Airport = rq_Airport r, dc_Actor = actor,
          dc_Role = role, dc_AuthoritativeRecipient = recipient, dc_RequestID = rq_ID r,
          dc_RequestKind = rq_Kind r, dc_BeforeState = rq_State r, dc_AfterState = nxt,
          dc_Reason = reason, dc_ReceivedAt = tm \<rparr> \<rparr>))"

definition TransferRecipient :: "Request \<Rightarrow> string \<Rightarrow> nat \<Rightarrow> string \<Rightarrow> gotime \<Rightarrow> request_error + Request" where
  "TransferRecipient r fct revision recipient tm =
     (if Validate r \<noteq> Inr () \<or> rq_State r \<noteq> StatePending \<or> \<not> present fct \<or> revision = 0 \<or> \<not> utc tm \<or>
         before tm (rq_UpdatedAt r) \<or> rq_RecipientController r = recipient
      then Inl (RequestError ''coordination request recipient transfer is invalid'')
      else checked (r\<lparr> rq_RecipientController := recipient, rq_UpdatedAt := tm,
        rq_RecipientStatus := (if recipient = '''' then RecipientUnassigned else RecipientAssigned),
        rq_RecipientTransfers := rq_RecipientTransfers r @
          [\<lparr> xf_OwnershipFact = fct, xf_OwnershipRevision = revision,
             xf_PreviousRecipient = rq_RecipientController r, xf_NewRecipient = recipient,
             xf_TransferredAt = tm \<rparr>] \<rparr>))"

section \<open>Commands and runs\<close>

datatype command = CmdCorrelate ClearanceAudit | CmdSupersede string gotime | CmdExpire Expiry
  | CmdDecide string string string string State string gotime | CmdTransfer string nat string gotime

fun execute :: "Request \<Rightarrow> command \<Rightarrow> request_error + Request" where
  "execute r (CmdCorrelate fct) = Correlate r fct"
| "execute r (CmdSupersede nxt tm) = Supersede r nxt tm"
| "execute r (CmdExpire fct) = Expire r fct"
| "execute r (CmdDecide cid actor role recipient nxt reason tm) = Decide r cid actor role recipient nxt reason tm"
| "execute r (CmdTransfer fct revision recipient tm) = TransferRecipient r fct revision recipient tm"

section \<open>Shared lemmas\<close>

lemma checked_Inr [simp]: "checked r = Inr r' \<longleftrightarrow> Validate r = Inr () \<and> r' = r"
  by (auto simp: checked_def)

lemma transfers_ok_snoc:
  "transfers_ok c p (xs @ [x]) \<longleftrightarrow> transfers_ok c p xs \<and> transfers_ok c
     (if xs = [] then p else Some (xf_OwnershipRevision (last xs))) [x]"
  by (induction xs arbitrary: p) auto

lemma transfers_ok_sorted:
  "transfers_ok c p xs \<Longrightarrow> sorted_wrt (<) (map xf_OwnershipRevision xs) \<and>
     (\<forall>x \<in> set xs. 0 < xf_OwnershipRevision x \<and> (\<forall>q. p = Some q \<longrightarrow> q < xf_OwnershipRevision x))"
proof (induction xs arbitrary: p)
  case (Cons x xs)
  then show ?case by (fastforce split: option.splits)
qed simp

text \<open>
  \<^verbatim>\<open>Validate\<close> stops early on a pending request, so it does not look at the clearance and at the
  superseded link of one; the transitions from a request of \<^verbatim>\<open>New\<close> never set them on a pending
  request. \<open>well_formed\<close> adds this to validity.
\<close>

definition well_formed :: "Request \<Rightarrow> bool" where
  "well_formed r \<longleftrightarrow> Validate r = Inr () \<and> rq_Supersedes r \<noteq> Some (rq_ID r) \<and>
     (rq_State r = StatePending \<longrightarrow> rq_Clearance r = None)"

lemma New_well_formed: "New cid ap cs rc ac ro k pl tm = Inr r \<Longrightarrow> well_formed r"
  by (auto simp: New_def well_formed_def)

text \<open>The identity of a request, which no transition changes.\<close>

definition identity :: "Request \<Rightarrow> string \<times> string \<times> string \<times> string \<times> string \<times> string \<times> Kind \<times> Payload \<times> gotime \<times> string option" where
  "identity r = (rq_ID r, rq_CommandID r, rq_Airport r, rq_Callsign r, rq_SubmittedBy r, rq_SubmittedRole r,
     rq_Kind r, rq_Payload r, rq_CreatedAt r, rq_Supersedes r)"

lemmas transition_defs = Correlate_def Supersede_def Expire_def Decide_def TransferRecipient_def

lemma execute_valid:
  assumes "execute r c = Inr r'"
  shows "Validate r = Inr ()" "Validate r' = Inr ()" "identity r' = identity r"
  using assms by (cases c; auto simp: transition_defs identity_def split: if_splits)+

text \<open>A command that succeeds on a request that is not pending attaches the one clearance audit.\<close>

lemma execute_not_pending:
  assumes "execute r c = Inr r'" "rq_State r \<noteq> StatePending"
  obtains fct where "c = CmdCorrelate fct" "rq_State r = StateAccepted" "rq_Clearance r = None"
    "r' = r\<lparr> rq_Clearance := Some fct \<rparr>"
  using assms by (cases c) (auto simp: transition_defs split: if_splits)

text \<open>A command that succeeds on a pending request transfers it or resolves it once.\<close>

lemma execute_pending:
  assumes "execute r c = Inr r'" "rq_State r = StatePending"
  shows "rq_Clearance r' = rq_Clearance r \<and>
    (rq_State r' = StatePending \<and> (\<exists>x. rq_RecipientTransfers r' = rq_RecipientTransfers r @ [x] \<and>
        xf_PreviousRecipient x = rq_RecipientController r \<and> xf_NewRecipient x = rq_RecipientController r')
     \<or> terminal (rq_State r') \<and> rq_RecipientTransfers r' = rq_RecipientTransfers r \<and>
       rq_RecipientController r' = rq_RecipientController r)"
  using assms by (cases c) (auto simp: transition_defs terminal_def split: if_splits)

lemma execute_well_formed:
  assumes "well_formed r" "execute r c = Inr r'"
  shows "well_formed r'"
proof (cases "rq_State r = StatePending")
  case True
  from execute_pending [OF assms(2) True] execute_valid [OF assms(2)] assms(1) True show ?thesis
    by (auto simp: well_formed_def identity_def terminal_def)
next
  case False
  with assms(2) show ?thesis
    by (rule execute_not_pending) (use assms execute_valid [OF assms(2)] in \<open>auto simp: well_formed_def\<close>)
qed

section \<open>The request as a machine\<close>

inductive request_step :: "Request \<Rightarrow> command \<Rightarrow> Request \<Rightarrow> bool" where
  "execute r c = Inr r' \<Longrightarrow> request_step r c r'"

inductive_simps request_step_iff: "request_step r c r'"

definition perform :: "Request \<Rightarrow> command \<Rightarrow> Request" where
  "perform r c = (case execute r c of Inl _ \<Rightarrow> r | Inr r' \<Rightarrow> r')"

definition performs :: "Request \<Rightarrow> command \<Rightarrow> bool" where
  "performs r c \<longleftrightarrow> \<not> isl (execute r c)"

lemma perform_runs: "runs request_step r (steps_among performs perform r cs) (foldl perform r cs)"
  by (rule deliver_runs) (auto simp: performs_def perform_def request_step_iff split: sum.splits)

interpretation request_wf: invariant_machine request_step well_formed
  by unfold_locales (auto simp: request_step_iff intro: execute_well_formed)

interpretation request_identity: invariant_machine request_step "\<lambda>r. identity r = i" for i
  by unfold_locales (auto simp: request_step_iff dest: execute_valid)

text \<open>Once resolved, everything but a clearance that is still missing stays as it is.\<close>

definition settled :: "Request \<Rightarrow> Request \<Rightarrow> bool" where
  "settled r0 r \<longleftrightarrow> rq_State r0 \<noteq> StatePending \<and> (r = r0 \<or> rq_Clearance r0 = None \<and>
     rq_State r0 = StateAccepted \<and> (\<exists>fct. r = r0\<lparr> rq_Clearance := Some fct \<rparr>))"

interpretation request_settled: terminal_machine request_step "settled r0" for r0
proof
  fix r c r'
  assume "settled r0 r" "request_step r c r'"
  then have p: "rq_State r \<noteq> StatePending" and e: "execute r c = Inr r'"
    by (auto simp: settled_def request_step_iff)
  from e p obtain fct where "rq_State r = StateAccepted" "rq_Clearance r = None" "r' = r\<lparr> rq_Clearance := Some fct \<rparr>"
    by (rule execute_not_pending)
  moreover from this(2) \<open>settled r0 r\<close> have "r = r0" "rq_State r0 \<noteq> StatePending"
    unfolding settled_def by (metis Request.select_convs(20) Request.surjective Request.update_convs(20) option.distinct(1), blast)
  ultimately show "settled r0 r'" unfolding settled_def by blast
qed

text \<open>The transfer audit leads from the recipient at submission to the present one.\<close>

fun transfer_chain :: "string \<Rightarrow> RecipientTransfer list \<Rightarrow> string \<Rightarrow> bool" where
  "transfer_chain a [] b \<longleftrightarrow> a = b"
| "transfer_chain a (x # xs) b \<longleftrightarrow> xf_PreviousRecipient x = a \<and> transfer_chain (xf_NewRecipient x) xs b"

lemma transfer_chain_snoc:
  "transfer_chain a (xs @ [x]) b \<longleftrightarrow> transfer_chain a xs (xf_PreviousRecipient x) \<and> xf_NewRecipient x = b"
  by (induction xs arbitrary: a) auto

interpretation request_chain: invariant_machine request_step
  "\<lambda>r. transfer_chain a (rq_RecipientTransfers r) (rq_RecipientController r)" for a
proof
  fix r c r'
  assume chain: "transfer_chain a (rq_RecipientTransfers r) (rq_RecipientController r)" and "request_step r c r'"
  then have e: "execute r c = Inr r'" by (simp add: request_step_iff)
  show "transfer_chain a (rq_RecipientTransfers r') (rq_RecipientController r')"
  proof (cases "rq_State r = StatePending")
    case True
    from execute_pending [OF e True] chain show ?thesis by (auto simp: transfer_chain_snoc)
  next
    case False
    with e show ?thesis by (rule execute_not_pending) (simp add: chain)
  qed
qed

section \<open>Properties\<close>

definition sample_payload :: Payload where
  "sample_payload = \<lparr> pl_RouteDirect = None, pl_Speed = Some \<lparr> sp_Requested = ''220'' \<rparr> \<rparr>"

definition sample_request :: "request_error + Request" where
  "sample_request = New ''cmd1'' ''EKCH'' ''SAS123'' ''EKDK_CTR'' ''fmp1'' ''EKCH_FMP'' KindSpeed sample_payload (Time hour UTC)"

definition sample_resolved :: Request where
  "sample_resolved = foldl perform (projr sample_request)
     [CmdTransfer ''own1'' 3 ''EKDK_B_CTR'' (Time (hour + minute) UTC),
      CmdDecide ''cmd2'' ''ctr'' ''CTR'' ''EKDK_B_CTR'' StateAccepted '''' (Time (hour + 2 * minute) UTC)]"

lemma sample_request_ok: "sample_request = Inr (projr sample_request)"
  by code_simp

text \<open>
  C8. A pending request can be decided exactly by its authoritative recipient: the decision succeeds
  if and only if it accepts without a reason or rejects with one, carries complete identities, names
  the request's recipient and is not older than the last update. The final validation never fails
  where these checks pass.
\<close>

theorem decide_iff:
  assumes "well_formed r" "rq_State r = StatePending"
  shows "\<not> isl (Decide r cid actor role recipient nxt reason tm) \<longleftrightarrow>
    (nxt = StateAccepted \<and> reason = '''' \<or> nxt = StateRejected \<and> present reason) \<and>
    present cid \<and> present actor \<and> present role \<and> recipient \<noteq> '''' \<and>
    recipient = rq_RecipientController r \<and> utc tm \<and> \<not> before tm (rq_UpdatedAt r)"
proof -
  have v: "Validate r = Inr ()" using assms by (simp add: well_formed_def)
  have *: "\<not> isl (checked x) \<longleftrightarrow> Validate x = Inr ()" for x by (simp add: checked_def and_then_def split: sum.split)
  have "nxt \<noteq> StatePending \<and> nxt \<noteq> StateSuperseded \<and> nxt \<noteq> StateExpired"
    if "nxt = StateAccepted \<or> nxt = StateRejected" using that by auto
  then show ?thesis using assms v
    unfolding well_formed_def Decide_def
    by (auto simp: * Validate_def Validate_terminal_def decision_ok_def clearance_ok_def terminal_def go_time utc_def)
qed

theorem decide_iff_witness:
  "\<not> isl (Decide (projr sample_request) ''cmd2'' ''ctr'' ''CTR'' ''EKDK_CTR'' StateRejected ''unable'' (Time (2 * hour) UTC))"
proof -
  have "well_formed (projr sample_request)"
    using sample_request_ok by (metis New_well_formed sample_request_def)
  moreover have "rq_State (projr sample_request) = StatePending" by code_simp
  ultimately show ?thesis by (subst decide_iff) (assumption | code_simp)+
qed

text \<open>
  A resolution is final: whatever commands are tried on a request that is not pending, it keeps
  its state and all its audits; only an accepted request can gain the one clearance it lacks.
\<close>

theorem resolution_is_final:
  assumes "rq_State r \<noteq> StatePending"
  shows "settled r (foldl perform r cs)"
  using request_settled.runs_terminal [OF perform_runs] assms by (simp add: settled_def)

theorem resolution_is_final_witness:
  "settled sample_resolved (foldl perform sample_resolved
     [CmdExpire \<lparr> ex_FactID = ''f'', ex_FactRevision = 1, ex_Reason = ExpiryDesequenced, ex_ExpiredAt = Time (3 * hour) UTC \<rparr>])"
proof -
  have "rq_State sample_resolved \<noteq> StatePending" by code_simp
  then show ?thesis by (rule resolution_is_final)
qed

text \<open>
  The audit of a submitted request stays complete: after any commands the request is valid, keeps
  its identity, its ownership revisions are strictly increasing and its transfers lead step by step
  from the recipient at submission to the present recipient.
\<close>

theorem request_audit_complete:
  assumes "New cid ap cs rc ac ro k pl tm = Inr r" and "r' = foldl perform r cmds"
  shows "Validate r' = Inr () \<and> identity r' = identity r \<and>
    sorted_wrt (<) (map xf_OwnershipRevision (rq_RecipientTransfers r')) \<and>
    transfer_chain rc (rq_RecipientTransfers r') (rq_RecipientController r')"
proof -
  have run: "runs request_step r (steps_among performs perform r cmds) r'"
    unfolding assms(2) by (rule perform_runs)
  from request_wf.runs_inv [OF run New_well_formed [OF assms(1)]] have v: "Validate r' = Inr ()"
    by (simp add: well_formed_def)
  then have "transfers_ok (rq_CreatedAt r') None (rq_RecipientTransfers r')" by (simp add: Validate_def)
  moreover from assms(1) have "transfer_chain rc (rq_RecipientTransfers r) (rq_RecipientController r)"
    by (auto simp: New_def)
  ultimately show ?thesis
    using v request_identity.runs_inv [OF run refl] request_chain.runs_inv [OF run] transfers_ok_sorted by blast
qed

theorem request_audit_complete_witness:
  "Validate sample_resolved = Inr () \<and>
   transfer_chain ''EKDK_CTR'' (rq_RecipientTransfers sample_resolved) (rq_RecipientController sample_resolved)"
  using request_audit_complete [OF sample_request_ok [unfolded sample_request_def],
      folded sample_request_def, OF sample_resolved_def]
  by blast

end
