(* ===== verification/Coordination_Repository.thy ===== *)
theory Coordination_Repository
  imports Coordination_Request "HOL-Library.Product_Lexorder"
begin

text \<open>
  The repository and the service of \<^verbatim>\<open>internal/coordinationrequest\<close> (\<^verbatim>\<open>repository.go\<close>, \<^verbatim>\<open>projection.go\<close>,
  \<^verbatim>\<open>service.go\<close>). The table \<^verbatim>\<open>aman_coordination_requests\<close> of one session is a list of rows with the
  columns the statements use; a statement becomes a function on it. Each operation runs in one
  transaction under the airport's advisory lock, so an operation is one function from a table to a
  result and a table, and an error leaves the table as it was. The payload column holds the JSON of a
  request; encoding and decoding it is the identity here. \<^verbatim>\<open>ORDER BY created_at, request_id\<close> compares
  identifiers bytewise.
\<close>

section \<open>The table\<close>

record row =
  row_ID :: string
  row_Airport :: string
  row_CommandID :: string
  row_CreatedAt :: gotime
  row_Payload :: Request

type_synonym requests_table = "row list"

datatype repo_error = ErrRevisionConflict nat nat | ErrCommandConflict | ErrRequestNotFound
  | ErrInvalidState State | ErrWrongRecipient | ErrUnauthorized | ErrRequest request_error | ErrFact string

definition row_key :: "row \<Rightarrow> int \<times> string" where
  "row_key w = (ns (row_CreatedAt w), row_ID w)"

definition select_requests :: "requests_table \<Rightarrow> string \<Rightarrow> Request list" where
  "select_requests t airport = map row_Payload (sort_key row_key (filter (\<lambda>w. row_Airport w = airport) t))"

definition lift_request :: "request_error + 'a \<Rightarrow> repo_error + 'a" where
  "lift_request x = (case x of Inl e \<Rightarrow> Inl (ErrRequest e) | Inr v \<Rightarrow> Inr v)"

definition lockedRequests :: "requests_table \<Rightarrow> string \<Rightarrow> repo_error + Request list" where
  "lockedRequests t airport =
     (let rs = select_requests t airport in
      case ensure_all Validate rs of Inl e \<Rightarrow> Inl (ErrRequest e) | Inr _ \<Rightarrow> Inr rs)"

text \<open>
  \<^verbatim>\<open>INSERT ... ON CONFLICT (session, request_id) DO UPDATE SET payload\<close>: an existing row keeps its other
  columns, whatever its airport is.
\<close>

definition row_of :: "Request \<Rightarrow> row" where
  "row_of r = \<lparr> row_ID = rq_ID r, row_Airport = rq_Airport r, row_CommandID = rq_CommandID r,
     row_CreatedAt = rq_CreatedAt r, row_Payload = r \<rparr>"

definition save :: "requests_table \<Rightarrow> Request \<Rightarrow> requests_table" where
  "save t r =
     (if \<exists>w \<in> set t. row_ID w = rq_ID r
      then map (\<lambda>w. if row_ID w = rq_ID r then w\<lparr> row_Payload := r \<rparr> else w) t
      else t @ [row_of r])"

text \<open>The exported \<^verbatim>\<open>Save\<close> has the guard on airport and command that \<open>save\<close> lacks.\<close>

definition Save :: "requests_table \<Rightarrow> Request \<Rightarrow> repo_error + requests_table" where
  "Save t r =
     (case Validate r of Inl e \<Rightarrow> Inl (ErrRequest e)
      | Inr _ \<Rightarrow>
         (if \<exists>w \<in> set t. row_ID w = rq_ID r \<and> \<not> (row_Airport w = rq_Airport r \<and> row_CommandID w = rq_CommandID r)
          then Inl (ErrFact ''coordination request identity conflicts with persisted owner'')
          else Inr (save t r)))"

definition Get :: "requests_table \<Rightarrow> string \<Rightarrow> string \<Rightarrow> repo_error + Request" where
  "Get t airport i =
     (case find (\<lambda>w. row_Airport w = airport \<and> row_ID w = i) t of
        None \<Rightarrow> Inl ErrRequestNotFound
      | Some w \<Rightarrow> lift_request (checked (row_Payload w)))"

section \<open>The airport revision\<close>

definition nul :: char where "nul = CHR 0x00"

definition transfer_key :: "Request \<Rightarrow> RecipientTransfer \<Rightarrow> string" where
  "transfer_key r x = rq_Callsign r @ nul # xf_OwnershipFact x @ nul # decimal (int (xf_OwnershipRevision x))"

definition transfer_keys :: "Request \<Rightarrow> string list" where
  "transfer_keys r = map (transfer_key r) (rq_RecipientTransfers r)"

definition expiry_keys :: "Request \<Rightarrow> string list" where
  "expiry_keys r = (case rq_Expiry r of None \<Rightarrow> [] | Some x \<Rightarrow> [ex_FactID x @ nul # decimal (int (ex_FactRevision x))])"

definition clearance_keys :: "Request \<Rightarrow> string list" where
  "clearance_keys r = (case rq_Clearance r of None \<Rightarrow> [] | Some c \<Rightarrow> [cl_FactID c])"

definition decided :: "Request \<Rightarrow> bool" where "decided r \<longleftrightarrow> rq_Decision r \<noteq> None"

definition coordinationRevision :: "Request list \<Rightarrow> nat" where
  "coordinationRevision rs =
     length rs + length (filter decided rs) +
     card (set (concat (map transfer_keys rs))) +
     card (set (concat (map expiry_keys rs))) +
     card (set (concat (map clearance_keys rs)))"

section \<open>Operations\<close>

record CommitResult =
  cr_Request :: "Request option"
  cr_SupersededRequest :: "Request option"
  cr_Revision :: nat
  cr_Duplicate :: bool

record TransferResult =
  tr_Requests :: "Request list"
  tr_Revision :: nat
  tr_Duplicate :: bool

record ExpiryFact =
  ef_Airport :: string
  ef_FactID :: string
  ef_Callsign :: string
  ef_Revision :: nat
  ef_Reason :: ExpiryReason
  ef_OccurredAt :: gotime

record OwnershipFact =
  of_Airport :: string
  of_Callsign :: string
  of_FactID :: string
  of_Revision :: nat
  of_Owner :: string
  of_ObservedAt :: gotime

record ClearanceFact =
  cf_Airport :: string
  cf_FactID :: string
  cf_Issuer :: string
  cf_Value :: string
  cf_Callsign :: string
  cf_Kind :: Kind
  cf_ObservedAt :: gotime

definition duplicate_commit :: "Request \<Rightarrow> Request list \<Rightarrow> CommitResult" where
  "duplicate_commit r current = \<lparr> cr_Request = Some r, cr_SupersededRequest = None,
     cr_Revision = coordinationRevision current, cr_Duplicate = True \<rparr>"

text \<open>The scan of \<^verbatim>\<open>Repository.Decide\<close> for an earlier use of the command: \<open>None\<close> when there is none.\<close>

fun decide_retry :: "string \<Rightarrow> Decision \<Rightarrow> Request list \<Rightarrow> Request list \<Rightarrow> (repo_error + CommitResult) option" where
  "decide_retry i d current [] = None"
| "decide_retry i d current (r # rs) =
     (if rq_CommandID r = dc_CommandID d then Some (Inl ErrCommandConflict)
      else (case rq_Decision r of
          Some p \<Rightarrow>
            (if dc_CommandID p = dc_CommandID d then
               (if rq_ID r \<noteq> i \<or> dc_AfterState p \<noteq> dc_AfterState d \<or> dc_Reason p \<noteq> dc_Reason d \<or>
                   dc_Actor p \<noteq> dc_Actor d \<or> dc_Role p \<noteq> dc_Role d \<or>
                   dc_AuthoritativeRecipient p \<noteq> dc_AuthoritativeRecipient d
                then Some (Inl ErrCommandConflict)
                else Some (Inr (duplicate_commit r current)))
             else decide_retry i d current rs)
        | None \<Rightarrow> decide_retry i d current rs))"

definition Repository_Decide :: "requests_table \<Rightarrow> string \<Rightarrow> Decision \<Rightarrow> nat \<Rightarrow> repo_error + CommitResult \<times> requests_table" where
  "Repository_Decide t i d expectedRevision =
     (case lockedRequests t (dc_Airport d) of
        Inl e \<Rightarrow> Inl e
      | Inr current \<Rightarrow>
         (case decide_retry i d current current of
            Some (Inl e) \<Rightarrow> Inl e
          | Some (Inr res) \<Rightarrow> Inr (res, t)
          | None \<Rightarrow>
             (if coordinationRevision current \<noteq> expectedRevision
              then Inl (ErrRevisionConflict expectedRevision (coordinationRevision current))
              else (case find (\<lambda>r. rq_ID r = i) current of
                  None \<Rightarrow> Inl ErrRequestNotFound
                | Some r \<Rightarrow>
                    (if rq_State r \<noteq> StatePending then Inl (ErrInvalidState (rq_State r))
                     else if rq_RecipientController r \<noteq> dc_AuthoritativeRecipient d \<or> rq_Airport r = ''''
                     then Inl ErrWrongRecipient
                     else (case Decide r (dc_CommandID d) (dc_Actor d) (dc_Role d) (dc_AuthoritativeRecipient d)
                             (dc_AfterState d) (dc_Reason d) (dc_ReceivedAt d) of
                         Inl e \<Rightarrow> Inl (ErrRequest e)
                       | Inr resolved \<Rightarrow>
                           Inr (\<lparr> cr_Request = Some resolved, cr_SupersededRequest = None,
                                  cr_Revision = expectedRevision + 1, cr_Duplicate = False \<rparr>, save t resolved)))))))"

definition matchesClearance :: "Request \<Rightarrow> string \<Rightarrow> bool" where
  "matchesClearance r v =
     (if rq_Kind r = KindSpeed
      then (case pl_Speed (rq_Payload r) of None \<Rightarrow> False | Some s \<Rightarrow> equal_fold (sp_Requested s) v)
      else (case pl_RouteDirect (rq_Payload r) of None \<Rightarrow> False
            | Some d \<Rightarrow> rd_DirectTo d \<noteq> '''' \<and> equal_fold (rd_DirectTo d) v))"

definition clearance_candidate :: "ClearanceFact \<Rightarrow> Request \<Rightarrow> bool" where
  "clearance_candidate fct r \<longleftrightarrow>
     rq_Callsign r = cf_Callsign fct \<and> rq_Kind r = cf_Kind fct \<and> rq_State r = StateAccepted \<and>
     rq_Clearance r = None \<and>
     (case rq_ResolvedAt r of None \<Rightarrow> False | Some resolved \<Rightarrow> \<not> after resolved (cf_ObservedAt fct)) \<and>
     matchesClearance r (cf_Value fct)"

definition CorrelateAccepted :: "requests_table \<Rightarrow> ClearanceFact \<Rightarrow> repo_error + CommitResult \<times> requests_table" where
  "CorrelateAccepted t fct =
     (if cf_Airport fct = '''' \<or> cf_Callsign fct = '''' \<or> \<not> present (cf_FactID fct) \<or> \<not> present (cf_Issuer fct) \<or>
         \<not> present (cf_Value fct) \<or> cf_Kind fct \<noteq> KindRouteDirect \<and> cf_Kind fct \<noteq> KindSpeed \<or>
         \<not> utc (cf_ObservedAt fct)
      then Inl (ErrFact ''authoritative clearance fact is invalid'')
      else (case lockedRequests t (cf_Airport fct) of
          Inl e \<Rightarrow> Inl e
        | Inr current \<Rightarrow>
            (case find (\<lambda>r. case rq_Clearance r of None \<Rightarrow> False | Some c \<Rightarrow> cl_FactID c = cf_FactID fct) (rev current) of
               Some r \<Rightarrow> Inr (duplicate_commit r current, t)
             | None \<Rightarrow>
                (case find (clearance_candidate fct) (rev current) of
                   None \<Rightarrow> Inr (\<lparr> cr_Request = None, cr_SupersededRequest = None,
                                cr_Revision = coordinationRevision current, cr_Duplicate = False \<rparr>, t)
                 | Some r \<Rightarrow>
                    (case Correlate r \<lparr> cl_FactID = cf_FactID fct, cl_Kind = cf_Kind fct, cl_Value = cf_Value fct,
                             cl_Issuer = cf_Issuer fct, cl_ObservedAt = cf_ObservedAt fct \<rparr> of
                       Inl e \<Rightarrow> Inl (ErrRequest e)
                     | Inr updated \<Rightarrow>
                         Inr (\<lparr> cr_Request = Some updated, cr_SupersededRequest = None,
                                cr_Revision = coordinationRevision current + 1, cr_Duplicate = False \<rparr>,
                              save t updated))))))"

text \<open>The loop that changes and saves every matching request; an error aborts the transaction.\<close>

fun update_matching :: "(Request \<Rightarrow> bool) \<Rightarrow> (Request \<Rightarrow> request_error + Request) \<Rightarrow> requests_table \<Rightarrow> Request list
    \<Rightarrow> repo_error + Request list \<times> requests_table" where
  "update_matching matching change t [] = Inr ([], t)"
| "update_matching matching change t (r # rs) =
     (if \<not> matching r then update_matching matching change t rs
      else (case change r of
          Inl e \<Rightarrow> Inl (ErrRequest e)
        | Inr r' \<Rightarrow>
            (case update_matching matching change (save t r') rs of
               Inl e \<Rightarrow> Inl e
             | Inr (us, t') \<Rightarrow> Inr (r' # us, t'))))"

definition finish_update :: "Request list \<Rightarrow> repo_error + Request list \<times> requests_table \<Rightarrow> repo_error + TransferResult \<times> requests_table" where
  "finish_update current x =
     (case x of Inl e \<Rightarrow> Inl e
      | Inr (us, t') \<Rightarrow>
          Inr (\<lparr> tr_Requests = us,
                 tr_Revision = coordinationRevision current + (if us = [] then 0 else 1), tr_Duplicate = False \<rparr>, t'))"

definition expiry_matches :: "ExpiryFact \<Rightarrow> Request \<Rightarrow> bool" where
  "expiry_matches fct r = (case rq_Expiry r of None \<Rightarrow> False
     | Some x \<Rightarrow> ex_FactID x = ef_FactID fct \<and> ex_FactRevision x = ef_Revision fct)"

definition expiry_conflicts :: "ExpiryFact \<Rightarrow> Request \<Rightarrow> bool" where
  "expiry_conflicts fct r = (case rq_Expiry r of None \<Rightarrow> False
     | Some x \<Rightarrow> ex_FactID x = ef_FactID fct \<and> ex_FactRevision x = ef_Revision fct \<and>
         (ex_Reason x \<noteq> ef_Reason fct \<or> \<not> t_equal (ex_ExpiredAt x) (ef_OccurredAt fct)))"

definition ExpirePendingTx :: "requests_table \<Rightarrow> ExpiryFact \<Rightarrow> repo_error + TransferResult \<times> requests_table" where
  "ExpirePendingTx t fct =
     (if ef_Airport fct = '''' \<or> ef_Airport fct \<noteq> trim_space (ef_Airport fct) \<or> ef_Callsign fct = '''' \<or>
         ef_FactID fct = '''' \<or> ef_FactID fct \<noteq> trim_space (ef_FactID fct) \<or> ef_Revision fct = 0 \<or>
         \<not> ExpiryReason_valid (ef_Reason fct) \<or> \<not> utc (ef_OccurredAt fct)
      then Inl (ErrFact ''authoritative coordination expiry fact is invalid'')
      else (case lockedRequests t (ef_Airport fct) of
          Inl e \<Rightarrow> Inl e
        | Inr current \<Rightarrow>
            (if list_ex (expiry_conflicts fct) current then Inl ErrCommandConflict
             else if filter (expiry_matches fct) current \<noteq> [] then
               Inr (\<lparr> tr_Requests = filter (expiry_matches fct) current,
                      tr_Revision = coordinationRevision current, tr_Duplicate = True \<rparr>, t)
             else finish_update current
               (update_matching (\<lambda>r. rq_Callsign r = ef_Callsign fct \<and> rq_State r = StatePending)
                  (\<lambda>r. Expire r \<lparr> ex_FactID = ef_FactID fct, ex_FactRevision = ef_Revision fct,
                                  ex_Reason = ef_Reason fct, ex_ExpiredAt = ef_OccurredAt fct \<rparr>)
                  t current))))"

definition transfer_same :: "OwnershipFact \<Rightarrow> RecipientTransfer \<Rightarrow> bool" where
  "transfer_same fct x \<longleftrightarrow> xf_OwnershipFact x = of_FactID fct \<and> xf_OwnershipRevision x = of_Revision fct"

text \<open>
  The first transfer of the request that records the fact: the source stops at it and reports a
  conflict when owner or time differ.
\<close>

definition transfer_record :: "OwnershipFact \<Rightarrow> Request \<Rightarrow> RecipientTransfer option" where
  "transfer_record fct r =
     (if rq_Callsign r = of_Callsign fct then find (transfer_same fct) (rq_RecipientTransfers r) else None)"

definition transfer_conflicts :: "OwnershipFact \<Rightarrow> Request \<Rightarrow> bool" where
  "transfer_conflicts fct r = (case transfer_record fct r of None \<Rightarrow> False
     | Some x \<Rightarrow> xf_NewRecipient x \<noteq> of_Owner fct \<or> \<not> t_equal (xf_TransferredAt x) (of_ObservedAt fct))"

definition transfer_needed :: "OwnershipFact \<Rightarrow> Request \<Rightarrow> bool" where
  "transfer_needed fct r \<longleftrightarrow> \<not> (rq_Callsign r \<noteq> of_Callsign fct \<or> rq_State r \<noteq> StatePending \<or>
     rq_RecipientController r = of_Owner fct \<and> effectiveRecipientStatus r = RecipientAssigned \<or>
     of_Owner fct = '''' \<and> effectiveRecipientStatus r = RecipientUnassigned)"

definition TransferPending :: "requests_table \<Rightarrow> OwnershipFact \<Rightarrow> repo_error + TransferResult \<times> requests_table" where
  "TransferPending t fct =
     (if of_Airport fct = '''' \<or> of_Airport fct \<noteq> trim_space (of_Airport fct) \<or> of_Callsign fct = '''' \<or>
         of_FactID fct = '''' \<or> of_FactID fct \<noteq> trim_space (of_FactID fct) \<or> of_Revision fct = 0 \<or>
         of_Owner fct \<noteq> trim_space (of_Owner fct) \<or> \<not> utc (of_ObservedAt fct)
      then Inl (ErrFact ''authoritative ownership fact is invalid'')
      else (case lockedRequests t (of_Airport fct) of
          Inl e \<Rightarrow> Inl e
        | Inr current \<Rightarrow>
            (if list_ex (transfer_conflicts fct) current then Inl ErrCommandConflict
             else if filter (\<lambda>r. transfer_record fct r \<noteq> None) current \<noteq> [] then
               Inr (\<lparr> tr_Requests = filter (\<lambda>r. transfer_record fct r \<noteq> None) current,
                      tr_Revision = coordinationRevision current, tr_Duplicate = True \<rparr>, t)
             else finish_update current
               (update_matching (transfer_needed fct)
                  (\<lambda>r. TransferRecipient r (of_FactID fct) (of_Revision fct) (of_Owner fct) (of_ObservedAt fct))
                  t current))))"

definition ReplayAirport :: "requests_table \<Rightarrow> string \<Rightarrow> repo_error + Request list" where
  "ReplayAirport t airport =
     (if airport = '''' \<or> airport \<noteq> trim_space airport then Inl (ErrFact ''airport is required'')
      else lockedRequests t airport)"

text \<open>The scan of \<^verbatim>\<open>Submit\<close> over the persisted requests: \<open>None\<close> when the command is new.\<close>

fun submit_retry :: "Request \<Rightarrow> Request list \<Rightarrow> Request list \<Rightarrow> (repo_error + CommitResult) option" where
  "submit_retry q current [] = None"
| "submit_retry q current (p # ps) =
     (case Validate p of
        Inl e \<Rightarrow> Some (Inl (ErrRequest e))
      | Inr _ \<Rightarrow>
         (if (case rq_Decision p of None \<Rightarrow> False | Some d \<Rightarrow> dc_CommandID d = rq_CommandID q)
          then Some (Inl ErrCommandConflict)
          else if rq_ID p = rq_ID q then
            (if rq_Airport p \<noteq> rq_Airport q \<or> rq_Callsign p \<noteq> rq_Callsign q \<or> rq_Kind p \<noteq> rq_Kind q \<or>
                rq_SubmittedBy p \<noteq> rq_SubmittedBy q \<or> rq_SubmittedRole p \<noteq> rq_SubmittedRole q \<or>
                rq_Payload p \<noteq> rq_Payload q
             then Some (Inl ErrCommandConflict)
             else Some (Inr (duplicate_commit p current)))
          else submit_retry q current ps))"

definition supersede_candidate :: "Request \<Rightarrow> Request \<Rightarrow> bool" where
  "supersede_candidate q r \<longleftrightarrow> rq_Callsign r = rq_Callsign q \<and> rq_Kind r = rq_Kind q \<and> rq_State r = StatePending"

definition Repository_Submit :: "requests_table \<Rightarrow> Request \<Rightarrow> nat \<Rightarrow> repo_error + CommitResult \<times> requests_table" where
  "Repository_Submit t q expectedRevision =
     (case Validate q of
        Inl e \<Rightarrow> Inl (ErrRequest e)
      | Inr _ \<Rightarrow>
         (let current = select_requests t (rq_Airport q) in
          case submit_retry q current current of
            Some (Inl e) \<Rightarrow> Inl e
          | Some (Inr res) \<Rightarrow> Inr (res, t)
          | None \<Rightarrow>
             (if coordinationRevision current \<noteq> expectedRevision
              then Inl (ErrRevisionConflict expectedRevision (coordinationRevision current))
              else (case find (supersede_candidate q) (rev current) of
                  None \<Rightarrow>
                    Inr (\<lparr> cr_Request = Some q, cr_SupersededRequest = None,
                           cr_Revision = coordinationRevision current + 1, cr_Duplicate = False \<rparr>, save t q)
                | Some c \<Rightarrow>
                    (case Supersede c (rq_ID q) (rq_CreatedAt q) of
                       Inl e \<Rightarrow> Inl (ErrRequest e)
                     | Inr c' \<Rightarrow>
                         (let q' = q\<lparr> rq_Supersedes := Some (rq_ID c') \<rparr> in
                          Inr (\<lparr> cr_Request = Some q', cr_SupersededRequest = Some c',
                                 cr_Revision = coordinationRevision current + 1, cr_Duplicate = False \<rparr>,
                               save (save t q') c')))))))"

section \<open>Projection and service\<close>

record Audience =
  au_Controller :: string
  au_Role :: string

definition IsFMPRole :: "string \<Rightarrow> bool" where
  "IsFMPRole role = (let r = to_upper (trim_space role) in 4 \<le> length r \<and> drop (length r - 4) r = ''_FMP'')"

definition created_less :: "Request \<Rightarrow> Request \<Rightarrow> bool" where
  "created_less a b = (if t_equal (rq_CreatedAt a) (rq_CreatedAt b) then rq_ID a < rq_ID b
     else before (rq_CreatedAt a) (rq_CreatedAt b))"

definition visible_to :: "Audience \<Rightarrow> Request \<Rightarrow> bool" where
  "visible_to au r \<longleftrightarrow> IsFMPRole (au_Role au) \<and> rq_SubmittedRole r = au_Role au \<or>
     rq_State r = StatePending \<and> rq_RecipientStatus r \<noteq> RecipientUnassigned \<and>
     rq_RecipientController r = au_Controller au"

definition Project :: "Request list \<Rightarrow> Audience \<Rightarrow> request_error + Request list" where
  "Project rs au =
     and_then (ensure_all Validate rs)
     (Inr (go_sort created_less (filter (visible_to au)
        (map (\<lambda>r. r\<lparr> rq_RecipientStatus := effectiveRecipientStatus r \<rparr>) rs))))"

record CommandContext =
  cc_Airport :: string
  cc_Actor :: string
  cc_Role :: string
  cc_ReceivedAt :: gotime

definition validateContext :: "CommandContext \<Rightarrow> repo_error + unit" where
  "validateContext auth =
     ensure (\<not> (cc_Airport auth = '''' \<or> cc_Airport auth \<noteq> trim_space (cc_Airport auth) \<or>
         cc_Actor auth = '''' \<or> cc_Actor auth \<noteq> trim_space (cc_Actor auth) \<or>
         cc_Role auth = '''' \<or> cc_Role auth \<noteq> trim_space (cc_Role auth) \<or>
         is_zero (cc_ReceivedAt auth) \<or> loc (cc_ReceivedAt auth) \<noteq> UTC))
       (ErrFact ''server-derived airport, actor, role, and UTC receipt time are required'')"

text \<open>
  The resolver of the tracking controller is a database query; it is the argument \<open>owners\<close> of the
  service operations, from airport and callsign to the controller or an error.
\<close>

type_synonym resolver = "string \<Rightarrow> string \<Rightarrow> repo_error + string"

record SubmitCommand =
  sc_CommandID :: string
  sc_ExpectedRevision :: nat
  sc_Callsign :: string
  sc_Kind :: Kind
  sc_Payload :: Payload

record DecisionCommand =
  dcm_CommandID :: string
  dcm_ExpectedRevision :: nat
  dcm_RequestID :: string
  dcm_Reason :: string

definition Service_Submit :: "resolver \<Rightarrow> requests_table \<Rightarrow> CommandContext \<Rightarrow> SubmitCommand \<Rightarrow> repo_error + CommitResult \<times> requests_table" where
  "Service_Submit owners t auth cmd =
     and_then (validateContext auth)
     (and_then (ensure (IsFMPRole (cc_Role auth)) ErrUnauthorized)
     (case owners (cc_Airport auth) (sc_Callsign cmd) of
        Inl e \<Rightarrow> Inl e
      | Inr recipient \<Rightarrow>
          and_then (ensure (\<not> (recipient \<noteq> '''' \<and> recipient \<noteq> trim_space recipient))
             (ErrFact ''authoritative tracking controller is invalid''))
          (case New (sc_CommandID cmd) (cc_Airport auth) (sc_Callsign cmd) recipient (cc_Actor auth) (cc_Role auth)
                 (sc_Kind cmd) (sc_Payload cmd) (cc_ReceivedAt auth) of
             Inl e \<Rightarrow> Inl (ErrRequest e)
           | Inr q \<Rightarrow> Repository_Submit t q (sc_ExpectedRevision cmd))))"

definition Service_decide :: "resolver \<Rightarrow> requests_table \<Rightarrow> CommandContext \<Rightarrow> DecisionCommand \<Rightarrow> State \<Rightarrow> repo_error + CommitResult \<times> requests_table" where
  "Service_decide owners t auth cmd state =
     and_then (validateContext auth)
     (case Get t (cc_Airport auth) (dcm_RequestID cmd) of
        Inl e \<Rightarrow> Inl e
      | Inr r \<Rightarrow>
         (case owners (cc_Airport auth) (rq_Callsign r) of
            Inl e \<Rightarrow> Inl e
          | Inr recipient \<Rightarrow>
              (if recipient = '''' \<or> recipient \<noteq> rq_RecipientController r then Inl ErrWrongRecipient
               else if cc_Role auth \<noteq> recipient then Inl ErrUnauthorized
               else Repository_Decide t (rq_ID r)
                 \<lparr> dc_CommandID = dcm_CommandID cmd, dc_Airport = cc_Airport auth, dc_Actor = cc_Actor auth,
                   dc_Role = cc_Role auth, dc_AuthoritativeRecipient = recipient, dc_RequestID = rq_ID r,
                   dc_RequestKind = rq_Kind r, dc_BeforeState = StatePending, dc_AfterState = state,
                   dc_Reason = dcm_Reason cmd, dc_ReceivedAt = cc_ReceivedAt auth \<rparr>
                 (dcm_ExpectedRevision cmd))))"

definition Service_Snapshot :: "requests_table \<Rightarrow> CommandContext \<Rightarrow> repo_error + TransferResult" where
  "Service_Snapshot t auth =
     and_then (validateContext auth)
     (case ReplayAirport t (cc_Airport auth) of
        Inl e \<Rightarrow> Inl e
      | Inr rs \<Rightarrow>
         (case Project rs \<lparr> au_Controller = cc_Role auth, au_Role = cc_Role auth \<rparr> of
            Inl e \<Rightarrow> Inl (ErrRequest e)
          | Inr ps \<Rightarrow> Inr \<lparr> tr_Requests = ps, tr_Revision = coordinationRevision rs, tr_Duplicate = False \<rparr>))"

section \<open>Selecting from an updated table\<close>

lemma insort_key_map: "(\<And>x. k (g x) = k x) \<Longrightarrow> insort_key k (g x) (map g xs) = map g (insort_key k x xs)"
  by (induction xs) auto

lemma sort_key_map: "(\<And>x. k (g x) = k x) \<Longrightarrow> sort_key k (map g xs) = map g (sort_key k xs)"
  by (induction xs) (simp_all add: insort_key_map)

definition put :: "(Request \<Rightarrow> Request) \<Rightarrow> row \<Rightarrow> row" where
  "put u w = w\<lparr> row_Payload := u (row_Payload w) \<rparr>"

lemma put_simps [simp]:
  "row_ID (put u w) = row_ID w" "row_Airport (put u w) = row_Airport w" "row_CommandID (put u w) = row_CommandID w"
  "row_CreatedAt (put u w) = row_CreatedAt w" "row_Payload (put u w) = u (row_Payload w)" "row_key (put u w) = row_key w"
  by (simp_all add: put_def row_key_def)

lemma select_put: "select_requests (map (put u) t) a = map u (select_requests t a)"
proof -
  have "sort_key row_key (map (put u) ws) = map (put u) (sort_key row_key ws)" for ws
    by (rule sort_key_map) simp
  moreover have "filter (\<lambda>w. row_Airport w = a) (map (put u) t) = map (put u) (filter (\<lambda>w. row_Airport w = a) t)"
    by (simp add: filter_map comp_def)
  ultimately show ?thesis by (simp add: select_requests_def)
qed

lemma set_select: "set (select_requests t a) = row_Payload ` {w \<in> set t. row_Airport w = a}"
  by (simp add: select_requests_def)

lemma mset_select_snoc:
  "mset (select_requests (t @ [w]) a) = mset (select_requests t a) + (if row_Airport w = a then {# row_Payload w #} else {#})"
  by (simp add: select_requests_def)

lemma set_select_snoc:
  "set (select_requests (t @ [row_of p]) (rq_Airport p)) = insert p (set (select_requests t (rq_Airport p)))"
proof -
  have "set_mset (mset (select_requests (t @ [row_of p]) (rq_Airport p))) = insert p (set (select_requests t (rq_Airport p)))"
    by (subst mset_select_snoc) (simp add: row_of_def)
  then show ?thesis by simp
qed

text \<open>
  The table stays consistent: identifiers are distinct, the columns repeat the payload and every
  payload is well-formed.
\<close>

definition table_ok :: "requests_table \<Rightarrow> bool" where
  "table_ok t \<longleftrightarrow> distinct (map row_ID t) \<and> (\<forall>w \<in> set t. w = row_of (row_Payload w) \<and> well_formed (row_Payload w))"

lemma table_okD:
  assumes "table_ok t" "w \<in> set t"
  shows "row_ID w = rq_ID (row_Payload w)" "row_Airport w = rq_Airport (row_Payload w)"
    "row_CreatedAt w = rq_CreatedAt (row_Payload w)" "well_formed (row_Payload w)"
  using assms unfolding table_ok_def by (metis row_of_def row.select_convs)+

lemma payload_inj:
  assumes "table_ok t" "w \<in> set t" "w' \<in> set t" "rq_ID (row_Payload w) = rq_ID (row_Payload w')"
  shows "w = w'"
  using assms table_okD(1) [OF assms(1)] by (metis distinct_map inj_on_def table_ok_def)

lemma select_distinct: "table_ok t \<Longrightarrow> distinct (map rq_ID (select_requests t a))"
proof -
  assume ok: "table_ok t"
  then have "map rq_ID (select_requests t a) = map row_ID (sort_key row_key (filter (\<lambda>w. row_Airport w = a) t))"
    by (auto simp: select_requests_def table_okD(1))
  moreover have "distinct (map row_ID (filter (\<lambda>w. row_Airport w = a) t))"
    using ok by (auto simp: table_ok_def distinct_map intro: inj_on_subset)
  then have "distinct (map row_ID (sort_key row_key (filter (\<lambda>w. row_Airport w = a) t)))"
    by (metis (no_types, lifting) distinct_map distinct_sort set_sort)
  ultimately show ?thesis by simp
qed

lemma row_of_simps [simp]:
  "row_ID (row_of r) = rq_ID r" "row_Airport (row_of r) = rq_Airport r" "row_Payload (row_of r) = r"
  by (simp_all add: row_of_def)

lemma row_of_identity:
  assumes "identity r' = identity r"
  shows "(row_of r)\<lparr> row_Payload := r' \<rparr> = row_of r'"
  using assms by (simp add: row_of_def identity_def)

text \<open>An update of some payloads by functions that keep identity and well-formedness.\<close>

definition keeps :: "(Request \<Rightarrow> Request) \<Rightarrow> requests_table \<Rightarrow> bool" where
  "keeps u t \<longleftrightarrow> (\<forall>w \<in> set t. u (row_Payload w) = row_Payload w \<or>
     (\<exists>c. execute (row_Payload w) c = Inr (u (row_Payload w))))"

lemma keeps_identity: "keeps u t \<Longrightarrow> w \<in> set t \<Longrightarrow> identity (u (row_Payload w)) = identity (row_Payload w)"
  by (auto simp: keeps_def dest!: bspec dest: execute_valid(3))

lemma table_ok_put:
  assumes "table_ok t" "keeps u t"
  shows "table_ok (map (put u) t)"
proof -
  have "put u w = row_of (u (row_Payload w))" if "w \<in> set t" for w
    using row_of_identity [OF keeps_identity [OF assms(2) that]] assms(1) that
    by (simp add: put_def table_ok_def)
  moreover have "well_formed (u (row_Payload w))" if "w \<in> set t" for w
    using assms that by (auto simp: keeps_def table_ok_def dest!: bspec intro: execute_well_formed)
  ultimately show ?thesis
    using assms(1) by (auto simp: table_ok_def comp_def)
qed

lemma table_ok_snoc:
  assumes "table_ok t" "well_formed q" "rq_ID q \<notin> row_ID ` set t"
  shows "table_ok (t @ [row_of q])"
  using assms by (auto simp: table_ok_def row_of_def)

text \<open>Saving a changed request replaces it in place.\<close>

lemma save_existing:
  assumes "table_ok t" "w \<in> set t" "rq_ID r' = rq_ID (row_Payload w)"
  shows "save t r' = map (put (\<lambda>r. if r = row_Payload w then r' else r)) t"
proof -
  have "row_ID v = rq_ID r' \<longleftrightarrow> row_Payload v = row_Payload w" if "v \<in> set t" for v
    using that assms payload_inj [OF assms(1) that assms(2)] table_okD(1) [OF assms(1)] by metis
  moreover have "\<exists>v \<in> set t. row_ID v = rq_ID r'" using assms table_okD(1) by metis
  ultimately show ?thesis by (simp add: save_def put_def)
qed

lemma save_new: "rq_ID q \<notin> row_ID ` set t \<Longrightarrow> save t q = t @ [row_of q]"
  by (force simp: save_def)

text \<open>The saving loop updates exactly the matching requests of its list.\<close>

definition changed :: "(Request \<Rightarrow> bool) \<Rightarrow> (Request \<Rightarrow> request_error + Request) \<Rightarrow> Request list \<Rightarrow> Request \<Rightarrow> Request" where
  "changed m ch rs r = (if r \<in> set rs \<and> m r then projr (ch r) else r)"

lemma update_matching_put:
  assumes "update_matching m ch t rs = Inr (us, t')" "table_ok t" "set rs \<subseteq> row_Payload ` set t" "distinct (map rq_ID rs)"
    and ch: "\<forall>r r'. ch r = Inr r' \<longrightarrow> (\<exists>c. execute r c = Inr r')"
  shows "t' = map (put (changed m ch rs)) t \<and> us = map (projr \<circ> ch) (filter m rs) \<and>
    (\<forall>r \<in> set rs. m r \<longrightarrow> ch r = Inr (projr (ch r)))"
  using assms(1-4)
proof (induction rs arbitrary: t us)
  case Nil
  then show ?case by (simp add: changed_def put_def)
next
  case (Cons r rs)
  show ?case
  proof (cases "m r")
    case False
    with Cons.prems have "t' = map (put (changed m ch rs)) t \<and> us = map (projr \<circ> ch) (filter m rs) \<and>
      (\<forall>r \<in> set rs. m r \<longrightarrow> ch r = Inr (projr (ch r)))"
      by (intro Cons.IH) auto
    moreover from False have "changed m ch (r # rs) = changed m ch rs" by (auto simp: changed_def)
    ultimately show ?thesis using False by simp
  next
    case True
    with Cons.prems(1) obtain r' us' where u: "ch r = Inr r'" "update_matching m ch (save t r') rs = Inr (us', t')" "us = r' # us'"
      by (auto split: sum.splits)
    from ch u(1) obtain c where "execute r c = Inr r'" by blast
    then have i: "identity r' = identity r" by (rule execute_valid)
    then have ID: "rq_ID r' = rq_ID r" by (simp add: identity_def)
    from Cons.prems(3) obtain w where w: "w \<in> set t" "r = row_Payload w" by auto
    let ?u = "\<lambda>x. if x = row_Payload w then r' else x"
    have sv: "save t r' = map (put ?u) t" using save_existing [OF Cons.prems(2) w(1)] ID w(2) by simp
    have "keeps ?u t" using \<open>execute r c = Inr r'\<close> w(2) by (auto simp: keeps_def)
    with sv Cons.prems(2) have ok: "table_ok (save t r')" by (simp add: table_ok_put)
    have r_out: "r \<notin> set rs" "r' \<notin> set rs" using Cons.prems(4) ID by (auto simp: rev_image_eqI)
    have sub: "set rs \<subseteq> row_Payload ` set (save t r')"
    proof
      fix x assume x: "x \<in> set rs"
      then obtain v where "v \<in> set t" "x = row_Payload v" using Cons.prems(3) by auto
      moreover from x r_out w(2) have "x \<noteq> row_Payload w" by auto
      ultimately show "x \<in> row_Payload ` set (save t r')" by (force simp: sv)
    qed
    from Cons.IH [OF u(2) ok sub] Cons.prems(4)
    have IH: "t' = map (put (changed m ch rs)) (save t r')" "us' = map (projr \<circ> ch) (filter m rs)"
      "\<forall>r \<in> set rs. m r \<longrightarrow> ch r = Inr (projr (ch r))" by auto
    have "changed m ch rs (?u x) = changed m ch (r # rs) x" for x
      using r_out True u(1) w(2) by (auto simp: changed_def)
    then have "t' = map (put (changed m ch (r # rs))) t" unfolding IH(1) sv by (simp add: put_def)
    with IH u True show ?thesis by simp
  qed
qed

section \<open>The revision counts the committed operations\<close>

lemma keys_insert:
  assumes "\<And>x. x \<in> set rs \<Longrightarrow> set (f (u x)) = set (f x) \<or> set (f (u x)) = insert k (set (f x))"
    and "\<exists>x \<in> set rs. k \<in> set (f (u x))"
  shows "set (concat (map f (map u rs))) = insert k (set (concat (map f rs)))"
  using assms by (auto; blast)

lemma keys_same: "(\<And>x. x \<in> set rs \<Longrightarrow> f (u x) = f x) \<Longrightarrow> set (concat (map f (map u rs))) = set (concat (map f rs))"
  by auto

lemma filter_same: "(\<And>x. x \<in> set rs \<Longrightarrow> P (u x) = P x) \<Longrightarrow> length (filter P (map u rs)) = length (filter P rs)"
  by (induction rs) auto

lemma filter_one_more:
  assumes "distinct rs" "r \<in> set rs" "\<not> P r" "P r'"
  shows "length (filter P (map (\<lambda>x. if x = r then r' else x) rs)) = Suc (length (filter P rs))"
  using assms
proof (induction rs)
  case (Cons x xs)
  let ?u = "\<lambda>x. if x = r then r' else x"
  show ?case
  proof (cases "x = r")
    case True
    with Cons.prems(1) have "map ?u xs = xs" by (intro map_idI) auto
    with True Cons.prems show ?thesis by simp
  next
    case False
    with Cons have "length (filter P (map ?u xs)) = Suc (length (filter P xs))" by simp
    with False show ?thesis by simp
  qed
qed simp

lemma revision_mset:
  assumes "mset rs = mset rs'"
  shows "coordinationRevision rs = coordinationRevision rs'"
proof -
  have "set rs = set rs'" "length rs = length rs'" using assms by (auto dest: mset_eq_setD mset_eq_length)
  moreover have "mset (filter decided rs) = mset (filter decided rs')" using assms by simp
  then have "length (filter decided rs) = length (filter decided rs')" by (rule mset_eq_length)
  ultimately show ?thesis by (simp add: coordinationRevision_def)
qed

text \<open>A transition changes one of the counted sets at most, and adds one key to it.\<close>

lemma revision_transfer:
  assumes "\<And>x. x \<in> set rs \<Longrightarrow> u x = x \<or> rq_Decision (u x) = rq_Decision x \<and> rq_Expiry (u x) = rq_Expiry x \<and>
      rq_Clearance (u x) = rq_Clearance x \<and> set (transfer_keys (u x)) = insert k (set (transfer_keys x))"
    and "\<exists>x \<in> set rs. k \<in> set (transfer_keys (u x))" "k \<notin> set (concat (map transfer_keys rs))"
  shows "coordinationRevision (map u rs) = coordinationRevision rs + 1"
proof -
  have "set (concat (map transfer_keys (map u rs))) = insert k (set (concat (map transfer_keys rs)))"
    by (rule keys_insert) (use assms in \<open>force+\<close>)
  moreover have "set (concat (map expiry_keys (map u rs))) = set (concat (map expiry_keys rs))"
    by (rule keys_same) (use assms(1) in \<open>force simp: expiry_keys_def\<close>)
  moreover have "set (concat (map clearance_keys (map u rs))) = set (concat (map clearance_keys rs))"
    by (rule keys_same) (use assms(1) in \<open>force simp: clearance_keys_def\<close>)
  moreover have "length (filter decided (map u rs)) = length (filter decided rs)"
    by (rule filter_same) (use assms(1) in \<open>force simp: decided_def\<close>)
  ultimately show ?thesis using assms(3) by (simp add: coordinationRevision_def card_insert_disjoint del: set_concat)
qed

lemma revision_expiry:
  assumes "\<And>x. x \<in> set rs \<Longrightarrow> u x = x \<or> rq_Decision (u x) = rq_Decision x \<and> rq_Callsign (u x) = rq_Callsign x \<and>
      rq_RecipientTransfers (u x) = rq_RecipientTransfers x \<and> rq_Clearance (u x) = rq_Clearance x \<and>
      rq_Expiry x = None \<and> expiry_keys (u x) = [k]"
    and "\<exists>x \<in> set rs. u x \<noteq> x" "k \<notin> set (concat (map expiry_keys rs))"
  shows "coordinationRevision (map u rs) = coordinationRevision rs + 1"
proof -
  have "set (concat (map expiry_keys (map u rs))) = insert k (set (concat (map expiry_keys rs)))"
  proof (rule keys_insert)
    show "set (expiry_keys (u x)) = set (expiry_keys x) \<or> set (expiry_keys (u x)) = insert k (set (expiry_keys x))"
      if "x \<in> set rs" for x
    proof -
      have "rq_Expiry x = None \<Longrightarrow> expiry_keys x = []" by (simp add: expiry_keys_def)
      with assms(1) [OF that] show ?thesis by auto
    qed
    show "\<exists>x \<in> set rs. k \<in> set (expiry_keys (u x))" using assms(1,2) by (metis list.set_intros(1))
  qed
  moreover have "set (concat (map transfer_keys (map u rs))) = set (concat (map transfer_keys rs))"
    by (rule keys_same) (use assms(1) in \<open>force simp: transfer_keys_def transfer_key_def\<close>)
  moreover have "set (concat (map clearance_keys (map u rs))) = set (concat (map clearance_keys rs))"
    by (rule keys_same) (use assms(1) in \<open>force simp: clearance_keys_def\<close>)
  moreover have "length (filter decided (map u rs)) = length (filter decided rs)"
    by (rule filter_same) (use assms(1) in \<open>force simp: decided_def\<close>)
  ultimately show ?thesis using assms(3) by (simp add: coordinationRevision_def card_insert_disjoint del: set_concat)
qed

lemma revision_clearance:
  assumes "r \<in> set rs" "rq_Clearance r = None" "cl_FactID c \<notin> set (concat (map clearance_keys rs))"
  shows "coordinationRevision (map (\<lambda>x. if x = r then r\<lparr> rq_Clearance := Some c \<rparr> else x) rs) = coordinationRevision rs + 1"
proof -
  let ?u = "\<lambda>x. if x = r then r\<lparr> rq_Clearance := Some c \<rparr> else x"
  have "set (concat (map clearance_keys (map ?u rs))) = insert (cl_FactID c) (set (concat (map clearance_keys rs)))"
    by (rule keys_insert) (use assms in \<open>auto simp: clearance_keys_def\<close>)
  moreover have "set (concat (map transfer_keys (map ?u rs))) = set (concat (map transfer_keys rs))"
    by (rule keys_same) (simp add: transfer_keys_def transfer_key_def)
  moreover have "set (concat (map expiry_keys (map ?u rs))) = set (concat (map expiry_keys rs))"
    by (rule keys_same) (simp add: expiry_keys_def)
  moreover have "length (filter decided (map ?u rs)) = length (filter decided rs)"
    by (rule filter_same) (simp add: decided_def)
  ultimately show ?thesis using assms(3) by (simp add: coordinationRevision_def card_insert_disjoint del: set_concat)
qed

lemma revision_resolve:
  assumes "r \<in> set rs" "distinct rs" "rq_Callsign r' = rq_Callsign r" "rq_RecipientTransfers r' = rq_RecipientTransfers r"
    "rq_Expiry r' = rq_Expiry r" "rq_Clearance r' = rq_Clearance r" "rq_Decision r = None"
  shows "coordinationRevision (map (\<lambda>x. if x = r then r' else x) rs) =
    coordinationRevision rs + (if rq_Decision r' = None then 0 else 1)"
proof -
  let ?u = "\<lambda>x. if x = r then r' else x"
  have "set (concat (map clearance_keys (map ?u rs))) = set (concat (map clearance_keys rs))"
    by (rule keys_same) (use assms in \<open>simp add: clearance_keys_def\<close>)
  moreover have "set (concat (map transfer_keys (map ?u rs))) = set (concat (map transfer_keys rs))"
    by (rule keys_same) (use assms in \<open>simp add: transfer_keys_def transfer_key_def\<close>)
  moreover have "set (concat (map expiry_keys (map ?u rs))) = set (concat (map expiry_keys rs))"
    by (rule keys_same) (use assms in \<open>simp add: expiry_keys_def\<close>)
  moreover have "length (filter decided (map ?u rs)) = length (filter decided rs) + (if rq_Decision r' = None then 0 else 1)"
  proof (cases "rq_Decision r'")
    case None
    then have "length (filter decided (map ?u rs)) = length (filter decided rs)"
      by (intro filter_same) (use assms in \<open>simp add: decided_def\<close>)
    with None show ?thesis by simp
  next
    case (Some d)
    with assms show ?thesis by (subst filter_one_more) (auto simp: decided_def)
  qed
  ultimately show ?thesis by (simp add: coordinationRevision_def del: set_concat)
qed

section \<open>Commands as updates of the table\<close>

datatype repo_op = OpSubmit Request nat | OpDecide string Decision nat | OpCorrelate ClearanceFact
  | OpExpire ExpiryFact | OpTransfer OwnershipFact

definition commit_view :: "repo_error + CommitResult \<times> requests_table \<Rightarrow> repo_error + nat \<times> requests_table" where
  "commit_view x = (case x of Inl e \<Rightarrow> Inl e | Inr (res, t) \<Rightarrow> Inr (cr_Revision res, t))"

definition transfer_view :: "repo_error + TransferResult \<times> requests_table \<Rightarrow> repo_error + nat \<times> requests_table" where
  "transfer_view x = (case x of Inl e \<Rightarrow> Inl e | Inr (res, t) \<Rightarrow> Inr (tr_Revision res, t))"

text \<open>The revision an operation reports and the table it leaves.\<close>

fun execute_op :: "requests_table \<Rightarrow> repo_op \<Rightarrow> repo_error + nat \<times> requests_table" where
  "execute_op t (OpSubmit q n) = commit_view (Repository_Submit t q n)"
| "execute_op t (OpDecide i d n) = commit_view (Repository_Decide t i d n)"
| "execute_op t (OpCorrelate fct) = commit_view (CorrelateAccepted t fct)"
| "execute_op t (OpExpire fct) = transfer_view (ExpirePendingTx t fct)"
| "execute_op t (OpTransfer fct) = transfer_view (TransferPending t fct)"

fun op_airport :: "repo_op \<Rightarrow> string" where
  "op_airport (OpSubmit q _) = rq_Airport q"
| "op_airport (OpDecide _ d _) = dc_Airport d"
| "op_airport (OpCorrelate fct) = cf_Airport fct"
| "op_airport (OpExpire fct) = ef_Airport fct"
| "op_airport (OpTransfer fct) = of_Airport fct"

text \<open>
  The submissions the lemmas speak of: they carry a request in the form \<^verbatim>\<open>New\<close> gives it, and its
  identifier is not in use at another airport. The operations themselves do not check this.
\<close>

fun op_ok :: "requests_table \<Rightarrow> repo_op \<Rightarrow> bool" where
  "op_ok t (OpSubmit q n) \<longleftrightarrow> well_formed q \<and> rq_State q = StatePending \<and> rq_Supersedes q = None \<and>
     rq_RecipientTransfers q = [] \<and> (\<forall>w \<in> set t. row_ID w = rq_ID q \<longrightarrow> row_Airport w = rq_Airport q)"
| "op_ok t _ \<longleftrightarrow> True"

definition same_slot :: "Request \<Rightarrow> Request \<Rightarrow> bool" where
  "same_slot a b \<longleftrightarrow> rq_Airport a = rq_Airport b \<and> rq_Callsign a = rq_Callsign b \<and> rq_Kind a = rq_Kind b"

text \<open>At each airport a flight has at most one pending request of a kind.\<close>

definition one_pending :: "requests_table \<Rightarrow> bool" where
  "one_pending t \<longleftrightarrow> (\<forall>v \<in> set t. \<forall>w \<in> set t. rq_State (row_Payload v) = StatePending \<longrightarrow>
     rq_State (row_Payload w) = StatePending \<longrightarrow> same_slot (row_Payload v) (row_Payload w) \<longrightarrow> v = w)"

lemma lockedRequests_Inr: "lockedRequests t a = Inr rs \<longleftrightarrow> ensure_all Validate (select_requests t a) = Inr () \<and> rs = select_requests t a"
  by (cases "ensure_all Validate (select_requests t a)") (auto simp: lockedRequests_def simp del: ensure_all_Inr)

lemma select_row:
  assumes "table_ok t" "r \<in> set (select_requests t a)"
  obtains w where "w \<in> set t" "row_Payload w = r" "rq_Airport r = a" "well_formed r"
  using assms by (auto simp: set_select table_okD)

definition swap :: "Request \<Rightarrow> Request \<Rightarrow> Request \<Rightarrow> Request" where
  "swap r r' x = (if x = r then r' else x)"

text \<open>Saving the outcome of one command on a selected request.\<close>

lemma save_executed:
  assumes "table_ok t" "r \<in> set (select_requests t a)" "execute r c = Inr r'"
  shows "save t r' = map (put (swap r r')) t" "keeps (swap r r') t"
proof -
  from assms(1,2) obtain w where w: "w \<in> set t" "row_Payload w = r" by (rule select_row)
  from execute_valid(3) [OF assms(3)] have "rq_ID r' = rq_ID r" by (simp add: identity_def)
  with save_existing [OF assms(1) w(1)] w(2) show "save t r' = map (put (swap r r')) t"
    by (simp add: swap_def [abs_def])
  show "keeps (swap r r') t" using assms(3) by (auto simp: keeps_def swap_def)
qed

text \<open>
  The effect of an operation on the table: requests change in place, and a submission adds one at the
  airport that its identifier belongs to.
\<close>

inductive table_step :: "(string \<Rightarrow> string) \<Rightarrow> requests_table \<Rightarrow> requests_table \<Rightarrow> bool"
  for home :: "string \<Rightarrow> string" where
  touched: "keeps u t \<Longrightarrow> table_step home t (map (put u) t)"
| added: "keeps u t \<Longrightarrow> well_formed q \<Longrightarrow> rq_ID q \<notin> row_ID ` set t \<Longrightarrow> rq_Airport q = home (rq_ID q) \<Longrightarrow>
    (\<forall>w \<in> set t. rq_State (u (row_Payload w)) = StatePending \<longrightarrow> \<not> same_slot (row_Payload w) q) \<Longrightarrow>
    table_step home t (map (put u) t @ [row_of q])"

lemma put_id [simp]: "map (put (\<lambda>x. x)) t = t"
  by (rule map_idI) (simp add: put_def)

lemma table_step_refl: "table_step home t t"
  using touched [of "\<lambda>x. x" t] by (simp add: keeps_def)

lemma decide_commit:
  assumes "Repository_Decide t i d n = Inr (res, t')"
  obtains (retry) "t' = t" "cr_Revision res = coordinationRevision (select_requests t (dc_Airport d))"
  | (commit) r r' where "r \<in> set (select_requests t (dc_Airport d))" "rq_State r = StatePending"
      "execute r (CmdDecide (dc_CommandID d) (dc_Actor d) (dc_Role d) (dc_AuthoritativeRecipient d) (dc_AfterState d)
          (dc_Reason d) (dc_ReceivedAt d)) = Inr r'"
      "t' = save t r'" "cr_Revision res = coordinationRevision (select_requests t (dc_Airport d)) + 1"
proof -
  let ?cur = "select_requests t (dc_Airport d)"
  have retry: "cr_Revision x = coordinationRevision rs" if "decide_retry i d rs qs = Some (Inr x)" for x rs qs
    using that by (induction qs) (auto simp: duplicate_commit_def split: if_splits option.splits)
  from assms have L: "lockedRequests t (dc_Airport d) = Inr ?cur"
    by (auto simp: Repository_Decide_def lockedRequests_Inr split: sum.splits)
  show ?thesis
  proof (cases "decide_retry i d ?cur ?cur")
    case (Some x)
    with assms L have "x = Inr res" "t' = t" by (auto simp: Repository_Decide_def split: sum.splits)
    with Some retry show ?thesis by (intro that(1)) auto
  next
    case None
    with assms L obtain r where f: "find (\<lambda>r. rq_ID r = i) ?cur = Some r"
      by (auto simp: Repository_Decide_def split: if_splits option.splits)
    then have "r \<in> set ?cur" by (auto dest: find_SomeD)
    with assms L None f show ?thesis
      by (intro that(2) [of r "projr (Decide r (dc_CommandID d) (dc_Actor d) (dc_Role d) (dc_AuthoritativeRecipient d)
            (dc_AfterState d) (dc_Reason d) (dc_ReceivedAt d))"])
         (auto simp: Repository_Decide_def split: if_splits sum.splits)
  qed
qed

lemma correlate_commit:
  assumes "CorrelateAccepted t fct = Inr (res, t')"
  obtains (none) "t' = t" "cr_Revision res = coordinationRevision (select_requests t (cf_Airport fct))"
  | (commit) r r' where "r \<in> set (select_requests t (cf_Airport fct))"
      "\<forall>x \<in> set (select_requests t (cf_Airport fct)). cf_FactID fct \<notin> set (clearance_keys x)"
      "execute r (CmdCorrelate \<lparr> cl_FactID = cf_FactID fct, cl_Kind = cf_Kind fct, cl_Value = cf_Value fct,
          cl_Issuer = cf_Issuer fct, cl_ObservedAt = cf_ObservedAt fct \<rparr>) = Inr r'"
      "t' = save t r'" "cr_Revision res = coordinationRevision (select_requests t (cf_Airport fct)) + 1"
proof -
  let ?cur = "select_requests t (cf_Airport fct)"
  let ?dup = "\<lambda>r. case rq_Clearance r of None \<Rightarrow> False | Some c \<Rightarrow> cl_FactID c = cf_FactID fct"
  from assms have L: "lockedRequests t (cf_Airport fct) = Inr ?cur"
    by (auto simp: CorrelateAccepted_def lockedRequests_Inr split: sum.splits if_splits)
  show ?thesis
  proof (cases "find ?dup (rev ?cur)")
    case (Some x)
    with assms L show ?thesis
      by (intro that(1)) (auto simp: CorrelateAccepted_def duplicate_commit_def split: if_splits)
  next
    case None
    then have fresh: "\<forall>x \<in> set ?cur. cf_FactID fct \<notin> set (clearance_keys x)"
      by (auto simp: find_None_iff clearance_keys_def dest!: sym [of "Some _"] split: option.splits)
    show ?thesis
    proof (cases "find (clearance_candidate fct) (rev ?cur)")
      case none: None
      with None assms L show ?thesis
        by (intro that(1)) (auto simp: CorrelateAccepted_def split: if_splits)
    next
      case (Some r)
      then have "r \<in> set ?cur" by (auto dest: find_SomeD)
      with Some None assms L fresh show ?thesis
        by (intro that(2) [of r "projr (Correlate r \<lparr> cl_FactID = cf_FactID fct, cl_Kind = cf_Kind fct,
              cl_Value = cf_Value fct, cl_Issuer = cf_Issuer fct, cl_ObservedAt = cf_ObservedAt fct \<rparr>)"])
           (auto simp: CorrelateAccepted_def split: if_splits sum.splits)
    qed
  qed
qed

text \<open>The two operations that change every matching request.\<close>

lemma update_commit:
  assumes "finish_update current (update_matching m ch t current) = Inr (res, t')" "current = select_requests t a"
    "table_ok t" and ch: "\<forall>r r'. ch r = Inr r' \<longrightarrow> (\<exists>c. execute r c = Inr r')"
  shows "t' = map (put (changed m ch current)) t" "keeps (changed m ch current) t"
    "tr_Revision res = coordinationRevision current + (if \<exists>r \<in> set current. m r then 1 else 0)"
    "\<And>r. r \<in> set current \<Longrightarrow> m r \<Longrightarrow> ch r = Inr (changed m ch current r)"
proof -
  from assms(1) obtain us where u: "update_matching m ch t current = Inr (us, t')"
      "tr_Revision res = coordinationRevision current + (if us = [] then 0 else 1)"
    by (auto simp: finish_update_def split: sum.splits)
  have sub: "set current \<subseteq> row_Payload ` set t" by (auto simp: assms(2) set_select)
  have dist: "distinct (map rq_ID current)" using assms(2,3) by (simp add: select_distinct)
  note p = update_matching_put [OF u(1) assms(3) sub dist ch]
  from p show t': "t' = map (put (changed m ch current)) t" by blast
  from p show c: "\<And>r. r \<in> set current \<Longrightarrow> m r \<Longrightarrow> ch r = Inr (changed m ch current r)"
    by (auto simp: changed_def)
  from p u(2) show "tr_Revision res = coordinationRevision current + (if \<exists>r \<in> set current. m r then 1 else 0)"
    by (auto simp: filter_empty_conv)
  show "keeps (changed m ch current) t"
  proof -
    have "changed m ch current r = r \<or> (\<exists>k. execute r k = Inr (changed m ch current r))" for r
      using c [of r] ch by (metis changed_def)
    then show ?thesis by (simp add: keeps_def)
  qed
qed

lemma submit_retry_None:
  "submit_retry q cur ps = None \<Longrightarrow> \<forall>p \<in> set ps. rq_ID p \<noteq> rq_ID q"
  by (induction ps) (auto split: sum.splits if_splits)

lemma submit_retry_Some: "submit_retry q cur ps = Some (Inr res) \<Longrightarrow> cr_Revision res = coordinationRevision cur"
  by (induction ps) (auto simp: duplicate_commit_def split: sum.splits if_splits)

lemma submit_retry_dup: "submit_retry q cur ps = Some (Inr res) \<Longrightarrow> cr_Duplicate res"
  by (induction ps) (auto simp: duplicate_commit_def split: sum.splits if_splits)

definition decided_by :: "string \<Rightarrow> Request \<Rightarrow> bool" where
  "decided_by cid p = (case rq_Decision p of None \<Rightarrow> False | Some d \<Rightarrow> dc_CommandID d = cid)"

lemma submit_retry_None_decided:
  "submit_retry q cur ps = None \<Longrightarrow> \<forall>p \<in> set ps. \<not> decided_by (rq_CommandID q) p"
  by (induction ps) (auto simp: decided_by_def split: sum.splits if_splits option.splits)

lemma submit_commit:
  assumes "Repository_Submit t q n = Inr (res, t')" "table_ok t" "op_ok t (OpSubmit q n)"
  obtains (retry) "t' = t" "cr_Revision res = coordinationRevision (select_requests t (rq_Airport q))" "cr_Duplicate res"
  | (alone) "rq_ID q \<notin> row_ID ` set t"
      "\<forall>r \<in> set (select_requests t (rq_Airport q)). \<not> supersede_candidate q r"
      "t' = t @ [row_of q]" "cr_Revision res = coordinationRevision (select_requests t (rq_Airport q)) + 1"
      "\<forall>p \<in> set (select_requests t (rq_Airport q)). \<not> decided_by (rq_CommandID q) p"
  | (superseding) c c' where "rq_ID q \<notin> row_ID ` set t" "c \<in> set (select_requests t (rq_Airport q))"
      "supersede_candidate q c" "execute c (CmdSupersede (rq_ID q) (rq_CreatedAt q)) = Inr c'" "rq_ID c' = rq_ID c"
      "t' = map (put (swap c c')) t @ [row_of (q\<lparr> rq_Supersedes := Some (rq_ID c) \<rparr>)]"
      "cr_Revision res = coordinationRevision (select_requests t (rq_Airport q)) + 1"
      "\<forall>p \<in> set (select_requests t (rq_Airport q)). \<not> decided_by (rq_CommandID q) p"
proof -
  let ?cur = "select_requests t (rq_Airport q)"
  from assms(1) have V: "Validate q = Inr ()" by (auto simp: Repository_Submit_def split: sum.splits)
  show ?thesis
  proof (cases "submit_retry q ?cur ?cur")
    case (Some x)
    with assms(1) V have "x = Inr res" "t' = t" by (auto simp: Repository_Submit_def Let_def split: sum.splits)
    with Some submit_retry_Some submit_retry_dup show ?thesis by (intro that(1)) auto
  next
    case None
    note undecided = submit_retry_None_decided [OF None]
    have new: "rq_ID q \<notin> row_ID ` set t"
    proof
      assume "rq_ID q \<in> row_ID ` set t"
      then obtain w where w: "w \<in> set t" "row_ID w = rq_ID q" by auto
      with assms(3) have "row_Payload w \<in> set ?cur" by (auto simp: set_select)
      with submit_retry_None [OF None] w table_okD(1) [OF assms(2) w(1)] show False by auto
    qed
    show ?thesis
    proof (cases "find (supersede_candidate q) (rev ?cur)")
      case none: None
      then have "\<forall>r \<in> set ?cur. \<not> supersede_candidate q r" by (simp add: find_None_iff)
      with none None V assms(1) new undecided show ?thesis
        by (intro that(2)) (auto simp: Repository_Submit_def Let_def save_new split: if_splits)
    next
      case (Some c)
      then have c: "c \<in> set ?cur" "supersede_candidate q c" by (auto dest: find_SomeD)
      from Some None V assms(1) obtain c' where s: "Supersede c (rq_ID q) (rq_CreatedAt q) = Inr c'"
        "t' = save (save t (q\<lparr> rq_Supersedes := Some (rq_ID c') \<rparr>)) c'" "cr_Revision res = coordinationRevision ?cur + 1"
        by (auto simp: Repository_Submit_def Let_def split: if_splits sum.splits)
      let ?q = "q\<lparr> rq_Supersedes := Some (rq_ID c') \<rparr>"
      have e: "execute c (CmdSupersede (rq_ID q) (rq_CreatedAt q)) = Inr c'" using s(1) by simp
      then have ID: "rq_ID c' = rq_ID c" using execute_valid(3) by (fastforce simp: identity_def)
      from assms(2) c(1) obtain w where w: "w \<in> set t" "row_Payload w = c" by (rule select_row)
      have "rq_ID q \<noteq> rq_ID c'" using new ID w table_okD(1) [OF assms(2) w(1)] by (metis image_eqI)
      then have wf: "well_formed ?q" using assms(3) by (auto simp: well_formed_def Validate_def)
      have "save t ?q = t @ [row_of ?q]" using new by (intro save_new) simp
      moreover have "table_ok (t @ [row_of ?q])" using assms(2) wf new by (intro table_ok_snoc) simp_all
      moreover have "?q \<noteq> c"
      proof
        assume "?q = c"
        then have "rq_ID ?q = rq_ID c" by (rule arg_cong)
        with \<open>rq_ID q \<noteq> rq_ID c'\<close> ID show False by simp
      qed
      ultimately have "t' = map (put (swap c c')) t @ [row_of ?q]"
        using save_existing [of "t @ [row_of ?q]" w c'] w ID s(2)
        by (simp add: swap_def [abs_def] put_def)
      with new c e ID s(3) undecided show ?thesis by (intro that(3) [of c c']) simp_all
    qed
  qed
qed

definition expire_change :: "ExpiryFact \<Rightarrow> Request \<Rightarrow> request_error + Request" where
  "expire_change fct r = Expire r \<lparr> ex_FactID = ef_FactID fct, ex_FactRevision = ef_Revision fct,
     ex_Reason = ef_Reason fct, ex_ExpiredAt = ef_OccurredAt fct \<rparr>"

definition expire_match :: "ExpiryFact \<Rightarrow> Request \<Rightarrow> bool" where
  "expire_match fct r \<longleftrightarrow> rq_Callsign r = ef_Callsign fct \<and> rq_State r = StatePending"

definition transfer_change :: "OwnershipFact \<Rightarrow> Request \<Rightarrow> request_error + Request" where
  "transfer_change fct r = TransferRecipient r (of_FactID fct) (of_Revision fct) (of_Owner fct) (of_ObservedAt fct)"

lemma expire_change_execute: "\<forall>r r'. expire_change fct r = Inr r' \<longrightarrow> (\<exists>c. execute r c = Inr r')"
  unfolding expire_change_def by (metis execute.simps(3))

lemma transfer_change_execute: "\<forall>r r'. transfer_change fct r = Inr r' \<longrightarrow> (\<exists>c. execute r c = Inr r')"
  unfolding transfer_change_def by (metis execute.simps(5))

lemma expire_commit:
  assumes "ExpirePendingTx t fct = Inr (res, t')"
  obtains (retry) "t' = t" "tr_Revision res = coordinationRevision (select_requests t (ef_Airport fct))"
  | (commit) "\<forall>r \<in> set (select_requests t (ef_Airport fct)). \<not> expiry_matches fct r"
      "finish_update (select_requests t (ef_Airport fct))
         (update_matching (expire_match fct) (expire_change fct) t (select_requests t (ef_Airport fct))) = Inr (res, t')"
  using assms
  by (auto simp: ExpirePendingTx_def lockedRequests_Inr expire_match_def [abs_def] expire_change_def [abs_def]
      filter_empty_conv split: if_splits sum.splits)

lemma transfer_commit:
  assumes "TransferPending t fct = Inr (res, t')"
  obtains (retry) "t' = t" "tr_Revision res = coordinationRevision (select_requests t (of_Airport fct))"
  | (commit) "\<forall>r \<in> set (select_requests t (of_Airport fct)). transfer_record fct r = None"
      "finish_update (select_requests t (of_Airport fct))
         (update_matching (transfer_needed fct) (transfer_change fct) t (select_requests t (of_Airport fct))) = Inr (res, t')"
  using assms
  by (auto simp: TransferPending_def lockedRequests_Inr transfer_change_def [abs_def]
      filter_empty_conv split: if_splits sum.splits)

lemma execute_op_step:
  assumes "execute_op t op = Inr (n, t')" "table_ok t" "one_pending t" "op_ok t op"
    and home: "\<And>q m. op = OpSubmit q m \<Longrightarrow> rq_Airport q = home (rq_ID q)"
  shows "table_step home t t'"
proof (cases op)
  case (OpSubmit q m)
  with assms(1) obtain res where r: "Repository_Submit t q m = Inr (res, t')"
    by (auto simp: commit_view_def split: sum.splits)
  from r assms(2) assms(4) [unfolded OpSubmit] show ?thesis
  proof (cases rule: submit_commit)
    case retry
    then show ?thesis by (simp add: table_step_refl)
  next
    case alone
    have "\<not> same_slot (row_Payload w) q" if "w \<in> set t" "rq_State (row_Payload w) = StatePending" for w
    proof
      assume "same_slot (row_Payload w) q"
      with that assms(2) have "row_Payload w \<in> set (select_requests t (rq_Airport q))"
        by (auto simp: set_select same_slot_def table_okD)
      with alone(2) that \<open>same_slot _ _\<close> show False by (auto simp: supersede_candidate_def same_slot_def)
    qed
    then show ?thesis
      using alone assms(4) home [OF OpSubmit] added [of "\<lambda>x. x" t q] by (simp add: OpSubmit keeps_def)
  next
    case (superseding c c')
    let ?q = "q\<lparr> rq_Supersedes := Some (rq_ID c) \<rparr>"
    from assms(2) superseding(2) obtain w where w: "w \<in> set t" "row_Payload w = c" "rq_Airport c = rq_Airport q"
      by (rule select_row)
    have "rq_ID q \<noteq> rq_ID c" using superseding(1) w table_okD(1) [OF assms(2) w(1)] by (metis image_eqI)
    then have wf: "well_formed ?q" using assms(4) by (auto simp: OpSubmit well_formed_def Validate_def)
    have "\<not> same_slot (row_Payload v) ?q"
      if "v \<in> set t" "rq_State (swap c c' (row_Payload v)) = StatePending" for v
    proof
      assume s: "same_slot (row_Payload v) ?q"
      have c'_res: "rq_State c' \<noteq> StatePending"
        using superseding(4) by (auto simp: Supersede_def split: if_splits)
      with that have v: "row_Payload v \<noteq> c" "rq_State (row_Payload v) = StatePending" by (auto simp: swap_def split: if_splits)
      have "same_slot (row_Payload v) (row_Payload w)" "rq_State (row_Payload w) = StatePending"
        using s superseding(3) w by (auto simp: same_slot_def supersede_candidate_def)
      with assms(3) that(1) w(1) v have "v = w" by (auto simp: one_pending_def)
      with v w show False by simp
    qed
    moreover have "keeps (swap c c') t" using save_executed(2) [OF assms(2) superseding(2,4)] .
    ultimately show ?thesis
      unfolding superseding(6) using superseding(1) wf home [OF OpSubmit] by (intro added) auto
  qed
next
  case (OpDecide i d m)
  with assms(1) obtain res where r: "Repository_Decide t i d m = Inr (res, t')"
    by (auto simp: commit_view_def split: sum.splits)
  then show ?thesis
  proof (cases rule: decide_commit)
    case (commit r r')
    from save_executed [OF assms(2) commit(1,3)] commit(4) show ?thesis by (simp add: touched)
  qed (simp add: table_step_refl)
next
  case (OpCorrelate fct)
  with assms(1) obtain res where r: "CorrelateAccepted t fct = Inr (res, t')"
    by (auto simp: commit_view_def split: sum.splits)
  then show ?thesis
  proof (cases rule: correlate_commit)
    case (commit r r')
    from save_executed [OF assms(2) commit(1,3)] commit(4) show ?thesis by (simp add: touched)
  qed (simp add: table_step_refl)
next
  case (OpExpire fct)
  with assms(1) obtain res where r: "ExpirePendingTx t fct = Inr (res, t')"
    by (auto simp: transfer_view_def split: sum.splits)
  then show ?thesis
  proof (cases rule: expire_commit)
    case commit
    from update_commit(1,2) [OF commit(2) refl assms(2) expire_change_execute] show ?thesis by (simp add: touched)
  qed (simp add: table_step_refl)
next
  case (OpTransfer fct)
  with assms(1) obtain res where r: "TransferPending t fct = Inr (res, t')"
    by (auto simp: transfer_view_def split: sum.splits)
  then show ?thesis
  proof (cases rule: transfer_commit)
    case commit
    from update_commit(1,2) [OF commit(2) refl assms(2) transfer_change_execute] show ?thesis by (simp add: touched)
  qed (simp add: table_step_refl)
qed

section \<open>Invariants of the repository\<close>

definition repo_ok :: "requests_table \<Rightarrow> bool" where
  "repo_ok t \<longleftrightarrow> table_ok t \<and> one_pending t"

lemma keeps_pending:
  assumes "keeps u t" "w \<in> set t" "rq_State (u (row_Payload w)) = StatePending"
  shows "rq_State (row_Payload w) = StatePending"
proof (rule ccontr)
  assume n: "rq_State (row_Payload w) \<noteq> StatePending"
  with assms obtain c where "execute (row_Payload w) c = Inr (u (row_Payload w))" by (auto simp: keeps_def)
  then show False using n by (rule execute_not_pending) (use assms(3) n in simp)
qed

lemma one_pending_put:
  assumes "one_pending t" "keeps u t"
  shows "one_pending (map (put u) t)"
proof -
  have "v = w" if "v \<in> set t" "w \<in> set t" "rq_State (u (row_Payload v)) = StatePending"
    "rq_State (u (row_Payload w)) = StatePending" "same_slot (u (row_Payload v)) (u (row_Payload w))" for v w
    using that keeps_pending [OF assms(2)] keeps_identity [OF assms(2)] assms(1)
    by (auto simp: one_pending_def same_slot_def identity_def)
  then show ?thesis by (fastforce simp: one_pending_def)
qed

lemma same_slot_sym: "same_slot a b \<longleftrightarrow> same_slot b a"
  by (auto simp: same_slot_def)

lemma one_pending_snoc:
  assumes "one_pending t" "\<And>w. w \<in> set t \<Longrightarrow> rq_State (row_Payload w) = StatePending \<Longrightarrow> \<not> same_slot (row_Payload w) q"
  shows "one_pending (t @ [row_of q])"
  unfolding one_pending_def
proof (intro ballI impI)
  fix v w
  assume vw: "v \<in> set (t @ [row_of q])" "w \<in> set (t @ [row_of q])" "rq_State (row_Payload v) = StatePending"
    "rq_State (row_Payload w) = StatePending" "same_slot (row_Payload v) (row_Payload w)"
  then consider "v \<in> set t" "w \<in> set t" | "v = row_of q" "w = row_of q" | "v \<in> set t" "w = row_of q" | "v = row_of q" "w \<in> set t"
    by auto
  then show "v = w"
  proof cases
    case 1
    with vw assms(1) show ?thesis by (simp add: one_pending_def)
  next
    case 3
    with vw assms(2) [of v] show ?thesis by simp
  next
    case 4
    with vw assms(2) [of w] same_slot_sym show ?thesis by (metis row_of_simps(3))
  qed simp
qed

lemma repo_ok_step:
  assumes "repo_ok t" "table_step home t t'"
  shows "repo_ok t'"
  using assms(2)
proof cases
  case (touched u)
  with assms(1) show ?thesis by (simp add: repo_ok_def table_ok_put one_pending_put)
next
  case (added u q)
  let ?t = "map (put u) t"
  have ok: "table_ok ?t" "one_pending ?t" using assms(1) added(2) by (simp_all add: repo_ok_def table_ok_put one_pending_put)
  have "row_ID ` set ?t = row_ID ` set t" by (force simp: image_image)
  with ok(1) added(3,4) have "table_ok (?t @ [row_of q])" by (intro table_ok_snoc) simp_all
  moreover have "\<not> same_slot (u (row_Payload w)) q" if "w \<in> set t" "rq_State (u (row_Payload w)) = StatePending" for w
    using added(6) that keeps_identity [OF added(2) that(1)] by (auto simp: same_slot_def identity_def)
  then have "one_pending (?t @ [row_of q])"
    using ok(2) by (intro one_pending_snoc) auto
  ultimately show ?thesis using added(1) by (simp add: repo_ok_def)
qed

text \<open>
  Submissions carry requests that \<^verbatim>\<open>New\<close> has made, and every identifier belongs to one airport,
  \<open>home\<close>. Nothing in the repository refuses an operation outside these conditions: they are
  hypotheses on its callers.
\<close>

definition made_by_New :: "Request \<Rightarrow> bool" where
  "made_by_New q \<longleftrightarrow> (\<exists>commandID airport callsign controller actor role kind payload receivedAt.
     New commandID airport callsign controller actor role kind payload receivedAt = Inr q)"

fun submits_at :: "(string \<Rightarrow> string) \<Rightarrow> repo_op \<Rightarrow> bool" where
  "submits_at home (OpSubmit q n) \<longleftrightarrow> made_by_New q \<and> rq_Airport q = home (rq_ID q)"
| "submits_at home _ \<longleftrightarrow> True"

definition housed :: "(string \<Rightarrow> string) \<Rightarrow> requests_table \<Rightarrow> bool" where
  "housed home t \<longleftrightarrow> repo_ok t \<and> (\<forall>w \<in> set t. row_Airport w = home (row_ID w))"

lemma made_by_New_opens:
  assumes "made_by_New q"
  shows "well_formed q \<and> rq_State q = StatePending \<and> rq_Supersedes q = None \<and> rq_RecipientTransfers q = []"
  using assms New_well_formed by (fastforce simp: made_by_New_def New_def split: if_splits sum.splits)

lemma submits_at_ok: "housed home t \<Longrightarrow> submits_at home op \<Longrightarrow> op_ok t op"
  by (cases op) (auto simp: housed_def dest: made_by_New_opens)

lemma housed_step:
  assumes "housed home t" "table_step home t t'"
  shows "housed home t'"
proof -
  have "repo_ok t'" using repo_ok_step assms by (auto simp: housed_def)
  moreover from assms(2) have "\<forall>w \<in> set t'. row_Airport w = home (row_ID w)"
    by cases (use assms(1) in \<open>auto simp: housed_def\<close>)
  ultimately show ?thesis by (simp add: housed_def)
qed

inductive repo_step :: "(string \<Rightarrow> string) \<Rightarrow> requests_table \<Rightarrow> repo_op \<Rightarrow> requests_table \<Rightarrow> bool"
  for home :: "string \<Rightarrow> string" where
  "execute_op t op = Inr (n, t') \<Longrightarrow> submits_at home op \<Longrightarrow> repo_step home t op t'"

inductive_cases repo_stepE: "repo_step home t op t'"

lemma repo_step_table:
  assumes "housed home t" "repo_step home t op t'"
  shows "table_step home t t'"
proof -
  from assms(2) obtain n where n: "execute_op t op = Inr (n, t')" "submits_at home op" by (rule repo_stepE)
  have "rq_Airport q = home (rq_ID q)" if "op = OpSubmit q m" for q m using n(2) that by simp
  with n assms(1) submits_at_ok [OF assms(1) n(2)] show ?thesis
    by (intro execute_op_step) (auto simp: housed_def repo_ok_def)
qed

interpretation repo: invariant_machine "repo_step home" "housed home" for home
  by unfold_locales (auto intro: housed_step repo_step_table)

text \<open>Delivery of operations: one that fails rolls its transaction back and leaves the table as it is.\<close>

definition handle :: "requests_table \<Rightarrow> repo_op \<Rightarrow> requests_table" where
  "handle t op = (case execute_op t op of Inl _ \<Rightarrow> t | Inr (_, t') \<Rightarrow> t')"

definition handles :: "requests_table \<Rightarrow> repo_op \<Rightarrow> bool" where
  "handles t op \<longleftrightarrow> \<not> isl (execute_op t op)"

lemma handle_runs:
  assumes "\<forall>op \<in> set ops. submits_at home op"
  shows "runs (repo_step home) t (steps_among handles handle t ops) (foldl handle t ops)"
  by (rule deliver_runs) (use assms in \<open>auto simp: handles_def handle_def intro: repo_step.intros split: sum.splits\<close>)

text \<open>
  The conditions on a whole run: the submissions are of made requests, and some assignment of
  identifiers to airports fits the rows of the table and the submissions.
\<close>

definition one_airport_per_id :: "requests_table \<Rightarrow> repo_op list \<Rightarrow> bool" where
  "one_airport_per_id t ops \<longleftrightarrow> (\<exists>home. (\<forall>w \<in> set t. row_Airport w = home (row_ID w)) \<and>
     (\<forall>q n. OpSubmit q n \<in> set ops \<longrightarrow> rq_Airport q = home (rq_ID q)))"

lemma one_airport_runs:
  assumes "repo_ok t" "\<forall>q n. OpSubmit q n \<in> set ops \<longrightarrow> made_by_New q" "one_airport_per_id t ops"
  obtains home where "housed home t" "runs (repo_step home) t (steps_among handles handle t ops) (foldl handle t ops)"
proof -
  from assms(3) obtain home where h: "\<forall>w \<in> set t. row_Airport w = home (row_ID w)"
    "\<forall>q n. OpSubmit q n \<in> set ops \<longrightarrow> rq_Airport q = home (rq_ID q)"
    by (auto simp: one_airport_per_id_def)
  have "submits_at home op" if "op \<in> set ops" for op using that h(2) assms(2)
    by - (cases op; auto)
  then show ?thesis using h(1) assms(1) by (intro that handle_runs) (auto simp: housed_def)
qed

text \<open>A resolved request of an earlier table is still there, settled.\<close>

definition settled_in :: "Request \<Rightarrow> requests_table \<Rightarrow> bool" where
  "settled_in r t \<longleftrightarrow> (\<exists>w \<in> set t. rq_ID (row_Payload w) = rq_ID r \<and> settled r (row_Payload w))"

lemma settled_in_step:
  assumes "settled_in r t" "table_step home t t'"
  shows "settled_in r t'"
proof -
  from assms(1) obtain w where w: "w \<in> set t" "rq_ID (row_Payload w) = rq_ID r" "settled r (row_Payload w)"
    by (auto simp: settled_in_def)
  have *: "rq_ID (u (row_Payload w)) = rq_ID r \<and> settled r (u (row_Payload w))" if k: "keeps u t" for u
  proof (cases "u (row_Payload w) = row_Payload w")
    case False
    with k w(1) obtain c where "execute (row_Payload w) c = Inr (u (row_Payload w))" by (auto simp: keeps_def)
    then have "request_step (row_Payload w) c (u (row_Payload w))" by (simp add: request_step_iff)
    with w keeps_identity [OF k w(1)] show ?thesis
      by (auto simp: identity_def intro: request_settled.terminal_step)
  qed (use w in simp)
  from assms(2) show ?thesis
    by cases (use * w(1) in \<open>auto simp: settled_in_def\<close>)
qed

interpretation repo_settled: invariant_machine "repo_step home" "\<lambda>t. housed home t \<and> settled_in r t" for home r
  by unfold_locales (auto intro: housed_step repo_step_table settled_in_step)

section \<open>Keys are injective\<close>

lemma split_left:
  assumes "x \<notin> set a" "x \<notin> set b" "a @ x # y = b @ x # z"
  shows "a = b \<and> y = z"
  using assms
proof (induction a arbitrary: b)
  case Nil
  then show ?case by (cases b) auto
next
  case (Cons c a)
  then show ?case by (cases b) auto
qed

lemma split_right:
  assumes "x \<notin> set y" "x \<notin> set z" "a @ x # y = b @ x # z"
  shows "a = b \<and> y = z"
proof -
  from assms(3) have "rev (a @ x # y) = rev (b @ x # z)" by (rule arg_cong)
  then have "rev y @ x # rev a = rev z @ x # rev b" by simp
  then show ?thesis using split_left [of x "rev y" "rev z" "rev a" "rev b"] assms by simp
qed

lemma nul_decimal: "nul \<notin> set (decimal (int n))"
  using decimal_digits [of "int n" nul] by (auto simp: nul_def)

lemma numbered_key_inj:
  assumes "a @ nul # decimal (int m) = b @ nul # decimal (int n)"
  shows "a = b \<and> m = n"
  using split_right [OF nul_decimal nul_decimal assms] decimal_inj [of "int m" "int n"] by simp

lemma transfer_key_inj:
  assumes "nul \<notin> set (rq_Callsign r)" "nul \<notin> set cs"
    "transfer_key r x = cs @ nul # f @ nul # decimal (int m)"
  shows "rq_Callsign r = cs \<and> xf_OwnershipFact x = f \<and> xf_OwnershipRevision x = m"
proof -
  have "rq_Callsign r @ nul # (xf_OwnershipFact x @ nul # decimal (int (xf_OwnershipRevision x))) =
      cs @ nul # (f @ nul # decimal (int m))"
    using assms(3) by (simp add: transfer_key_def)
  from split_left [OF assms(1,2) this] numbered_key_inj show ?thesis by blast
qed

text \<open>Text columns of the database hold no NUL byte; this is needed of the callsigns only.\<close>

definition callsigns_text :: "requests_table \<Rightarrow> bool" where
  "callsigns_text t \<longleftrightarrow> (\<forall>w \<in> set t. nul \<notin> set (rq_Callsign (row_Payload w)))"

fun op_text :: "repo_op \<Rightarrow> bool" where
  "op_text (OpTransfer fct) \<longleftrightarrow> nul \<notin> set (of_Callsign fct)"
| "op_text _ \<longleftrightarrow> True"

section \<open>Revision of each operation\<close>

lemma revision_fresh:
  assumes "well_formed q" "rq_State q = StatePending" "rq_RecipientTransfers q = []"
  shows "coordinationRevision (q # rs) = coordinationRevision rs + 1"
proof -
  have "rq_Decision q = None" "rq_Expiry q = None" "rq_Clearance q = None"
    using assms by (auto simp: well_formed_def Validate_def)
  with assms(3) show ?thesis
    by (simp add: coordinationRevision_def decided_def transfer_keys_def expiry_keys_def clearance_keys_def)
qed

lemma select_distinct_list: "table_ok t \<Longrightarrow> distinct (select_requests t a)"
  using select_distinct by (auto simp: distinct_map)

lemma submit_revision:
  assumes "Repository_Submit t q n = Inr (res, t')" "table_ok t" "op_ok t (OpSubmit q n)"
  shows "coordinationRevision (select_requests t' (rq_Airport q)) = cr_Revision res"
  using assms
proof (cases rule: submit_commit)
  case alone
  have "mset (select_requests t' (rq_Airport q)) = mset (q # select_requests t (rq_Airport q))"
    using alone by (simp add: mset_select_snoc)
  from revision_mset [OF this] show ?thesis using alone(4) assms(3) by (simp add: revision_fresh)
next
  case (superseding c c')
  let ?q = "q\<lparr> rq_Supersedes := Some (rq_ID c) \<rparr>" and ?rs = "select_requests t (rq_Airport q)"
  from assms(2) superseding(2) obtain w where w: "w \<in> set t" "row_Payload w = c" by (rule select_row)
  have "rq_ID q \<noteq> rq_ID c" using superseding(1) w table_okD(1) [OF assms(2) w(1)] by (metis image_eqI)
  then have wf: "well_formed ?q" "rq_State ?q = StatePending" "rq_RecipientTransfers ?q = []"
    using assms(3) by (auto simp: well_formed_def Validate_def)
  have "mset (select_requests t' (rq_Airport q)) = mset (?q # map (swap c c') ?rs)"
    unfolding superseding(6) by (simp add: mset_select_snoc select_put)
  from revision_mset [OF this] revision_fresh [OF wf]
  have "coordinationRevision (select_requests t' (rq_Airport q)) = coordinationRevision (map (swap c c') ?rs) + 1" by simp
  moreover have "rq_Decision c = None" "rq_Decision c' = None" "rq_Callsign c' = rq_Callsign c"
    "rq_RecipientTransfers c' = rq_RecipientTransfers c" "rq_Expiry c' = rq_Expiry c" "rq_Clearance c' = rq_Clearance c"
    using superseding(4) by (auto simp: Supersede_def Validate_def split: if_splits)
  then have "coordinationRevision (map (swap c c') ?rs) = coordinationRevision ?rs"
    using revision_resolve [OF superseding(2) select_distinct_list [OF assms(2)], of c'] by (simp add: swap_def [abs_def])
  ultimately show ?thesis using superseding(7) by simp
qed simp

lemma decide_revision:
  assumes "Repository_Decide t i d n = Inr (res, t')" "table_ok t"
  shows "coordinationRevision (select_requests t' (dc_Airport d)) = cr_Revision res"
  using assms(1)
proof (cases rule: decide_commit)
  case (commit r r')
  have "rq_Decision r = None" "rq_Decision r' \<noteq> None" "rq_Callsign r' = rq_Callsign r"
    "rq_RecipientTransfers r' = rq_RecipientTransfers r" "rq_Expiry r' = rq_Expiry r" "rq_Clearance r' = rq_Clearance r"
    using commit(3) by (auto simp: Decide_def Validate_def split: if_splits)
  then show ?thesis
    using revision_resolve [OF commit(1) select_distinct_list [OF assms(2)], of r'] save_executed [OF assms(2) commit(1,3)] commit(4,5)
    by (simp add: select_put swap_def [abs_def])
qed simp

lemma correlate_revision:
  assumes "CorrelateAccepted t fct = Inr (res, t')" "table_ok t"
  shows "coordinationRevision (select_requests t' (cf_Airport fct)) = cr_Revision res"
  using assms(1)
proof (cases rule: correlate_commit)
  case (commit r r')
  let ?c = "\<lparr> cl_FactID = cf_FactID fct, cl_Kind = cf_Kind fct, cl_Value = cf_Value fct,
     cl_Issuer = cf_Issuer fct, cl_ObservedAt = cf_ObservedAt fct \<rparr>"
  have "rq_Clearance r = None" "r' = r\<lparr> rq_Clearance := Some ?c \<rparr>"
    using commit(3) by (auto simp: Correlate_def split: if_splits)
  moreover have "cl_FactID ?c \<notin> set (concat (map clearance_keys (select_requests t (cf_Airport fct))))"
    using commit(2) by auto
  ultimately show ?thesis
    using revision_clearance [OF commit(1), of ?c] save_executed [OF assms(2) commit(1,3)] commit(4,5)
    by (simp add: select_put swap_def [abs_def])
qed simp

lemma expire_change_fields:
  assumes "expire_change fct r = Inr r'"
  shows "rq_Decision r' = rq_Decision r" "rq_Callsign r' = rq_Callsign r" "rq_Clearance r' = rq_Clearance r"
    "rq_RecipientTransfers r' = rq_RecipientTransfers r" "rq_State r' = StateExpired" "rq_Expiry r = None"
    "expiry_keys r' = [ef_FactID fct @ nul # decimal (int (ef_Revision fct))]"
  using assms by (auto simp: expire_change_def Expire_def Validate_def expiry_keys_def split: if_splits)

lemma expire_revision:
  assumes "ExpirePendingTx t fct = Inr (res, t')" "table_ok t"
  shows "coordinationRevision (select_requests t' (ef_Airport fct)) = tr_Revision res"
  using assms(1)
proof (cases rule: expire_commit)
  case commit
  let ?rs = "select_requests t (ef_Airport fct)" and ?k = "ef_FactID fct @ nul # decimal (int (ef_Revision fct))"
  let ?u = "changed (expire_match fct) (expire_change fct) ?rs"
  note c = update_commit [OF commit(2) refl assms(2) expire_change_execute [of fct]]
  show ?thesis
  proof (cases "\<exists>r \<in> set ?rs. expire_match fct r")
    case False
    then have "map ?u ?rs = ?rs" by (intro map_idI) (auto simp: changed_def)
    with False c(1,3) show ?thesis by (auto simp: select_put)
  next
    case True
    have step: "rq_Decision (?u x) = rq_Decision x \<and> rq_Callsign (?u x) = rq_Callsign x \<and>
        rq_RecipientTransfers (?u x) = rq_RecipientTransfers x \<and> rq_Clearance (?u x) = rq_Clearance x \<and>
        rq_Expiry x = None \<and> expiry_keys (?u x) = [?k] \<and> rq_State (?u x) = StateExpired"
      if "x \<in> set ?rs" "expire_match fct x" for x
      using expire_change_fields [OF c(4) [OF that]] by simp
    have "?k \<notin> set (expiry_keys x)" if x: "x \<in> set ?rs" for x
    proof
      assume "?k \<in> set (expiry_keys x)"
      then obtain y where y: "rq_Expiry x = Some y" "ef_FactID fct @ nul # decimal (int (ef_Revision fct)) =
          ex_FactID y @ nul # decimal (int (ex_FactRevision y))"
        by (cases "rq_Expiry x") (simp_all add: expiry_keys_def)
      from numbered_key_inj [OF y(2)] y(1) have "expiry_matches fct x" by (simp add: expiry_matches_def)
      with commit(1) x show False by simp
    qed
    then have "?k \<notin> set (concat (map expiry_keys ?rs))" by auto
    moreover have "\<exists>x \<in> set ?rs. ?u x \<noteq> x"
    proof -
      from True obtain x where x: "x \<in> set ?rs" "expire_match fct x" by blast
      have "rq_State (?u x) = StateExpired" using step [OF x] by blast
      moreover have "rq_State x = StatePending" using x(2) by (simp add: expire_match_def)
      ultimately show ?thesis using x(1) by (metis State.distinct(7))
    qed
    ultimately have "coordinationRevision (map ?u ?rs) = coordinationRevision ?rs + 1"
      by (intro revision_expiry [where k = ?k]) (use step in \<open>metis changed_def\<close>)
    with True c(1,3) show ?thesis by (auto simp: select_put)
  qed
qed simp

lemma transfer_change_fields:
  assumes "transfer_change fct r = Inr r'"
  shows "rq_Decision r' = rq_Decision r" "rq_Expiry r' = rq_Expiry r" "rq_Clearance r' = rq_Clearance r"
    "set (transfer_keys r') = insert (rq_Callsign r @ nul # of_FactID fct @ nul # decimal (int (of_Revision fct))) (set (transfer_keys r))"
  using assms by (auto simp: transfer_change_def TransferRecipient_def transfer_keys_def transfer_key_def split: if_splits)

lemma transfer_revision:
  assumes "TransferPending t fct = Inr (res, t')" "table_ok t" "callsigns_text t" "nul \<notin> set (of_Callsign fct)"
  shows "coordinationRevision (select_requests t' (of_Airport fct)) = tr_Revision res"
  using assms(1)
proof (cases rule: transfer_commit)
  case commit
  let ?rs = "select_requests t (of_Airport fct)"
  let ?k = "of_Callsign fct @ nul # of_FactID fct @ nul # decimal (int (of_Revision fct))"
  let ?u = "changed (transfer_needed fct) (transfer_change fct) ?rs"
  note c = update_commit [OF commit(2) refl assms(2) transfer_change_execute [of fct]]
  show ?thesis
  proof (cases "\<exists>r \<in> set ?rs. transfer_needed fct r")
    case False
    then have "map ?u ?rs = ?rs" by (intro map_idI) (auto simp: changed_def)
    with False c(1,3) show ?thesis by (auto simp: select_put)
  next
    case True
    have step: "rq_Decision (?u x) = rq_Decision x \<and> rq_Expiry (?u x) = rq_Expiry x \<and>
        rq_Clearance (?u x) = rq_Clearance x \<and> set (transfer_keys (?u x)) = insert ?k (set (transfer_keys x))"
      if "x \<in> set ?rs" "transfer_needed fct x" for x
      using transfer_change_fields [OF c(4) [OF that]] that(2) by (simp add: transfer_needed_def)
    have "?k \<notin> set (transfer_keys x)" if x: "x \<in> set ?rs" for x
    proof
      assume "?k \<in> set (transfer_keys x)"
      then obtain y where y: "y \<in> set (rq_RecipientTransfers x)" "transfer_key x y = ?k" by (auto simp: transfer_keys_def)
      have "nul \<notin> set (rq_Callsign x)" using assms(3) x by (auto simp: callsigns_text_def set_select)
      from transfer_key_inj [OF this assms(4) y(2)] have "rq_Callsign x = of_Callsign fct" "transfer_same fct y"
        by (auto simp: transfer_same_def)
      with y(1) commit(1) x show False by (auto simp: transfer_record_def find_None_iff)
    qed
    then have "?k \<notin> set (concat (map transfer_keys ?rs))" by auto
    moreover have "\<exists>x \<in> set ?rs. ?k \<in> set (transfer_keys (?u x))" using True step by blast
    ultimately have "coordinationRevision (map ?u ?rs) = coordinationRevision ?rs + 1"
      by (intro revision_transfer [where k = ?k]) (use step in \<open>metis changed_def\<close>)
    with True c(1,3) show ?thesis by (auto simp: select_put)
  qed
qed simp

lemma finish_update_revision:
  assumes "finish_update cur (update_matching m ch t rs) = Inr (res, t')"
  shows "t' = t \<or> tr_Revision res = coordinationRevision cur + 1"
proof -
  have "us = [] \<Longrightarrow> t' = t" if "update_matching m ch t rs = Inr (us, t')" for us
    using that by (induction rs) (auto split: if_splits sum.splits)
  with assms show ?thesis by (auto simp: finish_update_def split: sum.splits if_splits)
qed

section \<open>A retried submission\<close>

lemma submit_retry_hit:
  assumes "\<forall>p \<in> set ps. Validate p = Inr () \<and> \<not> decided_by (rq_CommandID q) p" "distinct (map rq_ID ps)" "p0 \<in> set ps"
    "rq_ID p0 = rq_ID q" "rq_Airport p0 = rq_Airport q" "rq_Callsign p0 = rq_Callsign q" "rq_Kind p0 = rq_Kind q"
    "rq_SubmittedBy p0 = rq_SubmittedBy q" "rq_SubmittedRole p0 = rq_SubmittedRole q" "rq_Payload p0 = rq_Payload q"
  shows "submit_retry q cur ps = Some (Inr (duplicate_commit p0 cur))"
  using assms(1-3)
proof (induction ps)
  case (Cons p ps)
  show ?case
  proof (cases "p = p0")
    case True
    with Cons.prems assms show ?thesis by (simp add: decided_by_def)
  next
    case False
    with Cons.prems have "p0 \<in> set ps" by simp
    with Cons.prems(2) assms(4) have "rq_ID p \<noteq> rq_ID q" by (metis distinct.simps(2) image_eqI list.simps(9) set_map)
    with Cons \<open>p0 \<in> set ps\<close> show ?thesis by (simp add: decided_by_def)
  qed
qed simp

lemma submit_stored:
  assumes "Repository_Submit t q n = Inr (res, t')" "table_ok t" "op_ok t (OpSubmit q n)" "\<not> cr_Duplicate res"
  obtains p where "p \<in> set (select_requests t' (rq_Airport q))" "\<exists>s. p = q\<lparr> rq_Supersedes := s \<rparr>"
    "\<forall>x \<in> set (select_requests t' (rq_Airport q)). \<not> decided_by (rq_CommandID q) x"
proof -
  let ?cur = "select_requests t (rq_Airport q)"
  have "rq_Decision q = None" using assms(3) by (auto simp: well_formed_def Validate_def)
  have q0: "\<not> decided_by (rq_CommandID q) (q\<lparr> rq_Supersedes := s \<rparr>)" for s
    using \<open>rq_Decision q = None\<close> by (simp add: decided_by_def)
  from assms(1-3) show ?thesis
  proof (cases rule: submit_commit)
    case retry
    with assms(4) show ?thesis by simp
  next
    case alone
    then have "set (select_requests t' (rq_Airport q)) = insert q (set ?cur)" by (simp add: set_select_snoc)
    with alone(5) q0 [of "rq_Supersedes q"] show ?thesis by (intro that [of q]) (auto intro: exI [of _ "rq_Supersedes q"])
  next
    case (superseding c c')
    have "rq_Decision c' = None" using superseding(4) by (auto simp: Supersede_def Validate_def split: if_splits)
    moreover have "set (select_requests t' (rq_Airport q)) =
        insert (q\<lparr> rq_Supersedes := Some (rq_ID c) \<rparr>) (swap c c' ` set ?cur)"
    proof -
      have "select_requests (map (put (swap c c')) t) (rq_Airport q) = map (swap c c') ?cur" by (rule select_put)
      then have "set (select_requests (map (put (swap c c')) t) (rq_Airport q)) = swap c c' ` set ?cur" by simp
      moreover from set_select_snoc [of _ "q\<lparr> rq_Supersedes := Some (rq_ID c) \<rparr>"]
      have "set (select_requests t' (rq_Airport q)) = insert (q\<lparr> rq_Supersedes := Some (rq_ID c) \<rparr>)
          (set (select_requests (map (put (swap c c')) t) (rq_Airport q)))"
        unfolding superseding(6) by simp
      ultimately show ?thesis by simp
    qed
    ultimately show ?thesis using superseding(8) q0
      by (intro that [of "q\<lparr> rq_Supersedes := Some (rq_ID c) \<rparr>"]) (auto simp: swap_def decided_by_def)
  qed
qed

lemma decide_result:
  assumes "Repository_Decide t i d n = Inr (res, t')" "\<not> cr_Duplicate res"
  shows "\<exists>r' e. cr_Request res = Some r' \<and> t' = save t r' \<and> rq_State r' = dc_AfterState d \<and> rq_Decision r' = Some e \<and>
    dc_Actor e = dc_Actor d \<and> dc_Role e = dc_Role d \<and> dc_AuthoritativeRecipient e = dc_AuthoritativeRecipient d"
proof -
  have dup: "cr_Duplicate x" if "decide_retry i d rs qs = Some (Inr x)" for x rs qs
    using that by (induction qs) (auto simp: duplicate_commit_def split: if_splits option.splits)
  obtain r r' where "Decide r (dc_CommandID d) (dc_Actor d) (dc_Role d) (dc_AuthoritativeRecipient d)
      (dc_AfterState d) (dc_Reason d) (dc_ReceivedAt d) = Inr r'" "t' = save t r'" "cr_Request res = Some r'"
    using assms dup by (auto simp: Repository_Decide_def split: sum.splits option.splits if_splits)
  then show ?thesis by (auto simp: Decide_def split: if_splits)
qed

section \<open>Properties\<close>

definition sample_submit :: "string \<Rightarrow> string \<Rightarrow> duration \<Rightarrow> Request" where
  "sample_submit cid airport d = projr (New cid airport ''SAS1'' ''CTR'' ''fmp'' ''X_FMP'' KindSpeed sample_payload (Time (hour + d) UTC))"

text \<open>
  Optimistic concurrency: every operation that succeeds reports exactly the revision that the
  airport's requests have afterwards, and this is the revision before the operation (nothing was
  changed) or one more. The callsigns must be free of NUL bytes, which separate the parts of a key.
\<close>

theorem revision_counts_commits:
  assumes "execute_op t op = Inr (n, t')" "repo_ok t" "op_ok t op" "callsigns_text t" "op_text op"
  shows "coordinationRevision (select_requests t' (op_airport op)) = n \<and>
    (t' = t \<or> n = coordinationRevision (select_requests t (op_airport op)) + 1)"
proof (cases op)
  case (OpSubmit q m)
  with assms(1) obtain res where r: "Repository_Submit t q m = Inr (res, t')" "n = cr_Revision res"
    by (auto simp: commit_view_def split: sum.splits)
  have ok: "table_ok t" "op_ok t (OpSubmit q m)" using assms(2,3) OpSubmit by (simp_all add: repo_ok_def)
  from r(1) ok have "t' = t \<or> n = coordinationRevision (select_requests t (rq_Airport q)) + 1"
    by (rule submit_commit) (simp_all add: r(2))
  with submit_revision [OF r(1) ok] r(2) OpSubmit show ?thesis by simp
next
  case (OpDecide i d m)
  with assms(1) obtain res where r: "Repository_Decide t i d m = Inr (res, t')" "n = cr_Revision res"
    by (auto simp: commit_view_def split: sum.splits)
  from r(1) have "t' = t \<or> n = coordinationRevision (select_requests t (dc_Airport d)) + 1"
    by (rule decide_commit) (simp_all add: r(2))
  with decide_revision [OF r(1)] r(2) assms(2) OpDecide show ?thesis by (simp add: repo_ok_def)
next
  case (OpCorrelate fct)
  with assms(1) obtain res where r: "CorrelateAccepted t fct = Inr (res, t')" "n = cr_Revision res"
    by (auto simp: commit_view_def split: sum.splits)
  from r(1) have "t' = t \<or> n = coordinationRevision (select_requests t (cf_Airport fct)) + 1"
    by (rule correlate_commit) (simp_all add: r(2))
  with correlate_revision [OF r(1)] r(2) assms(2) OpCorrelate show ?thesis by (simp add: repo_ok_def)
next
  case (OpExpire fct)
  with assms(1) obtain res where r: "ExpirePendingTx t fct = Inr (res, t')" "n = tr_Revision res"
    by (auto simp: transfer_view_def split: sum.splits)
  from r(1) have "t' = t \<or> n = coordinationRevision (select_requests t (ef_Airport fct)) + 1"
    by (rule expire_commit) (use finish_update_revision in \<open>auto simp: r(2)\<close>)
  with expire_revision [OF r(1)] r(2) assms(2) OpExpire show ?thesis by (simp add: repo_ok_def)
next
  case (OpTransfer fct)
  with assms(1) obtain res where r: "TransferPending t fct = Inr (res, t')" "n = tr_Revision res"
    by (auto simp: transfer_view_def split: sum.splits)
  from r(1) have "t' = t \<or> n = coordinationRevision (select_requests t (of_Airport fct)) + 1"
    by (rule transfer_commit) (use finish_update_revision in \<open>auto simp: r(2)\<close>)
  with transfer_revision [OF r(1)] r(2) assms OpTransfer show ?thesis by (simp add: repo_ok_def)
qed

theorem revision_counts_commits_witness:
  "coordinationRevision (select_requests (handle [] (OpSubmit (sample_submit ''a'' ''EK'' 0) 0)) ''EK'') = 1"
proof -
  let ?op = "OpSubmit (sample_submit ''a'' ''EK'' 0) 0"
  have e: "execute_op [] ?op = Inr (1, handle [] ?op)" by code_simp
  have "repo_ok []" "callsigns_text []" "op_text ?op" by (simp_all add: repo_ok_def table_ok_def one_pending_def callsigns_text_def)
  moreover have "op_ok [] ?op"
  proof -
    have "New ''a'' ''EK'' ''SAS1'' ''CTR'' ''fmp'' ''X_FMP'' KindSpeed sample_payload (Time (hour + 0) UTC) = Inr (sample_submit ''a'' ''EK'' 0)"
      by code_simp
    then have "well_formed (sample_submit ''a'' ''EK'' 0)" by (rule New_well_formed)
    moreover have "rq_State (sample_submit ''a'' ''EK'' 0) = StatePending" "rq_Supersedes (sample_submit ''a'' ''EK'' 0) = None"
      "rq_RecipientTransfers (sample_submit ''a'' ''EK'' 0) = []" by code_simp+
    ultimately show ?thesis by simp
  qed
  moreover have "op_airport ?op = ''EK''" by code_simp
  ultimately show ?thesis using revision_counts_commits [OF e] by simp
qed

text \<open>
  C12. At most one pending request: whatever submissions of made requests, decisions, clearances,
  expiries and ownership changes are applied to a consistent table, in any order and whether they
  succeed or fail, each flight has at most one pending request of a kind at an airport, and the table
  stays consistent, provided no identifier is used at two airports. The repository does not check the
  proviso, and it is needed: C15 shows what a submission that breaks it does.
\<close>

theorem at_most_one_pending:
  assumes "repo_ok t" "\<forall>q n. OpSubmit q n \<in> set ops \<longrightarrow> made_by_New q" "one_airport_per_id t ops"
  shows "table_ok (foldl handle t ops) \<and> one_pending (foldl handle t ops)"
proof -
  from assms obtain home where h: "housed home t"
    "runs (repo_step home) t (steps_among handles handle t ops) (foldl handle t ops)"
    by (rule one_airport_runs)
  have "housed home (foldl handle t ops)" by (rule repo.runs_inv [OF h(2,1)])
  then show ?thesis by (simp add: housed_def repo_ok_def)
qed

lemma sample_submit_New:
  assumes "New cid airport ''SAS1'' ''CTR'' ''fmp'' ''X_FMP'' KindSpeed sample_payload (Time (hour + d) UTC) = Inr (sample_submit cid airport d)"
  shows "made_by_New (sample_submit cid airport d)"
  unfolding made_by_New_def using assms by blast

theorem at_most_one_pending_witness:
  "let t = foldl handle [] [OpSubmit (sample_submit ''a'' ''EK'' 0) 0, OpSubmit (sample_submit ''b'' ''EK'' minute) 1] in
   one_pending t \<and> map (rq_State \<circ> row_Payload) t = [StateSuperseded, StatePending]"
proof -
  let ?p = "sample_submit ''a'' ''EK'' 0" and ?q = "sample_submit ''b'' ''EK'' minute"
  let ?ops = "[OpSubmit ?p 0, OpSubmit ?q 1]"
  have "repo_ok []" by (simp add: repo_ok_def table_ok_def one_pending_def)
  moreover have "made_by_New ?p" "made_by_New ?q" by (rule sample_submit_New; code_simp)+
  then have "\<forall>q n. OpSubmit q n \<in> set ?ops \<longrightarrow> made_by_New q" by auto
  moreover have "rq_Airport ?p = ''EK''" "rq_Airport ?q = ''EK''" by code_simp+
  then have "one_airport_per_id [] ?ops" unfolding one_airport_per_id_def by (intro exI [of _ "\<lambda>_. ''EK''"]) auto
  ultimately have "one_pending (foldl handle [] ?ops)" using at_most_one_pending by blast
  moreover have "map (rq_State \<circ> row_Payload) (foldl handle [] ?ops) = [StateSuperseded, StatePending]" by code_simp
  ultimately show ?thesis by (simp only: Let_def)
qed

text \<open>
  Resolutions survive: a request that is resolved in the table stays there through all further
  operations with the same state and audits (an accepted one may gain its clearance), under the same
  conditions.
\<close>

theorem resolved_requests_survive:
  assumes "repo_ok t" "\<forall>q n. OpSubmit q n \<in> set ops \<longrightarrow> made_by_New q" "one_airport_per_id t ops"
    "w \<in> set t" "rq_State (row_Payload w) \<noteq> StatePending"
  shows "settled_in (row_Payload w) (foldl handle t ops)"
proof -
  from assms(1-3) obtain home where h: "housed home t"
    "runs (repo_step home) t (steps_among handles handle t ops) (foldl handle t ops)"
    by (rule one_airport_runs)
  have "settled_in (row_Payload w) t" using assms(4,5) by (auto simp: settled_in_def settled_def)
  with repo_settled.runs_inv [OF h(2)] h(1) show ?thesis by blast
qed

theorem resolved_requests_survive_witness:
  "settled_in sample_resolved (foldl handle [row_of sample_resolved] [OpSubmit (sample_submit ''b'' ''EK'' 0) 2])"
proof -
  let ?q = "sample_submit ''b'' ''EK'' 0"
  have r: "rq_State sample_resolved \<noteq> StatePending" by code_simp
  have "well_formed sample_resolved"
  proof -
    have "well_formed (projr sample_request)" using sample_request_ok by (metis New_well_formed sample_request_def)
    then show ?thesis unfolding sample_resolved_def by (rule request_wf.runs_inv [OF perform_runs])
  qed
  then have ok: "repo_ok [row_of sample_resolved]" by (simp add: repo_ok_def table_ok_def one_pending_def)
  have "made_by_New ?q" by (rule sample_submit_New) code_simp
  then have m: "\<forall>q n. OpSubmit q n \<in> set [OpSubmit ?q 2] \<longrightarrow> made_by_New q" by auto
  have "rq_Airport sample_resolved = ''EKCH''" by code_simp
  moreover have "rq_Airport ?q = ''EK''" "rq_ID ?q = ''coordination-request/b''" "rq_ID sample_resolved \<noteq> ''coordination-request/b''"
    by code_simp+
  ultimately have "\<exists>home. rq_Airport sample_resolved = home (rq_ID sample_resolved) \<and> rq_Airport ?q = home (rq_ID ?q)"
    by (intro exI [of _ "\<lambda>i. if i = ''coordination-request/b'' then ''EK'' else ''EKCH''"]) simp
  then have "one_airport_per_id [row_of sample_resolved] [OpSubmit ?q 2]" by (auto simp: one_airport_per_id_def)
  with resolved_requests_survive [OF ok m] r show ?thesis by simp
qed

text \<open>
Submissions are idempotent: a submission that was committed, submitted again with any expected
  revision, is answered as a duplicate with the stored request and leaves the table alone.
\<close>

theorem submit_retry_is_duplicate:
  assumes "Repository_Submit t q n = Inr (res, t')" "repo_ok t" "op_ok t (OpSubmit q n)" "\<not> cr_Duplicate res"
  shows "\<exists>p. Repository_Submit t' q m = Inr (\<lparr> cr_Request = Some p, cr_SupersededRequest = None,
      cr_Revision = cr_Revision res, cr_Duplicate = True \<rparr>, t') \<and> rq_ID p = rq_ID q"
proof -
  let ?cur = "select_requests t' (rq_Airport q)"
  have ok: "table_ok t" using assms(2) by (simp add: repo_ok_def)
  have e: "execute_op t (OpSubmit q n) = Inr (cr_Revision res, t')" using assms(1) by (simp add: commit_view_def)
  have "table_step (\<lambda>_. rq_Airport q) t t'"
    by (rule execute_op_step [OF e ok _ assms(3)]) (use assms(2) in \<open>simp_all add: repo_ok_def\<close>)
  then have ok': "table_ok t'" using repo_ok_step [OF assms(2)] by (simp add: repo_ok_def)
  obtain p s where p: "p \<in> set ?cur" "p = q\<lparr> rq_Supersedes := s \<rparr>"
    "\<forall>x \<in> set ?cur. \<not> decided_by (rq_CommandID q) x"
    using submit_stored [OF assms(1) ok assms(3,4)] by metis
  have "\<forall>x \<in> set ?cur. Validate x = Inr ()" using ok' by (auto simp: set_select well_formed_def dest: table_okD(4))
  then have "submit_retry q ?cur ?cur = Some (Inr (duplicate_commit p ?cur))"
    using p by (intro submit_retry_hit select_distinct [OF ok']) simp_all
  moreover have "Validate q = Inr ()" using assms(3) by (simp add: well_formed_def)
  ultimately show ?thesis
    using submit_revision [OF assms(1) ok assms(3)] p(2)
    by (simp add: Repository_Submit_def duplicate_commit_def)
qed

lemma sample_submit_ok:
  assumes "New cid airport ''SAS1'' ''CTR'' ''fmp'' ''X_FMP'' KindSpeed sample_payload (Time (hour + d) UTC) = Inr (sample_submit cid airport d)"
  shows "op_ok [] (OpSubmit (sample_submit cid airport d) n)"
  using New_well_formed [OF assms] assms by (auto simp: New_def)

theorem submit_retry_is_duplicate_witness:
  "\<exists>t p. Repository_Submit t (sample_submit ''a'' ''EK'' 0) 7 = Inr (\<lparr> cr_Request = Some p, cr_SupersededRequest = None,
     cr_Revision = 1, cr_Duplicate = True \<rparr>, t)"
proof -
  let ?q = "sample_submit ''a'' ''EK'' 0"
  let ?R = "Repository_Submit [] ?q 0"
  have R: "?R = Inr (fst (projr ?R), snd (projr ?R))" "\<not> cr_Duplicate (fst (projr ?R))" "cr_Revision (fst (projr ?R)) = 1"
    by code_simp+
  have "op_ok [] (OpSubmit ?q 0)" by (rule sample_submit_ok) code_simp
  moreover have "repo_ok []" by (simp add: repo_ok_def table_ok_def one_pending_def)
  ultimately show ?thesis using submit_retry_is_duplicate [OF R(1) _ _ R(2), of 7] R(3) by metis
qed

text \<open>
  C15. Defect: a submission whose command identifier is already in use at another airport of the same
  session overwrites the other airport's request. The upsert behind \<^verbatim>\<open>save\<close> matches on the request
  identifier alone, without the guard on the airport that \<^verbatim>\<open>Save\<close> has.
\<close>

theorem submit_overwrites_other_airport:
  "\<exists>t q res t'. repo_ok t \<and> Repository_Submit t q 0 = Inr (res, t') \<and> rq_Airport q = ''ES'' \<and>
     map rq_Airport (select_requests t ''EK'') = [''EK''] \<and>
     map rq_Airport (select_requests t' ''EK'') = [''ES''] \<and> select_requests t' ''ES'' = []"
proof -
  let ?p = "sample_submit ''a'' ''EK'' 0" and ?q = "sample_submit ''a'' ''ES'' minute"
  let ?t = "[row_of ?p]"
  let ?R = "Repository_Submit ?t ?q 0"
  have "New ''a'' ''EK'' ''SAS1'' ''CTR'' ''fmp'' ''X_FMP'' KindSpeed sample_payload (Time (hour + 0) UTC) = Inr ?p" by code_simp
  then have "well_formed ?p" by (rule New_well_formed)
  then have "repo_ok ?t" by (simp add: repo_ok_def table_ok_def one_pending_def)
  moreover have "?R = Inr (fst (projr ?R), snd (projr ?R))" by code_simp
  moreover have "rq_Airport ?q = ''ES''" "map rq_Airport (select_requests ?t ''EK'') = [''EK'']" by code_simp+
  moreover have "map rq_Airport (select_requests (snd (projr ?R)) ''EK'') = [''ES'']"
    "select_requests (snd (projr ?R)) ''ES'' = []" by code_simp+
  ultimately show ?thesis
    by (intro exI [of _ ?t] exI [of _ ?q] exI [of _ "fst (projr ?R)"] exI [of _ "snd (projr ?R)"] conjI)
qed

text \<open>
  Projection: an audience receives exactly the requests that its FMP position submitted and the
  pending ones assigned to it as a controller, each once, ordered by creation time and identifier.
\<close>

theorem projection_exact:
  assumes "Project rs au = Inr ps"
  shows "sorted (map (\<lambda>r. (ns (rq_CreatedAt r), rq_ID r)) ps) \<and>
    mset ps = mset (filter (visible_to au) (map (\<lambda>r. r\<lparr> rq_RecipientStatus := effectiveRecipientStatus r \<rparr>) rs)) \<and>
    (\<not> IsFMPRole (au_Role au) \<longrightarrow> (\<forall>r \<in> set ps. rq_State r = StatePending \<and>
       rq_RecipientController r = au_Controller au \<and> rq_RecipientStatus r \<noteq> RecipientUnassigned))"
proof -
  let ?fs = "filter (visible_to au) (map (\<lambda>r. r\<lparr> rq_RecipientStatus := effectiveRecipientStatus r \<rparr>) rs)"
  from assms have ps: "ps = go_sort created_less ?fs" by (simp add: Project_def)
  have "key_first (\<lambda>r. (ns (rq_CreatedAt r), rq_ID r)) created_less"
    by (auto simp: key_first_def created_less_def go_time less_prod_def' less_eq_prod_def)
  with ps have "sorted (map (\<lambda>r. (ns (rq_CreatedAt r), rq_ID r)) ps)" by (simp add: sorted_go_sort_key)
  moreover from ps have m: "mset ps = mset ?fs" by (simp only: mset_go_sort)
  moreover from m have "set ps = set ?fs" by (rule mset_eq_setD)
  ultimately show ?thesis by (auto simp: visible_to_def)
qed

theorem projection_exact_witness:
  "\<exists>ps. Project [sample_resolved] \<lparr> au_Controller = ''EKDK_CTR'', au_Role = ''EKDK_CTR'' \<rparr> = Inr ps \<and>
     (\<forall>r \<in> set ps. rq_State r = StatePending)"
proof -
  let ?au = "\<lparr> au_Controller = ''EKDK_CTR'', au_Role = ''EKDK_CTR'' \<rparr>"
  let ?P = "Project [sample_resolved] ?au"
  have p: "?P = Inr (projr ?P)" "\<not> IsFMPRole (au_Role ?au)" by code_simp+
  from projection_exact [OF p(1)] p(2) have "\<forall>r \<in> set (projr ?P). rq_State r = StatePending" by simp
  with p(1) show ?thesis by blast
qed

text \<open>
  C17. Authorisation: a decision that the service commits was given by the role that is at that moment
  the tracking controller of the flight and the recipient of the request, and the decision audit
  records it. The resolver of the tracking controller is arbitrary.
\<close>

theorem service_decision_authorized:
  assumes "Service_decide owners t auth cmd state = Inr (res, t')" "\<not> cr_Duplicate res"
  shows "\<exists>r r' d. Get t (cc_Airport auth) (dcm_RequestID cmd) = Inr r \<and>
    owners (cc_Airport auth) (rq_Callsign r) = Inr (cc_Role auth) \<and> rq_RecipientController r = cc_Role auth \<and>
    cr_Request res = Some r' \<and> t' = save t r' \<and> rq_State r' = state \<and> rq_Decision r' = Some d \<and>
    dc_Actor d = cc_Actor auth \<and> dc_Role d = cc_Role auth \<and> dc_AuthoritativeRecipient d = cc_Role auth"
proof -
  from assms(1) obtain r where r: "Get t (cc_Airport auth) (dcm_RequestID cmd) = Inr r"
    "owners (cc_Airport auth) (rq_Callsign r) = Inr (cc_Role auth)" "rq_RecipientController r = cc_Role auth"
    "Repository_Decide t (rq_ID r)
       \<lparr> dc_CommandID = dcm_CommandID cmd, dc_Airport = cc_Airport auth, dc_Actor = cc_Actor auth,
         dc_Role = cc_Role auth, dc_AuthoritativeRecipient = cc_Role auth, dc_RequestID = rq_ID r,
         dc_RequestKind = rq_Kind r, dc_BeforeState = StatePending, dc_AfterState = state,
         dc_Reason = dcm_Reason cmd, dc_ReceivedAt = cc_ReceivedAt auth \<rparr> (dcm_ExpectedRevision cmd) = Inr (res, t')"
    by (auto simp: Service_decide_def split: sum.splits if_splits)
  from decide_result [OF r(4) assms(2)] r show ?thesis by auto
qed

theorem service_decision_authorized_witness:
  "\<exists>res t'. Service_decide (\<lambda>_ _. Inr ''CTR'') [row_of (sample_submit ''a'' ''EK'' 0)]
       \<lparr> cc_Airport = ''EK'', cc_Actor = ''me'', cc_Role = ''CTR'', cc_ReceivedAt = Time (2 * hour) UTC \<rparr>
       \<lparr> dcm_CommandID = ''b'', dcm_ExpectedRevision = 1, dcm_RequestID = ''coordination-request/a'', dcm_Reason = '''' \<rparr>
       StateAccepted = Inr (res, t') \<and> map_option rq_State (cr_Request res) = Some StateAccepted"
proof -
  let ?S = "Service_decide (\<lambda>_ _. Inr ''CTR'') [row_of (sample_submit ''a'' ''EK'' 0)]
       \<lparr> cc_Airport = ''EK'', cc_Actor = ''me'', cc_Role = ''CTR'', cc_ReceivedAt = Time (2 * hour) UTC \<rparr>
       \<lparr> dcm_CommandID = ''b'', dcm_ExpectedRevision = 1, dcm_RequestID = ''coordination-request/a'', dcm_Reason = '''' \<rparr>
       StateAccepted"
  have S: "?S = Inr (fst (projr ?S), snd (projr ?S))" "\<not> cr_Duplicate (fst (projr ?S))" by code_simp+
  from service_decision_authorized [OF S] have "map_option rq_State (cr_Request (fst (projr ?S))) = Some StateAccepted" by auto
  with S(1) show ?thesis by blast
qed

end
