(* ===== verification/Strip_Ordering.thy ===== *)
theory Strip_Ordering
  imports Go_Base "HOL-Library.Word" "HOL-Library.Product_Lexorder"
begin

text \<open>
  The order of the strips in a bay: \<^verbatim>\<open>internal/services/strip_ordering.go\<close> with the queries it runs
  (\<^verbatim>\<open>internal/database/strips.sql.go\<close>, \<^verbatim>\<open>tactical_strips.sql.go\<close>) and the append and board reordering of
  \<^verbatim>\<open>internal/repository/postgres\<close>. The two tables of one session are lists of rows with the columns
  the queries read; a nullable sequence is an option. Sequences are \<^verbatim>\<open>int32\<close>: a 32-bit word compared
  as a signed number, with wrap-around addition.

  A move returns the new tables, the events and calls it makes in their order, and its error if it
  fails; a failure after a write leaves the write, as in the code. What the calls into the CDM
  service, the landing-clearance validation and the board workflow answer is an argument. The
  database is taken to be reachable and the tactical strip repository to be configured.
\<close>

section \<open>Sequences and tables\<close>

type_synonym int32 = "32 word"

definition InitialOrderSpacing :: int32 where "InitialOrderSpacing = 1000"
definition MinOrderGap :: int32 where "MinOrderGap = 5"

record flight_row =
  fl_ID :: int
  fl_Callsign :: string
  fl_Bay :: string
  fl_Sequence :: "int32 option"
  fl_Version :: int32
  fl_RunwayCleared :: bool
  fl_RunwayConfirmed :: bool
  fl_HasBoardState :: bool

record tactical_row =
  ta_ID :: int
  ta_Bay :: string
  ta_Sequence :: int32

record strip_store =
  st_flights :: "flight_row list"
  st_tacticals :: "tactical_row list"

record StripRef =
  ref_Kind :: string
  ref_Callsign :: "string option"
  ref_ID :: "int option"

datatype order_error = ErrNoRows | ErrRef string | ErrStale string

section \<open>Queries\<close>

definition bay_sequences :: "strip_store \<Rightarrow> string \<Rightarrow> int32 list" where
  "bay_sequences st bay =
     List.map_filter fl_Sequence (filter (\<lambda>r. fl_Bay r = bay) (st_flights st)) @
     map ta_Sequence (filter (\<lambda>r. ta_Bay r = bay) (st_tacticals st))"

definition smax :: "int32 \<Rightarrow> int32 \<Rightarrow> int32" where "smax a b = (if sint a < sint b then b else a)"
definition smin :: "int32 \<Rightarrow> int32 \<Rightarrow> int32" where "smin a b = (if sint b < sint a then b else a)"

fun sfold :: "(int32 \<Rightarrow> int32 \<Rightarrow> int32) \<Rightarrow> int32 list \<Rightarrow> int32 option" where
  "sfold f [] = None"
| "sfold f (x # xs) = (case sfold f xs of None \<Rightarrow> Some x | Some y \<Rightarrow> Some (f x y))"

definition GetMaxSequenceInBayUnified :: "strip_store \<Rightarrow> string \<Rightarrow> int32" where
  "GetMaxSequenceInBayUnified st bay = (case sfold smax (bay_sequences st bay) of None \<Rightarrow> 0 | Some m \<Rightarrow> m)"

definition GetNextSequenceUnified :: "strip_store \<Rightarrow> string \<Rightarrow> int32 \<Rightarrow> int32 option" where
  "GetNextSequenceUnified st bay prev = sfold smin (filter (\<lambda>s. sint prev < sint s) (bay_sequences st bay))"

definition GetSequence :: "strip_store \<Rightarrow> string \<Rightarrow> string \<Rightarrow> order_error + int32" where
  "GetSequence st callsign bay =
     (case find (\<lambda>r. fl_Callsign r = callsign \<and> fl_Bay r = bay) (st_flights st) of
        None \<Rightarrow> Inl ErrNoRows
      | Some r \<Rightarrow> (case fl_Sequence r of None \<Rightarrow> Inl ErrNoRows | Some s \<Rightarrow> Inr s))"

definition GetSequenceByID :: "strip_store \<Rightarrow> int \<Rightarrow> order_error + int32" where
  "GetSequenceByID st i =
     (case find (\<lambda>r. ta_ID r = i) (st_tacticals st) of None \<Rightarrow> Inl ErrNoRows | Some r \<Rightarrow> Inr (ta_Sequence r))"

definition UpdateBayAndSequence :: "strip_store \<Rightarrow> string \<Rightarrow> string \<Rightarrow> int32 \<Rightarrow> strip_store" where
  "UpdateBayAndSequence st callsign bay s =
     st\<lparr> st_flights := map (\<lambda>r. if fl_Callsign r = callsign then r\<lparr> fl_Bay := bay, fl_Sequence := Some s, fl_Version := fl_Version r + 1 \<rparr> else r)
        (st_flights st) \<rparr>"

definition UpdateTacticalBayAndSequence :: "strip_store \<Rightarrow> int \<Rightarrow> string \<Rightarrow> int32 \<Rightarrow> strip_store" where
  "UpdateTacticalBayAndSequence st i bay s =
     st\<lparr> st_tacticals := map (\<lambda>r. if ta_ID r = i then r\<lparr> ta_Bay := bay, ta_Sequence := s \<rparr> else r) (st_tacticals st) \<rparr>"

section \<open>Ordering operations\<close>

text \<open>The new order and whether all orders of the bay have to be recalculated.\<close>

definition calculateOrderBetween :: "int32 \<Rightarrow> int32 option \<Rightarrow> int32 \<times> bool" where
  "calculateOrderBetween prevOrder nextOrder =
     (case nextOrder of
        None \<Rightarrow> (prevOrder + InitialOrderSpacing, False)
      | Some nxt \<Rightarrow>
          (let gap = nxt - prevOrder in
           if sint gap \<le> sint MinOrderGap then (0, True)
           else (prevOrder + word_of_int (go_quot (sint gap) 2), False)))"

definition needsRecalculation :: "int32 \<Rightarrow> int32 \<Rightarrow> bool" where
  "needsRecalculation prevOrder nextOrder \<longleftrightarrow> sint (nextOrder - prevOrder) \<le> sint MinOrderGap"

definition resolveRefSequence :: "strip_store \<Rightarrow> string \<Rightarrow> StripRef option \<Rightarrow> order_error + int32" where
  "resolveRefSequence st bay ref =
     (case ref of None \<Rightarrow> Inr 0
      | Some r \<Rightarrow>
          (if ref_Kind r = ''flight'' then
             (case ref_Callsign r of None \<Rightarrow> Inl (ErrRef ''flight strip ref missing callsign'')
              | Some c \<Rightarrow> GetSequence st c bay)
           else if ref_Kind r = ''tactical'' then
             (case ref_ID r of None \<Rightarrow> Inl (ErrRef ''tactical strip ref missing id'')
              | Some i \<Rightarrow> GetSequenceByID st i)
           else Inl (ErrRef (''unknown strip ref kind: '' @ ref_Kind r))))"

datatype entry = EFlight string int32 | ETactical int int32

fun entry_sequence :: "entry \<Rightarrow> int32" where
  "entry_sequence (EFlight _ s) = s"
| "entry_sequence (ETactical _ s) = s"

definition flight_entries :: "strip_store \<Rightarrow> string \<Rightarrow> entry list" where
  "flight_entries st bay =
     map (\<lambda>(s, c). EFlight c s)
       (sort_key (\<lambda>(s, c). (sint s, c))
          (List.map_filter (\<lambda>r. map_option (\<lambda>s. (s, fl_Callsign r)) (fl_Sequence r))
             (filter (\<lambda>r. fl_Bay r = bay) (st_flights st))))"

definition tactical_entries :: "strip_store \<Rightarrow> string \<Rightarrow> entry list" where
  "tactical_entries st bay =
     map (\<lambda>r. ETactical (ta_ID r) (ta_Sequence r))
       (sort_key (\<lambda>r. (sint (ta_Sequence r), ta_ID r)) (filter (\<lambda>r. ta_Bay r = bay) (st_tacticals st)))"

definition bay_entries :: "strip_store \<Rightarrow> string \<Rightarrow> entry list" where
  "bay_entries st bay =
     go_sort (\<lambda>a b. sint (entry_sequence a) < sint (entry_sequence b)) (flight_entries st bay @ tactical_entries st bay)"

definition new_sequence :: "nat \<Rightarrow> int32" where
  "new_sequence i = word_of_int ((int i + 1) * 1000)"

fun renumber :: "nat \<Rightarrow> entry list \<Rightarrow> (string \<times> int32) list \<times> (int \<times> int32) list" where
  "renumber i [] = ([], [])"
| "renumber i (EFlight c s # es) = (case renumber (Suc i) es of (f, t) \<Rightarrow> ((c, new_sequence i) # f, t))"
| "renumber i (ETactical k s # es) = (case renumber (Suc i) es of (f, t) \<Rightarrow> (f, (k, new_sequence i) # t))"

definition write_sequences :: "strip_store \<Rightarrow> (string \<times> int32) list \<times> (int \<times> int32) list \<Rightarrow> strip_store" where
  "write_sequences st u =
     \<lparr> st_flights = map (\<lambda>r. case map_of (fst u) (fl_Callsign r) of None \<Rightarrow> r | Some s \<Rightarrow> r\<lparr> fl_Sequence := Some s, fl_Version := fl_Version r + 1 \<rparr>) (st_flights st),
       st_tacticals = map (\<lambda>r. case map_of (snd u) (ta_ID r) of None \<Rightarrow> r | Some s \<Rightarrow> r\<lparr> ta_Sequence := s \<rparr>) (st_tacticals st) \<rparr>"

definition recalculateAllStripSequences :: "strip_store \<Rightarrow> string \<Rightarrow> strip_store" where
  "recalculateAllStripSequences st bay = write_sequences st (renumber 0 (bay_entries st bay))"

section \<open>Moves\<close>

datatype move_effect =
    SendBayEvent string string int32
  | SendBulkBayEvent string "(string \<times> int32) list"
  | SendTacticalStripMoved int string int32
  | AcknowledgeDeicePlatform string
  | PublishStripUpdate string
  | ReevaluateLandingClearance

type_synonym move_outcome = "strip_store \<times> move_effect list \<times> order_error option"

record move_env =
  env_acknowledge :: "string \<Rightarrow> order_error option"
  env_landing :: "order_error option"
  env_reorderBoardStrip :: "strip_store \<Rightarrow> string \<Rightarrow> StripRef option \<Rightarrow> string \<Rightarrow> move_outcome"

definition recalculation_events :: "strip_store \<Rightarrow> string \<Rightarrow> move_effect list" where
  "recalculation_events st bay =
     (case renumber 0 (bay_entries st bay) of (f, t) \<Rightarrow>
        map (\<lambda>(i, s). SendTacticalStripMoved i bay s) t @ (if f = [] then [] else [SendBulkBayEvent bay f]))"

definition acknowledgeDeicePlatformInBay :: "move_env \<Rightarrow> string \<Rightarrow> string \<Rightarrow> move_effect list \<times> order_error option" where
  "acknowledgeDeicePlatformInBay env callsign bay =
     (if bay \<noteq> ''TAXI_TWR'' then ([], None) else ([AcknowledgeDeicePlatform callsign], env_acknowledge env callsign))"

definition SetRwyArrRunwayStatusOnEntry :: "strip_store \<Rightarrow> string \<Rightarrow> strip_store \<times> nat" where
  "SetRwyArrRunwayStatusOnEntry st callsign =
     (let arriving = (\<lambda>r. fl_Callsign r = callsign \<and> fl_Bay r = ''RWY_ARR'');
          others = list_ex (\<lambda>r. fl_Callsign r \<noteq> callsign \<and> fl_Bay r = ''RWY_ARR'') (st_flights st);
          tactical = list_ex (\<lambda>r. ta_Bay r = ''RWY_ARR'') (st_tacticals st) in
      (st\<lparr> st_flights := map (\<lambda>r. if arriving r then r\<lparr> fl_RunwayCleared := True,
           fl_RunwayConfirmed := \<not> others \<and> \<not> tactical, fl_Version := fl_Version r + 1 \<rparr> else r) (st_flights st) \<rparr>,
       length (filter arriving (st_flights st))))"

definition ResetRunwayClearance :: "strip_store \<Rightarrow> string \<Rightarrow> strip_store \<times> nat" where
  "ResetRunwayClearance st callsign =
     (st\<lparr> st_flights := map (\<lambda>r. if fl_Callsign r = callsign then r\<lparr> fl_RunwayCleared := False,
          fl_RunwayConfirmed := False, fl_Version := fl_Version r + 1 \<rparr> else r) (st_flights st) \<rparr>,
      length (filter (\<lambda>r. fl_Callsign r = callsign) (st_flights st)))"

definition updateRwyArrClearanceOnMove :: "strip_store \<Rightarrow> string \<Rightarrow> string \<Rightarrow> string \<Rightarrow> bool \<Rightarrow> strip_store \<times> bool" where
  "updateRwyArrClearanceOnMove st callsign previousBay targetBay wasRunwayCleared =
     (if previousBay = targetBay \<or> previousBay = '''' then (st, False)
      else if targetBay = ''RWY_ARR'' then
        (case SetRwyArrRunwayStatusOnEntry st callsign of (st', affected) \<Rightarrow> (st', affected = 1))
      else if previousBay = ''RWY_ARR'' \<and> wasRunwayCleared then
        (case ResetRunwayClearance st callsign of (st', affected) \<Rightarrow> (st', affected = 1))
      else (st, False))"

definition landingClearanceValidationRelevantBay :: "string \<Rightarrow> bool" where
  "landingClearanceValidationRelevantBay bay \<longleftrightarrow> bay \<in> {''FINAL'', ''RWY_ARR'', ''TWY_ARR''}"

definition MoveStripBetween :: "move_env \<Rightarrow> strip_store \<Rightarrow> string \<Rightarrow> StripRef option \<Rightarrow> string \<Rightarrow> move_outcome" where
  "MoveStripBetween env st callsign insertAfter bay =
     (let strip = find (\<lambda>r. fl_Callsign r = callsign) (st_flights st);
          previousBay = (case strip of None \<Rightarrow> '''' | Some r \<Rightarrow> fl_Bay r);
          wasRunwayCleared = (case strip of None \<Rightarrow> False | Some r \<Rightarrow> fl_RunwayCleared r) in
      if (case strip of None \<Rightarrow> False | Some r \<Rightarrow> fl_HasBoardState r) then
        env_reorderBoardStrip env st callsign insertAfter bay
      else case resolveRefSequence st bay insertAfter of
        Inl e \<Rightarrow> (st, [], Some e)
      | Inr prev \<Rightarrow>
          (let order = calculateOrderBetween prev (GetNextSequenceUnified st bay prev);
               needsRecalc = snd order;
               st1 = UpdateBayAndSequence st callsign bay (fst order);
               sent = (if needsRecalc then [] else [SendBayEvent callsign bay (fst order)]);
               ack = acknowledgeDeicePlatformInBay env callsign bay in
           if snd ack \<noteq> None then (st1, sent @ fst ack, snd ack)
           else
             (let st2 = (if needsRecalc then recalculateAllStripSequences st1 bay else st1);
                  bulk = (if needsRecalc then recalculation_events st1 bay else []);
                  rwy = updateRwyArrClearanceOnMove st2 callsign previousBay bay wasRunwayCleared;
                  published = (if snd rwy then [PublishStripUpdate callsign] else []);
                  effects = sent @ fst ack @ bulk @ published in
              if landingClearanceValidationRelevantBay bay
              then (fst rwy, effects @ [ReevaluateLandingClearance], env_landing env)
              else (fst rwy, effects, None))))"

definition MoveTacticalStripBetween :: "strip_store \<Rightarrow> int \<Rightarrow> StripRef option \<Rightarrow> string \<Rightarrow> move_outcome" where
  "MoveTacticalStripBetween st i insertAfter bay =
     (case resolveRefSequence st bay insertAfter of
        Inl e \<Rightarrow> (st, [], Some e)
      | Inr prev \<Rightarrow>
          (case calculateOrderBetween prev (GetNextSequenceUnified st bay prev) of
             (newOrder, needsRecalc) \<Rightarrow>
               (if list_ex (\<lambda>r. ta_ID r = i) (st_tacticals st) then
                  (let st' = UpdateTacticalBayAndSequence st i bay newOrder in
                   if needsRecalc then (recalculateAllStripSequences st' bay, recalculation_events st' bay, None)
                   else (st', [SendTacticalStripMoved i bay newOrder], None))
                else (st, [], Some ErrNoRows))))"

definition AppendToBay :: "strip_store \<Rightarrow> string \<Rightarrow> string \<Rightarrow> int32 \<Rightarrow> order_error + int32 \<times> strip_store" where
  "AppendToBay st callsign bay spacing =
     (let s = GetMaxSequenceInBayUnified st bay + spacing in
      if length (filter (\<lambda>r. fl_Callsign r = callsign) (st_flights st)) \<noteq> 1 then Inl ErrNoRows
      else Inr (s, UpdateBayAndSequence st callsign bay s))"

definition nextSequenceAtEndOfBay :: "strip_store \<Rightarrow> string \<Rightarrow> int32" where
  "nextSequenceAtEndOfBay st bay = fst (calculateOrderBetween (GetMaxSequenceInBayUnified st bay) None)"

section \<open>Reordering a board strip\<close>

text \<open>
  \<^verbatim>\<open>ORDER BY sequence, id\<close> puts rows without a sequence last. The scan skips the moved strip and
  remembers the position after the last row with the predecessor's callsign.
\<close>

definition board_rows :: "strip_store \<Rightarrow> string \<Rightarrow> (int \<times> string) list" where
  "board_rows st bay =
     map (\<lambda>r. (fl_ID r, fl_Callsign r))
       (sort_key (\<lambda>r. (case fl_Sequence r of None \<Rightarrow> (1 :: int, 0) | Some s \<Rightarrow> (0, sint s), fl_ID r))
          (filter (\<lambda>r. fl_Bay r = bay) (st_flights st)))"

fun reorder_scan :: "int \<Rightarrow> string option \<Rightarrow> (int \<times> string) list \<Rightarrow> (int \<times> string) list \<Rightarrow> nat \<Rightarrow> bool
    \<Rightarrow> (int \<times> string) list \<times> nat \<times> bool" where
  "reorder_scan i prd [] acc idx fnd = (acc, idx, fnd)"
| "reorder_scan i prd (e # es) acc idx fnd =
     (if fst e = i then reorder_scan i prd es acc idx fnd
      else (let acc' = acc @ [e] in
        if prd = Some (snd e) then reorder_scan i prd es acc' (length acc') True
        else reorder_scan i prd es acc' idx fnd))"

definition UpdateSequenceIfDistinct :: "strip_store \<Rightarrow> int \<times> int32 \<Rightarrow> strip_store" where
  "UpdateSequenceIfDistinct st u =
     st\<lparr> st_flights := map (\<lambda>r. if fl_ID r = fst u \<and> fl_Sequence r \<noteq> Some (snd u)
          then r\<lparr> fl_Sequence := Some (snd u), fl_Version := fl_Version r + 1 \<rparr> else r) (st_flights st) \<rparr>"

definition ReorderStripBoard :: "strip_store \<Rightarrow> int \<Rightarrow> int32 \<Rightarrow> string \<Rightarrow> string option \<Rightarrow> order_error + strip_store" where
  "ReorderStripBoard st i version bay prd =
     (case find (\<lambda>r. fl_ID r = i) (st_flights st) of
        None \<Rightarrow> Inl ErrNoRows
      | Some row \<Rightarrow>
          (if fl_Version row \<noteq> version \<or> fl_Bay row \<noteq> bay then Inl (ErrStale ''stale RADIS ordering revision'')
           else (case reorder_scan i prd (board_rows st bay) [] 0 (prd = None) of
             (lst, idx, fnd) \<Rightarrow>
               (if \<not> fnd then Inl (ErrRef ''RADIS predecessor is not in the selected bay'')
                else (let ids = map fst (take idx lst) @ i # map fst (drop idx lst) in
                  Inr (foldl UpdateSequenceIfDistinct st
                    (zip ids (map (\<lambda>k. word_of_int (int k + 1) * 1000) [0..<length ids]))))))))"

section \<open>Signed 32-bit arithmetic\<close>

definition in32 :: "int \<Rightarrow> bool" where "in32 k \<longleftrightarrow> - (2 ^ 31) \<le> k \<and> k < 2 ^ 31"

lemma sint_range: "in32 (sint (x :: int32))"
  using sint_ge [of x] sint_lt [of x] by (simp add: in32_def)

lemma sint_add: "in32 (sint a + sint b) \<Longrightarrow> sint (a + b :: int32) = sint a + sint b"
  by (simp add: sint_word_ariths in32_def signed_take_bit_int_eq_self_iff)

lemma sint_sub: "in32 (sint a - sint b) \<Longrightarrow> sint (a - b :: int32) = sint a - sint b"
  by (simp add: sint_word_ariths in32_def signed_take_bit_int_eq_self_iff)

lemma sint_of_int: "in32 k \<Longrightarrow> sint (word_of_int k :: int32) = k"
  by (simp add: in32_def sint_sbintrunc' signed_take_bit_int_eq_self_iff)

lemma sint_consts [simp]: "sint InitialOrderSpacing = 1000" "sint MinOrderGap = 5"
  by (simp_all add: InitialOrderSpacing_def MinOrderGap_def)

lemma sint_new_sequence: "int i < 2000000 \<Longrightarrow> sint (new_sequence i) = (int i + 1) * 1000"
  unfolding new_sequence_def by (rule sint_of_int) (simp add: in32_def)

lemma sfold_None [simp]: "sfold f xs = None \<longleftrightarrow> xs = []"
  by (cases xs) (auto split: option.splits)

lemma sfold_smax: "sfold smax xs = Some m \<Longrightarrow> m \<in> set xs \<and> (\<forall>x \<in> set xs. sint x \<le> sint m)"
proof (induction xs arbitrary: m)
  case (Cons a xs)
  show ?case
  proof (cases "sfold smax xs")
    case None
    with Cons.prems show ?thesis by auto
  next
    case (Some y)
    with Cons.prems have "m = smax a y" by simp
    with Cons.IH [OF Some] show ?thesis by (cases "sint a < sint y") (force simp: smax_def)+
  qed
qed simp

lemma sfold_smin: "sfold smin xs = Some m \<Longrightarrow> m \<in> set xs \<and> (\<forall>x \<in> set xs. sint m \<le> sint x)"
proof (induction xs arbitrary: m)
  case (Cons a xs)
  show ?case
  proof (cases "sfold smin xs")
    case None
    with Cons.prems show ?thesis by auto
  next
    case (Some y)
    with Cons.prems have "m = smin a y" by simp
    with Cons.IH [OF Some] show ?thesis by (cases "sint y < sint a") (force simp: smin_def)+
  qed
qed simp

lemma next_sequence_Some:
  assumes "GetNextSequenceUnified st bay prev = Some n"
  shows "sint prev < sint n" "n \<in> set (bay_sequences st bay)"
    "x \<in> set (bay_sequences st bay) \<Longrightarrow> sint x \<le> sint prev \<or> sint n \<le> sint x"
  using sfold_smin [OF assms [unfolded GetNextSequenceUnified_def]] by force+

lemma next_sequence_None:
  "GetNextSequenceUnified st bay prev = None \<Longrightarrow> x \<in> set (bay_sequences st bay) \<Longrightarrow> sint x \<le> sint prev"
  by (force simp: GetNextSequenceUnified_def filter_empty_conv)

lemma max_sequence: "x \<in> set (bay_sequences st bay) \<Longrightarrow> sint x \<le> sint (GetMaxSequenceInBayUnified st bay)"
proof -
  assume x: "x \<in> set (bay_sequences st bay)"
  then obtain m where m: "sfold smax (bay_sequences st bay) = Some m"
    by (cases "sfold smax (bay_sequences st bay)") auto
  with sfold_smax [OF m] x show ?thesis by (simp add: GetMaxSequenceInBayUnified_def)
qed

lemma order_between:
  assumes "0 \<le> sint p" "sint p < sint n"
  shows "snd (calculateOrderBetween p (Some n)) \<longleftrightarrow> sint n - sint p \<le> 5"
    "\<not> snd (calculateOrderBetween p (Some n)) \<Longrightarrow>
       sint p < sint (fst (calculateOrderBetween p (Some n))) \<and> sint (fst (calculateOrderBetween p (Some n))) < sint n"
proof -
  have gap: "sint (n - p) = sint n - sint p"
    by (rule sint_sub) (use assms sint_range [of n] in \<open>auto simp: in32_def\<close>)
  then show r: "snd (calculateOrderBetween p (Some n)) \<longleftrightarrow> sint n - sint p \<le> 5"
    by (simp add: calculateOrderBetween_def)
  let ?h = "(sint n - sint p) div 2"
  assume "\<not> snd (calculateOrderBetween p (Some n))"
  with r have g: "5 < sint n - sint p" by simp
  then have q: "go_quot (sint n - sint p) 2 = ?h" by (intro go_quot_nonneg) auto
  have h: "sint (word_of_int ?h :: int32) = ?h"
    by (rule sint_of_int) (use g assms sint_range [of n] in \<open>auto simp: in32_def\<close>)
  have "sint (p + word_of_int ?h) = sint p + ?h"
    by (subst sint_add) (use g h assms sint_range [of n] in \<open>auto simp: in32_def\<close>)
  moreover have "fst (calculateOrderBetween p (Some n)) = p + word_of_int ?h"
    using g by (simp add: calculateOrderBetween_def gap q)
  moreover have "0 < ?h" "sint p + ?h < sint n" using g by linarith+
  ultimately show "sint p < sint (fst (calculateOrderBetween p (Some n))) \<and> sint (fst (calculateOrderBetween p (Some n))) < sint n"
    by simp
qed

section \<open>Strips by identity\<close>

datatype strip_id = SFlight string | STactical int

fun entry_id :: "entry \<Rightarrow> strip_id" where
  "entry_id (EFlight c _) = SFlight c"
| "entry_id (ETactical i _) = STactical i"

fun strip_seq :: "strip_store \<Rightarrow> string \<Rightarrow> strip_id \<Rightarrow> int32 option" where
  "strip_seq st bay (SFlight c) =
     (case find (\<lambda>r. fl_Callsign r = c \<and> fl_Bay r = bay) (st_flights st) of None \<Rightarrow> None | Some r \<Rightarrow> fl_Sequence r)"
| "strip_seq st bay (STactical i) =
     (case find (\<lambda>r. ta_ID r = i \<and> ta_Bay r = bay) (st_tacticals st) of None \<Rightarrow> None | Some r \<Rightarrow> Some (ta_Sequence r))"

declare strip_seq.simps [simp del]

definition store_ok :: "strip_store \<Rightarrow> bool" where
  "store_ok st \<longleftrightarrow> distinct (map fl_Callsign (st_flights st)) \<and> distinct (map ta_ID (st_tacticals st))"

lemma find_distinct:
  assumes "distinct (map k xs)" "x \<in> set xs" "P x" "\<forall>y. P y \<longrightarrow> k y = k x"
  shows "find P xs = Some x"
  using assms(1,2)
proof (induction xs)
  case (Cons y ys)
  show ?case
  proof (cases "y = x")
    case True
    with assms(3) show ?thesis by simp
  next
    case False
    with Cons.prems(2) have x: "x \<in> set ys" by simp
    then have "k x \<in> k ` set ys" by (rule imageI)
    with Cons.prems(1) assms(4) have "\<not> P y" by (metis distinct.simps(2) list.set_map list.simps(9))
    with Cons.IH Cons.prems(1) x show ?thesis by simp
  qed
qed simp

lemma strip_seq_flight:
  assumes "store_ok st"
  shows "strip_seq st bay (SFlight c) = Some s \<longleftrightarrow>
    (\<exists>r \<in> set (st_flights st). fl_Callsign r = c \<and> fl_Bay r = bay \<and> fl_Sequence r = Some s)"
proof
  assume "strip_seq st bay (SFlight c) = Some s"
  then show "\<exists>r \<in> set (st_flights st). fl_Callsign r = c \<and> fl_Bay r = bay \<and> fl_Sequence r = Some s"
    by (auto simp: strip_seq.simps split: option.splits dest!: find_SomeD)
next
  assume "\<exists>r \<in> set (st_flights st). fl_Callsign r = c \<and> fl_Bay r = bay \<and> fl_Sequence r = Some s"
  then obtain r where "r \<in> set (st_flights st)" "fl_Callsign r = c" "fl_Bay r = bay" "fl_Sequence r = Some s" by blast
  then show "strip_seq st bay (SFlight c) = Some s"
    using find_distinct [of fl_Callsign "st_flights st" r "\<lambda>r. fl_Callsign r = c \<and> fl_Bay r = bay"] assms
    by (simp add: store_ok_def strip_seq.simps)
qed

lemma strip_seq_tactical:
  assumes "store_ok st"
  shows "strip_seq st bay (STactical i) = Some s \<longleftrightarrow>
    (\<exists>r \<in> set (st_tacticals st). ta_ID r = i \<and> ta_Bay r = bay \<and> ta_Sequence r = s)"
proof
  assume "strip_seq st bay (STactical i) = Some s"
  then show "\<exists>r \<in> set (st_tacticals st). ta_ID r = i \<and> ta_Bay r = bay \<and> ta_Sequence r = s"
    by (auto simp: strip_seq.simps split: option.splits dest!: find_SomeD)
next
  assume "\<exists>r \<in> set (st_tacticals st). ta_ID r = i \<and> ta_Bay r = bay \<and> ta_Sequence r = s"
  then obtain r where "r \<in> set (st_tacticals st)" "ta_ID r = i" "ta_Bay r = bay" "ta_Sequence r = s" by blast
  then show "strip_seq st bay (STactical i) = Some s"
    using find_distinct [of ta_ID "st_tacticals st" r "\<lambda>r. ta_ID r = i \<and> ta_Bay r = bay"] assms
    by (simp add: store_ok_def strip_seq.simps)
qed

section \<open>Entries of a bay\<close>

lemma set_bay_entries:
  "set (bay_entries st bay) =
     {EFlight (fl_Callsign r) s | r s. r \<in> set (st_flights st) \<and> fl_Bay r = bay \<and> fl_Sequence r = Some s} \<union>
     {ETactical (ta_ID r) (ta_Sequence r) | r. r \<in> set (st_tacticals st) \<and> ta_Bay r = bay}"
proof -
  have "set (flight_entries st bay) =
      {EFlight (fl_Callsign r) s | r s. r \<in> set (st_flights st) \<and> fl_Bay r = bay \<and> fl_Sequence r = Some s}"
    by (force simp: flight_entries_def List.map_filter_def)
  moreover have "set (tactical_entries st bay) = {ETactical (ta_ID r) (ta_Sequence r) | r. r \<in> set (st_tacticals st) \<and> ta_Bay r = bay}"
    by (auto simp: tactical_entries_def)
  ultimately show ?thesis by (simp add: bay_entries_def)
qed

lemma entry_iff:
  assumes "store_ok st"
  shows "strip_seq st bay x = Some s \<longleftrightarrow> (\<exists>e \<in> set (bay_entries st bay). entry_id e = x \<and> entry_sequence e = s)"
proof (cases x)
  case (SFlight c)
  show ?thesis unfolding SFlight strip_seq_flight [OF assms] set_bay_entries by force
next
  case (STactical i)
  show ?thesis unfolding STactical strip_seq_tactical [OF assms] set_bay_entries by force
qed

lemma distinct_bay_entries:
  assumes "store_ok st"
  shows "distinct (map entry_id (bay_entries st bay))"
proof -
  let ?fr = "filter (\<lambda>r. fl_Bay r = bay) (st_flights st)"
  have "distinct (map entry_id (flight_entries st bay))"
  proof -
    let ?ps = "List.map_filter (\<lambda>r. map_option (\<lambda>s. (s, fl_Callsign r)) (fl_Sequence r)) ?fr"
    have "map snd (List.map_filter (\<lambda>r. map_option (\<lambda>s. (s, fl_Callsign r)) (fl_Sequence r)) rs) =
        map fl_Callsign (filter (\<lambda>r. fl_Sequence r \<noteq> None) rs)" for rs
      by (induction rs) (auto simp: List.map_filter_def)
    then have "map snd ?ps = map fl_Callsign (filter (\<lambda>r. fl_Sequence r \<noteq> None) ?fr)" by blast
    moreover have "distinct (map fl_Callsign (filter (\<lambda>r. fl_Sequence r \<noteq> None) ?fr))"
      using assms by (auto simp: store_ok_def distinct_map intro: inj_on_subset)
    ultimately have "distinct (map snd ?ps)" by simp
    then have "distinct (map snd (sort_key (\<lambda>(s, c). (sint s, c)) ?ps))"
      by (simp add: distinct_map)
    then have "distinct (map (SFlight \<circ> snd) (sort_key (\<lambda>(s, c). (sint s, c)) ?ps))"
      by (auto simp: distinct_map inj_on_def)
    moreover have "map entry_id (flight_entries st bay) = map (SFlight \<circ> snd) (sort_key (\<lambda>(s, c). (sint s, c)) ?ps)"
      by (simp add: flight_entries_def case_prod_beta)
    ultimately show ?thesis by simp
  qed
  moreover have "distinct (map entry_id (tactical_entries st bay))"
    using assms by (auto simp: tactical_entries_def store_ok_def distinct_map inj_on_def)
  moreover have "set (map entry_id (flight_entries st bay)) \<inter> set (map entry_id (tactical_entries st bay)) = {}"
    by (auto simp: flight_entries_def tactical_entries_def)
  ultimately have "distinct (map entry_id (flight_entries st bay @ tactical_entries st bay))" by simp
  then have "distinct (flight_entries st bay @ tactical_entries st bay) \<and>
      inj_on entry_id (set (flight_entries st bay @ tactical_entries st bay))"
    by (rule distinct_map [THEN iffD1])
  then show ?thesis by (simp add: bay_entries_def distinct_map)
qed

lemma sorted_bay_entries: "sorted (map (\<lambda>e. sint (entry_sequence e)) (bay_entries st bay))"
  unfolding bay_entries_def by (rule sorted_go_sort_key) (auto simp: key_first_def)

section \<open>Renumbering\<close>

fun update_of :: "(string \<times> int32) list \<times> (int \<times> int32) list \<Rightarrow> strip_id \<Rightarrow> int32 option" where
  "update_of u (SFlight c) = map_of (fst u) c"
| "update_of u (STactical i) = map_of (snd u) i"

lemma renumber_nth:
  assumes "distinct (map entry_id es)" "k < length es"
  shows "update_of (renumber i es) (entry_id (es ! k)) = Some (new_sequence (i + k))"
  using assms
proof (induction es arbitrary: i k)
  case (Cons e es)
  obtain f t where ft: "renumber (Suc i) es = (f, t)" by fastforce
  show ?case
  proof (cases k)
    case 0
    then show ?thesis by (cases e) (simp_all add: ft)
  next
    case (Suc m)
    with Cons have IH: "update_of (f, t) (entry_id (es ! m)) = Some (new_sequence (Suc i + m))"
      using ft by (metis Suc_less_eq distinct.simps(2) length_Cons list.simps(9))
    have "entry_id e \<noteq> entry_id (es ! m)" using Cons.prems Suc by (auto simp: rev_image_eqI)
    with IH Suc show ?thesis by (cases e; cases "entry_id (es ! m)") (auto simp: ft)
  qed
qed simp

lemma renumber_other: "x \<notin> entry_id ` set es \<Longrightarrow> update_of (renumber i es) x = None"
proof (induction es arbitrary: i)
  case Nil
  then show ?case by (cases x) simp_all
next
  case (Cons e es)
  obtain f t where ft: "renumber (Suc i) es = (f, t)" by fastforce
  from Cons.IH [of "Suc i"] Cons.prems ft show ?case by (cases e; cases x) auto
qed

lemma store_ok_write: "store_ok st \<Longrightarrow> store_ok (write_sequences st u)"
proof -
  have "map fl_Callsign (st_flights (write_sequences st u)) = map fl_Callsign (st_flights st)"
    by (auto simp: write_sequences_def split: option.split)
  moreover have "map ta_ID (st_tacticals (write_sequences st u)) = map ta_ID (st_tacticals st)"
    by (auto simp: write_sequences_def split: option.split)
  ultimately show "store_ok st \<Longrightarrow> ?thesis" by (simp add: store_ok_def)
qed

lemma write_sequences_seq:
  assumes "store_ok st" "strip_seq st bay x = Some s" "update_of u x = Some s'"
  shows "strip_seq (write_sequences st u) bay x = Some s'"
proof (cases x)
  case (SFlight c)
  with assms obtain r where "r \<in> set (st_flights st)" "fl_Callsign r = c" "fl_Bay r = bay" by (auto simp: strip_seq_flight)
  then show ?thesis using assms(3) unfolding SFlight strip_seq_flight [OF store_ok_write [OF assms(1)]]
    by (force simp: write_sequences_def SFlight)
next
  case (STactical i)
  with assms obtain r where "r \<in> set (st_tacticals st)" "ta_ID r = i" "ta_Bay r = bay" by (auto simp: strip_seq_tactical)
  then show ?thesis using assms(3) unfolding STactical strip_seq_tactical [OF store_ok_write [OF assms(1)]]
    by (force simp: write_sequences_def STactical)
qed

text \<open>After a recalculation the strip at position \<open>k\<close> of the bay has the sequence of that position.\<close>

lemma recalculated:
  assumes "store_ok st" "strip_seq st bay x = Some s"
  obtains k where "k < length (bay_entries st bay)" "entry_id (bay_entries st bay ! k) = x"
    "entry_sequence (bay_entries st bay ! k) = s"
    "strip_seq (recalculateAllStripSequences st bay) bay x = Some (new_sequence k)"
proof -
  from assms obtain e where "e \<in> set (bay_entries st bay)" "entry_id e = x" "entry_sequence e = s" by (auto simp: entry_iff)
  then obtain k where k: "k < length (bay_entries st bay)" "bay_entries st bay ! k = e" by (auto simp: in_set_conv_nth)
  have "update_of (renumber 0 (bay_entries st bay)) x = Some (new_sequence k)"
    using renumber_nth [OF distinct_bay_entries [OF assms(1)] k(1), of 0] k(2) \<open>entry_id e = x\<close> by simp
  then have "strip_seq (recalculateAllStripSequences st bay) bay x = Some (new_sequence k)"
    unfolding recalculateAllStripSequences_def by (rule write_sequences_seq [OF assms])
  with k \<open>entry_id e = x\<close> \<open>entry_sequence e = s\<close> show ?thesis by (intro that) auto
qed

section \<open>Moving a strip\<close>

lemma store_ok_update: "store_ok st \<Longrightarrow> store_ok (UpdateBayAndSequence st c bay s)"
proof -
  have "map fl_Callsign (st_flights (UpdateBayAndSequence st c bay s)) = map fl_Callsign (st_flights st)"
    "st_tacticals (UpdateBayAndSequence st c bay s) = st_tacticals st"
    by (simp_all add: UpdateBayAndSequence_def)
  then show "store_ok st \<Longrightarrow> ?thesis" by (simp add: store_ok_def)
qed

lemma update_moved:
  assumes "store_ok st" "c \<in> fl_Callsign ` set (st_flights st)"
  shows "strip_seq (UpdateBayAndSequence st c bay s) bay (SFlight c) = Some s"
proof -
  from assms(2) obtain r where "r \<in> set (st_flights st)" "fl_Callsign r = c" by blast
  then show ?thesis unfolding strip_seq_flight [OF store_ok_update [OF assms(1)]]
    by (intro bexI [of _ "r\<lparr> fl_Bay := bay, fl_Sequence := Some s, fl_Version := fl_Version r + 1 \<rparr>"]) (auto simp: UpdateBayAndSequence_def intro: rev_image_eqI)
qed

lemma update_others:
  assumes "store_ok st" "y \<noteq> SFlight c"
  shows "strip_seq (UpdateBayAndSequence st c bay s) b y = strip_seq st b y"
proof -
  have "strip_seq (UpdateBayAndSequence st c bay s) b y = Some v \<longleftrightarrow> strip_seq st b y = Some v" for v
  proof (cases y)
    case (SFlight d)
    with assms(2) have "d \<noteq> c" by simp
    then show ?thesis
      unfolding SFlight strip_seq_flight [OF store_ok_update [OF assms(1)]] strip_seq_flight [OF assms(1)]
      by (auto simp: UpdateBayAndSequence_def)
  next
    case (STactical i)
    then show ?thesis by (simp add: strip_seq.simps UpdateBayAndSequence_def)
  qed
  then show ?thesis by (metis not_Some_eq)
qed

lemma strip_seq_in_bay:
  assumes "store_ok st" "strip_seq st bay x = Some s"
  shows "s \<in> set (bay_sequences st bay)"
proof (cases x)
  case (SFlight c)
  with assms show ?thesis by (force simp: strip_seq_flight bay_sequences_def List.map_filter_def)
next
  case (STactical i)
  with assms show ?thesis by (force simp: strip_seq_tactical bay_sequences_def)
qed

text \<open>A strip written below every other one comes first when the bay is recalculated.\<close>

lemma recalculated_first:
  assumes ok: "store_ok st" and x: "strip_seq st bay x = Some s"
    and below: "\<And>y t. y \<noteq> x \<Longrightarrow> strip_seq st bay y = Some t \<Longrightarrow> sint s < sint t"
    and size: "int (length (bay_entries st bay)) < 2000000"
  shows "strip_seq (recalculateAllStripSequences st bay) bay x = Some 1000"
    "y \<noteq> x \<Longrightarrow> strip_seq st bay y = Some t \<Longrightarrow>
      \<exists>t'. strip_seq (recalculateAllStripSequences st bay) bay y = Some t' \<and> 1000 < sint t'"
proof -
  let ?es = "bay_entries st bay"
  obtain k where k: "k < length ?es" "entry_id (?es ! k) = x" "entry_sequence (?es ! k) = s"
      "strip_seq (recalculateAllStripSequences st bay) bay x = Some (new_sequence k)"
    using ok x by (rule recalculated)
  have "k = 0"
  proof (rule ccontr)
    assume "k \<noteq> 0"
    have l: "0 < length ?es" using k(1) by linarith
    with \<open>k \<noteq> 0\<close> have "entry_id (?es ! 0) \<noteq> x"
      using k(1,2) nth_eq_iff_index_eq [OF distinct_bay_entries [OF ok, of bay], of 0 k] by (simp del: length_greater_0_conv)
    moreover from l have "strip_seq st bay (entry_id (?es ! 0)) = Some (entry_sequence (?es ! 0))"
      unfolding entry_iff [OF ok] by (auto intro!: bexI [of _ "?es ! 0"])
    ultimately have "sint s < sint (entry_sequence (?es ! 0))" using below by blast
    moreover have "sint (entry_sequence (?es ! 0)) \<le> sint (entry_sequence (?es ! k))"
      using sorted_bay_entries [of st bay] k(1) by (auto simp: sorted_iff_nth_mono)
    ultimately show False using k(3) by simp
  qed
  with k(4) show "strip_seq (recalculateAllStripSequences st bay) bay x = Some 1000"
    by (simp add: new_sequence_def)
  assume y: "y \<noteq> x" "strip_seq st bay y = Some t"
  obtain j where j: "j < length ?es" "entry_id (?es ! j) = y"
      "strip_seq (recalculateAllStripSequences st bay) bay y = Some (new_sequence j)"
    using ok y(2) by (rule recalculated)
  have "0 < j" using j(2) k(2) \<open>k = 0\<close> y(1) by (cases j) auto
  moreover have "int j < 2000000" using j(1) size by simp
  ultimately show "\<exists>t'. strip_seq (recalculateAllStripSequences st bay) bay y = Some t' \<and> 1000 < sint t'"
    using j(3) by (simp add: sint_new_sequence)
qed

text \<open>Runway status does not change where a strip stands.\<close>

lemma strip_seq_map_flights:
  assumes "\<forall>r. fl_Callsign (f r) = fl_Callsign r \<and> fl_Bay (f r) = fl_Bay r \<and> fl_Sequence (f r) = fl_Sequence r"
  shows "strip_seq (st\<lparr> st_flights := map f (st_flights st) \<rparr>) b y = strip_seq st b y"
proof -
  have "find P (map f xs) = map_option f (find (P \<circ> f) xs)" for P :: "flight_row \<Rightarrow> bool" and xs by (induction xs) auto
  then show ?thesis using assms by (cases y) (simp_all add: strip_seq.simps comp_def split: option.split)
qed

lemma update_rwy_seq:
  "strip_seq (fst (updateRwyArrClearanceOnMove st c previousBay targetBay was)) b y = strip_seq st b y"
  by (simp add: updateRwyArrClearanceOnMove_def SetRwyArrRunwayStatusOnEntry_def ResetRunwayClearance_def Let_def
      strip_seq_map_flights)

definition no_board_state :: "strip_store \<Rightarrow> string \<Rightarrow> bool" where
  "no_board_state st c \<longleftrightarrow> (\<forall>r \<in> set (st_flights st). fl_Callsign r = c \<longrightarrow> \<not> fl_HasBoardState r)"

lemma move_outcome:
  assumes "no_board_state st c" "resolveRefSequence st bay ref = Inr prev"
    and "calculateOrderBetween prev (GetNextSequenceUnified st bay prev) = (s, recalc)"
    and "recalc \<longrightarrow> snd (acknowledgeDeicePlatformInBay env c bay) = None"
  shows "strip_seq (fst (MoveStripBetween env st c ref bay)) b y =
    strip_seq (let st1 = UpdateBayAndSequence st c bay s in if recalc then recalculateAllStripSequences st1 bay else st1) b y"
proof -
  have "\<not> (case find (\<lambda>r. fl_Callsign r = c) (st_flights st) of None \<Rightarrow> False | Some r \<Rightarrow> fl_HasBoardState r)"
    using assms(1) by (auto simp: no_board_state_def split: option.splits dest!: find_SomeD)
  with assms show ?thesis
    by (auto simp: MoveStripBetween_def Let_def update_rwy_seq)
qed

section \<open>Properties\<close>

definition flight_ref :: "string \<Rightarrow> StripRef" where
  "flight_ref c = \<lparr> ref_Kind = ''flight'', ref_Callsign = Some c, ref_ID = None \<rparr>"

definition sample_row :: "int \<Rightarrow> string \<Rightarrow> int32 \<Rightarrow> flight_row" where
  "sample_row i c s = \<lparr> fl_ID = i, fl_Callsign = c, fl_Bay = ''PUSH'', fl_Sequence = Some s, fl_Version = 1,
     fl_RunwayCleared = False, fl_RunwayConfirmed = False, fl_HasBoardState = False \<rparr>"

definition sample_bay :: "int32 \<Rightarrow> int32 \<Rightarrow> int32 \<Rightarrow> strip_store" where
  "sample_bay a b c = \<lparr> st_flights = [sample_row 1 ''A'' a, sample_row 2 ''B'' b, sample_row 3 ''C'' c], st_tacticals = [] \<rparr>"

definition sample_env :: move_env where
  "sample_env = \<lparr> env_acknowledge = \<lambda>_. None, env_landing = None,
     env_reorderBoardStrip = \<lambda>st _ _ _. (st, [], Some (ErrStale ''strip board ordering revision required'')) \<rparr>"

text \<open>
  C18. Moving a strip where there is room puts it directly after its reference: its new sequence is
  above the reference's and below every sequence of the bay that was above the reference's, in
  signed 32-bit arithmetic without overflow, and no other strip moves, in this or any other bay.
\<close>

theorem move_places_strip_after_reference:
  assumes "no_board_state st c" "resolveRefSequence st bay ref = Inr prev" "0 \<le> sint prev"
    and room: "case GetNextSequenceUnified st bay prev of None \<Rightarrow> sint prev + 1000 < 2 ^ 31
                 | Some n \<Rightarrow> 5 < sint n - sint prev"
    and ok: "store_ok st" "c \<in> fl_Callsign ` set (st_flights st)"
  shows "\<exists>s. strip_seq (fst (MoveStripBetween env st c ref bay)) bay (SFlight c) = Some s \<and> sint prev < sint s \<and>
    (\<forall>y. y \<noteq> SFlight c \<longrightarrow>
       (\<forall>b. strip_seq (fst (MoveStripBetween env st c ref bay)) b y = strip_seq st b y) \<and>
       (\<forall>t. strip_seq st bay y = Some t \<longrightarrow> sint t \<le> sint prev \<or> sint s < sint t))"
proof -
  let ?o = "calculateOrderBetween prev (GetNextSequenceUnified st bay prev)"
  have s: "\<not> snd ?o \<and> sint prev < sint (fst ?o) \<and>
      (\<forall>x \<in> set (bay_sequences st bay). sint x \<le> sint prev \<or> sint (fst ?o) < sint x)"
  proof (cases "GetNextSequenceUnified st bay prev")
    case None
    have "sint (prev + InitialOrderSpacing) = sint prev + 1000"
      using room assms(3) None by (subst sint_add) (auto simp: in32_def)
    then show ?thesis using None next_sequence_None [OF None] by (auto simp: calculateOrderBetween_def)
  next
    case (Some n)
    note n = next_sequence_Some [OF Some]
    from room Some have "\<not> snd ?o" using order_between(1) [OF assms(3) n(1)] by simp
    then show ?thesis using order_between(2) [OF assms(3) n(1)] n(3) Some by force
  qed
  then have o: "?o = (fst ?o, False)" by (metis prod.collapse)
  have "strip_seq (fst (MoveStripBetween env st c ref bay)) b y = strip_seq (UpdateBayAndSequence st c bay (fst ?o)) b y" for b y
    using move_outcome [OF assms(1,2) o] by simp
  with s show ?thesis
    using update_moved [OF ok] update_others [OF ok(1)] strip_seq_in_bay [OF ok(1)]
    by (intro exI [of _ "fst ?o"]) auto
qed

theorem move_places_strip_after_reference_witness:
  "\<exists>s. strip_seq (fst (MoveStripBetween sample_env (sample_bay 1000 2000 3000) ''C'' (Some (flight_ref ''A'')) ''PUSH''))
     ''PUSH'' (SFlight ''C'') = Some s \<and> 1000 < sint s \<and> sint s < 2000"
proof -
  let ?st = "sample_bay 1000 2000 3000"
  have r: "resolveRefSequence ?st ''PUSH'' (Some (flight_ref ''A'')) = Inr 1000" by code_simp
  have n: "GetNextSequenceUnified ?st ''PUSH'' 1000 = Some 2000" "strip_seq ?st ''PUSH'' (SFlight ''B'') = Some 2000" by code_simp+
  have ok: "no_board_state ?st ''C''" "store_ok ?st" "''C'' \<in> fl_Callsign ` set (st_flights ?st)"
    by (simp_all add: no_board_state_def store_ok_def sample_bay_def sample_row_def)
  obtain s where s: "strip_seq (fst (MoveStripBetween sample_env ?st ''C'' (Some (flight_ref ''A'')) ''PUSH'')) ''PUSH'' (SFlight ''C'') = Some s"
      "sint (1000 :: int32) < sint s"
      "\<forall>y. y \<noteq> SFlight ''C'' \<longrightarrow> (\<forall>b. strip_seq (fst (MoveStripBetween sample_env ?st ''C'' (Some (flight_ref ''A'')) ''PUSH'')) b y = strip_seq ?st b y) \<and>
        (\<forall>t. strip_seq ?st ''PUSH'' y = Some t \<longrightarrow> sint t \<le> sint (1000 :: int32) \<or> sint s < sint t)"
    using move_places_strip_after_reference [OF ok(1) r _ _ ok(2,3), of sample_env] n(1) by auto
  from s(3) [rule_format, of "SFlight ''B''"] n(2) have "sint s < 2000" by auto
  with s(1,2) show ?thesis by (intro exI [of _ s]) simp
qed

text \<open>
  Recalculation keeps the order of the bay: two strips with different sequences keep their order,
  and every strip gets a positive multiple of the initial spacing, so that neighbours are again far
  enough apart. The bay must hold fewer than two million strips for the sequences to fit.
\<close>

theorem recalculation_keeps_order:
  assumes "store_ok st" "int (length (bay_entries st bay)) < 2000000"
    and "strip_seq st bay x = Some a" "strip_seq st bay y = Some b" "sint a < sint b"
  shows "\<exists>a' b'. strip_seq (recalculateAllStripSequences st bay) bay x = Some a' \<and>
    strip_seq (recalculateAllStripSequences st bay) bay y = Some b' \<and>
    0 < sint a' \<and> sint a' + 1000 \<le> sint b' \<and> sint a' mod 1000 = 0 \<and> sint b' mod 1000 = 0"
proof -
  let ?es = "bay_entries st bay"
  obtain k where k: "k < length ?es" "entry_sequence (?es ! k) = a"
      "strip_seq (recalculateAllStripSequences st bay) bay x = Some (new_sequence k)"
    using assms(1,3) by (rule recalculated)
  obtain j where j: "j < length ?es" "entry_sequence (?es ! j) = b"
      "strip_seq (recalculateAllStripSequences st bay) bay y = Some (new_sequence j)"
    using assms(1,4) by (rule recalculated)
  have "k < j"
  proof (rule ccontr)
    assume "\<not> k < j"
    then have "sint (entry_sequence (?es ! j)) \<le> sint (entry_sequence (?es ! k))"
      using sorted_bay_entries [of st bay] k(1) by (auto simp: sorted_iff_nth_mono)
    with k(2) j(2) assms(5) show False by simp
  qed
  moreover have "int k < 2000000" "int j < 2000000" using k(1) j(1) assms(2) by simp_all
  ultimately show ?thesis using k(3) j(3) by (auto simp: sint_new_sequence)
qed

theorem recalculation_keeps_order_witness:
  "\<exists>a' b'. strip_seq (recalculateAllStripSequences (sample_bay 7 3 5) ''PUSH'') ''PUSH'' (SFlight ''B'') = Some a' \<and>
     strip_seq (recalculateAllStripSequences (sample_bay 7 3 5) ''PUSH'') ''PUSH'' (SFlight ''A'') = Some b' \<and>
     sint a' + 1000 \<le> sint b'"
proof -
  have s: "strip_seq (sample_bay 7 3 5) ''PUSH'' (SFlight ''B'') = Some 3" "strip_seq (sample_bay 7 3 5) ''PUSH'' (SFlight ''A'') = Some 7"
    by code_simp+
  have "store_ok (sample_bay 7 3 5)" by (simp add: store_ok_def sample_bay_def sample_row_def)
  moreover have "int (length (bay_entries (sample_bay 7 3 5) ''PUSH'')) < 2000000" by code_simp
  ultimately show ?thesis using recalculation_keeps_order [OF _ _ s] by auto
qed

text \<open>
  Defect: where the gap after the reference has become too small, the moved strip is written with
  sequence 0 before the recalculation and so ends up above every other strip of the bay, whatever the
  reference was, although the operation is documented to place it directly after the reference.
\<close>

theorem small_gap_moves_strip_to_top:
  assumes "no_board_state st c" "resolveRefSequence st bay ref = Inr prev" "0 \<le> sint prev"
    and "GetNextSequenceUnified st bay prev = Some n" "sint n - sint prev \<le> 5"
    and ok: "store_ok st" "c \<in> fl_Callsign ` set (st_flights st)"
    and pos: "\<forall>s \<in> set (bay_sequences st bay). 0 < sint s"
    and size: "int (length (bay_entries (UpdateBayAndSequence st c bay 0) bay)) < 2000000"
    and ack: "snd (acknowledgeDeicePlatformInBay env c bay) = None"
  shows "strip_seq (fst (MoveStripBetween env st c ref bay)) bay (SFlight c) = Some 1000 \<and>
    (\<forall>y t. y \<noteq> SFlight c \<and> strip_seq st bay y = Some t \<longrightarrow>
       (\<exists>t'. strip_seq (fst (MoveStripBetween env st c ref bay)) bay y = Some t' \<and> 1000 < sint t'))"
proof -
  let ?u = "UpdateBayAndSequence st c bay 0"
  have "snd (calculateOrderBetween prev (Some n))"
    using order_between(1) [OF assms(3) next_sequence_Some(1) [OF assms(4)]] assms(5) by simp
  then have "calculateOrderBetween prev (GetNextSequenceUnified st bay prev) = (0, True)"
    by (auto simp: assms(4) calculateOrderBetween_def Let_def split: if_splits)
  note st' = move_outcome [OF assms(1,2) this, of env, simplified, OF ack]
  have below: "sint (0 :: int32) < sint t" if "y \<noteq> SFlight c" "strip_seq ?u bay y = Some t" for y t
    using that ok(1) pos strip_seq_in_bay by (auto simp: update_others)
  note first = recalculated_first [OF store_ok_update [OF ok(1)] update_moved [OF ok] below size]
  show ?thesis unfolding st' using first(1) first(2) by (auto simp: update_others [OF ok(1)])
qed

theorem small_gap_moves_strip_to_top_witness:
  "strip_seq (fst (MoveStripBetween sample_env (sample_bay 1000 1004 2000) ''C'' (Some (flight_ref ''A'')) ''PUSH'')) ''PUSH'' (SFlight ''C'') = Some 1000 \<and>
   (\<exists>t'. strip_seq (fst (MoveStripBetween sample_env (sample_bay 1000 1004 2000) ''C'' (Some (flight_ref ''A'')) ''PUSH'')) ''PUSH'' (SFlight ''A'') = Some t'
      \<and> 1000 < sint t')"
proof -
  let ?st = "sample_bay 1000 1004 2000"
  have r: "resolveRefSequence ?st ''PUSH'' (Some (flight_ref ''A'')) = Inr 1000" by code_simp
  have n: "GetNextSequenceUnified ?st ''PUSH'' 1000 = Some 1004" "bay_sequences ?st ''PUSH'' = [1000, 1004, 2000]"
    "strip_seq ?st ''PUSH'' (SFlight ''A'') = Some 1000" by code_simp+
  have size: "int (length (bay_entries (UpdateBayAndSequence ?st ''C'' ''PUSH'' 0) ''PUSH'')) < 2000000" by code_simp
  have ok: "no_board_state ?st ''C''" "store_ok ?st" "''C'' \<in> fl_Callsign ` set (st_flights ?st)"
    by (simp_all add: no_board_state_def store_ok_def sample_bay_def sample_row_def)
  have ack: "snd (acknowledgeDeicePlatformInBay sample_env ''C'' ''PUSH'') = None" by (simp add: acknowledgeDeicePlatformInBay_def)
  show ?thesis
    using small_gap_moves_strip_to_top [OF ok(1) r _ n(1) _ ok(2,3) _ size ack] n(2,3) by auto
qed

text \<open>
Appending puts a strip at the end: where the largest sequence of the bay leaves room, the
  appended strip gets a sequence above every other strip of the bay.
\<close>

theorem append_is_last:
  assumes "AppendToBay st c bay InitialOrderSpacing = Inr (s, st')" "store_ok st"
    and "- 1000 < sint (GetMaxSequenceInBayUnified st bay)" "sint (GetMaxSequenceInBayUnified st bay) + 1000 < 2 ^ 31"
  shows "strip_seq st' bay (SFlight c) = Some s \<and>
    (\<forall>y t. y \<noteq> SFlight c \<and> strip_seq st' bay y = Some t \<longrightarrow> sint t < sint s)"
proof -
  let ?m = "GetMaxSequenceInBayUnified st bay"
  from assms(1) have s: "s = ?m + InitialOrderSpacing" "st' = UpdateBayAndSequence st c bay s"
      "length (filter (\<lambda>r. fl_Callsign r = c) (st_flights st)) = 1"
    by (auto simp: AppendToBay_def Let_def split: if_splits)
  then have "filter (\<lambda>r. fl_Callsign r = c) (st_flights st) \<noteq> []" by force
  then have c: "c \<in> fl_Callsign ` set (st_flights st)" by (force simp: filter_empty_conv)
  have "sint s = sint ?m + 1000" unfolding s(1) using assms(3,4) by (subst sint_add) (auto simp: in32_def)
  then show ?thesis
    using update_moved [OF assms(2) c] max_sequence strip_seq_in_bay [OF assms(2)]
    by (fastforce simp: s(2) update_others [OF assms(2)])
qed

theorem append_is_last_witness:
  "\<exists>s st'. AppendToBay (sample_bay 1000 1004 2000) ''A'' ''PUSH'' InitialOrderSpacing = Inr (s, st') \<and>
     strip_seq st' ''PUSH'' (SFlight ''A'') = Some s"
proof -
  let ?st = "sample_bay 1000 1004 2000"
  let ?A = "AppendToBay ?st ''A'' ''PUSH'' InitialOrderSpacing"
  have A: "?A = Inr (fst (projr ?A), snd (projr ?A))" by code_simp
  have m: "GetMaxSequenceInBayUnified ?st ''PUSH'' = 2000" by code_simp
  have "store_ok ?st" by (simp add: store_ok_def sample_bay_def sample_row_def)
  from append_is_last [OF A this] A m show ?thesis
    by (intro exI [of _ "fst (projr ?A)"] exI [of _ "snd (projr ?A)"]) simp
qed

end
