(* ===== verification/Sequence_Policy.thy ===== *)
theory Sequence_Policy
  imports Aman_Types
begin

text \<open>
  Runway-group policies of the AMAN sequence engine: the first half of
  \<^verbatim>\<open>internal/aman/sequence/engine.go\<close>. Policies are checked and prepared (rates, gaps and closures
  sorted, the wake matrix complete), and the slot grid is searched forwards and backwards past
  capacity gaps and runway closures.

  A \<^verbatim>\<open>map\<close> built from a slice is an association list. Rates are \<^verbatim>\<open>uint32\<close> numbers, kept as \<^typ>\<open>nat\<close>.
  A zero rate, which preparation rejects, would divide by zero in \<^verbatim>\<open>rateInterval\<close>; the grid search
  finds no slot there. Both grid loops are total functions: every round passes one more gap or
  closure.
\<close>

section \<open>Policies\<close>

record RatePoint =
  EffectiveAt :: gotime
  ArrivalsPerHour :: nat

record Gap =
  gap_Start :: gotime
  gap_End :: gotime

record RunwayClosure =
  cl_Start :: gotime
  cl_End :: "gotime option"

record SeparationRule =
  rule_Leading :: string
  rule_Trailing :: string
  rule_Minimum :: duration

record SameSTARSpacing =
  Enabled :: bool
  ActivationRatePerHour :: nat
  MinimumEmptySlots :: nat

datatype HoldingSequencePolicy = HoldingSequenceUnset | HoldingSequenceDisabled
  | HoldingSequenceLowestAltitudeFirst | HoldingSequenceOther string

fun HoldingSequencePolicy_Valid :: "HoldingSequencePolicy \<Rightarrow> bool" where
  "HoldingSequencePolicy_Valid HoldingSequenceDisabled = True"
| "HoldingSequencePolicy_Valid HoldingSequenceLowestAltitudeFirst = True"
| "HoldingSequencePolicy_Valid _ = False"

fun HoldingSequencePolicy_Effective :: "HoldingSequencePolicy \<Rightarrow> HoldingSequencePolicy" where
  "HoldingSequencePolicy_Effective HoldingSequenceUnset = HoldingSequenceDisabled"
| "HoldingSequencePolicy_Effective p = p"

record STARFamilyPolicy =
  fam_STARFamily :: string
  fam_SameSTARSpacing :: SameSTARSpacing
  fam_HoldingSequencePolicy :: HoldingSequencePolicy

record Policy =
  pol_RunwayGroupID :: string
  ContinuousSpacing :: bool
  AllowCrossFeederOvertake :: bool
  Rates :: "RatePoint list"
  Gaps :: "Gap list"
  Closures :: "RunwayClosure list"
  EarlyTolerance :: duration
  SeparationRules :: "SeparationRule list"
  UnknownSeparation :: duration
  pol_SameSTARSpacing :: SameSTARSpacing

datatype seq_error =
    PolicyRequired | PolicyIDRequired | DuplicatePolicy string | NegativeEarlyTolerance string
  | UnknownSeparationRequired string | InvalidSameSTARSpacing string | RateRequired string
  | InvalidRatePoint string | DuplicateRate string | InvalidGap string | OverlappingGaps string
  | InvalidClosure string | RulesRequired string | InvalidRule string | DuplicateRule string
  | IncompleteMatrix string
  | FamilyRequired | FamilyNotCanonical string | DuplicateFamily string | FamiliesUnordered
  | InvalidFamilySpacing string | InvalidHoldingSequencePolicy string
  | CallsignRequired | DuplicateFlight string | UnknownRunwayGroup string string
  | InvalidFlight string string
  | NoSlotGrid string string | CouldNotAllocate string string

section \<open>STAR families\<close>

record preparedSTARFamilies =
  byFamily :: "(string \<times> SameSTARSpacing \<times> HoldingSequencePolicy) list"
  authoritative :: bool

definition no_spacing :: SameSTARSpacing where
  "no_spacing = \<lparr> Enabled = False, ActivationRatePerHour = 0, MinimumEmptySlots = 0 \<rparr>"

definition spacing_invalid :: "SameSTARSpacing \<Rightarrow> bool" where
  "spacing_invalid s \<longleftrightarrow> Enabled s \<and> (ActivationRatePerHour s = 0 \<or> MinimumEmptySlots s = 0)"

definition spacingFor :: "preparedSTARFamilies \<Rightarrow> string \<Rightarrow> SameSTARSpacing \<Rightarrow> SameSTARSpacing \<times> bool" where
  "spacingFor p family fallback =
     (if \<not> authoritative p then (fallback, True)
      else case map_of (byFamily p) family of None \<Rightarrow> (no_spacing, False) | Some (s, _) \<Rightarrow> (s, True))"

definition holdingSequencePolicyFor :: "preparedSTARFamilies \<Rightarrow> string \<Rightarrow> HoldingSequencePolicy" where
  "holdingSequencePolicyFor p selected =
     (if selected = '''' then HoldingSequenceDisabled
      else case map_of (byFamily p) selected of None \<Rightarrow> HoldingSequenceDisabled | Some (_, h) \<Rightarrow> h)"

fun prepare_families :: "string list \<Rightarrow> string \<Rightarrow> STARFamilyPolicy list
    \<Rightarrow> seq_error + (string \<times> SameSTARSpacing \<times> HoldingSequencePolicy) list" where
  "prepare_families seen prev [] = Inr []"
| "prepare_families seen prev (f # fs) =
     (let family = trim_space (fam_STARFamily f);
          spacing = fam_SameSTARSpacing f;
          holding = HoldingSequencePolicy_Effective (fam_HoldingSequencePolicy f) in
      if family = '''' then Inl FamilyRequired
      else if family \<noteq> fam_STARFamily f then Inl (FamilyNotCanonical (fam_STARFamily f))
      else if family \<in> set seen then Inl (DuplicateFamily family)
      else if prev \<noteq> '''' \<and> family < prev then Inl FamiliesUnordered
      else if spacing_invalid spacing then Inl (InvalidFamilySpacing family)
      else if \<not> HoldingSequencePolicy_Valid holding then Inl (InvalidHoldingSequencePolicy family)
      else case prepare_families (family # seen) family fs of
             Inl e \<Rightarrow> Inl e | Inr r \<Rightarrow> Inr ((family, spacing, holding) # r))"

definition prepareSTARFamilyPolicies :: "STARFamilyPolicy list \<Rightarrow> seq_error + preparedSTARFamilies" where
  "prepareSTARFamilyPolicies fs =
     (case prepare_families [] '''' fs of Inl e \<Rightarrow> Inl e
      | Inr r \<Rightarrow> Inr \<lparr> byFamily = r, authoritative = (fs \<noteq> []) \<rparr>)"

section \<open>Preparation\<close>

record preparedPolicy =
  policy :: Policy
  rates :: "RatePoint list"
  gaps :: "Gap list"
  closures :: "RunwayClosure list"
  spacing_of :: "((string \<times> string) \<times> duration) list"
  categories :: "string list"
  fallback :: duration
  starFamilies :: preparedSTARFamilies
  demandTimes :: "gotime list"
  activeHoldingFamilies :: "string list"

abbreviation group_id :: "preparedPolicy \<Rightarrow> string" where "group_id p \<equiv> pol_RunwayGroupID (policy p)"

definition WakeUnknown :: string where "WakeUnknown = ''UNKNOWN''"

definition normalizeCategory :: "string \<Rightarrow> string" where
  "normalizeCategory c =
     (let n = to_upper (trim_space c) in if n = '''' \<or> n = WakeUnknown then WakeUnknown else n)"

fun check_rates :: "string \<Rightarrow> RatePoint option \<Rightarrow> RatePoint list \<Rightarrow> seq_error + unit" where
  "check_rates g prev [] = Inr ()"
| "check_rates g prev (r # rs) =
     and_then (ensure (valid_utc (EffectiveAt r) \<and> ArrivalsPerHour r \<noteq> 0) (InvalidRatePoint g))
       (and_then (ensure (case prev of None \<Rightarrow> True | Some p \<Rightarrow> \<not> t_equal (EffectiveAt r) (EffectiveAt p)) (DuplicateRate g))
         (check_rates g (Some r) rs))"

definition gap_less :: "Gap \<Rightarrow> Gap \<Rightarrow> bool" where
  "gap_less a b =
     (if \<not> t_equal (gap_Start a) (gap_Start b) then before (gap_Start a) (gap_Start b)
      else before (gap_End a) (gap_End b))"

fun check_gaps :: "string \<Rightarrow> Gap option \<Rightarrow> Gap list \<Rightarrow> seq_error + unit" where
  "check_gaps g prev [] = Inr ()"
| "check_gaps g prev (x # xs) =
     and_then (ensure (valid_utc (gap_Start x) \<and> valid_utc (gap_End x) \<and> before (gap_Start x) (gap_End x)) (InvalidGap g))
       (and_then (ensure (case prev of None \<Rightarrow> True | Some p \<Rightarrow> before (gap_End p) (gap_Start x)) (OverlappingGaps g))
         (check_gaps g (Some x) xs))"

definition closure_ok :: "RunwayClosure \<Rightarrow> bool" where
  "closure_ok c \<longleftrightarrow> valid_utc (cl_Start c) \<and>
     (case cl_End c of None \<Rightarrow> True | Some e \<Rightarrow> valid_utc e \<and> before (cl_Start c) e)"

fun add_rules :: "string \<Rightarrow> SeparationRule list \<Rightarrow> preparedPolicy \<Rightarrow> seq_error + preparedPolicy" where
  "add_rules g [] p = Inr p"
| "add_rules g (r # rs) p =
     (let leading = normalizeCategory (rule_Leading r); trailing = normalizeCategory (rule_Trailing r) in
      if leading = WakeUnknown \<or> trailing = WakeUnknown \<or> rule_Minimum r < 0 then Inl (InvalidRule g)
      else if map_of (spacing_of p) (leading, trailing) \<noteq> None then Inl (DuplicateRule g)
      else add_rules g rs (p\<lparr> spacing_of := ((leading, trailing), rule_Minimum r) # spacing_of p,
             categories := leading # trailing # categories p,
             fallback := (if fallback p < rule_Minimum r then rule_Minimum r else fallback p) \<rparr>))"

definition matrix_complete :: "preparedPolicy \<Rightarrow> bool" where
  "matrix_complete p \<longleftrightarrow>
     list_all (\<lambda>l. list_all (\<lambda>t. map_of (spacing_of p) (l, t) \<noteq> None) (categories p)) (categories p)"

definition preparePolicy :: "preparedSTARFamilies \<Rightarrow> Policy \<Rightarrow> seq_error + preparedPolicy" where
  "preparePolicy families raw =
     (let g = pol_RunwayGroupID raw;
          prepared = \<lparr> policy = raw,
            rates = go_sort (\<lambda>a b. before (EffectiveAt a) (EffectiveAt b)) (Rates raw),
            gaps = go_sort gap_less (Gaps raw),
            closures = go_sort (\<lambda>a b. before (cl_Start a) (cl_Start b)) (Closures raw),
            spacing_of = [], categories = [], fallback = UnknownSeparation raw, starFamilies = families,
            demandTimes = [], activeHoldingFamilies = [] \<rparr> in
      and_then (ensure (0 \<le> EarlyTolerance raw) (NegativeEarlyTolerance g))
     (and_then (ensure (0 < UnknownSeparation raw) (UnknownSeparationRequired g))
     (and_then (ensure (\<not> spacing_invalid (pol_SameSTARSpacing raw)) (InvalidSameSTARSpacing g))
     (and_then (ensure (Rates raw \<noteq> []) (RateRequired g))
     (and_then (check_rates g None (rates prepared))
     (and_then (check_gaps g None (gaps prepared))
     (and_then (ensure (list_all closure_ok (closures prepared)) (InvalidClosure g))
     (and_then (ensure (SeparationRules raw \<noteq> []) (RulesRequired g))
       (case add_rules g (SeparationRules raw) prepared of Inl e \<Rightarrow> Inl e
        | Inr p \<Rightarrow> and_then (ensure (matrix_complete p) (IncompleteMatrix g)) (Inr p))))))))))"

fun prepare_each :: "preparedSTARFamilies \<Rightarrow> Policy list \<Rightarrow> (string \<times> preparedPolicy) list
    \<Rightarrow> seq_error + (string \<times> preparedPolicy) list" where
  "prepare_each families [] acc = Inr acc"
| "prepare_each families (raw # rest) acc =
     (let g = pol_RunwayGroupID raw in
      if trim_space g = '''' then Inl PolicyIDRequired
      else if map_of acc g \<noteq> None then Inl (DuplicatePolicy g)
      else case preparePolicy families raw of Inl e \<Rightarrow> Inl e
           | Inr p \<Rightarrow> prepare_each families rest (acc @ [(g, p)]))"

definition preparePoliciesWithSTARFamilies ::
  "preparedSTARFamilies \<Rightarrow> Policy list \<Rightarrow> seq_error + (string \<times> preparedPolicy) list" where
  "preparePoliciesWithSTARFamilies families input =
     (if input = [] then Inl PolicyRequired else prepare_each families input [])"

definition preparePolicies :: "Policy list \<Rightarrow> seq_error + (string \<times> preparedPolicy) list" where
  "preparePolicies = preparePoliciesWithSTARFamilies \<lparr> byFamily = [], authoritative = False \<rparr>"

section \<open>Rates and the slot grid\<close>

definition rateInterval :: "nat \<Rightarrow> duration" where
  "rateInterval rate = (hour + int rate - 1) div int rate"

definition rate_index :: "RatePoint list \<Rightarrow> gotime \<Rightarrow> nat" where
  "rate_index rs tm = go_search (length rs) (\<lambda>i. after (EffectiveAt (rs ! i)) tm)"

definition rateAt :: "preparedPolicy \<Rightarrow> gotime \<Rightarrow> nat" where
  "rateAt p tm = (let i = rate_index (rates p) tm in if i = 0 then 0 else ArrivalsPerHour (rates p ! (i - 1)))"

definition intervalAt :: "preparedPolicy \<Rightarrow> gotime \<Rightarrow> duration" where
  "intervalAt p tm = (if rateAt p tm = 0 then 0 else rateInterval (rateAt p tm))"

fun next_rate_grid :: "RatePoint list \<Rightarrow> gotime \<Rightarrow> gotime option" where
  "next_rate_grid [] target = None"
| "next_rate_grid (r # rs) target =
     (if rs \<noteq> [] \<and> \<not> before target (EffectiveAt (hd rs)) then next_rate_grid rs target
      else if before target (EffectiveAt r) then Some (EffectiveAt r)
      else if ArrivalsPerHour r = 0 then None
      else (let start = EffectiveAt r;
                interval = rateInterval (ArrivalsPerHour r);
                delta = t_sub target start;
                steps = go_quot delta interval + (if go_rem delta interval \<noteq> 0 then 1 else 0);
                candidate = t_add start (steps * interval) in
            if rs = [] \<or> before candidate (EffectiveAt (hd rs)) then Some candidate
            else next_rate_grid rs target))"

definition nextRateGridAtOrAfter :: "preparedPolicy \<Rightarrow> gotime \<Rightarrow> gotime option" where
  "nextRateGridAtOrAfter p target = next_rate_grid (rates p) target"

definition previousRateGridAtOrBefore :: "preparedPolicy \<Rightarrow> gotime \<Rightarrow> gotime option" where
  "previousRateGridAtOrBefore p target =
     (let i = rate_index (rates p) target in
      if i = 0 then None
      else (let rate = rates p ! (i - 1); interval = rateInterval (ArrivalsPerHour rate) in
        if ArrivalsPerHour rate = 0 then None
        else Some (t_add (EffectiveAt rate) (go_quot (t_sub target (EffectiveAt rate)) interval * interval))))"

definition blockingGap :: "preparedPolicy \<Rightarrow> gotime \<Rightarrow> Gap option" where
  "blockingGap p candidate =
     (let i = go_search (length (gaps p)) (\<lambda>i. after (gap_End (gaps p ! i)) candidate) in
      if i = length (gaps p) then None
      else (let gap = gaps p ! i in
        if \<not> before candidate (gap_Start gap) \<and> before candidate (gap_End gap) then Some gap else None))"

text \<open>The closure in force, if any: \<open>Some None\<close> is one without an end.\<close>

fun blocking_closure :: "RunwayClosure list \<Rightarrow> gotime \<Rightarrow> gotime option option" where
  "blocking_closure [] candidate = None"
| "blocking_closure (c # cs) candidate =
     (if before candidate (cl_Start c) then None
      else case cl_End c of None \<Rightarrow> Some None
        | Some e \<Rightarrow> if before candidate e then Some (Some e) else blocking_closure cs candidate)"

definition blockingClosure :: "preparedPolicy \<Rightarrow> gotime \<Rightarrow> gotime option option" where
  "blockingClosure p candidate = blocking_closure (closures p) candidate"

definition truncate_second :: "gotime \<Rightarrow> gotime" where
  "truncate_second t = Time (ns t div second * second) (loc t)"

definition first_rate :: "preparedPolicy \<Rightarrow> gotime" where "first_rate p = EffectiveAt (rates p ! 0)"

definition next_candidate :: "preparedPolicy \<Rightarrow> gotime \<Rightarrow> gotime option" where
  "next_candidate p target =
     (if ContinuousSpacing (policy p) then
        (let target' = (if before target (first_rate p) then first_rate p else target);
             candidate = truncate_second target' in
         Some (if before candidate target' then t_add candidate second else candidate))
      else nextRateGridAtOrAfter p target)"

definition previous_candidate :: "preparedPolicy \<Rightarrow> gotime \<Rightarrow> gotime option" where
  "previous_candidate p target =
     (if ContinuousSpacing (policy p) then
        (let candidate = truncate_second target in
         if before candidate (first_rate p) then None else Some candidate)
      else previousRateGridAtOrBefore p target)"

definition in_closure :: "gotime \<Rightarrow> RunwayClosure \<Rightarrow> bool" where
  "in_closure t c \<longleftrightarrow> \<not> before t (cl_Start c) \<and> (case cl_End c of None \<Rightarrow> True | Some e \<Rightarrow> before t e)"

section \<open>Searching the grid\<close>

lemma rateInterval_pos: "0 < r \<Longrightarrow> 0 < rateInterval r"
  unfolding rateInterval_def by (subst pos_imp_zdiv_pos_iff) auto

text \<open>Rounding a distance up to whole steps gives the least multiple that reaches it.\<close>

lemma steps_up:
  assumes "0 \<le> d" "0 < i"
  defines "k \<equiv> go_quot d i + (if go_rem d i \<noteq> 0 then 1 else 0)"
  shows "0 \<le> k" "d \<le> k * i" "d \<le> m * i \<Longrightarrow> k \<le> m"
proof -
  have e: "(d div i) * i + d mod i = d" "0 \<le> d mod i" "d mod i < i" using assms(2) by auto
  have k: "k = d div i + (if d mod i \<noteq> 0 then 1 else 0)" using assms by (simp add: k_def go_quot_nonneg go_rem_nonneg)
  show "0 \<le> k" unfolding k using assms(1,2) by (simp add: pos_imp_zdiv_nonneg_iff)
  have ki: "k * i = (d div i) * i + (if d mod i \<noteq> 0 then i else 0)" unfolding k by (simp add: distrib_right)
  show "d \<le> k * i" using e unfolding ki by (split if_split) linarith
  assume m: "d \<le> m * i"
  show "k \<le> m"
  proof (cases "d mod i = 0")
    case True
    then have "(d div i) * i \<le> m * i" using m e(1) by linarith
    with True assms(2) show ?thesis by (simp add: k)
  next
    case False
    with e(1,2) m have "(d div i) * i < m * i" by linarith
    with False assms(2) show ?thesis by (simp add: k)
  qed
qed

lemma next_rate_grid_ge: "next_rate_grid rs target = Some c \<Longrightarrow> ns target \<le> ns c"
proof (induction rs target rule: next_rate_grid.induct)
  case (2 r rs target)
  let ?d = "t_sub target (EffectiveAt r)" and ?i = "rateInterval (ArrivalsPerHour r)"
  have "ns target \<le> ns (t_add (EffectiveAt r) ((go_quot ?d ?i + (if go_rem ?d ?i \<noteq> 0 then 1 else 0)) * ?i))"
    if "ArrivalsPerHour r \<noteq> 0" "\<not> before target (EffectiveAt r)"
    using steps_up(2) [of ?d ?i] that rateInterval_pos by (simp add: go_time)
  with 2 show ?case by (auto simp: Let_def before_def split: if_splits)
qed simp

lemma next_candidate_ge:
  assumes "next_candidate p target = Some c"
  shows "ns target \<le> ns c"
proof (cases "ContinuousSpacing (policy p)")
  case True
  have "ns t \<le> ns t div second * second + second" for t
    using div_mult_mod_eq [of "ns t" second] pos_mod_bound [of second "ns t"] by linarith
  with True assms show ?thesis
    by (fastforce simp: next_candidate_def Let_def go_time truncate_second_def split: if_splits)
next
  case False
  with assms show ?thesis by (simp add: next_candidate_def nextRateGridAtOrAfter_def next_rate_grid_ge)
qed

lemma rate_index_le: "rate_index rs t \<noteq> 0 \<Longrightarrow> ns (EffectiveAt (rs ! (rate_index rs t - 1))) \<le> ns t"
  using go_search_boundary(1) [of "length rs" "\<lambda>i. after (EffectiveAt (rs ! i)) t"]
  by (simp add: rate_index_def go_time)

lemma steps_down: "0 \<le> d \<Longrightarrow> 0 < i \<Longrightarrow> go_quot d i * i \<le> d \<and> d < go_quot d i * i + i"
  unfolding go_quot_nonneg using div_mult_mod_eq [of d i] pos_mod_bound [of i d] pos_mod_sign [of i d] by linarith

lemma previous_candidate_le:
  assumes "previous_candidate p target = Some c"
  shows "ns c \<le> ns target"
proof (cases "ContinuousSpacing (policy p)")
  case True
  with assms show ?thesis
    using div_mult_mod_eq [of "ns target" second] pos_mod_sign [of second "ns target"]
    by (auto simp: previous_candidate_def Let_def truncate_second_def split: if_splits)
next
  case False
  define r where "r = rates p ! (rate_index (rates p) target - 1)"
  from False assms have i: "rate_index (rates p) target \<noteq> 0" "0 < ArrivalsPerHour r"
    and c: "c = t_add (EffectiveAt r) (go_quot (t_sub target (EffectiveAt r)) (rateInterval (ArrivalsPerHour r)) * rateInterval (ArrivalsPerHour r))"
    by (auto simp: previous_candidate_def previousRateGridAtOrBefore_def Let_def r_def split: if_splits)
  from i(1) have "ns (EffectiveAt r) \<le> ns target" unfolding r_def by (rule rate_index_le)
  then show ?thesis
    using steps_down [of "t_sub target (EffectiveAt r)" "rateInterval (ArrivalsPerHour r)"] rateInterval_pos [OF i(2)]
    by (simp add: c go_time)
qed

lemma blockingGap_Some:
  assumes "blockingGap p c = Some g"
  shows "g \<in> set (gaps p)" "ns (gap_Start g) \<le> ns c" "ns c < ns (gap_End g)"
proof -
  have "go_search (length (gaps p)) (\<lambda>i. after (gap_End (gaps p ! i)) c) \<le> length (gaps p)" by (rule go_search_le)
  with assms show "g \<in> set (gaps p)" "ns (gap_Start g) \<le> ns c" "ns c < ns (gap_End g)"
    by (auto simp: blockingGap_def Let_def go_time split: if_splits)
qed

lemma blocking_closure_Some:
  "blocking_closure cs t = Some b \<Longrightarrow> \<exists>c \<in> set cs. cl_End c = b \<and> in_closure t c"
proof (induction cs)
  case (Cons c cs)
  show ?case
  proof (cases "in_closure t c")
    case True
    with Cons.prems show ?thesis by (auto simp: in_closure_def split: if_splits option.splits)
  next
    case False
    with Cons.prems have "blocking_closure cs t = Some b" by (auto simp: in_closure_def split: if_splits option.splits)
    with Cons.IH show ?thesis by simp
  qed
qed simp

text \<open>The gaps and closures still ahead of an instant, and those already behind it.\<close>

definition ahead :: "preparedPolicy \<Rightarrow> gotime \<Rightarrow> nat" where
  "ahead p t = length (filter (\<lambda>g. ns t < ns (gap_End g)) (gaps p)) +
     length (filter (\<lambda>c. case cl_End c of None \<Rightarrow> False | Some e \<Rightarrow> ns t < ns e) (closures p))"

definition behind :: "preparedPolicy \<Rightarrow> gotime \<Rightarrow> nat" where
  "behind p t = length (filter (\<lambda>g. ns (gap_Start g) \<le> ns t) (gaps p)) +
     length (filter (\<lambda>c. ns (cl_Start c) \<le> ns t) (closures p))"

lemma ahead_closure:
  assumes "blockingClosure p c = Some (Some e)" "ns t \<le> ns c"
  shows "ahead p e < ahead p t"
proof -
  from blocking_closure_Some [OF assms(1) [unfolded blockingClosure_def]]
  obtain cl where cl: "cl \<in> set (closures p)" "cl_End cl = Some e" "in_closure c cl" by blast
  then have c: "ns c < ns e" by (simp add: in_closure_def before_def)
  show ?thesis unfolding ahead_def
  proof (rule add_le_less_mono)
    show "length (filter (\<lambda>g. ns e < ns (gap_End g)) (gaps p)) \<le> length (filter (\<lambda>g. ns t < ns (gap_End g)) (gaps p))"
      using c assms(2) by (intro length_filter_mono) simp
    show "length (filter (\<lambda>c. case cl_End c of None \<Rightarrow> False | Some e' \<Rightarrow> ns e < ns e') (closures p)) <
        length (filter (\<lambda>c. case cl_End c of None \<Rightarrow> False | Some e' \<Rightarrow> ns t < ns e') (closures p))"
      using cl(1,2) c assms(2) by (intro length_filter_strict [where x = cl]) (auto split: option.splits)
  qed
qed

lemma ahead_gap:
  assumes "blockingGap p c = Some g" "ns t \<le> ns c"
  shows "ahead p (gap_End g) < ahead p t"
  unfolding ahead_def
proof (rule add_less_le_mono)
  note g = blockingGap_Some [OF assms(1)]
  show "length (filter (\<lambda>x. ns (gap_End g) < ns (gap_End x)) (gaps p)) < length (filter (\<lambda>g. ns t < ns (gap_End g)) (gaps p))"
    using g assms(2) by (intro length_filter_strict [where x = g]) auto
  show "length (filter (\<lambda>c. case cl_End c of None \<Rightarrow> False | Some e' \<Rightarrow> ns (gap_End g) < ns e') (closures p)) \<le>
      length (filter (\<lambda>c. case cl_End c of None \<Rightarrow> False | Some e' \<Rightarrow> ns t < ns e') (closures p))"
    using g assms(2) by (intro length_filter_mono) (auto split: option.splits)
qed

lemma behind_closure:
  assumes "find (in_closure c) (closures p) = Some cl" "ns c \<le> ns t"
  shows "behind p (t_add (cl_Start cl) (- 1)) < behind p t"
  unfolding behind_def
proof (rule add_le_less_mono)
  have cl: "cl \<in> set (closures p)" "ns (cl_Start cl) \<le> ns c" using find_SomeD [OF assms(1)] by (auto simp: in_closure_def go_time)
  show "length (filter (\<lambda>g. ns (gap_Start g) \<le> ns (t_add (cl_Start cl) (- 1))) (gaps p)) \<le> length (filter (\<lambda>g. ns (gap_Start g) \<le> ns t) (gaps p))"
    using cl assms(2) by (intro length_filter_mono) (simp add: t_add_def)
  show "length (filter (\<lambda>x. ns (cl_Start x) \<le> ns (t_add (cl_Start cl) (- 1))) (closures p)) < length (filter (\<lambda>c. ns (cl_Start c) \<le> ns t) (closures p))"
    using cl assms(2) by (intro length_filter_strict [where x = cl]) (auto simp: t_add_def)
qed

lemma behind_gap:
  assumes "blockingGap p c = Some g" "ns c \<le> ns t"
  shows "behind p (t_add (gap_Start g) (- 1)) < behind p t"
  unfolding behind_def
proof (rule add_less_le_mono)
  note g = blockingGap_Some [OF assms(1)]
  show "length (filter (\<lambda>x. ns (gap_Start x) \<le> ns (t_add (gap_Start g) (- 1))) (gaps p)) < length (filter (\<lambda>g. ns (gap_Start g) \<le> ns t) (gaps p))"
    using g assms(2) by (intro length_filter_strict [where x = g]) (auto simp: t_add_def)
  show "length (filter (\<lambda>c. ns (cl_Start c) \<le> ns (t_add (gap_Start g) (- 1))) (closures p)) \<le> length (filter (\<lambda>c. ns (cl_Start c) \<le> ns t) (closures p))"
    using g assms(2) by (intro length_filter_mono) (simp add: t_add_def)
qed

function nextGridAtOrAfter :: "preparedPolicy \<Rightarrow> gotime \<Rightarrow> gotime option" where
  "nextGridAtOrAfter p target =
     (case next_candidate p target of
        None \<Rightarrow> None
      | Some candidate \<Rightarrow>
          (case blockingClosure p candidate of
             Some None \<Rightarrow> None
           | Some (Some closed_until) \<Rightarrow> nextGridAtOrAfter p closed_until
           | None \<Rightarrow>
               (case blockingGap p candidate of
                  None \<Rightarrow> Some candidate
                | Some gap \<Rightarrow> nextGridAtOrAfter p (gap_End gap))))"
  by pat_completeness auto
termination
  by (relation "measure (\<lambda>(p, t). ahead p t)") (auto intro: ahead_closure ahead_gap next_candidate_ge)

function previousGridAtOrBefore :: "preparedPolicy \<Rightarrow> gotime \<Rightarrow> gotime option" where
  "previousGridAtOrBefore p target =
     (case previous_candidate p target of
        None \<Rightarrow> None
      | Some candidate \<Rightarrow>
          (if blockingClosure p candidate \<noteq> None then
             (case find (in_closure candidate) (closures p) of
                None \<Rightarrow> None
              | Some cl \<Rightarrow> previousGridAtOrBefore p (t_add (cl_Start cl) (- 1)))
           else
             (case blockingGap p candidate of
                None \<Rightarrow> Some candidate
              | Some gap \<Rightarrow> previousGridAtOrBefore p (t_add (gap_Start gap) (- 1)))))"
  by pat_completeness auto
termination
  by (relation "measure (\<lambda>(p, t). behind p t)") (auto intro: behind_closure behind_gap previous_candidate_le)

declare nextGridAtOrAfter.simps [simp del] previousGridAtOrBefore.simps [simp del]

section \<open>What a prepared policy guarantees\<close>

definition rate_before :: "RatePoint \<Rightarrow> RatePoint \<Rightarrow> bool" where
  "rate_before a b \<longleftrightarrow> ns (EffectiveAt a) < ns (EffectiveAt b)"

definition prepared_ok :: "preparedPolicy \<Rightarrow> bool" where
  "prepared_ok p \<longleftrightarrow> rates p \<noteq> [] \<and> sorted_wrt rate_before (rates p) \<and> (\<forall>r \<in> set (rates p). 0 < ArrivalsPerHour r) \<and>
     sorted_wrt (\<lambda>a b. ns (gap_End a) < ns (gap_Start b)) (gaps p) \<and> (\<forall>g \<in> set (gaps p). ns (gap_Start g) < ns (gap_End g)) \<and>
     sorted (map (\<lambda>c. ns (cl_Start c)) (closures p))"

lemma check_rates_sorted:
  assumes "check_rates g prev rs = Inr u" "sorted (map (\<lambda>r. ns (EffectiveAt r)) rs)"
  shows "sorted_wrt rate_before rs \<and> (\<forall>r \<in> set rs. 0 < ArrivalsPerHour r)"
  using assms
proof (induction g prev rs rule: check_rates.induct)
  case (2 g prev r rs)
  then have rs: "check_rates g (Some r) rs = Inr u" "0 < ArrivalsPerHour r" by auto
  then have IH: "sorted_wrt rate_before rs" "\<forall>r \<in> set rs. 0 < ArrivalsPerHour r" using 2 by auto
  have "rate_before r x" if x: "x \<in> set rs" for x
  proof (cases rs)
    case Nil
    with x show ?thesis by simp
  next
    case (Cons y ys)
    with rs(1) have "ns (EffectiveAt y) \<noteq> ns (EffectiveAt r)" by (auto simp: go_time)
    moreover have "ns (EffectiveAt r) \<le> ns (EffectiveAt y)" using 2(3) Cons by simp
    moreover have "ns (EffectiveAt y) \<le> ns (EffectiveAt x)" using 2(3) Cons x by auto
    ultimately show ?thesis by (simp add: rate_before_def)
  qed
  with IH rs(2) show ?case by simp
qed simp

lemma check_gaps_sorted:
  assumes "check_gaps g prev xs = Inr u"
  shows "sorted_wrt (\<lambda>a b. ns (gap_End a) < ns (gap_Start b)) xs \<and> (\<forall>x \<in> set xs. ns (gap_Start x) < ns (gap_End x)) \<and>
    (case prev of None \<Rightarrow> True | Some y \<Rightarrow> \<forall>x \<in> set xs. ns (gap_End y) < ns (gap_Start x))"
  using assms
proof (induction g prev xs rule: check_gaps.induct)
  case (2 g prev x xs)
  then have x: "ns (gap_Start x) < ns (gap_End x)" "check_gaps g (Some x) xs = Inr u"
      "case prev of None \<Rightarrow> True | Some y \<Rightarrow> ns (gap_End y) < ns (gap_Start x)" by (auto simp: go_time split: option.splits)
  with 2 have IH: "sorted_wrt (\<lambda>a b. ns (gap_End a) < ns (gap_Start b)) xs" "\<forall>x \<in> set xs. ns (gap_Start x) < ns (gap_End x)"
      "\<forall>y \<in> set xs. ns (gap_End x) < ns (gap_Start y)" by auto
  with x show ?case by (force split: option.splits)
qed (simp split: option.split)

lemma add_rules_fields:
  "add_rules g rs p = Inr q \<Longrightarrow> policy q = policy p \<and> rates q = rates p \<and> gaps q = gaps p \<and> closures q = closures p \<and>
     starFamilies q = starFamilies p \<and> fallback p \<le> fallback q"
  by (induction g rs p rule: add_rules.induct) (fastforce simp: Let_def split: if_splits)+

lemma preparePolicy_ok:
  assumes "preparePolicy families raw = Inr p"
  shows "prepared_ok p" "policy p = raw" "0 < fallback p" "0 \<le> EarlyTolerance raw"
proof -
  let ?rs = "go_sort (\<lambda>a b. before (EffectiveAt a) (EffectiveAt b)) (Rates raw)"
  let ?cs = "go_sort (\<lambda>a b. before (cl_Start a) (cl_Start b)) (Closures raw)"
  have r: "sorted (map (\<lambda>r. ns (EffectiveAt r)) ?rs)" and c: "sorted (map (\<lambda>c. ns (cl_Start c)) ?cs)"
    by (rule sorted_go_sort_key, simp add: key_first_def before_def)+
  from assms obtain q u where q: "add_rules (pol_RunwayGroupID raw) (SeparationRules raw) q = Inr p"
      "policy q = raw" "rates q = ?rs" "gaps q = go_sort gap_less (Gaps raw)" "closures q = ?cs" "fallback q = UnknownSeparation raw"
      "check_rates (pol_RunwayGroupID raw) None ?rs = Inr u" "check_gaps (pol_RunwayGroupID raw) None (go_sort gap_less (Gaps raw)) = Inr u"
      "0 < UnknownSeparation raw" "0 \<le> EarlyTolerance raw" "Rates raw \<noteq> []"
    by (auto simp: preparePolicy_def Let_def split: sum.splits)
  note f = add_rules_fields [OF q(1)]
  have ne: "?rs \<noteq> []" using q(11) by (metis length_0_conv length_go_sort)
  show "prepared_ok p"
    using check_rates_sorted [OF q(7) r] check_gaps_sorted [OF q(8)] c f q(2-6) ne by (auto simp: prepared_ok_def)
  show "policy p = raw" "0 < fallback p" "0 \<le> EarlyTolerance raw" using f q by auto
qed

section \<open>The grid search is exact\<close>

fun grid_of :: "RatePoint list \<Rightarrow> int \<Rightarrow> bool" where
  "grid_of [] x \<longleftrightarrow> False"
| "grid_of (r # rs) x \<longleftrightarrow>
     ns (EffectiveAt r) \<le> x \<and> rateInterval (ArrivalsPerHour r) dvd (x - ns (EffectiveAt r)) \<and> (rs = [] \<or> x < ns (EffectiveAt (hd rs)))
     \<or> grid_of rs x"

definition on_grid :: "preparedPolicy \<Rightarrow> gotime \<Rightarrow> bool" where
  "on_grid p t \<longleftrightarrow>
     (if ContinuousSpacing (policy p) then second dvd ns t \<and> ns (first_rate p) \<le> ns t else grid_of (rates p) (ns t))"

definition slot_open :: "preparedPolicy \<Rightarrow> gotime \<Rightarrow> bool" where
  "slot_open p t \<longleftrightarrow> list_all (\<lambda>g. \<not> (ns (gap_Start g) \<le> ns t \<and> ns t < ns (gap_End g))) (gaps p) \<and>
     list_all (\<lambda>c. \<not> in_closure t c) (closures p)"

lemma grid_of_ge: "sorted_wrt rate_before rs \<Longrightarrow> grid_of rs x \<Longrightarrow> ns (EffectiveAt (hd rs)) \<le> x"
proof (induction rs)
  case (Cons r rs)
  then show ?case by (cases rs) (auto simp: rate_before_def)
qed simp

lemma next_rate_grid_exact:
  assumes "sorted_wrt rate_before rs" "\<forall>r \<in> set rs. 0 < ArrivalsPerHour r" "rs \<noteq> []"
  shows "\<exists>c. next_rate_grid rs t = Some c \<and> grid_of rs (ns c) \<and> ns t \<le> ns c \<and> (\<forall>x. grid_of rs x \<and> ns t \<le> x \<longrightarrow> ns c \<le> x)"
  using assms
proof (induction rs t rule: next_rate_grid.induct)
  case (2 r rs t)
  let ?e = "ns (EffectiveAt r)" and ?i = "rateInterval (ArrivalsPerHour r)"
  let ?h = "ns (EffectiveAt (hd rs))"
  have srt: "sorted_wrt rate_before rs" "\<forall>r \<in> set rs. 0 < ArrivalsPerHour r" and i: "0 < ?i"
    using 2 by (auto intro: rateInterval_pos)
  have eh: "?e < ?h" if "rs \<noteq> []" using 2(3) that by (cases rs) (auto simp: rate_before_def)
  have ge: "?h \<le> x" if "grid_of rs x" for x using grid_of_ge srt(1) that by blast
  define k where "k = go_quot (ns t - ?e) ?i + (if go_rem (ns t - ?e) ?i \<noteq> 0 then 1 else 0)"
  have k: "0 \<le> k" "ns t \<le> ?e + k * ?i" "\<And>x. ?i dvd (x - ?e) \<Longrightarrow> ns t \<le> x \<Longrightarrow> ?e + k * ?i \<le> x" if "?e \<le> ns t"
  proof -
    have d: "0 \<le> ns t - ?e" using that by simp
    show "0 \<le> k" "ns t \<le> ?e + k * ?i" using steps_up(1,2) [OF d i] by (auto simp: k_def)
    fix x assume x: "?i dvd (x - ?e)" "ns t \<le> x"
    then obtain m where m: "x - ?e = m * ?i" by (auto simp: dvd_def mult.commute)
    with x(2) have "ns t - ?e \<le> m * ?i" by simp
    then have "k \<le> m" using steps_up(3) [OF d i] by (simp add: k_def)
    then have "k * ?i \<le> m * ?i" using i by simp
    with m show "?e + k * ?i \<le> x" by simp
  qed
  consider (later) "rs \<noteq> []" "?h \<le> ns t" | (start) "rs = [] \<or> ns t < ?h" "ns t < ?e"
    | (here) "rs = [] \<or> ns t < ?h" "?e \<le> ns t" "rs = [] \<or> ?e + k * ?i < ?h"
    | (beyond) "rs \<noteq> []" "ns t < ?h" "?e \<le> ns t" "?h \<le> ?e + k * ?i" by linarith
  then show ?case
  proof cases
    case later
    then have eq: "next_rate_grid (r # rs) t = next_rate_grid rs t" by (simp add: before_def)
    have "\<exists>c. next_rate_grid rs t = Some c \<and> grid_of rs (ns c) \<and> ns t \<le> ns c \<and> (\<forall>x. grid_of rs x \<and> ns t \<le> x \<longrightarrow> ns c \<le> x)"
      using 2(1) srt later by (simp add: before_def)
    then show ?thesis unfolding eq using later by auto
  next
    case start
    then have "next_rate_grid (r # rs) t = Some (EffectiveAt r)" by (auto simp: before_def)
    then show ?thesis using start eh ge by force
  next
    case here
    then have eq: "next_rate_grid (r # rs) t = Some (t_add (EffectiveAt r) (k * ?i))"
      using 2(4) by (auto simp: before_def Let_def t_sub_def t_add_def k_def)
    show ?thesis unfolding eq using here k ge by (fastforce simp: t_add_def)
  next
    case beyond
    then have eq: "next_rate_grid (r # rs) t = next_rate_grid rs t"
      using 2(4) by (auto simp: before_def Let_def t_sub_def t_add_def k_def)
    have "\<exists>c. next_rate_grid rs t = Some c \<and> grid_of rs (ns c) \<and> ns t \<le> ns c \<and> (\<forall>x. grid_of rs x \<and> ns t \<le> x \<longrightarrow> ns c \<le> x)"
      using 2(2) srt beyond 2(4) by (auto simp: before_def Let_def t_sub_def t_add_def k_def)
    then show ?thesis unfolding eq using beyond k(3) by fastforce
  qed
qed simp

lemma grid_of_nth:
  "grid_of rs x \<longleftrightarrow> (\<exists>k < length rs. ns (EffectiveAt (rs ! k)) \<le> x \<and> rateInterval (ArrivalsPerHour (rs ! k)) dvd (x - ns (EffectiveAt (rs ! k))) \<and>
     (Suc k < length rs \<longrightarrow> x < ns (EffectiveAt (rs ! Suc k))))"
proof (induction rs)
  case (Cons r rs)
  have split: "(\<exists>k < length (r # rs). P k) \<longleftrightarrow> P 0 \<or> (\<exists>k < length rs. P (Suc k))" for P
    using less_Suc_eq_0_disj by auto
  show ?case unfolding grid_of.simps Cons.IH split by (cases rs) simp_all
qed simp

lemma rate_index_sorted:
  assumes "sorted_wrt rate_before rs"
  shows "rate_index rs t \<le> length rs" "k < rate_index rs t \<Longrightarrow> ns (EffectiveAt (rs ! k)) \<le> ns t"
    "rate_index rs t \<le> k \<Longrightarrow> k < length rs \<Longrightarrow> ns t < ns (EffectiveAt (rs ! k))"
proof -
  have "after (EffectiveAt (rs ! b)) t" if "a \<le> b" "b < length rs" "after (EffectiveAt (rs ! a)) t" for a b
    using that assms sorted_wrt_nth_less [of rate_before rs a b] by (cases "a = b") (auto simp: rate_before_def after_def)
  then have mono: "\<forall>a b. a \<le> b \<and> b < length rs \<and> after (EffectiveAt (rs ! a)) t \<longrightarrow> after (EffectiveAt (rs ! b)) t" by blast
  show "rate_index rs t \<le> length rs" by (simp add: rate_index_def go_search_le)
  show "k < rate_index rs t \<Longrightarrow> ns (EffectiveAt (rs ! k)) \<le> ns t"
    "rate_index rs t \<le> k \<Longrightarrow> k < length rs \<Longrightarrow> ns t < ns (EffectiveAt (rs ! k))"
    using go_search_mono [OF mono] by (simp_all add: rate_index_def after_def not_less)
qed

lemma previous_rate_exact:
  assumes "prepared_ok p"
  shows "case previousRateGridAtOrBefore p t of
      None \<Rightarrow> \<forall>x. grid_of (rates p) x \<longrightarrow> ns t < x
    | Some c \<Rightarrow> grid_of (rates p) (ns c) \<and> ns c \<le> ns t \<and> (\<forall>x. grid_of (rates p) x \<and> x \<le> ns t \<longrightarrow> x \<le> ns c)"
proof -
  let ?rs = "rates p"
  define i where "i = rate_index ?rs t"
  have srt: "sorted_wrt rate_before ?rs" and pos: "\<forall>r \<in> set ?rs. 0 < ArrivalsPerHour r" using assms by (auto simp: prepared_ok_def)
  note idx = rate_index_sorted [OF srt, where t = t, folded i_def]
  show ?thesis
  proof (cases "i = 0")
    case True
    then have "\<forall>x. grid_of ?rs x \<longrightarrow> ns t < x"
      using idx(3) unfolding grid_of_nth by (metis less_le_trans not_less_zero le0)
    with True show ?thesis by (simp add: previousRateGridAtOrBefore_def i_def)
  next
    case False
    define r where "r = ?rs ! (i - 1)"
    have nth: "?rs ! (i - Suc 0) = r" by (simp add: r_def)
    have r: "i - 1 < length ?rs" "0 < ArrivalsPerHour r" using False idx(1) pos by (auto simp: r_def)
    let ?e = "ns (EffectiveAt r)" and ?j = "rateInterval (ArrivalsPerHour r)"
    have e: "?e \<le> ns t" using idx(2) [of "i - 1"] False by (simp add: r_def)
    define q where "q = go_quot (ns t - ?e) ?j"
    have q: "q * ?j \<le> ns t - ?e" "ns t - ?e < q * ?j + ?j" "0 \<le> q"
      using steps_down [of "ns t - ?e" ?j] rateInterval_pos [OF r(2)] e by (auto simp: q_def go_quot_nonneg pos_imp_zdiv_nonneg_iff)
    have eq: "previousRateGridAtOrBefore p t = Some (t_add (EffectiveAt r) (q * ?j))"
      using False r(2) unfolding previousRateGridAtOrBefore_def i_def [symmetric] Let_def r_def [symmetric] q_def t_sub_def by simp
    have on: "grid_of ?rs (?e + q * ?j)"
      unfolding grid_of_nth using r(1) q idx(3) [of i] False rateInterval_pos [OF r(2)]
      by (intro exI [of _ "i - 1"]) (auto simp: nth)
    have "x \<le> ?e + q * ?j" if x: "grid_of ?rs x" "x \<le> ns t" for x
    proof -
      from x(1) obtain k where k: "k < length ?rs" "ns (EffectiveAt (?rs ! k)) \<le> x"
          "rateInterval (ArrivalsPerHour (?rs ! k)) dvd (x - ns (EffectiveAt (?rs ! k)))"
          "Suc k < length ?rs \<longrightarrow> x < ns (EffectiveAt (?rs ! Suc k))" unfolding grid_of_nth by blast
      have "k < i" using idx(3) [of k] k(1,2) x(2) by (meson le_less_trans not_less order.strict_trans1)
      show ?thesis
      proof (cases "k = i - 1")
        case True
        then obtain m where m: "x - ?e = m * ?j" using k(3) by (auto simp: r_def dvd_def mult.commute)
        with x(2) q(2) have "m * ?j < (q + 1) * ?j" by (simp add: distrib_right)
        then have "m * ?j \<le> q * ?j" using rateInterval_pos [OF r(2)] by simp
        with m show ?thesis by simp
      next
        case False
        with \<open>k < i\<close> have k': "Suc k \<le> i - 1" by simp
        then have "x < ns (EffectiveAt (?rs ! Suc k))" using k(4) r(1) by simp
        also have "\<dots> \<le> ?e" using k' srt r(1) sorted_wrt_nth_less [of rate_before ?rs "Suc k" "i - 1"]
          by (cases "Suc k = i - 1") (auto simp: r_def rate_before_def)
        also have "\<dots> \<le> ?e + q * ?j" using q(3) rateInterval_pos [OF r(2)] by simp
        finally show ?thesis by simp
      qed
    qed
    with eq on q(1) show ?thesis by (simp add: t_add_def)
  qed
qed

lemma next_candidate_exact:
  assumes "prepared_ok p"
  shows "\<exists>c. next_candidate p t = Some c \<and> on_grid p c \<and> ns t \<le> ns c \<and> (\<forall>x. on_grid p x \<and> ns t \<le> ns x \<longrightarrow> ns c \<le> ns x)"
proof (cases "ContinuousSpacing (policy p)")
  case False
  with next_rate_grid_exact [of "rates p" t] assms show ?thesis
    by (fastforce simp: prepared_ok_def next_candidate_def nextRateGridAtOrAfter_def on_grid_def)
next
  case True
  define u where "u = (if before t (first_rate p) then first_rate p else t)"
  define c where "c = (let c = truncate_second u in if before c u then t_add c second else c)"
  have u: "ns u = max (ns t) (ns (first_rate p))" by (auto simp: u_def before_def)
  have m: "ns u div second * second + ns u mod second = ns u" "0 \<le> ns u mod second" "ns u mod second < second" by simp_all
  have c: "ns c = (if ns u mod second = 0 then ns u else ns u div second * second + second)"
  proof -
    have "ns u div second * second < ns u \<longleftrightarrow> ns u mod second \<noteq> 0" using m by linarith
    then show ?thesis using m unfolding c_def Let_def truncate_second_def go_time by (simp del: div_mult_mod_eq) linarith
  qed
  have "second dvd ns c" unfolding c by (auto simp: mod_eq_0_iff_dvd)
  moreover have "ns u \<le> ns c" using m unfolding c by (split if_split) linarith
  moreover have "ns c \<le> ns x" if "second dvd ns x" "ns u \<le> ns x" for x
  proof -
    from that(1) obtain k where k: "ns x = k * second" by (auto simp: dvd_def mult.commute)
    show ?thesis
    proof (cases "ns u mod second = 0")
      case True
      with that(2) show ?thesis by (simp add: c)
    next
      case False
      with m k that(2) have "ns u div second * second < k * second" by linarith
      then have "ns u div second + 1 \<le> k" by simp
      with False k show ?thesis by (simp add: c)
    qed
  qed
  moreover have "next_candidate p t = Some c" using True by (simp add: next_candidate_def u_def c_def Let_def)
  ultimately show ?thesis using True u by (auto simp: on_grid_def)
qed

lemma previous_candidate_exact:
  assumes "prepared_ok p"
  shows "case previous_candidate p t of
      None \<Rightarrow> \<forall>x. on_grid p x \<longrightarrow> ns t < ns x
    | Some c \<Rightarrow> on_grid p c \<and> ns c \<le> ns t \<and> (\<forall>x. on_grid p x \<and> ns x \<le> ns t \<longrightarrow> ns x \<le> ns c)"
proof (cases "ContinuousSpacing (policy p)")
  case False
  with previous_rate_exact [OF assms, of t] show ?thesis
    by (auto simp: previous_candidate_def on_grid_def split: option.splits)
next
  case True
  have m: "ns t div second * second + ns t mod second = ns t" "0 \<le> ns t mod second" "ns t mod second < second" by simp_all
  have "ns x \<le> ns t div second * second" if "second dvd ns x" "ns x \<le> ns t" for x
  proof -
    from that(1) obtain k where k: "ns x = k * second" by (auto simp: dvd_def mult.commute)
    with m that(2) have "k * second < ns t div second * second + second" by linarith
    then have "k \<le> ns t div second" by simp
    with k show ?thesis by simp
  qed
  moreover have "ns t div second * second \<le> ns t" using m by linarith
  ultimately show ?thesis using True
    by (fastforce simp: previous_candidate_def on_grid_def Let_def truncate_second_def before_def)
qed

lemma blockingClosure_exact:
  assumes "prepared_ok p"
  shows "blockingClosure p t = None \<longleftrightarrow> (\<forall>c \<in> set (closures p). \<not> in_closure t c)"
proof -
  have "sorted (map (\<lambda>c. ns (cl_Start c)) cs) \<Longrightarrow> blocking_closure cs t = None \<longleftrightarrow> (\<forall>c \<in> set cs. \<not> in_closure t c)" for cs
  proof (induction cs)
    case (Cons c cs)
    then have IH: "blocking_closure cs t = None \<longleftrightarrow> (\<forall>c \<in> set cs. \<not> in_closure t c)" by simp
    show ?case
    proof (cases "ns t < ns (cl_Start c)")
      case True
      with Cons.prems have "\<forall>x \<in> set (c # cs). ns t < ns (cl_Start x)" by auto
      then show ?thesis using True by (simp add: in_closure_def before_def)
    next
      case False
      with IH show ?thesis by (simp add: in_closure_def before_def split: option.split)
    qed
  qed simp
  then show ?thesis using assms by (simp add: blockingClosure_def prepared_ok_def)
qed

lemma blockingGap_exact:
  assumes "prepared_ok p" "g \<in> set (gaps p)" "ns (gap_Start g) \<le> ns t" "ns t < ns (gap_End g)"
  shows "blockingGap p t \<noteq> None"
proof -
  let ?gs = "gaps p" and ?f = "\<lambda>i. after (gap_End (gaps p ! i)) t"
  let ?i = "go_search (length ?gs) ?f"
  from assms(2) obtain k where k: "k < length ?gs" "?gs ! k = g" by (auto simp: in_set_conv_nth)
  have ord: "ns (gap_End (?gs ! a)) < ns (gap_Start (?gs ! b))" if "a < b" "b < length ?gs" for a b
    using assms(1) that sorted_wrt_nth_less [of _ ?gs a b] by (auto simp: prepared_ok_def)
  have se: "ns (gap_Start (?gs ! a)) < ns (gap_End (?gs ! a))" if "a < length ?gs" for a
    using assms(1) that by (auto simp: prepared_ok_def)
  have "?f b" if "a \<le> b" "b < length ?gs" "?f a" for a b
    using that ord [of a b] se [of b] by (cases "a = b") (auto simp: after_def)
  then have mono: "\<forall>a b. a \<le> b \<and> b < length ?gs \<and> ?f a \<longrightarrow> ?f b" by blast
  have fk: "?f k" using k assms(4) by (simp add: after_def)
  have "?i \<le> k" using go_search_mono(1) [OF mono, of k] fk by (meson not_less)
  moreover have "\<not> ?i < k" 
  proof
    assume "?i < k"
    then have "?f ?i" "ns (gap_End (?gs ! ?i)) < ns (gap_Start (?gs ! k))"
      using go_search_mono(2) [OF mono, of ?i] k ord [of ?i k] by auto
    with assms(3) k show False by (simp add: after_def)
  qed
  ultimately have "?i = k" by simp
  with k assms(3,4) show ?thesis by (simp add: blockingGap_def Let_def before_def)
qed

lemma slot_open_iff:
  assumes "prepared_ok p"
  shows "slot_open p t \<longleftrightarrow> blockingClosure p t = None \<and> blockingGap p t = None"
proof -
  have "(\<forall>g \<in> set (gaps p). \<not> (ns (gap_Start g) \<le> ns t \<and> ns t < ns (gap_End g))) \<longleftrightarrow> blockingGap p t = None"
    using blockingGap_exact [OF assms] blockingGap_Some [of p t] by (meson not_None_eq)
  then show ?thesis unfolding slot_open_def blockingClosure_exact [OF assms] by (auto simp: list_all_iff)
qed

text \<open>A search that goes on from a later (or earlier) instant past shut ones is a search from here.\<close>

lemma search_on:
  assumes "case r of None \<Rightarrow> \<forall>x. on_grid p x \<and> ns e \<le> ns x \<longrightarrow> \<not> slot_open p x
      | Some c \<Rightarrow> on_grid p c \<and> slot_open p c \<and> ns e \<le> ns c \<and> (\<forall>x. on_grid p x \<and> ns e \<le> ns x \<and> ns x < ns c \<longrightarrow> \<not> slot_open p x)"
    and "\<forall>x. on_grid p x \<and> ns t \<le> ns x \<and> ns x < ns e \<longrightarrow> \<not> slot_open p x" "ns t \<le> ns e"
  shows "case r of None \<Rightarrow> \<forall>x. on_grid p x \<and> ns t \<le> ns x \<longrightarrow> \<not> slot_open p x
      | Some c \<Rightarrow> on_grid p c \<and> slot_open p c \<and> ns t \<le> ns c \<and> (\<forall>x. on_grid p x \<and> ns t \<le> ns x \<and> ns x < ns c \<longrightarrow> \<not> slot_open p x)"
proof (cases r)
  case None
  with assms(1,2) show ?thesis by (simp, meson not_le)
next
  case (Some c)
  with assms show ?thesis by (simp, meson not_le)
qed

lemma search_back:
  assumes "case r of None \<Rightarrow> \<forall>x. on_grid p x \<and> ns x \<le> ns e \<longrightarrow> \<not> slot_open p x
      | Some c \<Rightarrow> on_grid p c \<and> slot_open p c \<and> ns c \<le> ns e \<and> (\<forall>x. on_grid p x \<and> ns x \<le> ns e \<and> ns c < ns x \<longrightarrow> \<not> slot_open p x)"
    and "\<forall>x. on_grid p x \<and> ns x \<le> ns t \<and> ns e < ns x \<longrightarrow> \<not> slot_open p x" "ns e \<le> ns t"
  shows "case r of None \<Rightarrow> \<forall>x. on_grid p x \<and> ns x \<le> ns t \<longrightarrow> \<not> slot_open p x
      | Some c \<Rightarrow> on_grid p c \<and> slot_open p c \<and> ns c \<le> ns t \<and> (\<forall>x. on_grid p x \<and> ns x \<le> ns t \<and> ns c < ns x \<longrightarrow> \<not> slot_open p x)"
proof (cases r)
  case None
  with assms(1,2) show ?thesis by (simp, meson not_le)
next
  case (Some c)
  with assms show ?thesis by (simp, meson not_le order_trans)
qed

lemma next_grid_spec:
  assumes "prepared_ok p"
  shows "case nextGridAtOrAfter p t of
      None \<Rightarrow> \<forall>x. on_grid p x \<and> ns t \<le> ns x \<longrightarrow> \<not> slot_open p x
    | Some c \<Rightarrow> on_grid p c \<and> slot_open p c \<and> ns t \<le> ns c \<and>
        (\<forall>x. on_grid p x \<and> ns t \<le> ns x \<and> ns x < ns c \<longrightarrow> \<not> slot_open p x)"
  using assms
proof (induction p t rule: nextGridAtOrAfter.induct)
  case (1 p t)
  obtain c where c: "next_candidate p t = Some c" "on_grid p c" "ns t \<le> ns c"
      "\<And>x. on_grid p x \<Longrightarrow> ns t \<le> ns x \<Longrightarrow> ns c \<le> ns x"
    using next_candidate_exact [OF "1.prems"] by blast
  consider (forever) "blockingClosure p c = Some None" | (closed) e where "blockingClosure p c = Some (Some e)"
    | (gap) g where "blockingClosure p c = None" "blockingGap p c = Some g"
    | (free) "blockingClosure p c = None" "blockingGap p c = None"
    by (metis not_None_eq)
  then show ?case
  proof cases
    case forever
    then obtain cl where "cl \<in> set (closures p)" "cl_End cl = None" "in_closure c cl"
      using blocking_closure_Some by (fastforce simp: blockingClosure_def)
    then have "\<not> slot_open p x" if "ns c \<le> ns x" for x
      using that by (auto simp: slot_open_def list_all_iff in_closure_def before_def intro!: bexI [of _ cl])
    with forever c show ?thesis by (simp add: nextGridAtOrAfter.simps [of p t])
  next
    case closed
    from blocking_closure_Some [OF closed [unfolded blockingClosure_def]]
    obtain cl where cl: "cl \<in> set (closures p)" "cl_End cl = Some e" "in_closure c cl" by blast
    have eq: "nextGridAtOrAfter p t = nextGridAtOrAfter p e" using c closed by (simp add: nextGridAtOrAfter.simps [of p t])
    have shut: "\<not> slot_open p x" if "ns c \<le> ns x" "ns x < ns e" for x
      using that cl by (auto simp: slot_open_def list_all_iff in_closure_def before_def intro!: bexI [of _ cl])
    have "ns c < ns e" using cl(2,3) by (simp add: in_closure_def before_def)
    with c(2-4) shut show ?thesis unfolding eq by (intro search_on [OF "1.IH"(2) [OF c(1) closed refl "1.prems"]]) auto
  next
    case gap
    note g = blockingGap_Some [OF gap(2)]
    have eq: "nextGridAtOrAfter p t = nextGridAtOrAfter p (gap_End g)" using c gap by (simp add: nextGridAtOrAfter.simps [of p t])
    have shut: "\<not> slot_open p x" if "ns c \<le> ns x" "ns x < ns (gap_End g)" for x
      using that g by (auto simp: slot_open_def list_all_iff intro!: bexI [of _ g])
    from c(2-4) g(3) shut show ?thesis unfolding eq by (intro search_on [OF "1.IH"(1) [OF c(1) gap "1.prems"]]) auto
  next
    case free
    then have "nextGridAtOrAfter p t = Some c" using c by (simp add: nextGridAtOrAfter.simps [of p t])
    moreover have "slot_open p c" using free slot_open_iff [OF "1.prems", of c] by simp
    ultimately show ?thesis using c(2-4) by (simp, meson not_le)
  qed
qed

lemma previous_grid_spec:
  assumes "prepared_ok p"
  shows "case previousGridAtOrBefore p t of
      None \<Rightarrow> \<forall>x. on_grid p x \<and> ns x \<le> ns t \<longrightarrow> \<not> slot_open p x
    | Some c \<Rightarrow> on_grid p c \<and> slot_open p c \<and> ns c \<le> ns t \<and>
        (\<forall>x. on_grid p x \<and> ns x \<le> ns t \<and> ns c < ns x \<longrightarrow> \<not> slot_open p x)"
  using assms
proof (induction p t rule: previousGridAtOrBefore.induct)
  case (1 p t)
  note exact = previous_candidate_exact [OF "1.prems", of t]
  show ?case
  proof (cases "previous_candidate p t")
    case None
    with exact show ?thesis by (force simp: previousGridAtOrBefore.simps [of p t])
  next
    case (Some c)
    with exact have c: "on_grid p c" "ns c \<le> ns t" "\<And>x. on_grid p x \<Longrightarrow> ns x \<le> ns t \<Longrightarrow> ns x \<le> ns c" by auto
    consider (closed) cl where "blockingClosure p c \<noteq> None" "find (in_closure c) (closures p) = Some cl"
      | (gap) g where "blockingClosure p c = None" "blockingGap p c = Some g"
      | (free) "blockingClosure p c = None" "blockingGap p c = None"
      using blockingClosure_exact [OF "1.prems", of c] by (metis find_None_iff not_None_eq)
    then show ?thesis
    proof cases
      case closed
      from find_SomeD [OF closed(2)] have cl: "cl \<in> set (closures p)" "in_closure c cl" by auto
      have eq: "previousGridAtOrBefore p t = previousGridAtOrBefore p (t_add (cl_Start cl) (- 1))"
        using Some closed by (simp add: previousGridAtOrBefore.simps [of p t])
      have shut: "\<not> slot_open p x" if "ns (cl_Start cl) \<le> ns x" "ns x \<le> ns c" for x
        using that cl by (auto simp: slot_open_def list_all_iff in_closure_def before_def intro!: bexI [of _ cl] split: option.splits)
      have "ns (cl_Start cl) \<le> ns c" using cl(2) by (simp add: in_closure_def before_def)
      with c shut show ?thesis unfolding eq by (intro search_back [OF "1.IH"(1) [OF Some closed "1.prems"]]) (auto simp: t_add_def)
    next
      case gap
      note g = blockingGap_Some [OF gap(2)]
      have eq: "previousGridAtOrBefore p t = previousGridAtOrBefore p (t_add (gap_Start g) (- 1))"
        using Some gap by (simp add: previousGridAtOrBefore.simps [of p t])
      have shut: "\<not> slot_open p x" if "ns (gap_Start g) \<le> ns x" "ns x \<le> ns c" for x
        using that g by (auto simp: slot_open_def list_all_iff intro!: bexI [of _ g])
      from gap(1) have nc: "\<not> blockingClosure p c \<noteq> None" by simp
      from c g(2) shut show ?thesis unfolding eq by (intro search_back [OF "1.IH"(2) [OF Some nc gap(2) "1.prems"]]) (auto simp: t_add_def)
    next
      case free
      then have "previousGridAtOrBefore p t = Some c" using Some by (simp add: previousGridAtOrBefore.simps [of p t])
      moreover have "slot_open p c" using free slot_open_iff [OF "1.prems", of c] by simp
      ultimately show ?thesis using c by (simp, meson not_le)
    qed
  qed
qed

text \<open>Both searches return what \<^verbatim>\<open>on_grid\<close> and \<^verbatim>\<open>slot_open\<close> allow, in the right direction.\<close>

lemma next_grid_Some:
  assumes "prepared_ok p" "nextGridAtOrAfter p t = Some c"
  shows "on_grid p c" "slot_open p c" "ns t \<le> ns c"
  using next_grid_spec [OF assms(1), of t] assms(2) by simp_all

lemma previous_grid_Some:
  assumes "prepared_ok p" "previousGridAtOrBefore p t = Some c"
  shows "on_grid p c" "slot_open p c" "ns c \<le> ns t"
  using previous_grid_spec [OF assms(1), of t] assms(2) by simp_all

definition IsGridOpportunity :: "Policy list \<Rightarrow> string \<Rightarrow> gotime \<Rightarrow> seq_error + bool" where
  "IsGridOpportunity input groupID tm =
     (case preparePolicies input of Inl e \<Rightarrow> Inl e
      | Inr ps \<Rightarrow> (case map_of ps groupID of None \<Rightarrow> Inr False
          | Some p \<Rightarrow> Inr (case nextRateGridAtOrAfter p tm of None \<Rightarrow> False | Some c \<Rightarrow> t_equal c tm)))"

section \<open>Properties\<close>

definition sample_policy :: "bool \<Rightarrow> Policy" where
  "sample_policy cont = \<lparr> pol_RunwayGroupID = ''22L'', ContinuousSpacing = cont, AllowCrossFeederOvertake = False,
     Rates = [\<lparr> EffectiveAt = Time hour UTC, ArrivalsPerHour = 30 \<rparr>],
     Gaps = [\<lparr> gap_Start = Time (2 * hour) UTC, gap_End = Time (2 * hour + 3 * minute) UTC \<rparr>],
     Closures = [\<lparr> cl_Start = Time (2 * hour + 3 * minute) UTC, cl_End = Some (Time (2 * hour + 9 * minute) UTC) \<rparr>],
     EarlyTolerance = minute,
     SeparationRules = [\<lparr> rule_Leading = ''H'', rule_Trailing = ''H'', rule_Minimum = 2 * minute \<rparr>,
       \<lparr> rule_Leading = ''H'', rule_Trailing = ''M'', rule_Minimum = 3 * minute \<rparr>,
       \<lparr> rule_Leading = ''M'', rule_Trailing = ''H'', rule_Minimum = minute \<rparr>,
       \<lparr> rule_Leading = ''M'', rule_Trailing = ''M'', rule_Minimum = minute \<rparr>],
     UnknownSeparation = 3 * minute, pol_SameSTARSpacing = no_spacing \<rparr>"

definition sample_prepared :: "bool \<Rightarrow> preparedPolicy" where
  "sample_prepared cont = projr (preparePolicy \<lparr> byFamily = [], authoritative = False \<rparr> (sample_policy cont))"

lemma sample_prepared_ok:
  "preparePolicy \<lparr> byFamily = [], authoritative = False \<rparr> (sample_policy False) = Inr (sample_prepared False)"
  "preparePolicy \<lparr> byFamily = [], authoritative = False \<rparr> (sample_policy True) = Inr (sample_prepared True)"
  by code_simp+

text \<open>
  C22. The forward search of the slot grid is exact for every prepared policy: it returns the earliest
  instant of the grid at or after the target that lies in no gap and no closure, and finds none only
  where there is none. It always terminates.
\<close>

theorem next_grid_exact:
  assumes "preparePolicy families raw = Inr p"
  shows "case nextGridAtOrAfter p t of
      None \<Rightarrow> \<forall>x. on_grid p x \<and> ns t \<le> ns x \<longrightarrow> \<not> slot_open p x
    | Some c \<Rightarrow> on_grid p c \<and> slot_open p c \<and> ns t \<le> ns c \<and>
        (\<forall>x. on_grid p x \<and> ns t \<le> ns x \<and> ns x < ns c \<longrightarrow> \<not> slot_open p x)"
  by (rule next_grid_spec [OF preparePolicy_ok(1) [OF assms]])

theorem next_grid_exact_witness:
  "nextGridAtOrAfter (sample_prepared False) (Time (2 * hour - minute) UTC) = Some (Time (2 * hour + 10 * minute) UTC) \<and>
   slot_open (sample_prepared False) (Time (2 * hour + 10 * minute) UTC)"
proof -
  have "nextGridAtOrAfter (sample_prepared False) (Time (2 * hour - minute) UTC) = Some (Time (2 * hour + 10 * minute) UTC)" by code_simp
  with next_grid_exact [OF sample_prepared_ok(1), of "Time (2 * hour - minute) UTC"] show ?thesis by simp
qed

text \<open>
The backward search is exact in the same sense: it returns the latest open instant of the grid
  at or before the target, and finds none only where there is none.
\<close>

theorem previous_grid_exact:
  assumes "preparePolicy families raw = Inr p"
  shows "case previousGridAtOrBefore p t of
      None \<Rightarrow> \<forall>x. on_grid p x \<and> ns x \<le> ns t \<longrightarrow> \<not> slot_open p x
    | Some c \<Rightarrow> on_grid p c \<and> slot_open p c \<and> ns c \<le> ns t \<and>
        (\<forall>x. on_grid p x \<and> ns x \<le> ns t \<and> ns c < ns x \<longrightarrow> \<not> slot_open p x)"
  by (rule previous_grid_spec [OF preparePolicy_ok(1) [OF assms]])

theorem previous_grid_exact_witness:
  "previousGridAtOrBefore (sample_prepared False) (Time (2 * hour + 8 * minute) UTC) = Some (Time (2 * hour - 2 * minute) UTC) \<and>
   slot_open (sample_prepared False) (Time (2 * hour - 2 * minute) UTC)"
proof -
  have "previousGridAtOrBefore (sample_prepared False) (Time (2 * hour + 8 * minute) UTC) = Some (Time (2 * hour - 2 * minute) UTC)" by code_simp
  with previous_grid_exact [OF sample_prepared_ok(1), of "Time (2 * hour + 8 * minute) UTC"] show ?thesis by simp
qed

end
