(* ===== verification/Sequence_Placement.thy ===== *)
theory Sequence_Placement
  imports Sequence_Policy
begin

text \<open>
  Flights of the AMAN sequence engine and the placement of one flight among the slots already
  allocated: the middle of \<^verbatim>\<open>internal/aman/sequence/engine.go\<close> with \<^verbatim>\<open>demand.go\<close>. A \<^verbatim>\<open>preparedFlight\<close>
  embeds its \<^verbatim>\<open>Flight\<close>, so it is a record extension. Integers are unbounded except where a narrower
  type is converted; sums of durations do not overflow at the time scale of a sequence.
\<close>

section \<open>Flights\<close>

record STARProgress =
  Fix :: string
  sp_ETA :: "gotime option"
  Passed :: bool
  DistanceToGoNM :: f64
  RemainingFixes :: "string list"
  TerminalDigest :: string

record FlightIdentity =
  Operations :: "string list"
  Callsign :: string
  RunwayGroupID :: string
  fl_State :: FlightState
  DemandArrivalAt :: "gotime option"
  OperationalTETA :: gotime
  InitialBaselineTETA :: "gotime option"
  PromotionNotBefore :: "gotime option"
  WakeCategory :: string
  STARFamily :: string
  SelectedSTARFamily :: string
  fl_STARProgress :: "STARProgress option"
  ManualOrder :: "int option"
  fl_FreezeReason :: FreezeReason
  FrozenAt :: "gotime option"
  FrozenOperationalTETA :: "gotime option"

record Flight = FlightIdentity +
  CapturedSlot :: "Slot option"
  CurrentSlot :: "Slot option"
  HoldingStackID :: string
  HoldingAltitudeFeet :: "int option"
  HoldingQueueID :: string
  HoldingQueueTime :: "gotime option"
  HoldingTransit :: duration
  ActiveHoldingSince :: "gotime option"
  ArrivalQueueTime :: "gotime option"
  HoldingSlotProtected :: bool
  SlotNotBefore :: "gotime option"
  ProtectCurrentSlot :: bool
  ReleaseRank :: "int option"
  RebuildTMA :: bool
  RebuildRetained :: bool
  HoldingStartedAt :: "gotime option"

record preparedFlight = Flight +
  category :: string
  known :: bool
  stableOrder :: "int option"
  holdingSequencePolicy :: HoldingSequencePolicy

datatype CandidateReason = ReasonRateWTC | ReasonFreezeSuperstable | ReasonFreezeTMA | ReasonFreezeManual
  | ReasonStable | ReasonQueuePromotion | ReasonGoAround | ReasonGoAroundCascade

record allocatedEntry =
  ent_flight :: preparedFlight
  ent_time :: gotime
  ent_reason :: CandidateReason

section \<open>Preparing flights\<close>

definition opt_utc :: "gotime option \<Rightarrow> bool" where
  "opt_utc t = (case t of None \<Rightarrow> True | Some v \<Rightarrow> valid_utc v)"

definition opt_at_least :: "int \<Rightarrow> int option \<Rightarrow> bool" where
  "opt_at_least n v = (case v of None \<Rightarrow> True | Some k \<Rightarrow> n \<le> k)"

definition canonicalSTARFamily :: "string \<Rightarrow> string" where
  "canonicalSTARFamily v = to_upper (trim_space v)"

definition check_flight :: "Flight \<Rightarrow> seq_error + unit" where
  "check_flight raw =
     (let err = InvalidFlight (Callsign raw) in
      and_then (ensure (FlightState_Valid (fl_State raw) \<and> FreezeReason_Valid (fl_FreezeReason raw) \<and> valid_utc (OperationalTETA raw))
        (err ''invalid sequencing state''))
     (and_then (ensure (opt_utc (DemandArrivalAt raw)) (err ''invalid demand arrival time''))
     (and_then (ensure (opt_utc (InitialBaselineTETA raw)) (err ''invalid initial baseline TETA''))
     (and_then (ensure (opt_utc (PromotionNotBefore raw)) (err ''invalid promotion lower bound''))
     (and_then (ensure (opt_at_least 1 (ManualOrder raw)) (err ''invalid manual order''))
     (and_then (ensure (case CurrentSlot raw of None \<Rightarrow> True | Some s \<Rightarrow> valid_utc (slot_Time s) \<and> 1 \<le> slot_Sequence s \<and>
          slot_RunwayGroupID s = RunwayGroupID raw) (err ''invalid current slot''))
     (and_then (ensure (opt_utc (HoldingStartedAt raw) \<and> opt_at_least 1 (ReleaseRank raw)) (err ''invalid rebuilt holding evidence''))
     (and_then (ensure (opt_at_least 0 (HoldingAltitudeFeet raw)) (err ''invalid holding stack altitude''))
     (and_then (ensure (case HoldingQueueTime raw of None \<Rightarrow> True | Some t \<Rightarrow> valid_utc t \<and> HoldingQueueID raw \<noteq> '''' \<and> 0 \<le> HoldingTransit raw)
        (err ''invalid holding queue evidence''))
     (and_then (ensure (opt_utc (ActiveHoldingSince raw) \<and> opt_utc (ArrivalQueueTime raw)) (err ''invalid runway holding priority evidence''))
     (and_then (ensure (opt_utc (SlotNotBefore raw)) (err ''invalid slot lower bound''))
     (and_then (ensure (\<not> (ProtectCurrentSlot raw \<and> CurrentSlot raw = None)) (err ''protects a missing current slot''))
     (and_then (ensure (\<not> (fl_FreezeReason raw = FreezeNone \<and> CapturedSlot raw \<noteq> None)) (err ''captured slot without freeze reason''))
     (and_then (ensure (\<not> (fl_FreezeReason raw = FreezeNone \<and> (FrozenAt raw \<noteq> None \<or> FrozenOperationalTETA raw \<noteq> None)))
        (err ''freeze values without freeze reason''))
     (ensure (FrozenAt raw = None \<and> FrozenOperationalTETA raw = None \<or>
        FrozenAt raw \<noteq> None \<and> FrozenOperationalTETA raw \<noteq> None \<and> opt_utc (FrozenAt raw) \<and> opt_utc (FrozenOperationalTETA raw))
        (err ''incomplete freeze values''))))))))))))))))"

definition prepare_flight :: "preparedPolicy \<Rightarrow> Flight \<Rightarrow> preparedFlight" where
  "prepare_flight p raw =
     (let c = normalizeCategory (WakeCategory raw);
          kn = (c \<in> set (categories p));
          raw' = raw\<lparr> STARFamily := canonicalSTARFamily (STARFamily raw), SelectedSTARFamily := canonicalSTARFamily (SelectedSTARFamily raw) \<rparr>;
          order = (if (fl_State raw = StateStable \<or> HoldingSlotProtected raw) \<and> ManualOrder raw = None
                   then map_option slot_Sequence (CurrentSlot raw) else None) in
      Flight.extend raw' (preparedFlight.fields (if kn then c else WakeUnknown) kn order
        (holdingSequencePolicyFor (starFamilies p) (SelectedSTARFamily raw'))))"

fun prepare_flights :: "string list \<Rightarrow> (string \<times> preparedPolicy) list \<Rightarrow> Flight list \<Rightarrow> seq_error + preparedFlight list" where
  "prepare_flights seen policies [] = Inr []"
| "prepare_flights seen policies (raw # rest) =
     (if trim_space (Callsign raw) = '''' then Inl CallsignRequired
      else if Callsign raw \<in> set seen then Inl (DuplicateFlight (Callsign raw))
      else case map_of policies (RunwayGroupID raw) of
        None \<Rightarrow> Inl (UnknownRunwayGroup (Callsign raw) (RunwayGroupID raw))
      | Some p \<Rightarrow>
          (case check_flight raw of Inl e \<Rightarrow> Inl e
           | Inr _ \<Rightarrow> (case prepare_flights (Callsign raw # seen) policies rest of Inl e \<Rightarrow> Inl e
               | Inr fs \<Rightarrow> Inr (prepare_flight p raw # fs))))"

definition prepareFlights :: "Flight list \<Rightarrow> (string \<times> preparedPolicy) list \<Rightarrow> seq_error + preparedFlight list" where
  "prepareFlights input policies = prepare_flights [] policies input"

text \<open>The flights of one runway group, in input order (the entry of the map the code builds).\<close>

definition group_flights :: "string \<Rightarrow> preparedFlight list \<Rightarrow> preparedFlight list" where
  "group_flights g fs = filter (\<lambda>f. RunwayGroupID f = g) fs"

section \<open>Demand\<close>

definition demandWindow :: duration where "demandWindow = 15 * minute"

definition counts_as_demand :: "preparedFlight \<Rightarrow> bool" where
  "counts_as_demand f \<longleftrightarrow> fl_State f \<noteq> StatePlanned \<and> fl_State f \<noteq> StateLanded \<and> fl_State f \<noteq> StateRemoved"

definition add_demand :: "preparedFlight list \<Rightarrow> string \<times> preparedPolicy \<Rightarrow> string \<times> preparedPolicy" where
  "add_demand fs gp =
     (let g = fst gp; p = snd gp; live = filter counts_as_demand (group_flights g fs) in
      if group_flights g fs = [] then (g, p)
      else (g, p\<lparr> demandTimes := go_sort before (demandTimes p @ List.map_filter DemandArrivalAt live),
                 activeHoldingFamilies := map STARFamily (filter (\<lambda>f. ActiveHoldingSince f \<noteq> None \<and> STARFamily f \<noteq> '''') live) \<rparr>))"

record Input =
  in_Revision :: nat
  in_Policies :: "Policy list"
  in_STARFamilyPolicies :: "STARFamilyPolicy list"
  in_Flights :: "Flight list"

definition prepareInput :: "Input \<Rightarrow> seq_error + (string \<times> preparedPolicy) list \<times> preparedFlight list" where
  "prepareInput input =
     (case prepareSTARFamilyPolicies (in_STARFamilyPolicies input) of Inl e \<Rightarrow> Inl e
      | Inr families \<Rightarrow>
          (case preparePoliciesWithSTARFamilies families (in_Policies input) of Inl e \<Rightarrow> Inl e
           | Inr policies \<Rightarrow>
               (case prepareFlights (in_Flights input) policies of Inl e \<Rightarrow> Inl e
                | Inr flights \<Rightarrow> Inr (map (add_demand flights) policies, flights))))"

definition demandBusy :: "preparedPolicy \<Rightarrow> gotime option \<Rightarrow> nat \<Rightarrow> bool" where
  "demandBusy p tm threshold =
     (case tm of None \<Rightarrow> False
      | Some t \<Rightarrow>
          (let start = t_add t (- (demandWindow div 2)); fin = t_add t (demandWindow div 2);
               ts = demandTimes p;
               first = go_search (length ts) (\<lambda>i. \<not> before (ts ! i) start);
               last = go_search (length ts) (\<lambda>i. \<not> before (ts ! i) fin) in
           int threshold \<le> ((int last - int first) mod 2 ^ 64 * 4) mod 2 ^ 64))"

section \<open>Required spacing\<close>

definition sameSTARGap :: "preparedPolicy \<Rightarrow> preparedFlight \<Rightarrow> preparedFlight \<Rightarrow> gotime \<Rightarrow> duration" where
  "sameSTARGap p leading trailing trailingAt =
     (if STARFamily leading = '''' \<or> STARFamily trailing = '''' \<or> STARFamily leading \<noteq> STARFamily trailing then 0
      else case spacingFor (starFamilies p) (STARFamily leading) (pol_SameSTARSpacing (policy p)) of (spacing, configured) \<Rightarrow>
        (if \<not> configured \<or> \<not> Enabled spacing then 0
         else if rateAt p trailingAt = 0 then 0
         else if STARFamily leading \<notin> set (activeHoldingFamilies p) \<and>
                 \<not> demandBusy p (DemandArrivalAt trailing) (ActivationRatePerHour spacing) then 0
         else (int (MinimumEmptySlots spacing) + 1) mod 2 ^ 32 * rateInterval (rateAt p trailingAt)))"

definition requiredGap :: "preparedPolicy \<Rightarrow> preparedFlight \<Rightarrow> preparedFlight \<Rightarrow> gotime \<Rightarrow> duration" where
  "requiredGap p leading trailing trailingAt =
     (let base = intervalAt p trailingAt;
          wake = (if known leading \<and> known trailing
                  then (case map_of (spacing_of p) (category leading, category trailing) of None \<Rightarrow> 0 | Some d \<Rightarrow> d)
                  else fallback p) in
      max base (max wake (sameSTARGap p leading trailing trailingAt)))"

definition adjacentValid :: "preparedPolicy \<Rightarrow> allocatedEntry \<Rightarrow> allocatedEntry \<Rightarrow> bool" where
  "adjacentValid p leading trailing \<longleftrightarrow>
     after (ent_time trailing) (ent_time leading) \<and>
     requiredGap p (ent_flight leading) (ent_flight trailing) (ent_time trailing) \<le> t_sub (ent_time trailing) (ent_time leading)"

section \<open>Order\<close>

fun orderAfter :: "int option \<Rightarrow> int option \<Rightarrow> bool" where
  "orderAfter (Some a) (Some b) \<longleftrightarrow> a < b"
| "orderAfter _ _ \<longleftrightarrow> False"

fun orderBefore :: "int option \<Rightarrow> int option \<Rightarrow> bool" where
  "orderBefore (Some a) (Some b) \<longleftrightarrow> b < a"
| "orderBefore _ _ \<longleftrightarrow> False"

definition opt_before :: "gotime option \<Rightarrow> gotime option \<Rightarrow> bool" where
  "opt_before a b = (case (a, b) of (Some x, Some y) \<Rightarrow> before x y | _ \<Rightarrow> False)"

definition HoldingPrecedes :: "'a Flight_scheme \<Rightarrow> 'b Flight_scheme \<Rightarrow> bool" where
  "HoldingPrecedes older later =
     (case (ReleaseRank older, ReleaseRank later) of
        (Some a, Some b) \<Rightarrow> a < b
      | _ \<Rightarrow>
          HoldingQueueID older = HoldingQueueID later \<and> opt_before (HoldingQueueTime older) (HoldingQueueTime later) \<or>
          RunwayGroupID older = RunwayGroupID later \<and> HoldingQueueID older \<noteq> HoldingQueueID later \<and>
          opt_before (ActiveHoldingSince older) (ArrivalQueueTime later))"

definition holdingPrecedes :: "preparedPolicy \<Rightarrow> 'a Flight_scheme \<Rightarrow> 'b Flight_scheme \<Rightarrow> bool" where
  "holdingPrecedes p older later =
     (if AllowCrossFeederOvertake (policy p) \<and> HoldingQueueID older \<noteq> HoldingQueueID later then False
      else HoldingPrecedes older later)"

fun lifecyclePriority :: "FlightState \<Rightarrow> int" where
  "lifecyclePriority StateStable = 0"
| "lifecyclePriority StateUnstable = 1"
| "lifecyclePriority StateAirborne = 2"
| "lifecyclePriority StatePlanned = 3"
| "lifecyclePriority StateGoAround = 4"
| "lifecyclePriority _ = 5"

text \<open>\<open>Some\<close> is the comparable case.\<close>

definition holdingAltitudeLess :: "preparedFlight \<Rightarrow> preparedFlight \<Rightarrow> bool option" where
  "holdingAltitudeLess a b =
     (if holdingSequencePolicy a \<noteq> HoldingSequenceLowestAltitudeFirst \<or> holdingSequencePolicy b \<noteq> HoldingSequenceLowestAltitudeFirst then None
      else if SelectedSTARFamily a = '''' \<or> SelectedSTARFamily a \<noteq> SelectedSTARFamily b then None
      else if HoldingStackID a = '''' \<or> HoldingStackID a \<noteq> HoldingStackID b then None
      else case (HoldingAltitudeFeet a, HoldingAltitudeFeet b) of
        (Some x, Some y) \<Rightarrow> (if x = y then None else Some (x < y))
      | _ \<Rightarrow> None)"

definition is_protected :: "preparedFlight \<Rightarrow> bool" where
  "is_protected f \<longleftrightarrow> fl_FreezeReason f \<noteq> FreezeNone \<or> ProtectCurrentSlot f"

definition baseline_less :: "preparedFlight \<Rightarrow> preparedFlight \<Rightarrow> bool option" where
  "baseline_less a b =
     (case (InitialBaselineTETA a, InitialBaselineTETA b) of
        (None, None) \<Rightarrow> None | (None, Some _) \<Rightarrow> Some False | (Some _, None) \<Rightarrow> Some True
      | (Some x, Some y) \<Rightarrow> (if t_equal x y then None else Some (before x y)))"

definition manual_less :: "preparedFlight \<Rightarrow> preparedFlight \<Rightarrow> bool option" where
  "manual_less a b =
     (case (ManualOrder a, ManualOrder b) of
        (None, None) \<Rightarrow> None | (None, Some _) \<Rightarrow> Some False | (Some _, None) \<Rightarrow> Some True
      | (Some x, Some y) \<Rightarrow> (if x = y then None else Some (x < y)))"

definition stable_less :: "preparedFlight \<Rightarrow> preparedFlight \<Rightarrow> bool option" where
  "stable_less a b =
     (case (stableOrder a, stableOrder b) of
        (Some x, Some y) \<Rightarrow>
          (if x \<noteq> y then Some (x < y)
           else case (CurrentSlot a, CurrentSlot b) of
             (Some s, Some t) \<Rightarrow> (if t_equal (slot_Time s) (slot_Time t) then None else Some (before (slot_Time s) (slot_Time t)))
           | _ \<Rightarrow> None)
      | _ \<Rightarrow> None)"

definition flightLess :: "preparedFlight \<Rightarrow> preparedFlight \<Rightarrow> bool" where
  "flightLess a b =
     (if is_protected a \<noteq> is_protected b then is_protected a
      else case manual_less a b of Some r \<Rightarrow> r
      | None \<Rightarrow> (case stable_less a b of Some r \<Rightarrow> r
      | None \<Rightarrow> (case holdingAltitudeLess a b of Some r \<Rightarrow> r
      | None \<Rightarrow>
          (if lifecyclePriority (fl_State a) \<noteq> lifecyclePriority (fl_State b) then lifecyclePriority (fl_State a) < lifecyclePriority (fl_State b)
           else if \<not> t_equal (OperationalTETA a) (OperationalTETA b) then before (OperationalTETA a) (OperationalTETA b)
           else case baseline_less a b of Some r \<Rightarrow> r | None \<Rightarrow> Callsign a < Callsign b))))"

definition entry_less :: "allocatedEntry \<Rightarrow> allocatedEntry \<Rightarrow> bool" where
  "entry_less a b =
     (if \<not> t_equal (ent_time a) (ent_time b) then before (ent_time a) (ent_time b) else flightLess (ent_flight a) (ent_flight b))"

definition sortEntries :: "allocatedEntry list \<Rightarrow> allocatedEntry list" where
  "sortEntries es = go_sort entry_less es"

section \<open>Placement\<close>

text \<open>The state of the checks: whether the candidate is valid, and bounds for the next attempt.\<close>

type_synonym verdict = "bool \<times> gotime \<times> gotime"

definition bound_earlier :: "gotime \<Rightarrow> gotime \<Rightarrow> gotime" where "bound_earlier earlier b = (if before b earlier then b else earlier)"
definition bound_later :: "gotime \<Rightarrow> gotime \<Rightarrow> gotime" where "bound_later later b = (if after b later then b else later)"

definition leading_check :: "preparedPolicy \<Rightarrow> preparedFlight \<Rightarrow> gotime \<Rightarrow> bool \<Rightarrow> allocatedEntry \<Rightarrow> verdict \<Rightarrow> verdict" where
  "leading_check p flight candidate preserveStableOrder leading v =
     (let lf = ent_flight leading; lt = ent_time leading;
          e = t_add lt (- requiredGap p flight lf lt);
          (valid, earlier, later) = v;
          (valid, earlier) =
            (if orderAfter (ManualOrder flight) (ManualOrder lf) \<or> preserveStableOrder \<and> orderAfter (stableOrder flight) (stableOrder lf)
             then (False, bound_earlier earlier e) else (valid, earlier));
          required = requiredGap p lf flight candidate in
      if t_sub candidate lt < required
      then (False, bound_earlier earlier e, bound_later later (t_add lt required))
      else (valid, earlier, later))"

definition trailing_check :: "preparedPolicy \<Rightarrow> preparedFlight \<Rightarrow> gotime \<Rightarrow> bool \<Rightarrow> allocatedEntry \<Rightarrow> verdict \<Rightarrow> verdict" where
  "trailing_check p flight candidate preserveStableOrder trailing v =
     (let tf = ent_flight trailing; tt = ent_time trailing;
          l = t_add tt (requiredGap p tf flight tt);
          (valid, earlier, later) = v;
          (valid, later) =
            (if orderBefore (ManualOrder flight) (ManualOrder tf) \<or> preserveStableOrder \<and> orderBefore (stableOrder flight) (stableOrder tf)
             then (False, bound_later later l) else (valid, later));
          required = requiredGap p flight tf tt in
      if t_sub tt candidate < required
      then (False, bound_earlier earlier (t_add tt (- required)), bound_later later l)
      else (valid, earlier, later))"

definition holding_exempt :: "preparedFlight \<Rightarrow> preparedFlight \<Rightarrow> gotime \<Rightarrow> bool" where
  "holding_exempt flight older candidate \<longleftrightarrow>
     (stableOrder flight \<noteq> None \<and>
       (case (CurrentSlot flight, CurrentSlot older) of
          (Some s, Some t) \<Rightarrow> before candidate (slot_Time s) \<and> before (slot_Time s) (slot_Time t) \<and> slot_Sequence s < slot_Sequence t
        | _ \<Rightarrow> False)) \<or>
     (ReleaseRank flight = None \<or> ReleaseRank older = None) \<and>
       (case (ManualOrder flight, ManualOrder older) of
          (Some _, None) \<Rightarrow> True | (Some m, Some n) \<Rightarrow> m < n | _ \<Rightarrow> False)"

definition holding_minimum :: "preparedPolicy \<Rightarrow> preparedFlight \<Rightarrow> allocatedEntry \<Rightarrow> gotime \<Rightarrow> gotime" where
  "holding_minimum p flight entry candidate =
     (let older = ent_flight entry;
          transits = (0 < HoldingTransit older \<and> 0 < HoldingTransit flight);
          minimum =
            (if ReleaseRank older \<noteq> None \<and> ReleaseRank flight \<noteq> None \<and> transits
             then t_add (ent_time entry) (HoldingTransit flight - HoldingTransit older)
             else t_add (ent_time entry) (requiredGap p older flight candidate));
          release = t_add (ent_time entry) (HoldingTransit flight - HoldingTransit older + minute) in
      if HoldingQueueID older = HoldingQueueID flight \<and> transits \<and> after release minimum then release else minimum)"

definition holding_check :: "preparedPolicy \<Rightarrow> preparedFlight \<Rightarrow> gotime \<Rightarrow> verdict \<Rightarrow> allocatedEntry \<Rightarrow> verdict" where
  "holding_check p flight candidate v entry =
     (if \<not> holdingPrecedes p (ent_flight entry) flight \<or> holding_exempt flight (ent_flight entry) candidate then v
      else (let m = holding_minimum p flight entry candidate in
        if before candidate m then (case v of (_, earlier, later) \<Rightarrow> (False, earlier, bound_later later m)) else v))"

definition placementWithStableOrder :: "preparedPolicy \<Rightarrow> allocatedEntry list \<Rightarrow> preparedFlight \<Rightarrow> gotime \<Rightarrow> bool \<Rightarrow> verdict" where
  "placementWithStableOrder p entries flight candidate preserveStableOrder =
     (if (case SlotNotBefore flight of None \<Rightarrow> False | Some b \<Rightarrow> before candidate b)
      then (False, t_add candidate (- 1), the (SlotNotBefore flight))
      else case blockingGap p candidate of
        Some gap \<Rightarrow> (False, t_add (gap_Start gap) (- 1), gap_End gap)
      | None \<Rightarrow>
          (let index = go_search (length entries) (\<lambda>i. \<not> before (ent_time (entries ! i)) candidate);
               v = (True, t_add candidate (- 1), t_add candidate 1);
               v = (if 0 < index then leading_check p flight candidate preserveStableOrder (entries ! (index - 1)) v else v);
               v = (if index < length entries then trailing_check p flight candidate preserveStableOrder (entries ! index) v else v) in
           if HoldingQueueTime flight \<noteq> None \<or> ArrivalQueueTime flight \<noteq> None
           then foldl (holding_check p flight candidate) v entries else v))"

definition placement :: "preparedPolicy \<Rightarrow> allocatedEntry list \<Rightarrow> preparedFlight \<Rightarrow> gotime \<Rightarrow> verdict" where
  "placement p entries flight candidate = placementWithStableOrder p entries flight candidate True"

definition queuePlacement :: "preparedPolicy \<Rightarrow> allocatedEntry list \<Rightarrow> preparedFlight \<Rightarrow> gotime \<Rightarrow> verdict" where
  "queuePlacement p entries flight candidate = placementWithStableOrder p entries flight candidate True"

section \<open>What a valid placement guarantees\<close>

lemma requiredGap_ge:
  "intervalAt p tm \<le> requiredGap p a b tm"
  "\<not> known a \<or> \<not> known b \<Longrightarrow> fallback p \<le> requiredGap p a b tm"
  "map_of (spacing_of p) (category a, category b) = Some d \<Longrightarrow> known a \<Longrightarrow> known b \<Longrightarrow> d \<le> requiredGap p a b tm"
  by (auto simp: requiredGap_def)

lemma leading_check_valid:
  "fst (leading_check p f c ps e v) \<longleftrightarrow> fst v \<and> requiredGap p (ent_flight e) f c \<le> t_sub c (ent_time e) \<and>
     \<not> orderAfter (ManualOrder f) (ManualOrder (ent_flight e)) \<and> \<not> (ps \<and> orderAfter (stableOrder f) (stableOrder (ent_flight e)))"
  by (auto simp: leading_check_def Let_def split: prod.splits)

lemma trailing_check_valid:
  "fst (trailing_check p f c ps e v) \<longleftrightarrow> fst v \<and> requiredGap p f (ent_flight e) (ent_time e) \<le> t_sub (ent_time e) c \<and>
     \<not> orderBefore (ManualOrder f) (ManualOrder (ent_flight e)) \<and> \<not> (ps \<and> orderBefore (stableOrder f) (stableOrder (ent_flight e)))"
  by (auto simp: trailing_check_def Let_def split: prod.splits)

definition holding_respected :: "preparedPolicy \<Rightarrow> preparedFlight \<Rightarrow> gotime \<Rightarrow> allocatedEntry \<Rightarrow> bool" where
  "holding_respected p f c e \<longleftrightarrow>
     \<not> holdingPrecedes p (ent_flight e) f \<or> holding_exempt f (ent_flight e) c \<or> \<not> before c (holding_minimum p f e c)"

lemma holding_checks_valid:
  "fst (foldl (holding_check p f c) v es) \<longleftrightarrow> fst v \<and> (\<forall>e \<in> set es. holding_respected p f c e)"
proof (induction es arbitrary: v)
  case (Cons e es)
  have "fst (holding_check p f c v e) \<longleftrightarrow> fst v \<and> holding_respected p f c e"
    by (auto simp: holding_check_def holding_respected_def Let_def split: prod.splits)
  with Cons show ?case by auto
qed simp

definition slot_index :: "allocatedEntry list \<Rightarrow> gotime \<Rightarrow> nat" where
  "slot_index es c = go_search (length es) (\<lambda>i. \<not> before (ent_time (es ! i)) c)"

lemma placement_valid:
  assumes "fst (placementWithStableOrder p es f c ps)"
  shows "case SlotNotBefore f of None \<Rightarrow> True | Some b \<Rightarrow> ns b \<le> ns c"
    and "blockingGap p c = None"
    and "0 < slot_index es c \<Longrightarrow> requiredGap p (ent_flight (es ! (slot_index es c - 1))) f c \<le> t_sub c (ent_time (es ! (slot_index es c - 1)))"
    and "slot_index es c < length es \<Longrightarrow>
      requiredGap p f (ent_flight (es ! slot_index es c)) (ent_time (es ! slot_index es c)) \<le> t_sub (ent_time (es ! slot_index es c)) c"
    and "HoldingQueueTime f \<noteq> None \<or> ArrivalQueueTime f \<noteq> None \<Longrightarrow> e \<in> set es \<Longrightarrow> holding_respected p f c e"
proof -
  have nb: "\<not> (case SlotNotBefore f of None \<Rightarrow> False | Some b \<Rightarrow> before c b)"
    using assms by (auto simp: placementWithStableOrder_def)
  then show "case SlotNotBefore f of None \<Rightarrow> True | Some b \<Rightarrow> ns b \<le> ns c" by (auto simp: before_def split: option.splits)
  show gap: "blockingGap p c = None" using assms nb by (auto simp: placementWithStableOrder_def split: option.splits)
  let ?v0 = "(True, t_add c (- 1), t_add c 1)"
  let ?v1 = "if 0 < slot_index es c then leading_check p f c ps (es ! (slot_index es c - 1)) ?v0 else ?v0"
  let ?v2 = "if slot_index es c < length es then trailing_check p f c ps (es ! slot_index es c) ?v1 else ?v1"
  have v: "placementWithStableOrder p es f c ps =
      (if HoldingQueueTime f \<noteq> None \<or> ArrivalQueueTime f \<noteq> None then foldl (holding_check p f c) ?v2 es else ?v2)"
    using nb gap unfolding placementWithStableOrder_def slot_index_def Let_def by simp
  have f2: "fst ?v2" using assms unfolding v by (auto simp: holding_checks_valid split: if_splits)
  then have f1: "fst ?v1" by (auto simp: trailing_check_valid split: if_splits)
  show "0 < slot_index es c \<Longrightarrow> requiredGap p (ent_flight (es ! (slot_index es c - 1))) f c \<le> t_sub c (ent_time (es ! (slot_index es c - 1)))"
    using f1 by (simp add: leading_check_valid)
  show "slot_index es c < length es \<Longrightarrow>
      requiredGap p f (ent_flight (es ! slot_index es c)) (ent_time (es ! slot_index es c)) \<le> t_sub (ent_time (es ! slot_index es c)) c"
    using f2 by (simp add: trailing_check_valid)
  show "HoldingQueueTime f \<noteq> None \<or> ArrivalQueueTime f \<noteq> None \<Longrightarrow> e \<in> set es \<Longrightarrow> holding_respected p f c e"
    using assms unfolding v by (auto simp: holding_checks_valid)
qed

lemma rateAt_pos:
  assumes "prepared_ok p" "ns (first_rate p) \<le> ns t"
  shows "0 < rateAt p t"
proof -
  have ok: "rates p \<noteq> []" "sorted_wrt rate_before (rates p)" "\<forall>r \<in> set (rates p). 0 < ArrivalsPerHour r"
    using assms(1) by (auto simp: prepared_ok_def)
  note idx = rate_index_sorted [OF ok(2), where t = t]
  have "rate_index (rates p) t \<noteq> 0"
  proof
    assume "rate_index (rates p) t = 0"
    then have "ns t < ns (EffectiveAt (rates p ! 0))" using idx(3) [of 0] ok(1) by simp
    with assms(2) show False by (simp add: first_rate_def)
  qed
  with idx(1) have "rates p ! (rate_index (rates p) t - 1) \<in> set (rates p)" by simp
  with ok(3) \<open>rate_index (rates p) t \<noteq> 0\<close> show ?thesis by (simp add: rateAt_def Let_def)
qed

lemma intervalAt_pos: "prepared_ok p \<Longrightarrow> ns (first_rate p) \<le> ns t \<Longrightarrow> 0 < intervalAt p t"
  using rateAt_pos [of p t] rateInterval_pos by (simp add: intervalAt_def)

lemma rateAt_first: "prepared_ok p \<Longrightarrow> intervalAt p t \<noteq> 0 \<Longrightarrow> ns (first_rate p) \<le> ns t"
proof -
  assume ok: "prepared_ok p" and i: "intervalAt p t \<noteq> 0"
  from ok have srt: "sorted_wrt rate_before (rates p)" by (simp add: prepared_ok_def)
  from i have "rate_index (rates p) t \<noteq> 0" by (auto simp: intervalAt_def rateAt_def Let_def split: if_splits)
  with rate_index_sorted(2) [OF srt, of 0 t] show ?thesis by (simp add: first_rate_def)
qed

lemma on_grid_first: "prepared_ok p \<Longrightarrow> on_grid p t \<Longrightarrow> ns (first_rate p) \<le> ns t"
  using grid_of_ge [of "rates p" "ns t"] by (auto simp: on_grid_def first_rate_def prepared_ok_def hd_conv_nth split: if_splits)

lemma on_grid_interval: "prepared_ok p \<Longrightarrow> on_grid p t \<Longrightarrow> 0 < intervalAt p t"
  using on_grid_first intervalAt_pos by blast

end
