(* ===== verification/Sequence_Engine.thy ===== *)
theory Sequence_Engine
  imports Sequence_Placement
begin

text \<open>
  Candidate generation of the AMAN sequence engine: the rest of
  \<^verbatim>\<open>internal/aman/sequence/engine.go\<close> with the local optimisation of \<^verbatim>\<open>optimization.go\<close>.

  \<^verbatim>\<open>orderMovableFlights\<close> repeats its outer loop until every flight is taken, so it is a
  \<^theory_text>\<open>partial_function (option)\<close>: \<open>None\<close> is the loop that never ends, and it makes \<open>generateGroup\<close> and
  \<open>generate\<close> return \<open>None\<close> too. All other loops are total functions.
\<close>

section \<open>One movable flight\<close>

lemma previous_grid_le: "previousGridAtOrBefore p t = Some c \<Longrightarrow> ns c \<le> ns t"
proof (induction p t rule: previousGridAtOrBefore.induct)
  case (1 p t)
  from "1.prems" obtain d where d: "previous_candidate p t = Some d"
    by (auto simp: previousGridAtOrBefore.simps [of p t] split: option.splits)
  note le = previous_candidate_le [OF d]
  consider (closed) cl where "blockingClosure p d \<noteq> None" "find (in_closure d) (closures p) = Some cl"
      "previousGridAtOrBefore p (t_add (cl_Start cl) (- 1)) = Some c"
    | (gap) g where "\<not> blockingClosure p d \<noteq> None" "blockingGap p d = Some g" "previousGridAtOrBefore p (t_add (gap_Start g) (- 1)) = Some c"
    | (free) "c = d"
    using "1.prems" d by (auto simp: previousGridAtOrBefore.simps [of p t] split: if_splits option.splits)
  then show ?case
  proof cases
    case closed
    with "1.IH"(1) [OF d] have "ns c \<le> ns (cl_Start cl) - 1" by (simp add: t_add_def)
    moreover have "ns (cl_Start cl) \<le> ns d" using find_SomeD [OF closed(2)] by (simp add: in_closure_def before_def)
    ultimately show ?thesis using le by simp
  next
    case gap
    with "1.IH"(2) [OF d] have "ns c \<le> ns (gap_Start g) - 1" by (simp add: t_add_def)
    with blockingGap_Some(2) [OF gap(2)] le show ?thesis by simp
  next
    case free
    with le show ?thesis by simp
  qed
qed

definition lower_bound :: "preparedPolicy \<Rightarrow> preparedFlight \<Rightarrow> gotime" where
  "lower_bound p flight =
     (let lower = t_add (OperationalTETA flight) (- EarlyTolerance (policy p)) in
      case SlotNotBefore flight of None \<Rightarrow> lower | Some b \<Rightarrow> if before lower b then b else lower)"

function find_earlier :: "preparedPolicy \<Rightarrow> allocatedEntry list \<Rightarrow> preparedFlight \<Rightarrow> gotime \<Rightarrow> gotime \<Rightarrow> gotime option" where
  "find_earlier p entries flight lower candidate =
     (if before candidate lower then None
      else (case placement p entries flight candidate of (valid, earlier, _) \<Rightarrow>
        (if valid then Some candidate
         else (case previousGridAtOrBefore p (bound_earlier (t_add candidate (- 1)) earlier) of
           None \<Rightarrow> None
         | Some candidate' \<Rightarrow> find_earlier p entries flight lower candidate'))))"
  by pat_completeness auto
termination
proof (relation "measure (\<lambda>(p, es, f, lower, c). nat (ns c - ns lower + 1))", goal_cases)
  case (2 p es f lower c v vx earlier y c')
  from previous_grid_le [OF 2(5)] have "ns c' < ns c" by (auto simp: bound_earlier_def go_time split: if_splits)
  with 2(1) show ?case by (simp add: before_def)
qed simp

declare find_earlier.simps [simp del]

fun find_later :: "nat \<Rightarrow> preparedPolicy \<Rightarrow> allocatedEntry list \<Rightarrow> preparedFlight \<Rightarrow> gotime \<Rightarrow> gotime option" where
  "find_later 0 p entries flight candidate = None"
| "find_later (Suc attempts) p entries flight candidate =
     (case placement p entries flight candidate of (valid, _, later) \<Rightarrow>
        (if valid then Some candidate
         else (case nextGridAtOrAfter p (bound_later (t_add candidate 1) later) of
           None \<Rightarrow> None
         | Some candidate' \<Rightarrow> find_later attempts p entries flight candidate')))"

definition findCandidate :: "preparedPolicy \<Rightarrow> allocatedEntry list \<Rightarrow> preparedFlight \<Rightarrow> seq_error + gotime" where
  "findCandidate p entries flight =
     (let lower = lower_bound p flight;
          teta = OperationalTETA flight;
          early = (case previousGridAtOrBefore p teta of None \<Rightarrow> None
                   | Some c \<Rightarrow> if before c teta then find_earlier p entries flight lower c else None) in
      case early of Some c \<Rightarrow> Inr c
      | None \<Rightarrow>
          (case nextGridAtOrAfter p (if before teta lower then lower else teta) of
             None \<Rightarrow> Inl (NoSlotGrid (group_id p) (Callsign flight))
           | Some c \<Rightarrow>
               (case find_later (length entries + length (gaps p) + length (closures p) + 2) p entries flight c of
                  Some c' \<Rightarrow> Inr c' | None \<Rightarrow> Inl (CouldNotAllocate (group_id p) (Callsign flight)))))"

section \<open>All movable flights\<close>

fun allocateMovableFlights :: "preparedPolicy \<Rightarrow> allocatedEntry list \<Rightarrow> preparedFlight list \<Rightarrow> seq_error + allocatedEntry list" where
  "allocateMovableFlights p entries [] = Inr entries"
| "allocateMovableFlights p entries (f # fs) =
     (case findCandidate p entries f of Inl e \<Rightarrow> Inl e
      | Inr c \<Rightarrow> allocateMovableFlights p (sortEntries (entries @ [\<lparr> ent_flight = f, ent_time = c, ent_reason = ReasonRateWTC \<rparr>])) fs)"

definition waits_for :: "preparedPolicy \<Rightarrow> preparedFlight \<Rightarrow> preparedFlight \<Rightarrow> bool" where
  "waits_for p flight other \<longleftrightarrow>
     holdingPrecedes p other flight \<and>
     \<not> (case (ManualOrder flight, ManualOrder other) of (Some _, None) \<Rightarrow> True | (Some m, Some n) \<Rightarrow> m < n | _ \<Rightarrow> False) \<and>
     \<not> (case (stableOrder flight, stableOrder other) of (Some m, Some n) \<Rightarrow> m < n | _ \<Rightarrow> False)"

fun take_first :: "('a \<Rightarrow> bool) \<Rightarrow> 'a list \<Rightarrow> ('a \<times> 'a list) option" where
  "take_first P [] = None"
| "take_first P (x # xs) =
     (if P x then Some (x, xs) else case take_first P xs of None \<Rightarrow> None | Some (y, ys) \<Rightarrow> Some (y, x # ys))"

partial_function (option) take_in_order :: "preparedPolicy \<Rightarrow> preparedFlight list \<Rightarrow> preparedFlight list option" where
  "take_in_order p remaining =
     (if remaining = [] then Some []
      else case take_first (\<lambda>f. \<not> list_ex (waits_for p f) remaining) remaining of
        None \<Rightarrow> take_in_order p remaining
      | Some (f, rest) \<Rightarrow> Option.bind (take_in_order p rest) (\<lambda>fs. Some (f # fs)))"

declare take_in_order.simps [code]

definition orderMovableFlights :: "preparedPolicy \<Rightarrow> preparedFlight list \<Rightarrow> preparedFlight list option" where
  "orderMovableFlights p flights = take_in_order p (go_sort flightLess flights)"

section \<open>Local optimisation\<close>

definition hasHoldingPriority :: "preparedFlight \<Rightarrow> bool" where
  "hasHoldingPriority f \<longleftrightarrow> HoldingSlotProtected f \<or> HoldingStackID f \<noteq> '''' \<or> HoldingQueueTime f \<noteq> None \<or> ActiveHoldingSince f \<noteq> None"

definition automaticOrderEligible :: "preparedFlight \<Rightarrow> bool" where
  "automaticOrderEligible f \<longleftrightarrow> fl_FreezeReason f = FreezeNone \<and> \<not> ProtectCurrentSlot f \<and> ManualOrder f = None \<and>
     fl_State f \<noteq> StateStable \<and> fl_State f \<noteq> StateGoAround \<and> \<not> hasHoldingPriority f"

definition stableSwapEligible :: "preparedFlight \<Rightarrow> bool" where
  "stableSwapEligible f \<longleftrightarrow> fl_State f = StateStable \<and> ProtectCurrentSlot f \<and> fl_FreezeReason f = FreezeNone \<and>
     ManualOrder f = None \<and> \<not> hasHoldingPriority f"

definition automaticTargetReachable :: "preparedPolicy \<Rightarrow> allocatedEntry \<Rightarrow> bool" where
  "automaticTargetReachable p entry \<longleftrightarrow>
     (let f = ent_flight entry; t = ent_time entry in
      \<not> before t (t_add (OperationalTETA f) (- EarlyTolerance (policy p))) \<and>
      (case SlotNotBefore f of None \<Rightarrow> True | Some b \<Rightarrow> \<not> before t b) \<and>
      (case PromotionNotBefore f of None \<Rightarrow> True | Some b \<Rightarrow> \<not> before t b))"

definition matchingRouteSuffix :: "string list \<Rightarrow> string list \<Rightarrow> bool" where
  "matchingRouteSuffix a b \<longleftrightarrow>
     a \<noteq> [] \<and> b \<noteq> [] \<and>
     (if length b < length a then drop (length a - length b) a = b else drop (length b - length a) b = a)"

text \<open>The first component is whether the first flight precedes, the second whether the two are comparable.\<close>

definition starPrecedes :: "preparedFlight \<Rightarrow> preparedFlight \<Rightarrow> bool \<times> bool" where
  "starPrecedes a b =
     (case (fl_STARProgress a, fl_STARProgress b) of
        (Some left, Some right) \<Rightarrow>
          (if SelectedSTARFamily a = '''' \<or> SelectedSTARFamily a \<noteq> SelectedSTARFamily b \<or> Fix left = '''' \<or> Fix left \<noteq> Fix right \<or>
              TerminalDigest left = '''' \<or> TerminalDigest left \<noteq> TerminalDigest right then (False, False)
           else if Passed left \<noteq> Passed right then (Passed left, True)
           else if \<not> Passed left then
             (case (sp_ETA left, sp_ETA right) of
                (Some x, Some y) \<Rightarrow>
                  (if \<not> valid_utc x \<or> \<not> valid_utc y then (False, False)
                   else (let d = t_sub y x in (15 * second < d, 15 * second < d \<or> d < - (15 * second))))
              | _ \<Rightarrow> (False, False))
           else if \<not> matchingRouteSuffix (RemainingFixes left) (RemainingFixes right) then (False, False)
           else
             (case (DistanceToGoNM left, DistanceToGoNM right) of
                (Fin x, Fin y) \<Rightarrow>
                  (if x < 0 \<or> y < 0 then (False, False) else (1 / 2 < y - x, 1 / 2 < \<bar>y - x\<bar>))
              | _ \<Rightarrow> (False, False)))
      | _ \<Rightarrow> (False, False))"

fun starInversions :: "allocatedEntry list \<Rightarrow> nat" where
  "starInversions [] = 0"
| "starInversions (e # es) =
     length (filter (\<lambda>later. fst (starPrecedes (ent_flight later) (ent_flight e))) es) + starInversions es"

definition sequenceDelay :: "allocatedEntry list \<Rightarrow> duration" where
  "sequenceDelay es = foldl (\<lambda>d e. d + max 0 (t_sub (ent_time e) (OperationalTETA (ent_flight e)))) 0 es"

definition noteOperation :: "string \<Rightarrow> preparedFlight \<Rightarrow> preparedFlight" where
  "noteOperation kind f = (if kind \<in> set (Operations f) then f else f\<lparr> Operations := Operations f @ [kind] \<rparr>)"

definition note_entry :: "string \<Rightarrow> allocatedEntry \<Rightarrow> allocatedEntry" where
  "note_entry kind e = e\<lparr> ent_flight := noteOperation kind (ent_flight e) \<rparr>"

definition position_of :: "allocatedEntry list \<Rightarrow> string \<Rightarrow> nat" where
  "position_of es c = (case map_of (rev (zip (map (\<lambda>e. Callsign (ent_flight e)) es) [0..<length es])) c of None \<Rightarrow> 0 | Some i \<Rightarrow> i)"

definition retainsOrderBoundaries :: "allocatedEntry list \<Rightarrow> allocatedEntry list \<Rightarrow> bool" where
  "retainsOrderBoundaries bef aft \<longleftrightarrow>
     list_all (\<lambda>i. automaticOrderEligible (ent_flight (bef ! i)) \<and> ent_reason (bef ! i) = ReasonRateWTC \<or>
       list_all (\<lambda>j. i = j \<or> (j < i) =
         (position_of aft (Callsign (ent_flight (bef ! j))) < position_of aft (Callsign (ent_flight (bef ! i))))) [0..<length bef])
       [0..<length bef]"

record opt_state =
  os_ordered :: "preparedFlight list"
  os_best :: "allocatedEntry list"
  os_trials :: nat
  os_changed :: bool

definition better :: "allocatedEntry list \<Rightarrow> allocatedEntry list \<Rightarrow> bool" where
  "better best candidate \<longleftrightarrow>
     starInversions candidate \<le> starInversions best \<and>
     (sequenceDelay candidate < sequenceDelay best \<or>
      sequenceDelay candidate = sequenceDelay best \<and> starInversions candidate < starInversions best) \<and>
     retainsOrderBoundaries best candidate"

definition try_exchange :: "preparedPolicy \<Rightarrow> allocatedEntry list \<Rightarrow> opt_state \<Rightarrow> nat \<Rightarrow> opt_state" where
  "try_exchange p protected st i =
     (let kind = ''automatic_order_optimization'';
          left = os_ordered st ! i; right = os_ordered st ! Suc i;
          swapped = (os_ordered st)[i := right, Suc i := left] in
      case allocateMovableFlights p protected swapped of
        Inl _ \<Rightarrow> st\<lparr> os_trials := os_trials st + 1 \<rparr>
      | Inr candidate \<Rightarrow>
          (if better (os_best st) candidate then
             st\<lparr> os_ordered := swapped[i := noteOperation kind right, Suc i := noteOperation kind left],
                 os_best := map (\<lambda>e. if Callsign (ent_flight e) = Callsign left \<or> Callsign (ent_flight e) = Callsign right
                    then note_entry kind e else e) candidate,
                 os_trials := os_trials st + 1, os_changed := True \<rparr>
           else st\<lparr> os_trials := os_trials st + 1 \<rparr>))"

text \<open>One sweep over adjacent pairs; the flag tells that the trials are used up.\<close>

fun sweep :: "nat \<Rightarrow> preparedPolicy \<Rightarrow> allocatedEntry list \<Rightarrow> opt_state \<Rightarrow> nat \<Rightarrow> opt_state \<times> bool" where
  "sweep 0 p protected st i = (st, False)"
| "sweep (Suc n) p protected st i =
     (let left = os_ordered st ! i; right = os_ordered st ! Suc i in
      if \<not> automaticOrderEligible left \<or> \<not> automaticOrderEligible right \<or> fl_State left \<noteq> fl_State right
      then sweep n p protected st (Suc i)
      else if os_trials st = 32 then (st, True)
      else sweep n p protected (try_exchange p protected st i) (Suc i))"

fun sweeps :: "nat \<Rightarrow> preparedPolicy \<Rightarrow> allocatedEntry list \<Rightarrow> opt_state \<Rightarrow> opt_state" where
  "sweeps 0 p protected st = st"
| "sweeps (Suc pass) p protected st =
     (case sweep (length (os_ordered st) - 1) p protected (st\<lparr> os_changed := False \<rparr>) 0 of
        (st', exhausted) \<Rightarrow> (if exhausted \<or> \<not> os_changed st' then st' else sweeps pass p protected st'))"

definition optimizeMovableOrder :: "preparedPolicy \<Rightarrow> allocatedEntry list \<Rightarrow> preparedFlight list \<Rightarrow> allocatedEntry list \<Rightarrow> allocatedEntry list" where
  "optimizeMovableOrder p protected ordered best =
     os_best (sweeps 2 p protected \<lparr> os_ordered = ordered, os_best = best, os_trials = 0, os_changed = False \<rparr>)"

definition stable_pair :: "allocatedEntry \<Rightarrow> allocatedEntry \<Rightarrow> bool" where
  "stable_pair left right \<longleftrightarrow> stableSwapEligible (ent_flight left) \<and> stableSwapEligible (ent_flight right) \<and>
     ent_reason left = ReasonStable \<and> ent_reason right = ReasonStable \<and>
     SelectedSTARFamily (ent_flight left) \<noteq> '''' \<and> SelectedSTARFamily (ent_flight left) = SelectedSTARFamily (ent_flight right)"

definition exchange_accepted :: "preparedPolicy \<Rightarrow> allocatedEntry list \<Rightarrow> nat \<Rightarrow> allocatedEntry \<Rightarrow> allocatedEntry \<Rightarrow> bool" where
  "exchange_accepted p es i trialLeft trialRight \<longleftrightarrow>
     (let left = es ! i; right = es ! Suc i;
          beforeDelay = sequenceDelay [left, right]; afterDelay = sequenceDelay [trialLeft, trialRight] in
      case starPrecedes (ent_flight right) (ent_flight left) of (precedes, comparable) \<Rightarrow>
        automaticTargetReachable p trialLeft \<and> automaticTargetReachable p trialRight \<and>
        \<not> (comparable \<and> \<not> precedes) \<and> afterDelay \<le> beforeDelay \<and> \<not> (afterDelay = beforeDelay \<and> \<not> precedes) \<and>
        adjacentValid p trialLeft trialRight \<and>
        (0 < i \<longrightarrow> adjacentValid p (es ! (i - 1)) trialLeft) \<and>
        (i + 2 < length es \<longrightarrow> adjacentValid p trialRight (es ! (i + 2))))"

function stable_exchanges :: "preparedPolicy \<Rightarrow> allocatedEntry list \<Rightarrow> nat \<Rightarrow> nat \<Rightarrow> allocatedEntry list" where
  "stable_exchanges p es trials i =
     (if Suc i < length es then
        (let left = es ! i; right = es ! Suc i;
             trialLeft = right\<lparr> ent_time := ent_time left \<rparr>; trialRight = left\<lparr> ent_time := ent_time right \<rparr> in
         if \<not> stable_pair left right then stable_exchanges p es trials (Suc i)
         else if 128 \<le> trials then es
         else if \<not> exchange_accepted p es i trialLeft trialRight then stable_exchanges p es (Suc trials) (Suc i)
         else stable_exchanges p (es[i := note_entry ''star_exchange'' trialLeft, Suc i := note_entry ''star_exchange'' trialRight])
                (Suc trials) (i - 1))
      else es)"
  by pat_completeness auto
termination
  by (relation "measures [\<lambda>(p, es, trials, i). 128 - trials, \<lambda>(p, es, trials, i). length es - i]") auto

declare stable_exchanges.simps [simp del]

definition optimizeStableSameSTAR :: "preparedPolicy \<Rightarrow> allocatedEntry list \<Rightarrow> allocatedEntry list" where
  "optimizeStableSameSTAR p es = stable_exchanges p es 0 0"

section \<open>Generation\<close>

datatype WarningSeverity = SeverityDegraded | SeverityConflict

datatype WarningCode = WarningUnknownWakeCategory | WarningProtectedSlotMissing | WarningProtectedSlotInvalid
  | WarningProtectedSpacing | WarningProtectedSameSTAR | WarningUnknownSTARFamily

fun severity_text :: "WarningSeverity \<Rightarrow> string" where
  "severity_text SeverityDegraded = ''degraded''"
| "severity_text SeverityConflict = ''conflict''"

fun code_text :: "WarningCode \<Rightarrow> string" where
  "code_text WarningUnknownWakeCategory = ''unknown_wake_category''"
| "code_text WarningProtectedSlotMissing = ''protected_slot_missing''"
| "code_text WarningProtectedSlotInvalid = ''protected_slot_invalid''"
| "code_text WarningProtectedSpacing = ''protected_spacing_conflict''"
| "code_text WarningProtectedSameSTAR = ''protected_same_star_spacing''"
| "code_text WarningUnknownSTARFamily = ''unknown_star_family''"

record Warning =
  w_Severity :: WarningSeverity
  w_Code :: WarningCode
  w_RunwayGroupID :: string
  w_Callsign :: string
  w_RelatedCallsign :: "string option"
  w_STARFamily :: string

definition warning :: "WarningSeverity \<Rightarrow> WarningCode \<Rightarrow> preparedPolicy \<Rightarrow> preparedFlight \<Rightarrow> Warning" where
  "warning s c p f = \<lparr> w_Severity = s, w_Code = c, w_RunwayGroupID = group_id p, w_Callsign = Callsign f,
     w_RelatedCallsign = None, w_STARFamily = '''' \<rparr>"

type_synonym promotions = "(string \<times> Slot) list"

definition flight_warnings :: "preparedPolicy \<Rightarrow> preparedFlight \<Rightarrow> Warning list" where
  "flight_warnings p f =
     (if known f then [] else [warning SeverityDegraded WarningUnknownWakeCategory p f]) @
     (if Enabled (pol_SameSTARSpacing (policy p)) \<and> STARFamily f = '''' then [warning SeverityDegraded WarningUnknownSTARFamily p f] else [])"

definition sequenced :: "preparedFlight \<Rightarrow> bool" where
  "sequenced f \<longleftrightarrow> fl_State f \<noteq> StateLanded \<and> fl_State f \<noteq> StateRemoved"

definition movable :: "promotions \<Rightarrow> preparedFlight \<Rightarrow> bool" where
  "movable promotions f \<longleftrightarrow> fl_FreezeReason f = FreezeNone \<and> \<not> ProtectCurrentSlot f \<and> map_of promotions (Callsign f) = None"

definition protected_slot :: "promotions \<Rightarrow> preparedFlight \<Rightarrow> Slot option" where
  "protected_slot promotions f =
     (case map_of promotions (Callsign f) of Some s \<Rightarrow> Some s
      | None \<Rightarrow> if ProtectCurrentSlot f \<and> fl_FreezeReason f = FreezeNone then CurrentSlot f else CapturedSlot f)"

definition protected_reason :: "promotions \<Rightarrow> preparedFlight \<Rightarrow> CandidateReason" where
  "protected_reason promotions f =
     (if fl_FreezeReason f = FreezeSuperstable then ReasonFreezeSuperstable
      else if fl_FreezeReason f = FreezeTMA then ReasonFreezeTMA
      else if map_of promotions (Callsign f) \<noteq> None then ReasonQueuePromotion
      else if ProtectCurrentSlot f then ReasonStable else ReasonFreezeManual)"

definition protected_entry :: "preparedPolicy \<Rightarrow> promotions \<Rightarrow> preparedFlight \<Rightarrow> Warning + allocatedEntry" where
  "protected_entry p promotions f =
     (case protected_slot promotions f of
        None \<Rightarrow> Inl (warning SeverityConflict WarningProtectedSlotMissing p f)
      | Some slot \<Rightarrow>
          (if \<not> valid_utc (slot_Time slot) \<or> slot_RunwayGroupID slot \<noteq> group_id p \<or> slot_Sequence slot < 1 \<or>
              intervalAt p (slot_Time slot) = 0 \<or> blockingClosure p (slot_Time slot) \<noteq> None
           then Inl (warning SeverityConflict WarningProtectedSlotInvalid p f)
           else Inr \<lparr> ent_flight = f, ent_time = slot_Time slot, ent_reason = protected_reason promotions f \<rparr>))"

definition spacing_warning :: "preparedPolicy \<Rightarrow> allocatedEntry \<Rightarrow> allocatedEntry \<Rightarrow> Warning" where
  "spacing_warning p leading trailing =
     (let lf = ent_flight leading; tf = ent_flight trailing; gap = sameSTARGap p lf tf (ent_time trailing);
          same = (0 < gap \<and> t_sub (ent_time trailing) (ent_time leading) < gap) in
      \<lparr> w_Severity = SeverityConflict, w_Code = (if same then WarningProtectedSameSTAR else WarningProtectedSpacing),
        w_RunwayGroupID = group_id p, w_Callsign = Callsign tf, w_RelatedCallsign = Some (Callsign lf),
        w_STARFamily = (if same then STARFamily tf else '''') \<rparr>)"

fun spacing_warnings :: "preparedPolicy \<Rightarrow> allocatedEntry list \<Rightarrow> Warning list" where
  "spacing_warnings p (a # b # es) =
     (if adjacentValid p a b then [] else [spacing_warning p a b]) @ spacing_warnings p (b # es)"
| "spacing_warnings p _ = []"

definition protected_results :: "preparedPolicy \<Rightarrow> preparedFlight list \<Rightarrow> promotions \<Rightarrow> (Warning + allocatedEntry) list" where
  "protected_results p flights promotions =
     map (protected_entry p promotions) (go_sort flightLess (filter (\<lambda>f. sequenced f \<and> \<not> movable promotions f) flights))"

definition protected_entries :: "preparedPolicy \<Rightarrow> preparedFlight list \<Rightarrow> promotions \<Rightarrow> allocatedEntry list" where
  "protected_entries p flights promotions =
     sortEntries (map projr (filter (\<lambda>r. \<not> isl r) (protected_results p flights promotions)))"

definition generateGroup :: "preparedPolicy \<Rightarrow> preparedFlight list \<Rightarrow> promotions
    \<Rightarrow> (seq_error + allocatedEntry list \<times> Warning list) option" where
  "generateGroup p flights promotions =
     (let warnings = concat (map (flight_warnings p) flights) @ map projl (filter isl (protected_results p flights promotions));
          entries = protected_entries p flights promotions in
      case orderMovableFlights p (filter (\<lambda>f. sequenced f \<and> movable promotions f) flights) of
        None \<Rightarrow> None
      | Some ordered \<Rightarrow>
          Some (case allocateMovableFlights p entries ordered of Inl e \<Rightarrow> Inl e
            | Inr allocated \<Rightarrow>
                (let final = optimizeStableSameSTAR p (optimizeMovableOrder p entries ordered allocated) in
                 Inr (final, warnings @ spacing_warnings p (filter (\<lambda>e. ent_reason e \<noteq> ReasonRateWTC) final)))))"

record CandidateEntry =
  ce_Callsign :: string
  ce_RunwayGroupID :: string
  ce_Sequence :: nat
  ce_Time :: gotime
  ce_OperationalTETA :: gotime
  ce_WakeCategory :: string
  ce_FreezeReason :: FreezeReason
  ce_Protected :: bool
  ce_Reason :: CandidateReason

record SlotMovement =
  mv_Callsign :: string
  mv_RunwayGroupID :: string
  mv_From :: "(gotime \<times> int) option"
  mv_ToTime :: gotime
  mv_ToSequence :: nat

record SeqResult =
  res_Operations :: "(string \<times> string) list"
  res_Entries :: "CandidateEntry list"
  res_Movements :: "SlotMovement list"
  res_Warnings :: "Warning list"

definition HasConflicts :: "SeqResult \<Rightarrow> bool" where
  "HasConflicts r \<longleftrightarrow> list_ex (\<lambda>w. w_Severity w = SeverityConflict) (res_Warnings r)"

definition movementFor :: "preparedFlight \<Rightarrow> CandidateEntry \<Rightarrow> SlotMovement option" where
  "movementFor f c =
     (case CurrentSlot f of
        Some s \<Rightarrow>
          (if t_equal (slot_Time s) (ce_Time c) \<and> slot_Sequence s = int (ce_Sequence c) then None
           else Some \<lparr> mv_Callsign = Callsign f, mv_RunwayGroupID = ce_RunwayGroupID c, mv_From = Some (slot_Time s, slot_Sequence s),
                       mv_ToTime = ce_Time c, mv_ToSequence = ce_Sequence c \<rparr>)
      | None \<Rightarrow> Some \<lparr> mv_Callsign = Callsign f, mv_RunwayGroupID = ce_RunwayGroupID c, mv_From = None,
                       mv_ToTime = ce_Time c, mv_ToSequence = ce_Sequence c \<rparr>)"

definition candidate_entry :: "string \<Rightarrow> nat \<Rightarrow> allocatedEntry \<Rightarrow> CandidateEntry" where
  "candidate_entry g i e =
     (let f = ent_flight e in
      \<lparr> ce_Callsign = Callsign f, ce_RunwayGroupID = g, ce_Sequence = i + 1, ce_Time = ent_time e,
        ce_OperationalTETA = OperationalTETA f, ce_WakeCategory = category f, ce_FreezeReason = fl_FreezeReason f,
        ce_Protected = is_protected f, ce_Reason = ent_reason e \<rparr>)"

definition add_group :: "string \<Rightarrow> allocatedEntry list \<times> Warning list \<Rightarrow> SeqResult \<Rightarrow> SeqResult" where
  "add_group g gw r =
     (let cs = map (\<lambda>i. candidate_entry g i (fst gw ! i)) [0..<length (fst gw)] in
      \<lparr> res_Operations = res_Operations r @ concat (map (\<lambda>e. map (Pair (Callsign (ent_flight e))) (Operations (ent_flight e))) (fst gw)),
        res_Entries = res_Entries r @ cs,
        res_Movements = res_Movements r @ List.map_filter (\<lambda>i. movementFor (ent_flight (fst gw ! i)) (cs ! i)) [0..<length (fst gw)],
        res_Warnings = res_Warnings r @ snd gw \<rparr>)"

definition warning_less :: "Warning \<Rightarrow> Warning \<Rightarrow> bool" where
  "warning_less a b =
     (if w_RunwayGroupID a \<noteq> w_RunwayGroupID b then w_RunwayGroupID a < w_RunwayGroupID b
      else if w_Callsign a \<noteq> w_Callsign b then w_Callsign a < w_Callsign b
      else if w_Severity a \<noteq> w_Severity b then severity_text (w_Severity a) < severity_text (w_Severity b)
      else if w_Code a \<noteq> w_Code b then code_text (w_Code a) < code_text (w_Code b)
      else if value_or_empty (w_RelatedCallsign a) \<noteq> value_or_empty (w_RelatedCallsign b)
        then value_or_empty (w_RelatedCallsign a) < value_or_empty (w_RelatedCallsign b)
      else w_STARFamily a < w_STARFamily b)"

fun generate_groups :: "(string \<times> preparedPolicy) list \<Rightarrow> preparedFlight list \<Rightarrow> promotions \<Rightarrow> SeqResult
    \<Rightarrow> (seq_error + SeqResult) option" where
  "generate_groups [] flights promotions r = Some (Inr r)"
| "generate_groups ((g, p) # gs) flights promotions r =
     (case generateGroup p (group_flights g flights) promotions of
        None \<Rightarrow> None
      | Some (Inl e) \<Rightarrow> Some (Inl e)
      | Some (Inr gw) \<Rightarrow> generate_groups gs flights promotions (add_group g gw r))"

definition generate :: "Input \<Rightarrow> promotions \<Rightarrow> (seq_error + SeqResult) option" where
  "generate input promotions =
     (case prepareInput input of Inl e \<Rightarrow> Some (Inl e)
      | Inr (policies, flights) \<Rightarrow>
          (case generate_groups (go_sort (\<lambda>a b. fst a < fst b) policies) flights promotions
              \<lparr> res_Operations = [], res_Entries = [], res_Movements = [], res_Warnings = [] \<rparr> of
             None \<Rightarrow> None
           | Some (Inl e) \<Rightarrow> Some (Inl e)
           | Some (Inr r) \<Rightarrow> Some (Inr (r\<lparr> res_Warnings := go_sort warning_less (res_Warnings r) \<rparr>))))"

definition Generate :: "Input \<Rightarrow> (seq_error + SeqResult) option" where
  "Generate input = generate input []"

section \<open>A candidate is a legal slot\<close>

definition legal_slot :: "preparedPolicy \<Rightarrow> preparedFlight \<Rightarrow> gotime \<Rightarrow> bool" where
  "legal_slot p f c \<longleftrightarrow> on_grid p c \<and> slot_open p c \<and> ns (lower_bound p f) \<le> ns c"

lemma find_earlier_sound:
  assumes "find_earlier p es f lower c = Some d" "prepared_ok p" "on_grid p c" "slot_open p c"
  shows "on_grid p d \<and> slot_open p d \<and> ns lower \<le> ns d \<and> fst (placement p es f d)"
  using assms
proof (induction p es f lower c rule: find_earlier.induct)
  case (1 p es f lower c)
  obtain v e l where v: "placement p es f c = (v, e, l)" by (metis prod_cases3)
  have lo: "\<not> before c lower" using "1.prems"(1) by (auto simp: find_earlier.simps [of p es f lower c])
  show ?case
  proof (cases v)
    case True
    with "1.prems" v lo show ?thesis by (simp add: find_earlier.simps [of p es f lower c] before_def)
  next
    case False
    with "1.prems"(1) v lo obtain c' where c': "previousGridAtOrBefore p (bound_earlier (t_add c (- 1)) e) = Some c'"
        "find_earlier p es f lower c' = Some d"
      by (auto simp: find_earlier.simps [of p es f lower c] split: option.splits)
    show ?thesis
      using "1.IH" [OF lo v [symmetric] refl False c'(1,2) "1.prems"(2)] previous_grid_Some [OF "1.prems"(2) c'(1)] by blast
  qed
qed

lemma find_later_sound:
  assumes "find_later n p es f c = Some d" "prepared_ok p" "on_grid p c" "slot_open p c"
  shows "on_grid p d \<and> slot_open p d \<and> ns c \<le> ns d \<and> fst (placement p es f d)"
  using assms
proof (induction n p es f c rule: find_later.induct)
  case (2 n p es f c)
  obtain v e l where v: "placement p es f c = (v, e, l)" by (metis prod_cases3)
  show ?case
  proof (cases v)
    case True
    with "2.prems" v show ?thesis by simp
  next
    case False
    with "2.prems"(1) v obtain c' where c': "nextGridAtOrAfter p (bound_later (t_add c 1) l) = Some c'" "find_later n p es f c' = Some d"
      by (auto split: option.splits)
    note g = next_grid_Some [OF "2.prems"(2) c'(1)]
    have "ns c \<le> ns c'" using g(3) by (auto simp: bound_later_def go_time split: if_splits)
    moreover have "on_grid p d \<and> slot_open p d \<and> ns c' \<le> ns d \<and> fst (placement p es f d)"
      using "2.IH" [OF v [symmetric] refl False c' "2.prems"(2)] g by blast
    ultimately show ?thesis by auto
  qed
qed simp

lemma findCandidate_sound:
  assumes "findCandidate p es f = Inr c" "prepared_ok p"
  shows "legal_slot p f c" "fst (placement p es f c)"
proof -
  let ?lower = "lower_bound p f" and ?t = "OperationalTETA f"
  consider (early) c0 where "previousGridAtOrBefore p ?t = Some c0" "find_earlier p es f ?lower c0 = Some c"
    | (late) c0 n where "nextGridAtOrAfter p (if before ?t ?lower then ?lower else ?t) = Some c0" "find_later n p es f c0 = Some c"
    using assms(1) by (auto simp: findCandidate_def Let_def simp del: find_later.simps split: option.splits if_splits)
  then have "legal_slot p f c \<and> fst (placement p es f c)"
  proof cases
    case early
    with find_earlier_sound assms(2) previous_grid_Some [OF assms(2) early(1)] show ?thesis by (auto simp: legal_slot_def)
  next
    case late
    note g = next_grid_Some [OF assms(2) late(1)]
    have "ns ?lower \<le> ns c0" using g(3) by (auto simp: before_def split: if_splits)
    with find_later_sound [OF late(2) assms(2) g(1,2)] show ?thesis by (auto simp: legal_slot_def)
  qed
  then show "legal_slot p f c" "fst (placement p es f c)" by blast+
qed

section \<open>Allocation keeps the spacing\<close>

abbreviation at_ns :: "allocatedEntry \<Rightarrow> int" where "at_ns e \<equiv> ns (ent_time e)"

definition in_time :: "preparedPolicy \<Rightarrow> allocatedEntry list \<Rightarrow> bool" where
  "in_time p es \<longleftrightarrow> sorted (map at_ns es) \<and> (\<forall>e \<in> set es. ns (first_rate p) \<le> at_ns e)"

definition pair_ok :: "preparedPolicy \<Rightarrow> allocatedEntry \<Rightarrow> allocatedEntry \<Rightarrow> bool" where
  "pair_ok p a b \<longleftrightarrow> adjacentValid p a b \<or> ent_reason a \<noteq> ReasonRateWTC \<and> ent_reason b \<noteq> ReasonRateWTC"

lemma sorted_sortEntries: "sorted (map at_ns (sortEntries es))"
  unfolding sortEntries_def by (rule sorted_go_sort_key) (auto simp: key_first_def entry_less_def go_time)

lemma set_sortEntries [simp]: "set (sortEntries es) = set es" by (simp add: sortEntries_def)
lemma mset_sortEntries [simp]: "mset (sortEntries es) = mset es" by (simp add: sortEntries_def)

lemma slot_index_split:
  assumes "sorted (map at_ns es)"
  shows "\<forall>x \<in> set (take (slot_index es c) es). at_ns x < ns c" "\<forall>x \<in> set (drop (slot_index es c) es). ns c \<le> at_ns x"
    "slot_index es c \<le> length es"
proof -
  have i: "slot_index es c = go_search (length es) (\<lambda>n. \<not> at_ns (es ! n) < ns c)" by (simp add: slot_index_def before_def)
  show "\<forall>x \<in> set (take (slot_index es c) es). at_ns x < ns c" unfolding i by (rule go_search_sorted_ge(1) [OF assms])
  show "\<forall>x \<in> set (drop (slot_index es c) es). ns c \<le> at_ns x" unfolding i by (rule go_search_sorted_ge(2) [OF assms])
  show "slot_index es c \<le> length es" unfolding i by (rule go_search_le)
qed

lemma requiredGap_pos: "prepared_ok p \<Longrightarrow> ns (first_rate p) \<le> ns t \<Longrightarrow> 0 < requiredGap p a b t"
  using intervalAt_pos [of p t] requiredGap_ge(1) [of p t a b] by simp

lemma placed_after:
  assumes "prepared_ok p" "in_time p es" "fst (placementWithStableOrder p es f c ps)" "x \<in> set (drop (slot_index es c) es)"
  shows "ns c < at_ns x"
proof -
  let ?i = "slot_index es c"
  from assms(4) have i: "?i < length es" by (cases "?i < length es") auto
  then have hd: "es ! ?i \<in> set es" by simp
  have "0 < requiredGap p f (ent_flight (es ! ?i)) (ent_time (es ! ?i))"
    using requiredGap_pos [OF assms(1)] assms(2) hd by (auto simp: in_time_def)
  with placement_valid(4) [OF assms(3) i] have "ns c < at_ns (es ! ?i)" by (simp add: t_sub_def)
  moreover have "at_ns (es ! ?i) \<le> at_ns x"
    using assms(2,4) i sorted_wrt_drop [of "(\<le>)" "map at_ns es" ?i] by (auto simp: in_time_def drop_map Cons_nth_drop_Suc [symmetric])
  ultimately show ?thesis by simp
qed

lemma insert_position:
  assumes "prepared_ok p" "in_time p es" "distinct (map at_ns es)" "fst (placementWithStableOrder p es f c ps)" "ent_time e = c"
  shows "sortEntries (es @ [e]) = take (slot_index es c) es @ e # drop (slot_index es c) es" (is "_ = ?ys")
    "distinct (map at_ns (sortEntries (es @ [e])))"
proof -
  let ?i = "slot_index es c"
  define l r where "l = take ?i es" and "r = drop ?i es"
  have es: "es = l @ r" by (simp add: l_def r_def)
  have srt: "sorted (map at_ns es)" using assms(2) by (simp add: in_time_def)
  have bef: "\<forall>x \<in> set l. at_ns x < at_ns e" unfolding l_def assms(5) by (rule slot_index_split(1) [OF srt])
  have aft: "\<forall>x \<in> set r. at_ns e < at_ns x" unfolding r_def assms(5) using placed_after [OF assms(1,2,4)] by blast
  have ys: "sorted (map at_ns (l @ e # r))"
    using srt bef aft unfolding es by (simp add: sorted_append) (meson less_imp_le)
  have yd: "distinct (map at_ns (l @ e # r))"
    using assms(3) bef aft unfolding es by (simp add: image_iff) (metis less_irrefl)
  have mset: "mset (sortEntries (es @ [e])) = mset (l @ e # r)" unfolding es by simp
  then have "mset (map at_ns (sortEntries (es @ [e]))) = mset (map at_ns (l @ e # r))" by (metis mset_map)
  then show d: "distinct (map at_ns (sortEntries (es @ [e])))" using yd mset_eq_imp_distinct_iff by blast
  have set: "set (sortEntries (es @ [e])) = set (l @ e # r)" using mset by (rule mset_eq_setD)
  have "inj_on at_ns (set (sortEntries (es @ [e])) \<union> set (l @ e # r))" unfolding set Un_absorb using yd distinct_map by blast
  from map_sorted_distinct_set_unique [OF this sorted_sortEntries d ys yd set]
  show "sortEntries (es @ [e]) = ?ys" by (simp add: l_def r_def)
qed

lemma in_time_insert:
  assumes "prepared_ok p" "in_time p es" "on_grid p (ent_time e)"
  shows "in_time p (sortEntries (es @ [e]))"
  using assms on_grid_first [OF assms(1,3)] by (auto simp: in_time_def sorted_sortEntries)

lemma spaced_insert:
  assumes "prepared_ok p" "in_time p es" "distinct (map at_ns es)" "successively (pair_ok p) es"
    and "fst (placement p es f c)" "on_grid p c"
  shows "successively (pair_ok p) (sortEntries (es @ [\<lparr> ent_flight = f, ent_time = c, ent_reason = ReasonRateWTC \<rparr>]))"
proof -
  let ?e = "\<lparr> ent_flight = f, ent_time = c, ent_reason = ReasonRateWTC \<rparr>" and ?i = "slot_index es c"
  have srt: "sorted (map at_ns es)" using assms(2) by (simp add: in_time_def)
  note sp = slot_index_split [OF srt, of c]
  note place = assms(5) [unfolded placement_def]
  note v = placement_valid [OF place]
  have parts: "successively (pair_ok p) (take ?i es)" "successively (pair_ok p) (drop ?i es)"
    using assms(4) by (metis append_take_drop_id successively_append_iff)+
  have left: "pair_ok p (last (take ?i es)) ?e" if "take ?i es \<noteq> []"
  proof -
    from that have i: "0 < ?i" "es \<noteq> []" by auto
    with sp(3) have l: "last (take ?i es) = es ! (?i - 1)" by (simp add: last_conv_nth)
    have "last (take ?i es) \<in> set (take ?i es)" using that by (rule last_in_set)
    with sp(1) v(3) [OF i(1)] show ?thesis by (auto simp: pair_ok_def adjacentValid_def l after_def)
  qed
  have right: "pair_ok p ?e (hd (drop ?i es))" if "drop ?i es \<noteq> []"
  proof -
    from that have i: "?i < length es" by simp
    have h: "hd (drop ?i es) = es ! ?i" using i by (simp add: hd_drop_conv_nth)
    have "ns c < at_ns (hd (drop ?i es))" using placed_after [OF assms(1,2) place] that by simp
    with v(4) [OF i] show ?thesis by (simp add: pair_ok_def adjacentValid_def h after_def)
  qed
  have "successively (pair_ok p) (take ?i es @ [?e] @ drop ?i es)"
    unfolding successively_append_iff using parts left right by auto
  moreover have "sortEntries (es @ [?e]) = take ?i es @ ?e # drop ?i es"
    by (rule insert_position(1) [OF assms(1-3) place]) simp
  ultimately show ?thesis by simp
qed

definition rate_legal :: "preparedPolicy \<Rightarrow> allocatedEntry \<Rightarrow> bool" where
  "rate_legal p e \<longleftrightarrow> (ent_reason e = ReasonRateWTC \<longrightarrow> legal_slot p (ent_flight e) (ent_time e))"

abbreviation protected_part :: "allocatedEntry list \<Rightarrow> allocatedEntry list" where
  "protected_part es \<equiv> filter (\<lambda>e. ent_reason e \<noteq> ReasonRateWTC) es"

lemma allocate_keeps:
  assumes "allocateMovableFlights p es fs = Inr rs" "prepared_ok p" "in_time p es" "\<forall>e \<in> set es. rate_legal p e"
  shows "in_time p rs \<and> (\<forall>e \<in> set rs. rate_legal p e) \<and> mset (protected_part rs) = mset (protected_part es) \<and>
    mset (map ent_flight rs) = mset (map ent_flight es) + mset fs"
  using assms
proof (induction p es fs rule: allocateMovableFlights.induct)
  case (2 p es f fs)
  then obtain c where c: "findCandidate p es f = Inr c" by (auto split: sum.splits)
  let ?e = "\<lparr> ent_flight = f, ent_time = c, ent_reason = ReasonRateWTC \<rparr>"
  note s = findCandidate_sound [OF c "2.prems"(2)]
  let ?es = "sortEntries (es @ [?e])"
  have rs: "allocateMovableFlights p ?es fs = Inr rs" using "2.prems"(1) c by simp
  have "in_time p ?es" using s(1) by (intro in_time_insert "2.prems") (simp add: legal_slot_def)
  moreover have "\<forall>e \<in> set ?es. rate_legal p e" using "2.prems"(4) s(1) by (auto simp: rate_legal_def)
  ultimately have "in_time p rs \<and> (\<forall>e \<in> set rs. rate_legal p e) \<and> mset (protected_part rs) = mset (protected_part ?es) \<and>
      mset (map ent_flight rs) = mset (map ent_flight ?es) + mset fs"
    using "2.IH" [OF c rs "2.prems"(2)] by blast
  then show ?case by simp
qed simp

lemma allocate_spaced:
  assumes "allocateMovableFlights p es fs = Inr rs" "prepared_ok p" "in_time p es" "distinct (map at_ns es)"
    and "successively (pair_ok p) es"
  shows "distinct (map at_ns rs) \<and> successively (pair_ok p) rs"
  using assms
proof (induction p es fs rule: allocateMovableFlights.induct)
  case (2 p es f fs)
  then obtain c where c: "findCandidate p es f = Inr c" by (auto split: sum.splits)
  let ?e = "\<lparr> ent_flight = f, ent_time = c, ent_reason = ReasonRateWTC \<rparr>"
  note s = findCandidate_sound [OF c "2.prems"(2)]
  then have g: "on_grid p c" by (simp add: legal_slot_def)
  let ?es = "sortEntries (es @ [?e])"
  have rs: "allocateMovableFlights p ?es fs = Inr rs" using "2.prems"(1) c by simp
  have "in_time p ?es" using g by (intro in_time_insert "2.prems") simp
  moreover have "distinct (map at_ns ?es)" by (rule insert_position(2) [OF "2.prems"(2-4) s(2) [unfolded placement_def]]) simp
  moreover have "successively (pair_ok p) ?es" by (rule spaced_insert [OF "2.prems"(2-5) s(2) g])
  ultimately show ?case using "2.IH" [OF c rs "2.prems"(2)] by blast
qed simp

section \<open>Notes do not matter\<close>

text \<open>The recorded operations of a flight are diagnostic: \<open>core\<close> forgets them.\<close>

definition core :: "preparedFlight \<Rightarrow> preparedFlight" where "core f = f\<lparr> Operations := [] \<rparr>"

definition sig :: "allocatedEntry \<Rightarrow> preparedFlight \<times> gotime \<times> CandidateReason" where
  "sig e = (core (ent_flight e), ent_time e, ent_reason e)"

named_theorems noted "what a noted operation leaves alone"

lemma note_fields [noted]:
  "core (noteOperation k f) = core f" "ent_time (note_entry k e) = ent_time e" "ent_reason (note_entry k e) = ent_reason e"
  "ent_flight (note_entry k e) = noteOperation k (ent_flight e)" "sig (note_entry k e) = sig e"
  by (simp_all add: core_def noteOperation_def note_entry_def sig_def)

lemma note_gap [noted]:
  "requiredGap p (noteOperation k f) g t = requiredGap p f g t" "requiredGap p g (noteOperation k f) t = requiredGap p g f t"
  "legal_slot p (noteOperation k f) c = legal_slot p f c"
proof -
  have fields: "STARFamily (f\<lparr> Operations := x \<rparr>) = STARFamily f" "DemandArrivalAt (f\<lparr> Operations := x \<rparr>) = DemandArrivalAt f"
    "known (f\<lparr> Operations := x \<rparr>) = known f" "category (f\<lparr> Operations := x \<rparr>) = category f" for x by simp_all
  have r1: "requiredGap p (f\<lparr> Operations := x \<rparr>) g t = requiredGap p f g t" for x
    unfolding requiredGap_def sameSTARGap_def fields ..
  have r2: "requiredGap p g (f\<lparr> Operations := x \<rparr>) t = requiredGap p g f t" for x
    unfolding requiredGap_def sameSTARGap_def fields ..
  have r3: "legal_slot p (f\<lparr> Operations := x \<rparr>) c = legal_slot p f c" for x
    unfolding legal_slot_def lower_bound_def by simp
  show "requiredGap p (noteOperation k f) g t = requiredGap p f g t" "requiredGap p g (noteOperation k f) t = requiredGap p g f t"
    "legal_slot p (noteOperation k f) c = legal_slot p f c"
    unfolding noteOperation_def using r1 r2 r3 by simp_all
qed

lemma note_pairs [noted]:
  "adjacentValid p (note_entry k a) b = adjacentValid p a b" "adjacentValid p a (note_entry k b) = adjacentValid p a b"
  "pair_ok p (note_entry k a) b = pair_ok p a b" "pair_ok p a (note_entry k b) = pair_ok p a b"
  "rate_legal p (note_entry k a) = rate_legal p a"
  by (simp_all add: adjacentValid_def pair_ok_def rate_legal_def note_fields note_gap)

section \<open>Every sequence considered is legal\<close>

definition entry_list_ok :: "preparedPolicy \<Rightarrow> allocatedEntry list \<Rightarrow> preparedFlight list \<Rightarrow> allocatedEntry list \<Rightarrow> bool" where
  "entry_list_ok p prot fs es \<longleftrightarrow> in_time p es \<and> (\<forall>e \<in> set es. rate_legal p e) \<and>
     mset (map sig (protected_part es)) = mset (map sig prot) \<and>
     mset (map (core \<circ> ent_flight) es) = mset (map (core \<circ> ent_flight) prot) + mset (map core fs) \<and>
     (distinct (map at_ns prot) \<longrightarrow> distinct (map at_ns es) \<and> successively (pair_ok p) es)"

definition protected_ok :: "preparedPolicy \<Rightarrow> allocatedEntry list \<Rightarrow> bool" where
  "protected_ok p prot \<longleftrightarrow> in_time p prot \<and> (\<forall>e \<in> set prot. ent_reason e \<noteq> ReasonRateWTC)"

lemma successively_all: "\<forall>x \<in> set xs. \<forall>y \<in> set xs. P x y \<Longrightarrow> successively P xs"
proof (induction xs)
  case (Cons x xs)
  then show ?case by (cases xs) auto
qed simp

lemma allocate_ok:
  assumes "allocateMovableFlights p prot fs = Inr rs" "prepared_ok p" "protected_ok p prot"
  shows "entry_list_ok p prot fs rs"
proof -
  have t: "in_time p prot" and r: "\<forall>e \<in> set prot. ent_reason e \<noteq> ReasonRateWTC" using assms(3) by (auto simp: protected_ok_def)
  then have "protected_part prot = prot" "\<forall>e \<in> set prot. rate_legal p e" "successively (pair_ok p) prot"
    by (auto simp: filter_id_conv rate_legal_def pair_ok_def intro: successively_all)
  with allocate_keeps [OF assms(1,2) t] allocate_spaced [OF assms(1,2) t]
  have k: "in_time p rs" "\<forall>e \<in> set rs. rate_legal p e" "mset (protected_part rs) = mset prot"
      "mset (map ent_flight rs) = mset (map ent_flight prot) + mset fs"
      "distinct (map at_ns prot) \<longrightarrow> distinct (map at_ns rs) \<and> successively (pair_ok p) rs" by auto
  have "mset (map (core \<circ> ent_flight) rs) = image_mset core (mset (map ent_flight rs))" by (simp add: image_mset.compositionality)
  also have "\<dots> = mset (map (core \<circ> ent_flight) prot) + mset (map core fs)"
    unfolding k(4) by (simp add: image_mset.compositionality)
  finally show ?thesis using k by (simp add: entry_list_ok_def)
qed

lemma noted_ok:
  assumes "entry_list_ok p prot fs es" "\<forall>e. g e = e \<or> g e = note_entry k e"
  shows "entry_list_ok p prot fs (map g es)"
proof -
  have g: "ent_time (g e) = ent_time e" "ent_reason (g e) = ent_reason e" "core (ent_flight (g e)) = core (ent_flight e)"
    "sig (g e) = sig e" "rate_legal p (g e) = rate_legal p e" for e using assms(2) [rule_format, of e] by (auto simp: noted)
  have gp: "pair_ok p (g a) (g b) = pair_ok p a b" for a b
    using assms(2) [rule_format, of a] assms(2) [rule_format, of b] by (auto simp: noted)
  have "successively (pair_ok p) (map g es) = successively (pair_ok p) es"
    unfolding successively_map by (simp add: gp)
  moreover have "map at_ns (map g es) = map at_ns es" "map (core \<circ> ent_flight) (map g es) = map (core \<circ> ent_flight) es"
    "map sig (protected_part (map g es)) = map sig (protected_part es)" by (simp_all add: g filter_map comp_def)
  moreover have "in_time p (map g es) \<longleftrightarrow> in_time p es" "(\<forall>e \<in> set (map g es). rate_legal p e) \<longleftrightarrow> (\<forall>e \<in> set es. rate_legal p e)"
    by (simp_all add: in_time_def g comp_def)
  ultimately show ?thesis using assms(1) unfolding entry_list_ok_def by (simp only:) blast
qed

lemma core_swap:
  assumes "Suc i < length fs"
  defines "sw \<equiv> fs[i := fs ! Suc i, Suc i := fs ! i]"
  shows "mset (map core sw) = mset (map core fs)"
    "mset (map core (sw[i := noteOperation k (fs ! Suc i), Suc i := noteOperation k (fs ! i)])) = mset (map core fs)"
proof -
  have "mset sw = mset fs" unfolding sw_def using assms(1) by (simp add: mset_swap)
  then show m: "mset (map core sw) = mset (map core fs)" by simp
  have "(map core sw)[i := core (fs ! Suc i), Suc i := core (fs ! i)] = map core sw"
    using assms(1) by (intro nth_equalityI) (auto simp: sw_def nth_list_update)
  then show "mset (map core (sw[i := noteOperation k (fs ! Suc i), Suc i := noteOperation k (fs ! i)])) = mset (map core fs)"
    using m by (simp add: map_update noted)
qed

definition opt_ok :: "preparedPolicy \<Rightarrow> allocatedEntry list \<Rightarrow> preparedFlight list \<Rightarrow> opt_state \<Rightarrow> bool" where
  "opt_ok p prot fs st \<longleftrightarrow> entry_list_ok p prot fs (os_best st) \<and> mset (map core (os_ordered st)) = mset (map core fs)"

lemma opt_ok_length: "opt_ok p prot fs st \<Longrightarrow> length (os_ordered st) = length fs"
  unfolding opt_ok_def by (metis length_map mset_eq_length)

lemma try_exchange_ok:
  assumes "opt_ok p prot fs st" "Suc i < length (os_ordered st)" "prepared_ok p" "protected_ok p prot"
  shows "opt_ok p prot fs (try_exchange p prot st i)"
proof -
  let ?l = "os_ordered st ! i" and ?r = "os_ordered st ! Suc i" and ?k = "''automatic_order_optimization''"
  let ?sw = "(os_ordered st)[i := ?r, Suc i := ?l]"
  show ?thesis
  proof (cases "allocateMovableFlights p prot ?sw")
    case (Inl e)
    with assms(1) show ?thesis by (simp add: try_exchange_def Let_def opt_ok_def)
  next
    case (Inr rs)
    have F: "mset (map core (os_ordered st)) = mset (map core fs)" using assms(1) by (simp add: opt_ok_def)
    have "mset (map core ?sw) = mset (map core fs)" using core_swap(1) [OF assms(2)] F by simp
    then have rs: "entry_list_ok p prot fs rs"
      using allocate_ok [OF Inr assms(3,4)] by (simp add: entry_list_ok_def)
    have "entry_list_ok p prot fs (map (\<lambda>e. if Callsign (ent_flight e) = Callsign ?l \<or> Callsign (ent_flight e) = Callsign ?r
        then note_entry ?k e else e) rs)"
      by (rule noted_ok [OF rs, where k = ?k]) auto
    moreover have "mset (map core (?sw[i := noteOperation ?k ?r, Suc i := noteOperation ?k ?l])) = mset (map core fs)"
      using core_swap(2) [OF assms(2)] F by simp
    ultimately show ?thesis using assms(1) Inr by (auto simp: try_exchange_def Let_def opt_ok_def)
  qed
qed

lemma sweep_ok:
  assumes "opt_ok p prot fs st" "i + n < length fs \<or> n = 0" "prepared_ok p" "protected_ok p prot"
  shows "opt_ok p prot fs (fst (sweep n p prot st i))"
  using assms
proof (induction n p prot st i rule: sweep.induct)
  case (2 n p prot st i)
  have "Suc i < length (os_ordered st)" using 2(4) opt_ok_length [OF 2(3)] by simp
  then have "opt_ok p prot fs (try_exchange p prot st i)" using 2(3,5,6) try_exchange_ok by blast
  with 2 show ?case by (auto simp: Let_def)
qed simp

lemma sweeps_ok:
  assumes "opt_ok p prot fs st" "prepared_ok p" "protected_ok p prot"
  shows "opt_ok p prot fs (sweeps n p prot st)"
  using assms
proof (induction n p prot st rule: sweeps.induct)
  case (2 n p prot st)
  obtain st' ex where s: "sweep (length (os_ordered st) - 1) p prot (st\<lparr> os_changed := False \<rparr>) 0 = (st', ex)" by fastforce
  have "opt_ok p prot fs (st\<lparr> os_changed := False \<rparr>)" using 2(2) by (simp add: opt_ok_def)
  then have "opt_ok p prot fs (fst (sweep (length (os_ordered st) - 1) p prot (st\<lparr> os_changed := False \<rparr>) 0))"
    using 2(3,4) opt_ok_length [OF 2(2)] by (intro sweep_ok) auto
  with s have "opt_ok p prot fs st'" by simp
  with 2 s show ?case by auto
qed simp

lemma optimize_movable_ok:
  assumes "entry_list_ok p prot fs es" "prepared_ok p" "protected_ok p prot"
  shows "entry_list_ok p prot fs (optimizeMovableOrder p prot fs es)"
  using sweeps_ok [of p prot fs "\<lparr> os_ordered = fs, os_best = es, os_trials = 0, os_changed = False \<rparr>" 2] assms
  by (simp add: optimizeMovableOrder_def opt_ok_def)

section \<open>Exchanges of stable slots\<close>

definition exchanged :: "preparedPolicy \<Rightarrow> allocatedEntry list \<Rightarrow> allocatedEntry list \<Rightarrow> bool" where
  "exchanged p es es' \<longleftrightarrow> map ent_time es' = map ent_time es \<and>
     filter (\<lambda>e. ent_reason e \<noteq> ReasonStable) es' = filter (\<lambda>e. ent_reason e \<noteq> ReasonStable) es \<and>
     filter (\<lambda>e. fl_FreezeReason (ent_flight e) \<noteq> FreezeNone) es' = filter (\<lambda>e. fl_FreezeReason (ent_flight e) \<noteq> FreezeNone) es \<and>
     map ent_reason es' = map ent_reason es \<and>
     mset (map (core \<circ> ent_flight) es') = mset (map (core \<circ> ent_flight) es) \<and>
     (successively (pair_ok p) es \<longrightarrow> successively (pair_ok p) es')"

lemma exchanged_refl: "exchanged p es es"
  by (simp add: exchanged_def)

lemma exchanged_trans: "exchanged p a b \<Longrightarrow> exchanged p b c \<Longrightarrow> exchanged p a c"
  unfolding exchanged_def by metis

lemma split_pair:
  assumes "Suc i < length es"
  obtains xs ys where "es = xs @ es ! i # es ! Suc i # ys" "length xs = i"
proof
  show "es = take i es @ es ! i # es ! Suc i # drop (Suc (Suc i)) es"
    using assms by (metis Cons_nth_drop_Suc Suc_lessD append_take_drop_id)
  show "length (take i es) = i" using assms by simp
qed

lemma exchange_step:
  assumes "Suc i < length es" "stable_pair (es ! i) (es ! Suc i)"
  defines "tL \<equiv> (es ! Suc i)\<lparr> ent_time := ent_time (es ! i) \<rparr>" and "tR \<equiv> (es ! i)\<lparr> ent_time := ent_time (es ! Suc i) \<rparr>"
  assumes acc: "exchange_accepted p es i tL tR"
  shows "exchanged p es (es[i := note_entry k tL, Suc i := note_entry k tR])"
proof -
  obtain xs ys where es: "es = xs @ es ! i # es ! Suc i # ys" and i: "length xs = i" using assms(1) by (rule split_pair)
  define l r where "l = es ! i" and "r = es ! Suc i"
  have es': "es = xs @ l # r # ys" using es by (simp add: l_def r_def)
  have st: "ent_reason l = ReasonStable" "ent_reason r = ReasonStable" using assms(2) by (auto simp: stable_pair_def l_def r_def)
  have fz: "fl_FreezeReason (ent_flight l) = FreezeNone" "fl_FreezeReason (ent_flight r) = FreezeNone"
    using assms(2) by (auto simp: stable_pair_def stableSwapEligible_def l_def r_def)
  have frozen_note: "fl_FreezeReason (noteOperation k f) = fl_FreezeReason f" for f by (simp add: noteOperation_def)
  have t: "ent_time tL = ent_time l" "ent_time tR = ent_time r" "ent_reason tL = ReasonStable" "ent_reason tR = ReasonStable"
      "ent_flight tL = ent_flight r" "ent_flight tR = ent_flight l" using st by (simp_all add: tL_def tR_def l_def r_def)
  have new: "es[i := note_entry k tL, Suc i := note_entry k tR] = xs @ note_entry k tL # note_entry k tR # ys"
    unfolding es' using i by (simp add: list_update_append)
  from acc have adj: "adjacentValid p tL tR" "xs \<noteq> [] \<Longrightarrow> adjacentValid p (last xs) tL" "ys \<noteq> [] \<Longrightarrow> adjacentValid p tR (hd ys)"
  proof -
    have "adjacentValid p tL tR \<and> (0 < i \<longrightarrow> adjacentValid p (es ! (i - 1)) tL) \<and> (i + 2 < length es \<longrightarrow> adjacentValid p tR (es ! (i + 2)))"
      using acc by (auto simp: exchange_accepted_def Let_def split: prod.splits)
    moreover have "last xs = es ! (i - 1)" if "xs \<noteq> []"
    proof -
      have "i - 1 < length xs" using that i by (cases xs) auto
      then show ?thesis unfolding es' using that i by (simp add: nth_append last_conv_nth)
    qed
    moreover have "hd ys = es ! (i + 2)" if "ys \<noteq> []" unfolding es' using that i by (simp add: nth_append hd_conv_nth)
    moreover have "length es = i + 2 + length ys" unfolding es' using i by simp
    ultimately show "adjacentValid p tL tR" "xs \<noteq> [] \<Longrightarrow> adjacentValid p (last xs) tL" "ys \<noteq> [] \<Longrightarrow> adjacentValid p tR (hd ys)"
      using i by (auto simp flip: length_greater_0_conv)
  qed
  have "successively (pair_ok p) (xs @ tL # tR # ys)" if "successively (pair_ok p) es"
  proof -
    have p: "pair_ok p tL tR" "xs \<noteq> [] \<Longrightarrow> pair_ok p (last xs) tL" "ys \<noteq> [] \<Longrightarrow> pair_ok p tR (hd ys)"
      using adj by (auto simp: pair_ok_def)
    have q: "successively (pair_ok p) xs" "successively (pair_ok p) ys"
      using that unfolding es' by (auto simp: successively_append_iff successively_Cons)
    from p q show ?thesis by (auto simp: successively_append_iff successively_Cons)
  qed
  moreover have "successively (pair_ok p) (xs @ note_entry k tL # note_entry k tR # ys) = successively (pair_ok p) (xs @ tL # tR # ys)"
    by (auto simp: successively_append_iff successively_Cons noted)
  ultimately show ?thesis unfolding exchanged_def new using st t fz
    by (simp add: es' noted add_mset_commute note_entry_def frozen_note)
qed

lemma stable_exchanges_ok: "exchanged p es (stable_exchanges p es trials i)"
proof (induction p es trials i rule: stable_exchanges.induct)
  case (1 p es trials i)
  let ?l = "es ! i" and ?r = "es ! Suc i"
  let ?tl = "?r\<lparr> ent_time := ent_time ?l \<rparr>" and ?tr = "?l\<lparr> ent_time := ent_time ?r \<rparr>"
  consider (stop) "\<not> Suc i < length es \<or> stable_pair ?l ?r \<and> 128 \<le> trials" | (skip) "Suc i < length es" "\<not> stable_pair ?l ?r"
    | (reject) "Suc i < length es" "stable_pair ?l ?r" "\<not> 128 \<le> trials" "\<not> exchange_accepted p es i ?tl ?tr"
    | (accept) "Suc i < length es" "stable_pair ?l ?r" "\<not> 128 \<le> trials" "exchange_accepted p es i ?tl ?tr" by blast
  then show ?case
  proof cases
    case stop
    then show ?thesis by (auto simp: stable_exchanges.simps [of p es trials i] Let_def exchanged_refl)
  next
    case skip
    with 1 show ?thesis by (simp add: stable_exchanges.simps [of p es trials i] Let_def)
  next
    case reject
    with 1 show ?thesis by (simp add: stable_exchanges.simps [of p es trials i] Let_def)
  next
    case accept
    with 1(3) have "exchanged p (es[i := note_entry ''star_exchange'' ?tl, Suc i := note_entry ''star_exchange'' ?tr]) (stable_exchanges p es trials i)"
      by (simp add: stable_exchanges.simps [of p es trials i] Let_def)
    with exchange_step [OF accept(1,2,4)] show ?thesis by (rule exchanged_trans)
  qed
qed

section \<open>The order of allocation\<close>

lemma take_first_Some:
  "take_first P xs = Some (y, ys) \<Longrightarrow> P y \<and> mset xs = add_mset y (mset ys)"
  by (induction xs arbitrary: ys) (auto split: if_splits option.splits)

lemma take_first_None: "take_first P xs = None \<longleftrightarrow> (\<forall>x \<in> set xs. \<not> P x)"
  by (induction xs) (auto split: option.splits)

text \<open>A set of flights each of which waits for another one of them.\<close>

definition deadlocked :: "preparedPolicy \<Rightarrow> preparedFlight set \<Rightarrow> bool" where
  "deadlocked p S \<longleftrightarrow> S \<noteq> {} \<and> (\<forall>f \<in> S. \<exists>g \<in> S. waits_for p f g)"

lemma take_in_order_Some:
  assumes "take_in_order p r = Some fs"
  shows "mset fs = mset r \<and> sorted_wrt (\<lambda>a b. \<not> waits_for p a b) fs \<and> (\<forall>S \<subseteq> set r. \<not> deadlocked p S)"
proof (rule take_in_order.raw_induct [where P = "\<lambda>p r fs. mset fs = mset r \<and> sorted_wrt (\<lambda>a b. \<not> waits_for p a b) fs \<and>
    (\<forall>S \<subseteq> set r. \<not> deadlocked p S)", OF _ assms], goal_cases)
  case (1 rec p r fs)
  show ?case
  proof (cases "r = []")
    case True
    with 1(2) show ?thesis by (auto simp: deadlocked_def)
  next
    case False
    show ?thesis
    proof (cases "take_first (\<lambda>f. \<not> list_ex (waits_for p f) r) r")
      case None
      with 1 False show ?thesis by simp
    next
      case (Some fr)
      obtain f rest where fr: "fr = (f, rest)" by fastforce
      with 1(2) False Some obtain gs where gs: "rec p rest = Some gs" "fs = f # gs" by (auto simp: bind_eq_Some_conv)
      note IH = 1(1) [OF gs(1)]
      from take_first_Some Some fr have f: "\<not> list_ex (waits_for p f) r" "mset r = add_mset f (mset rest)" by metis+
      have sub: "set gs = set rest" "set r = insert f (set rest)" using IH f(2) by (metis mset_eq_setD, metis set_mset_add_mset_insert set_mset_mset)
      have "\<not> deadlocked p S" if S: "S \<subseteq> set r" for S
      proof
        assume d: "deadlocked p S"
        then have "f \<notin> S" using f(1) S unfolding deadlocked_def list_ex_iff by (meson subsetD)
        with S sub have "S \<subseteq> set rest" by auto
        with IH d show False by blast
      qed
      moreover have "\<forall>g \<in> set gs. \<not> waits_for p f g" using f(1) sub by (auto simp: list_ex_iff)
      ultimately show ?thesis using IH gs f by auto
    qed
  qed
qed

lemma take_in_order_total:
  "\<forall>S \<subseteq> set r. \<not> deadlocked p S \<Longrightarrow> \<exists>fs. take_in_order p r = Some fs"
proof (induction "length r" arbitrary: r)
  case 0
  then show ?case by (simp add: take_in_order.simps [of p "[]"])
next
  case (Suc n)
  then have ne: "r \<noteq> []" by auto
  with Suc.prems have "\<not> deadlocked p (set r)" by blast
  with ne obtain f where "f \<in> set r" "\<not> list_ex (waits_for p f) r" by (auto simp: deadlocked_def list_ex_iff)
  then obtain g rest where g: "take_first (\<lambda>f. \<not> list_ex (waits_for p f) r) r = Some (g, rest)"
    using take_first_None [of "\<lambda>f. \<not> list_ex (waits_for p f) r" r] by fastforce
  then have m: "mset r = add_mset g (mset rest)" using take_first_Some by fast
  then have "length rest = n" "set rest \<subseteq> set r"
    using Suc.hyps(2) by (metis diff_Suc_1 length_Cons mset.simps(2) mset_eq_length, metis mset_eq_setD set_subset_Cons mset.simps(2))
  then have "\<forall>S \<subseteq> set rest. \<not> deadlocked p S" "n = length rest" using Suc.prems by auto
  from Suc.hyps(1) [OF this(2,1)] obtain fs where "take_in_order p rest = Some fs" by blast
  with ne g show ?case by (simp add: take_in_order.simps [of p r])
qed

lemma orderMovableFlights_Some:
  assumes "orderMovableFlights p fs = Some os"
  shows "mset os = mset fs" "sorted_wrt (\<lambda>a b. \<not> waits_for p a b) os"
  using take_in_order_Some [OF assms [unfolded orderMovableFlights_def]] by simp_all

lemma deadlock_None:
  assumes "deadlocked p S" "S \<subseteq> set fs"
  shows "orderMovableFlights p fs = None"
proof (cases "orderMovableFlights p fs")
  case (Some os)
  from take_in_order_Some [OF this [unfolded orderMovableFlights_def]] have "\<forall>S \<subseteq> set fs. \<not> deadlocked p S" by simp
  with assms show ?thesis by blast
qed

section \<open>The result of a group\<close>

lemma protected_entry_Inr:
  assumes "protected_entry p promotions f = Inr e" "prepared_ok p"
  shows "ent_flight e = f" "ent_reason e = protected_reason promotions f" "ent_reason e \<noteq> ReasonRateWTC"
    "ns (first_rate p) \<le> at_ns e" "\<exists>s. protected_slot promotions f = Some s \<and> slot_Time s = ent_time e"
  using assms rateAt_first by (auto simp: protected_entry_def protected_reason_def split: option.splits if_splits)

lemma protected_entry_Inl: "protected_entry p promotions f = Inl w \<Longrightarrow> w_Severity w = SeverityConflict"
  by (auto simp: protected_entry_def warning_def split: option.splits if_splits)

lemma protected_entries_mem:
  "e \<in> set (protected_entries p flights promotions) \<longleftrightarrow>
     (\<exists>f \<in> set flights. sequenced f \<and> \<not> movable promotions f \<and> protected_entry p promotions f = Inr e)"
proof -
  have "set (protected_results p flights promotions) = protected_entry p promotions ` {f \<in> set flights. sequenced f \<and> \<not> movable promotions f}"
    unfolding protected_results_def by simp
  moreover have "e \<in> projr ` {r \<in> R. \<not> isl r} \<longleftrightarrow> Inr e \<in> R" for R :: "(Warning + allocatedEntry) set"
  proof
    assume "e \<in> projr ` {r \<in> R. \<not> isl r}"
    then show "Inr e \<in> R" by (metis (no_types, lifting) image_iff mem_Collect_eq sum.collapse(2))
  next
    assume "Inr e \<in> R"
    then show "e \<in> projr ` {r \<in> R. \<not> isl r}" by (intro image_eqI [of _ _ "Inr e"]) auto
  qed
  ultimately show ?thesis unfolding protected_entries_def by (auto simp: eq_commute)
qed

lemma protected_entries_ok: "prepared_ok p \<Longrightarrow> protected_ok p (protected_entries p flights promotions)"
proof -
  assume ok: "prepared_ok p"
  have "sorted (map at_ns (protected_entries p flights promotions))" unfolding protected_entries_def by (rule sorted_sortEntries)
  then show ?thesis using protected_entry_Inr(3,4) [OF _ ok] unfolding protected_ok_def in_time_def
    by (auto simp: protected_entries_mem)
qed

lemma generateGroup_Some:
  assumes "generateGroup p flights promotions = Some (Inr (es, ws))" "prepared_ok p"
  obtains ordered mid where
    "mset ordered = mset (filter (\<lambda>f. sequenced f \<and> movable promotions f) flights)"
    "entry_list_ok p (protected_entries p flights promotions) ordered mid" "exchanged p mid es"
    "ws = concat (map (flight_warnings p) flights) @ map projl (filter isl (protected_results p flights promotions)) @
       spacing_warnings p (protected_part es)"
proof -
  let ?prot = "protected_entries p flights promotions"
  let ?fs = "filter (\<lambda>f. sequenced f \<and> movable promotions f) flights"
  from assms(1) obtain ordered rs where o: "orderMovableFlights p ?fs = Some ordered"
      "allocateMovableFlights p ?prot ordered = Inr rs" "es = optimizeStableSameSTAR p (optimizeMovableOrder p ?prot ordered rs)"
      "ws = concat (map (flight_warnings p) flights) @ map projl (filter isl (protected_results p flights promotions)) @
         spacing_warnings p (protected_part es)"
    by (auto simp: generateGroup_def Let_def split: option.splits sum.splits)
  have "entry_list_ok p ?prot ordered (optimizeMovableOrder p ?prot ordered rs)"
    using allocate_ok [OF o(2) assms(2) protected_entries_ok] assms(2) protected_entries_ok by (intro optimize_movable_ok) auto
  then show ?thesis
    using that orderMovableFlights_Some(1) [OF o(1)] stable_exchanges_ok o(3,4) by (auto simp: optimizeStableSameSTAR_def)
qed

lemma spacing_warnings_Nil: "spacing_warnings p es = [] \<longleftrightarrow> successively (adjacentValid p) es"
  by (induction p es rule: spacing_warnings.induct) auto

lemma spacing_warnings_conflict: "w \<in> set (spacing_warnings p es) \<Longrightarrow> w_Severity w = SeverityConflict"
  by (induction p es rule: spacing_warnings.induct) (auto simp: spacing_warning_def Let_def split: if_splits)

lemma successively_filter:
  "successively (\<lambda>a b. A a b \<or> P a \<and> P b) xs \<Longrightarrow> successively A (filter P xs) \<Longrightarrow> successively A xs"
proof (induction xs)
  case (Cons x xs)
  then show ?case by (cases xs) (auto simp: successively_Cons split: if_splits)
qed simp

lemma adjacent_increasing: "successively (adjacentValid p) es \<Longrightarrow> sorted_wrt (<) (map at_ns es)"
proof -
  assume "successively (adjacentValid p) es"
  then have "successively (\<lambda>a b. at_ns a < at_ns b) es"
    by (rule successively_mono) (auto simp: adjacentValid_def after_def)
  then have "successively (<) (map at_ns es)" by (simp add: successively_map)
  then show ?thesis by (simp add: successively_conv_sorted_wrt)
qed

lemma filter_reason_time:
  assumes "map ent_time xs = map ent_time ys" "map ent_reason xs = map ent_reason ys"
  shows "map at_ns (filter (\<lambda>e. P (ent_reason e)) xs) = map at_ns (filter (\<lambda>e. P (ent_reason e)) ys)"
  using assms
proof (induction xs ys rule: list_induct2')
  case (4 x xs y ys)
  then show ?case by simp
qed simp_all

definition conflict_free :: "Warning list \<Rightarrow> bool" where
  "conflict_free ws \<longleftrightarrow> (\<forall>w \<in> set ws. w_Severity w \<noteq> SeverityConflict)"

lemma group_separated:
  assumes "generateGroup p flights promotions = Some (Inr (es, ws))" "prepared_ok p" "conflict_free ws"
  shows "successively (adjacentValid p) es"
proof -
  let ?prot = "protected_entries p flights promotions"
  obtain ordered mid where g: "entry_list_ok p ?prot ordered mid" "exchanged p mid es"
      "ws = concat (map (flight_warnings p) flights) @ map projl (filter isl (protected_results p flights promotions)) @
         spacing_warnings p (protected_part es)"
    using assms(1,2) by (rule generateGroup_Some)
  have "spacing_warnings p (protected_part es) = []"
    using assms(3) spacing_warnings_conflict unfolding conflict_free_def g(3)
    by (metis Un_iff list.set_intros(1) neq_Nil_conv set_append)
  then have adj: "successively (adjacentValid p) (protected_part es)" by (simp add: spacing_warnings_Nil)
  then have "distinct (map at_ns (protected_part es))" using adjacent_increasing strict_sorted_imp_sorted by (metis strict_sorted_iff)
  moreover have "map at_ns (protected_part es) = map at_ns (protected_part mid)"
    using g(2) by (intro filter_reason_time) (auto simp: exchanged_def)
  moreover have "mset (map at_ns (protected_part mid)) = mset (map at_ns ?prot)"
  proof -
    have "image_mset (ns \<circ> fst \<circ> snd) (mset (map sig (protected_part mid))) = image_mset (ns \<circ> fst \<circ> snd) (mset (map sig ?prot))"
      using g(1) by (simp add: entry_list_ok_def)
    then show ?thesis by (simp add: image_mset.compositionality sig_def comp_def)
  qed
  ultimately have "distinct (map at_ns ?prot)" by (metis mset_eq_imp_distinct_iff)
  with g(1,2) have "successively (pair_ok p) es" by (simp add: entry_list_ok_def exchanged_def)
  then have "successively (\<lambda>a b. adjacentValid p a b \<or> ent_reason a \<noteq> ReasonRateWTC \<and> ent_reason b \<noteq> ReasonRateWTC) es"
    unfolding pair_ok_def .
  then show ?thesis using adj by (rule successively_filter)
qed

end
