(* ===== verification/Sequence_Generation.thy ===== *)
theory Sequence_Generation
  imports Sequence_Engine
begin

text \<open>
  The properties of a generated sequence as a whole: what preparation guarantees of policies and
  flights, how the results of the runway groups make up the result of \<^verbatim>\<open>generate\<close>, and the theorems
  about separation, legality of computed slots, frozen slots, completeness and termination.
\<close>

section \<open>What preparation guarantees\<close>

lemma add_rules_known:
  "add_rules g rs p = Inr q \<Longrightarrow> WakeUnknown \<notin> set (categories p) \<Longrightarrow> WakeUnknown \<notin> set (categories q)"
  by (induction g rs p rule: add_rules.induct) (auto simp: Let_def split: if_splits)

lemma preparePolicy_known:
  assumes "preparePolicy families raw = Inr p"
  shows "WakeUnknown \<notin> set (categories p)"
proof -
  from assms obtain q where "add_rules (pol_RunwayGroupID raw) (SeparationRules raw) q = Inr p" "categories q = []"
    by (auto simp: preparePolicy_def Let_def split: sum.splits)
  then show ?thesis using add_rules_known by fastforce
qed

definition policy_ok :: "string \<times> preparedPolicy \<Rightarrow> bool" where
  "policy_ok gp \<longleftrightarrow> prepared_ok (snd gp) \<and> group_id (snd gp) = fst gp \<and> WakeUnknown \<notin> set (categories (snd gp)) \<and>
     0 \<le> EarlyTolerance (policy (snd gp))"

lemma prepare_each_ok:
  assumes "prepare_each families raws acc = Inr ps" "distinct (map fst acc)" "\<forall>gp \<in> set acc. policy_ok gp"
  shows "distinct (map fst ps) \<and> (\<forall>gp \<in> set ps. policy_ok gp)"
  using assms
proof (induction families raws acc rule: prepare_each.induct)
  case (2 families raw rest acc)
  let ?g = "pol_RunwayGroupID raw"
  from "2.prems"(1) obtain p where p: "map_of acc ?g = None" "preparePolicy families raw = Inr p"
      "prepare_each families rest (acc @ [(?g, p)]) = Inr ps" "trim_space ?g \<noteq> ''''"
    by (auto simp: Let_def split: if_splits sum.splits)
  have "policy_ok (?g, p)"
    using preparePolicy_ok [OF p(2)] preparePolicy_known [OF p(2)] by (simp add: policy_ok_def)
  moreover have "?g \<notin> fst ` set acc" using p(1) by (simp add: map_of_eq_None_iff)
  ultimately have "distinct (map fst (acc @ [(?g, p)]))" "\<forall>gp \<in> set (acc @ [(?g, p)]). policy_ok gp"
    using "2.prems"(2,3) by auto
  with 2 p show ?case by simp
qed simp

definition flight_ok :: "(string \<times> preparedPolicy) list \<Rightarrow> preparedFlight \<Rightarrow> bool" where
  "flight_ok ps f \<longleftrightarrow> (\<exists>p. map_of ps (RunwayGroupID f) = Some p \<and> (known f \<longleftrightarrow> category f \<in> set (categories p)))"

lemma prepare_flight_fields [simp]:
  "Callsign (prepare_flight p raw) = Callsign raw" "RunwayGroupID (prepare_flight p raw) = RunwayGroupID raw"
  "category (prepare_flight p raw) = (let c = normalizeCategory (WakeCategory raw) in if c \<in> set (categories p) then c else WakeUnknown)"
  "known (prepare_flight p raw) \<longleftrightarrow> normalizeCategory (WakeCategory raw) \<in> set (categories p)"
  by (simp_all add: prepare_flight_def Let_def Flight.defs preparedFlight.defs)

lemma prepare_flights_ok:
  assumes "prepare_flights seen ps raws = Inr fs" "\<forall>gp \<in> set ps. WakeUnknown \<notin> set (categories (snd gp))"
  shows "map Callsign fs = map Callsign raws \<and> distinct (map Callsign fs) \<and> set (map Callsign fs) \<inter> set seen = {} \<and> (\<forall>f \<in> set fs. flight_ok ps f)"
  using assms
proof (induction seen ps raws arbitrary: fs rule: prepare_flights.induct)
  case (2 seen ps raw rest)
  from "2.prems"(1) obtain p gs u where p: "map_of ps (RunwayGroupID raw) = Some p" "check_flight raw = Inr u" "Callsign raw \<notin> set seen"
      "prepare_flights (Callsign raw # seen) ps rest = Inr gs" "fs = prepare_flight p raw # gs" "trim_space (Callsign raw) \<noteq> ''''"
    by (auto split: if_splits option.splits sum.splits)
  have IH: "map Callsign gs = map Callsign rest" "distinct (map Callsign gs)" "set (map Callsign gs) \<inter> set (Callsign raw # seen) = {}"
      "\<forall>f \<in> set gs. flight_ok ps f"
    using "2.IH" [OF p(6,3,1,2,4) "2.prems"(2)] by blast+
  have "flight_ok ps (prepare_flight p raw)"
    using p(1) "2.prems"(2) map_of_SomeD [OF p(1)] by (force simp: flight_ok_def Let_def)
  moreover have "Callsign raw \<notin> set (map Callsign gs)" "set (map Callsign gs) \<inter> set seen = {}" using IH(3) by auto
  ultimately show ?case using IH(1,2,4) p(3) unfolding p(5) list.map set_simps prepare_flight_fields(1) by fastforce
qed simp

lemma add_demand_fields [simp]:
  "fst (add_demand fs gp) = fst gp" "categories (snd (add_demand fs gp)) = categories (snd gp)"
  "rates (snd (add_demand fs gp)) = rates (snd gp)" "gaps (snd (add_demand fs gp)) = gaps (snd gp)"
  "closures (snd (add_demand fs gp)) = closures (snd gp)" "policy (snd (add_demand fs gp)) = policy (snd gp)"
  by (simp_all add: add_demand_def Let_def)

lemma prepareInput_ok:
  assumes "prepareInput input = Inr (ps, fs)"
  shows "distinct (map fst ps)" "gp \<in> set ps \<Longrightarrow> policy_ok gp" "distinct (map Callsign fs)" "f \<in> set fs \<Longrightarrow> flight_ok ps f"
proof -
  from assms obtain families qs where q: "prepare_each families (in_Policies input) [] = Inr qs"
      "prepare_flights [] qs (in_Flights input) = Inr fs" "ps = map (add_demand fs) qs"
    by (auto simp: prepareInput_def preparePoliciesWithSTARFamilies_def prepareFlights_def split: sum.splits if_splits)
  note e = prepare_each_ok [OF q(1)]
  have fsts: "map fst ps = map fst qs" by (simp add: q(3))
  then show "distinct (map fst ps)" using e by simp
  show "policy_ok gp" if "gp \<in> set ps"
    using that e by (auto simp: q(3) policy_ok_def prepared_ok_def)
  have fl: "distinct (map Callsign fs)" "\<forall>f \<in> set fs. flight_ok qs f"
    using prepare_flights_ok [OF q(2)] e by (auto simp: policy_ok_def)
  then show "distinct (map Callsign fs)" by simp
  assume "f \<in> set fs"
  with fl(2) obtain p where p: "map_of qs (RunwayGroupID f) = Some p" "known f \<longleftrightarrow> category f \<in> set (categories p)"
    by (auto simp: flight_ok_def)
  have "map_of (map (add_demand fs) qs) g = map_option (\<lambda>p. snd (add_demand fs (g, p))) (map_of qs g)" for g
    by (induction qs) (auto simp: add_demand_def Let_def)
  with p show "flight_ok ps f" by (simp add: flight_ok_def q(3))
qed

section \<open>The result of all groups\<close>

definition candidates :: "string \<Rightarrow> allocatedEntry list \<Rightarrow> CandidateEntry list" where
  "candidates g es = map (\<lambda>i. candidate_entry g i (es ! i)) [0..<length es]"

lemma generate_groups_Some:
  assumes "generate_groups gs flights promotions r0 = Some (Inr r)"
  shows "\<exists>gws. list_all2 (\<lambda>gp gw. generateGroup (snd gp) (group_flights (fst gp) flights) promotions = Some (Inr gw)) gs gws \<and>
    res_Entries r = res_Entries r0 @ concat (map2 (\<lambda>gp gw. candidates (fst gp) (fst gw)) gs gws) \<and>
    res_Warnings r = res_Warnings r0 @ concat (map snd gws)"
  using assms
proof (induction gs flights promotions r0 rule: generate_groups.induct)
  case (2 g p gs flights promotions r0)
  from "2.prems" obtain gw where gw: "generateGroup p (group_flights g flights) promotions = Some (Inr gw)"
      "generate_groups gs flights promotions (add_group g gw r0) = Some (Inr r)"
    by (auto split: option.splits sum.splits)
  from "2.IH" [OF gw(1) refl gw(2)] obtain gws where
      "list_all2 (\<lambda>gp gw. generateGroup (snd gp) (group_flights (fst gp) flights) promotions = Some (Inr gw)) gs gws"
      "res_Entries r = res_Entries (add_group g gw r0) @ concat (map2 (\<lambda>gp gw. candidates (fst gp) (fst gw)) gs gws)"
      "res_Warnings r = res_Warnings (add_group g gw r0) @ concat (map snd gws)" by blast
  with gw(1) show ?case by (intro exI [of _ "gw # gws"]) (simp add: add_group_def Let_def candidates_def)
qed simp

lemma candidates_entry:
  "e \<in> set (candidates g es) \<Longrightarrow> \<exists>i < length es. ce_Callsign e = Callsign (ent_flight (es ! i)) \<and> ce_Time e = ent_time (es ! i)"
  by (auto simp: candidates_def candidate_entry_def Let_def)

lemma candidates_group: "e \<in> set (candidates g es) \<Longrightarrow> ce_RunwayGroupID e = g"
  by (auto simp: candidates_def candidate_entry_def Let_def)

lemma filter_candidates: "filter (\<lambda>e. ce_RunwayGroupID e = g) (candidates h es) = (if h = g then candidates g es else [])"
  by (auto simp: filter_id_conv filter_empty_conv candidates_group)

lemma filter_group:
  assumes "list_all2 P gs gws" "distinct (map fst gs)" "(g, p) \<in> set gs"
  shows "\<exists>gw \<in> set gws. P (g, p) gw \<and>
    filter (\<lambda>e. ce_RunwayGroupID e = g) (concat (map2 (\<lambda>gp gw. candidates (fst gp) (fst gw)) gs gws)) = candidates g (fst gw)"
  using assms
proof (induction gs gws rule: list_all2_induct)
  case (Cons gp gs gw gws)
  let ?f = "filter (\<lambda>e. ce_RunwayGroupID e = g)"
  show ?case
  proof (cases "(g, p) = gp")
    case True
    have "?f (concat (map2 (\<lambda>gp gw. candidates (fst gp) (fst gw)) gs gws)) = []"
      using Cons.prems True by (auto simp: filter_empty_conv candidates_group dest!: set_zip_leftD) (metis candidates_group fst_conv image_eqI)
    with True Cons show ?thesis by (auto simp: filter_candidates)
  next
    case False
    with Cons.prems have in_gs: "(g, p) \<in> set gs" by auto
    then have "g \<in> fst ` set gs" by force
    with Cons.prems(1) in_gs have "(g, p) \<in> set gs" "fst gp \<noteq> g" by auto
    with Cons show ?thesis by (auto simp: filter_candidates)
  qed
qed simp

lemma generate_group:
  assumes "generate input promotions = Some (Inr r)" "prepareInput input = Inr (ps, fs)" "(g, p) \<in> set ps"
  obtains es ws where "generateGroup p (group_flights g fs) promotions = Some (Inr (es, ws))"
    "filter (\<lambda>e. ce_RunwayGroupID e = g) (res_Entries r) = candidates g es" "set ws \<subseteq> set (res_Warnings r)"
proof -
  let ?gs = "go_sort (\<lambda>a b. fst a < fst b) ps"
  let ?r0 = "\<lparr> res_Operations = [], res_Entries = [], res_Movements = [], res_Warnings = [] \<rparr>"
  from assms(1,2) obtain q where q: "generate_groups ?gs fs promotions ?r0 = Some (Inr q)"
      "res_Entries r = res_Entries q" "set (res_Warnings r) = set (res_Warnings q)"
    by (auto simp: generate_def split: option.splits sum.splits)
  from generate_groups_Some [OF q(1)] obtain gws where gws:
      "list_all2 (\<lambda>gp gw. generateGroup (snd gp) (group_flights (fst gp) fs) promotions = Some (Inr gw)) ?gs gws"
      "res_Entries q = concat (map2 (\<lambda>gp gw. candidates (fst gp) (fst gw)) ?gs gws)" "res_Warnings q = concat (map snd gws)" by auto
  have "mset (map fst ?gs) = mset (map fst ps)" by simp
  then have "distinct (map fst ?gs)" using prepareInput_ok(1) [OF assms(2)] mset_eq_imp_distinct_iff by blast
  from filter_group [OF gws(1) this, of g p] assms(3) obtain gw where gw: "gw \<in> set gws"
      "generateGroup p (group_flights g fs) promotions = Some (Inr gw)"
      "filter (\<lambda>e. ce_RunwayGroupID e = g) (res_Entries r) = candidates g (fst gw)" by (auto simp: q(2) gws(2))
  show ?thesis by (rule that [of "fst gw" "snd gw"]) (use gw q(3) gws(3) in auto)
qed

lemma generated_in_group:
  assumes "generate input promotions = Some (Inr r)" "prepareInput input = Inr (ps, fs)" "e \<in> set (res_Entries r)"
  shows "\<exists>p. (ce_RunwayGroupID e, p) \<in> set ps"
proof -
  let ?gs = "go_sort (\<lambda>a b. fst a < fst b) ps"
  from assms(1,2) obtain q where q: "res_Entries r = res_Entries q" "generate_groups ?gs fs promotions
         \<lparr> res_Operations = [], res_Entries = [], res_Movements = [], res_Warnings = [] \<rparr> = Some (Inr q)"
    by (auto simp: generate_def split: sum.splits option.splits)
  from generate_groups_Some [OF q(2)] obtain gws :: "(allocatedEntry list \<times> Warning list) list" where
      "res_Entries q = concat (map2 (\<lambda>gp gw. candidates (fst gp) (fst gw)) ?gs gws)" by auto
  with assms(3) q(1) obtain gp gw where gw: "(gp, gw) \<in> set (zip ?gs gws)" "e \<in> set (candidates (fst gp) (fst gw))" by auto
  then have "gp \<in> set ps" using set_zip_leftD [OF gw(1)] by simp
  with candidates_group [OF gw(2)] show ?thesis by (intro exI [of _ "snd gp"]) simp
qed

lemma core_fields [simp]:
  "Callsign (core f) = Callsign f" "category (core f) = category f" "known (core f) = known f"
  "OperationalTETA (core f) = OperationalTETA f" "SlotNotBefore (core f) = SlotNotBefore f"
  "fl_FreezeReason (core f) = fl_FreezeReason f"
  by (simp_all add: core_def)

lemma group_flight_of:
  assumes "generateGroup p flights promotions = Some (Inr (es, ws))" "prepared_ok p" "e \<in> set es"
  shows "\<exists>f \<in> set flights. core (ent_flight e) = core f"
proof -
  obtain ordered mid where g: "mset ordered = mset (filter (\<lambda>f. sequenced f \<and> movable promotions f) flights)"
      "entry_list_ok p (protected_entries p flights promotions) ordered mid" "exchanged p mid es"
    using assms(1,2) by (rule generateGroup_Some)
  have "mset (map (core \<circ> ent_flight) es) = mset (map (core \<circ> ent_flight) (protected_entries p flights promotions)) + mset (map core ordered)"
    using g(2,3) by (simp add: entry_list_ok_def exchanged_def)
  moreover have "core (ent_flight e) \<in># mset (map (core \<circ> ent_flight) es)" using assms(3) by (auto intro: rev_image_eqI)
  ultimately have "core (ent_flight e) \<in># mset (map (core \<circ> ent_flight) (protected_entries p flights promotions)) + mset (map core ordered)"
    by (simp only:)
  then consider e' where "e' \<in> set (protected_entries p flights promotions)" "core (ent_flight e) = core (ent_flight e')"
    | f where "f \<in> set ordered" "core (ent_flight e) = core f" by auto
  then show ?thesis
  proof cases
    case 1
    then show ?thesis using protected_entry_Inr(1) [OF _ assms(2)] by (auto simp: protected_entries_mem)
  next
    case 2
    moreover have "set ordered \<subseteq> set flights" using mset_eq_setD [OF g(1)] by auto
    ultimately show ?thesis by auto
  qed
qed

lemma exchanged_mem:
  assumes "exchanged p mid es" "e \<in> set es" "ent_reason e \<noteq> ReasonStable"
  shows "e \<in> set mid"
proof -
  have "e \<in> set (filter (\<lambda>e. ent_reason e \<noteq> ReasonStable) es)" using assms(2,3) by simp
  also have "\<dots> = set (filter (\<lambda>e. ent_reason e \<noteq> ReasonStable) mid)" using assms(1) by (simp only: exchanged_def)
  finally show ?thesis by simp
qed

lemma group_rate_legal:
  assumes "generateGroup p flights promotions = Some (Inr (es, ws))" "prepared_ok p" "e \<in> set es" "ent_reason e = ReasonRateWTC"
  shows "legal_slot p (ent_flight e) (ent_time e)"
proof -
  obtain ordered mid where g: "entry_list_ok p (protected_entries p flights promotions) ordered mid" "exchanged p mid es"
    using assms(1,2) by (rule generateGroup_Some)
  have "e \<in> set mid" by (rule exchanged_mem [OF g(2) assms(3)]) (simp add: assms(4))
  with g(1) assms(4) show ?thesis by (auto simp: entry_list_ok_def rate_legal_def)
qed

text \<open>
  A frozen or promoted flight is among the protected ones: an entry of it anywhere in the result has
  the time of its protected slot.
\<close>

definition held_in_place :: "promotions \<Rightarrow> preparedFlight \<Rightarrow> bool" where
  "held_in_place promotions f \<longleftrightarrow> fl_FreezeReason f \<noteq> FreezeNone \<or> map_of promotions (Callsign f) \<noteq> None"

lemma held_not_movable: "held_in_place promotions f \<Longrightarrow> core h = core f \<Longrightarrow> \<not> movable promotions h"
  by (metis core_fields(1,6) held_in_place_def movable_def)

lemma held_in_mid:
  assumes "exchanged p mid es" "a \<in> set es" "core (ent_flight a) = core f"
    and "fl_FreezeReason f \<noteq> FreezeNone \<or> ent_reason a \<noteq> ReasonStable"
  shows "a \<in> set mid"
proof (cases "fl_FreezeReason f = FreezeNone")
  case True
  then show ?thesis using assms exchanged_mem by blast
next
  case False
  have "fl_FreezeReason (ent_flight a) \<noteq> FreezeNone" using False assms(3) by (metis core_fields(6))
  then have "a \<in> set (filter (\<lambda>e. fl_FreezeReason (ent_flight e) \<noteq> FreezeNone) es)" using assms(2) by simp
  also have "\<dots> = set (filter (\<lambda>e. fl_FreezeReason (ent_flight e) \<noteq> FreezeNone) mid)" using assms(1) by (simp only: exchanged_def)
  finally show ?thesis by simp
qed

lemma entries_partition:
  "mset (map k (filter P xs)) + mset (map k (filter (\<lambda>x. \<not> P x) xs)) = mset (map k xs)"
  by (induction xs) auto

lemma group_held:
  assumes "generateGroup p flights promotions = Some (Inr (es, ws))" "prepared_ok p" "distinct (map Callsign flights)"
    and "f \<in> set flights" "held_in_place promotions f" "a \<in> set es" "Callsign (ent_flight a) = Callsign f"
  shows "\<exists>s. protected_slot promotions f = Some s \<and> slot_Time s = ent_time a"
proof -
  let ?prot = "protected_entries p flights promotions"
  let ?k = "core \<circ> ent_flight"
  have same: "h = f" if "h \<in> set flights" "Callsign h = Callsign f" for h
    using that assms(3,4) by (auto simp: distinct_map inj_on_def)
  obtain ordered mid where g: "mset ordered = mset (filter (\<lambda>f. sequenced f \<and> movable promotions f) flights)"
      "entry_list_ok p ?prot ordered mid" "exchanged p mid es"
    using assms(1,2) by (rule generateGroup_Some)
  have a: "core (ent_flight a) = core f"
    using group_flight_of [OF assms(1,2,6)] same assms(7) by (metis core_fields(1))
  have sigs: "sig ` set (protected_part mid) = sig ` set ?prot"
    using g(2) unfolding entry_list_ok_def by (metis set_map mset_eq_setD)
  have prot: "\<exists>s. protected_slot promotions f = Some s \<and> slot_Time s = ent_time x \<and> ent_reason x = protected_reason promotions f"
    if "x \<in> set (protected_part mid)" "core (ent_flight x) = core f" for x
  proof -
    from that(1) sigs obtain e where e: "e \<in> set ?prot" "sig x = sig e" by blast
    then obtain h where h: "h \<in> set flights" "protected_entry p promotions h = Inr e" by (auto simp: protected_entries_mem)
    note pe = protected_entry_Inr [OF h(2) assms(2)]
    have "core h = core f" using e(2) that(2) pe(1) by (simp add: sig_def)
    then have "h = f" using same [OF h(1)] by (metis core_fields(1))
    with pe(2,5) e(2) show ?thesis by (auto simp: sig_def)
  qed
  have "mset (map ?k (protected_part mid)) = mset (map ?k ?prot)"
  proof -
    have "mset (map (fst \<circ> sig) (protected_part mid)) = mset (map (fst \<circ> sig) ?prot)"
      using g(2) unfolding entry_list_ok_def by (metis image_mset.compositionality mset_map)
    moreover have "fst \<circ> sig = ?k" by (simp add: fun_eq_iff sig_def)
    ultimately show ?thesis by simp
  qed
  moreover have "mset (map ?k mid) = mset (map ?k ?prot) + mset (map core ordered)" using g(2) by (simp add: entry_list_ok_def)
  ultimately have free: "mset (map ?k (filter (\<lambda>e. ent_reason e = ReasonRateWTC) mid)) = mset (map core ordered)"
    using entries_partition [of ?k "\<lambda>e. ent_reason e \<noteq> ReasonRateWTC" mid] by simp
  have protected: "x \<in> set (protected_part mid)" if "x \<in> set mid" "core (ent_flight x) = core f" for x
  proof (rule ccontr)
    assume "x \<notin> set (protected_part mid)"
    then have "x \<in> set (filter (\<lambda>e. ent_reason e = ReasonRateWTC) mid)" using that(1) by simp
    then have "core f \<in> set (map ?k (filter (\<lambda>e. ent_reason e = ReasonRateWTC) mid))" using that(2) by force
    then obtain h where h: "h \<in> set ordered" "core h = core f" using mset_eq_setD [OF free] by auto
    have "movable promotions h" using h(1) mset_eq_setD [OF g(1)] by auto
    with held_not_movable [OF assms(5) h(2)] show False by simp
  qed
  have mid: "a \<in> set mid"
  proof (cases "fl_FreezeReason f \<noteq> FreezeNone \<or> ent_reason a \<noteq> ReasonStable")
    case True
    then show ?thesis by (rule held_in_mid [OF g(3) assms(6) a])
  next
    case False
    let ?S = "\<lambda>e. ent_reason e = ReasonStable"
    let ?N = "\<lambda>e. ent_reason e \<noteq> ReasonStable"
    have "mset (map ?k (filter ?N mid)) + mset (map ?k (filter ?S es)) = mset (map ?k (filter ?N mid)) + mset (map ?k (filter ?S mid))"
      using g(3) entries_partition [of ?k ?N es] entries_partition [of ?k ?N mid] unfolding exchanged_def not_not by metis
    then have "mset (map ?k (filter ?S es)) = mset (map ?k (filter ?S mid))" by (rule add_left_imp_eq)
    moreover have "core f \<in> set (map ?k (filter ?S es))" using False assms(6) a by force
    ultimately have "core f \<in> set (map ?k (filter ?S mid))" using mset_eq_setD by blast
    then obtain x where x: "x \<in> set mid" "ent_reason x = ReasonStable" "core (ent_flight x) = core f" by auto
    have "protected_reason promotions f = ReasonStable" using prot [OF protected [OF x(1,3)] x(3)] x(2) by auto
    with False assms(5) show ?thesis by (auto simp: protected_reason_def held_in_place_def split: if_splits)
  qed
  from prot [OF protected [OF mid a] a] show ?thesis by blast
qed

lemma mset_map_partition:
  "mset (map k (filter (\<lambda>x. P x \<and> \<not> Q x) xs)) + mset (map k (filter (\<lambda>x. P x \<and> Q x) xs)) = mset (map k (filter P xs))"
  by (induction xs) auto

lemma group_complete:
  assumes "generateGroup p flights promotions = Some (Inr (es, ws))" "prepared_ok p" "conflict_free ws"
  shows "mset (map (Callsign \<circ> ent_flight) es) = mset (map Callsign (filter sequenced flights))"
proof -
  let ?prot = "protected_entries p flights promotions" and ?ps = "filter (\<lambda>f. sequenced f \<and> \<not> movable promotions f) flights"
  obtain ordered mid where g: "mset ordered = mset (filter (\<lambda>f. sequenced f \<and> movable promotions f) flights)"
      "entry_list_ok p ?prot ordered mid" "exchanged p mid es"
      "ws = concat (map (flight_warnings p) flights) @ map projl (filter isl (protected_results p flights promotions)) @
         spacing_warnings p (protected_part es)"
    using assms(1,2) by (rule generateGroup_Some)
  have inr: "\<not> isl (protected_entry p promotions f)" if "f \<in> set ?ps" for f
  proof
    assume "isl (protected_entry p promotions f)"
    then obtain w where w: "protected_entry p promotions f = Inl w" by (cases "protected_entry p promotions f") simp_all
    have "set (protected_results p flights promotions) = protected_entry p promotions ` set ?ps" by (simp add: protected_results_def)
    then have "Inl w \<in> set (protected_results p flights promotions)" using imageI [OF that, of "protected_entry p promotions"] w by simp
    then have "Inl w \<in> set (filter isl (protected_results p flights promotions))" by simp
    from imageI [OF this, of projl] have "w \<in> set (map projl (filter isl (protected_results p flights promotions)))" by simp
    then have "w \<in> set ws" unfolding g(4) set_append by blast
    with assms(3) protected_entry_Inl [OF w] show False by (simp add: conflict_free_def)
  qed
  have "filter (\<lambda>r. \<not> isl r) (protected_results p flights promotions) = protected_results p flights promotions"
    unfolding filter_id_conv protected_results_def set_map set_go_sort using inr by blast
  then have "mset ?prot = mset (map (projr \<circ> protected_entry p promotions) ?ps)"
    unfolding protected_entries_def mset_sortEntries by (simp only: protected_results_def mset_map mset_go_sort image_mset.compositionality)
  then have "mset (map (core \<circ> ent_flight) ?prot) = mset (map (core \<circ> (ent_flight \<circ> (projr \<circ> protected_entry p promotions))) ?ps)"
    by (simp only: mset_map image_mset.compositionality comp_assoc)
  also have "map (core \<circ> (ent_flight \<circ> (projr \<circ> protected_entry p promotions))) ?ps = map core ?ps"
  proof (rule map_cong [OF refl])
    fix f assume "f \<in> set ?ps"
    from inr [OF this] obtain e where "protected_entry p promotions f = Inr e" by (cases "protected_entry p promotions f") simp_all
    with protected_entry_Inr(1) [OF this assms(2)] show "(core \<circ> (ent_flight \<circ> (projr \<circ> protected_entry p promotions))) f = core f" by simp
  qed
  finally have prot: "mset (map (core \<circ> ent_flight) ?prot) = mset (map core ?ps)" .
  have "mset (map (core \<circ> ent_flight) es) = mset (map (core \<circ> ent_flight) ?prot) + mset (map core ordered)"
    using g(2,3) by (simp add: entry_list_ok_def exchanged_def)
  also have "\<dots> = mset (map core ?ps) + mset (map core (filter (\<lambda>f. sequenced f \<and> movable promotions f) flights))"
    using prot g(1) by (simp only: mset_map)
  also have "\<dots> = mset (map core (filter sequenced flights))" by (rule mset_map_partition)
  finally have "image_mset Callsign (mset (map (core \<circ> ent_flight) es)) = image_mset Callsign (mset (map core (filter sequenced flights)))" by simp
  then have m: "mset (map (Callsign \<circ> (core \<circ> ent_flight)) es) = mset (map (Callsign \<circ> core) (filter sequenced flights))"
    by (simp only: mset_map image_mset.compositionality)
  have c: "Callsign \<circ> (core \<circ> ent_flight) = Callsign \<circ> ent_flight" "Callsign \<circ> core = Callsign" by (simp_all add: fun_eq_iff)
  show ?thesis using m unfolding c .
qed

section \<open>Properties\<close>

definition wake_minimum :: "preparedPolicy \<Rightarrow> string \<Rightarrow> string \<Rightarrow> duration" where
  "wake_minimum p x y =
     (if x \<in> set (categories p) \<and> y \<in> set (categories p)
      then (case map_of (spacing_of p) (x, y) of None \<Rightarrow> 0 | Some d \<Rightarrow> d) else fallback p)"

definition separated :: "preparedPolicy \<Rightarrow> CandidateEntry \<Rightarrow> CandidateEntry \<Rightarrow> bool" where
  "separated p a b \<longleftrightarrow> before (ce_Time a) (ce_Time b) \<and>
     max (intervalAt p (ce_Time b)) (wake_minimum p (ce_WakeCategory a) (ce_WakeCategory b)) \<le> t_sub (ce_Time b) (ce_Time a)"

lemma candidates_successively:
  assumes "successively P es" "\<And>a b i j. a \<in> set es \<Longrightarrow> b \<in> set es \<Longrightarrow> P a b \<Longrightarrow> Q (candidate_entry g i a) (candidate_entry g j b)"
  shows "successively Q (candidates g es)"
  using assms by (auto simp: successively_conv_nth candidates_def)

lemma flight_known:
  assumes "prepareInput input = Inr (ps, fs)" "(g, p) \<in> set ps" "f \<in> set (group_flights g fs)"
  shows "known f \<longleftrightarrow> category f \<in> set (categories p)"
proof -
  from assms(3) have "f \<in> set fs" "RunwayGroupID f = g" by (auto simp: group_flights_def)
  with prepareInput_ok(4) [OF assms(1)] obtain q where "map_of ps g = Some q" "known f \<longleftrightarrow> category f \<in> set (categories q)"
    by (auto simp: flight_ok_def)
  moreover have "map_of ps g = Some p" using prepareInput_ok(1) [OF assms(1)] assms(2) by (simp add: map_of_eq_Some_iff)
  ultimately show ?thesis by simp
qed

definition sample_slot :: "int \<Rightarrow> int \<Rightarrow> Slot" where
  "sample_slot t i = \<lparr> slot_Time = Time t UTC, slot_RunwayGroupID = ''22L'', slot_Sequence = i, slot_Revision = 1, slot_Reason = '''' \<rparr>"

definition sample_flight :: "string \<Rightarrow> int \<Rightarrow> string \<Rightarrow> Flight" where
  "sample_flight c t w = \<lparr> Operations = [], Callsign = c, RunwayGroupID = ''22L'', fl_State = StateUnstable, DemandArrivalAt = None,
     OperationalTETA = Time t UTC, InitialBaselineTETA = None, PromotionNotBefore = None, WakeCategory = w, STARFamily = '''',
     SelectedSTARFamily = '''', fl_STARProgress = None, ManualOrder = None, fl_FreezeReason = FreezeNone, FrozenAt = None,
     FrozenOperationalTETA = None, CapturedSlot = None, CurrentSlot = None, HoldingStackID = '''', HoldingAltitudeFeet = None,
     HoldingQueueID = '''', HoldingQueueTime = None, HoldingTransit = 0, ActiveHoldingSince = None, ArrivalQueueTime = None,
     HoldingSlotProtected = False, SlotNotBefore = None, ProtectCurrentSlot = False, ReleaseRank = None, RebuildTMA = False,
     RebuildRetained = False, HoldingStartedAt = None \<rparr>"

definition sample_input :: Input where
  "sample_input = \<lparr> in_Revision = 1, in_Policies = [sample_policy False], in_STARFamilyPolicies = [],
     in_Flights = [(sample_flight ''SAS1'' (3 * hour) ''H'')\<lparr> fl_FreezeReason := FreezeTMA, CapturedSlot := Some (sample_slot (3 * hour + 4 * minute) 1) \<rparr>,
       sample_flight ''SAS2'' (3 * hour + 4 * minute) ''M''] \<rparr>"

definition sample_ready :: "(string \<times> preparedPolicy) list \<times> preparedFlight list" where
  "sample_ready = projr (prepareInput sample_input)"

definition sample_group :: preparedPolicy where "sample_group = snd (fst sample_ready ! 0)"

definition sample_result :: SeqResult where "sample_result = projr (the (generate sample_input []))"

lemma sample_ready_ok:
  "prepareInput sample_input = Inr (fst sample_ready, snd sample_ready)" "(''22L'', sample_group) \<in> set (fst sample_ready)"
  by code_simp+

lemma sample_result_ok: "generate sample_input [] = Some (Inr sample_result)" "\<not> HasConflicts sample_result"
  by code_simp+

lemma sample_times:
  "map (\<lambda>e. (ce_Callsign e, ns (ce_Time e), ce_Reason e)) (filter (\<lambda>e. ce_RunwayGroupID e = ''22L'') (res_Entries sample_result)) =
     [(''SAS1'', 3 * hour + 4 * minute, ReasonFreezeTMA), (''SAS2'', 3 * hour + 8 * minute, ReasonRateWTC)]"
  by code_simp

lemma generated_separated:
  assumes "generate input promotions = Some (Inr r)" "prepareInput input = Inr (ps, fs)" "(g, p) \<in> set ps" "\<not> HasConflicts r"
  shows "successively (separated p) (filter (\<lambda>e. ce_RunwayGroupID e = g) (res_Entries r))"
proof -
  obtain es ws where g: "generateGroup p (group_flights g fs) promotions = Some (Inr (es, ws))"
      "filter (\<lambda>e. ce_RunwayGroupID e = g) (res_Entries r) = candidates g es" "set ws \<subseteq> set (res_Warnings r)"
    using assms(1-3) by (rule generate_group)
  have ok: "prepared_ok p" using prepareInput_ok(2) [OF assms(2,3)] by (simp add: policy_ok_def)
  have "conflict_free ws" using assms(4) g(3) by (auto simp: HasConflicts_def conflict_free_def list_ex_iff)
  then have adj: "successively (adjacentValid p) es" by (rule group_separated [OF g(1) ok])
  have known: "known (ent_flight e) \<longleftrightarrow> category (ent_flight e) \<in> set (categories p)" if e: "e \<in> set es" for e
  proof -
    obtain f where "f \<in> set (group_flights g fs)" "core (ent_flight e) = core f" using group_flight_of [OF g(1) ok e] by blast
    with flight_known [OF assms(2,3)] show ?thesis by (metis core_fields(2,3))
  qed
  show ?thesis unfolding g(2)
  proof (rule candidates_successively [OF adj])
    fix a b i j assume "a \<in> set es" "b \<in> set es" "adjacentValid p a b"
    then show "separated p (candidate_entry g i a) (candidate_entry g j b)"
      using known [of a] known [of b]
      by (auto simp: separated_def candidate_entry_def adjacentValid_def requiredGap_def wake_minimum_def Let_def go_time)
  qed
qed

text \<open>
  C24. A generated sequence without conflict warnings is separated: on every runway group, each
  landing follows the one before it by at least the interval of the arrival rate in force and the
  wake minimum from the leading to the trailing category (the conservative one where a category is
  unknown), whatever was frozen, promoted, optimised or exchanged.
\<close>

theorem conflict_free_sequence_is_separated:
  assumes "generate input promotions = Some (Inr r)" "prepareInput input = Inr (ps, fs)" "(g, p) \<in> set ps" "\<not> HasConflicts r"
  shows "successively (separated p) (filter (\<lambda>e. ce_RunwayGroupID e = g) (res_Entries r))"
  using assms by (rule generated_separated)

theorem conflict_free_sequence_is_separated_witness:
  "\<exists>a b. filter (\<lambda>e. ce_RunwayGroupID e = ''22L'') (res_Entries sample_result) = [a, b] \<and> separated sample_group a b"
proof -
  let ?es = "filter (\<lambda>e. ce_RunwayGroupID e = ''22L'') (res_Entries sample_result)"
  have "length ?es = 2" using arg_cong [OF sample_times, of length] by simp
  then obtain a b where "?es = [a, b]" by (auto simp: numeral_2_eq_2 length_Suc_conv)
  with conflict_free_sequence_is_separated [OF sample_result_ok(1) sample_ready_ok sample_result_ok(2)] show ?thesis by simp
qed

text \<open>
  C25. Every slot the engine computes itself lies on the slot grid of its runway group, outside all
  capacity gaps and closures, and no earlier than the early tolerance before the flight's operational
  landing estimate.
\<close>

theorem computed_slots_are_legal:
  assumes "generate input promotions = Some (Inr r)" "prepareInput input = Inr (ps, fs)" "(g, p) \<in> set ps"
    and "e \<in> set (res_Entries r)" "ce_RunwayGroupID e = g" "ce_Reason e = ReasonRateWTC"
  shows "on_grid p (ce_Time e) \<and> slot_open p (ce_Time e) \<and> ns (ce_OperationalTETA e) - EarlyTolerance (policy p) \<le> ns (ce_Time e)"
proof -
  obtain es ws where g: "generateGroup p (group_flights g fs) promotions = Some (Inr (es, ws))"
      "filter (\<lambda>e. ce_RunwayGroupID e = g) (res_Entries r) = candidates g es"
    using assms(1-3) by (rule generate_group)
  have ok: "prepared_ok p" using prepareInput_ok(2) [OF assms(2,3)] by (simp add: policy_ok_def)
  have "e \<in> set (candidates g es)" using assms(4,5) by (simp flip: g(2))
  then obtain i where i: "i < length es" "e = candidate_entry g i (es ! i)" by (auto simp: candidates_def)
  with assms(6) have "legal_slot p (ent_flight (es ! i)) (ent_time (es ! i))"
    by (intro group_rate_legal [OF g(1) ok]) (auto simp: candidate_entry_def Let_def)
  then show ?thesis
    by (auto simp: i(2) candidate_entry_def legal_slot_def lower_bound_def Let_def go_time split: option.splits if_splits)
qed

theorem computed_slots_are_legal_witness:
  "\<exists>e \<in> set (res_Entries sample_result). ce_Callsign e = ''SAS2'' \<and> on_grid sample_group (ce_Time e) \<and> slot_open sample_group (ce_Time e)"
proof -
  have "(''SAS2'', 3 * hour + 8 * minute, ReasonRateWTC) \<in>
      (\<lambda>e. (ce_Callsign e, ns (ce_Time e), ce_Reason e)) ` set (filter (\<lambda>e. ce_RunwayGroupID e = ''22L'') (res_Entries sample_result))"
    unfolding set_map [symmetric] sample_times by simp
  then obtain e where "e \<in> set (res_Entries sample_result)" "ce_RunwayGroupID e = ''22L''" "ce_Callsign e = ''SAS2''" "ce_Reason e = ReasonRateWTC"
    by auto
  with computed_slots_are_legal [OF sample_result_ok(1) sample_ready_ok] show ?thesis by blast
qed

text \<open>
  C26. A flight that is frozen, or promoted by the queue, keeps its place: wherever the result of a
  generation mentions it, it is in its own runway group at exactly the time of its promoted slot, or
  else of its captured slot; neither the allocation of other flights nor the optimisation moves it.
  A result without conflicts does mention it, unless it has landed or been removed.
\<close>

theorem frozen_slots_are_kept:
  assumes "generate input promotions = Some (Inr r)" "prepareInput input = Inr (ps, fs)" "f \<in> set fs"
    and "fl_FreezeReason f \<noteq> FreezeNone \<or> map_of promotions (Callsign f) \<noteq> None"
  shows "(\<forall>e \<in> set (res_Entries r). ce_Callsign e = Callsign f \<longrightarrow> ce_RunwayGroupID e = RunwayGroupID f \<and>
      (case map_of promotions (Callsign f) of Some s \<Rightarrow> ce_Time e = slot_Time s
       | None \<Rightarrow> \<exists>s. CapturedSlot f = Some s \<and> ce_Time e = slot_Time s)) \<and>
    (\<not> HasConflicts r \<and> fl_State f \<notin> {StateLanded, StateRemoved} \<longrightarrow>
      (\<exists>e \<in> set (res_Entries r). ce_Callsign e = Callsign f))"
proof (intro conjI ballI impI)
  note d = prepareInput_ok(3) [OF assms(2)]
  fix e assume e: "e \<in> set (res_Entries r)" "ce_Callsign e = Callsign f"
  from generated_in_group [OF assms(1,2) e(1)] obtain p where p: "(ce_RunwayGroupID e, p) \<in> set ps" ..
  let ?fs = "group_flights (ce_RunwayGroupID e) fs"
  obtain es ws where g: "generateGroup p ?fs promotions = Some (Inr (es, ws))"
      "filter (\<lambda>x. ce_RunwayGroupID x = ce_RunwayGroupID e) (res_Entries r) = candidates (ce_RunwayGroupID e) es"
    using assms(1,2) p by (rule generate_group)
  have ok: "prepared_ok p" using prepareInput_ok(2) [OF assms(2) p] by (simp add: policy_ok_def)
  have "e \<in> set (candidates (ce_RunwayGroupID e) es)" using e(1) by (simp flip: g(2))
  from candidates_entry [OF this] obtain i where i: "i < length es" "ce_Callsign e = Callsign (ent_flight (es ! i))"
      "ce_Time e = ent_time (es ! i)" by blast
  obtain h where h: "h \<in> set ?fs" "Callsign h = Callsign f"
    using group_flight_of [OF g(1) ok nth_mem [OF i(1)]] e(2) i(2) by (metis core_fields(1))
  then have f: "f \<in> set ?fs" using d assms(3) by (auto simp: group_flights_def distinct_map inj_on_def)
  then show "ce_RunwayGroupID e = RunwayGroupID f" by (simp add: group_flights_def)
  have "distinct (map Callsign ?fs)" using d by (simp add: group_flights_def distinct_map_filter)
  from group_held [OF g(1) ok this f _ nth_mem [OF i(1)]] assms(4) e(2) i(2)
  obtain s where s: "protected_slot promotions f = Some s" "slot_Time s = ent_time (es ! i)" by (auto simp: held_in_place_def)
  with assms(4) i(3) show "case map_of promotions (Callsign f) of Some s \<Rightarrow> ce_Time e = slot_Time s
       | None \<Rightarrow> \<exists>s. CapturedSlot f = Some s \<and> ce_Time e = slot_Time s"
    by (auto simp: protected_slot_def split: option.splits if_splits)
next
  assume n: "\<not> HasConflicts r \<and> fl_State f \<notin> {StateLanded, StateRemoved}"
  have "\<exists>p. (RunwayGroupID f, p) \<in> set ps" using prepareInput_ok(4) [OF assms(2,3)] by (auto simp: flight_ok_def dest: map_of_SomeD)
  then obtain p where p: "(RunwayGroupID f, p) \<in> set ps" ..
  obtain es ws where g: "generateGroup p (group_flights (RunwayGroupID f) fs) promotions = Some (Inr (es, ws))"
      "filter (\<lambda>x. ce_RunwayGroupID x = RunwayGroupID f) (res_Entries r) = candidates (RunwayGroupID f) es" "set ws \<subseteq> set (res_Warnings r)"
    using assms(1,2) p by (rule generate_group)
  have ok: "prepared_ok p" using prepareInput_ok(2) [OF assms(2) p] by (simp add: policy_ok_def)
  have cf: "conflict_free ws" using n g(3) by (auto simp: HasConflicts_def conflict_free_def list_ex_iff)
  have "f \<in> set (filter sequenced (group_flights (RunwayGroupID f) fs))" using n assms(3) by (simp add: sequenced_def group_flights_def)
  then have "Callsign f \<in> set (map (Callsign \<circ> ent_flight) es)"
    using mset_eq_setD [OF group_complete [OF g(1) ok cf]] by simp
  then obtain i where "i < length es" "Callsign (ent_flight (es ! i)) = Callsign f" by (auto simp: in_set_conv_nth)
  then have "\<exists>e \<in> set (candidates (RunwayGroupID f) es). ce_Callsign e = Callsign f"
    by (auto simp: candidates_def candidate_entry_def Let_def intro: rev_image_eqI)
  then show "\<exists>e \<in> set (res_Entries r). ce_Callsign e = Callsign f" by (auto simp flip: g(2))
qed

theorem frozen_slots_are_kept_witness:
  "\<exists>r e. generate sample_input [] = Some (Inr r) \<and> e \<in> set (res_Entries r) \<and> ce_Callsign e = ''SAS1'' \<and>
     ns (ce_Time e) = 3 * hour + 4 * minute"
proof -
  let ?f = "snd sample_ready ! 0"
  have f: "?f \<in> set (snd sample_ready)" "fl_FreezeReason ?f \<noteq> FreezeNone \<or> map_of [] (Callsign ?f) \<noteq> (None :: Slot option)"
    "Callsign ?f = ''SAS1''" "fl_State ?f \<notin> {StateLanded, StateRemoved}"
    "map_option (\<lambda>s. ns (slot_Time s)) (CapturedSlot ?f) = Some (3 * hour + 4 * minute)"
    by code_simp+
  note kept = frozen_slots_are_kept [OF sample_result_ok(1) sample_ready_ok(1) f(1,2)]
  from kept f(3,4) sample_result_ok(2) obtain e where e: "e \<in> set (res_Entries sample_result)" "ce_Callsign e = ''SAS1''" by auto
  with kept f(3) have "\<exists>s. CapturedSlot ?f = Some s \<and> ce_Time e = slot_Time s" by auto
  with f(5) have "ns (ce_Time e) = 3 * hour + 4 * minute" by auto
  with e sample_result_ok(1) show ?thesis by blast
qed

text \<open>
  C27. No flight is lost: a generated sequence without conflict warnings holds every flight of a
  runway group that has neither landed nor been removed exactly once, numbered from one in order of
  strictly increasing slot times.
\<close>

theorem every_flight_is_sequenced_once:
  assumes "generate input promotions = Some (Inr r)" "prepareInput input = Inr (ps, fs)" "(g, p) \<in> set ps" "\<not> HasConflicts r"
  shows "mset (map ce_Callsign (filter (\<lambda>e. ce_RunwayGroupID e = g) (res_Entries r))) =
      mset (map Callsign (filter sequenced (group_flights g fs))) \<and>
    map ce_Sequence (filter (\<lambda>e. ce_RunwayGroupID e = g) (res_Entries r)) =
      [1..<Suc (length (filter sequenced (group_flights g fs)))] \<and>
    sorted_wrt (<) (map (\<lambda>e. ns (ce_Time e)) (filter (\<lambda>e. ce_RunwayGroupID e = g) (res_Entries r)))"
proof -
  obtain es ws where g: "generateGroup p (group_flights g fs) promotions = Some (Inr (es, ws))"
      "filter (\<lambda>e. ce_RunwayGroupID e = g) (res_Entries r) = candidates g es" "set ws \<subseteq> set (res_Warnings r)"
    using assms(1-3) by (rule generate_group)
  have ok: "prepared_ok p" using prepareInput_ok(2) [OF assms(2,3)] by (simp add: policy_ok_def)
  have cf: "conflict_free ws" using assms(4) g(3) by (auto simp: HasConflicts_def conflict_free_def list_ex_iff)
  note m = group_complete [OF g(1) ok cf]
  have "map ce_Callsign (candidates g es) = map (Callsign \<circ> ent_flight) es" "map (\<lambda>e. ns (ce_Time e)) (candidates g es) = map at_ns es"
    by (rule nth_equalityI; simp add: candidates_def candidate_entry_def Let_def)+
  moreover have "map ce_Sequence (candidates g es) = map Suc [0..<length es]"
    by (simp add: candidates_def candidate_entry_def Let_def comp_def)
  then have "map ce_Sequence (candidates g es) = [1..<Suc (length es)]" unfolding map_Suc_upt by simp
  moreover have "length es = length (filter sequenced (group_flights g fs))" using mset_eq_length [OF m] by simp
  moreover have "sorted_wrt (<) (map at_ns es)" by (rule adjacent_increasing [OF group_separated [OF g(1) ok cf]])
  ultimately show ?thesis using m unfolding g(2) by (simp only:)
qed

theorem every_flight_is_sequenced_once_witness:
  "mset (map ce_Callsign (filter (\<lambda>e. ce_RunwayGroupID e = ''22L'') (res_Entries sample_result))) =
     mset (map Callsign (filter sequenced (group_flights ''22L'' (snd sample_ready))))"
  using every_flight_is_sequenced_once [OF sample_result_ok(1) sample_ready_ok sample_result_ok(2)] by blast

text \<open>
  C28. The ordering of movable flights ends exactly when no group of flights waits for itself: it
  returns, and then with every flight once and no flight before one it waits for, unless some of the
  flights each wait for another one of them, in which case its loop never ends.
\<close>

theorem ordering_ends_unless_deadlocked:
  "(\<exists>os. orderMovableFlights p flights = Some os \<and> mset os = mset flights \<and> sorted_wrt (\<lambda>a b. \<not> waits_for p a b) os) \<longleftrightarrow>
     (\<forall>S \<subseteq> set flights. \<not> deadlocked p S)"
proof
  assume "\<exists>os. orderMovableFlights p flights = Some os \<and> mset os = mset flights \<and> sorted_wrt (\<lambda>a b. \<not> waits_for p a b) os"
  then show "\<forall>S \<subseteq> set flights. \<not> deadlocked p S" using deadlock_None by force
next
  assume "\<forall>S \<subseteq> set flights. \<not> deadlocked p S"
  then have "\<forall>S \<subseteq> set (go_sort flightLess flights). \<not> deadlocked p S" by simp
  from take_in_order_total [OF this] obtain os where "orderMovableFlights p flights = Some os" unfolding orderMovableFlights_def ..
  then show "\<exists>os. orderMovableFlights p flights = Some os \<and> mset os = mset flights \<and> sorted_wrt (\<lambda>a b. \<not> waits_for p a b) os"
    using orderMovableFlights_Some by blast
qed

theorem ordering_ends_unless_deadlocked_witness:
  "\<exists>os. orderMovableFlights sample_group (snd sample_ready) = Some os \<and> mset os = mset (snd sample_ready)"
proof -
  have "list_all (\<lambda>f. list_all (\<lambda>g. \<not> waits_for sample_group f g) (snd sample_ready)) (snd sample_ready)" by code_simp
  then have "\<forall>S \<subseteq> set (snd sample_ready). \<not> deadlocked sample_group S" by (auto simp: deadlocked_def list_all_iff subset_iff)
  with ordering_ends_unless_deadlocked [of sample_group "snd sample_ready"] show ?thesis by blast
qed

text \<open>
  C29. Defect: the engine accepts inputs on which it never returns. Two holding flights released in
  the reverse of their entry order and a third flight of the same hold without a release rank, entered
  between them, wait for each other in a circle.
\<close>

definition holding_flight :: "string \<Rightarrow> int \<Rightarrow> int option \<Rightarrow> Flight" where
  "holding_flight c entered rank = (sample_flight c (3 * hour) ''M'')\<lparr> HoldingQueueID := ''LUGAS'', HoldingQueueTime := Some (Time entered UTC),
     ReleaseRank := rank \<rparr>"

definition cyclic_input :: Input where
  "cyclic_input = sample_input\<lparr> in_Flights := [holding_flight ''A'' (2 * hour + 2 * minute) (Some 1),
     holding_flight ''B'' (2 * hour) (Some 2), holding_flight ''C'' (2 * hour + minute) None] \<rparr>"

theorem accepted_input_without_result:
  "\<not> isl (prepareInput cyclic_input) \<and> Generate cyclic_input = None"
proof -
  let ?r = "projr (prepareInput cyclic_input)"
  define p where "p = snd (fst ?r ! 0)"
  define fs where "fs = snd ?r"
  have r: "prepareInput cyclic_input = Inr ([(''22L'', p)], fs)" unfolding p_def fs_def by code_simp
  have grp: "filter (\<lambda>f. sequenced f \<and> movable [] f) (group_flights ''22L'' fs) = fs" "go_sort (\<lambda>a b. fst a < fst b) [(''22L'', p)] = [(''22L'', p)]"
    unfolding p_def fs_def by code_simp+
  have w: "length fs = 3" "waits_for p (fs ! 0) (fs ! 2)" "waits_for p (fs ! 1) (fs ! 0)" "waits_for p (fs ! 2) (fs ! 1)"
    unfolding p_def fs_def by code_simp+
  then have mem: "fs ! 0 \<in> set fs" "fs ! 1 \<in> set fs" "fs ! 2 \<in> set fs" by (auto intro: nth_mem)
  have "i = 0 \<or> i = 1 \<or> i = 2" if "i < length fs" for i using that w(1) by linarith
  then have "\<forall>f \<in> set fs. f = fs ! 0 \<or> f = fs ! 1 \<or> f = fs ! 2" by (metis in_set_conv_nth)
  moreover have "\<exists>x \<in> set fs. waits_for p (fs ! 0) x" "\<exists>x \<in> set fs. waits_for p (fs ! 1) x" "\<exists>x \<in> set fs. waits_for p (fs ! 2) x"
    using w(2-4) mem by blast+
  ultimately have "\<forall>f \<in> set fs. \<exists>x \<in> set fs. waits_for p f x" by metis
  moreover have "set fs \<noteq> {}" using mem(1) by (metis empty_iff)
  ultimately have "deadlocked p (set fs)" by (simp add: deadlocked_def)
  then have "orderMovableFlights p fs = None" by (rule deadlock_None) simp
  then have "generateGroup p (group_flights ''22L'' fs) [] = None" by (simp add: generateGroup_def grp(1) Let_def)
  then show ?thesis by (simp add: Generate_def generate_def r grp(2))
qed

end
