(* ===== verification/Go_Lists.thy ===== *)
theory Go_Lists
  imports Go_Base
begin

text \<open>
  Slices by index (\<^verbatim>\<open>slices.IndexFunc\<close>, \<^verbatim>\<open>slices.Insert\<close>, \<^verbatim>\<open>slices.Delete\<close>) and further facts about
  sorting that the sequence components share. An index that does not exist (-1 in Go) is \<open>None\<close>.
\<close>

fun index_where :: "('a \<Rightarrow> bool) \<Rightarrow> 'a list \<Rightarrow> nat option" where
  "index_where P [] = None"
| "index_where P (x # xs) = (if P x then Some 0 else map_option Suc (index_where P xs))"

definition insert_at :: "nat \<Rightarrow> 'a \<Rightarrow> 'a list \<Rightarrow> 'a list" where
  "insert_at i x xs = take i xs @ x # drop i xs"

definition delete_at :: "nat \<Rightarrow> 'a list \<Rightarrow> 'a list" where
  "delete_at i xs = take i xs @ drop (Suc i) xs"

lemma index_where_Some:
  "index_where P xs = Some i \<Longrightarrow> i < length xs \<and> P (xs ! i) \<and> (\<forall>j < i. \<not> P (xs ! j))"
proof (induction P xs arbitrary: i rule: index_where.induct)
  case (2 P x xs)
  then show ?case by (force simp: less_Suc_eq_0_disj split: if_splits)
qed simp

lemma index_where_None [simp]: "index_where P xs = None \<longleftrightarrow> (\<forall>x \<in> set xs. \<not> P x)"
  by (induction P xs rule: index_where.induct) auto

lemma finite_range_via:
  assumes "finite (range g)" "\<And>s t. g s = g t \<Longrightarrow> f s = f t"
  shows "finite (range f)"
proof (rule finite_subset)
  have "f t = f (inv g (g t))" for t by (rule assms(2)) (simp add: f_inv_into_f)
  then show "range f \<subseteq> (\<lambda>r. f (inv g r)) ` range g" by auto
qed (use assms(1) in simp)

text \<open>A comparator whose negation is transitive sorts by it.\<close>

definition weak_order :: "('a \<Rightarrow> 'a \<Rightarrow> bool) \<Rightarrow> bool" where
  "weak_order lt \<longleftrightarrow> (\<forall>x y. lt x y \<longrightarrow> \<not> lt y x) \<and> (\<forall>x y z. \<not> lt y x \<longrightarrow> \<not> lt z y \<longrightarrow> \<not> lt z x)"

lemma sorted_go_insert:
  assumes "weak_order lt" "sorted_wrt (\<lambda>a b. \<not> lt a b) xs"
  shows "sorted_wrt (\<lambda>a b. \<not> lt a b) (go_insert lt x xs)"
  using assms(2)
proof (induction xs)
  case (Cons y ys)
  show ?case
  proof (cases "lt x y")
    case True
    then have "\<not> lt y x" using assms(1) unfolding weak_order_def by blast
    with True Cons show ?thesis by auto
  next
    case False
    have "\<not> lt x a" if "\<not> lt y a" for a using assms(1) False that unfolding weak_order_def by blast
    with False Cons.prems show ?thesis by simp
  qed
qed simp

lemma sorted_go_sort:
  assumes "weak_order lt"
  shows "sorted_wrt (\<lambda>a b. \<not> lt b a) (go_sort lt xs)"
proof (induction xs rule: rev_induct)
  case (snoc x xs)
  then have "sorted_wrt (\<lambda>a b. \<not> lt a b) (rev (go_sort lt xs))" by (simp add: sorted_wrt_rev)
  from sorted_go_insert [OF assms this] show ?case by (simp add: go_sort_snoc sorted_wrt_rev)
qed simp

text \<open>Sorting keeps a selection that is already in strict order of its key.\<close>

lemma filter_go_sort:
  fixes k :: "'a \<Rightarrow> 'b :: linorder"
  assumes "weak_order lt" "\<And>a b. P a \<Longrightarrow> P b \<Longrightarrow> \<not> lt b a \<Longrightarrow> k a \<le> k b" "sorted_wrt (<) (map k (filter P xs))"
  shows "filter P (go_sort lt xs) = filter P xs"
proof -
  let ?ys = "filter P (go_sort lt xs)"
  have "sorted_wrt (\<lambda>a b. \<not> lt b a) ?ys" by (rule sorted_wrt_filter [OF sorted_go_sort [OF assms(1)]])
  then have "sorted_wrt (\<lambda>a b. k a \<le> k b) ?ys" by (rule sorted_wrt_mono_rel [rotated]) (auto intro: assms(2))
  then have srt: "sorted (map k ?ys)" by (simp add: sorted_map)
  have m: "mset ?ys = mset (filter P xs)" by simp
  then have "mset (map k ?ys) = mset (map k (filter P xs))" by (metis mset_map)
  moreover have d: "distinct (map k (filter P xs))" "sorted (map k (filter P xs))" using assms(3) strict_sorted_iff by blast+
  ultimately have "distinct (map k ?ys)" using mset_eq_imp_distinct_iff by blast
  moreover have "set ?ys = set (filter P xs)" using m by (rule mset_eq_setD)
  moreover have "inj_on k (set ?ys \<union> set (filter P xs))" using d(1) distinct_map \<open>set ?ys = _\<close> by (metis Un_absorb)
  ultimately show ?thesis using map_sorted_distinct_set_unique [of k ?ys "filter P xs"] srt d by blast
qed

text \<open>
  Sorting a list whose neighbours are in order changes nothing, and a last element moves to its place,
  whatever the comparator does elsewhere.
\<close>

lemma go_insert_past: "\<forall>y \<in> set ys. lt x y \<Longrightarrow> go_insert lt x (ys @ zs) = ys @ go_insert lt x zs"
  by (induction ys) auto

lemma go_insert_stop: "zs = [] \<or> \<not> lt x (hd zs) \<Longrightarrow> go_insert lt x zs = x # zs"
  by (cases zs) auto

lemma go_sort_id: "successively (\<lambda>a b. \<not> lt b a) xs \<Longrightarrow> go_sort lt xs = xs"
proof (induction xs rule: rev_induct)
  case (snoc x xs)
  then have "go_sort lt xs = xs" by (simp add: successively_append_iff)
  with snoc.prems go_insert_stop [of "rev xs" lt x] show ?case by (simp add: go_sort_snoc successively_append_iff hd_rev)
qed simp

lemma go_sort_insert:
  assumes "successively (\<lambda>a b. \<not> lt b a) (l @ r)" "l = [] \<or> \<not> lt e (last l)" "\<forall>x \<in> set r. lt e x"
  shows "go_sort lt ((l @ r) @ [e]) = l @ e # r"
  using assms(2,3) go_insert_past [of "rev r" lt e "rev l"] go_insert_stop [of "rev l" lt e]
  by (simp add: go_sort_snoc go_sort_id [OF assms(1)] hd_rev del: append_assoc)

lemma go_insert_successively:
  assumes "\<And>a b. lt a b \<Longrightarrow> \<not> lt b a" "successively (\<lambda>a b. \<not> lt a b) xs"
  shows "successively (\<lambda>a b. \<not> lt a b) (go_insert lt x xs)"
  using assms(2)
proof (induction xs)
  case (Cons y ys)
  then show ?case using assms(1) by (cases ys) (auto simp: successively_Cons)
qed simp

lemma go_sort_successively:
  assumes "\<And>a b. lt a b \<Longrightarrow> \<not> lt b a"
  shows "successively (\<lambda>a b. \<not> lt b a) (go_sort lt xs)"
proof (induction xs rule: rev_induct)
  case (snoc x xs)
  then have "successively (\<lambda>a b. \<not> lt a b) (rev (go_sort lt xs))" by (simp add: successively_rev)
  from go_insert_successively [OF assms this] show ?case by (simp add: go_sort_snoc successively_rev)
qed simp

lemma go_insert_cong: "\<forall>y \<in> set ys. lt x y = lt' x y \<Longrightarrow> go_insert lt x ys = go_insert lt' x ys"
  by (induction ys) auto

lemma go_sort_cong: "(\<And>a b. a \<in> set xs \<Longrightarrow> b \<in> set xs \<Longrightarrow> lt a b = lt' a b) \<Longrightarrow> go_sort lt xs = go_sort lt' xs"
proof (induction xs rule: rev_induct)
  case (snoc x xs)
  then have "go_sort lt xs = go_sort lt' xs" by simp
  moreover have "go_insert lt x (rev (go_sort lt' xs)) = go_insert lt' x (rev (go_sort lt' xs))"
    by (rule go_insert_cong) (simp add: snoc.prems)
  ultimately show ?case by (simp add: go_sort_snoc)
qed simp

end
