(* ===== verification/Sequence_Commands.thy ===== *)
theory Sequence_Commands
  imports Machines Go_Lists Sequence_Generation
begin

text \<open>
  Controller commands on an AMAN sequence: \<^verbatim>\<open>internal/aman/sequence/commands.go\<close>,
  \<^verbatim>\<open>swap.go\<close> and, but for the go-around, \<^verbatim>\<open>policy.go\<close>. Every command is a pure function from an input to a decision, the
  changed input with the sequence generated from it.

  The deep copy of \<^verbatim>\<open>cloneInput\<close> is the value itself. A command returns \<open>None\<close> when the generation it
  starts does not return, or where an index of the code is out of range, which would panic. The error
  values keep the class and message; a message that the code formats with a callsign or with an engine
  error keeps that argument apart.
\<close>

section \<open>Commands and errors\<close>

record CommandMetadata =
  CommandID :: string
  ExpectedRevision :: nat

datatype command_error =
    Refused error_class string
  | RefusedFlight error_class string string
  | RefusedBecause error_class string seq_error
  | RevisionConflict nat nat
  | EngineError seq_error

definition invalidArgument :: "string \<Rightarrow> command_error" where
  "invalidArgument m = Refused ErrorInvalidArgument (''sequence policy: '' @ m)"

definition invalidTransition :: "string \<Rightarrow> command_error" where
  "invalidTransition m = Refused ErrorInvalidTransition (''sequence policy: '' @ m)"

definition notFound :: "string \<Rightarrow> command_error" where
  "notFound m = Refused ErrorNotFound (''sequence policy: '' @ m)"

definition validID :: "string \<Rightarrow> bool" where
  "validID v \<longleftrightarrow> v \<noteq> '''' \<and> trim_space v = v"

definition validateMetadata :: "CommandMetadata \<Rightarrow> nat \<Rightarrow> command_error + unit" where
  "validateMetadata metadata revision =
     and_then (ensure (validID (CommandID metadata)) (invalidArgument ''command ID is required''))
       (ensure (ExpectedRevision metadata = revision) (RevisionConflict (ExpectedRevision metadata) revision))"

definition validateFlightAction :: "CommandMetadata \<Rightarrow> nat \<Rightarrow> string \<Rightarrow> gotime \<Rightarrow> command_error + unit" where
  "validateFlightAction metadata revision callsign tm =
     and_then (validateMetadata metadata revision)
       (ensure (validID callsign \<and> valid_utc tm) (invalidArgument ''flight action requires a flight and UTC time''))"

record MoveFlightCommand =
  mc_Metadata :: CommandMetadata
  mc_Callsign :: string
  mc_RunwayGroupID :: string
  BeforeCallsign :: "string option"
  AfterCallsign :: "string option"

definition move_anchor :: "MoveFlightCommand \<Rightarrow> string option" where
  "move_anchor c = (case BeforeCallsign c of None \<Rightarrow> AfterCallsign c | Some a \<Rightarrow> Some a)"

definition MoveFlightCommand_Validate :: "MoveFlightCommand \<Rightarrow> nat \<Rightarrow> command_error + unit" where
  "MoveFlightCommand_Validate c revision =
     and_then (validateMetadata (mc_Metadata c) revision)
     (and_then (ensure (validID (mc_Callsign c) \<and> validID (mc_RunwayGroupID c)) (invalidArgument ''move flight and runway group are required''))
     (and_then (ensure ((BeforeCallsign c = None) \<noteq> (AfterCallsign c = None)) (invalidArgument ''move requires exactly one before or after anchor''))
     (ensure (case move_anchor c of None \<Rightarrow> False | Some a \<Rightarrow> validID a \<and> a \<noteq> mc_Callsign c)
        (invalidArgument ''move anchor must identify another flight''))))"

record FlightActionCommand =
  fa_Metadata :: CommandMetadata
  fa_Callsign :: string
  fa_At :: gotime

definition FlightActionCommand_Validate :: "FlightActionCommand \<Rightarrow> nat \<Rightarrow> command_error + unit" where
  "FlightActionCommand_Validate c revision = validateFlightAction (fa_Metadata c) revision (fa_Callsign c) (fa_At c)"

record SetRateCommand =
  rc_Metadata :: CommandMetadata
  rc_RunwayGroupID :: string
  rc_ArrivalsPerHour :: nat
  rc_EffectiveAt :: gotime

definition SetRateCommand_Validate :: "SetRateCommand \<Rightarrow> nat \<Rightarrow> command_error + unit" where
  "SetRateCommand_Validate c revision =
     and_then (validateMetadata (rc_Metadata c) revision)
       (ensure (validID (rc_RunwayGroupID c) \<and> rc_ArrivalsPerHour c \<noteq> 0 \<and> valid_utc (rc_EffectiveAt c))
          (invalidArgument ''rate requires a runway group, positive rate, and UTC effective time''))"

record GoAroundPolicy =
  Delay :: duration
  MaxCascade :: int

definition GoAroundPolicy_Validate :: "GoAroundPolicy \<Rightarrow> command_error + unit" where
  "GoAroundPolicy_Validate p =
     ensure (0 < Delay p \<and> 1 \<le> MaxCascade p) (invalidArgument ''go-around delay and cascade bound must be positive'')"

record SwapFlightsCommand =
  sc_Metadata :: CommandMetadata
  sc_Callsign :: string
  sc_OtherCallsign :: string

definition commandInvalid :: "string \<Rightarrow> command_error" where
  "commandInvalid m = Refused ErrorInvalidArgument (''AMAN command: '' @ m)"

definition SwapFlightsCommand_Validate :: "SwapFlightsCommand \<Rightarrow> command_error + unit" where
  "SwapFlightsCommand_Validate c =
     and_then (ensure (validID (CommandID (sc_Metadata c))) (commandInvalid ''command ID is required''))
     (and_then (ensure (validID (sc_Callsign c)) (commandInvalid ''callsign is required''))
     (ensure (validID (sc_OtherCallsign c) \<and> sc_OtherCallsign c \<noteq> sc_Callsign c) (commandInvalid ''swap requires two different flights'')))"

section \<open>Decisions\<close>

record Decision =
  dec_Input :: Input
  dec_Candidate :: SeqResult
  dec_Changed :: bool

type_synonym decided = "(command_error + Decision) option"

definition cloneInput :: "Input \<Rightarrow> Input" where "cloneInput input = input"

definition flightIndex :: "Flight list \<Rightarrow> string \<Rightarrow> nat option" where
  "flightIndex flights cs = index_where (\<lambda>f. Callsign f = cs) flights"

definition activeFlight :: "Input \<Rightarrow> string \<Rightarrow> command_error + nat \<times> Flight" where
  "activeFlight input cs =
     (case flightIndex (in_Flights input) cs of
        None \<Rightarrow> Inl (RefusedFlight ErrorNotFound ''sequence policy: flight was not found'' cs)
      | Some i \<Rightarrow>
          (let f = in_Flights input ! i in
           if fl_State f = StateLanded \<or> fl_State f = StateRemoved
           then Inl (RefusedFlight ErrorInvalidTransition ''sequence policy: flight is not active'' cs)
           else Inr (i, f)))"

definition groupOrder :: "SeqResult \<Rightarrow> string \<Rightarrow> string list" where
  "groupOrder r g = map ce_Callsign (filter (\<lambda>e. ce_RunwayGroupID e = g) (res_Entries r))"

definition inputsEqualOrder :: "Input \<Rightarrow> Input \<Rightarrow> bool" where
  "inputsEqualOrder a b \<longleftrightarrow> map ManualOrder (in_Flights a) = map ManualOrder (in_Flights b)"

text \<open>Continue with the sequence of an input: an engine error is turned into the error of the command.\<close>

definition with_sequence :: "Input \<Rightarrow> (seq_error \<Rightarrow> command_error) \<Rightarrow> (SeqResult \<Rightarrow> decided) \<Rightarrow> decided" where
  "with_sequence input err k =
     (case Generate input of None \<Rightarrow> None | Some (Inl e) \<Rightarrow> Some (Inl (err e)) | Some (Inr r) \<Rightarrow> k r)"

definition require :: "bool \<Rightarrow> command_error \<Rightarrow> decided \<Rightarrow> decided" where
  "require b e k = (if b then k else Some (Inl e))"

definition passing :: "command_error + 'a \<Rightarrow> ('a \<Rightarrow> decided) \<Rightarrow> decided" where
  "passing c k = (case c of Inl e \<Rightarrow> Some (Inl e) | Inr x \<Rightarrow> k x)"

definition reserve_flags :: "Flight list \<Rightarrow> Flight list \<Rightarrow> Flight list" where
  "reserve_flags original working = map2 (\<lambda>f g. f\<lparr> ProtectCurrentSlot := ProtectCurrentSlot g \<rparr>) working original"

section \<open>Moving and exchanging flights\<close>

text \<open>
  Positions from \<open>first\<close> on give up the reservation of their current slot, frozen flights excepted.
  An unknown callsign is the index -1 of the code.
\<close>

definition renumbered :: "nat \<Rightarrow> nat \<Rightarrow> Flight \<Rightarrow> Flight" where
  "renumbered first position f =
     f\<lparr> ManualOrder := Some (int position + 1),
        ProtectCurrentSlot := (if first \<le> position \<and> fl_FreezeReason f = FreezeNone then False else ProtectCurrentSlot f) \<rparr>"

fun number_flights :: "nat \<Rightarrow> nat \<Rightarrow> string list \<Rightarrow> Flight list \<Rightarrow> Flight list option" where
  "number_flights first position [] fs = Some fs"
| "number_flights first position (c # cs) fs =
     (case flightIndex fs c of None \<Rightarrow> None
      | Some i \<Rightarrow> number_flights first (Suc position) cs (fs[i := renumbered first position (fs ! i)]))"

definition position_in :: "string list \<Rightarrow> string \<Rightarrow> nat option" where
  "position_in order x = index_where (\<lambda>y. y = x) order"

text \<open>The place of the flight in the order without it, beside the anchor.\<close>

definition move_position :: "MoveFlightCommand \<Rightarrow> string \<Rightarrow> string list \<Rightarrow> nat option" where
  "move_position c anchor rest =
     map_option (\<lambda>i. if AfterCallsign c \<noteq> None then Suc i else i) (position_in rest anchor)"

definition beside :: "MoveFlightCommand \<Rightarrow> string \<Rightarrow> string list \<Rightarrow> bool" where
  "beside c anchor order =
     (case (position_in order (mc_Callsign c), position_in order anchor) of
        (Some t, Some a) \<Rightarrow> BeforeCallsign c \<noteq> None \<and> Suc t = a \<or> AfterCallsign c \<noteq> None \<and> Suc a = t
      | (Some t, None) \<Rightarrow> AfterCallsign c \<noteq> None \<and> t = 0
      | (None, Some a) \<Rightarrow> BeforeCallsign c \<noteq> None \<and> a = 0
      | (None, None) \<Rightarrow> False)"

definition finish_move :: "Input \<Rightarrow> MoveFlightCommand \<Rightarrow> string \<Rightarrow> Flight list \<Rightarrow> decided" where
  "finish_move input c anchor fs =
     (let working = input\<lparr> in_Flights := fs \<rparr> in
      with_sequence working (RefusedBecause ErrorInvalidTransition ''sequence policy: move cannot satisfy rate and WTC policy'') (\<lambda>candidate.
      require (\<not> HasConflicts candidate) (invalidTransition ''move would conflict with a protected slot'')
     (require (beside c anchor (groupOrder candidate (mc_RunwayGroupID c)))
        (invalidTransition ''move cannot satisfy the requested anchor under rate and WTC policy'')
     (let working' = working\<lparr> in_Flights := reserve_flags (in_Flights input) fs \<rparr> in
      Some (Inr \<lparr> dec_Input = working', dec_Candidate = candidate,
                  dec_Changed = (\<not> inputsEqualOrder input working' \<or> res_Movements candidate \<noteq> []) \<rparr>)))))"

definition move_flights :: "MoveFlightCommand \<Rightarrow> string \<Rightarrow> string list \<Rightarrow> nat \<Rightarrow> Flight list \<Rightarrow> Flight list option" where
  "move_flights c anchor order from fs =
     (let rest = delete_at from order in
      case move_position c anchor rest of None \<Rightarrow> None
      | Some i \<Rightarrow> number_flights (min from i) 0 (insert_at i (mc_Callsign c) rest) fs)"

definition move_in_order :: "Input \<Rightarrow> MoveFlightCommand \<Rightarrow> string \<Rightarrow> string list \<Rightarrow> decided" where
  "move_in_order input c anchor order =
     (let refusal = Some (Inl (notFound (''move flight or anchor has no active slot''))) in
      case position_in order (mc_Callsign c) of None \<Rightarrow> refusal
      | Some from \<Rightarrow>
          (case position_in order anchor of None \<Rightarrow> refusal
           | Some _ \<Rightarrow>
               (case move_flights c anchor order from (in_Flights input) of
                  None \<Rightarrow> None | Some fs \<Rightarrow> finish_move input c anchor fs)))"

definition ApplyMove :: "Input \<Rightarrow> MoveFlightCommand \<Rightarrow> decided" where
  "ApplyMove input c =
     passing (MoveFlightCommand_Validate c (in_Revision input)) (\<lambda>_.
     (let working = cloneInput input in
      passing (activeFlight working (mc_Callsign c)) (\<lambda>(_, target).
      case move_anchor c of None \<Rightarrow> None | Some anchorID \<Rightarrow>
      passing (activeFlight working anchorID) (\<lambda>(_, anchor).
      require (RunwayGroupID target = mc_RunwayGroupID c \<and> RunwayGroupID anchor = mc_RunwayGroupID c)
        (invalidArgument ''move flight and anchor must belong to the requested runway group'')
     (require (fl_FreezeReason target = FreezeNone) (invalidTransition ''move requires the flight freeze to be released first'')
     (with_sequence working EngineError (\<lambda>current.
      require (\<not> HasConflicts current) (invalidTransition ''move cannot start from a conflicting protected sequence'')
        (move_in_order working c anchorID (groupOrder current (mc_RunwayGroupID c))))))))))"

text \<open>The displayed order of a group: committed slots by time and number, then the flights without one.\<close>

definition committed_less :: "Flight list \<Rightarrow> string \<Rightarrow> string \<Rightarrow> bool" where
  "committed_less fs x y =
     (case (CurrentSlot (fs ! the (flightIndex fs x)), CurrentSlot (fs ! the (flightIndex fs y))) of
        (Some a, Some b) \<Rightarrow>
          (if t_equal (slot_Time a) (slot_Time b) then slot_Sequence a < slot_Sequence b else before (slot_Time a) (slot_Time b))
      | (a, b) \<Rightarrow> a \<noteq> None \<and> b = None)"

definition finish_swap :: "Input \<Rightarrow> string \<Rightarrow> string list \<Rightarrow> Flight list \<Rightarrow> decided" where
  "finish_swap input g order fs =
     (let working = input\<lparr> in_Flights := fs \<rparr> in
      with_sequence working (RefusedBecause ErrorInvalidTransition ''sequence policy: swap cannot satisfy rate and WTC policy'') (\<lambda>candidate.
      require (\<not> HasConflicts candidate \<and> order = groupOrder candidate g)
        (invalidTransition ''swap cannot retain the requested order with protected slots and spacing constraints'')
     (Some (Inr \<lparr> dec_Input = working\<lparr> in_Flights := reserve_flags (in_Flights input) fs \<rparr>, dec_Candidate = candidate, dec_Changed = True \<rparr>))))"

definition swap_flights :: "Input \<Rightarrow> Flight \<Rightarrow> Flight \<Rightarrow> string list \<Rightarrow> decided" where
  "swap_flights input first other names =
     (let fs = in_Flights input in
      if list_ex (\<lambda>x. flightIndex fs x = None) names then None
      else (let order = go_sort (committed_less fs) names;
                refusal = invalidTransition ''swap requires two committed sequence positions'' in
        case position_in order (Callsign first) of None \<Rightarrow> Some (Inl refusal)
        | Some i \<Rightarrow>
            (case position_in order (Callsign other) of None \<Rightarrow> Some (Inl refusal)
             | Some j \<Rightarrow>
                 require (CurrentSlot first \<noteq> None \<and> CurrentSlot other \<noteq> None) refusal
                (let order' = order[i := order ! j, j := order ! i] in
                 case number_flights (min i j) 0 order' fs of None \<Rightarrow> None
                 | Some fs' \<Rightarrow> finish_swap input (RunwayGroupID first) order' fs'))))"

definition ApplySwap :: "Input \<Rightarrow> SwapFlightsCommand \<Rightarrow> decided" where
  "ApplySwap input c =
     passing (SwapFlightsCommand_Validate c) (\<lambda>_.
     passing (validateMetadata (sc_Metadata c) (in_Revision input)) (\<lambda>_.
     (let working = cloneInput input in
      passing (activeFlight working (sc_Callsign c)) (\<lambda>(_, first).
      passing (activeFlight working (sc_OtherCallsign c)) (\<lambda>(_, other).
      require (RunwayGroupID first = RunwayGroupID other \<and> SelectedSTARFamily first \<noteq> '''' \<and> SelectedSTARFamily first = SelectedSTARFamily other)
        (invalidArgument ''swap requires flights on the same selected STAR family and runway group'')
     (require (fl_FreezeReason first = FreezeNone \<and> fl_FreezeReason other = FreezeNone)
        (invalidTransition ''swap requires both flight freezes to be released first'')
     (with_sequence working EngineError (\<lambda>current.
      require (\<not> HasConflicts current) (invalidTransition ''swap cannot start from a conflicting protected sequence'')
        (swap_flights working first other (groupOrder current (RunwayGroupID first)))))))))))"

section \<open>Freezing, releasing and rates\<close>

definition on_flight :: "Input \<Rightarrow> nat \<Rightarrow> (Flight \<Rightarrow> Flight) \<Rightarrow> Input" where
  "on_flight input i g = input\<lparr> in_Flights := (in_Flights input)[i := g (in_Flights input ! i)] \<rparr>"

definition manually_frozen :: "gotime \<Rightarrow> Flight \<Rightarrow> Flight" where
  "manually_frozen tm f =
     f\<lparr> fl_FreezeReason := FreezeManual, FrozenAt := Some tm, FrozenOperationalTETA := Some (OperationalTETA f),
        CapturedSlot := CurrentSlot f \<rparr>"

definition unfrozen :: "'a Flight_scheme \<Rightarrow> 'a Flight_scheme" where
  "unfrozen f = f\<lparr> fl_FreezeReason := FreezeNone, FrozenAt := None, FrozenOperationalTETA := None, CapturedSlot := None \<rparr>"

definition decide_with :: "Input \<Rightarrow> decided" where
  "decide_with working =
     with_sequence working EngineError (\<lambda>candidate.
       Some (Inr \<lparr> dec_Input = working, dec_Candidate = candidate, dec_Changed = True \<rparr>))"

definition ApplyManualFreeze :: "Input \<Rightarrow> FlightActionCommand \<Rightarrow> decided" where
  "ApplyManualFreeze input c =
     passing (FlightActionCommand_Validate c (in_Revision input)) (\<lambda>_.
     (let working = cloneInput input in
      passing (activeFlight working (fa_Callsign c)) (\<lambda>(i, f).
      require (fl_State f \<noteq> StateGoAround) (invalidTransition ''go-around flight cannot be manually frozen'')
     (require (fl_FreezeReason f = FreezeNone) (invalidTransition ''manual freeze requires an unfrozen flight'')
     (require (CurrentSlot f \<noteq> None) (invalidTransition ''manual freeze requires a committed current slot'')
        (decide_with (on_flight working i (manually_frozen (fa_At c)))))))))"

definition ReleaseManualFreeze :: "Input \<Rightarrow> FlightActionCommand \<Rightarrow> decided" where
  "ReleaseManualFreeze input c =
     passing (FlightActionCommand_Validate c (in_Revision input)) (\<lambda>_.
     (let working = cloneInput input in
      passing (activeFlight working (fa_Callsign c)) (\<lambda>(i, f).
      require (fl_FreezeReason f = FreezeManual) (invalidTransition ''manual freeze release requires FreezeManual'')
        (decide_with (on_flight working i unfrozen)))))"

text \<open>The rates with the new one set, and whether that changes them.\<close>

definition set_rate :: "SetRateCommand \<Rightarrow> RatePoint list \<Rightarrow> RatePoint list \<times> bool" where
  "set_rate c rs =
     (case index_where (\<lambda>r. t_equal (EffectiveAt r) (rc_EffectiveAt c)) rs of
        Some i \<Rightarrow> (rs[i := (rs ! i)\<lparr> ArrivalsPerHour := rc_ArrivalsPerHour c \<rparr>], ArrivalsPerHour (rs ! i) \<noteq> rc_ArrivalsPerHour c)
      | None \<Rightarrow> (rs @ [\<lparr> EffectiveAt = rc_EffectiveAt c, ArrivalsPerHour = rc_ArrivalsPerHour c \<rparr>], True))"

definition rate_lower_bound :: "SetRateCommand \<Rightarrow> Flight \<Rightarrow> gotime" where
  "rate_lower_bound c f =
     (case PromotionNotBefore f of None \<Rightarrow> rc_EffectiveAt c
      | Some b \<Rightarrow> if after b (rc_EffectiveAt c) then b else rc_EffectiveAt c)"

definition rate_released :: "SetRateCommand \<Rightarrow> Flight \<Rightarrow> bool" where
  "rate_released c f \<longleftrightarrow> RunwayGroupID f = rc_RunwayGroupID c \<and> ProtectCurrentSlot f \<and> fl_FreezeReason f = FreezeNone \<and>
     (case CurrentSlot f of None \<Rightarrow> False | Some s \<Rightarrow> \<not> before (slot_Time s) (rc_EffectiveAt c))"

definition release_for_rate :: "SetRateCommand \<Rightarrow> Flight \<Rightarrow> Flight" where
  "release_for_rate c f =
     (if \<not> rate_released c f then f
      else f\<lparr> ProtectCurrentSlot := False,
              SlotNotBefore := (case SlotNotBefore f of None \<Rightarrow> Some (rate_lower_bound c f)
                | Some b \<Rightarrow> if before b (rate_lower_bound c f) then Some (rate_lower_bound c f) else Some b) \<rparr>)"

definition restore_bounds :: "Flight list \<Rightarrow> Flight list \<Rightarrow> Flight list" where
  "restore_bounds original working =
     map2 (\<lambda>f g. f\<lparr> ProtectCurrentSlot := ProtectCurrentSlot g, SlotNotBefore := SlotNotBefore g \<rparr>) working original"

definition ApplyRate :: "Input \<Rightarrow> SetRateCommand \<Rightarrow> decided" where
  "ApplyRate input c =
     passing (SetRateCommand_Validate c (in_Revision input)) (\<lambda>_.
     (let working = cloneInput input in
      case index_where (\<lambda>p. pol_RunwayGroupID p = rc_RunwayGroupID c) (in_Policies working) of
        None \<Rightarrow> Some (Inl (notFound ''rate runway group was not found''))
      | Some i \<Rightarrow>
          (case set_rate c (Rates (in_Policies working ! i)) of (rs, changed) \<Rightarrow>
            (let rs' = go_sort (\<lambda>a b. before (EffectiveAt a) (EffectiveAt b)) rs;
                 working = working\<lparr> in_Policies := (in_Policies working)[i := (in_Policies working ! i)\<lparr> Rates := rs' \<rparr>],
                    in_Flights := (if changed then map (release_for_rate c) (in_Flights working) else in_Flights working) \<rparr> in
             with_sequence working EngineError (\<lambda>candidate.
               Some (Inr \<lparr> dec_Input = working\<lparr> in_Flights := restore_bounds (in_Flights input) (in_Flights working) \<rparr>,
                           dec_Candidate = candidate, dec_Changed = (changed \<or> res_Movements candidate \<noteq> []) \<rparr>))))))"

section \<open>What an accepted command has passed\<close>

named_theorems decided "accepted decisions"

lemma passing_Inr [decided]: "passing c k = Some (Inr d) \<longleftrightarrow> (\<exists>x. c = Inr x \<and> k x = Some (Inr d))"
  by (cases c) (simp_all add: passing_def)

lemma require_Inr [decided]: "require b e k = Some (Inr d) \<longleftrightarrow> b \<and> k = Some (Inr d)"
  by (simp add: require_def)

lemma with_sequence_Inr [decided]:
  "with_sequence input err k = Some (Inr d) \<longleftrightarrow> (\<exists>r. Generate input = Some (Inr r) \<and> k r = Some (Inr d))"
  by (auto simp: with_sequence_def split: option.splits sum.splits)

lemma case_option_Inr [decided]:
  "(case x of None \<Rightarrow> None | Some y \<Rightarrow> k y) = Some (z :: 'e + 'd) \<longleftrightarrow> (\<exists>y. x = Some y \<and> k y = Some z)"
  "(case x of None \<Rightarrow> Some (Inl e) | Some y \<Rightarrow> k y) = Some (Inr d :: 'e + 'd) \<longleftrightarrow> (\<exists>y. x = Some y \<and> k y = Some (Inr d))"
  by (cases x; simp)+

lemma case_sum_Inr [decided]:
  "(case x of Inl e \<Rightarrow> Some (Inl (err e)) | Inr (a, b) \<Rightarrow> k a b) = Some (Inr d :: 'e + 'd) \<longleftrightarrow> (\<exists>a b. x = Inr (a, b) \<and> k a b = Some (Inr d))"
  by (cases x) auto

lemma activeFlight_Inr:
  assumes "activeFlight input cs = Inr (i, f)"
  shows "i < length (in_Flights input)" "f = in_Flights input ! i" "Callsign f = cs" "fl_State f \<noteq> StateLanded" "fl_State f \<noteq> StateRemoved"
proof -
  from assms obtain "flightIndex (in_Flights input) cs = Some i" and f: "f = in_Flights input ! i" "fl_State f \<noteq> StateLanded" "fl_State f \<noteq> StateRemoved"
    by (auto simp: activeFlight_def Let_def split: option.splits if_splits)
  with index_where_Some [of "\<lambda>f. Callsign f = cs" "in_Flights input" i] show "i < length (in_Flights input)" "Callsign f = cs"
    by (simp_all add: flightIndex_def)
  show "f = in_Flights input ! i" "fl_State f \<noteq> StateLanded" "fl_State f \<noteq> StateRemoved" by fact+
qed

text \<open>What reordering leaves alone: the flight without its manual order and its reservation.\<close>

definition plain :: "Flight \<Rightarrow> Flight" where "plain f = f\<lparr> ManualOrder := None, ProtectCurrentSlot := False \<rparr>"

definition unordered :: "Flight \<Rightarrow> Flight" where "unordered f = f\<lparr> ManualOrder := None \<rparr>"

lemma map_update_same: "i < length xs \<Longrightarrow> h (g (xs ! i)) = h (xs ! i) \<Longrightarrow> map h (xs[i := g (xs ! i)]) = map h xs"
  by (metis list_update_id map_update nth_map length_map)

lemma flightIndex_less: "flightIndex fs c = Some i \<Longrightarrow> i < length fs \<and> Callsign (fs ! i) = c"
  using index_where_Some [of "\<lambda>f. Callsign f = c" fs i] by (simp add: flightIndex_def)

lemma number_flights_plain: "number_flights first k cs fs = Some gs \<Longrightarrow> map plain gs = map plain fs"
proof (induction first k cs fs rule: number_flights.induct)
  case (2 first k c cs fs)
  from "2.prems" obtain i where i: "flightIndex fs c = Some i" "number_flights first (Suc k) cs (fs[i := renumbered first k (fs ! i)]) = Some gs"
    by (auto split: option.splits)
  have "map plain (fs[i := renumbered first k (fs ! i)]) = map plain fs"
    using flightIndex_less [OF i(1)] by (intro map_update_same) (simp_all add: plain_def renumbered_def)
  with "2.IH" [OF i] show ?case by simp
qed simp

lemma reserve_flags_unordered:
  assumes "map plain gs = map plain fs"
  shows "map unordered (reserve_flags fs gs) = map unordered fs"
proof -
  have len: "length gs = length fs" using assms by (metis length_map)
  have "unordered ((gs ! i)\<lparr> ProtectCurrentSlot := ProtectCurrentSlot (fs ! i) \<rparr>) = unordered (fs ! i)" if "i < length fs" for i
  proof -
    have "plain (gs ! i) = plain (fs ! i)" using assms that len by (metis nth_map)
    then show ?thesis by (cases "gs ! i"; cases "fs ! i") (simp add: plain_def unordered_def)
  qed
  with len show ?thesis by (intro nth_equalityI) (simp_all add: reserve_flags_def)
qed

lemma generate_complete:
  assumes "generate input promotions = Some (Inr r)" "prepareInput input = Inr (ps, fs)" "(g, p) \<in> set ps" "\<not> HasConflicts r"
  shows "mset (groupOrder r g) = mset (map Callsign (filter sequenced (group_flights g fs)))"
proof -
  obtain es ws where g: "generateGroup p (group_flights g fs) promotions = Some (Inr (es, ws))"
      "filter (\<lambda>e. ce_RunwayGroupID e = g) (res_Entries r) = candidates g es" "set ws \<subseteq> set (res_Warnings r)"
    using assms(1-3) by (rule generate_group)
  have ok: "prepared_ok p" using prepareInput_ok(2) [OF assms(2,3)] by (simp add: policy_ok_def)
  have "conflict_free ws" using assms(4) g(3) by (auto simp: HasConflicts_def conflict_free_def list_ex_iff)
  note m = group_complete [OF g(1) ok this]
  have "map ce_Callsign (candidates g es) = map (Callsign \<circ> ent_flight) es"
    by (rule nth_equalityI; simp add: candidates_def candidate_entry_def Let_def)
  with m show ?thesis by (simp add: groupOrder_def g(2))
qed

lemma position_in_Some: "position_in order x = Some i \<Longrightarrow> i < length order \<and> order ! i = x"
  using index_where_Some [of "\<lambda>y. y = x" order i] by (simp add: position_in_def)

lemma beside_pair:
  assumes "beside c a order" "mc_Callsign c \<in> set order" "a \<in> set order" "(BeforeCallsign c = None) \<noteq> (AfterCallsign c = None)"
  shows "\<exists>xs ys. order = xs @ (if BeforeCallsign c \<noteq> None then [mc_Callsign c, a] else [a, mc_Callsign c]) @ ys"
proof -
  have "position_in order (mc_Callsign c) \<noteq> None" "position_in order a \<noteq> None" using assms(2,3) by (simp_all add: position_in_def)
  then obtain t i where p: "position_in order (mc_Callsign c) = Some t" "position_in order a = Some i" by blast
  note pt = position_in_Some [OF p(1)] position_in_Some [OF p(2)]
  have split: "order = take m order @ [order ! m, order ! Suc m] @ drop (Suc (Suc m)) order" if "Suc m < length order" for m
    using that by (simp add: Cons_nth_drop_Suc id_take_nth_drop)
  from assms(1) p have "BeforeCallsign c \<noteq> None \<and> Suc t = i \<or> AfterCallsign c \<noteq> None \<and> Suc i = t" by (simp add: beside_def)
  then show ?thesis
  proof
    assume b: "BeforeCallsign c \<noteq> None \<and> Suc t = i"
    with split [of t] pt have "order = take t order @ [mc_Callsign c, a] @ drop (Suc (Suc t)) order" by simp
    with b show ?thesis by (simp del: append_Cons append.simps) blast
  next
    assume b: "AfterCallsign c \<noteq> None \<and> Suc i = t"
    with split [of i] pt have "order = take i order @ [a, mc_Callsign c] @ drop (Suc (Suc i)) order" by simp
    moreover have "BeforeCallsign c = None" using b assms(4) by simp
    ultimately show ?thesis by (simp del: append_Cons append.simps) blast
  qed
qed

definition active_in :: "string \<Rightarrow> 'a FlightIdentity_scheme \<Rightarrow> bool" where
  "active_in g f \<longleftrightarrow> RunwayGroupID f = g \<and> fl_State f \<noteq> StateLanded \<and> fl_State f \<noteq> StateRemoved"

definition names_in :: "string \<Rightarrow> 'a FlightIdentity_scheme list \<Rightarrow> string list" where
  "names_in g fs = map Callsign (filter (active_in g) fs)"

lemma prepare_flights_identity:
  "prepare_flights seen ps raws = Inr fs \<Longrightarrow>
     map (\<lambda>f. (Callsign f, RunwayGroupID f, fl_State f)) fs = map (\<lambda>f. (Callsign f, RunwayGroupID f, fl_State f)) raws"
proof (induction seen ps raws arbitrary: fs rule: prepare_flights.induct)
  case (2 seen ps raw rest)
  have "fl_State (prepare_flight p f) = fl_State f" for p f by (simp add: prepare_flight_def Let_def Flight.defs preparedFlight.defs)
  with 2 show ?case by (auto split: if_splits option.splits sum.splits)
qed simp

lemma names_in_identity:
  fixes fs :: "'a FlightIdentity_scheme list" and gs :: "'b FlightIdentity_scheme list"
  assumes "map (\<lambda>f. (Callsign f, RunwayGroupID f, fl_State f)) fs = map (\<lambda>f. (Callsign f, RunwayGroupID f, fl_State f)) gs"
  shows "names_in g fs = names_in g gs"
  using assms by (induction fs gs rule: list_induct2') (auto simp: names_in_def active_in_def)

lemma prepared_input:
  assumes "prepareInput input = Inr (ps, fs)"
  shows "map (\<lambda>f. (Callsign f, RunwayGroupID f, fl_State f)) fs = map (\<lambda>f. (Callsign f, RunwayGroupID f, fl_State f)) (in_Flights input)"
    "raw \<in> set (in_Flights input) \<Longrightarrow> \<exists>p. (RunwayGroupID raw, p) \<in> set ps"
proof -
  from assms obtain qs where "prepare_flights [] qs (in_Flights input) = Inr fs"
    by (auto simp: prepareInput_def prepareFlights_def split: sum.splits if_splits)
  from prepare_flights_identity [OF this]
  show eq: "map (\<lambda>f. (Callsign f, RunwayGroupID f, fl_State f)) fs = map (\<lambda>f. (Callsign f, RunwayGroupID f, fl_State f)) (in_Flights input)" .
  assume "raw \<in> set (in_Flights input)"
  then have "(Callsign raw, RunwayGroupID raw, fl_State raw) \<in> set (map (\<lambda>f. (Callsign f, RunwayGroupID f, fl_State f)) (in_Flights input))" by simp
  then obtain f where "f \<in> set fs" "RunwayGroupID f = RunwayGroupID raw" unfolding eq [symmetric] by auto
  with prepareInput_ok(4) [OF assms] show "\<exists>p. (RunwayGroupID raw, p) \<in> set ps" by (metis flight_ok_def map_of_SomeD)
qed

lemma generated_names:
  assumes "Generate input = Some (Inr r)" "\<not> HasConflicts r" "raw \<in> set (in_Flights input)" "RunwayGroupID raw = g"
  shows "mset (groupOrder r g) = mset (names_in g (in_Flights input))"
proof -
  from assms(1) obtain ps fs where ready: "prepareInput input = Inr (ps, fs)" by (auto simp: Generate_def generate_def split: sum.splits)
  then obtain p where "(g, p) \<in> set ps" using prepared_input(2) assms(3,4) by blast
  from generate_complete [OF assms(1) [unfolded Generate_def] ready this assms(2)]
  have "mset (groupOrder r g) = mset (map Callsign (filter sequenced (group_flights g fs)))" .
  also have "filter sequenced (group_flights g fs) = filter (active_in g) fs"
    by (auto simp: group_flights_def active_in_def sequenced_def intro: filter_cong)
  also have "map Callsign (filter (active_in g) fs) = names_in g (in_Flights input)"
    using names_in_identity [OF prepared_input(1) [OF ready], of g] by (simp only: names_in_def)
  finally show ?thesis .
qed

lemma plain_identity:
  assumes "map plain gs = map plain fs"
  shows "map (\<lambda>f. (Callsign f, RunwayGroupID f, fl_State f)) gs = map (\<lambda>f. (Callsign f, RunwayGroupID f, fl_State f)) fs"
proof -
  have "map (\<lambda>f. (Callsign f, RunwayGroupID f, fl_State f)) (map plain gs) = map (\<lambda>f. (Callsign f, RunwayGroupID f, fl_State f)) (map plain fs)"
    using assms by (rule arg_cong)
  then show ?thesis by (simp add: plain_def comp_def)
qed

text \<open>The sequence of reordered flights holds the same flights as the input, in the group of any of them.\<close>

lemma reordered_names:
  assumes "Generate (input\<lparr> in_Flights := gs \<rparr>) = Some (Inr r)" "\<not> HasConflicts r" "map plain gs = map plain (in_Flights input)"
    and "f \<in> set (in_Flights input)" "RunwayGroupID f = g"
  shows "mset (groupOrder r g) = mset (names_in g (in_Flights input))"
proof -
  note eq = plain_identity [OF assms(3)]
  have "(Callsign f, RunwayGroupID f, fl_State f) \<in> set (map (\<lambda>f. (Callsign f, RunwayGroupID f, fl_State f)) (in_Flights input))"
    using assms(4) by simp
  then obtain f' where "f' \<in> set gs" "RunwayGroupID f' = g" unfolding eq [symmetric] using assms(5) by auto
  with generated_names [OF assms(1,2), of f' g] have "mset (groupOrder r g) = mset (names_in g gs)" by simp
  also have "names_in g gs = names_in g (in_Flights input)" using eq by (rule names_in_identity)
  finally show ?thesis .
qed

lemma active_name:
  assumes "activeFlight input cs = Inr (i, f)" "RunwayGroupID f = g"
  shows "cs \<in> set (names_in g (in_Flights input))" "f \<in> set (in_Flights input)"
  using activeFlight_Inr [OF assms(1)] assms(2) by (auto simp: names_in_def active_in_def)

lemma weak_order_committed: "weak_order (committed_less fs)"
  unfolding weak_order_def committed_less_def go_time by (auto split: option.splits if_splits)

section \<open>Reordering\<close>

lemma ApplyMove_outcome:
  assumes "ApplyMove input c = Some (Inr d)" "move_anchor c = Some a"
  shows "\<exists>xs ys. groupOrder (dec_Candidate d) (mc_RunwayGroupID c) =
      xs @ (if BeforeCallsign c \<noteq> None then [mc_Callsign c, a] else [a, mc_Callsign c]) @ ys"
    and "mset (groupOrder (dec_Candidate d) (mc_RunwayGroupID c)) = mset (names_in (mc_RunwayGroupID c) (in_Flights input))"
    and "\<not> HasConflicts (dec_Candidate d)"
    and "\<exists>fs. dec_Input d = input\<lparr> in_Flights := fs \<rparr> \<and> map unordered fs = map unordered (in_Flights input)"
proof -
  let ?g = "mc_RunwayGroupID c"
  from assms obtain i j f h current from' gs where m:
      "MoveFlightCommand_Validate c (in_Revision input) = Inr ()" "activeFlight input (mc_Callsign c) = Inr (i, f)" "activeFlight input a = Inr (j, h)"
      "RunwayGroupID f = ?g" "RunwayGroupID h = ?g" "move_flights c a (groupOrder current ?g) from' (in_Flights input) = Some gs"
      "finish_move input c a gs = Some (Inr d)"
    by (auto simp: ApplyMove_def move_in_order_def decided cloneInput_def Let_def)
  from m(6) have plain: "map plain gs = map plain (in_Flights input)"
    by (auto simp: move_flights_def Let_def split: option.splits intro: number_flights_plain)
  from m(7) have c: "Generate (input\<lparr> in_Flights := gs \<rparr>) = Some (Inr (dec_Candidate d))" "\<not> HasConflicts (dec_Candidate d)"
      "beside c a (groupOrder (dec_Candidate d) ?g)" "dec_Input d = input\<lparr> in_Flights := reserve_flags (in_Flights input) gs \<rparr>"
    by (auto simp: finish_move_def decided Let_def)
  note act = active_name [OF m(2,4)] active_name [OF m(3,5)]
  show names: "mset (groupOrder (dec_Candidate d) ?g) = mset (names_in ?g (in_Flights input))"
    by (rule reordered_names [OF c(1,2) plain act(2) m(4)])
  then have "mc_Callsign c \<in> set (groupOrder (dec_Candidate d) ?g)" "a \<in> set (groupOrder (dec_Candidate d) ?g)"
    using act(1,3) by (metis mset_eq_setD)+
  from beside_pair [OF c(3) this] m(1) show "\<exists>xs ys. groupOrder (dec_Candidate d) ?g =
      xs @ (if BeforeCallsign c \<noteq> None then [mc_Callsign c, a] else [a, mc_Callsign c]) @ ys"
    by (simp add: MoveFlightCommand_Validate_def del: not_None_eq)
  show "\<exists>fs. dec_Input d = input\<lparr> in_Flights := fs \<rparr> \<and> map unordered fs = map unordered (in_Flights input)"
    using c(4) reserve_flags_unordered [OF plain] by blast
  show "\<not> HasConflicts (dec_Candidate d)" by (rule c(2))
qed

text \<open>
  C13. An accepted move does what was asked and nothing else: in the new sequence of the runway group,
  which holds the same flights and has no conflict, the flight stands directly before (or after) its
  anchor, and no flight has changed but for its manual order.
\<close>

theorem move_places_flight_beside_anchor:
  assumes "ApplyMove input c = Some (Inr d)" "move_anchor c = Some a"
  shows "(\<exists>xs ys. groupOrder (dec_Candidate d) (mc_RunwayGroupID c) =
      xs @ (if BeforeCallsign c \<noteq> None then [mc_Callsign c, a] else [a, mc_Callsign c]) @ ys) \<and>
    mset (groupOrder (dec_Candidate d) (mc_RunwayGroupID c)) = mset (names_in (mc_RunwayGroupID c) (in_Flights input)) \<and>
    \<not> HasConflicts (dec_Candidate d) \<and>
    (\<exists>fs. dec_Input d = input\<lparr> in_Flights := fs \<rparr> \<and> map unordered fs = map unordered (in_Flights input))"
  by (intro conjI ApplyMove_outcome [OF assms])

lemma ApplySwap_outcome:
  assumes "ApplySwap input c = Some (Inr d)" "activeFlight input (sc_Callsign c) = Inr (n, f)"
  shows "\<exists>order i j. i < length order \<and> j < length order \<and> order ! i = sc_Callsign c \<and> order ! j = sc_OtherCallsign c \<and>
      mset order = mset (names_in (RunwayGroupID f) (in_Flights input)) \<and>
      sorted_wrt (\<lambda>x y. \<not> committed_less (in_Flights input) y x) order \<and>
      groupOrder (dec_Candidate d) (RunwayGroupID f) = order[i := sc_OtherCallsign c, j := sc_Callsign c]"
    and "\<not> HasConflicts (dec_Candidate d)"
    and "\<exists>fs. dec_Input d = input\<lparr> in_Flights := fs \<rparr> \<and> map unordered fs = map unordered (in_Flights input)"
proof -
  let ?g = "RunwayGroupID f" and ?fs = "in_Flights input"
  from assms obtain h k current where h: "activeFlight input (sc_OtherCallsign c) = Inr (k, h)" "Generate input = Some (Inr current)"
      "\<not> HasConflicts current" "swap_flights input f h (groupOrder current ?g) = Some (Inr d)"
    by (auto simp: ApplySwap_def decided cloneInput_def Let_def)
  note names = activeFlight_Inr(3) [OF assms(2)] activeFlight_Inr(3) [OF h(1)]
  define order where "order = go_sort (committed_less ?fs) (groupOrder current ?g)"
  from h(4) names obtain i j gs where s: "position_in order (sc_Callsign c) = Some i" "position_in order (sc_OtherCallsign c) = Some j"
      "number_flights (min i j) 0 (order[i := order ! j, j := order ! i]) ?fs = Some gs"
      "finish_swap input ?g (order[i := order ! j, j := order ! i]) gs = Some (Inr d)"
    by (auto simp: swap_flights_def decided Let_def order_def simp del: set_go_sort split: if_splits)
  from s(4) have d: "groupOrder (dec_Candidate d) ?g = order[i := order ! j, j := order ! i]" "\<not> HasConflicts (dec_Candidate d)"
      "dec_Input d = input\<lparr> in_Flights := reserve_flags ?fs gs \<rparr>"
    by (auto simp: finish_swap_def decided Let_def)
  have "mset order = mset (names_in ?g ?fs)"
    unfolding order_def mset_go_sort using generated_names [OF h(2,3) active_name(2) [OF assms(2) refl]] by simp
  moreover have "sorted_wrt (\<lambda>x y. \<not> committed_less ?fs y x) order" unfolding order_def by (rule sorted_go_sort [OF weak_order_committed])
  ultimately show "\<exists>order i j. i < length order \<and> j < length order \<and> order ! i = sc_Callsign c \<and> order ! j = sc_OtherCallsign c \<and>
      mset order = mset (names_in ?g ?fs) \<and> sorted_wrt (\<lambda>x y. \<not> committed_less ?fs y x) order \<and>
      groupOrder (dec_Candidate d) ?g = order[i := sc_OtherCallsign c, j := sc_Callsign c]"
    using position_in_Some [OF s(1)] position_in_Some [OF s(2)] d(1) by (intro exI [of _ order] exI [of _ i] exI [of _ j]) simp
  show "\<not> HasConflicts (dec_Candidate d)" by (rule d(2))
  show "\<exists>fs. dec_Input d = input\<lparr> in_Flights := fs \<rparr> \<and> map unordered fs = map unordered ?fs"
    using d(3) reserve_flags_unordered [OF number_flights_plain [OF s(3)]] by blast
qed

text \<open>
  C16. An accepted exchange swaps the two flights in the displayed order of their runway group and
  keeps every other flight in its place: the new sequence, which has no conflict, is the order of the
  committed slots with the two exchanged, and no flight has changed but for its manual order.
\<close>

theorem swap_exchanges_displayed_positions:
  assumes "ApplySwap input c = Some (Inr d)" "activeFlight input (sc_Callsign c) = Inr (n, f)"
  shows "(\<exists>order i j. i < length order \<and> j < length order \<and> order ! i = sc_Callsign c \<and> order ! j = sc_OtherCallsign c \<and>
      mset order = mset (names_in (RunwayGroupID f) (in_Flights input)) \<and>
      sorted_wrt (\<lambda>x y. \<not> committed_less (in_Flights input) y x) order \<and>
      groupOrder (dec_Candidate d) (RunwayGroupID f) = order[i := sc_OtherCallsign c, j := sc_Callsign c]) \<and>
    \<not> HasConflicts (dec_Candidate d) \<and>
    (\<exists>fs. dec_Input d = input\<lparr> in_Flights := fs \<rparr> \<and> map unordered fs = map unordered (in_Flights input))"
  by (intro conjI ApplySwap_outcome [OF assms])

section \<open>Freezing and release\<close>

lemma prepare_flights_checked:
  "prepare_flights seen ps raws = Inr fs \<Longrightarrow> raw \<in> set raws \<Longrightarrow> check_flight raw = Inr ()"
proof (induction seen ps raws arbitrary: fs rule: prepare_flights.induct)
  case (2 seen ps r rest)
  from "2.prems"(1) obtain p gs where p: "map_of ps (RunwayGroupID r) = Some p" "check_flight r = Inr ()" "Callsign r \<notin> set seen"
      "prepare_flights (Callsign r # seen) ps rest = Inr gs" "trim_space (Callsign r) \<noteq> ''''"
    by (auto split: if_splits option.splits sum.splits)
  show ?case
  proof (cases "raw = r")
    case True
    with p(2) show ?thesis by simp
  next
    case False
    with "2.prems"(2) have "raw \<in> set rest" by simp
    with "2.IH" [OF p(5,3,1,2,4)] show ?thesis by blast
  qed
qed simp

lemma prepared_unfrozen:
  assumes "prepareInput input = Inr (ps, fs)" "f \<in> set (in_Flights input)" "fl_FreezeReason f = FreezeNone"
  shows "FrozenAt f = None" "FrozenOperationalTETA f = None" "CapturedSlot f = None"
proof -
  from assms(1) obtain qs where "prepare_flights [] qs (in_Flights input) = Inr fs"
    by (auto simp: prepareInput_def prepareFlights_def split: sum.splits if_splits)
  from prepare_flights_checked [OF this assms(2)] assms(3)
  show "FrozenAt f = None" "FrozenOperationalTETA f = None" "CapturedSlot f = None" by (auto simp: check_flight_def Let_def)
qed

lemma index_where_cong:
  "length xs = length ys \<Longrightarrow> (\<And>i. i < length xs \<Longrightarrow> P (xs ! i) = Q (ys ! i)) \<Longrightarrow> index_where P xs = index_where Q ys"
proof (induction xs ys rule: list_induct2)
  case (Cons x xs y ys)
  from Cons.prems [of 0] have "P x = Q y" by simp
  moreover have "index_where P xs = index_where Q ys" using Cons.prems [of "Suc _"] by (intro Cons.IH) auto
  ultimately show ?case by simp
qed simp

lemma flightIndex_update: "Callsign (g (fs ! i)) = Callsign (fs ! i) \<Longrightarrow> flightIndex (fs[i := g (fs ! i)]) cs = flightIndex fs cs"
  unfolding flightIndex_def by (rule index_where_cong, simp) (metis nth_list_update_eq nth_list_update_neq length_list_update)

text \<open>
  C20. A manual freeze is undone without trace: releasing the flight again gives exactly the decision for
  the input before the freeze, whatever times the two commands carry.
\<close>

theorem release_undoes_manual_freeze:
  assumes "prepareInput input = Inr (ps, fs)" "ApplyManualFreeze input c = Some (Inr d)"
    and "FlightActionCommand_Validate c' (in_Revision input) = Inr ()" "fa_Callsign c' = fa_Callsign c"
  shows "ReleaseManualFreeze (dec_Input d) c' = decide_with input"
proof -
  from assms(2) obtain i f where f: "activeFlight input (fa_Callsign c) = Inr (i, f)" "fl_FreezeReason f = FreezeNone"
      "dec_Input d = on_flight input i (manually_frozen (fa_At c))"
    by (auto simp: ApplyManualFreeze_def decide_with_def decided cloneInput_def Let_def)
  note i = activeFlight_Inr [OF f(1)]
  then have "f \<in> set (in_Flights input)" by simp
  note none = prepared_unfrozen [OF assms(1) this f(2)]
  let ?h = "manually_frozen (fa_At c) f"
  have input': "in_Flights (dec_Input d) = (in_Flights input)[i := ?h]" "in_Revision (dec_Input d) = in_Revision input"
    by (simp_all add: f(3) on_flight_def i(2))
  have "activeFlight (dec_Input d) (fa_Callsign c) = Inr (i, ?h)"
  proof -
    have "flightIndex ((in_Flights input)[i := ?h]) (fa_Callsign c) = flightIndex (in_Flights input) (fa_Callsign c)"
      using flightIndex_update [of "manually_frozen (fa_At c)" "in_Flights input" i] by (simp add: manually_frozen_def i(2))
    moreover have "flightIndex (in_Flights input) (fa_Callsign c) = Some i"
      using f(1) by (auto simp: activeFlight_def Let_def split: option.splits if_splits)
    ultimately show ?thesis using i(1,4,5) by (simp add: activeFlight_def input' manually_frozen_def)
  qed
  moreover have "unfrozen ?h = f" using f(2) none by (simp add: unfrozen_def manually_frozen_def)
  then have "on_flight (dec_Input d) i unfrozen = input"
    using i(1) by (cases input) (simp add: on_flight_def input' f(3) i(2))
  ultimately show ?thesis using assms(3,4)
    by (simp add: ReleaseManualFreeze_def cloneInput_def passing_def require_def manually_frozen_def input')
qed

section \<open>Rates\<close>

lemma restore_released: "restore_bounds fs (map (release_for_rate c) fs) = fs"
  by (rule nth_equalityI) (simp_all add: restore_bounds_def release_for_rate_def)

lemma restore_same: "restore_bounds fs fs = fs"
  by (rule nth_equalityI) (simp_all add: restore_bounds_def)

text \<open>The input after a change of the rate: only the rates of its runway group are new.\<close>

lemma ApplyRate_Inr:
  assumes "ApplyRate input c = Some (Inr d)"
  obtains i where "i < length (in_Policies input)" "pol_RunwayGroupID (in_Policies input ! i) = rc_RunwayGroupID c"
    "dec_Input d = input\<lparr> in_Policies := (in_Policies input)[i := (in_Policies input ! i)\<lparr> Rates :=
       go_sort (\<lambda>a b. before (EffectiveAt a) (EffectiveAt b)) (fst (set_rate c (Rates (in_Policies input ! i)))) \<rparr>] \<rparr>"
    "rc_ArrivalsPerHour c \<noteq> 0" "valid_utc (rc_EffectiveAt c)"
proof -
  let ?less = "\<lambda>a b. before (EffectiveAt a) (EffectiveAt b)"
  from assms obtain i where i: "index_where (\<lambda>p. pol_RunwayGroupID p = rc_RunwayGroupID c) (in_Policies input) = Some i"
      "rc_ArrivalsPerHour c \<noteq> 0" "valid_utc (rc_EffectiveAt c)"
    by (auto simp: ApplyRate_def SetRateCommand_Validate_def passing_Inr case_option_Inr(2) cloneInput_def Let_def)
  obtain rs changed where r: "set_rate c (Rates (in_Policies input ! i)) = (rs, changed)" by fastforce
  let ?p = "(in_Policies input)[i := (in_Policies input ! i)\<lparr> Rates := go_sort ?less rs \<rparr>]"
  from assms have "dec_Input d = input\<lparr> in_Policies := ?p, in_Flights := in_Flights input \<rparr>"
    by (cases changed) (auto simp: ApplyRate_def passing_Inr with_sequence_Inr i(1) r cloneInput_def Let_def restore_released restore_same)
  then have "dec_Input d = input\<lparr> in_Policies := ?p \<rparr>" by (cases input) simp
  with index_where_Some [OF i(1)] i(2,3) r show ?thesis by (intro that [of i]) simp_all
qed

abbreviation rate_ns :: "RatePoint \<Rightarrow> int" where "rate_ns r \<equiv> ns (EffectiveAt r)"

abbreviation sorted_rates :: "RatePoint list \<Rightarrow> RatePoint list" where
  "sorted_rates rs \<equiv> go_sort (\<lambda>a b. before (EffectiveAt a) (EffectiveAt b)) rs"

lemma prepare_each_names: "prepare_each families raws acc = Inr ps \<Longrightarrow> map fst ps = map fst acc @ map pol_RunwayGroupID raws"
  by (induction families raws acc rule: prepare_each.induct) (auto simp: Let_def split: if_splits sum.splits)

lemma prepareInput_names: "prepareInput input = Inr (ps, fs) \<Longrightarrow> map fst ps = map pol_RunwayGroupID (in_Policies input)"
  by (auto simp: prepareInput_def preparePoliciesWithSTARFamilies_def comp_def dest!: prepare_each_names split: sum.splits if_splits)

lemma prepare_each_rates:
  "prepare_each families raws acc = Inr ps \<Longrightarrow> gp \<in> set ps \<Longrightarrow>
     gp \<in> set acc \<or> (\<exists>raw \<in> set raws. pol_RunwayGroupID raw = fst gp \<and> rates (snd gp) = sorted_rates (Rates raw))"
proof (induction families raws acc rule: prepare_each.induct)
  case (2 families raw rest acc)
  from "2.prems"(1) obtain p where p: "map_of acc (pol_RunwayGroupID raw) = None" "preparePolicy families raw = Inr p"
      "prepare_each families rest (acc @ [(pol_RunwayGroupID raw, p)]) = Inr ps" "trim_space (pol_RunwayGroupID raw) \<noteq> ''''"
    by (auto simp: Let_def split: if_splits sum.splits)
  have "rates p = sorted_rates (Rates raw)"
    using p(2) by (auto simp: preparePolicy_def Let_def dest!: add_rules_fields split: sum.splits)
  moreover have "gp \<in> set (acc @ [(pol_RunwayGroupID raw, p)]) \<or> (\<exists>raw \<in> set rest. pol_RunwayGroupID raw = fst gp \<and> rates (snd gp) = sorted_rates (Rates raw))"
    using 2 p by (auto simp: Let_def)
  ultimately show ?case by auto
qed simp

lemma prepared_rates:
  assumes "prepareInput input = Inr (ps, fs)" "(g, p) \<in> set ps"
  shows "\<exists>raw \<in> set (in_Policies input). pol_RunwayGroupID raw = g \<and> rates p = sorted_rates (Rates raw)"
proof -
  from assms obtain families qs q where q: "prepare_each families (in_Policies input) [] = Inr qs" "(g, q) \<in> set qs" "p = snd (add_demand fs (g, q))"
    by (auto simp: prepareInput_def preparePoliciesWithSTARFamilies_def split: sum.splits if_splits) (metis add_demand_fields(1) fst_conv prod.collapse snd_conv)
  from prepare_each_rates [OF q(1,2)] show ?thesis by (auto simp: q(3))
qed

lemma rateAt_latest:
  assumes "prepared_ok p" "r \<in> set (rates p)" "rate_ns r \<le> ns t" "\<And>x. x \<in> set (rates p) \<Longrightarrow> rate_ns x \<le> ns t \<Longrightarrow> rate_ns x \<le> rate_ns r"
  shows "rateAt p t = ArrivalsPerHour r"
proof -
  have srt: "sorted_wrt rate_before (rates p)" using assms(1) by (simp add: prepared_ok_def)
  note idx = rate_index_sorted [OF srt, where t = t]
  from assms(2) obtain k where k: "k < length (rates p)" "rates p ! k = r" by (auto simp: in_set_conv_nth)
  have "k < rate_index (rates p) t"
  proof (rule ccontr)
    assume "\<not> k < rate_index (rates p) t"
    with idx(3) [of k] k assms(3) show False by simp
  qed
  moreover have "\<not> Suc k < rate_index (rates p) t"
  proof
    assume s: "Suc k < rate_index (rates p) t"
    with idx(1) have l: "Suc k < length (rates p)" by (meson less_le_trans)
    with assms(4) [of "rates p ! Suc k"] idx(2) [of "Suc k"] s have "rate_ns (rates p ! Suc k) \<le> rate_ns r" by simp
    with sorted_wrt_nth_less [OF srt lessI l] k(2) show False by (simp add: rate_before_def)
  qed
  ultimately have "rate_index (rates p) t = Suc k" by simp
  with k show ?thesis by (simp add: rateAt_def Let_def)
qed

lemma rateAt_before: "prepared_ok p \<Longrightarrow> (\<And>x. x \<in> set (rates p) \<Longrightarrow> ns t < rate_ns x) \<Longrightarrow> rateAt p t = 0"
proof -
  assume ok: "prepared_ok p" and later: "\<And>x. x \<in> set (rates p) \<Longrightarrow> ns t < rate_ns x"
  have srt: "sorted_wrt rate_before (rates p)" using ok by (simp add: prepared_ok_def)
  have "rate_index (rates p) t = 0"
  proof (rule ccontr)
    assume "rate_index (rates p) t \<noteq> 0"
    with rate_index_sorted(1) [OF srt, of t] rate_index_sorted(2) [OF srt, of 0 t] later [of "rates p ! 0"] show False
      by (metis bot_nat_0.not_eq_extremum less_le_trans linorder_not_less nth_mem)
  qed
  then show ?thesis by (simp add: rateAt_def)
qed

text \<open>The rates in force at an instant are decided by the points up to it.\<close>

lemma rateAt_cong:
  assumes "prepared_ok p" "prepared_ok q" "\<And>x. rate_ns x \<le> ns t \<Longrightarrow> s \<le> rate_ns x \<Longrightarrow> x \<in> set (rates p) \<longleftrightarrow> x \<in> set (rates q)"
    and "\<exists>x \<in> set (rates p). s \<le> rate_ns x \<and> rate_ns x \<le> ns t"
  shows "rateAt p t = rateAt q t"
proof -
  let ?S = "{x \<in> set (rates p). rate_ns x \<le> ns t}"
  have fin: "finite (rate_ns ` ?S)" by simp
  obtain y where y: "y \<in> set (rates p)" "s \<le> rate_ns y" "rate_ns y \<le> ns t" using assms(4) by blast
  then have ne: "rate_ns ` ?S \<noteq> {}" by blast
  from Max_in [OF fin ne] obtain r where r: "r \<in> set (rates p)" "rate_ns r \<le> ns t" "rate_ns r = Max (rate_ns ` ?S)" by auto
  have top: "rate_ns x \<le> rate_ns r" if "x \<in> set (rates p)" "rate_ns x \<le> ns t" for x
    unfolding r(3) using that by (intro Max_ge fin) auto
  have s: "s \<le> rate_ns r" using top [OF y(1,3)] y(2) by simp
  have "rateAt p t = ArrivalsPerHour r" by (rule rateAt_latest [OF assms(1) r(1,2) top])
  moreover have "rateAt q t = ArrivalsPerHour r"
  proof (rule rateAt_latest [OF assms(2)])
    show "r \<in> set (rates q)" using assms(3) [OF r(2) s] r(1) by simp
    show "rate_ns r \<le> ns t" by (rule r(2))
    fix x assume x: "x \<in> set (rates q)" "rate_ns x \<le> ns t"
    show "rate_ns x \<le> rate_ns r"
    proof (cases "s \<le> rate_ns x")
      case True
      with assms(3) [OF x(2)] x top show ?thesis by blast
    qed (use s in simp)
  qed
  ultimately show ?thesis by simp
qed

lemma set_rate_points:
  assumes "distinct (map rate_ns rs)"
  shows "rate_ns x \<noteq> ns (rc_EffectiveAt c) \<Longrightarrow> x \<in> set (fst (set_rate c rs)) \<longleftrightarrow> x \<in> set rs"
    and "\<exists>r \<in> set (fst (set_rate c rs)). rate_ns r = ns (rc_EffectiveAt c) \<and> ArrivalsPerHour r = rc_ArrivalsPerHour c"
proof -
  let ?P = "\<lambda>r. t_equal (EffectiveAt r) (rc_EffectiveAt c)"
  show "\<exists>r \<in> set (fst (set_rate c rs)). rate_ns r = ns (rc_EffectiveAt c) \<and> ArrivalsPerHour r = rc_ArrivalsPerHour c"
  proof (cases "index_where ?P rs")
    case (Some i)
    with index_where_Some [OF Some] show ?thesis
      by (intro bexI [of _ "(rs ! i)\<lparr> ArrivalsPerHour := rc_ArrivalsPerHour c \<rparr>"]) (auto simp: set_rate_def t_equal_def set_update_memI)
  qed (simp add: set_rate_def del: index_where_None)
  assume x: "rate_ns x \<noteq> ns (rc_EffectiveAt c)"
  show "x \<in> set (fst (set_rate c rs)) \<longleftrightarrow> x \<in> set rs"
  proof (cases "index_where ?P rs")
    case None
    then have "fst (set_rate c rs) = rs @ [\<lparr> EffectiveAt = rc_EffectiveAt c, ArrivalsPerHour = rc_ArrivalsPerHour c \<rparr>]"
      by (simp add: set_rate_def del: index_where_None)
    with x show ?thesis by auto
  next
    case (Some i)
    note i = index_where_Some [OF Some]
    have "x \<in> set (rs[i := y]) \<longleftrightarrow> x \<in> set rs" if "x \<noteq> y" "x \<noteq> rs ! i" for y
    proof
      assume "x \<in> set (rs[i := y])"
      then show "x \<in> set rs" using set_update_subset_insert [of rs i y] that(1) by blast
    next
      assume "x \<in> set rs"
      then obtain k where "k < length rs" "rs ! k = x" by (auto simp: in_set_conv_nth)
      with that(2) show "x \<in> set (rs[i := y])" by (metis length_list_update nth_list_update_neq nth_mem)
    qed
    moreover have "x \<noteq> (rs ! i)\<lparr> ArrivalsPerHour := rc_ArrivalsPerHour c \<rparr>" "x \<noteq> rs ! i" using i x by (auto simp: t_equal_def)
    moreover have "fst (set_rate c rs) = rs[i := (rs ! i)\<lparr> ArrivalsPerHour := rc_ArrivalsPerHour c \<rparr>]" by (simp add: set_rate_def Some)
    ultimately show ?thesis by simp
  qed
qed

lemma rateAt_replaced:
  assumes ok: "prepared_ok p" "prepared_ok p'"
    and points: "\<And>x. rate_ns x \<noteq> ns (rc_EffectiveAt c) \<Longrightarrow> x \<in> set (rates p') \<longleftrightarrow> x \<in> set (rates p)"
      "\<exists>x \<in> set (rates p'). rate_ns x = ns (rc_EffectiveAt c) \<and> ArrivalsPerHour x = rc_ArrivalsPerHour c"
  shows "rateAt p' t =
      (if ns (rc_EffectiveAt c) \<le> ns t \<and> (\<forall>r \<in> set (rates p). ns (rc_EffectiveAt c) < rate_ns r \<longrightarrow> ns t < rate_ns r)
       then rc_ArrivalsPerHour c else rateAt p t)"
proof -
  let ?E = "ns (rc_EffectiveAt c)"
  obtain new where new: "new \<in> set (rates p')" "rate_ns new = ?E" "ArrivalsPerHour new = rc_ArrivalsPerHour c" using points(2) by blast
  show ?thesis
  proof (cases "?E \<le> ns t \<and> (\<forall>r \<in> set (rates p). ?E < rate_ns r \<longrightarrow> ns t < rate_ns r)")
    case inforce: True
    have "rateAt p' t = ArrivalsPerHour new"
    proof (rule rateAt_latest [OF ok(2) new(1)])
      show "rate_ns new \<le> ns t" using inforce new(2) by simp
      fix x assume "x \<in> set (rates p')" "rate_ns x \<le> ns t"
      with inforce points(1) [of x] new(2) show "rate_ns x \<le> rate_ns new" by fastforce
    qed
    with inforce new(3) show ?thesis by simp
  next
    case other: False
    have "rateAt p' t = rateAt p t"
    proof (cases "ns t < ?E")
      case early: True
      show ?thesis
      proof (cases "\<exists>x \<in> set (rates p'). rate_ns x \<le> ns t")
        case True
        then obtain s where "\<exists>x \<in> set (rates p'). s \<le> rate_ns x \<and> rate_ns x \<le> ns t" by blast
        then show ?thesis using early points(1) by (intro rateAt_cong [OF ok(2,1)]) auto
      next
        case False
        with points(1) early have "\<And>x. x \<in> set (rates p') \<Longrightarrow> ns t < rate_ns x" "\<And>x. x \<in> set (rates p) \<Longrightarrow> ns t < rate_ns x"
          by (force simp: not_le)+
        then show ?thesis using rateAt_before ok by metis
      qed
    next
      case False
      with other obtain r where "r \<in> set (rates p)" "?E < rate_ns r" "rate_ns r \<le> ns t" by auto
      with points(1) show ?thesis by (intro rateAt_cong [OF ok(2,1), where s = "?E + 1"]) force+
    qed
    with other show ?thesis by auto
  qed
qed

lemma ApplyRate_outcome:
  assumes "ApplyRate input c = Some (Inr d)" "prepareInput input = Inr (ps, fs)" "prepareInput (dec_Input d) = Inr (ps', fs')"
    and "(g, p) \<in> set ps" "(g, p') \<in> set ps'"
  shows "rateAt p' t =
      (if g = rc_RunwayGroupID c \<and> ns (rc_EffectiveAt c) \<le> ns t \<and> (\<forall>r \<in> set (rates p). ns (rc_EffectiveAt c) < rate_ns r \<longrightarrow> ns t < rate_ns r)
       then rc_ArrivalsPerHour c else rateAt p t)"
    and "in_Flights (dec_Input d) = in_Flights input"
proof -
  from assms(1) obtain i where i: "i < length (in_Policies input)" "pol_RunwayGroupID (in_Policies input ! i) = rc_RunwayGroupID c"
      "dec_Input d = input\<lparr> in_Policies := (in_Policies input)[i := (in_Policies input ! i)\<lparr> Rates := sorted_rates (fst (set_rate c (Rates (in_Policies input ! i)))) \<rparr>] \<rparr>"
    by (rule ApplyRate_Inr)
  then show "in_Flights (dec_Input d) = in_Flights input" by simp
  have ok: "prepared_ok p" "prepared_ok p'" using prepareInput_ok(2) [OF assms(2,4)] prepareInput_ok(2) [OF assms(3,5)] by (simp_all add: policy_ok_def)
  have names: "distinct (map pol_RunwayGroupID (in_Policies input))" using prepareInput_ok(1) [OF assms(2)] by (simp add: prepareInput_names [OF assms(2)])
  from prepared_rates [OF assms(2,4)] obtain j where j: "j < length (in_Policies input)" "pol_RunwayGroupID (in_Policies input ! j) = g"
      "rates p = sorted_rates (Rates (in_Policies input ! j))" by (auto simp: in_set_conv_nth)
  from prepared_rates [OF assms(3,5)] obtain k where k: "k < length (in_Policies input)" "pol_RunwayGroupID (in_Policies (dec_Input d) ! k) = g"
      "rates p' = sorted_rates (Rates (in_Policies (dec_Input d) ! k))" by (auto simp: in_set_conv_nth i(3))
  have "pol_RunwayGroupID (in_Policies input ! k) = g" using k(1,2) i(1) by (cases "k = i") (auto simp: i(3))
  then have kj: "k = j" using names j(1,2) k(1) by (metis length_map nth_eq_iff_index_eq nth_map)
  show "rateAt p' t = (if g = rc_RunwayGroupID c \<and> ns (rc_EffectiveAt c) \<le> ns t \<and>
      (\<forall>r \<in> set (rates p). ns (rc_EffectiveAt c) < rate_ns r \<longrightarrow> ns t < rate_ns r) then rc_ArrivalsPerHour c else rateAt p t)"
  proof (cases "g = rc_RunwayGroupID c")
    case False
    with i(2) j(2) have "j \<noteq> i" by auto
    with j(3) k(3) have "rates p' = rates p" by (simp add: kj i(3))
    with False show ?thesis by (simp add: rateAt_def Let_def)
  next
    case True
    with i(1,2) j(1,2) names have ji: "j = i" by (metis length_map nth_eq_iff_index_eq nth_map)
    have set': "set (rates p') = set (fst (set_rate c (Rates (in_Policies input ! i))))" using k(3) i(1) by (simp add: kj ji i(3))
    have set: "set (rates p) = set (Rates (in_Policies input ! i))" using j(3) by (simp add: ji)
    have "sorted_wrt (<) (map rate_ns (rates p))" using ok(1) by (simp add: prepared_ok_def rate_before_def [abs_def] sorted_wrt_map)
    then have "distinct (map rate_ns (rates p))" by (simp add: strict_sorted_iff)
    then have "distinct (map rate_ns (Rates (in_Policies input ! i)))"
      using j(3) by (metis distinct_map distinct_go_sort set_go_sort ji)
    note points = set_rate_points(1) [OF this, where c = c, folded set set'] set_rate_points(2) [OF this, where c = c, folded set set']
    from rateAt_replaced [OF ok points, of t] True show ?thesis by simp
  qed
qed

text \<open>
  A new rate is in force from its time until the next configured change and at no other time;
  the rates of other runway groups and all flights stay as they are.
\<close>

theorem rate_takes_effect_from_its_time:
  assumes "ApplyRate input c = Some (Inr d)" "prepareInput input = Inr (ps, fs)" "prepareInput (dec_Input d) = Inr (ps', fs')"
    and "(g, p) \<in> set ps" "(g, p') \<in> set ps'"
  shows "rateAt p' t =
      (if g = rc_RunwayGroupID c \<and> ns (rc_EffectiveAt c) \<le> ns t \<and> (\<forall>r \<in> set (rates p). ns (rc_EffectiveAt c) < rate_ns r \<longrightarrow> ns t < rate_ns r)
       then rc_ArrivalsPerHour c else rateAt p t) \<and>
    in_Flights (dec_Input d) = in_Flights input"
  by (intro conjI ApplyRate_outcome [OF assms])

section \<open>Sample commands\<close>

definition sample_traffic :: "bool \<Rightarrow> Input" where
  "sample_traffic frozen = \<lparr> in_Revision = 1, in_Policies = [sample_policy False], in_STARFamilyPolicies = [],
     in_Flights = [(sample_flight ''SAS1'' (3 * hour) ''M'')\<lparr> SelectedSTARFamily := ''ROSBI'', CurrentSlot := Some (sample_slot (3 * hour) 1) \<rparr>,
       (sample_flight ''SAS2'' (3 * hour) ''M'')\<lparr> SelectedSTARFamily := ''ROSBI'', CurrentSlot := Some (sample_slot (3 * hour + 4 * minute) 2) \<rparr>,
       (sample_flight ''SAS3'' (3 * hour) ''M'')\<lparr> SelectedSTARFamily := ''TUDLO'', CurrentSlot := Some (sample_slot (3 * hour + 8 * minute) 3),
          fl_State := (if frozen then StateGoAround else StateUnstable) \<rparr>] \<rparr>"

definition sample_metadata :: CommandMetadata where "sample_metadata = \<lparr> CommandID = ''c1'', ExpectedRevision = 1 \<rparr>"

definition sample_move :: MoveFlightCommand where
  "sample_move = \<lparr> mc_Metadata = sample_metadata, mc_Callsign = ''SAS3'', mc_RunwayGroupID = ''22L'', BeforeCallsign = Some ''SAS2'', AfterCallsign = None \<rparr>"

definition sample_swap :: SwapFlightsCommand where
  "sample_swap = \<lparr> sc_Metadata = sample_metadata, sc_Callsign = ''SAS1'', sc_OtherCallsign = ''SAS2'' \<rparr>"

definition sample_action :: "string \<Rightarrow> int \<Rightarrow> FlightActionCommand" where
  "sample_action cs t = \<lparr> fa_Metadata = sample_metadata, fa_Callsign = cs, fa_At = Time t UTC \<rparr>"

lemma sample_move_ok: "\<exists>d. ApplyMove (sample_traffic False) sample_move = Some (Inr d) \<and>
    groupOrder (dec_Candidate d) ''22L'' = [''SAS1'', ''SAS3'', ''SAS2'']"
proof -
  have "case ApplyMove (sample_traffic False) sample_move of Some (Inr d) \<Rightarrow> groupOrder (dec_Candidate d) ''22L'' = [''SAS1'', ''SAS3'', ''SAS2''] | _ \<Rightarrow> False"
    by code_simp
  then show ?thesis by (auto split: option.splits sum.splits)
qed

theorem move_places_flight_beside_anchor_witness:
  "\<exists>d xs ys. ApplyMove (sample_traffic False) sample_move = Some (Inr d) \<and> groupOrder (dec_Candidate d) ''22L'' = xs @ [''SAS3'', ''SAS2''] @ ys"
proof -
  obtain d where d: "ApplyMove (sample_traffic False) sample_move = Some (Inr d)" using sample_move_ok by blast
  from move_places_flight_beside_anchor [OF d, of "''SAS2''"] d show ?thesis by (auto simp: sample_move_def move_anchor_def)
qed

lemma sample_swap_ok: "\<exists>d. ApplySwap (sample_traffic False) sample_swap = Some (Inr d)"
proof -
  have "case ApplySwap (sample_traffic False) sample_swap of Some (Inr d) \<Rightarrow> True | _ \<Rightarrow> False" by code_simp
  then show ?thesis by (auto split: option.splits sum.splits)
qed

lemma sample_active:
  "\<exists>f. activeFlight (sample_traffic b) ''SAS1'' = Inr (0, f) \<and> RunwayGroupID f = ''22L''"
  "\<exists>f. activeFlight (sample_traffic True) ''SAS3'' = Inr (2, f) \<and> RunwayGroupID f = ''22L''"
  by (simp_all add: activeFlight_def flightIndex_def sample_traffic_def sample_flight_def)

theorem swap_exchanges_displayed_positions_witness:
  "\<exists>d order i j. ApplySwap (sample_traffic False) sample_swap = Some (Inr d) \<and> order ! i = ''SAS1'' \<and> order ! j = ''SAS2'' \<and>
     groupOrder (dec_Candidate d) ''22L'' = order[i := ''SAS2'', j := ''SAS1'']"
proof -
  obtain d where d: "ApplySwap (sample_traffic False) sample_swap = Some (Inr d)" using sample_swap_ok by blast
  obtain f where f: "activeFlight (sample_traffic False) (sc_Callsign sample_swap) = Inr (0, f)" "RunwayGroupID f = ''22L''"
    using sample_active(1) by (auto simp: sample_swap_def)
  from swap_exchanges_displayed_positions [OF d f(1)] d f(2) show ?thesis by (auto simp: sample_swap_def)
qed

definition sample_traffic_ready :: "(string \<times> preparedPolicy) list \<times> preparedFlight list" where
  "sample_traffic_ready = projr (prepareInput (sample_traffic True))"

lemma sample_traffic_prepared:
  "prepareInput (sample_traffic True) = Inr (fst sample_traffic_ready, snd sample_traffic_ready)"
  "(''22L'', snd (fst sample_traffic_ready ! 0)) \<in> set (fst sample_traffic_ready)"
  by code_simp+

theorem release_undoes_manual_freeze_witness:
  "\<exists>d. ApplyManualFreeze (sample_traffic True) (sample_action ''SAS1'' hour) = Some (Inr d) \<and>
     ReleaseManualFreeze (dec_Input d) (sample_action ''SAS1'' (2 * hour)) = decide_with (sample_traffic True)"
proof -
  have "case ApplyManualFreeze (sample_traffic True) (sample_action ''SAS1'' hour) of Some (Inr d) \<Rightarrow> True | _ \<Rightarrow> False" by code_simp
  then obtain d where d: "ApplyManualFreeze (sample_traffic True) (sample_action ''SAS1'' hour) = Some (Inr d)"
    by (auto split: option.splits sum.splits)
  have "FlightActionCommand_Validate (sample_action ''SAS1'' (2 * hour)) (in_Revision (sample_traffic True)) = Inr ()" by code_simp
  from release_undoes_manual_freeze [OF sample_traffic_prepared(1) d this] d show ?thesis by (simp add: sample_action_def)
qed

definition sample_rate :: SetRateCommand where
  "sample_rate = \<lparr> rc_Metadata = sample_metadata, rc_RunwayGroupID = ''22L'', rc_ArrivalsPerHour = 20, rc_EffectiveAt = Time (4 * hour) UTC \<rparr>"

theorem rate_takes_effect_from_its_time_witness:
  "\<exists>d ps' fs' p'. ApplyRate (sample_traffic True) sample_rate = Some (Inr d) \<and> prepareInput (dec_Input d) = Inr (ps', fs') \<and>
     (''22L'', p') \<in> set ps' \<and> rateAt p' (Time (5 * hour) UTC) = 20"
proof -
  let ?p = "snd (fst sample_traffic_ready ! 0)"
  have "case ApplyRate (sample_traffic True) sample_rate of
      Some (Inr d) \<Rightarrow> (case prepareInput (dec_Input d) of Inr ([(g, p')], fs') \<Rightarrow> g = ''22L'' | _ \<Rightarrow> False) | _ \<Rightarrow> False" by code_simp
  then obtain d p' fs' where d: "ApplyRate (sample_traffic True) sample_rate = Some (Inr d)" "prepareInput (dec_Input d) = Inr ([(''22L'', p')], fs')"
    by (auto split: option.splits sum.splits list.splits)
  have "list_all (\<lambda>r. rate_ns r = hour) (rates ?p)" by code_simp
  then have one: "\<forall>r \<in> set (rates ?p). rate_ns r = hour" by (simp only: list_all_iff)
  from rate_takes_effect_from_its_time [OF d(1) sample_traffic_prepared(1) d(2) sample_traffic_prepared(2), of p' "Time (5 * hour) UTC"]
  have "rateAt p' (Time (5 * hour) UTC) = 20" using one by (simp add: sample_rate_def)
  with d show ?thesis by auto
qed

end
