(* ===== verification/Sequence_Go_Around.thy ===== *)
theory Sequence_Go_Around
  imports Sequence_Commands
begin

text \<open>
  The go-around of \<^verbatim>\<open>internal/aman/sequence/policy.go\<close>: the aircraft is given a later slot and the
  flights behind it give way one after the other. The theory also states what all commands on a
  sequence leave alone, and two defects of the go-around.
\<close>

section \<open>Go-arounds\<close>

fun reason_text :: "CandidateReason \<Rightarrow> string" where
  "reason_text ReasonRateWTC = ''rate_wtc''"
| "reason_text ReasonFreezeSuperstable = ''freeze_superstable''"
| "reason_text ReasonFreezeTMA = ''freeze_tma''"
| "reason_text ReasonFreezeManual = ''freeze_manual''"
| "reason_text ReasonStable = ''stable''"
| "reason_text ReasonQueuePromotion = ''queue_promotion''"
| "reason_text ReasonGoAround = ''go_around''"
| "reason_text ReasonGoAroundCascade = ''go_around_cascade''"

definition protectedReason :: "preparedFlight \<Rightarrow> CandidateReason" where
  "protectedReason f =
     (if fl_FreezeReason f = FreezeSuperstable then ReasonFreezeSuperstable
      else if fl_FreezeReason f = FreezeTMA then ReasonFreezeTMA
      else if ProtectCurrentSlot f then ReasonStable
      else if fl_FreezeReason f = FreezeManual then ReasonFreezeManual else ReasonRateWTC)"

definition committed_entry :: "preparedFlight \<Rightarrow> command_error + allocatedEntry" where
  "committed_entry f =
     (case CurrentSlot f of
        None \<Rightarrow> Inl (RefusedFlight ErrorInvalidTransition ''sequence policy: go-around cascade requires current slot for flight'' (Callsign f))
      | Some current \<Rightarrow>
          (if fl_FreezeReason f = FreezeNone
           then Inr \<lparr> ent_flight = f, ent_time = slot_Time current, ent_reason = protectedReason f \<rparr>
           else case CapturedSlot f of
             None \<Rightarrow> Inl (RefusedFlight ErrorInvalidTransition ''sequence policy: frozen flight has no captured slot'' (Callsign f))
           | Some captured \<Rightarrow> Inr \<lparr> ent_flight = f, ent_time = slot_Time captured, ent_reason = protectedReason f \<rparr>))"

fun committed_entries :: "preparedFlight list \<Rightarrow> command_error + allocatedEntry list" where
  "committed_entries [] = Inr []"
| "committed_entries (f # fs) =
     (case committed_entry f of Inl e \<Rightarrow> Inl e
      | Inr x \<Rightarrow> (case committed_entries fs of Inl e \<Rightarrow> Inl e | Inr xs \<Rightarrow> Inr (x # xs)))"

text \<open>
  The first grid slot that keeps the required gap after the flight before it. The gap depends on the
  slot only through its rate, so it is bounded and the search ends.
\<close>

lemma finite_gaps: "finite (range (requiredGap p a b))"
proof (rule finite_range_via [where g = "rateAt p"])
  have "range (rateAt p) \<subseteq> insert 0 (ArrivalsPerHour ` set (rates p))"
  proof
    fix r assume "r \<in> range (rateAt p)"
    then obtain t where r: "r = rateAt p t" by blast
    have "rate_index (rates p) t \<le> length (rates p)" unfolding rate_index_def by (rule go_search_le)
    then show "r \<in> insert 0 (ArrivalsPerHour ` set (rates p))" by (auto simp: r rateAt_def Let_def)
  qed
  then show "finite (range (rateAt p))" by (rule finite_subset) simp
qed (simp only: requiredGap_def sameSTARGap_def intervalAt_def)

definition gap_bound :: "preparedPolicy \<Rightarrow> preparedFlight \<Rightarrow> preparedFlight \<Rightarrow> duration" where
  "gap_bound p a b = Max (insert 0 (range (requiredGap p a b)))"

lemma gap_bound: "requiredGap p a b t \<le> gap_bound p a b" "0 \<le> gap_bound p a b"
proof -
  have "finite (insert 0 (range (requiredGap p a b)))" using finite_gaps by simp
  then show "requiredGap p a b t \<le> gap_bound p a b" "0 \<le> gap_bound p a b" unfolding gap_bound_def by (rule Max_ge, simp)+
qed

lemma next_grid_ge: "nextGridAtOrAfter p t = Some c \<Longrightarrow> ns t \<le> ns c"
proof (induction p t rule: nextGridAtOrAfter.induct)
  case (1 p t)
  from "1.prems" obtain d where d: "next_candidate p t = Some d"
    by (auto simp: nextGridAtOrAfter.simps [of p t] split: option.splits)
  note le = next_candidate_ge [OF d]
  consider (closed) e where "blockingClosure p d = Some (Some e)" "nextGridAtOrAfter p e = Some c"
    | (gap) g where "blockingClosure p d = None" "blockingGap p d = Some g" "nextGridAtOrAfter p (gap_End g) = Some c"
    | (free) "c = d"
    using "1.prems" d by (auto simp: nextGridAtOrAfter.simps [of p t] split: option.splits)
  then show ?case
  proof cases
    case closed
    from blocking_closure_Some [OF closed(1) [unfolded blockingClosure_def]] have "ns d \<le> ns e" by (auto simp: in_closure_def before_def)
    with "1.IH"(2) [OF d closed(1) refl closed(2)] le show ?thesis by simp
  next
    case gap
    with "1.IH"(1) [OF d gap(1,2,3)] blockingGap_Some [OF gap(2)] le show ?thesis by simp
  next
    case free
    with le show ?thesis by simp
  qed
qed

function next_valid :: "preparedPolicy \<Rightarrow> allocatedEntry \<Rightarrow> preparedFlight \<Rightarrow> gotime \<Rightarrow> gotime option" where
  "next_valid p prev f t =
     (if adjacentValid p prev \<lparr> ent_flight = f, ent_time = t, ent_reason = ReasonRateWTC \<rparr> then Some t
      else case nextGridAtOrAfter p (t_add t 1) of None \<Rightarrow> None | Some t' \<Rightarrow> next_valid p prev f t')"
  by pat_completeness auto
termination
proof (relation "measure (\<lambda>(p, prev, f, t). nat (ns (ent_time prev) + gap_bound p (ent_flight prev) f + 1 - ns t))", goal_cases)
  case (2 p prev f t t')
  have "ns t < ns t'" using next_grid_ge [OF 2(2)] by (simp add: t_add_def)
  moreover have "ns t < ns (ent_time prev) + gap_bound p (ent_flight prev) f + 1"
    using 2(1) gap_bound(1) [of p "ent_flight prev" f t] gap_bound(2) [of p "ent_flight prev" f] by (auto simp: adjacentValid_def go_time)
  ultimately show ?case by simp
qed simp

declare next_valid.simps [simp del]

datatype cascade_outcome = Placed "allocatedEntry list" "string list" | RetryAt gotime | CascadeFails command_error

fun cascade :: "preparedPolicy \<Rightarrow> preparedFlight \<Rightarrow> int \<Rightarrow> allocatedEntry \<Rightarrow> string list \<Rightarrow> allocatedEntry list \<Rightarrow> cascade_outcome" where
  "cascade p moving limit prev moved [] = Placed [] moved"
| "cascade p moving limit prev moved (e # rest) =
     (if adjacentValid p prev e then Placed (e # rest) moved
      else if fl_FreezeReason (ent_flight e) = FreezeManual
        then RetryAt (t_add (ent_time e) (requiredGap p (ent_flight e) moving (ent_time e)))
      else if limit \<le> int (length moved) then CascadeFails (invalidTransition ''go-around cascade bound exceeded'')
      else case nextGridAtOrAfter p (t_add (ent_time prev) (requiredGap p (ent_flight prev) (ent_flight e) (ent_time prev))) of
        None \<Rightarrow> CascadeFails (invalidTransition ''go-around cascade has no following rate slot'')
      | Some t \<Rightarrow>
          (case next_valid p prev (ent_flight e) t of
             None \<Rightarrow> CascadeFails (invalidTransition ''go-around cascade has no WTC-valid following slot'')
           | Some t' \<Rightarrow>
               (let e' = e\<lparr> ent_time := t', ent_reason := ReasonGoAroundCascade \<rparr> in
                case cascade p moving limit e' (List.insert (Callsign (ent_flight e)) moved) rest of
                  Placed es moved' \<Rightarrow> Placed (e' # es) moved'
                | other \<Rightarrow> other)))"

definition cascadeGoAround :: "preparedPolicy \<Rightarrow> allocatedEntry list \<Rightarrow> preparedFlight \<Rightarrow> gotime \<Rightarrow> int \<Rightarrow> cascade_outcome" where
  "cascadeGoAround p current moving candidate limit =
     (let i = go_search (length current) (\<lambda>i. \<not> before (ent_time (current ! i)) candidate);
          leading = current ! (i - 1);
          required = requiredGap p (ent_flight leading) moving candidate;
          last = \<lparr> ent_flight = moving, ent_time = candidate, ent_reason = ReasonGoAround \<rparr> in
      if 0 < i \<and> t_sub candidate (ent_time leading) < required then RetryAt (t_add (ent_time leading) required)
      else case cascade p moving limit last [] (drop i current) of
        Placed es moved \<Rightarrow> Placed (take i current @ last # es) moved
      | other \<Rightarrow> other)"

fun go_around_attempts :: "nat \<Rightarrow> preparedPolicy \<Rightarrow> allocatedEntry list \<Rightarrow> preparedFlight \<Rightarrow> int \<Rightarrow> gotime
    \<Rightarrow> command_error + allocatedEntry list \<times> string list" where
  "go_around_attempts 0 p entries moving limit earliest = Inl (invalidTransition ''go-around could not pass a protected manual slot'')"
| "go_around_attempts (Suc n) p entries moving limit earliest =
     (case nextGridAtOrAfter p earliest of
        None \<Rightarrow> Inl (invalidTransition ''go-around has no rate slot at or after its target'')
      | Some candidate \<Rightarrow>
          (case cascadeGoAround p entries moving candidate limit of
             Placed es moved \<Rightarrow> Inr (es, moved)
           | CascadeFails e \<Rightarrow> Inl e
           | RetryAt t \<Rightarrow> go_around_attempts n p entries moving limit t))"

definition go_around_candidate :: "string \<Rightarrow> string \<Rightarrow> nat \<Rightarrow> allocatedEntry \<Rightarrow> CandidateEntry" where
  "go_around_candidate g target i e =
     (let f = ent_flight e;
          c = \<lparr> ce_Callsign = Callsign f, ce_RunwayGroupID = g, ce_Sequence = i + 1, ce_Time = ent_time e,
                ce_OperationalTETA = OperationalTETA f, ce_WakeCategory = category f, ce_FreezeReason = fl_FreezeReason f,
                ce_Protected = (fl_FreezeReason f \<noteq> FreezeNone), ce_Reason = ent_reason e \<rparr> in
      if Callsign f = target then c\<lparr> ce_FreezeReason := FreezeNone, ce_Protected := False, ce_Reason := ReasonGoAround \<rparr> else c)"

definition go_around_group :: "string \<Rightarrow> string \<Rightarrow> allocatedEntry list \<Rightarrow> SeqResult" where
  "go_around_group g target es =
     (let cs = map (\<lambda>i. go_around_candidate g target i (es ! i)) [0..<length es] in
      \<lparr> res_Operations = [], res_Entries = cs,
        res_Movements = List.map_filter (\<lambda>i. movementFor (ent_flight (es ! i)) (cs ! i)) [0..<length es],
        res_Warnings = map (\<lambda>e. \<lparr> w_Severity = SeverityDegraded, w_Code = WarningUnknownWakeCategory, w_RunwayGroupID = g,
            w_Callsign = Callsign (ent_flight e), w_RelatedCallsign = None, w_STARFamily = '''' \<rparr>)
          (filter (\<lambda>e. \<not> known (ent_flight e)) es) \<rparr>)"

fun other_groups :: "Input \<Rightarrow> string \<Rightarrow> Policy list \<Rightarrow> SeqResult \<Rightarrow> (seq_error + SeqResult) option" where
  "other_groups input g [] r = Some (Inr r)"
| "other_groups input g (p # ps) r =
     (if pol_RunwayGroupID p = g then other_groups input g ps r
      else case Generate (input\<lparr> in_Policies := [p],
               in_Flights := filter (\<lambda>f. RunwayGroupID f = pol_RunwayGroupID p) (in_Flights input) \<rparr>) of
        None \<Rightarrow> None
      | Some (Inl e) \<Rightarrow> Some (Inl e)
      | Some (Inr other) \<Rightarrow> other_groups input g ps
          (r\<lparr> res_Entries := res_Entries r @ res_Entries other, res_Movements := res_Movements r @ res_Movements other,
              res_Warnings := res_Warnings r @ res_Warnings other \<rparr>))"

definition candidate_less :: "CandidateEntry \<Rightarrow> CandidateEntry \<Rightarrow> bool" where
  "candidate_less a b =
     (if ce_RunwayGroupID a \<noteq> ce_RunwayGroupID b then ce_RunwayGroupID a < ce_RunwayGroupID b else ce_Sequence a < ce_Sequence b)"

definition movement_less :: "SlotMovement \<Rightarrow> SlotMovement \<Rightarrow> bool" where
  "movement_less a b =
     (if mv_RunwayGroupID a \<noteq> mv_RunwayGroupID b then mv_RunwayGroupID a < mv_RunwayGroupID b else mv_Callsign a < mv_Callsign b)"

definition resultWithGoAroundGroup :: "Input \<Rightarrow> string \<Rightarrow> allocatedEntry list \<Rightarrow> string \<Rightarrow> (seq_error + SeqResult) option" where
  "resultWithGoAroundGroup input g es target =
     (case other_groups input g (in_Policies input) (go_around_group g target es) of
        None \<Rightarrow> None
      | Some (Inl e) \<Rightarrow> Some (Inl e)
      | Some (Inr r) \<Rightarrow> Some (Inr (r\<lparr> res_Entries := go_sort candidate_less (res_Entries r),
          res_Movements := go_sort movement_less (res_Movements r), res_Warnings := go_sort warning_less (res_Warnings r) \<rparr>)))"

text \<open>An update of the flight of each entry; an unknown callsign is an index out of range.\<close>

fun update_flights :: "(CandidateEntry \<Rightarrow> Flight \<Rightarrow> Flight) \<Rightarrow> CandidateEntry list \<Rightarrow> Flight list \<Rightarrow> Flight list option" where
  "update_flights g [] fs = Some fs"
| "update_flights g (e # es) fs =
     (case flightIndex fs (ce_Callsign e) of None \<Rightarrow> None | Some i \<Rightarrow> update_flights g es (fs[i := g e (fs ! i)]))"

definition go_around_order :: "string \<Rightarrow> CandidateEntry \<Rightarrow> Flight \<Rightarrow> Flight" where
  "go_around_order target e f =
     (if ce_Callsign e \<noteq> target \<and> ManualOrder f = None \<and> (fl_State f = StateStable \<or> HoldingSlotProtected f) then f
      else f\<lparr> ManualOrder := Some (int (ce_Sequence e)) \<rparr>)"

definition recaptured :: "nat \<Rightarrow> CandidateEntry \<Rightarrow> Flight \<Rightarrow> Flight" where
  "recaptured revision e f =
     (if fl_FreezeReason f = FreezeSuperstable \<or> fl_FreezeReason f = FreezeTMA
      then f\<lparr> CapturedSlot := Some \<lparr> slot_Time = ce_Time e, slot_RunwayGroupID = ce_RunwayGroupID e, slot_Sequence = int (ce_Sequence e),
                slot_Revision = revision, slot_Reason = reason_text (ce_Reason e) \<rparr> \<rparr>
      else f)"

definition finish_go_around :: "Input \<Rightarrow> nat \<Rightarrow> Flight \<Rightarrow> allocatedEntry list \<Rightarrow> string list \<Rightarrow> decided" where
  "finish_go_around input i target allocated moved =
     (let g = RunwayGroupID target;
          working = on_flight input i (\<lambda>f. (unfrozen f)\<lparr> ManualOrder := None \<rparr>) in
      case resultWithGoAroundGroup working g allocated (Callsign target) of
        None \<Rightarrow> None
      | Some (Inl e) \<Rightarrow> Some (Inl (EngineError e))
      | Some (Inr r) \<Rightarrow>
          Option.bind (update_flights (go_around_order (Callsign target)) (filter (\<lambda>e. ce_RunwayGroupID e = g) (res_Entries r)) (in_Flights working)) (\<lambda>fs.
          Option.bind (update_flights (recaptured (in_Revision input)) (filter (\<lambda>e. ce_Callsign e \<in> set moved) (res_Entries r)) fs) (\<lambda>fs'.
          Some (Inr \<lparr> dec_Input = working\<lparr> in_Flights := fs' \<rparr>, dec_Candidate = r, dec_Changed = True \<rparr>))))"

definition ApplyGoAround :: "Input \<Rightarrow> GoAroundPolicy \<Rightarrow> FlightActionCommand \<Rightarrow> decided" where
  "ApplyGoAround input gp c =
     passing (GoAroundPolicy_Validate gp) (\<lambda>_.
     passing (FlightActionCommand_Validate c (in_Revision input)) (\<lambda>_.
     (let working = cloneInput input in
      passing (activeFlight working (fa_Callsign c)) (\<lambda>(i, target).
      require (fl_State target = StateGoAround) (invalidTransition ''go-around sequence policy requires StateGoAround'')
     (require (CurrentSlot target \<noteq> None) (invalidTransition ''go-around sequence policy requires a current slot'')
     (case prepareInput working of Inl e \<Rightarrow> Some (Inl (EngineError e))
      | Inr (policies, flights) \<Rightarrow>
          (let p = the (map_of policies (RunwayGroupID target));
               group = group_flights (RunwayGroupID target) flights;
               others = filter (\<lambda>f. Callsign f \<noteq> Callsign target) group;
               moving = (unfrozen (hd (filter (\<lambda>f. Callsign f = Callsign target) group)))\<lparr> ManualOrder := None \<rparr> in
           passing (committed_entries (filter sequenced others)) (\<lambda>entries.
           passing (go_around_attempts (length entries + 2) p (sortEntries entries) moving (MaxCascade gp) (t_add (fa_At c) (Delay gp)))
             (\<lambda>(allocated, moved). finish_go_around working i target allocated moved)))))))))"

section \<open>Giving way\<close>

lemma next_valid_Some: "next_valid p prev f t = Some u \<Longrightarrow> adjacentValid p prev \<lparr> ent_flight = f, ent_time = u, ent_reason = r \<rparr>"
proof (induction p prev f t rule: next_valid.induct)
  case (1 p prev f t)
  then show ?case by (auto simp: next_valid.simps [of p prev f t] adjacentValid_def split: if_splits option.splits)
qed

text \<open>What a cascade may do to the flights behind the go-around.\<close>

definition gave_way :: "allocatedEntry \<Rightarrow> allocatedEntry \<Rightarrow> bool" where
  "gave_way e r \<longleftrightarrow> ent_flight r = ent_flight e \<and> (fl_FreezeReason (ent_flight e) = FreezeManual \<longrightarrow> r = e)"

abbreviation entry_name :: "allocatedEntry \<Rightarrow> string" where "entry_name e \<equiv> Callsign (ent_flight e)"

lemma cascade_gives_way:
  assumes "cascade p moving limit prev moved es = Placed rs moved'"
  shows "list_all2 gave_way es rs"
    and "list_all2 (\<lambda>e r. r = e \<or> entry_name e \<in> set moved') es rs"
    and "set moved \<subseteq> set moved'"
    and "int (length moved) \<le> limit \<Longrightarrow> int (length moved') \<le> limit"
    and "successively (adjacentValid p) es \<Longrightarrow> successively (adjacentValid p) (prev # rs)"
proof -
  have "list_all2 gave_way es rs \<and> list_all2 (\<lambda>e r. r = e \<or> entry_name e \<in> set moved') es rs \<and> set moved \<subseteq> set moved' \<and>
    (int (length moved) \<le> limit \<longrightarrow> int (length moved') \<le> limit) \<and>
    (successively (adjacentValid p) es \<longrightarrow> successively (adjacentValid p) (prev # rs))"
    using assms
  proof (induction es arbitrary: prev moved rs)
    case Nil
    then show ?case by simp
  next
    case (Cons e es)
    show ?case
    proof (cases "adjacentValid p prev e")
      case True
      with Cons.prems have "rs = e # es" "moved' = moved" by auto
      with True show ?thesis by (auto simp: gave_way_def intro: list_all2_refl)
    next
      case False
      with Cons.prems obtain t u rs' where c: "fl_FreezeReason (ent_flight e) \<noteq> FreezeManual" "\<not> limit \<le> int (length moved)"
          "next_valid p prev (ent_flight e) t = Some u" "rs = e\<lparr> ent_time := u, ent_reason := ReasonGoAroundCascade \<rparr> # rs'"
          "cascade p moving limit (e\<lparr> ent_time := u, ent_reason := ReasonGoAroundCascade \<rparr>) (List.insert (entry_name e) moved) es = Placed rs' moved'"
        by (auto simp: Let_def split: if_splits option.splits cascade_outcome.splits)
      note IH = Cons.IH [OF c(5)]
      have "int (length (List.insert (entry_name e) moved)) \<le> limit" using c(2) by (simp add: List.insert_def)
      moreover have "adjacentValid p prev (e\<lparr> ent_time := u, ent_reason := ReasonGoAroundCascade \<rparr>)"
        using next_valid_Some [OF c(3)] by (simp add: adjacentValid_def)
      moreover have "gave_way e (e\<lparr> ent_time := u, ent_reason := ReasonGoAroundCascade \<rparr>)" using c(1) by (simp add: gave_way_def)
      moreover have "successively (adjacentValid p) (e # es) \<Longrightarrow> successively (adjacentValid p) es" by (cases es) auto
      ultimately show ?thesis using IH by (auto simp: c(4))
    qed
  qed
  then show "list_all2 gave_way es rs" "list_all2 (\<lambda>e r. r = e \<or> entry_name e \<in> set moved') es rs" "set moved \<subseteq> set moved'"
    "int (length moved) \<le> limit \<Longrightarrow> int (length moved') \<le> limit"
    "successively (adjacentValid p) es \<Longrightarrow> successively (adjacentValid p) (prev # rs)" by blast+
qed

lemma cascadeGoAround_Placed:
  assumes "cascadeGoAround p current moving candidate limit = Placed es moved" "sorted (map at_ns current)" "0 \<le> limit"
  obtains l r rs where "current = l @ r" "es = l @ \<lparr> ent_flight = moving, ent_time = candidate, ent_reason = ReasonGoAround \<rparr> # rs"
    "list_all2 gave_way r rs" "list_all2 (\<lambda>e r. r = e \<or> entry_name e \<in> set moved) r rs" "int (length moved) \<le> limit"
    "successively (adjacentValid p) current \<Longrightarrow> successively (adjacentValid p) es"
proof -
  let ?i = "slot_index current candidate" and ?e = "\<lparr> ent_flight = moving, ent_time = candidate, ent_reason = ReasonGoAround \<rparr>"
  from assms(1) obtain rs where c: "cascade p moving limit ?e [] (drop ?i current) = Placed rs moved" "es = take ?i current @ ?e # rs"
      "0 < ?i \<Longrightarrow> requiredGap p (ent_flight (current ! (?i - 1))) moving candidate \<le> t_sub candidate (ent_time (current ! (?i - 1)))"
    by (auto simp: cascadeGoAround_def slot_index_def Let_def split: if_splits cascade_outcome.splits)
  note g = cascade_gives_way [OF c(1)] and sp = slot_index_split [OF assms(2), of candidate]
  have "successively (adjacentValid p) es" if s: "successively (adjacentValid p) current"
  proof -
    have parts: "successively (adjacentValid p) (take ?i current)" "successively (adjacentValid p) (drop ?i current)"
      using s by (metis append_take_drop_id successively_append_iff)+
    have "adjacentValid p (last (take ?i current)) ?e" if ne: "take ?i current \<noteq> []"
    proof -
      from ne have "0 < ?i" "current \<noteq> []" by auto
      with sp(3) have l: "last (take ?i current) = current ! (?i - 1)" by (simp add: last_conv_nth)
      moreover have "last (take ?i current) \<in> set (take ?i current)" using ne by (rule last_in_set)
      ultimately show ?thesis using c(3) [OF \<open>0 < ?i\<close>] sp(1) by (auto simp: adjacentValid_def go_time)
    qed
    with parts(1) g(5) [OF parts(2)] show ?thesis unfolding c(2) successively_append_iff by fastforce
  qed
  with g(1,2) g(4) assms(3) show ?thesis by (intro that [of "take ?i current" "drop ?i current" rs]) (simp_all add: c(2))
qed

lemma requiredGap_nonneg: "prepared_ok p \<Longrightarrow> 0 \<le> requiredGap p a b t"
proof -
  assume "prepared_ok p"
  then have "0 \<le> intervalAt p t" using rateInterval_pos by (simp add: intervalAt_def less_imp_le)
  with requiredGap_ge(1) [of p t a b] show ?thesis by simp
qed

lemma cascade_retry:
  "cascade p moving limit prev moved es = RetryAt u \<Longrightarrow> \<exists>e \<in> set es. ns u = at_ns e + requiredGap p (ent_flight e) moving (ent_time e)"
proof (induction es arbitrary: prev moved)
  case (Cons e es)
  show ?case
  proof (cases "fl_FreezeReason (ent_flight e) = FreezeManual")
    case True
    with Cons.prems show ?thesis by (auto simp: t_add_def split: if_splits)
  next
    case False
    with Cons.prems obtain e' m where "cascade p moving limit e' m es = RetryAt u"
      by (auto simp: Let_def split: if_splits option.splits cascade_outcome.splits)
    from Cons.IH [OF this] show ?thesis by simp
  qed
qed simp

lemma cascadeGoAround_RetryAt:
  assumes "cascadeGoAround p current moving candidate limit = RetryAt u" "sorted (map at_ns current)" "prepared_ok p"
  shows "ns candidate \<le> ns u"
proof (cases "cascade p moving limit \<lparr> ent_flight = moving, ent_time = candidate, ent_reason = ReasonGoAround \<rparr> [] (drop (slot_index current candidate) current)")
  case (RetryAt v)
  from cascade_retry [OF this] obtain e where "e \<in> set (drop (slot_index current candidate) current)"
      "ns v = at_ns e + requiredGap p (ent_flight e) moving (ent_time e)" by blast
  with slot_index_split(2) [OF assms(2), of candidate] requiredGap_nonneg [OF assms(3), of "ent_flight e" moving "ent_time e"]
  have "ns candidate \<le> ns v" by fastforce
  with assms(1) RetryAt show ?thesis by (auto simp: cascadeGoAround_def slot_index_def Let_def go_time t_add_def split: if_splits)
qed (use assms(1) in \<open>auto simp: cascadeGoAround_def slot_index_def Let_def go_time t_add_def split: if_splits\<close>)

lemma go_around_attempts_Inr:
  assumes "go_around_attempts n p entries moving limit earliest = Inr (es, moved)" "prepared_ok p" "sorted (map at_ns entries)"
  shows "\<exists>t. cascadeGoAround p entries moving t limit = Placed es moved \<and> on_grid p t \<and> slot_open p t \<and> ns earliest \<le> ns t"
  using assms
proof (induction n p entries moving limit earliest rule: go_around_attempts.induct)
  case (2 n p entries moving limit earliest)
  from "2.prems"(1) obtain c where c: "nextGridAtOrAfter p earliest = Some c" by (auto split: option.splits)
  note g = next_grid_Some [OF "2.prems"(2) c]
  show ?case
  proof (cases "cascadeGoAround p entries moving c limit")
    case (RetryAt u)
    with "2.IH" [OF c RetryAt] "2.prems" c obtain t where "cascadeGoAround p entries moving t limit = Placed es moved"
        "on_grid p t" "slot_open p t" "ns u \<le> ns t" by auto
    with g(3) cascadeGoAround_RetryAt [OF RetryAt "2.prems"(3,2)] show ?thesis by (intro exI [of _ t]) simp
  qed (use "2.prems"(1) c g in auto)
qed simp

lemma generated_group:
  assumes "generate input promotions = Some (Inr r)" "e \<in> set (res_Entries r)"
  shows "ce_RunwayGroupID e \<in> pol_RunwayGroupID ` set (in_Policies input)"
proof -
  from assms(1) obtain ps fs where q: "prepareInput input = Inr (ps, fs)"
    by (auto simp: generate_def split: sum.splits option.splits)
  from generated_in_group [OF assms(1) q assms(2)] have "ce_RunwayGroupID e \<in> fst ` set ps" by force
  then show ?thesis using arg_cong [OF prepareInput_names [OF q], of set] by simp
qed

lemma other_groups_entries:
  "other_groups input g ps r0 = Some (Inr r) \<Longrightarrow>
     filter (\<lambda>e. ce_RunwayGroupID e = g) (res_Entries r) = filter (\<lambda>e. ce_RunwayGroupID e = g) (res_Entries r0)"
proof (induction input g ps r0 rule: other_groups.induct)
  case (2 input g p ps r0)
  show ?case
  proof (cases "pol_RunwayGroupID p = g")
    case True
    with 2 show ?thesis by simp
  next
    case False
    let ?in = "input\<lparr> in_Policies := [p], in_Flights := filter (\<lambda>f. RunwayGroupID f = pol_RunwayGroupID p) (in_Flights input) \<rparr>"
    from False "2.prems" obtain other where o: "Generate ?in = Some (Inr other)"
      by (auto split: option.splits sum.splits)
    have "e \<in> set (res_Entries other) \<Longrightarrow> ce_RunwayGroupID e \<noteq> g" for e
      using generated_group [OF o [unfolded Generate_def]] False by auto
    then have "filter (\<lambda>e. ce_RunwayGroupID e = g) (res_Entries other) = []" by (auto simp: filter_empty_conv)
    with "2.IH"(2) [OF False o refl] "2.prems" False o show ?thesis by simp
  qed
qed simp

lemma weak_order_candidate: "weak_order candidate_less"
proof -
  have "\<not> candidate_less y x" if "candidate_less x y" for x y using that by (auto simp: candidate_less_def split: if_splits)
  moreover have "\<not> candidate_less z x" if "\<not> candidate_less y x" "\<not> candidate_less z y" for x y z
  proof -
    have "ce_RunwayGroupID x \<le> ce_RunwayGroupID y" "ce_RunwayGroupID y \<le> ce_RunwayGroupID z"
      using that by (auto simp: candidate_less_def not_less split: if_splits)
    with that show ?thesis by (auto simp: candidate_less_def split: if_splits)
  qed
  ultimately show ?thesis unfolding weak_order_def by blast
qed

lemma go_around_result:
  assumes "resultWithGoAroundGroup input g es target = Some (Inr r)"
  shows "filter (\<lambda>e. ce_RunwayGroupID e = g) (res_Entries r) = map (\<lambda>i. go_around_candidate g target i (es ! i)) [0..<length es]"
proof -
  let ?P = "\<lambda>e. ce_RunwayGroupID e = g"
  from assms obtain q where q: "other_groups input g (in_Policies input) (go_around_group g target es) = Some (Inr q)"
      "res_Entries r = go_sort candidate_less (res_Entries q)"
    by (auto simp: resultWithGoAroundGroup_def split: option.splits sum.splits)
  let ?cs = "map (\<lambda>i. go_around_candidate g target i (es ! i)) [0..<length es]"
  have "filter ?P (res_Entries q) = filter ?P ?cs" using other_groups_entries [OF q(1)] by (simp add: go_around_group_def Let_def)
  also have "\<dots> = ?cs" by (auto simp: filter_id_conv go_around_candidate_def Let_def)
  finally have cs: "filter ?P (res_Entries q) = ?cs" .
  have "map ce_Sequence ?cs = [Suc 0..<Suc (length es)]" unfolding map_Suc_upt [symmetric] by (simp add: go_around_candidate_def Let_def)
  then have "sorted_wrt (<) (map ce_Sequence (filter ?P (res_Entries q)))" unfolding cs by (simp del: upt_Suc)
  then have "filter ?P (go_sort candidate_less (res_Entries q)) = filter ?P (res_Entries q)"
    by (intro filter_go_sort [OF weak_order_candidate]) (auto simp: candidate_less_def)
  with cs q(2) show ?thesis by simp
qed

lemma committed_entries_flights: "committed_entries fs = Inr es \<Longrightarrow> map ent_flight es = fs"
  by (induction fs arbitrary: es) (auto simp: committed_entry_def split: option.splits sum.splits if_splits)

definition rivals :: "string \<Rightarrow> string \<Rightarrow> preparedFlight list \<Rightarrow> preparedFlight list" where
  "rivals cs g flights = filter sequenced (filter (\<lambda>f. Callsign f \<noteq> cs) (group_flights g flights))"

lemma ApplyGoAround_Inr:
  assumes "ApplyGoAround input gp c = Some (Inr d)" "prepareInput input = Inr (ps, fs)" "activeFlight input (fa_Callsign c) = Inr (i, f)"
    and "(RunwayGroupID f, p) \<in> set ps"
  obtains committed es moved mv where
    "committed_entries (rivals (fa_Callsign c) (RunwayGroupID f) fs) = Inr committed"
    "go_around_attempts (length committed + 2) p (sortEntries committed) mv (MaxCascade gp) (t_add (fa_At c) (Delay gp)) = Inr (es, moved)"
    "\<exists>h \<in> set (group_flights (RunwayGroupID f) fs). Callsign h = fa_Callsign c \<and> mv = (unfrozen h)\<lparr> ManualOrder := None \<rparr>"
    "filter (\<lambda>e. ce_RunwayGroupID e = RunwayGroupID f) (res_Entries (dec_Candidate d)) =
       map (\<lambda>i. go_around_candidate (RunwayGroupID f) (fa_Callsign c) i (es ! i)) [0..<length es]"
    "0 < MaxCascade gp"
proof -
  let ?g = "RunwayGroupID f" and ?group = "group_flights (RunwayGroupID f) fs"
  have p: "the (map_of ps ?g) = p" using prepareInput_ok(1) [OF assms(2)] assms(4) by (simp add: map_of_eq_Some_iff)
  note f = activeFlight_Inr [OF assms(3)]
  let ?mv = "(unfrozen (hd (filter (\<lambda>h. Callsign h = Callsign f) ?group)))\<lparr> ManualOrder := None \<rparr>"
  from assms(1) obtain committed es moved where a: "committed_entries (rivals (fa_Callsign c) ?g fs) = Inr committed"
      "go_around_attempts (length committed + 2) p (sortEntries committed) ?mv (MaxCascade gp) (t_add (fa_At c) (Delay gp)) = Inr (es, moved)"
      "finish_go_around input i f es moved = Some (Inr d)" "0 < MaxCascade gp"
    by (auto simp: ApplyGoAround_def decided cloneInput_def assms(2,3) p rivals_def f(3) GoAroundPolicy_Validate_def Let_def
        simp del: go_around_attempts.simps)
  from a(3) obtain r where r: "resultWithGoAroundGroup (on_flight input i (\<lambda>f. (unfrozen f)\<lparr> ManualOrder := None \<rparr>)) ?g es (fa_Callsign c) = Some (Inr r)"
      "dec_Candidate d = r"
    by (auto simp: finish_go_around_def f(3) Let_def bind_eq_Some_conv split: option.splits sum.splits)
  have "fa_Callsign c \<in> set (names_in ?g (in_Flights input))" by (rule active_name [OF assms(3) refl])
  then have "fa_Callsign c \<in> set (names_in ?g fs)" unfolding names_in_identity [OF prepared_input(1) [OF assms(2)]] .
  then have ne: "filter (\<lambda>h. Callsign h = Callsign f) ?group \<noteq> []"
    by (auto simp: names_in_def active_in_def group_flights_def filter_empty_conv f(3))
  have "\<exists>h \<in> set ?group. Callsign h = fa_Callsign c \<and> ?mv = (unfrozen h)\<lparr> ManualOrder := None \<rparr>"
    using hd_in_set [OF ne] by (intro bexI [of _ "hd (filter (\<lambda>h. Callsign h = Callsign f) ?group)"]) (auto simp: f(3))
  then show ?thesis using go_around_result [OF r(1)] r(2) a by (intro that) auto
qed

text \<open>
  C2. A go-around gives way safely. The aircraft gets an open slot of the grid, no earlier than the delay
  after the detection, somewhere among the committed slots of the other flights. Those before it keep
  their times; those behind it keep their order, at most the allowed number of them change their time,
  and none that a controller has frozen. When the slots of the other flights were separated without
  the aircraft, so is the new sequence.
\<close>

theorem go_around_gives_way_safely:
  assumes "ApplyGoAround input gp c = Some (Inr d)" "prepareInput input = Inr (ps, fs)" "activeFlight input (fa_Callsign c) = Inr (i, f)"
    and "(RunwayGroupID f, p) \<in> set ps" "es = filter (\<lambda>e. ce_RunwayGroupID e = RunwayGroupID f) (res_Entries (dec_Candidate d))"
  shows "\<exists>committed l r t us moved.
    committed_entries (rivals (fa_Callsign c) (RunwayGroupID f) fs) = Inr committed \<and> sortEntries committed = l @ r \<and>
    map ce_Callsign es = map entry_name l @ fa_Callsign c # map entry_name r \<and>
    map ce_Time es = map ent_time l @ t # us \<and>
    on_grid p t \<and> slot_open p t \<and> ns (fa_At c) + Delay gp \<le> ns t \<and>
    list_all2 (\<lambda>e u. u = ent_time e \<or> fl_FreezeReason (ent_flight e) \<noteq> FreezeManual \<and> entry_name e \<in> set moved) r us \<and>
    int (length moved) \<le> MaxCascade gp \<and>
    (successively (adjacentValid p) (l @ r) \<longrightarrow> successively (separated p) es)"
proof -
  let ?g = "RunwayGroupID f"
  obtain committed xs moved mv where a: "committed_entries (rivals (fa_Callsign c) ?g fs) = Inr committed"
      "go_around_attempts (length committed + 2) p (sortEntries committed) mv (MaxCascade gp) (t_add (fa_At c) (Delay gp)) = Inr (xs, moved)"
      "\<exists>h \<in> set (group_flights ?g fs). Callsign h = fa_Callsign c \<and> mv = (unfrozen h)\<lparr> ManualOrder := None \<rparr>"
      "es = map (\<lambda>i. go_around_candidate ?g (fa_Callsign c) i (xs ! i)) [0..<length xs]" "0 < MaxCascade gp"
    using assms(1-4) unfolding assms(5) by (rule ApplyGoAround_Inr)
  have ok: "prepared_ok p" using prepareInput_ok(2) [OF assms(2,4)] by (simp add: policy_ok_def)
  obtain t where t: "cascadeGoAround p (sortEntries committed) mv t (MaxCascade gp) = Placed xs moved" "on_grid p t" "slot_open p t"
      "ns (fa_At c) + Delay gp \<le> ns t"
    using go_around_attempts_Inr [OF a(2) ok sorted_sortEntries] by (auto simp: t_add_def)
  from t(1) sorted_sortEntries obtain l r rs where s: "sortEntries committed = l @ r" "xs = l @ \<lparr> ent_flight = mv, ent_time = t, ent_reason = ReasonGoAround \<rparr> # rs"
      "list_all2 gave_way r rs" "list_all2 (\<lambda>e r. r = e \<or> entry_name e \<in> set moved) r rs" "int (length moved) \<le> MaxCascade gp"
      "successively (adjacentValid p) (sortEntries committed) \<Longrightarrow> successively (adjacentValid p) xs"
    by (rule cascadeGoAround_Placed) (use a(5) in simp_all)
  have cs: "map ce_Callsign es = map entry_name xs" "map ce_Time es = map ent_time xs"
    by (rule nth_equalityI; simp add: a(4) go_around_candidate_def Let_def)+
  have flights: "map ent_flight rs = map ent_flight r"
    using s(3) by (auto simp: list_all2_conv_all_nth gave_way_def intro: nth_equalityI)
  from arg_cong [OF this, of "map Callsign"] have names: "map entry_name rs = map entry_name r" by (simp add: comp_def)
  have mv: "Callsign mv = fa_Callsign c" using a(3) by (auto simp: unfrozen_def)
  have times: "list_all2 (\<lambda>e u. u = ent_time e \<or> fl_FreezeReason (ent_flight e) \<noteq> FreezeManual \<and> entry_name e \<in> set moved) r (map ent_time rs)"
    using s(3,4) by (auto simp: list_all2_conv_all_nth gave_way_def)
  have known: "known (ent_flight e) \<longleftrightarrow> category (ent_flight e) \<in> set (categories p)" if "e \<in> set xs" for e
  proof -
    have "set (map ent_flight committed) \<subseteq> set (group_flights ?g fs)"
      unfolding committed_entries_flights [OF a(1)] by (auto simp: rivals_def)
    then have "ent_flight ` set (l @ r) \<subseteq> set (group_flights ?g fs)" unfolding s(1) [symmetric] by auto
    moreover have "ent_flight ` set rs = ent_flight ` set r" using arg_cong [OF flights, of set] by simp
    ultimately have "ent_flight ` set l \<subseteq> set (group_flights ?g fs)" "ent_flight ` set rs \<subseteq> set (group_flights ?g fs)" by auto
    with that consider "ent_flight e \<in> set (group_flights ?g fs)" | "ent_flight e = mv" unfolding s(2) by auto
    then show ?thesis
      using flight_known [OF assms(2,4)] a(3) by cases (auto simp: unfrozen_def)
  qed
  have "successively (separated p) es" if "successively (adjacentValid p) (l @ r)"
  proof -
    have "successively (adjacentValid p) xs" using s(6) that s(1) by simp
    then show ?thesis using known
      by (auto simp: a(4) successively_conv_nth go_around_candidate_def separated_def adjacentValid_def requiredGap_def wake_minimum_def Let_def go_time)
  qed
  then show ?thesis using a(1) s(1,5) t(2-4) times mv names
    by (intro exI [of _ committed] exI [of _ l] exI [of _ r] exI [of _ t] exI [of _ "map ent_time rs"] exI [of _ moved]) (simp add: cs s(2))
qed

section \<open>What no command touches\<close>

datatype sequence_command = Move MoveFlightCommand | Swap SwapFlightsCommand | Freeze FlightActionCommand
  | Release FlightActionCommand | Rate SetRateCommand | GoAround GoAroundPolicy FlightActionCommand

fun apply_command :: "Input \<Rightarrow> sequence_command \<Rightarrow> decided" where
  "apply_command input (Move c) = ApplyMove input c"
| "apply_command input (Swap c) = ApplySwap input c"
| "apply_command input (Freeze c) = ApplyManualFreeze input c"
| "apply_command input (Release c) = ReleaseManualFreeze input c"
| "apply_command input (Rate c) = ApplyRate input c"
| "apply_command input (GoAround p c) = ApplyGoAround input p c"

definition commanded :: "Input \<Rightarrow> sequence_command \<Rightarrow> Input \<Rightarrow> bool" where
  "commanded input c input' \<longleftrightarrow> (\<exists>d. apply_command input c = Some (Inr d) \<and> input' = dec_Input d)"

definition uncommanded :: "Flight \<Rightarrow> Flight" where
  "uncommanded f = (unfrozen f)\<lparr> ManualOrder := None \<rparr>"

definition same_traffic :: "Input \<Rightarrow> Input \<Rightarrow> bool" where
  "same_traffic a b \<longleftrightarrow> in_Revision b = in_Revision a \<and> in_STARFamilyPolicies b = in_STARFamilyPolicies a \<and>
     map (\<lambda>p. p\<lparr> Rates := [] \<rparr>) (in_Policies b) = map (\<lambda>p. p\<lparr> Rates := [] \<rparr>) (in_Policies a) \<and>
     map uncommanded (in_Flights b) = map uncommanded (in_Flights a)"

lemma same_trafficI:
  "input' = input\<lparr> in_Flights := fs \<rparr> \<Longrightarrow> map uncommanded fs = map uncommanded (in_Flights input) \<Longrightarrow> same_traffic input input'"
  by (simp add: same_traffic_def)

lemma uncommanded_unordered: "map unordered fs = map unordered gs \<Longrightarrow> map uncommanded fs = map uncommanded gs"
proof -
  assume "map unordered fs = map unordered gs"
  then have "map uncommanded (map unordered fs) = map uncommanded (map unordered gs)" by (rule arg_cong)
  moreover have "uncommanded (unordered f) = uncommanded f" for f by (simp add: uncommanded_def unordered_def unfrozen_def)
  ultimately show ?thesis by (simp add: comp_def)
qed

lemma update_flights_frame:
  assumes "update_flights g es fs = Some gs" "\<And>e f. h (g e f) = h f"
  shows "map h gs = map h fs"
  using assms
proof (induction g es fs rule: update_flights.induct)
  case (2 g e es fs)
  from "2.prems"(1) obtain i where i: "flightIndex fs (ce_Callsign e) = Some i" "update_flights g es (fs[i := g e (fs ! i)]) = Some gs"
    by (auto split: option.splits)
  have "map h (fs[i := g e (fs ! i)]) = map h fs" using flightIndex_less [OF i(1)] "2.prems"(2) by (intro map_update_same) auto
  with "2.IH" [OF i "2.prems"(2)] show ?case by simp
qed simp

lemma swap_unordered:
  assumes "ApplySwap input c = Some (Inr d)"
  shows "\<exists>fs. dec_Input d = input\<lparr> in_Flights := fs \<rparr> \<and> map unordered fs = map unordered (in_Flights input)"
proof -
  from assms obtain f h names where "swap_flights input f h names = Some (Inr d)"
    by (auto simp: ApplySwap_def decided cloneInput_def Let_def)
  then obtain order m gs where m: "number_flights m 0 order (in_Flights input) = Some gs" "finish_swap input (RunwayGroupID f) order gs = Some (Inr d)"
    by (auto simp: swap_flights_def decided Let_def split: if_splits)
  from m(2) have "dec_Input d = input\<lparr> in_Flights := reserve_flags (in_Flights input) gs \<rparr>"
    by (auto simp: finish_swap_def decided Let_def)
  with reserve_flags_unordered [OF number_flights_plain [OF m(1)]] show ?thesis by blast
qed

lemma move_unordered:
  assumes "ApplyMove input c = Some (Inr d)"
  shows "\<exists>fs. dec_Input d = input\<lparr> in_Flights := fs \<rparr> \<and> map unordered fs = map unordered (in_Flights input)"
proof -
  from assms obtain a order from' gs where m: "move_flights c a order from' (in_Flights input) = Some gs" "finish_move input c a gs = Some (Inr d)"
    by (auto simp: ApplyMove_def move_in_order_def decided cloneInput_def Let_def)
  from m(1) have plain: "map plain gs = map plain (in_Flights input)"
    by (auto simp: move_flights_def Let_def split: option.splits intro: number_flights_plain)
  from m(2) have "dec_Input d = input\<lparr> in_Flights := reserve_flags (in_Flights input) gs \<rparr>"
    by (auto simp: finish_move_def decided Let_def)
  with reserve_flags_unordered [OF plain] show ?thesis by blast
qed

lemma freeze_same_traffic:
  assumes "decide_with (on_flight input i g) = Some (Inr d)" "i < length (in_Flights input)" "\<And>f. uncommanded (g f) = uncommanded f"
  shows "same_traffic input (dec_Input d)"
proof -
  have "dec_Input d = on_flight input i g" using assms(1) by (auto simp: decide_with_def decided)
  with assms(2,3) show ?thesis by (intro same_trafficI [where fs = "(in_Flights input)[i := g (in_Flights input ! i)]"] map_update_same) (simp_all add: on_flight_def)
qed

lemma go_around_same_traffic:
  assumes "finish_go_around input i target es moved = Some (Inr d)" "i < length (in_Flights input)"
  shows "same_traffic input (dec_Input d)"
proof -
  let ?w = "on_flight input i (\<lambda>f. (unfrozen f)\<lparr> ManualOrder := None \<rparr>)"
  let ?in = "\<lambda>r. filter (\<lambda>e. ce_RunwayGroupID e = RunwayGroupID target) (res_Entries r)"
  let ?moved = "\<lambda>r. filter (\<lambda>e. ce_Callsign e \<in> set moved) (res_Entries r)"
  from assms(1) obtain r where "Option.bind (update_flights (go_around_order (Callsign target)) (?in r) (in_Flights ?w)) (\<lambda>fs.
      Option.bind (update_flights (recaptured (in_Revision input)) (?moved r) fs) (\<lambda>gs.
      Some (Inr \<lparr> dec_Input = ?w\<lparr> in_Flights := gs \<rparr>, dec_Candidate = r, dec_Changed = True \<rparr>))) = Some (Inr d :: command_error + Decision)"
    by (auto simp: finish_go_around_def Let_def split: option.splits sum.splits)
  then obtain fs gs where g: "update_flights (go_around_order (Callsign target)) (?in r) (in_Flights ?w) = Some fs"
      "update_flights (recaptured (in_Revision input)) (?moved r) fs = Some gs" "dec_Input d = ?w\<lparr> in_Flights := gs \<rparr>"
    by (auto simp: bind_eq_Some_conv)
  have "map uncommanded gs = map uncommanded fs"
    by (rule update_flights_frame [OF g(2)]) (simp add: recaptured_def uncommanded_def unfrozen_def)
  also have "map uncommanded fs = map uncommanded (in_Flights ?w)"
    by (rule update_flights_frame [OF g(1)]) (simp add: go_around_order_def uncommanded_def unfrozen_def)
  also have "map uncommanded (in_Flights ?w) = map uncommanded (in_Flights input)"
    using map_update_same [OF assms(2), of uncommanded "\<lambda>f. (unfrozen f)\<lparr> ManualOrder := None \<rparr>"]
    by (simp add: on_flight_def uncommanded_def unfrozen_def)
  finally show ?thesis using g(3) by (intro same_trafficI [where fs = gs]) (simp_all add: on_flight_def)
qed

lemma commanded_same_traffic:
  assumes "commanded input c input'"
  shows "same_traffic input input'"
proof (cases c)
  case (Move m)
  with assms obtain d where d: "ApplyMove input m = Some (Inr d)" "input' = dec_Input d" by (auto simp: commanded_def)
  then show ?thesis using move_unordered [OF d(1)] by (metis same_trafficI uncommanded_unordered)
next
  case (Swap m)
  with assms obtain d where d: "ApplySwap input m = Some (Inr d)" "input' = dec_Input d" by (auto simp: commanded_def)
  then show ?thesis using swap_unordered [OF d(1)] by (metis same_trafficI uncommanded_unordered)
next
  case (Freeze m)
  with assms obtain d i f where f: "activeFlight input (fa_Callsign m) = Inr (i, f)" "input' = dec_Input d"
      "decide_with (on_flight input i (manually_frozen (fa_At m))) = Some (Inr d)"
    by (auto simp: commanded_def ApplyManualFreeze_def passing_Inr require_Inr cloneInput_def Let_def)
  show ?thesis unfolding f(2) by (rule freeze_same_traffic [OF f(3) activeFlight_Inr(1) [OF f(1)]])
    (simp add: manually_frozen_def uncommanded_def unfrozen_def)
next
  case (Release m)
  with assms obtain d i f where f: "activeFlight input (fa_Callsign m) = Inr (i, f)" "input' = dec_Input d"
      "decide_with (on_flight input i unfrozen) = Some (Inr d)"
    by (auto simp: commanded_def ReleaseManualFreeze_def passing_Inr require_Inr cloneInput_def Let_def)
  show ?thesis unfolding f(2) by (rule freeze_same_traffic [OF f(3) activeFlight_Inr(1) [OF f(1)]]) (simp add: uncommanded_def unfrozen_def)
next
  case (Rate m)
  with assms obtain d where d: "ApplyRate input m = Some (Inr d)" "input' = dec_Input d" by (auto simp: commanded_def)
  from d(1) show ?thesis
    by (rule ApplyRate_Inr) (simp add: d(2) same_traffic_def map_update_same)
next
  case (GoAround p m)
  with assms obtain d i f es moved where f: "activeFlight input (fa_Callsign m) = Inr (i, f)" "input' = dec_Input d"
      "finish_go_around input i f es moved = Some (Inr d)"
    by (auto simp: commanded_def ApplyGoAround_def decided cloneInput_def Let_def simp del: go_around_attempts.simps)
  show ?thesis unfolding f(2) by (rule go_around_same_traffic [OF f(3) activeFlight_Inr(1) [OF f(1)]])
qed

lemma same_traffic_trans: "same_traffic a b \<Longrightarrow> same_traffic b c \<Longrightarrow> same_traffic a c" by (simp add: same_traffic_def)

interpretation commands: invariant_machine commanded "same_traffic a"
  by unfold_locales (blast intro: same_traffic_trans commanded_same_traffic)

text \<open>
  C11. Commands reorder, freeze and reschedule, and touch nothing else: through any run of accepted
  commands the same flights stay in the input, with their lifecycle state, estimates, slots, reservations
  and holding evidence, under the same policies but for their rates.
\<close>

theorem commands_keep_the_traffic:
  assumes "runs commanded a cs b"
  shows "same_traffic a b"
  by (rule commands.runs_inv [OF assms]) (simp add: same_traffic_def)

section \<open>Sample go-arounds\<close>

definition sample_go_around :: GoAroundPolicy where "sample_go_around = \<lparr> Delay = 4 * minute, MaxCascade = 2 \<rparr>"

definition sequence_of :: "decided \<Rightarrow> (string \<times> int) list" where
  "sequence_of d = (case d of Some (Inr x) \<Rightarrow> map (\<lambda>e. (ce_Callsign e, ns (ce_Time e) div minute)) (res_Entries (dec_Candidate x)) | _ \<Rightarrow> [])"


theorem go_around_gives_way_safely_witness:
  "\<exists>d es. ApplyGoAround (sample_traffic True) sample_go_around (sample_action ''SAS3'' (3 * hour)) = Some (Inr d) \<and>
     es = filter (\<lambda>e. ce_RunwayGroupID e = ''22L'') (res_Entries (dec_Candidate d)) \<and>
     (\<exists>l r. map ce_Callsign es = map entry_name l @ ''SAS3'' # map entry_name r)"
proof -
  have "case ApplyGoAround (sample_traffic True) sample_go_around (sample_action ''SAS3'' (3 * hour)) of Some (Inr d) \<Rightarrow> True | _ \<Rightarrow> False" by code_simp
  then obtain d where d: "ApplyGoAround (sample_traffic True) sample_go_around (sample_action ''SAS3'' (3 * hour)) = Some (Inr d)"
    by (auto split: option.splits sum.splits)
  obtain f where f: "activeFlight (sample_traffic True) (fa_Callsign (sample_action ''SAS3'' (3 * hour))) = Inr (2, f)" "RunwayGroupID f = ''22L''"
    using sample_active(2) by (auto simp: sample_action_def)
  from go_around_gives_way_safely [OF d sample_traffic_prepared(1) f(1) _ refl, of "snd (fst sample_traffic_ready ! 0)"] sample_traffic_prepared(2) f(2)
  obtain l r where "map ce_Callsign (filter (\<lambda>e. ce_RunwayGroupID e = ''22L'') (res_Entries (dec_Candidate d))) =
      map entry_name l @ fa_Callsign (sample_action ''SAS3'' (3 * hour)) # map entry_name r" by auto
  then show ?thesis using d by (auto simp: sample_action_def)
qed

theorem commands_keep_the_traffic_witness:
  "\<exists>d :: Decision. runs commanded (sample_traffic False) [Move sample_move] (dec_Input d) \<and> same_traffic (sample_traffic False) (dec_Input d)"
proof -
  obtain d where "ApplyMove (sample_traffic False) sample_move = Some (Inr d)" using sample_move_ok by blast
  then have "runs commanded (sample_traffic False) [Move sample_move] (dec_Input d)"
    by (auto simp: runs_Cons_iff commanded_def)
  with commands_keep_the_traffic [OF this] show ?thesis by blast
qed

section \<open>Two defects of the go-around\<close>

text \<open>
  The slot that the aircraft leaves is not checked: its neighbours can be closer than the spacing of
  arrivals of the same STAR demands. Here the two flights are required to be six minutes apart; the
  decision, free of warnings, leaves them four minutes apart.
\<close>

definition spaced_traffic :: Input where
  "spaced_traffic = (sample_traffic True)\<lparr>
     in_Policies := [(sample_policy False)\<lparr> pol_SameSTARSpacing := \<lparr> Enabled = True, ActivationRatePerHour = 1, MinimumEmptySlots = 2 \<rparr> \<rparr>],
     in_Flights := [(sample_flight ''SAS1'' (3 * hour) ''M'')\<lparr> STARFamily := ''ROSBI'', CurrentSlot := Some (sample_slot (3 * hour) 1) \<rparr>,
       (sample_flight ''SAS3'' (3 * hour) ''M'')\<lparr> STARFamily := ''TUDLO'', fl_State := StateGoAround, CurrentSlot := Some (sample_slot (3 * hour + 2 * minute) 2) \<rparr>,
       (sample_flight ''SAS2'' (3 * hour) ''M'')\<lparr> STARFamily := ''ROSBI'', DemandArrivalAt := Some (Time (3 * hour) UTC),
          CurrentSlot := Some (sample_slot (3 * hour + 4 * minute) 3) \<rparr>] \<rparr>"

definition spaced_decision :: "(command_error + Decision) option" where
  "spaced_decision = ApplyGoAround spaced_traffic sample_go_around (sample_action ''SAS3'' (3 * hour + minute))"

lemma go_around_leaves_neighbours_too_close:
  "sequence_of spaced_decision = [(''SAS1'', 180), (''SAS2'', 184), (''SAS3'', 186)]"
  "(case spaced_decision of Some (Inr d) \<Rightarrow> res_Warnings (dec_Candidate d) = [] | _ \<Rightarrow> False)"
  by code_simp+

lemma neighbours_required_gap:
  "(case prepareInput spaced_traffic of Inr ([(g, p)], [f, h, k]) \<Rightarrow> requiredGap p f k (Time (3 * hour + 4 * minute) UTC) = 6 * minute | _ \<Rightarrow> False)"
  by code_simp

text \<open>
  A flight that gives way can be moved forward, to a slot before its earliest landing time: the search
  starts at the spacing in force at the go-around and ignores the operational landing time. Here the
  rate falls at three o'clock; the flight that lands then is moved two minutes ahead of its estimate,
  one more than the early tolerance.
\<close>

definition falling_rate_traffic :: Input where
  "falling_rate_traffic = (sample_traffic True)\<lparr>
     in_Policies := [(sample_policy False)\<lparr> Rates := [\<lparr> EffectiveAt = Time hour UTC, ArrivalsPerHour = 30 \<rparr>,
       \<lparr> EffectiveAt = Time (3 * hour) UTC, ArrivalsPerHour = 10 \<rparr>] \<rparr>],
     in_Flights := [(sample_flight ''SAS1'' (3 * hour) ''M'')\<lparr> CurrentSlot := Some (sample_slot (3 * hour) 1) \<rparr>,
       (sample_flight ''SAS3'' (3 * hour) ''M'')\<lparr> fl_State := StateGoAround, CurrentSlot := Some (sample_slot (3 * hour + 6 * minute) 2) \<rparr>] \<rparr>"

lemma go_around_moves_flight_forward:
  "sequence_of (ApplyGoAround falling_rate_traffic sample_go_around (sample_action ''SAS3'' (2 * hour + 52 * minute))) =
     [(''SAS3'', 176), (''SAS1'', 178)]"
  by code_simp

end
