(* ===== verification/Sequence_Gap_Fill.thy ===== *)
theory Sequence_Gap_Fill
  imports Go_Lists Sequence_Generation
begin

text \<open>
  Filling the capacity that same-STAR spacing leaves between two arrivals of a stream:
  \<^verbatim>\<open>internal/aman/sequence/gap_fill.go\<close>, with the lower bound of an earlier slot from
  \<^verbatim>\<open>queue.go\<close>.

  The three nested loops search for the first gap, the first flight behind it and the first slot in it
  that fit; \<open>first_some\<close> is that search. The outer loop restarts the search after each move and ends
  because no flight moves twice.
\<close>

section \<open>Filling gaps\<close>

fun first_some :: "('a \<Rightarrow> 'b option) \<Rightarrow> 'a list \<Rightarrow> 'b option" where
  "first_some g [] = None"
| "first_some g (x # xs) = (case g x of None \<Rightarrow> first_some g xs | Some y \<Rightarrow> Some y)"

definition promotionLowerBound :: "preparedPolicy \<Rightarrow> 'a FlightIdentity_scheme \<Rightarrow> gotime \<Rightarrow> gotime" where
  "promotionLowerBound p f tm =
     (let lower = t_add (OperationalTETA f) (- EarlyTolerance (policy p));
          lower = (if \<not> after lower tm then t_add tm 1 else lower) in
      case PromotionNotBefore f of None \<Rightarrow> lower | Some b \<Rightarrow> if before lower b then b else lower)"

definition freeze_passable :: "FreezeReason \<Rightarrow> bool" where
  "freeze_passable r \<longleftrightarrow> r = FreezeNone \<or> r = FreezeSuperstable"

definition gapFillEligible :: "preparedFlight \<Rightarrow> bool" where
  "gapFillEligible f \<longleftrightarrow> STARFamily f \<noteq> '''' \<and> ManualOrder f = None \<and> ReleaseRank f = None \<and>
     \<not> RebuildRetained f \<and> \<not> RebuildTMA f \<and> PromotionNotBefore f \<noteq> None \<and> freeze_passable (fl_FreezeReason f) \<and>
     (fl_State f = StateStable \<or> fl_State f = StateUnstable \<or> fl_State f = StateAirborne)"

definition canPassForSTARGap :: "preparedFlight \<Rightarrow> preparedFlight \<Rightarrow> bool" where
  "canPassForSTARGap target crossed \<longleftrightarrow> ManualOrder crossed = None \<and> STARFamily crossed \<noteq> '''' \<and>
     STARFamily crossed \<noteq> STARFamily target \<and> freeze_passable (fl_FreezeReason crossed) \<and>
     \<not> RebuildRetained crossed \<and> \<not> RebuildTMA crossed \<and>
     (HoldingQueueID target = '''' \<or> HoldingQueueID target \<noteq> HoldingQueueID crossed)"

definition at_or_after :: "gotime \<Rightarrow> gotime \<Rightarrow> gotime" where
  "at_or_after lower b = (if after b lower then b else lower)"

definition pass_bound :: "preparedFlight \<Rightarrow> gotime \<Rightarrow> allocatedEntry \<Rightarrow> gotime" where
  "pass_bound f lower crossed =
     (if canPassForSTARGap f (ent_flight crossed) then lower else at_or_after lower (t_add (ent_time crossed) 1))"

definition fill_lower :: "preparedPolicy \<Rightarrow> gotime \<Rightarrow> preparedFlight \<Rightarrow> allocatedEntry list \<Rightarrow> gotime" where
  "fill_lower p tm f crossed =
     (let lower = promotionLowerBound p f tm;
          lower = (case SlotNotBefore f of None \<Rightarrow> lower | Some b \<Rightarrow> at_or_after lower b) in
      foldl (pass_bound f) lower crossed)"

text \<open>At most the given number of slots is tried, all of them before the limit.\<close>

fun fill_search :: "nat \<Rightarrow> preparedPolicy \<Rightarrow> allocatedEntry list \<Rightarrow> preparedFlight \<Rightarrow> gotime \<Rightarrow> gotime \<Rightarrow> gotime option" where
  "fill_search 0 p remaining f limit start = None"
| "fill_search (Suc n) p remaining f limit start =
     (case nextGridAtOrAfter p start of
        None \<Rightarrow> None
      | Some candidate \<Rightarrow>
          (if \<not> before candidate limit then None
           else case placementWithStableOrder p remaining f candidate False of (valid, _, later) \<Rightarrow>
             (if valid then Some candidate else fill_search n p remaining f limit later)))"

definition fill_target :: "preparedPolicy \<Rightarrow> gotime \<Rightarrow> string list \<Rightarrow> allocatedEntry list \<Rightarrow> nat \<Rightarrow> nat \<Rightarrow> nat
    \<Rightarrow> (allocatedEntry list \<times> string) option" where
  "fill_target p tm moved entries gap trailingIndex index =
     (let leading = entries ! gap; trailing = entries ! trailingIndex; target = entries ! index; f = ent_flight target;
          lower = fill_lower p tm f (take (index - Suc gap) (drop (Suc gap) entries));
          remaining = delete_at index entries;
          start = at_or_after lower (t_add (ent_time leading) (requiredGap p (ent_flight leading) f lower)) in
      if Callsign f \<in> set moved \<or> \<not> gapFillEligible f \<or> STARFamily f = STARFamily (ent_flight leading) then None
      else if \<not> before lower (ent_time trailing) then None
      else if Suc index < length entries \<and> \<not> adjacentValid p (entries ! (index - 1)) (entries ! Suc index) then None
      else case fill_search (length remaining + length (gaps p) + length (closures p) + length (rates p) + 1) p remaining f
             (ent_time trailing) start of
        None \<Rightarrow> None
      | Some candidate \<Rightarrow>
          Some (sortEntries (remaining @ [(note_entry ''gap_fill'' target)\<lparr> ent_time := candidate \<rparr>]), Callsign f))"

definition fill_gap :: "preparedPolicy \<Rightarrow> gotime \<Rightarrow> string list \<Rightarrow> allocatedEntry list \<Rightarrow> nat
    \<Rightarrow> (allocatedEntry list \<times> string) option" where
  "fill_gap p tm moved entries gap =
     (let leading = entries ! gap; family = STARFamily (ent_flight leading) in
      if family = '''' then None
      else case index_where (\<lambda>e. STARFamily (ent_flight e) = family) (drop (Suc gap) entries) of
        None \<Rightarrow> None
      | Some k \<Rightarrow>
          (let trailingIndex = Suc gap + k; trailing = entries ! trailingIndex in
           if sameSTARGap p (ent_flight leading) (ent_flight trailing) (ent_time trailing) \<le> intervalAt p (ent_time trailing) then None
           else first_some (fill_target p tm moved entries gap trailingIndex) [Suc trailingIndex..<length entries]))"

definition fill_once :: "preparedPolicy \<Rightarrow> gotime \<Rightarrow> string list \<Rightarrow> allocatedEntry list \<Rightarrow> (allocatedEntry list \<times> string) option" where
  "fill_once p tm moved entries = first_some (fill_gap p tm moved entries) [0..<length entries - 1]"

lemma first_some_Some: "first_some g xs = Some y \<Longrightarrow> \<exists>x \<in> set xs. g x = Some y"
  by (induction xs) (auto split: option.splits)

text \<open>A successful fill moves one flight that has not moved before to an earlier slot.\<close>

lemma fill_once_Some:
  assumes "fill_once p tm moved entries = Some (es, c)"
  obtains gap k index where "gap < k" "k < index" "index < length entries"
    "fill_target p tm moved entries gap k index = Some (es, c)"
proof -
  from assms obtain gap where g: "gap < length entries - 1" "fill_gap p tm moved entries gap = Some (es, c)"
    unfolding fill_once_def by (auto dest!: first_some_Some)
  from g(2) obtain k where k: "first_some (fill_target p tm moved entries gap (Suc gap + k)) [Suc (Suc gap + k)..<length entries] = Some (es, c)"
    by (auto simp: fill_gap_def Let_def split: if_splits option.splits)
  then obtain index where "index \<in> set [Suc (Suc gap + k)..<length entries]" "fill_target p tm moved entries gap (Suc gap + k) index = Some (es, c)"
    by (auto dest!: first_some_Some)
  then show ?thesis by (intro that [of gap "Suc gap + k" index]) auto
qed

lemma fill_target_Some:
  assumes "fill_target p tm moved entries gap k index = Some (es, c)"
  obtains t where "c = Callsign (ent_flight (entries ! index))" "c \<notin> set moved" "gapFillEligible (ent_flight (entries ! index))"
    "es = sortEntries (delete_at index entries @ [(note_entry ''gap_fill'' (entries ! index))\<lparr> ent_time := t \<rparr>])"
    "Suc index < length entries \<Longrightarrow> adjacentValid p (entries ! (index - 1)) (entries ! Suc index)"
    "fill_search (length (delete_at index entries) + length (gaps p) + length (closures p) + length (rates p) + 1) p
       (delete_at index entries) (ent_flight (entries ! index)) (ent_time (entries ! k))
       (at_or_after (fill_lower p tm (ent_flight (entries ! index)) (take (index - Suc gap) (drop (Suc gap) entries)))
          (t_add (ent_time (entries ! gap)) (requiredGap p (ent_flight (entries ! gap)) (ent_flight (entries ! index))
             (fill_lower p tm (ent_flight (entries ! index)) (take (index - Suc gap) (drop (Suc gap) entries)))))) = Some t"
  using assms by (auto simp: fill_target_def Let_def split: if_splits option.splits)

lemma length_sortEntries [simp]: "length (sortEntries es) = length es" by (simp add: sortEntries_def)

lemma fill_once_length:
  assumes "fill_once p tm moved entries = Some (es, c)"
  shows "length es = length entries" "c \<notin> set moved"
proof -
  obtain gap k index where g: "index < length entries" "fill_target p tm moved entries gap k index = Some (es, c)"
    using assms by (rule fill_once_Some)
  from g(2) show "c \<notin> set moved" "length es = length entries"
    by (rule fill_target_Some; use g(1) in \<open>simp add: delete_at_def\<close>)+
qed

function fill_gaps :: "preparedPolicy \<Rightarrow> gotime \<Rightarrow> string list \<Rightarrow> allocatedEntry list \<Rightarrow> allocatedEntry list" where
  "fill_gaps p tm moved entries =
     (if length moved < length entries
      then (case fill_once p tm moved entries of None \<Rightarrow> entries | Some (es, c) \<Rightarrow> fill_gaps p tm (c # moved) es)
      else entries)"
  by pat_completeness auto
termination
  by (relation "measure (\<lambda>(p, tm, moved, es). length es - length moved)") (auto dest: fill_once_length(1))

declare fill_gaps.simps [simp del]

definition fillSTARSpacingGaps :: "preparedPolicy \<Rightarrow> allocatedEntry list \<Rightarrow> gotime \<Rightarrow> allocatedEntry list" where
  "fillSTARSpacingGaps p entries tm =
     (if \<not> AllowCrossFeederOvertake (policy p) then entries else fill_gaps p tm [] entries)"

section \<open>Every attempt is later\<close>

lemma bound_later_ge: "ns l \<le> ns (bound_later l b)" by (simp add: bound_later_def go_time)

lemma leading_check_later: "ns (snd (snd v)) \<le> ns (snd (snd (leading_check p f c ps e v)))"
  using bound_later_ge by (simp add: leading_check_def Let_def split: prod.splits)

lemma trailing_check_later: "ns (snd (snd v)) \<le> ns (snd (snd (trailing_check p f c ps e v)))"
proof -
  have "ns l \<le> ns (bound_later (bound_later l b) b')" for l b b' using bound_later_ge order_trans by blast
  then show ?thesis using bound_later_ge by (simp add: trailing_check_def Let_def split: prod.splits)
qed

lemma holding_checks_later: "ns (snd (snd v)) \<le> ns (snd (snd (foldl (holding_check p f c) v es)))"
proof (induction es arbitrary: v)
  case (Cons e es)
  have "ns (snd (snd v)) \<le> ns (snd (snd (holding_check p f c v e)))"
    using bound_later_ge by (simp add: holding_check_def Let_def split: prod.splits)
  also have "\<dots> \<le> ns (snd (snd (foldl (holding_check p f c) v (e # es))))" using Cons by simp
  finally show ?case .
qed simp

lemma placement_later: "ns c < ns (snd (snd (placementWithStableOrder p es f c ps)))"
proof (cases "(case SlotNotBefore f of None \<Rightarrow> False | Some b \<Rightarrow> before c b) \<or> blockingGap p c \<noteq> None")
  case True
  then show ?thesis using blockingGap_Some(3) [of p c]
    by (auto simp: placementWithStableOrder_def go_time split: option.splits)
next
  case False
  let ?v0 = "(True, t_add c (- 1), t_add c 1)"
  let ?v1 = "if 0 < slot_index es c then leading_check p f c ps (es ! (slot_index es c - 1)) ?v0 else ?v0"
  let ?v2 = "if slot_index es c < length es then trailing_check p f c ps (es ! slot_index es c) ?v1 else ?v1"
  have "placementWithStableOrder p es f c ps =
      (if HoldingQueueTime f \<noteq> None \<or> ArrivalQueueTime f \<noteq> None then foldl (holding_check p f c) ?v2 es else ?v2)"
    using False unfolding placementWithStableOrder_def slot_index_def Let_def by simp
  moreover have "ns c < ns (snd (snd ?v0))" by (simp add: t_add_def)
  moreover have "ns (snd (snd ?v0)) \<le> ns (snd (snd ?v1))" using leading_check_later [of ?v0] by auto
  moreover have "ns (snd (snd ?v1)) \<le> ns (snd (snd ?v2))" using trailing_check_later [of ?v1] by auto
  ultimately show ?thesis using holding_checks_later [of ?v2 p f c es] by (simp split: if_splits)
qed

lemma fill_search_sound:
  assumes "fill_search n p remaining f limit start = Some t" "prepared_ok p"
  shows "on_grid p t \<and> slot_open p t \<and> ns start \<le> ns t \<and> ns t < ns limit \<and> fst (placementWithStableOrder p remaining f t False)"
  using assms
proof (induction n p remaining f limit start rule: fill_search.induct)
  case (2 n p remaining f limit start)
  from "2.prems"(1) obtain c where c: "nextGridAtOrAfter p start = Some c" "before c limit"
    by (auto split: option.splits if_splits)
  obtain valid earlier later where v: "placementWithStableOrder p remaining f c False = (valid, earlier, later)" by (rule prod_cases3)
  note grid = next_grid_Some [OF "2.prems"(2) c(1)]
  show ?case
  proof (cases valid)
    case True
    with "2.prems"(1) c v grid show ?thesis by (auto simp: before_def)
  next
    case False
    with "2.prems"(1) c v have "fill_search n p remaining f limit later = Some t" by simp
    with "2.IH" [OF c(1) _ v [symmetric]] False c(2) "2.prems"(2)
    have "on_grid p t \<and> slot_open p t \<and> ns later \<le> ns t \<and> ns t < ns limit \<and> fst (placementWithStableOrder p remaining f t False)" by blast
    moreover have "ns c < ns later" using placement_later [of c p remaining f False] by (simp add: v)
    ultimately show ?thesis using grid(3) by auto
  qed
qed simp

lemma at_or_after_ge: "ns l \<le> ns (at_or_after l b)" "ns b \<le> ns (at_or_after l b)"
  by (simp_all add: at_or_after_def go_time)

lemma fill_lower_ge: "ns (promotionLowerBound p f tm) \<le> ns (fill_lower p tm f crossed)"
proof -
  have "ns l \<le> ns (foldl (pass_bound f) l crossed)" for l
  proof (induction crossed arbitrary: l)
    case (Cons e es)
    have "ns l \<le> ns (pass_bound f l e)" using at_or_after_ge(1) by (simp add: pass_bound_def)
    also have "\<dots> \<le> ns (foldl (pass_bound f) l (e # es))" using Cons by simp
    finally show ?case .
  qed simp
  moreover have "ns (promotionLowerBound p f tm) \<le> ns (case SlotNotBefore f of None \<Rightarrow> promotionLowerBound p f tm
      | Some b \<Rightarrow> at_or_after (promotionLowerBound p f tm) b)"
    using at_or_after_ge(1) by (simp split: option.split)
  ultimately show ?thesis unfolding fill_lower_def Let_def using order_trans by blast
qed

section \<open>Removing and inserting an entry\<close>

lemma delete_split: "i < length es \<Longrightarrow> \<exists>l r. es = l @ es ! i # r \<and> delete_at i es = l @ r \<and> length l = i"
  by (rule exI [of _ "take i es"], rule exI [of _ "drop (Suc i) es"]) (simp add: delete_at_def id_take_nth_drop [symmetric])

lemma in_time_delete: "in_time p (l @ e # r) \<Longrightarrow> in_time p (l @ r)"
  by (auto simp: in_time_def sorted_append)

text \<open>
  Entries in order that are separated, but for those before a given time: reservations that lie in the
  past are not checked.
\<close>

definition spaced_since :: "preparedPolicy \<Rightarrow> int option \<Rightarrow> allocatedEntry \<Rightarrow> allocatedEntry \<Rightarrow> bool" where
  "spaced_since p since a b \<longleftrightarrow> adjacentValid p a b \<or> (case since of None \<Rightarrow> False | Some t \<Rightarrow> at_ns b < t \<and> \<not> entry_less b a)"

lemma spaced_since_None [simp]: "spaced_since p None = adjacentValid p"
  by (rule ext)+ (simp add: spaced_since_def)

lemma spaced_in_order: "spaced_since p since a b \<Longrightarrow> \<not> entry_less b a"
  by (auto simp: spaced_since_def adjacentValid_def entry_less_def go_time split: option.splits)

text \<open>Where the neighbours fit, the others stay separated without the entry.\<close>

lemma delete_adjacent:
  assumes "successively A (l @ e # r)" "l \<noteq> [] \<Longrightarrow> r \<noteq> [] \<Longrightarrow> A (last l) (hd r)"
  shows "successively A (l @ r)"
  using assms by (auto simp: successively_append_iff successively_Cons)

text \<open>A valid placement keeps the spacing to both neighbours, with or without the stable order.\<close>

lemma insert_spaced:
  assumes "prepared_ok p" "in_time p es" "successively (spaced_since p since) es"
    and "fst (placementWithStableOrder p es f c ps)" "ent_time e = c"
    and same: "\<And>g t. requiredGap p (ent_flight e) g t = requiredGap p f g t" "\<And>g t. requiredGap p g (ent_flight e) t = requiredGap p g f t"
  shows "successively (spaced_since p since) (sortEntries (es @ [e]))"
proof -
  let ?i = "slot_index es c"
  define l r where "l = take ?i es" and "r = drop ?i es"
  have es: "es = l @ r" by (simp add: l_def r_def)
  have srt: "sorted (map at_ns es)" using assms(2) by (simp add: in_time_def)
  note sp = slot_index_split [OF srt, of c]
  have bef: "\<forall>x \<in> set l. at_ns x < ns c" using sp(1) by (simp add: l_def)
  have aft: "\<forall>x \<in> set r. ns c < at_ns x" unfolding r_def using placed_after [OF assms(1,2,4)] by blast
  note v = placement_valid [OF assms(4)]
  have ins: "sortEntries (es @ [e]) = l @ e # r"
    unfolding sortEntries_def es
  proof (rule go_sort_insert)
    show "successively (\<lambda>a b. \<not> entry_less b a) (l @ r)" using assms(3) unfolding es by (rule successively_mono) (rule spaced_in_order)
    show "l = [] \<or> \<not> entry_less e (last l)" using bef by (cases "l = []") (auto simp: entry_less_def go_time assms(5) dest!: last_in_set)
    show "\<forall>x \<in> set r. entry_less e x" using aft by (auto simp: entry_less_def go_time assms(5))
  qed
  have parts: "successively (spaced_since p since) l" "successively (spaced_since p since) r"
    using assms(3) unfolding es successively_append_iff by blast+
  have left: "spaced_since p since (last l) e" if "l \<noteq> []"
  proof -
    from that have i: "0 < ?i" "es \<noteq> []" by (auto simp: l_def)
    with sp(3) have n: "last l = es ! (?i - 1)" by (simp add: l_def last_conv_nth)
    have "at_ns (last l) < ns c" using that bef by simp
    with v(3) [OF i(1)] show ?thesis by (simp add: spaced_since_def adjacentValid_def n after_def assms(5) same)
  qed
  have right: "spaced_since p since e (hd r)" if "r \<noteq> []"
  proof -
    from that have i: "?i < length es" by (simp add: r_def)
    have h: "hd r = es ! ?i" using i by (simp add: r_def hd_drop_conv_nth)
    have "ns c < at_ns (hd r)" using that aft by simp
    with v(4) [OF i] show ?thesis by (simp add: spaced_since_def adjacentValid_def h after_def assms(5) same)
  qed
  have "successively (spaced_since p since) (l @ [e] @ r)"
    unfolding successively_append_iff using parts left right by auto
  then show ?thesis by (simp add: ins)
qed

section \<open>What a fill may do\<close>

definition not_before :: "'a Flight_scheme \<Rightarrow> gotime \<Rightarrow> bool" where
  "not_before f t = (case SlotNotBefore f of None \<Rightarrow> True | Some b \<Rightarrow> ns b \<le> ns t)"

definition advanced :: "preparedPolicy \<Rightarrow> gotime \<Rightarrow> allocatedEntry \<Rightarrow> allocatedEntry \<Rightarrow> bool" where
  "advanced p tm a b \<longleftrightarrow> b = a \<or>
     core (ent_flight b) = core (ent_flight a) \<and> ent_reason b = ent_reason a \<and> at_ns b < at_ns a \<and>
     gapFillEligible (ent_flight a) \<and> on_grid p (ent_time b) \<and> slot_open p (ent_time b) \<and>
     ns (promotionLowerBound p (ent_flight a) tm) \<le> at_ns b \<and> not_before (ent_flight a) (ent_time b)"

lemma core_bounds:
  "gapFillEligible (core f) = gapFillEligible f" "promotionLowerBound p (core f) tm = promotionLowerBound p f tm"
  "not_before (core f) t = not_before f t"
  by (simp_all add: core_def gapFillEligible_def promotionLowerBound_def not_before_def)

lemma advanced_refl [simp]: "advanced p tm a a" by (simp add: advanced_def)

lemma advanced_trans: "advanced p tm a b \<Longrightarrow> advanced p tm b c \<Longrightarrow> advanced p tm a c"
  unfolding advanced_def by (metis core_bounds order.strict_trans)

definition rearranged :: "preparedPolicy \<Rightarrow> gotime \<Rightarrow> allocatedEntry list \<Rightarrow> allocatedEntry list \<Rightarrow> bool" where
  "rearranged p tm es es' \<longleftrightarrow> (\<exists>ys. mset ys = mset es' \<and> list_all2 (advanced p tm) es ys)"

lemma rearranged_refl: "rearranged p tm es es"
  unfolding rearranged_def by (rule exI [of _ es]) (simp add: list_all2_conv_all_nth)

lemma rearranged_trans:
  assumes "rearranged p tm xs ys" "rearranged p tm ys zs"
  shows "rearranged p tm xs zs"
proof -
  from assms obtain us vs where u: "mset us = mset ys" "list_all2 (advanced p tm) xs us" and v: "mset vs = mset zs" "list_all2 (advanced p tm) ys vs"
    by (auto simp: rearranged_def)
  from list_all2_reorder_left_invariance [OF v(2) u(1)] obtain ws where w: "list_all2 (advanced p tm) us ws" "mset ws = mset vs" by blast
  have "list_all2 (advanced p tm) xs ws" by (rule list_all2_trans [OF advanced_trans u(2) w(1)])
  with w(2) v(1) show ?thesis unfolding rearranged_def by auto
qed

lemma fill_target_safe:
  assumes "fill_target p tm moved entries gap k i = Some (es, c)" "gap < k" "k < i" "i < length entries"
    and "prepared_ok p" "in_time p entries" "successively (spaced_since p since) entries"
  shows "in_time p es \<and> successively (spaced_since p since) es \<and> rearranged p tm entries es"
proof -
  let ?x = "entries ! i" let ?f = "ent_flight ?x"
  let ?low = "fill_lower p tm ?f (take (i - Suc gap) (drop (Suc gap) entries))"
  let ?start = "at_or_after ?low (t_add (ent_time (entries ! gap)) (requiredGap p (ent_flight (entries ! gap)) ?f ?low))"
  from assms(1) obtain t where t0: "gapFillEligible ?f" "es = sortEntries (delete_at i entries @ [(note_entry ''gap_fill'' ?x)\<lparr> ent_time := t \<rparr>])"
      "Suc i < length entries \<Longrightarrow> adjacentValid p (entries ! (i - 1)) (entries ! Suc i)"
      "fill_search (length (delete_at i entries) + length (gaps p) + length (closures p) + length (rates p) + 1) p
         (delete_at i entries) ?f (ent_time (entries ! k)) ?start = Some t"
    by (rule fill_target_Some) blast
  have s: "on_grid p t \<and> slot_open p t \<and> ns ?start \<le> ns t \<and> ns t < at_ns (entries ! k) \<and>
      fst (placementWithStableOrder p (delete_at i entries) ?f t False)"
    by (rule fill_search_sound [OF t0(4) assms(5)])
  have "ns (promotionLowerBound p ?f tm) \<le> ns ?start" by (rule order_trans [OF fill_lower_ge at_or_after_ge(1)])
  then have low: "ns (promotionLowerBound p ?f tm) \<le> ns t" using s by linarith
  obtain l r where lr: "entries = l @ ?x # r" "delete_at i entries = l @ r" "length l = i"
    using delete_split [OF assms(4)] by blast
  let ?y = "(note_entry ''gap_fill'' ?x)\<lparr> ent_time := t \<rparr>"
  have y: "ent_flight ?y = noteOperation ''gap_fill'' ?f" "ent_time ?y = t" "core (ent_flight ?y) = core ?f" "ent_reason ?y = ent_reason ?x"
    by (simp_all add: noted)
  have "at_ns (entries ! k) \<le> at_ns ?x"
    using sorted_nth_mono [of "map at_ns entries" k i] assms(3,4,6) by (simp add: in_time_def)
  moreover have "not_before ?f t" using placement_valid(1) [of p "delete_at i entries" ?f t False] s unfolding not_before_def by blast
  ultimately have adv: "advanced p tm ?x ?y" using s low t0(1) y unfolding advanced_def y by auto
  have time: "in_time p (l @ r)" using assms(6) in_time_delete lr(1) by metis
  have adj: "successively (spaced_since p since) (l @ r)"
  proof (rule delete_adjacent)
    show "successively (spaced_since p since) (l @ ?x # r)" using assms(7) lr(1) by simp
    assume n: "l \<noteq> []" "r \<noteq> []"
    have len: "length entries = i + 1 + length r" using lr(1,3) by (metis Suc_eq_plus1 add_Suc_right add.commute length_Cons length_append add_Suc)
    with n(2) have i: "Suc i < length entries" by simp
    have "entries ! (i - 1) = last l" "entries ! Suc i = hd r"
      using n lr(3) arg_cong [OF lr(1), of "\<lambda>xs. xs ! (i - 1)"] arg_cong [OF lr(1), of "\<lambda>xs. xs ! Suc i"]
      by (auto simp: last_conv_nth hd_conv_nth nth_append)
    with t0(3) [OF i] show "spaced_since p since (last l) (hd r)" by (simp add: spaced_since_def)
  qed
  have "in_time p (sortEntries ((l @ r) @ [?y]))" by (rule in_time_insert [OF assms(5) time]) (simp add: s)
  moreover have "successively (spaced_since p since) (sortEntries ((l @ r) @ [?y]))"
    using s lr(2) by (intro insert_spaced [OF assms(5) time adj, where f = ?f and c = t and ps = False]) (simp_all add: noted)
  moreover have "rearranged p tm entries (sortEntries ((l @ r) @ [?y]))"
    unfolding rearranged_def
  proof (intro exI conjI)
    show "mset (l @ ?y # r) = mset (sortEntries ((l @ r) @ [?y]))" by simp
    have "list_all2 (advanced p tm) (l @ ?x # r) (l @ ?y # r)"
      using adv by (intro list_all2_appendI list.rel_intros) (simp_all add: list_all2_conv_all_nth)
    then show "list_all2 (advanced p tm) entries (l @ ?y # r)" using lr(1) by simp
  qed
  ultimately show ?thesis by (simp add: t0(2) lr(2))
qed

lemma fill_gaps_safe:
  assumes "prepared_ok p" "in_time p entries" "successively (spaced_since p since) entries"
  shows "in_time p (fill_gaps p tm moved entries) \<and> successively (spaced_since p since) (fill_gaps p tm moved entries) \<and>
    rearranged p tm entries (fill_gaps p tm moved entries)"
  using assms
proof (induction p tm moved entries rule: fill_gaps.induct)
  case (1 p tm moved entries)
  show ?case
  proof (cases "length moved < length entries \<and> fill_once p tm moved entries \<noteq> None")
    case True
    then obtain es c where f: "fill_once p tm moved entries = Some (es, c)" and less: "length moved < length entries" by auto
    from f obtain gap k i where t: "gap < k" "k < i" "i < length entries" "fill_target p tm moved entries gap k i = Some (es, c)"
      by (rule fill_once_Some)
    note safe = fill_target_safe [OF t(4,1-3) "1.prems"]
    have "fill_gaps p tm moved entries = fill_gaps p tm (c # moved) es" using f less by (subst fill_gaps.simps) simp
    with "1.IH" [OF less f refl] safe "1.prems"(1) rearranged_trans [of p tm entries es] show ?thesis by auto
  next
    case False
    then have "fill_gaps p tm moved entries = entries" by (subst fill_gaps.simps) (auto split: option.split)
    with "1.prems" rearranged_refl show ?thesis by simp
  qed
qed

text \<open>
  C7. Filling the gaps of same-STAR spacing is safe: every flight stays in the sequence, once; a flight
  keeps its time or moves to an earlier open slot of the grid, no earlier than the lower bound of a
  promotion and its own bound, and only where it is eligible; and the sequence stays separated.
\<close>

theorem gap_filling_is_safe:
  assumes "prepared_ok p" "in_time p entries" "successively (adjacentValid p) entries"
  shows "successively (adjacentValid p) (fillSTARSpacingGaps p entries tm) \<and>
    (\<exists>es. mset es = mset (fillSTARSpacingGaps p entries tm) \<and> list_all2 (advanced p tm) entries es)"
  using fill_gaps_safe [where since = None] assms rearranged_refl by (simp add: fillSTARSpacingGaps_def rearranged_def)

section \<open>A sample gap\<close>

text \<open>
  Two arrivals of one STAR have to be six minutes apart; a flight of another STAR, planned behind them,
  fits between.
\<close>

definition gap_traffic :: Input where
  "gap_traffic = \<lparr> in_Revision = 1,
     in_Policies = [(sample_policy False)\<lparr> AllowCrossFeederOvertake := True,
       pol_SameSTARSpacing := \<lparr> Enabled = True, ActivationRatePerHour = 1, MinimumEmptySlots = 2 \<rparr> \<rparr>], in_STARFamilyPolicies = [],
     in_Flights = [(sample_flight ''SAS1'' (3 * hour) ''M'')\<lparr> STARFamily := ''ROSBI'', CurrentSlot := Some (sample_slot (3 * hour) 1) \<rparr>,
       (sample_flight ''SAS2'' (3 * hour) ''M'')\<lparr> STARFamily := ''ROSBI'', DemandArrivalAt := Some (Time (3 * hour) UTC),
          CurrentSlot := Some (sample_slot (3 * hour + 6 * minute) 2) \<rparr>,
       (sample_flight ''SAS3'' (3 * hour) ''M'')\<lparr> STARFamily := ''TUDLO'', PromotionNotBefore := Some (Time (3 * hour) UTC),
          CurrentSlot := Some (sample_slot (3 * hour + 8 * minute) 3) \<rparr>] \<rparr>"

definition gap_ready :: "(string \<times> preparedPolicy) list \<times> preparedFlight list" where
  "gap_ready = projr (prepareInput gap_traffic)"

definition gap_policy :: preparedPolicy where "gap_policy = snd (fst gap_ready ! 0)"

definition gap_entries :: "allocatedEntry list" where
  "gap_entries = map (\<lambda>f. \<lparr> ent_flight = f, ent_time = slot_Time (the (CurrentSlot f)), ent_reason = ReasonStable \<rparr>) (snd gap_ready)"

lemma gap_ready_ok: "prepareInput gap_traffic = Inr (fst gap_ready, snd gap_ready)" "(''22L'', gap_policy) \<in> set (fst gap_ready)"
  by code_simp+

theorem gap_filling_is_safe_witness:
  "map (\<lambda>e. (Callsign (ent_flight e), at_ns e div minute)) (fillSTARSpacingGaps gap_policy gap_entries (Time (2 * hour) UTC)) =
     [(''SAS1'', 180), (''SAS3'', 182), (''SAS2'', 186)] \<and>
   successively (adjacentValid gap_policy) (fillSTARSpacingGaps gap_policy gap_entries (Time (2 * hour) UTC))"
proof -
  have ok: "prepared_ok gap_policy" using prepareInput_ok(2) [OF gap_ready_ok] by (simp add: policy_ok_def)
  have "list_all (\<lambda>e. ns (first_rate gap_policy) \<le> at_ns e) gap_entries" "sorted (map at_ns gap_entries)" by code_simp+
  then have time: "in_time gap_policy gap_entries" by (simp add: in_time_def list_all_iff)
  have "spacing_warnings gap_policy gap_entries = []" by code_simp
  then have "successively (adjacentValid gap_policy) gap_entries" by (simp add: spacing_warnings_Nil)
  from gap_filling_is_safe [OF ok time this, of "Time (2 * hour) UTC"]
  have "successively (adjacentValid gap_policy) (fillSTARSpacingGaps gap_policy gap_entries (Time (2 * hour) UTC))" by blast
  moreover have "map (\<lambda>e. (Callsign (ent_flight e), at_ns e div minute)) (fillSTARSpacingGaps gap_policy gap_entries (Time (2 * hour) UTC)) =
      [(''SAS1'', 180), (''SAS3'', 182), (''SAS2'', 186)]" by code_simp
  ultimately show ?thesis by blast
qed

end
