(* ===== verification/Sequence_Queue.thy ===== *)
theory Sequence_Queue
  imports Sequence_Gap_Fill Sequence_Go_Around
begin

text \<open>
  Vacancy promotion and queue offers: \<^verbatim>\<open>internal/aman/sequence/queue.go\<close> without the projection of
  offers onto the airport state (\<^verbatim>\<open>ProjectQueueOffers\<close>).

  An offer is an occupied earlier slot that a flight could take; a promotion moves a flight into an
  earlier slot that nobody occupies. The compaction of stable flights tries one slot of the grid after
  the other; it is a \<^theory_text>\<open>partial_function (option)\<close>, as its step is the rate interval, and returns for
  every policy that passes preparation. \<open>None\<close> as a result of \<open>GenerateWithVacancyPromotions\<close> is a call
  that never returns (see \<open>generate\<close>) or fails with a nil pointer.

  The reason of a slot is a text in the code and an engine reason in \<open>allocatedEntry\<close>: \<open>text_reason\<close> reads
  it back. The texts that reach an \<open>allocatedEntry\<close> whose reason is looked at are the engine's own.
\<close>

section \<open>Queue entries\<close>

record QueueOffer =
  qo_Callsign :: string
  qo_RunwayGroupID :: string
  CandidateSlot :: Slot
  QueuePosition :: nat
  ExpiresAt :: gotime
  AirportRevision :: nat
  qo_Reason :: string

record VacancyPromotion =
  vp_Callsign :: string
  vp_From :: Slot
  vp_To :: Slot

record queueEntry =
  qe_flight :: preparedFlight
  qe_slot :: Slot

record pendingOffer =
  pend_offer :: QueueOffer
  assignedSequence :: int
  pend_flight :: preparedFlight

datatype queue_error =
    QueueRefused string
  | QueueEngine seq_error
  | BaselineFlightMissing string string
  | StaleSlot string
  | UnorderedSlots string

definition queue_name :: "queueEntry \<Rightarrow> string" where "queue_name e = Callsign (qe_flight e)"
definition queue_time :: "queueEntry \<Rightarrow> gotime" where "queue_time e = slot_Time (qe_slot e)"

definition all_reasons :: "CandidateReason list" where
  "all_reasons = [ReasonRateWTC, ReasonFreezeSuperstable, ReasonFreezeTMA, ReasonFreezeManual, ReasonStable, ReasonQueuePromotion,
     ReasonGoAround, ReasonGoAroundCascade]"

definition text_reason :: "string \<Rightarrow> CandidateReason" where
  "text_reason s = (case find (\<lambda>r. reason_text r = s) all_reasons of None \<Rightarrow> ReasonRateWTC | Some r \<Rightarrow> r)"

definition queue_allocated :: "queueEntry \<Rightarrow> allocatedEntry" where
  "queue_allocated e = \<lparr> ent_flight = qe_flight e, ent_time = queue_time e, ent_reason = text_reason (slot_Reason (qe_slot e)) \<rparr>"

definition frozen_or_ordered :: "preparedFlight \<Rightarrow> bool" where
  "frozen_or_ordered f \<longleftrightarrow> fl_FreezeReason f \<noteq> FreezeNone \<or> ManualOrder f \<noteq> None"

definition queueEntryIndex :: "queueEntry list \<Rightarrow> string \<Rightarrow> nat option" where
  "queueEntryIndex es c = index_where (\<lambda>e. queue_name e = c) es"

definition queueSlotOccupied :: "queueEntry list \<Rightarrow> Slot \<Rightarrow> bool" where
  "queueSlotOccupied es s \<longleftrightarrow> list_ex (\<lambda>e. t_equal (queue_time e) (slot_Time s)) es"

definition crossesProtectedTime :: "queueEntry list \<Rightarrow> gotime \<Rightarrow> gotime \<Rightarrow> bool" where
  "crossesProtectedTime es candidateTime targetTime \<longleftrightarrow>
     list_ex (\<lambda>e. after (queue_time e) candidateTime \<and> before (queue_time e) targetTime \<and> frozen_or_ordered (qe_flight e)) es"

definition crossesStableOrder :: "queueEntry list \<Rightarrow> preparedFlight \<Rightarrow> gotime \<Rightarrow> bool" where
  "crossesStableOrder es target candidate =
     (case stableOrder target of None \<Rightarrow> False
      | Some n \<Rightarrow> list_ex (\<lambda>e. queue_name e \<noteq> Callsign target \<and>
          (case stableOrder (qe_flight e) of None \<Rightarrow> False
           | Some m \<Rightarrow> m < n \<and> \<not> after candidate (queue_time e) \<or> n < m \<and> \<not> before candidate (queue_time e))) es)"

definition isGridSlot :: "preparedPolicy \<Rightarrow> gotime \<Rightarrow> bool" where
  "isGridSlot p candidate = (case previousGridAtOrBefore p candidate of None \<Rightarrow> False | Some grid \<Rightarrow> t_equal grid candidate)"

definition queueEligible :: "preparedFlight \<Rightarrow> bool" where
  "queueEligible f \<longleftrightarrow> (fl_State f = StateUnstable \<or> fl_State f = StateStable) \<and> fl_FreezeReason f = FreezeNone \<and>
     ManualOrder f = None \<and> ReleaseRank f = None"

definition stablePromotionEligible :: "preparedFlight \<Rightarrow> bool" where
  "stablePromotionEligible f \<longleftrightarrow> (fl_State f = StateStable \<or> HoldingSlotProtected f) \<and> ManualOrder f = None \<and> ReleaseRank f = None \<and>
     CurrentSlot f \<noteq> None \<and>
     (case fl_FreezeReason f of FreezeNone \<Rightarrow> ProtectCurrentSlot f | FreezeSuperstable \<Rightarrow> CapturedSlot f \<noteq> None | _ \<Rightarrow> False)"

definition queue_time_less :: "queueEntry \<Rightarrow> queueEntry \<Rightarrow> bool" where
  "queue_time_less a b =
     (if \<not> t_equal (queue_time a) (queue_time b) then before (queue_time a) (queue_time b)
      else if slot_Sequence (qe_slot a) \<noteq> slot_Sequence (qe_slot b) then slot_Sequence (qe_slot a) < slot_Sequence (qe_slot b)
      else queue_name a < queue_name b)"

definition offer_less :: "QueueOffer \<Rightarrow> QueueOffer \<Rightarrow> bool" where
  "offer_less a b =
     (let s = CandidateSlot a; t = CandidateSlot b in
      if qo_RunwayGroupID a \<noteq> qo_RunwayGroupID b then qo_RunwayGroupID a < qo_RunwayGroupID b
      else if slot_Sequence s \<noteq> slot_Sequence t then slot_Sequence s < slot_Sequence t
      else if \<not> t_equal (slot_Time s) (slot_Time t) then before (slot_Time s) (slot_Time t)
      else if QueuePosition a \<noteq> QueuePosition b then QueuePosition a < QueuePosition b
      else qo_Callsign a < qo_Callsign b)"

section \<open>Promotion into vacated slots\<close>

text \<open>The working state of one runway group: its entries, the slots of the promoted flights (the latest
  first) and the promotions to report.\<close>

record vacancies =
  vac_entries :: "queueEntry list"
  vac_slots :: promotions
  vac_promotions :: "VacancyPromotion list"

definition promote :: "string \<Rightarrow> Slot \<Rightarrow> Slot \<Rightarrow> VacancyPromotion list \<Rightarrow> VacancyPromotion list" where
  "promote c from_slot to_slot ps =
     (case index_where (\<lambda>p. vp_Callsign p = c) ps of
        Some i \<Rightarrow> ps[i := (ps ! i)\<lparr> vp_To := to_slot \<rparr>]
      | None \<Rightarrow> ps @ [\<lparr> vp_Callsign = c, vp_From = from_slot, vp_To = to_slot \<rparr>])"

definition move_entry :: "nat \<Rightarrow> Slot \<Rightarrow> queueEntry list \<Rightarrow> queueEntry list" where
  "move_entry i s es = go_sort queue_time_less (es[i := (es ! i)\<lparr> qe_slot := s \<rparr>])"

text \<open>Whether an unoccupied offered slot can be taken by the entry with the given index.\<close>

definition offer_fits :: "preparedPolicy \<Rightarrow> gotime \<Rightarrow> queueEntry list \<Rightarrow> nat \<Rightarrow> gotime \<Rightarrow> bool" where
  "offer_fits p tm es i t \<longleftrightarrow>
     (let target = es ! i; f = qe_flight target in
      queueEligible f \<and> before t (queue_time target) \<and> isGridSlot p t \<and> \<not> before t (promotionLowerBound p f tm) \<and>
      \<not> crossesProtectedTime es t (queue_time target) \<and> \<not> crossesStableOrder es f t \<and>
      fst (placement p (map queue_allocated (delete_at i es)) f t))"

definition take_offer :: "preparedPolicy \<Rightarrow> string \<Rightarrow> nat \<Rightarrow> gotime \<Rightarrow> vacancies \<Rightarrow> QueueOffer \<Rightarrow> vacancies" where
  "take_offer p g revision tm v offer =
     (let s = CandidateSlot offer; es = vac_entries v; c = qo_Callsign offer in
      if qo_RunwayGroupID offer \<noteq> g \<or> AirportRevision offer \<noteq> revision \<or> slot_Revision s \<noteq> revision \<or>
         slot_RunwayGroupID s \<noteq> g \<or> \<not> after (ExpiresAt offer) tm then v
      else if map_of (vac_slots v) c \<noteq> None then v
      else if queueSlotOccupied es s then v
      else case queueEntryIndex es c of None \<Rightarrow> v
      | Some i \<Rightarrow>
          (if \<not> offer_fits p tm es i (slot_Time s) then v
           else case CurrentSlot (qe_flight (es ! i)) of None \<Rightarrow> v
           | Some current \<Rightarrow>
               \<lparr> vac_entries = move_entry i s es, vac_slots = (c, s) # vac_slots v,
                 vac_promotions = vac_promotions v @ [\<lparr> vp_Callsign = c, vp_From = current, vp_To = s \<rparr>] \<rparr>))"

text \<open>The first instant a stable flight may move to without passing a protected or an earlier stable flight.\<close>

definition compact_bound :: "queueEntry \<Rightarrow> gotime \<Rightarrow> queueEntry \<Rightarrow> gotime" where
  "compact_bound target lower e =
     (if queue_name e = queue_name target \<or> \<not> before (queue_time e) (queue_time target) then lower
      else if frozen_or_ordered (qe_flight e) \<or>
              (case (stableOrder (qe_flight target), stableOrder (qe_flight e)) of (Some n, Some m) \<Rightarrow> m < n | _ \<Rightarrow> False)
        then at_or_after lower (t_add (queue_time e) 1)
      else lower)"

partial_function (option) compact_search :: "preparedPolicy \<Rightarrow> queueEntry list \<Rightarrow> allocatedEntry list \<Rightarrow> queueEntry \<Rightarrow> gotime \<Rightarrow> gotime option option" where
  "compact_search p es remaining target start =
     (case nextGridAtOrAfter p start of
        None \<Rightarrow> Some None
      | Some c \<Rightarrow>
          (if \<not> before c (queue_time target) then Some None
           else (let clear = (\<not> crossesProtectedTime es c (queue_time target) \<and> \<not> crossesStableOrder es (qe_flight target) c);
                     v = placement p remaining (qe_flight target) c; later = snd (snd v) in
             if clear \<and> fst v then Some (Some c)
             else if clear \<and> after later c then compact_search p es remaining target later
             else compact_search p es remaining target (t_add c (if ContinuousSpacing (policy p) then intervalAt p c else 1)))))"

declare compact_search.simps [code]

definition promoted_slot :: "Slot \<Rightarrow> gotime \<Rightarrow> Slot" where
  "promoted_slot s t = s\<lparr> slot_Time := t, slot_Reason := reason_text ReasonQueuePromotion \<rparr>"

definition compact_flight :: "preparedPolicy \<Rightarrow> gotime \<Rightarrow> vacancies \<Rightarrow> string \<Rightarrow> vacancies option" where
  "compact_flight p tm v c =
     (let es = vac_entries v in
      case queueEntryIndex es c of None \<Rightarrow> Some v
      | Some i \<Rightarrow>
          (let target = es ! i;
               lower = foldl (compact_bound target) (promotionLowerBound p (qe_flight target) tm) es in
           case compact_search p es (map queue_allocated (delete_at i es)) target lower of
             None \<Rightarrow> None
           | Some None \<Rightarrow> Some v
           | Some (Some t) \<Rightarrow>
               (case CurrentSlot (qe_flight target) of None \<Rightarrow> None
                | Some current \<Rightarrow>
                    (let s = promoted_slot (qe_slot target) t in
                     Some \<lparr> vac_entries = move_entry i s es, vac_slots = (c, s) # vac_slots v,
                            vac_promotions = promote c current s (vac_promotions v) \<rparr>))))"

fun fold_option :: "('a \<Rightarrow> 'b \<Rightarrow> 'a option) \<Rightarrow> 'a \<Rightarrow> 'b list \<Rightarrow> 'a option" where
  "fold_option g a [] = Some a"
| "fold_option g a (x # xs) = (case g a x of None \<Rightarrow> None | Some a' \<Rightarrow> fold_option g a' xs)"

definition compactStableFlights :: "preparedPolicy \<Rightarrow> gotime \<Rightarrow> vacancies \<Rightarrow> vacancies option" where
  "compactStableFlights p tm v =
     fold_option (compact_flight p tm) v (map queue_name (filter (\<lambda>e. stablePromotionEligible (qe_flight e)) (vac_entries v)))"

definition take_fill :: "queueEntry list \<Rightarrow> promotions \<times> VacancyPromotion list \<times> Flight list \<Rightarrow> allocatedEntry
    \<Rightarrow> (promotions \<times> VacancyPromotion list \<times> Flight list) option" where
  "take_fill es st e =
     (let c = Callsign (ent_flight e) in
      case st of (slots, ps, fs) \<Rightarrow>
      case queueEntryIndex es c of None \<Rightarrow> None
      | Some i \<Rightarrow>
          (let previous = qe_slot (es ! i); s = promoted_slot previous (ent_time e) in
           if \<not> before (ent_time e) (slot_Time previous) then Some st
           else Some ((c, s) # slots,
             (case CurrentSlot (ent_flight e) of None \<Rightarrow> ps | Some current \<Rightarrow> promote c current s ps),
             map (\<lambda>f. if Callsign f = c then f\<lparr> Operations := Operations f @ [''gap_fill''] \<rparr> else f) fs)))"

fun baseline_entries :: "nat \<Rightarrow> string \<Rightarrow> preparedFlight list \<Rightarrow> CandidateEntry list \<Rightarrow> queue_error + queueEntry list" where
  "baseline_entries revision g flights [] = Inr []"
| "baseline_entries revision g flights (c # cs) =
     (if ce_RunwayGroupID c \<noteq> g then baseline_entries revision g flights cs
      else case find (\<lambda>f. Callsign f = ce_Callsign c) flights of
        None \<Rightarrow> Inl (BaselineFlightMissing (ce_Callsign c) g)
      | Some f \<Rightarrow>
          (case baseline_entries revision g flights cs of Inl e \<Rightarrow> Inl e
           | Inr es \<Rightarrow> Inr (\<lparr> qe_flight = f, qe_slot = \<lparr> slot_Time = ce_Time c, slot_RunwayGroupID = g, slot_Sequence = int (ce_Sequence c),
                 slot_Revision = revision, slot_Reason = reason_text (ce_Reason c) \<rparr> \<rparr> # es)))"

definition baselineQueueEntries :: "nat \<Rightarrow> string \<Rightarrow> preparedFlight list \<Rightarrow> SeqResult \<Rightarrow> queue_error + queueEntry list" where
  "baselineQueueEntries revision g flights baseline = baseline_entries revision g flights (res_Entries baseline)"

definition promote_group :: "Input \<Rightarrow> SeqResult \<Rightarrow> QueueOffer list \<Rightarrow> gotime \<Rightarrow> preparedPolicy \<Rightarrow> string \<Rightarrow> preparedFlight list
    \<Rightarrow> promotions \<times> VacancyPromotion list \<times> Flight list \<Rightarrow> (queue_error + promotions \<times> VacancyPromotion list \<times> Flight list) option" where
  "promote_group input baseline offers tm p g flights st =
     (case st of (slots, ps, fs) \<Rightarrow>
      case baselineQueueEntries (in_Revision input) g flights baseline of Inl e \<Rightarrow> Some (Inl e)
      | Inr es \<Rightarrow>
          (case compactStableFlights p tm (foldl (take_offer p g (in_Revision input) tm)
               \<lparr> vac_entries = es, vac_slots = slots, vac_promotions = ps \<rparr> offers) of
             None \<Rightarrow> None
           | Some v \<Rightarrow>
               map_option Inr (fold_option (take_fill (vac_entries v)) (vac_slots v, vac_promotions v, fs)
                 (fillSTARSpacingGaps p (map queue_allocated (vac_entries v)) tm))))"

fun promote_groups :: "Input \<Rightarrow> SeqResult \<Rightarrow> QueueOffer list \<Rightarrow> gotime \<Rightarrow> (string \<times> preparedPolicy) list \<Rightarrow> preparedFlight list \<Rightarrow> string list
    \<Rightarrow> promotions \<times> VacancyPromotion list \<times> Flight list \<Rightarrow> (queue_error + promotions \<times> VacancyPromotion list \<times> Flight list) option" where
  "promote_groups input baseline offers tm policies flights [] st = Some (Inr st)"
| "promote_groups input baseline offers tm policies flights (g # gs) st =
     (case promote_group input baseline offers tm (the (map_of policies g)) g (group_flights g flights) st of
        None \<Rightarrow> None | Some (Inl e) \<Rightarrow> Some (Inl e)
      | Some (Inr st') \<Rightarrow> promote_groups input baseline offers tm policies flights gs st')"

definition reserved_baseline :: "SeqResult \<Rightarrow> Flight \<Rightarrow> Flight" where
  "reserved_baseline baseline f =
     (let f = f\<lparr> Operations := Operations f @ map snd (filter (\<lambda>op. fst op = Callsign f) (res_Operations baseline)) \<rparr> in
      case CurrentSlot f of None \<Rightarrow> f
      | Some s \<Rightarrow>
          (if ManualOrder f \<noteq> None \<or> \<not> (fl_State f = StateStable \<or> HoldingSlotProtected f) then f
           else case find (\<lambda>e. ce_Callsign e = Callsign f) (rev (res_Entries baseline)) of None \<Rightarrow> f
           | Some e \<Rightarrow> f\<lparr> CurrentSlot := Some (s\<lparr> slot_Sequence := int (ce_Sequence e),
                 slot_Time := (if ce_Reason e = ReasonStable then ce_Time e else slot_Time s) \<rparr>) \<rparr>))"

definition vacancyBaselineInput :: "Input \<Rightarrow> SeqResult \<Rightarrow> Input" where
  "vacancyBaselineInput input baseline =
     (let working = cloneInput input in working\<lparr> in_Flights := map (reserved_baseline baseline) (in_Flights working) \<rparr>)"

definition bare_flight :: "Flight \<Rightarrow> preparedFlight" where
  "bare_flight f = Flight.extend f (preparedFlight.fields '''' False None HoldingSequenceUnset)"

definition flight_named :: "Input \<Rightarrow> string \<Rightarrow> Flight option" where
  "flight_named input c = find (\<lambda>f. Callsign f = c) (rev (in_Flights input))"

definition reported :: "Input \<Rightarrow> SeqResult \<Rightarrow> VacancyPromotion \<Rightarrow> VacancyPromotion option" where
  "reported input r p =
     map_option (\<lambda>current. p\<lparr> vp_From := current,
         vp_To := (case find (\<lambda>e. ce_Callsign e = vp_Callsign p) (res_Entries r) of None \<Rightarrow> vp_To p
           | Some e \<Rightarrow> \<lparr> slot_Time = ce_Time e, slot_RunwayGroupID = ce_RunwayGroupID e, slot_Sequence = int (ce_Sequence e),
               slot_Revision = in_Revision input, slot_Reason = reason_text (ce_Reason e) \<rparr>) \<rparr>)
       (Option.bind (flight_named input (vp_Callsign p)) CurrentSlot)"

type_synonym promoted = "(queue_error + SeqResult \<times> VacancyPromotion list) option"

definition report_promotions :: "Input \<Rightarrow> SeqResult \<Rightarrow> VacancyPromotion list \<Rightarrow> promoted" where
  "report_promotions input r ps =
     (let movements = List.map_filter (\<lambda>e. Option.bind (flight_named input (ce_Callsign e)) (\<lambda>f. movementFor (bare_flight f) e)) (res_Entries r) in
      map_option (\<lambda>ps'. Inr (r\<lparr> res_Movements := movements \<rparr>, ps')) (those (map (reported input r) ps)))"

definition promote_into :: "Input \<Rightarrow> Input \<Rightarrow> promotions \<times> VacancyPromotion list \<times> Flight list \<Rightarrow> promoted" where
  "promote_into input working st =
     (case st of (slots, ps, fs) \<Rightarrow>
      case generate (working\<lparr> in_Flights := map (\<lambda>f. if map_of slots (Callsign f) = None then f
             else f\<lparr> Operations := Operations f @ [''vacancy_promotion''] \<rparr>) fs \<rparr>) slots of
        None \<Rightarrow> None
      | Some (Inl e) \<Rightarrow> Some (Inl (QueueEngine e))
      | Some (Inr r) \<Rightarrow>
          (if HasConflicts r
           then (case Generate input of None \<Rightarrow> None | Some (Inl e) \<Rightarrow> Some (Inl (QueueEngine e)) | Some (Inr fb) \<Rightarrow> Some (Inr (fb, [])))
           else report_promotions input r ps))"

definition GenerateWithVacancyPromotions :: "Input \<Rightarrow> QueueOffer list \<Rightarrow> gotime \<Rightarrow> promoted" where
  "GenerateWithVacancyPromotions input offers tm =
     (if in_Revision input = 0 then Some (Inl (QueueRefused ''vacancy promotion requires a committed airport revision''))
      else if \<not> valid_utc tm then Some (Inl (QueueRefused ''vacancy promotion time must be UTC''))
      else case prepareInput input of Inl e \<Rightarrow> Some (Inl (QueueEngine e))
      | Inr (policies, _) \<Rightarrow>
          (case generate input [] of None \<Rightarrow> None
           | Some (Inl e) \<Rightarrow> Some (Inl (QueueEngine e))
           | Some (Inr baseline) \<Rightarrow>
               (if HasConflicts baseline then Some (Inr (baseline, []))
                else (let working = vacancyBaselineInput input baseline in
                  case prepareFlights (in_Flights working) policies of Inl e \<Rightarrow> Some (Inl (QueueEngine e))
                  | Inr flights \<Rightarrow>
                      (case promote_groups input baseline (go_sort offer_less offers) tm policies flights
                           (go_sort (\<lambda>a b. a < b) (remdups (map RunwayGroupID flights))) ([], [], in_Flights working) of
                         None \<Rightarrow> None | Some (Inl e) \<Rightarrow> Some (Inl e)
                       | Some (Inr st) \<Rightarrow> promote_into input working st)))))"

section \<open>Queue offers\<close>

definition queue_sequence_less :: "queueEntry \<Rightarrow> queueEntry \<Rightarrow> bool" where
  "queue_sequence_less a b =
     (if slot_Sequence (qe_slot a) \<noteq> slot_Sequence (qe_slot b) then slot_Sequence (qe_slot a) < slot_Sequence (qe_slot b)
      else if \<not> t_equal (queue_time a) (queue_time b) then before (queue_time a) (queue_time b)
      else queue_name a < queue_name b)"

fun committed_queue :: "nat \<Rightarrow> preparedFlight list \<Rightarrow> queue_error + queueEntry list" where
  "committed_queue revision [] = Inr []"
| "committed_queue revision (f # fs) =
     (case CurrentSlot f of None \<Rightarrow> committed_queue revision fs
      | Some s \<Rightarrow>
          (if \<not> sequenced f then committed_queue revision fs
           else if slot_Revision s \<noteq> revision \<or> slot_Reason s = '''' then Inl (StaleSlot (Callsign f))
           else case committed_queue revision fs of Inl e \<Rightarrow> Inl e
             | Inr es \<Rightarrow> Inr (\<lparr> qe_flight = f, qe_slot = s \<rparr> # es)))"

fun check_queue :: "queueEntry list \<Rightarrow> queue_error + unit" where
  "check_queue (a # b # es) =
     (if slot_Sequence (qe_slot b) = slot_Sequence (qe_slot a) \<or> \<not> after (queue_time b) (queue_time a)
      then Inl (UnorderedSlots (slot_RunwayGroupID (qe_slot b))) else check_queue (b # es))"
| "check_queue _ = Inr ()"

definition queueEntries :: "nat \<Rightarrow> preparedFlight list \<Rightarrow> queue_error + queueEntry list" where
  "queueEntries revision flights =
     (case committed_queue revision flights of Inl e \<Rightarrow> Inl e
      | Inr es \<Rightarrow> (let sorted_es = go_sort queue_sequence_less es in and_then (check_queue sorted_es) (Inr sorted_es)))"

definition crossesProtectedOrder :: "queueEntry list \<Rightarrow> nat \<Rightarrow> nat \<Rightarrow> bool" where
  "crossesProtectedOrder es candidateIndex targetIndex \<longleftrightarrow>
     list_ex (\<lambda>i. frozen_or_ordered (qe_flight (es ! i))) [Suc candidateIndex..<targetIndex]"

definition offer_expiry :: "gotime \<Rightarrow> duration \<Rightarrow> gotime \<Rightarrow> gotime" where
  "offer_expiry tm validity slot_time = (if before slot_time (t_add tm validity) then slot_time else t_add tm validity)"

text \<open>Whether the flight of one entry may be offered the slot of an earlier one.\<close>

definition offered :: "preparedPolicy \<Rightarrow> gotime \<Rightarrow> duration \<Rightarrow> queueEntry list \<Rightarrow> nat \<Rightarrow> nat \<Rightarrow> bool" where
  "offered p tm validity es i j \<longleftrightarrow>
     (let candidate = es ! i; target = es ! j; f = qe_flight target; t = queue_time candidate in
      queueEligible f \<and> \<not> frozen_or_ordered (qe_flight candidate) \<and>
      \<not> before t (t_add (OperationalTETA f) (- EarlyTolerance (policy p))) \<and> \<not> crossesProtectedOrder es i j \<and>
      after (offer_expiry tm validity t) tm \<and>
      fst (queuePlacement p (map queue_allocated (delete_at i (delete_at j es))) f t))"

definition pending_offer :: "nat \<Rightarrow> string \<Rightarrow> gotime \<Rightarrow> duration \<Rightarrow> queueEntry list \<Rightarrow> nat \<Rightarrow> nat \<Rightarrow> pendingOffer" where
  "pending_offer revision g tm validity es i j =
     (let candidate = es ! i; target = es ! j in
      \<lparr> pend_offer = \<lparr> qo_Callsign = queue_name target, qo_RunwayGroupID = g, CandidateSlot = qe_slot candidate, QueuePosition = 0,
            ExpiresAt = offer_expiry tm validity (queue_time candidate), AirportRevision = revision, qo_Reason = ''earlier_occupied_slot'' \<rparr>,
        assignedSequence = slot_Sequence (qe_slot target), pend_flight = qe_flight target \<rparr>)"

definition pending_less :: "pendingOffer \<Rightarrow> pendingOffer \<Rightarrow> bool" where
  "pending_less a b =
     (if assignedSequence a \<noteq> assignedSequence b then assignedSequence a < assignedSequence b else flightLess (pend_flight a) (pend_flight b))"

text \<open>The pending offers of one slot (one key of the code's map), in the order of the flights' own slots.\<close>

definition slot_offers :: "preparedPolicy \<Rightarrow> nat \<Rightarrow> string \<Rightarrow> gotime \<Rightarrow> duration \<Rightarrow> queueEntry list \<Rightarrow> nat \<Rightarrow> QueueOffer list" where
  "slot_offers p revision g tm validity es i =
     (let ps = go_sort pending_less (map (pending_offer revision g tm validity es i) (filter (offered p tm validity es i) [Suc i..<length es])) in
      map (\<lambda>k. (pend_offer (ps ! k))\<lparr> QueuePosition := k + 1 \<rparr>) [0..<length ps])"

fun group_offers :: "Input \<Rightarrow> gotime \<Rightarrow> duration \<Rightarrow> preparedFlight list \<Rightarrow> (string \<times> preparedPolicy) list \<Rightarrow> queue_error + QueueOffer list" where
  "group_offers input tm validity flights [] = Inr []"
| "group_offers input tm validity flights ((g, p) # gs) =
     (case queueEntries (in_Revision input) (group_flights g flights) of Inl e \<Rightarrow> Inl e
      | Inr es \<Rightarrow>
          (case group_offers input tm validity flights gs of Inl e \<Rightarrow> Inl e
           | Inr os \<Rightarrow> Inr (concat (map (slot_offers p (in_Revision input) g tm validity es) [0..<length es]) @ os)))"

definition CalculateQueueOffers :: "Input \<Rightarrow> duration \<Rightarrow> gotime \<Rightarrow> queue_error + QueueOffer list" where
  "CalculateQueueOffers input validity tm =
     (if in_Revision input = 0 then Inl (QueueRefused ''queue offers require a committed airport revision'')
      else if validity \<le> 0 then Inl (QueueRefused ''queue offers require positive validity'')
      else if \<not> valid_utc tm then Inl (QueueRefused ''queue offer calculation time must be UTC'')
      else case prepareInput input of Inl e \<Rightarrow> Inl (QueueEngine e)
      | Inr (policies, flights) \<Rightarrow>
          map_sum id (go_sort offer_less) (group_offers input tm validity flights policies))"

end
