(* ===== verification/Sequence_Promotion.thy ===== *)
theory Sequence_Promotion
  imports Sequence_Queue
begin

text \<open>
  What vacancy promotion guarantees: the compaction search returns, and every promotion of
  \<^verbatim>\<open>GenerateWithVacancyPromotions\<close> moves an eligible flight to an earlier legal slot of a
  separated sequence.
\<close>

section \<open>The search of the compaction\<close>

lemma rate_interval_step: "prepared_ok p \<Longrightarrow> nextGridAtOrAfter p t = Some c \<Longrightarrow> 0 < intervalAt p c"
  using next_grid_Some(1) [of p t c] on_grid_first [of p c] intervalAt_pos [of p c] by blast

lemma compact_search_returns:
  assumes "prepared_ok p"
  shows "\<exists>r. compact_search p es remaining target start = Some r"
proof (induction "nat (ns (queue_time target) - ns start)" arbitrary: start rule: less_induct)
  case less
  show ?case
  proof (cases "\<exists>c. nextGridAtOrAfter p start = Some c \<and> before c (queue_time target)")
    case True
    then obtain c where c: "nextGridAtOrAfter p start = Some c" "before c (queue_time target)" by blast
    have step: "\<exists>r. compact_search p es remaining target t = Some r" if "ns c < ns t" for t
      using that next_grid_Some(3) [OF assms c(1)] c(2) by (intro less) (simp add: before_def)
    have "ns c < ns (t_add c (if ContinuousSpacing (policy p) then intervalAt p c else 1))"
      using rate_interval_step [OF assms c(1)] by (simp add: t_add_def)
    with step placement_later [of c] c show ?thesis
      by (subst compact_search.simps) (simp add: Let_def placement_def)
  next
    case False
    then show ?thesis by (subst compact_search.simps) (auto split: option.split)
  qed
qed

definition legal_promotion :: "preparedPolicy \<Rightarrow> gotime \<Rightarrow> bool" where
  "legal_promotion p t \<longleftrightarrow> on_grid p t \<and> slot_open p t"

lemma compact_search_sound:
  assumes "compact_search p es remaining target start = Some (Some t)" "prepared_ok p"
  shows "legal_promotion p t \<and> ns start \<le> ns t \<and> ns t < ns (queue_time target)"
proof -
  have "\<forall>u. r = Some u \<longrightarrow> prepared_ok p \<longrightarrow> legal_promotion p u \<and> ns start \<le> ns u \<and> ns u < ns (queue_time target)"
    if "compact_search p es remaining target start = Some r" for r
  proof (rule compact_search.raw_induct [OF _ that, where P = "\<lambda>p es remaining target start r. \<forall>u. r = Some u \<longrightarrow> prepared_ok p \<longrightarrow>
        legal_promotion p u \<and> ns start \<le> ns u \<and> ns u < ns (queue_time target)"], intro allI impI, goal_cases)
    case (1 rec p es remaining target start r u)
    from 1(2-3) obtain c where c: "nextGridAtOrAfter p start = Some c" "before c (queue_time target)"
      by (auto split: option.splits if_splits)
    note grid = next_grid_Some [OF 1(4) c(1)]
    let ?clear = "\<not> crossesProtectedTime es c (queue_time target) \<and> \<not> crossesStableOrder es (qe_flight target) c"
    let ?v = "placement p remaining (qe_flight target) c"
    let ?step = "t_add c (if ContinuousSpacing (policy p) then intervalAt p c else 1)"
    have body: "(if ?clear \<and> fst ?v then Some (Some c) else if ?clear \<and> after (snd (snd ?v)) c then rec p es remaining target (snd (snd ?v))
        else rec p es remaining target ?step) = Some (Some u)"
      using 1(2) unfolding c(1) option.case Let_def 1(3) using c(2) by (simp only: not_True_eq_False if_False)
    have step: "ns c < ns ?step" using rate_interval_step [OF 1(4) c(1)] by (simp add: t_add_def)
    consider "u = c" | t where "rec p es remaining target t = Some (Some u)" "ns c < ns t"
    proof (cases "?clear \<and> fst ?v")
      case True
      with body that(1) show ?thesis by simp
    next
      case False
      with body step that(2) show ?thesis by (cases "?clear \<and> after (snd (snd ?v)) c") (auto simp: after_def simp del: if_not_P)
    qed
    then show ?case
    proof cases
      case 1
      with grid c(2) show ?thesis by (simp add: legal_promotion_def before_def)
    next
      case (2 t)
      with 1(1) [OF 2(1)] 1(4) grid(3) show ?thesis by auto
    qed
  qed
  with assms show ?thesis by blast
qed

section \<open>What every stage keeps\<close>

definition promotable :: "'a Flight_scheme \<Rightarrow> bool" where
  "promotable f \<longleftrightarrow> ManualOrder f = None \<and> ReleaseRank f = None \<and> freeze_passable (fl_FreezeReason f)"

definition good_slot :: "preparedPolicy \<Rightarrow> 'a Flight_scheme \<Rightarrow> gotime \<Rightarrow> gotime \<Rightarrow> gotime \<Rightarrow> bool" where
  "good_slot p f tm before_time t \<longleftrightarrow> promotable f \<and> legal_promotion p t \<and> ns (promotionLowerBound p f tm) \<le> ns t \<and> ns t < ns before_time"

definition baseline_at :: "SeqResult \<Rightarrow> string \<Rightarrow> string \<Rightarrow> gotime \<Rightarrow> bool" where
  "baseline_at baseline g c t \<longleftrightarrow> (\<exists>e \<in> set (res_Entries baseline). ce_RunwayGroupID e = g \<and> ce_Callsign e = c \<and> ce_Time e = t)"

definition queue_ok :: "SeqResult \<Rightarrow> string \<Rightarrow> preparedFlight list \<Rightarrow> queueEntry list \<Rightarrow> bool" where
  "queue_ok baseline g flights es \<longleftrightarrow> distinct (map queue_name es) \<and>
     (\<forall>e \<in> set es. qe_flight e \<in> set flights \<and> RunwayGroupID (qe_flight e) = g \<and>
        (\<exists>t. baseline_at baseline g (queue_name e) t \<and> ns (queue_time e) \<le> ns t))"

definition slots_ok :: "SeqResult \<Rightarrow> (string \<times> preparedPolicy) list \<Rightarrow> preparedFlight list \<Rightarrow> gotime \<Rightarrow> promotions \<Rightarrow> bool" where
  "slots_ok baseline policies flights tm slots \<longleftrightarrow>
     (\<forall>c s. map_of slots c = Some s \<longrightarrow> (\<exists>f \<in> set flights. \<exists>p t. Callsign f = c \<and> (RunwayGroupID f, p) \<in> set policies \<and>
        baseline_at baseline (RunwayGroupID f) c t \<and> good_slot p f tm t (slot_Time s)))"

definition listed :: "promotions \<Rightarrow> VacancyPromotion list \<Rightarrow> bool" where
  "listed slots ps \<longleftrightarrow> (\<forall>x \<in> set ps. map_of slots (vp_Callsign x) \<noteq> None)"

definition vac_ok :: "SeqResult \<Rightarrow> (string \<times> preparedPolicy) list \<Rightarrow> preparedFlight list \<Rightarrow> gotime \<Rightarrow> string \<Rightarrow> vacancies \<Rightarrow> bool" where
  "vac_ok baseline policies flights tm g v \<longleftrightarrow> queue_ok baseline g flights (vac_entries v) \<and>
     slots_ok baseline policies flights tm (vac_slots v) \<and> listed (vac_slots v) (vac_promotions v)"

lemma listed_promote: "listed slots ps \<Longrightarrow> listed ((c, s) # slots) (promote c a b ps)"
  unfolding promote_def listed_def
  by (auto split: option.split dest!: index_where_Some set_update_subset_insert [THEN subsetD])

lemma queue_ok_move:
  assumes "queue_ok baseline g flights es" "i < length es" "ns (slot_Time s) \<le> ns (queue_time (es ! i))"
  shows "queue_ok baseline g flights (move_entry i s es)"
proof -
  let ?e = "(es ! i)\<lparr> qe_slot := s \<rparr>"
  have names: "map queue_name (es[i := ?e]) = map queue_name es"
    using assms(2) by (intro nth_equalityI) (auto simp: nth_list_update queue_name_def)
  have "mset (map queue_name (move_entry i s es)) = mset (map queue_name es)"
    by (simp only: move_entry_def mset_map mset_go_sort) (simp only: names flip: mset_map)
  then have "distinct (map queue_name (move_entry i s es))"
    using assms(1) mset_eq_imp_distinct_iff unfolding queue_ok_def by blast
  moreover have "e = ?e \<or> e \<in> set es" if "e \<in> set (move_entry i s es)" for e
    using that set_update_subset_insert [of es i ?e] by (auto simp: move_entry_def)
  moreover have "es ! i \<in> set es" using assms(2) by simp
  then have "qe_flight ?e \<in> set flights \<and> RunwayGroupID (qe_flight ?e) = g \<and>
      (\<exists>t. baseline_at baseline g (queue_name ?e) t \<and> ns (queue_time ?e) \<le> ns t)"
    using assms(1,3) unfolding queue_ok_def by (fastforce simp: queue_name_def queue_time_def)
  ultimately show ?thesis using assms(1) unfolding queue_ok_def by metis
qed

text \<open>Moving an entry to a good slot keeps everything.\<close>

lemma vac_ok_move:
  assumes "vac_ok baseline policies flights tm g v" "(g, p) \<in> set policies" "i < length (vac_entries v)"
    and "good_slot p (qe_flight (vac_entries v ! i)) tm (queue_time (vac_entries v ! i)) (slot_Time s)"
    and "listed ((queue_name (vac_entries v ! i), s) # vac_slots v) ps"
  shows "vac_ok baseline policies flights tm g
    \<lparr> vac_entries = move_entry i s (vac_entries v), vac_slots = (queue_name (vac_entries v ! i), s) # vac_slots v, vac_promotions = ps \<rparr>"
proof -
  let ?e = "vac_entries v ! i"
  have e: "?e \<in> set (vac_entries v)" using assms(3) by simp
  then obtain t where t: "qe_flight ?e \<in> set flights" "RunwayGroupID (qe_flight ?e) = g" "baseline_at baseline g (queue_name ?e) t" "ns (queue_time ?e) \<le> ns t"
    using assms(1) unfolding vac_ok_def queue_ok_def by blast
  have "good_slot p (qe_flight ?e) tm t (slot_Time s)" using assms(4) t(4) unfolding good_slot_def by auto
  then have "slots_ok baseline policies flights tm ((queue_name ?e, s) # vac_slots v)"
    using assms(1,2) t unfolding vac_ok_def slots_ok_def by (auto simp: queue_name_def)
  moreover have "queue_ok baseline g flights (move_entry i s (vac_entries v))"
    using assms(1,3,4) by (intro queue_ok_move) (auto simp: vac_ok_def good_slot_def)
  ultimately show ?thesis using assms(5) by (simp add: vac_ok_def)
qed

lemma same_instant:
  assumes "ns t = ns u"
  shows "on_grid p t = on_grid p u" "slot_open p t = slot_open p u"
  using assms by (simp_all add: on_grid_def slot_open_def in_closure_def go_time cong: option.case_cong)

lemma grid_slot_legal:
  assumes "isGridSlot p t" "prepared_ok p"
  shows "legal_promotion p t"
proof -
  from assms(1) obtain u where u: "previousGridAtOrBefore p t = Some u" "ns t = ns u"
    by (auto simp: isGridSlot_def go_time split: option.splits)
  with previous_grid_Some(1,2) [OF assms(2) u(1)] same_instant [OF u(2)] show ?thesis by (simp add: legal_promotion_def)
qed

lemma queueEntryIndex_Some: "queueEntryIndex es c = Some i \<Longrightarrow> i < length es \<and> queue_name (es ! i) = c"
  using index_where_Some [of "\<lambda>e. queue_name e = c" es i] by (simp add: queueEntryIndex_def)

lemma eligible_promotable: "queueEligible f \<Longrightarrow> promotable f" "stablePromotionEligible f \<Longrightarrow> promotable f" "gapFillEligible f \<Longrightarrow> promotable f"
  by (auto simp: promotable_def freeze_passable_def queueEligible_def stablePromotionEligible_def gapFillEligible_def split: FreezeReason.splits)

lemma take_offer_ok:
  assumes "vac_ok baseline policies flights tm g v" "(g, p) \<in> set policies" "prepared_ok p"
  shows "vac_ok baseline policies flights tm g (take_offer p g revision tm v offer)"
proof (cases "take_offer p g revision tm v offer = v")
  case False
  let ?s = "CandidateSlot offer" and ?es = "vac_entries v"
  from False obtain i current where i: "queueEntryIndex ?es (qo_Callsign offer) = Some i" "offer_fits p tm ?es i (slot_Time ?s)"
      "take_offer p g revision tm v offer = \<lparr> vac_entries = move_entry i ?s ?es, vac_slots = (qo_Callsign offer, ?s) # vac_slots v,
         vac_promotions = vac_promotions v @ [\<lparr> vp_Callsign = qo_Callsign offer, vp_From = current, vp_To = ?s \<rparr>] \<rparr>"
    by (simp add: take_offer_def Let_def split: if_splits option.splits)
  note q = queueEntryIndex_Some [OF i(1)]
  have "good_slot p (qe_flight (?es ! i)) tm (queue_time (?es ! i)) (slot_Time ?s)"
    using i(2) grid_slot_legal [OF _ assms(3)] eligible_promotable(1) by (auto simp: offer_fits_def good_slot_def Let_def go_time)
  moreover have "listed ((queue_name (?es ! i), ?s) # vac_slots v)
      (vac_promotions v @ [\<lparr> vp_Callsign = qo_Callsign offer, vp_From = current, vp_To = ?s \<rparr>])"
    using assms(1) q by (auto simp: vac_ok_def listed_def)
  ultimately show ?thesis using vac_ok_move [OF assms(1,2), of i] q i(3) by simp
qed (use assms in simp)

lemma compact_bound_ge: "ns l \<le> ns (foldl (compact_bound target) l es)"
proof (induction es arbitrary: l)
  case (Cons e es)
  have "ns l \<le> ns (compact_bound target l e)" using at_or_after_ge(1) by (simp add: compact_bound_def)
  also have "\<dots> \<le> ns (foldl (compact_bound target) l (e # es))" using Cons by simp
  finally show ?case .
qed simp

lemma compact_flight_ok:
  assumes "compact_flight p tm v c = Some v'" "vac_ok baseline policies flights tm g v" "(g, p) \<in> set policies" "prepared_ok p"
    and "\<And>e. e \<in> set (vac_entries v) \<Longrightarrow> queue_name e = c \<Longrightarrow> promotable (qe_flight e)"
  shows "vac_ok baseline policies flights tm g v'"
proof (cases "v' = v")
  case False
  let ?es = "vac_entries v"
  from assms(1) False obtain i where i: "queueEntryIndex ?es c = Some i" by (auto simp: compact_flight_def Let_def split: option.splits)
  let ?target = "?es ! i" and ?rem = "map queue_allocated (delete_at i ?es)"
  let ?lower = "foldl (compact_bound ?target) (promotionLowerBound p (qe_flight ?target) tm) ?es"
  note q = queueEntryIndex_Some [OF i]
  from assms(1) False i obtain t current where t: "compact_search p ?es ?rem ?target ?lower = Some (Some t)"
      "v' = \<lparr> vac_entries = move_entry i (promoted_slot (qe_slot ?target) t) ?es, vac_slots = (c, promoted_slot (qe_slot ?target) t) # vac_slots v,
         vac_promotions = promote c current (promoted_slot (qe_slot ?target) t) (vac_promotions v) \<rparr>"
    by (auto simp: compact_flight_def Let_def split: option.splits)
  have time: "slot_Time (promoted_slot (qe_slot ?target) t) = t" by (simp add: promoted_slot_def)
  have "good_slot p (qe_flight ?target) tm (queue_time ?target) t"
    using compact_search_sound [OF t(1) assms(4)] compact_bound_ge [of "promotionLowerBound p (qe_flight ?target) tm" ?target ?es] assms(5) q
    by (auto simp: good_slot_def)
  moreover have "listed ((queue_name ?target, promoted_slot (qe_slot ?target) t) # vac_slots v)
      (promote c current (promoted_slot (qe_slot ?target) t) (vac_promotions v))"
    using assms(2) q by (auto simp: vac_ok_def intro: listed_promote)
  ultimately show ?thesis using vac_ok_move [OF assms(2,3), of i] q t(2) by (simp add: time)
qed (use assms in simp)

lemma fold_option_inv:
  assumes "fold_option g a xs = Some b" "P a" "\<And>a x a'. x \<in> set xs \<Longrightarrow> P a \<Longrightarrow> g a x = Some a' \<Longrightarrow> P a'"
  shows "P b"
  using assms by (induction g a xs rule: fold_option.induct) (auto split: option.splits)

lemma compactStableFlights_ok:
  assumes "compactStableFlights p tm v = Some v'" "vac_ok baseline policies flights tm g v" "(g, p) \<in> set policies" "prepared_ok p"
    and "distinct (map Callsign flights)"
  shows "vac_ok baseline policies flights tm g v'"
proof -
  let ?cs = "map queue_name (filter (\<lambda>e. stablePromotionEligible (qe_flight e)) (vac_entries v))"
  have eligible: "promotable f" if "c \<in> set ?cs" "f \<in> set flights" "Callsign f = c" for c f
  proof -
    from that(1) obtain e where e: "e \<in> set (vac_entries v)" "stablePromotionEligible (qe_flight e)" "queue_name e = c" by auto
    then have "qe_flight e \<in> set flights" using assms(2) by (auto simp: vac_ok_def queue_ok_def)
    with that(2,3) e(3) have "qe_flight e = f" using assms(5) by (auto simp: queue_name_def distinct_map inj_on_def)
    with e(2) eligible_promotable(2) show ?thesis by blast
  qed
  show ?thesis
  proof (rule fold_option_inv [where P = "vac_ok baseline policies flights tm g", OF assms(1) [unfolded compactStableFlights_def] assms(2)])
    fix a c a' assume a: "c \<in> set ?cs" "vac_ok baseline policies flights tm g a" "compact_flight p tm a c = Some a'"
    show "vac_ok baseline policies flights tm g a'"
    proof (rule compact_flight_ok [OF a(3,2) assms(3,4)])
      fix e assume "e \<in> set (vac_entries a)" "queue_name e = c"
      with a(2) show "promotable (qe_flight e)" by (intro eligible [OF a(1)]) (auto simp: vac_ok_def queue_ok_def queue_name_def)
    qed
  qed
qed

text \<open>What gap filling does to an entry, whether or not the entries are separated.\<close>

definition filled :: "preparedPolicy \<Rightarrow> gotime \<Rightarrow> allocatedEntry \<Rightarrow> allocatedEntry \<Rightarrow> bool" where
  "filled p tm a b \<longleftrightarrow> core (ent_flight b) = core (ent_flight a) \<and>
     (ent_time b = ent_time a \<or> promotable (ent_flight a) \<and> legal_promotion p (ent_time b) \<and> ns (promotionLowerBound p (ent_flight a) tm) \<le> at_ns b)"

lemma promotable_core: "promotable (core f) = promotable f" by (simp add: promotable_def core_def)

lemma filled_trans: "filled p tm a b \<Longrightarrow> filled p tm b c \<Longrightarrow> filled p tm a c"
  unfolding filled_def by (metis core_bounds(2) promotable_core)

lemma fill_gaps_filled:
  assumes "e \<in> set (fill_gaps p tm moved entries)" "prepared_ok p"
  shows "\<exists>a \<in> set entries. filled p tm a e"
  using assms
proof (induction p tm moved entries arbitrary: e rule: fill_gaps.induct)
  case (1 p tm moved entries)
  have same: "filled p tm a a" for a by (simp add: filled_def)
  show ?case
  proof (cases "length moved < length entries \<and> fill_once p tm moved entries \<noteq> None")
    case True
    then obtain es c where f: "fill_once p tm moved entries = Some (es, c)" and less: "length moved < length entries" by auto
    from f obtain gap k i where t: "i < length entries" "fill_target p tm moved entries gap k i = Some (es, c)" by (rule fill_once_Some)
    have "fill_gaps p tm moved entries = fill_gaps p tm (c # moved) es" using f less by (subst fill_gaps.simps) simp
    with "1.IH" [OF less f refl, of e] "1.prems" obtain b where b: "b \<in> set es" "filled p tm b e" by auto
    let ?x = "entries ! i" let ?f = "ent_flight ?x"
    let ?low = "fill_lower p tm ?f (take (i - Suc gap) (drop (Suc gap) entries))"
    let ?start = "at_or_after ?low (t_add (ent_time (entries ! gap)) (requiredGap p (ent_flight (entries ! gap)) ?f ?low))"
    from t(2) obtain u where u: "gapFillEligible ?f" "es = sortEntries (delete_at i entries @ [(note_entry ''gap_fill'' ?x)\<lparr> ent_time := u \<rparr>])"
        "fill_search (length (delete_at i entries) + length (gaps p) + length (closures p) + length (rates p) + 1) p
           (delete_at i entries) ?f (ent_time (entries ! k)) ?start = Some u"
      by (rule fill_target_Some) blast
    have "ns (promotionLowerBound p ?f tm) \<le> ns ?start" by (rule order_trans [OF fill_lower_ge at_or_after_ge(1)])
    then have "filled p tm ?x ((note_entry ''gap_fill'' ?x)\<lparr> ent_time := u \<rparr>)"
      using fill_search_sound [OF u(3) "1.prems"(2)] eligible_promotable(3) [OF u(1)] by (auto simp: filled_def legal_promotion_def noted)
    moreover have "b \<in> set entries \<or> b = (note_entry ''gap_fill'' ?x)\<lparr> ent_time := u \<rparr>"
      using b(1) by (auto simp: u(2) delete_at_def dest: in_set_takeD in_set_dropD)
    ultimately obtain a where "a \<in> set entries" "filled p tm a b" using t(1) same nth_mem by blast
    with filled_trans b(2) show ?thesis by blast
  next
    case False
    then have "fill_gaps p tm moved entries = entries" by (subst fill_gaps.simps) (auto split: option.split)
    with "1.prems" same show ?thesis by auto
  qed
qed

definition unreserved :: "Flight \<Rightarrow> Flight" where
  "unreserved f = f\<lparr> Operations := [], CurrentSlot := None \<rparr>"

definition stage_ok :: "SeqResult \<Rightarrow> (string \<times> preparedPolicy) list \<Rightarrow> preparedFlight list \<Rightarrow> gotime \<Rightarrow> Flight list
    \<Rightarrow> promotions \<times> VacancyPromotion list \<times> Flight list \<Rightarrow> bool" where
  "stage_ok baseline policies flights tm raws st \<longleftrightarrow>
     (case st of (slots, ps, fs) \<Rightarrow> slots_ok baseline policies flights tm slots \<and> listed slots ps \<and> map unreserved fs = map unreserved raws)"

lemma fill_filled: "e \<in> set (fillSTARSpacingGaps p entries tm) \<Longrightarrow> prepared_ok p \<Longrightarrow> \<exists>a \<in> set entries. filled p tm a e"
  using fill_gaps_filled [of e p tm "[]" entries] by (auto simp: fillSTARSpacingGaps_def filled_def split: if_splits)

lemma take_fill_ok:
  assumes "take_fill es st e = Some st'" "stage_ok baseline policies flights tm raws st"
    and "e \<in> set (fillSTARSpacingGaps p (map queue_allocated es) tm)" "queue_ok baseline g flights es" "(g, p) \<in> set policies" "prepared_ok p"
  shows "stage_ok baseline policies flights tm raws st'"
proof (cases "st' = st")
  case False
  let ?c = "Callsign (ent_flight e)"
  obtain slots ps fs where st: "st = (slots, ps, fs)" by (rule prod_cases3)
  from assms(1) False obtain i where i: "queueEntryIndex es ?c = Some i" "before (ent_time e) (queue_time (es ! i))"
    by (auto simp: take_fill_def st Let_def queue_time_def split: option.splits if_splits)
  let ?s = "promoted_slot (qe_slot (es ! i)) (ent_time e)"
  note q = queueEntryIndex_Some [OF i(1)]
  obtain x where x: "x \<in> set es" "filled p tm (queue_allocated x) e" using fill_filled [OF assms(3,6)] by auto
  have "core (ent_flight e) = core (qe_flight x)" using x(2) by (simp add: filled_def queue_allocated_def)
  then have "?c = queue_name x" unfolding queue_name_def by (metis core_fields(1))
  then have xi: "es ! i = x" using q x(1) assms(4) by (auto simp: queue_ok_def distinct_map inj_on_def)
  have ne: "ent_time e \<noteq> queue_time x" using i(2) xi by (auto simp: go_time)
  with x(2) have g: "promotable (qe_flight x)" "legal_promotion p (ent_time e)" "ns (promotionLowerBound p (qe_flight x) tm) \<le> at_ns e"
    by (auto simp: filled_def queue_allocated_def)
  obtain t where t: "qe_flight x \<in> set flights" "RunwayGroupID (qe_flight x) = g" "baseline_at baseline g (queue_name x) t" "ns (queue_time x) \<le> ns t"
    using assms(4) x(1) unfolding queue_ok_def by blast
  have "good_slot p (qe_flight x) tm t (slot_Time ?s)"
    using g t(4) i(2) xi by (auto simp: good_slot_def promoted_slot_def before_def)
  then have slots: "slots_ok baseline policies flights tm ((?c, ?s) # slots)"
    using assms(2,5) t \<open>?c = queue_name x\<close> unfolding stage_ok_def st slots_ok_def by (auto simp: queue_name_def)
  have l: "listed slots ps" using assms(2) by (simp add: stage_ok_def st)
  then have "listed ((?c, ?s) # slots) ps" by (simp add: listed_def)
  moreover have "listed ((?c, ?s) # slots) (promote ?c cur ?s ps)" for cur using l by (rule listed_promote)
  moreover have "map unreserved (map (\<lambda>f. if Callsign f = ?c then f\<lparr> Operations := Operations f @ [''gap_fill''] \<rparr> else f) fs) = map unreserved raws"
    using assms(2) by (simp add: unreserved_def [abs_def] stage_ok_def st comp_def if_distrib cong: if_cong)
  ultimately show ?thesis
    using assms(1,2) i slots by (auto simp: take_fill_def st stage_ok_def Let_def queue_time_def simp del: map_map list.map_comp split: option.splits)
qed (use assms in simp)

lemma promote_group_ok:
  assumes "promote_group input baseline offers tm p g (group_flights g flights) st = Some (Inr st')"
    and "stage_ok baseline policies flights tm raws st" "(g, p) \<in> set policies" "prepared_ok p" "distinct (map Callsign flights)"
    and "\<And>es. baselineQueueEntries (in_Revision input) g (group_flights g flights) baseline = Inr es \<Longrightarrow> queue_ok baseline g flights es"
  shows "stage_ok baseline policies flights tm raws st'"
proof -
  obtain slots ps fs where st: "st = (slots, ps, fs)" by (rule prod_cases3)
  from assms(1) obtain es v where es: "baselineQueueEntries (in_Revision input) g (group_flights g flights) baseline = Inr es"
      "compactStableFlights p tm (foldl (take_offer p g (in_Revision input) tm) \<lparr> vac_entries = es, vac_slots = slots, vac_promotions = ps \<rparr> offers) = Some v"
      "fold_option (take_fill (vac_entries v)) (vac_slots v, vac_promotions v, fs)
         (fillSTARSpacingGaps p (map queue_allocated (vac_entries v)) tm) = Some st'"
    by (auto simp: promote_group_def st split: sum.splits option.splits)
  have "vac_ok baseline policies flights tm g \<lparr> vac_entries = es, vac_slots = slots, vac_promotions = ps \<rparr>"
    using assms(2) assms(6) [OF es(1)] by (simp add: vac_ok_def stage_ok_def st)
  then have "vac_ok baseline policies flights tm g (foldl (take_offer p g (in_Revision input) tm) \<lparr> vac_entries = es, vac_slots = slots, vac_promotions = ps \<rparr> offers)"
    using take_offer_ok [OF _ assms(3,4)] by (induction offers rule: rev_induct) simp_all
  from compactStableFlights_ok [OF es(2) this assms(3-5)] have v: "vac_ok baseline policies flights tm g v" .
  show ?thesis
  proof (rule fold_option_inv [OF es(3), where P = "stage_ok baseline policies flights tm raws"])
    show "stage_ok baseline policies flights tm raws (vac_slots v, vac_promotions v, fs)"
      using v assms(2) by (simp add: vac_ok_def stage_ok_def st)
    show "stage_ok baseline policies flights tm raws a'"
      if "e \<in> set (fillSTARSpacingGaps p (map queue_allocated (vac_entries v)) tm)" "stage_ok baseline policies flights tm raws a"
        "take_fill (vac_entries v) a e = Some a'" for a e a'
      using take_fill_ok [OF that(3,2,1) _ assms(3,4)] v by (simp add: vac_ok_def)
  qed
qed

lemma promote_groups_ok:
  assumes "promote_groups input baseline offers tm policies flights gs st = Some (Inr st')"
    and "stage_ok baseline policies flights tm raws st" "\<And>gp. gp \<in> set policies \<Longrightarrow> prepared_ok (snd gp)" "distinct (map Callsign flights)"
    and "\<And>g. g \<in> set gs \<Longrightarrow> map_of policies g \<noteq> None"
    and "\<And>g es. g \<in> set gs \<Longrightarrow> baselineQueueEntries (in_Revision input) g (group_flights g flights) baseline = Inr es \<Longrightarrow> queue_ok baseline g flights es"
  shows "stage_ok baseline policies flights tm raws st'"
  using assms
proof (induction gs arbitrary: st)
  case (Cons g gs)
  from Cons.prems(5) obtain p where p: "map_of policies g = Some p" by (auto simp del: not_None_eq)
  from Cons.prems(1) p obtain mid where m: "promote_group input baseline offers tm p g (group_flights g flights) st = Some (Inr mid)"
      "promote_groups input baseline offers tm policies flights gs mid = Some (Inr st')"
    by (auto split: option.splits sum.splits)
  have in_p: "(g, p) \<in> set policies" using p by (rule map_of_SomeD)
  have "stage_ok baseline policies flights tm raws mid"
    using Cons.prems(3) [OF in_p] Cons.prems(6) [of g] by (intro promote_group_ok [OF m(1) Cons.prems(2) in_p _ Cons.prems(4)]) simp_all
  with Cons m(2) show ?case by auto
qed simp

section \<open>Promoted flights in the new sequence\<close>

lemma protected_not_refused:
  assumes "generateGroup p flights promotions = Some (Inr (es, ws))" "conflict_free ws"
    and "f \<in> set flights" "sequenced f" "\<not> movable promotions f"
  shows "\<exists>e. protected_entry p promotions f = Inr e"
proof (rule ccontr)
  assume "\<not> ?thesis"
  then obtain w where w: "protected_entry p promotions f = Inl w" by (cases "protected_entry p promotions f") auto
  have "Inl w \<in> set (protected_results p flights promotions)"
    using assms(3-5) w by (auto simp: protected_results_def intro: rev_image_eqI)
  then have "w \<in> projl ` {r \<in> set (protected_results p flights promotions). isl r}" by (intro image_eqI [of _ _ "Inl w"]) simp_all
  then have "w \<in> set (map projl (filter isl (protected_results p flights promotions)))" by (simp only: set_map set_filter)
  moreover have "set (map projl (filter isl (protected_results p flights promotions))) \<subseteq> set ws"
    using assms(1) by (auto simp: generateGroup_def Let_def split: option.splits sum.splits)
  ultimately show False using assms(2) protected_entry_Inl [OF w] by (auto simp: conflict_free_def)
qed

lemma group_promoted:
  assumes "generateGroup p flights promotions = Some (Inr (es, ws))" "prepared_ok p" "conflict_free ws"
    and "f \<in> set flights" "sequenced f" "map_of promotions (Callsign f) = Some s"
  shows "\<exists>e \<in> set es. Callsign (ent_flight e) = Callsign f \<and> ent_time e = slot_Time s"
proof -
  let ?prot = "protected_entries p flights promotions"
  have nm: "\<not> movable promotions f" using assms(6) by (simp add: movable_def)
  obtain e where e: "protected_entry p promotions f = Inr e"
    using protected_not_refused [OF assms(1,3-5) nm] by blast
  note pe = protected_entry_Inr [OF e assms(2)]
  have reason: "ent_reason e \<noteq> ReasonStable" using pe(2) assms(6) by (simp add: protected_reason_def)
  have time: "ent_time e = slot_Time s" using pe(5) assms(6) by (simp add: protected_slot_def)
  have "e \<in> set ?prot" using assms(4,5) nm e by (auto simp: protected_entries_mem)
  obtain ordered mid where g: "entry_list_ok p ?prot ordered mid" "exchanged p mid es"
    using assms(1,2) by (rule generateGroup_Some)
  have "sig ` set (protected_part mid) = sig ` set ?prot"
    using g(1) unfolding entry_list_ok_def by (metis set_map mset_eq_setD)
  with \<open>e \<in> set ?prot\<close> obtain x where x: "x \<in> set mid" "sig x = sig e" by (metis (no_types, lifting) filter_is_subset image_iff subsetD)
  then have sx: "core (ent_flight x) = core (ent_flight e)" "ent_time x = ent_time e" "ent_reason x = ent_reason e" by (simp_all add: sig_def)
  have "x \<in> set (filter (\<lambda>e. ent_reason e \<noteq> ReasonStable) mid)" using x(1) sx(3) reason by simp
  then have "x \<in> set es" using g(2) unfolding exchanged_def by (metis filter_is_subset subsetD)
  moreover have "Callsign (ent_flight x) = Callsign f" using sx(1) pe(1) by (metis core_fields(1))
  ultimately show ?thesis using sx(2) time by auto
qed

lemma unique_entry:
  assumes "generate input promotions = Some (Inr r)" "prepareInput input = Inr (ps, fs)" "\<not> HasConflicts r"
    and "x \<in> set (res_Entries r)" "f \<in> set fs" "ce_Callsign x = Callsign f"
  shows "ce_RunwayGroupID x = RunwayGroupID f" "sequenced f"
    "y \<in> set (res_Entries r) \<Longrightarrow> ce_RunwayGroupID y = RunwayGroupID f \<Longrightarrow> ce_Callsign y = Callsign f \<Longrightarrow> y = x"
proof -
  have "ce_RunwayGroupID x \<in> fst ` set ps"
    using generated_group [OF assms(1,4)] arg_cong [OF prepareInput_names [OF assms(2)], of set] by simp
  then obtain p where p: "(ce_RunwayGroupID x, p) \<in> set ps" by auto
  note names = generate_complete [OF assms(1,2) p assms(3)]
  have "ce_Callsign x \<in> set (groupOrder r (ce_RunwayGroupID x))" using assms(4) by (auto simp: groupOrder_def)
  then have "ce_Callsign x \<in> set (map Callsign (filter sequenced (group_flights (ce_RunwayGroupID x) fs)))"
    using mset_eq_setD [OF names] by (simp only:)
  then obtain h where h: "h \<in> set fs" "sequenced h" "RunwayGroupID h = ce_RunwayGroupID x" "Callsign h = Callsign f"
    using assms(6) by (auto simp: group_flights_def)
  have d: "distinct (map Callsign fs)" by (rule prepareInput_ok(3) [OF assms(2)])
  with h assms(5) have hf: "h = f" by (auto simp: distinct_map inj_on_def)
  with h show gx: "ce_RunwayGroupID x = RunwayGroupID f" "sequenced f" by simp_all
  have "distinct (map Callsign (filter sequenced (group_flights (ce_RunwayGroupID x) fs)))"
    using d by (auto simp: group_flights_def distinct_map inj_on_def)
  then have "distinct (groupOrder r (ce_RunwayGroupID x))" using names mset_eq_imp_distinct_iff by blast
  then have "inj_on ce_Callsign (set (filter (\<lambda>e. ce_RunwayGroupID e = ce_RunwayGroupID x) (res_Entries r)))"
    by (simp add: groupOrder_def distinct_map)
  then show "y \<in> set (res_Entries r) \<Longrightarrow> ce_RunwayGroupID y = RunwayGroupID f \<Longrightarrow> ce_Callsign y = Callsign f \<Longrightarrow> y = x"
    using assms(4,6) gx(1) by (auto simp: inj_on_def)
qed

lemma promoted_entry:
  assumes "generate input promotions = Some (Inr r)" "prepareInput input = Inr (ps, fs)" "\<not> HasConflicts r"
    and "f \<in> set fs" "sequenced f" "map_of promotions (Callsign f) = Some s"
  shows "\<exists>e \<in> set (res_Entries r). find (\<lambda>e. ce_Callsign e = Callsign f) (res_Entries r) = Some e \<and> ce_Callsign e = Callsign f \<and>
    ce_RunwayGroupID e = RunwayGroupID f \<and> ce_Time e = slot_Time s"
proof -
  obtain p where p: "(RunwayGroupID f, p) \<in> set ps" using prepareInput_ok(4) [OF assms(2,4)] by (auto simp: flight_ok_def dest: map_of_SomeD)
  obtain es ws where g: "generateGroup p (group_flights (RunwayGroupID f) fs) promotions = Some (Inr (es, ws))"
      "filter (\<lambda>e. ce_RunwayGroupID e = RunwayGroupID f) (res_Entries r) = candidates (RunwayGroupID f) es" "set ws \<subseteq> set (res_Warnings r)"
    using assms(1,2) p by (rule generate_group)
  have ok: "prepared_ok p" using prepareInput_ok(2) [OF assms(2) p] by (simp add: policy_ok_def)
  have cf: "conflict_free ws" using assms(3) g(3) by (auto simp: HasConflicts_def conflict_free_def list_ex_iff)
  have "f \<in> set (group_flights (RunwayGroupID f) fs)" using assms(4) by (simp add: group_flights_def)
  from group_promoted [OF g(1) ok cf this assms(5,6)] obtain i where i: "i < length es" "Callsign (ent_flight (es ! i)) = Callsign f"
      "ent_time (es ! i) = slot_Time s" by (auto simp: in_set_conv_nth)
  let ?e = "candidate_entry (RunwayGroupID f) i (es ! i)"
  have "?e \<in> set (candidates (RunwayGroupID f) es)" using i(1) by (auto simp: candidates_def)
  then have e: "?e \<in> set (res_Entries r)" "ce_Callsign ?e = Callsign f" "ce_RunwayGroupID ?e = RunwayGroupID f" "ce_Time ?e = slot_Time s"
    using i by (auto simp: g(2) [symmetric] candidate_entry_def Let_def)
  then obtain x where x: "find (\<lambda>e. ce_Callsign e = Callsign f) (res_Entries r) = Some x"
    by (cases "find (\<lambda>e. ce_Callsign e = Callsign f) (res_Entries r)") (auto simp: find_None_iff)
  note fx = find_SomeD [OF x]
  have "?e = x" using unique_entry(3) [OF assms(1-3) _ assms(4), of x ?e] fx e by simp
  with x e show ?thesis by auto
qed

section \<open>Vacancy promotion\<close>

definition plan_view :: "'a Flight_scheme \<Rightarrow> _" where
  "plan_view f = (Callsign f, RunwayGroupID f, fl_State f, OperationalTETA f, PromotionNotBefore f, ManualOrder f, ReleaseRank f, fl_FreezeReason f)"

lemma prepare_flight_view: "plan_view (prepare_flight p raw) = plan_view raw"
  by (simp add: plan_view_def prepare_flight_def Let_def Flight.defs preparedFlight.defs)

lemma prepare_flights_view: "prepare_flights seen ps raws = Inr fs \<Longrightarrow> map plan_view fs = map plan_view raws"
  by (induction seen ps raws arbitrary: fs rule: prepare_flights.induct)
    (auto simp: prepare_flight_view split: if_splits option.splits sum.splits)

lemma unreserved_view: "map unreserved xs = map unreserved ys \<Longrightarrow> map plan_view xs = map plan_view ys"
proof -
  assume "map unreserved xs = map unreserved ys"
  then have "map plan_view (map unreserved xs) = map plan_view (map unreserved ys)" by (rule arg_cong)
  moreover have "plan_view (unreserved f) = plan_view f" for f by (simp add: plan_view_def unreserved_def)
  ultimately show ?thesis by (simp add: comp_def)
qed

lemma unreserved_baseline: "map unreserved (in_Flights (vacancyBaselineInput input baseline)) = map unreserved (in_Flights input)"
  by (auto simp: vacancyBaselineInput_def cloneInput_def reserved_baseline_def unreserved_def Let_def split: option.split)

lemma good_slot_view:
  fixes f :: "'a Flight_scheme" and h :: "'b Flight_scheme"
  assumes "plan_view f = plan_view h"
  shows "good_slot p f tm t u \<longleftrightarrow> good_slot p h tm t u"
  using assms by (simp add: plan_view_def good_slot_def promotable_def promotionLowerBound_def)

lemma baseline_entries_queue:
  assumes "baseline_entries revision g fs cs = Inr es"
  shows "map queue_name es = map ce_Callsign (filter (\<lambda>c. ce_RunwayGroupID c = g) cs)"
    "e \<in> set es \<Longrightarrow> qe_flight e \<in> set fs \<and> (\<exists>c \<in> set cs. ce_RunwayGroupID c = g \<and> ce_Callsign c = queue_name e \<and> ce_Time c = queue_time e)"
proof -
  have "map queue_name es = map ce_Callsign (filter (\<lambda>c. ce_RunwayGroupID c = g) cs) \<and>
    (\<forall>e \<in> set es. qe_flight e \<in> set fs \<and> (\<exists>c \<in> set cs. ce_RunwayGroupID c = g \<and> ce_Callsign c = queue_name e \<and> ce_Time c = queue_time e))"
    using assms
  proof (induction revision g fs cs arbitrary: es rule: baseline_entries.induct)
    case (2 revision g fs c cs)
    show ?case
    proof (cases "ce_RunwayGroupID c = g")
      case True
      with "2.prems" obtain f es' where f: "find (\<lambda>f. Callsign f = ce_Callsign c) fs = Some f" "baseline_entries revision g fs cs = Inr es'"
          "es = \<lparr> qe_flight = f, qe_slot = \<lparr> slot_Time = ce_Time c, slot_RunwayGroupID = g, slot_Sequence = int (ce_Sequence c),
             slot_Revision = revision, slot_Reason = reason_text (ce_Reason c) \<rparr> \<rparr> # es'"
        by (auto split: option.splits sum.splits)
      from find_SomeD [OF f(1)] "2.IH"(2) [of f es'] True f show ?thesis by (auto simp: queue_name_def queue_time_def)
    next
      case False
      with 2 show ?thesis by auto
    qed
  qed simp
  then show "map queue_name es = map ce_Callsign (filter (\<lambda>c. ce_RunwayGroupID c = g) cs)"
    "e \<in> set es \<Longrightarrow> qe_flight e \<in> set fs \<and> (\<exists>c \<in> set cs. ce_RunwayGroupID c = g \<and> ce_Callsign c = queue_name e \<and> ce_Time c = queue_time e)"
    by blast+
qed

lemma baseline_queue_ok:
  assumes "generate input promotions = Some (Inr baseline)" "\<not> HasConflicts baseline" "prepareInput input = Inr (ps, fs)" "(g, p) \<in> set ps"
    and "baselineQueueEntries revision g (group_flights g flights) baseline = Inr es"
  shows "queue_ok baseline g flights es"
proof -
  note q = baseline_entries_queue [OF assms(5) [unfolded baselineQueueEntries_def]]
  have "distinct (map Callsign (filter sequenced (group_flights g fs)))"
    using prepareInput_ok(3) [OF assms(3)] by (auto simp: group_flights_def distinct_map inj_on_def)
  then have "distinct (groupOrder baseline g)"
    using generate_complete [OF assms(1,3,4,2)] mset_eq_imp_distinct_iff by blast
  then show ?thesis
    unfolding queue_ok_def using q by (fastforce simp: groupOrder_def group_flights_def baseline_at_def)
qed

lemma add_demand_separated: "separated (snd (add_demand fs x)) = separated (snd x)"
proof -
  let ?p = "snd (add_demand fs x)"
  have f: "spacing_of ?p = spacing_of (snd x)" "fallback ?p = fallback (snd x)" by (simp_all add: add_demand_def Let_def)
  have i: "intervalAt ?p t = intervalAt (snd x) t" for t by (simp add: intervalAt_def rateAt_def Let_def)
  have w: "wake_minimum ?p a b = wake_minimum (snd x) a b" for a b by (simp add: wake_minimum_def f)
  show ?thesis unfolding separated_def [abs_def] i w ..
qed

lemma same_separation:
  assumes "prepareInput a = Inr (ps, fs)" "prepareInput b = Inr (qs, gs)" "in_Policies b = in_Policies a"
    and "in_STARFamilyPolicies b = in_STARFamilyPolicies a" "(g, p) \<in> set ps"
  shows "\<exists>q. (g, q) \<in> set qs \<and> separated q = separated p"
proof -
  from assms(1-4) obtain rs where r: "ps = map (add_demand fs) rs" "qs = map (add_demand gs) rs"
    by (auto simp: prepareInput_def split: sum.splits)
  with assms(5) obtain x where x: "x \<in> set rs" "(g, p) = add_demand fs x" by auto
  have same: "separated (snd (add_demand gs x)) = separated (snd (add_demand fs x))" by (simp only: add_demand_separated)
  have "fst (add_demand gs x) = g" "snd (add_demand fs x) = p" using x(2) by (metis add_demand_fields(1) fst_conv, metis snd_conv)
  then have "(g, snd (add_demand gs x)) \<in> set qs" using x(1) r(2) by (metis image_eqI prod.collapse set_map)
  with same \<open>snd (add_demand fs x) = p\<close> show ?thesis by blast
qed

lemma those_Some: "those xs = Some ys \<longleftrightarrow> xs = map Some ys"
  by (induction xs arbitrary: ys) (auto split: option.splits simp: map_eq_Cons_conv)

lemma flight_named_Some: "flight_named input c = Some f \<Longrightarrow> f \<in> set (in_Flights input) \<and> Callsign f = c"
  using find_SomeD [of "\<lambda>f. Callsign f = c" "rev (in_Flights input)" f] by (simp add: flight_named_def)

lemma in_map: "x \<in> set xs \<Longrightarrow> g x \<in> set (map g xs)" by simp

lemma view_at:
  assumes "map plan_view xs = map plan_view ys" "x \<in> set xs"
  shows "\<exists>y \<in> set ys. plan_view y = plan_view x"
proof -
  have "plan_view x \<in> set (map plan_view ys)" using assms(2) unfolding assms(1) [symmetric] by simp
  then show ?thesis by auto
qed

text \<open>The stages of a call without conflicts in its baseline.\<close>

lemma promotion_stages:
  assumes "GenerateWithVacancyPromotions input offers tm = Some (Inr (r, ps))" "generate input [] = Some (Inr baseline)"
    and "\<not> HasConflicts baseline" "prepareInput input = Inr (policies, fs)"
  obtains flights st where "map plan_view flights = map plan_view (in_Flights input)" "distinct (map Callsign flights)"
    "stage_ok baseline policies flights tm (in_Flights input) st"
    "promote_into input (vacancyBaselineInput input baseline) st = Some (Inr (r, ps))"
proof -
  let ?working = "vacancyBaselineInput input baseline"
  from assms obtain flights st where f: "prepareFlights (in_Flights ?working) policies = Inr flights"
      "promote_groups input baseline (go_sort offer_less offers) tm policies flights (go_sort (\<lambda>a b. a < b) (remdups (map RunwayGroupID flights)))
         ([], [], in_Flights ?working) = Some (Inr st)"
      "promote_into input ?working st = Some (Inr (r, ps))"
    by (auto simp: GenerateWithVacancyPromotions_def Let_def split: if_splits sum.splits option.splits)
  have known: "\<forall>gp \<in> set policies. WakeUnknown \<notin> set (categories (snd gp))"
    using prepareInput_ok(2) [OF assms(4)] by (auto simp: policy_ok_def)
  have prep: "prepare_flights [] policies (in_Flights ?working) = Inr flights" using f(1) by (simp add: prepareFlights_def)
  note ok = prepare_flights_ok [OF prep known]
  have view: "map plan_view flights = map plan_view (in_Flights input)"
    using prepare_flights_view [OF prep] unreserved_view [OF unreserved_baseline] by simp
  have policy: "map_of policies g \<noteq> None" if "g \<in> set (go_sort (\<lambda>a b. a < b) (remdups (map RunwayGroupID flights)))" for g
    using that ok by (auto simp: flight_ok_def)
  have "stage_ok baseline policies flights tm (in_Flights input) st"
  proof (rule promote_groups_ok [OF f(2)])
    show "stage_ok baseline policies flights tm (in_Flights input) ([], [], in_Flights ?working)"
      by (simp add: stage_ok_def slots_ok_def listed_def unreserved_baseline)
    show "prepared_ok (snd gp)" if "gp \<in> set policies" for gp using prepareInput_ok(2) [OF assms(4) that] by (simp add: policy_ok_def)
    show "distinct (map Callsign flights)" using ok by blast
    fix g es assume g: "g \<in> set (go_sort (\<lambda>a b. a < b) (remdups (map RunwayGroupID flights)))"
    show "map_of policies g \<noteq> None" by (rule policy [OF g])
    assume q: "baselineQueueEntries (in_Revision input) g (group_flights g flights) baseline = Inr es"
    from policy [OF g] obtain p where "map_of policies g = Some p" by blast
    then have "(g, p) \<in> set policies" by (rule map_of_SomeD)
    then show "queue_ok baseline g flights es" by (rule baseline_queue_ok [OF assms(2,3,4) _ q])
  qed
  with view ok f(3) show ?thesis using that by blast
qed

definition promotion_ok :: "Input \<Rightarrow> (string \<times> preparedPolicy) list \<Rightarrow> gotime \<Rightarrow> SeqResult \<Rightarrow> SeqResult \<Rightarrow> VacancyPromotion \<Rightarrow> bool" where
  "promotion_ok input policies tm baseline r x \<longleftrightarrow>
     (\<exists>f \<in> set (in_Flights input). \<exists>p t. \<exists>e \<in> set (res_Entries r).
        Callsign f = vp_Callsign x \<and> CurrentSlot f = Some (vp_From x) \<and> (RunwayGroupID f, p) \<in> set policies \<and>
        baseline_at baseline (RunwayGroupID f) (Callsign f) t \<and>
        ce_Callsign e = Callsign f \<and> ce_RunwayGroupID e = RunwayGroupID f \<and> ce_Time e = slot_Time (vp_To x) \<and>
        good_slot p f tm t (ce_Time e))"

lemma promoted_ok:
  assumes "generate working slots = Some (Inr r)" "\<not> HasConflicts r" "map unreserved (in_Flights working) = map unreserved (in_Flights input)"
    and "slots_ok baseline policies flights tm slots" "map plan_view flights = map plan_view (in_Flights input)"
    and "distinct (map Callsign flights)" "map_of slots (vp_Callsign y) \<noteq> None" "reported input r y = Some x"
    and "generate input [] = Some (Inr baseline)" "\<not> HasConflicts baseline" "prepareInput input = Inr (policies, fs)"
  shows "promotion_ok input policies tm baseline r x"
proof -
  let ?c = "vp_Callsign y"
  from assms(8) obtain f where f: "flight_named input ?c = Some f" "CurrentSlot f = Some (vp_From x)" "vp_Callsign x = ?c"
      "vp_To x = (case find (\<lambda>e. ce_Callsign e = ?c) (res_Entries r) of None \<Rightarrow> vp_To y
           | Some e \<Rightarrow> \<lparr> slot_Time = ce_Time e, slot_RunwayGroupID = ce_RunwayGroupID e, slot_Sequence = int (ce_Sequence e),
               slot_Revision = in_Revision input, slot_Reason = reason_text (ce_Reason e) \<rparr>)"
    by (auto simp: reported_def bind_eq_Some_conv)
  note nf = flight_named_Some [OF f(1)]
  from assms(7) obtain s where s: "map_of slots ?c = Some s" by blast
  with assms(4) obtain h p t where h: "h \<in> set flights" "Callsign h = ?c" "(RunwayGroupID h, p) \<in> set policies"
      "baseline_at baseline (RunwayGroupID h) ?c t" "good_slot p h tm t (slot_Time s)"
    unfolding slots_ok_def by blast
  from view_at [OF assms(5) [symmetric]] nf obtain k where k: "k \<in> set flights" "plan_view k = plan_view f" by blast
  then have "k = h" using h(1,2) nf assms(6) by (auto simp: plan_view_def distinct_map inj_on_def)
  with k(2) have hf: "plan_view h = plan_view f" by simp
  then have group: "RunwayGroupID h = RunwayGroupID f" by (simp add: plan_view_def)
  from assms(1) obtain ps2 fs2 where ready: "prepareInput working = Inr (ps2, fs2)" by (auto simp: generate_def split: sum.splits)
  have views: "map (\<lambda>f. (Callsign f, RunwayGroupID f, fl_State f)) fs2 = map (\<lambda>f. (Callsign f, RunwayGroupID f, fl_State f)) (in_Flights input)"
  proof -
    have "map (\<lambda>v. (fst v, fst (snd v), fst (snd (snd v)))) (map plan_view (in_Flights working)) =
        map (\<lambda>v. (fst v, fst (snd v), fst (snd (snd v)))) (map plan_view (in_Flights input))"
      using unreserved_view [OF assms(3)] by (rule arg_cong)
    then show ?thesis using prepared_input(1) [OF ready] by (simp add: plan_view_def comp_def)
  qed
  then have "(Callsign f, RunwayGroupID f, fl_State f) \<in> set (map (\<lambda>f. (Callsign f, RunwayGroupID f, fl_State f)) fs2)"
    using in_map [OF conjunct1 [OF nf], of "\<lambda>f. (Callsign f, RunwayGroupID f, fl_State f)"] by (simp only: views)
  then obtain f2 where f2: "f2 \<in> set fs2" "Callsign f2 = ?c" "RunwayGroupID f2 = RunwayGroupID f" "fl_State f2 = fl_State f" using nf by auto
  have "(Callsign f, RunwayGroupID f, fl_State f) \<in> set (map (\<lambda>f. (Callsign f, RunwayGroupID f, fl_State f)) fs)"
    unfolding prepared_input(1) [OF assms(11)] using conjunct1 [OF nf] by (rule in_map)
  then obtain f0 where f0: "f0 \<in> set fs" "Callsign f0 = ?c" "fl_State f0 = fl_State f" using nf by auto
  from h(4) obtain b where "b \<in> set (res_Entries baseline)" "ce_Callsign b = Callsign f0" by (auto simp: baseline_at_def f0(2))
  from unique_entry(2) [OF assms(9,11,10) this(1) f0(1) this(2)] have "sequenced f2" using f0(3) f2(4) by (simp add: sequenced_def)
  from promoted_entry [OF assms(1) ready assms(2) f2(1) this, of s] s f2(2,3) obtain e where e: "e \<in> set (res_Entries r)"
      "find (\<lambda>e. ce_Callsign e = ?c) (res_Entries r) = Some e" "ce_Callsign e = ?c" "ce_RunwayGroupID e = RunwayGroupID f" "ce_Time e = slot_Time s" by auto
  show ?thesis
    unfolding promotion_ok_def
  proof (intro bexI [of _ f] exI [of _ p] exI [of _ t] bexI [of _ e] conjI)
    show "good_slot p f tm t (ce_Time e)" using h(5) good_slot_view [OF hf] e(5) by simp
  qed (use nf f h group e in auto)
qed

text \<open>
  C10. Vacancies are filled safely. On a committed revision whose own sequence has no conflict, the
  sequence after vacancy promotion has none either and keeps the rate interval and the wake minimum
  between all landings. Every reported promotion belongs to a flight without manual order, release rank,
  manual or TMA freeze; it starts from the committed slot of the flight and ends at its entry of the new
  sequence, an open slot of the grid that is earlier than the slot it would have had, in the future, no
  earlier than the early tolerance before the landing estimate and not before the flight's own bound.
\<close>

theorem vacancies_are_filled_safely:
  assumes "GenerateWithVacancyPromotions input offers tm = Some (Inr (r, ps))" "generate input [] = Some (Inr baseline)"
    and "\<not> HasConflicts baseline" "prepareInput input = Inr (policies, fs)"
  shows "\<not> HasConflicts r \<and>
    (\<forall>(g, p) \<in> set policies. successively (separated p) (filter (\<lambda>e. ce_RunwayGroupID e = g) (res_Entries r))) \<and>
    (\<forall>x \<in> set ps. promotion_ok input policies tm baseline r x)"
proof -
  let ?working = "vacancyBaselineInput input baseline"
  from assms obtain flights st where s: "map plan_view flights = map plan_view (in_Flights input)" "distinct (map Callsign flights)"
      "stage_ok baseline policies flights tm (in_Flights input) st" "promote_into input ?working st = Some (Inr (r, ps))"
    by (rule promotion_stages)
  obtain slots qs gs where st: "st = (slots, qs, gs)" by (rule prod_cases3)
  let ?gs = "map (\<lambda>f. if map_of slots (Callsign f) = None then f else f\<lparr> Operations := Operations f @ [''vacancy_promotion''] \<rparr>) gs"
  let ?final = "?working\<lparr> in_Flights := ?gs \<rparr>"
  from s(4) obtain q where q: "generate ?final slots = Some (Inr q)"
    by (auto simp: promote_into_def st split: option.splits sum.splits)
  show ?thesis
  proof (cases "HasConflicts q")
    case True
    with s(4) q assms(2) have "r = baseline" "ps = []" by (auto simp: promote_into_def st Generate_def)
    with assms(2,3,4) show ?thesis by (auto intro: generated_separated)
  next
    case False
    with s(4) q have rep: "report_promotions input q qs = Some (Inr (r, ps))" by (simp add: promote_into_def st)
    then obtain m where r: "r = q\<lparr> res_Movements := m \<rparr>" "map (reported input q) qs = map Some ps"
      by (auto simp: report_promotions_def Let_def those_Some)
    then have same: "res_Entries r = res_Entries q" "HasConflicts r = HasConflicts q" by (simp_all add: HasConflicts_def)
    have flights: "map unreserved (in_Flights ?final) = map unreserved (in_Flights input)"
      using s(3) by (simp add: stage_ok_def st unreserved_def [abs_def] comp_def if_distrib cong: if_cong)
    have sep: "successively (separated p) (filter (\<lambda>e. ce_RunwayGroupID e = g) (res_Entries r))" if "(g, p) \<in> set policies" for g p
    proof -
      from q obtain ps2 fs2 where ready: "prepareInput ?final = Inr (ps2, fs2)" by (auto simp: generate_def split: sum.splits)
      from same_separation [OF assms(4) ready _ _ that] obtain p2 where "(g, p2) \<in> set ps2" "separated p2 = separated p"
        by (auto simp: vacancyBaselineInput_def cloneInput_def)
      with generated_separated [OF q ready _ False] same(1) show ?thesis by metis
    qed
    have "promotion_ok input policies tm baseline q x" if "x \<in> set ps" for x
    proof -
      from that have "Some x \<in> set (map (reported input q) qs)" unfolding r(2) by simp
      then obtain y where y: "y \<in> set qs" "reported input q y = Some x" by auto
      with s(3) have "map_of slots (vp_Callsign y) \<noteq> None" by (auto simp: stage_ok_def st listed_def)
      with promoted_ok [OF q False flights _ s(1,2) _ y(2) assms(2-4)] s(3) show ?thesis by (simp add: stage_ok_def st)
    qed
    with same False sep show ?thesis by (auto simp: promotion_ok_def)
  qed
qed

definition vacancy_traffic :: Input where
  "vacancy_traffic = \<lparr> in_Revision = 1, in_Policies = [sample_policy False], in_STARFamilyPolicies = [],
     in_Flights = [(sample_flight ''SAS1'' (3 * hour) ''M'')\<lparr> fl_State := StateStable, CurrentSlot := Some (sample_slot (3 * hour) 1), ProtectCurrentSlot := True \<rparr>,
       (sample_flight ''SAS2'' (3 * hour) ''M'')\<lparr> fl_State := StateStable, CurrentSlot := Some (sample_slot (3 * hour + 8 * minute) 2), ProtectCurrentSlot := True \<rparr>] \<rparr>"

definition vacancy_result :: promoted where
  "vacancy_result = GenerateWithVacancyPromotions vacancy_traffic [] (Time (2 * hour + 50 * minute) UTC)"

lemma vacancy_result_ok:
  "(case vacancy_result of Some (Inr (r, ps)) \<Rightarrow>
      map (\<lambda>e. (ce_Callsign e, ns (ce_Time e) div minute)) (res_Entries r) = [(''SAS1'', 180), (''SAS2'', 182)] \<and>
      map vp_Callsign ps = [''SAS2''] | _ \<Rightarrow> False)"
  "(case generate vacancy_traffic [] of Some (Inr b) \<Rightarrow> \<not> HasConflicts b | _ \<Rightarrow> False)"
  "(case prepareInput vacancy_traffic of Inr x \<Rightarrow> True | _ \<Rightarrow> False)"
  by code_simp+

theorem vacancies_are_filled_safely_witness:
  "\<exists>r x policies fs baseline. vacancy_result = Some (Inr (r, [x])) \<and> vp_Callsign x = ''SAS2'' \<and> generate vacancy_traffic [] = Some (Inr baseline) \<and>
     prepareInput vacancy_traffic = Inr (policies, fs) \<and> promotion_ok vacancy_traffic policies (Time (2 * hour + 50 * minute) UTC) baseline r x"
proof -
  from vacancy_result_ok(1) obtain r ps where v: "vacancy_result = Some (Inr (r, ps))" "map vp_Callsign ps = [''SAS2'']"
    by (auto split: option.splits sum.splits prod.splits)
  from v(2) obtain x where x: "ps = [x]" "vp_Callsign x = ''SAS2''" by auto
  from vacancy_result_ok(2) obtain baseline where b: "generate vacancy_traffic [] = Some (Inr baseline)" "\<not> HasConflicts baseline"
    by (auto split: option.splits sum.splits)
  from vacancy_result_ok(3) obtain policies fs where p: "prepareInput vacancy_traffic = Inr (policies, fs)"
    by (auto split: sum.splits)
  from vacancies_are_filled_safely [OF v(1) [unfolded vacancy_result_def] b p] x(1)
  have "promotion_ok vacancy_traffic policies (Time (2 * hour + 50 * minute) UTC) baseline r x" by simp
  with v(1) x b(1) p show ?thesis by blast
qed

end
