(* ===== verification/Sequence_Offers.thy ===== *)
theory Sequence_Offers
  imports Sequence_Queue
begin

text \<open>
  What \<^verbatim>\<open>CalculateQueueOffers\<close> offers: exactly the occupied earlier slots that a flight behind could
  take, in the order in which the flights wait.
\<close>

section \<open>The committed queue\<close>

lemma check_queue_sorted:
  "check_queue es = Inr u \<Longrightarrow> successively (\<lambda>a b. slot_Sequence (qe_slot b) \<noteq> slot_Sequence (qe_slot a) \<and> ns (queue_time a) < ns (queue_time b)) es"
  by (induction es rule: check_queue.induct) (auto simp: after_def split: if_splits)

lemma queue_sequences:
  assumes "queueEntries revision flights = Inr es"
  shows "sorted_wrt (<) (map (\<lambda>e. slot_Sequence (qe_slot e)) es)" "sorted_wrt (<) (map (\<lambda>e. ns (queue_time e)) es)"
proof -
  from assms obtain cs u where c: "es = go_sort queue_sequence_less cs" "check_queue es = Inr u"
    by (auto simp: queueEntries_def Let_def split: sum.splits)
  have "sorted (map (\<lambda>e. slot_Sequence (qe_slot e)) es)"
    unfolding c(1) by (rule sorted_go_sort_key) (auto simp: key_first_def queue_sequence_less_def)
  then have "successively (\<lambda>a b. slot_Sequence (qe_slot a) \<le> slot_Sequence (qe_slot b)) es"
    by (auto simp: successively_conv_nth sorted_iff_nth_mono)
  then have s: "successively (\<lambda>a b. slot_Sequence (qe_slot a) < slot_Sequence (qe_slot b)) es"
    using check_queue_sorted [OF c(2)] by (auto simp: successively_conv_nth order_less_le)
  then show "sorted_wrt (<) (map (\<lambda>e. slot_Sequence (qe_slot e)) es)"
    by (simp add: successively_map flip: successively_conv_sorted_wrt)
  show "sorted_wrt (<) (map (\<lambda>e. ns (queue_time e)) es)"
    using check_queue_sorted [OF c(2)] by (simp add: successively_map flip: successively_conv_sorted_wrt) (auto simp: successively_conv_nth)
qed

lemma go_sort_sorted_id:
  fixes k :: "'a \<Rightarrow> 'b :: linorder"
  assumes "key_first k lt" "sorted_wrt (<) (map k xs)"
  shows "go_sort lt xs = xs"
proof -
  have srt: "sorted (map k (go_sort lt xs))" by (rule sorted_go_sort_key [OF assms(1)])
  have d: "distinct (map k xs)" "sorted (map k xs)" using assms(2) by (simp_all add: strict_sorted_iff)
  have "mset (map k (go_sort lt xs)) = mset (map k xs)" by simp
  then have "distinct (map k (go_sort lt xs))" using d(1) mset_eq_imp_distinct_iff by blast
  moreover have "inj_on k (set (go_sort lt xs) \<union> set xs)" using d(1) by (simp add: distinct_map)
  ultimately show ?thesis using map_sorted_distinct_set_unique [of k "go_sort lt xs" xs] srt d by simp
qed

section \<open>Who could take a slot\<close>

text \<open>
  The specification of an offer, told from the flights and times of the queue alone. A flight that
  waits in a hold has others ahead of it: those that joined its queue before it and, unless the policy
  lets feeders overtake, those of the other queues of its runway group that were holding before it
  arrived. The exception is a stable flight that keeps its side of a later flight.
\<close>

definition earlier_in :: "gotime option \<Rightarrow> gotime option \<Rightarrow> bool" where
  "earlier_in a b = (case (a, b) of (Some x, Some y) \<Rightarrow> ns x < ns y | _ \<Rightarrow> False)"

definition waits_ahead :: "preparedPolicy \<Rightarrow> preparedFlight \<Rightarrow> preparedFlight \<Rightarrow> bool" where
  "waits_ahead p older f \<longleftrightarrow>
     (if HoldingQueueID older = HoldingQueueID f then earlier_in (HoldingQueueTime older) (HoldingQueueTime f)
      else \<not> AllowCrossFeederOvertake (policy p) \<and> RunwayGroupID older = RunwayGroupID f \<and>
        earlier_in (ActiveHoldingSince older) (ArrivalQueueTime f))"

definition keeps_side :: "preparedFlight \<Rightarrow> preparedFlight \<Rightarrow> gotime \<Rightarrow> bool" where
  "keeps_side f older t \<longleftrightarrow> stableOrder f \<noteq> None \<and>
     (case (CurrentSlot f, CurrentSlot older) of
        (Some s, Some u) \<Rightarrow> ns t < ns (slot_Time s) \<and> ns (slot_Time s) < ns (slot_Time u) \<and> slot_Sequence s < slot_Sequence u
      | _ \<Rightarrow> False)"

text \<open>Behind one that waits ahead there is the required gap and, out of the same hold, a minute on top
  of the difference of the transit times.\<close>

definition released_behind :: "preparedPolicy \<Rightarrow> preparedFlight \<Rightarrow> gotime \<Rightarrow> queueEntry \<Rightarrow> bool" where
  "released_behind p f t e \<longleftrightarrow>
     (let older = qe_flight e in
      ns (queue_time e) + requiredGap p older f t \<le> ns t \<and>
      (HoldingQueueID older = HoldingQueueID f \<and> 0 < HoldingTransit older \<and> 0 < HoldingTransit f \<longrightarrow>
         ns (queue_time e) + HoldingTransit f - HoldingTransit older + minute \<le> ns t))"

definition in_order :: "int option \<Rightarrow> int option \<Rightarrow> bool" where
  "in_order a b = (case (a, b) of (Some m, Some n) \<Rightarrow> m \<le> n | _ \<Rightarrow> True)"

text \<open>Room between two neighbours of a queue: the required gap, and the order of the stable flights.\<close>

definition room_behind :: "preparedPolicy \<Rightarrow> queueEntry \<Rightarrow> preparedFlight \<Rightarrow> gotime \<Rightarrow> bool" where
  "room_behind p e f t \<longleftrightarrow> ns (queue_time e) + requiredGap p (qe_flight e) f t \<le> ns t \<and>
     in_order (stableOrder (qe_flight e)) (stableOrder f)"

definition room_before :: "preparedPolicy \<Rightarrow> preparedFlight \<Rightarrow> gotime \<Rightarrow> queueEntry \<Rightarrow> bool" where
  "room_before p f t e \<longleftrightarrow> ns t + requiredGap p f (qe_flight e) (queue_time e) \<le> ns (queue_time e) \<and>
     in_order (stableOrder f) (stableOrder (qe_flight e))"

text \<open>
  The flight \<open>j\<close> could take the slot of the flight \<open>i\<close> ahead of it: it is active and not released by a
  command; neither of the two nor any flight between them is frozen or ordered by hand; the slot is in
  the future, not too early for it and outside the gaps; and with both taken out of the queue there is
  room for it between the neighbours of the slot and behind everyone who waits ahead of it.
\<close>

definition may_take :: "preparedPolicy \<Rightarrow> gotime \<Rightarrow> queueEntry list \<Rightarrow> nat \<Rightarrow> nat \<Rightarrow> bool" where
  "may_take p tm es i j \<longleftrightarrow>
     (let f = qe_flight (es ! j); t = queue_time (es ! i); behind = (if j = i + 1 then j + 1 else i + 1) in
      fl_State f \<in> {StateUnstable, StateStable} \<and> ReleaseRank f = None \<and>
      (\<forall>k \<in> {i..j}. fl_FreezeReason (qe_flight (es ! k)) = FreezeNone \<and> ManualOrder (qe_flight (es ! k)) = None) \<and>
      ns tm < ns t \<and> ns (OperationalTETA f) - EarlyTolerance (policy p) \<le> ns t \<and>
      (case SlotNotBefore f of None \<Rightarrow> True | Some b \<Rightarrow> ns b \<le> ns t) \<and>
      (\<forall>g \<in> set (gaps p). \<not> (ns (gap_Start g) \<le> ns t \<and> ns t < ns (gap_End g))) \<and>
      (0 < i \<longrightarrow> room_behind p (es ! (i - 1)) f t) \<and>
      (behind < length es \<longrightarrow> room_before p f t (es ! behind)) \<and>
      (\<forall>k < length es. k \<noteq> i \<and> k \<noteq> j \<and> waits_ahead p (qe_flight (es ! k)) f \<longrightarrow>
         keeps_side f (qe_flight (es ! k)) t \<or> released_behind p f t (es ! k)))"

lemma placement_iff:
  "fst (placementWithStableOrder p es f c True) \<longleftrightarrow>
     (case SlotNotBefore f of None \<Rightarrow> True | Some b \<Rightarrow> ns b \<le> ns c) \<and> blockingGap p c = None \<and>
     (let n = slot_index es c in
      (0 < n \<longrightarrow> requiredGap p (ent_flight (es ! (n - 1))) f c \<le> t_sub c (ent_time (es ! (n - 1))) \<and>
        \<not> orderAfter (ManualOrder f) (ManualOrder (ent_flight (es ! (n - 1)))) \<and>
        \<not> orderAfter (stableOrder f) (stableOrder (ent_flight (es ! (n - 1))))) \<and>
      (n < length es \<longrightarrow> requiredGap p f (ent_flight (es ! n)) (ent_time (es ! n)) \<le> t_sub (ent_time (es ! n)) c \<and>
        \<not> orderBefore (ManualOrder f) (ManualOrder (ent_flight (es ! n))) \<and>
        \<not> orderBefore (stableOrder f) (stableOrder (ent_flight (es ! n)))) \<and>
      (HoldingQueueTime f \<noteq> None \<or> ArrivalQueueTime f \<noteq> None \<longrightarrow> (\<forall>e \<in> set es. holding_respected p f c e)))"
proof (cases "(case SlotNotBefore f of None \<Rightarrow> False | Some b \<Rightarrow> before c b) \<or> blockingGap p c \<noteq> None")
  case True
  then show ?thesis by (auto simp: placementWithStableOrder_def before_def split: option.splits)
next
  case False
  then have nb: "(case SlotNotBefore f of None \<Rightarrow> True | Some b \<Rightarrow> ns b \<le> ns c)" "blockingGap p c = None"
    "\<not> (case SlotNotBefore f of None \<Rightarrow> False | Some b \<Rightarrow> before c b)"
    by (auto simp: before_def split: option.splits)
  let ?n = "slot_index es c"
  let ?v0 = "(True, t_add c (- 1), t_add c 1)"
  let ?v1 = "if 0 < ?n then leading_check p f c True (es ! (?n - 1)) ?v0 else ?v0"
  let ?v2 = "if ?n < length es then trailing_check p f c True (es ! ?n) ?v1 else ?v1"
  have v: "placementWithStableOrder p es f c True =
      (if HoldingQueueTime f \<noteq> None \<or> ArrivalQueueTime f \<noteq> None then foldl (holding_check p f c) ?v2 es else ?v2)"
    using nb(2,3) unfolding placementWithStableOrder_def slot_index_def Let_def by simp
  have v1: "fst ?v1 \<longleftrightarrow> (0 < ?n \<longrightarrow> requiredGap p (ent_flight (es ! (?n - 1))) f c \<le> t_sub c (ent_time (es ! (?n - 1))) \<and>
        \<not> orderAfter (ManualOrder f) (ManualOrder (ent_flight (es ! (?n - 1)))) \<and>
        \<not> orderAfter (stableOrder f) (stableOrder (ent_flight (es ! (?n - 1)))))"
    by (simp add: leading_check_valid)
  have v2: "fst ?v2 \<longleftrightarrow> fst ?v1 \<and> (?n < length es \<longrightarrow> requiredGap p f (ent_flight (es ! ?n)) (ent_time (es ! ?n)) \<le> t_sub (ent_time (es ! ?n)) c \<and>
        \<not> orderBefore (ManualOrder f) (ManualOrder (ent_flight (es ! ?n))) \<and>
        \<not> orderBefore (stableOrder f) (stableOrder (ent_flight (es ! ?n))))"
    by (simp add: trailing_check_valid)
  have "fst (placementWithStableOrder p es f c True) \<longleftrightarrow> fst ?v2 \<and>
      (HoldingQueueTime f \<noteq> None \<or> ArrivalQueueTime f \<noteq> None \<longrightarrow> (\<forall>e \<in> set es. holding_respected p f c e))"
    unfolding v by (simp only: holding_checks_valid split: if_split) blast
  then show ?thesis using nb(1,2) unfolding v2 v1 Let_def by (simp only: simp_thms conj_assoc)
qed

text \<open>Both entries taken out: the slot lies where its flight was.\<close>

lemma queue_without:
  fixes es :: "queueEntry list"
  assumes "i < j" "j < length es"
  defines "rest \<equiv> delete_at i (delete_at j es)"
  shows "length rest = length es - 2"
    and "k < i \<Longrightarrow> rest ! k = es ! k"
    and "i < length rest \<longleftrightarrow> (if j = i + 1 then j + 1 else i + 1) < length es"
    and "i < length rest \<Longrightarrow> rest ! i = es ! (if j = i + 1 then j + 1 else i + 1)"
    and "set rest = {es ! k | k. k < length es \<and> k \<noteq> i \<and> k \<noteq> j}"
proof -
  have r: "rest = take i es @ drop (Suc i) (take j es) @ drop (Suc j) es"
    using assms(1,2) by (simp add: rest_def delete_at_def min_def)
  show len: "length rest = length es - 2" using assms(1,2) by (simp add: r min_def)
  show "k < i \<Longrightarrow> rest ! k = es ! k" using assms(1,2) by (simp add: r nth_append min_def)
  show "i < length rest \<longleftrightarrow> (if j = i + 1 then j + 1 else i + 1) < length es" using assms(1,2) len by auto
  show "i < length rest \<Longrightarrow> rest ! i = es ! (if j = i + 1 then j + 1 else i + 1)"
    using assms(1,2) by (auto simp: r nth_append min_def)
  have "{es ! k | k. k < length es \<and> k \<noteq> i \<and> k \<noteq> j} =
      {es ! k | k. k < i} \<union> {es ! k | k. i < k \<and> k < j} \<union> {es ! k | k. j < k \<and> k < length es}"
    using assms(1,2) by (auto, metis linorder_neqE_nat)
  moreover have "set (take i es) = {es ! k | k. k < i}"
  proof -
    have "take i es = map ((!) es) [0..<i]" using assms(1,2) by (intro nth_equalityI) simp_all
    then show ?thesis by auto
  qed
  moreover have "set (drop (Suc i) (take j es)) = {es ! k | k. i < k \<and> k < j}"
  proof -
    have "drop (Suc i) (take j es) = map ((!) es) [Suc i..<j]"
      using assms(1,2) by (intro nth_equalityI) (simp_all add: min_def)
    then show ?thesis by auto
  qed
  moreover have "set (drop (Suc j) es) = {es ! k | k. j < k \<and> k < length es}"
  proof -
    have "drop (Suc j) es = map ((!) es) [Suc j..<length es]" by (intro nth_equalityI) simp_all
    then show ?thesis by auto
  qed
  ultimately show "set rest = {es ! k | k. k < length es \<and> k \<noteq> i \<and> k \<noteq> j}" by (simp add: r Un_assoc)
qed

lemma slot_index_without:
  fixes es :: "queueEntry list"
  assumes "sorted_wrt (<) (map (\<lambda>e. ns (queue_time e)) es)" "i < j" "j < length es"
  shows "slot_index (map queue_allocated (delete_at i (delete_at j es))) (queue_time (es ! i)) = i"
proof -
  let ?rest = "delete_at i (delete_at j es)" and ?t = "ns (queue_time (es ! i))"
  let ?as = "map queue_allocated ?rest"
  let ?n = "slot_index ?as (queue_time (es ! i))"
  have lt: "ns (queue_time (es ! a)) < ns (queue_time (es ! b))" if "a < b" "b < length es" for a b
    using assms(1) that by (simp add: sorted_wrt_iff_nth_less)
  have r: "?rest = take i es @ drop (Suc i) (take j es) @ drop (Suc j) es"
    using assms(2,3) by (simp add: delete_at_def min_def)
  have low: "ns (queue_time (?rest ! k)) < ?t" if "k < i" for k
    using queue_without(2) [OF assms(2,3) that] lt that assms(2,3) by simp
  have high: "?t < ns (queue_time (?rest ! k))" if "i \<le> k" "k < length ?rest" for k
    using that assms(2,3) lt by (auto simp: r nth_append min_def)
  have mono: "\<not> before (ent_time (?as ! b)) (queue_time (es ! i))"
    if "a \<le> b" "b < length ?as" "\<not> before (ent_time (?as ! a)) (queue_time (es ! i))" for a b
  proof -
    have "i \<le> a" using low [of a] that by (cases "a < i") (simp_all add: queue_allocated_def before_def)
    with high [of b] that show ?thesis by (simp add: queue_allocated_def before_def)
  qed
  have len: "i \<le> length ?rest" using queue_without(1) [OF assms(2,3)] assms(2,3) by simp
  show ?thesis
  proof (rule antisym)
    show "?n \<le> i"
    proof (rule ccontr)
      assume "\<not> ?n \<le> i"
      then have i: "i < ?n" by simp
      moreover have "?n \<le> length ?rest" unfolding slot_index_def using go_search_le [of "length ?as"] by simp
      ultimately have "before (ent_time (?as ! i)) (queue_time (es ! i))"
        using go_search_spec(1) [of "length ?as" "\<lambda>m. \<not> before (ent_time (?as ! m)) (queue_time (es ! i))" i, OF mono]
        by (simp add: slot_index_def)
      with high [of i] i \<open>?n \<le> length ?rest\<close> show False by (simp add: queue_allocated_def before_def)
    qed
    show "i \<le> ?n"
    proof (rule ccontr)
      assume "\<not> i \<le> ?n"
      then have n: "?n < i" by simp
      with len have "\<not> before (ent_time (?as ! ?n)) (queue_time (es ! i))"
        using go_search_spec(2) [of "length ?as" "\<lambda>m. \<not> before (ent_time (?as ! m)) (queue_time (es ! i))" ?n, OF mono]
        by (simp add: slot_index_def)
      with low [OF n] n len show False by (simp add: queue_allocated_def before_def)
    qed
  qed
qed

lemma orders_in_order:
  "\<not> orderAfter a b \<longleftrightarrow> in_order b a" "\<not> orderBefore a b \<longleftrightarrow> in_order a b"
  by (cases a; cases b; simp add: in_order_def not_less)+

lemma holding_respected_waits:
  assumes "ManualOrder f = None" "ReleaseRank f = None"
  shows "holding_respected p f t (queue_allocated e) \<longleftrightarrow>
    (waits_ahead p (qe_flight e) f \<longrightarrow> keeps_side f (qe_flight e) t \<or> released_behind p f t e)"
proof -
  have w: "holdingPrecedes p (qe_flight e) f \<longleftrightarrow> waits_ahead p (qe_flight e) f"
    using assms(2) by (cases "ReleaseRank (qe_flight e)")
      (auto simp: holdingPrecedes_def HoldingPrecedes_def waits_ahead_def earlier_in_def opt_before_def before_def split: option.splits)
  have k: "holding_exempt f (qe_flight e) t \<longleftrightarrow> keeps_side f (qe_flight e) t"
    using assms by (auto simp: holding_exempt_def keeps_side_def before_def split: option.splits)
  have m: "\<not> before t (holding_minimum p f (queue_allocated e) t) \<longleftrightarrow> released_behind p f t e"
    using assms(2) by (auto simp: holding_minimum_def released_behind_def queue_allocated_def go_time Let_def)
  show ?thesis using w k m by (simp add: holding_respected_def queue_allocated_def)
qed

lemma offered_iff:
  assumes "sorted_wrt (<) (map (\<lambda>e. ns (queue_time e)) es)" "prepared_ok p" "0 < validity" "i < j" "j < length es"
  shows "offered p tm validity es i j \<longleftrightarrow> may_take p tm es i j"
proof -
  let ?f = "qe_flight (es ! j)" and ?t = "queue_time (es ! i)"
  let ?rest = "delete_at i (delete_at j es)" and ?b = "if j = i + 1 then j + 1 else i + 1"
  note q = queue_without [OF assms(4,5)]
  let ?free = "\<forall>k \<in> {i..j}. fl_FreezeReason (qe_flight (es ! k)) = FreezeNone \<and> ManualOrder (qe_flight (es ! k)) = None"
  let ?own = "fl_State ?f \<in> {StateUnstable, StateStable} \<and> ReleaseRank ?f = None \<and> ?free"
  have "{i..j} = insert i (insert j {Suc i..<j})" using assms(4) by auto
  then have own: "queueEligible ?f \<and> \<not> frozen_or_ordered (qe_flight (es ! i)) \<and> \<not> crossesProtectedOrder es i j \<longleftrightarrow> ?own"
    by (auto simp: queueEligible_def frozen_or_ordered_def crossesProtectedOrder_def list_ex_iff)
  have late: "after (offer_expiry tm validity ?t) tm \<longleftrightarrow> ns tm < ns ?t"
    using assms(3) by (auto simp: offer_expiry_def go_time)
  have early: "\<not> before ?t (t_add (OperationalTETA ?f) (- EarlyTolerance (policy p))) \<longleftrightarrow>
      ns (OperationalTETA ?f) - EarlyTolerance (policy p) \<le> ns ?t" by (auto simp: go_time)
  have gap: "blockingGap p ?t = None \<longleftrightarrow> (\<forall>g \<in> set (gaps p). \<not> (ns (gap_Start g) \<le> ns ?t \<and> ns ?t < ns (gap_End g)))"
    using blockingGap_exact [OF assms(2)] blockingGap_Some [of p ?t] by (meson not_None_eq)
  have place: "fst (queuePlacement p (map queue_allocated ?rest) ?f ?t) \<longleftrightarrow>
      (case SlotNotBefore ?f of None \<Rightarrow> True | Some b \<Rightarrow> ns b \<le> ns ?t) \<and> blockingGap p ?t = None \<and>
      (0 < i \<longrightarrow> room_behind p (es ! (i - 1)) ?f ?t) \<and> (?b < length es \<longrightarrow> room_before p ?f ?t (es ! ?b)) \<and>
      (\<forall>k < length es. k \<noteq> i \<and> k \<noteq> j \<and> waits_ahead p (qe_flight (es ! k)) ?f \<longrightarrow>
         keeps_side ?f (qe_flight (es ! k)) ?t \<or> released_behind p ?f ?t (es ! k))" if o: "?own"
  proof -
    have m: "ManualOrder ?f = None" "ReleaseRank ?f = None" using o assms(4) by auto
    have "i \<le> length ?rest" using q(1) assms(4,5) by simp
    then have lead: "0 < i \<Longrightarrow> (map queue_allocated ?rest) ! (i - 1) = queue_allocated (es ! (i - 1))"
      using q(2) [of "i - 1"] by simp
    have trail: "i < length ?rest \<Longrightarrow> (map queue_allocated ?rest) ! i = queue_allocated (es ! ?b)" using q(4) by simp
    have waits: "(\<forall>e \<in> set ?rest. waits_ahead p (qe_flight e) ?f \<longrightarrow> keeps_side ?f (qe_flight e) ?t \<or> released_behind p ?f ?t e) \<longleftrightarrow>
        (\<forall>k < length es. k \<noteq> i \<and> k \<noteq> j \<and> waits_ahead p (qe_flight (es ! k)) ?f \<longrightarrow>
         keeps_side ?f (qe_flight (es ! k)) ?t \<or> released_behind p ?f ?t (es ! k))"
      unfolding q(5) by blast
    have none: "HoldingQueueTime ?f \<noteq> None \<or> ArrivalQueueTime ?f \<noteq> None" if "waits_ahead p e ?f" for e
      using that by (auto simp: waits_ahead_def earlier_in_def split: option.splits if_splits)
    have hold: "(HoldingQueueTime ?f \<noteq> None \<or> ArrivalQueueTime ?f \<noteq> None \<longrightarrow>
          (\<forall>e \<in> set (map queue_allocated ?rest). holding_respected p ?f ?t e)) \<longleftrightarrow>
        (\<forall>e \<in> set ?rest. waits_ahead p (qe_flight e) ?f \<longrightarrow> keeps_side ?f (qe_flight e) ?t \<or> released_behind p ?f ?t e)"
      using none holding_respected_waits [OF m] by auto
    have ahead: "requiredGap p (ent_flight (map queue_allocated ?rest ! (i - 1))) ?f ?t \<le>
          t_sub ?t (ent_time (map queue_allocated ?rest ! (i - 1))) \<and>
        \<not> orderAfter (ManualOrder ?f) (ManualOrder (ent_flight (map queue_allocated ?rest ! (i - 1)))) \<and>
        \<not> orderAfter (stableOrder ?f) (stableOrder (ent_flight (map queue_allocated ?rest ! (i - 1)))) \<longleftrightarrow>
        room_behind p (es ! (i - 1)) ?f ?t" if "0 < i"
      unfolding lead [OF that] m(1) orders_in_order room_behind_def
      by (auto simp: queue_allocated_def t_sub_def in_order_def [of _ None] split: option.splits)
    have behind: "requiredGap p ?f (ent_flight (map queue_allocated ?rest ! i)) (ent_time (map queue_allocated ?rest ! i)) \<le>
          t_sub (ent_time (map queue_allocated ?rest ! i)) ?t \<and>
        \<not> orderBefore (ManualOrder ?f) (ManualOrder (ent_flight (map queue_allocated ?rest ! i))) \<and>
        \<not> orderBefore (stableOrder ?f) (stableOrder (ent_flight (map queue_allocated ?rest ! i))) \<longleftrightarrow>
        room_before p ?f ?t (es ! ?b)" if "i < length ?rest"
      unfolding trail [OF that] m(1) orders_in_order room_before_def
      by (auto simp: queue_allocated_def t_sub_def in_order_def [of None] split: option.splits)
    show ?thesis
      unfolding queuePlacement_def placement_iff slot_index_without [OF assms(1,4,5)] Let_def hold waits length_map q(3) [symmetric]
      using ahead behind by blast
  qed
  have "offered p tm validity es i j \<longleftrightarrow> ?own \<and> ns tm < ns ?t \<and> ns (OperationalTETA ?f) - EarlyTolerance (policy p) \<le> ns ?t \<and>
      fst (queuePlacement p (map queue_allocated ?rest) ?f ?t)"
    unfolding offered_def Let_def early [symmetric] late [symmetric] own [symmetric] by blast
  also have "\<dots> \<longleftrightarrow> may_take p tm es i j"
    unfolding may_take_def Let_def using place gap by blast
  finally show ?thesis .
qed

section \<open>The offers of one slot\<close>

definition takers :: "preparedPolicy \<Rightarrow> gotime \<Rightarrow> duration \<Rightarrow> queueEntry list \<Rightarrow> nat \<Rightarrow> nat list" where
  "takers p tm validity es i = filter (offered p tm validity es i) [Suc i..<length es]"

lemma slot_offers_takers:
  assumes "sorted_wrt (<) (map (\<lambda>e. slot_Sequence (qe_slot e)) es)"
  shows "slot_offers p revision g tm validity es i =
    map (\<lambda>k. (pend_offer (pending_offer revision g tm validity es i (takers p tm validity es i ! k)))\<lparr> QueuePosition := k + 1 \<rparr>)
      [0..<length (takers p tm validity es i)]"
proof -
  let ?ps = "map (pending_offer revision g tm validity es i) (takers p tm validity es i)"
  have "sorted_wrt (<) [Suc i..<length es]" by simp
  then have "sorted_wrt (<) (takers p tm validity es i)" unfolding takers_def by (rule sorted_wrt_filter)
  then have "sorted_wrt (\<lambda>a b. slot_Sequence (qe_slot (es ! a)) < slot_Sequence (qe_slot (es ! b))) (takers p tm validity es i)"
    by (rule sorted_wrt_mono_rel [rotated]) (use assms in \<open>auto simp: takers_def sorted_wrt_iff_nth_less\<close>)
  then have "sorted_wrt (<) (map assignedSequence ?ps)" by (simp add: sorted_wrt_map pending_offer_def Let_def)
  moreover have "key_first assignedSequence pending_less" by (auto simp: key_first_def pending_less_def)
  ultimately have "go_sort pending_less ?ps = ?ps" by (intro go_sort_sorted_id)
  then show ?thesis unfolding slot_offers_def takers_def [symmetric] Let_def by simp
qed

lemma slot_offers_fields:
  assumes "sorted_wrt (<) (map (\<lambda>e. slot_Sequence (qe_slot e)) es)" "q \<in> set (slot_offers p revision g tm validity es i)"
  shows "qo_RunwayGroupID q = g" "CandidateSlot q = qe_slot (es ! i)" "AirportRevision q = revision"
    "ns tm < ns (ExpiresAt q)" "ns (ExpiresAt q) \<le> ns (queue_time (es ! i))" "ns (ExpiresAt q) \<le> ns tm + validity"
proof -
  from assms(2) obtain k where k: "k < length (takers p tm validity es i)"
      "q = (pend_offer (pending_offer revision g tm validity es i (takers p tm validity es i ! k)))\<lparr> QueuePosition := k + 1 \<rparr>"
    by (auto simp: slot_offers_takers [OF assms(1)])
  from nth_mem [OF k(1)] have "offered p tm validity es i (takers p tm validity es i ! k)" by (simp add: takers_def)
  then have "after (offer_expiry tm validity (queue_time (es ! i))) tm" by (simp add: offered_def Let_def)
  then show "qo_RunwayGroupID q = g" "CandidateSlot q = qe_slot (es ! i)" "AirportRevision q = revision"
    "ns tm < ns (ExpiresAt q)" "ns (ExpiresAt q) \<le> ns (queue_time (es ! i))" "ns (ExpiresAt q) \<le> ns tm + validity"
    by (auto simp: k(2) pending_offer_def Let_def offer_expiry_def go_time t_add_def split: if_splits)
qed

abbreviation all_slot_offers :: "preparedPolicy \<Rightarrow> nat \<Rightarrow> string \<Rightarrow> gotime \<Rightarrow> duration \<Rightarrow> queueEntry list \<Rightarrow> QueueOffer list" where
  "all_slot_offers p revision g tm validity es \<equiv> concat (map (slot_offers p revision g tm validity es) [0..<length es])"

lemma filter_slot_offers:
  assumes "sorted_wrt (<) (map (\<lambda>e. slot_Sequence (qe_slot e)) es)" "i < length es"
  shows "filter (\<lambda>q. CandidateSlot q = qe_slot (es ! i)) (all_slot_offers p revision g tm validity es) = slot_offers p revision g tm validity es i"
proof -
  let ?o = "slot_offers p revision g tm validity es"
  have d: "distinct (map (\<lambda>e. slot_Sequence (qe_slot e)) es)" using assms(1) by (simp add: strict_sorted_iff)
  have ne: "qe_slot (es ! j) \<noteq> qe_slot (es ! i)" if "j < length es" "j \<noteq> i" for j
    using nth_eq_iff_index_eq [OF d, of j i] that assms(2) by auto
  have "filter (\<lambda>q. CandidateSlot q = qe_slot (es ! i)) (concat (map ?o js)) = (if i \<in> set js then ?o i else [])"
    if "distinct js" "set js \<subseteq> {..<length es}" for js
    using that
  proof (induction js)
    case (Cons j js)
    have "filter (\<lambda>q. CandidateSlot q = qe_slot (es ! i)) (?o j) = (if j = i then ?o j else [])"
      using slot_offers_fields(2) [OF assms(1)] ne [of j] Cons.prems by (auto simp: filter_id_conv filter_empty_conv)
    with Cons show ?case by auto
  qed simp
  from this [of "[0..<length es]"] assms(2) show ?thesis by (simp add: lessThan_atLeast0)
qed

lemma all_slot_offers_group:
  assumes "queueEntries revision flights = Inr es"
  shows "\<forall>q \<in> set (all_slot_offers p revision' g tm validity es). qo_RunwayGroupID q = g"
  using slot_offers_fields(1) [OF queue_sequences(1) [OF assms]] by auto

lemma group_offers_Inr:
  assumes "group_offers input tm validity flights gs = Inr qs" "distinct (map fst gs)"
  shows "(g, p) \<in> set gs \<Longrightarrow> \<exists>es. queueEntries (in_Revision input) (group_flights g flights) = Inr es \<and>
      filter (\<lambda>q. qo_RunwayGroupID q = g) qs = all_slot_offers p (in_Revision input) g tm validity es"
    and "\<forall>q \<in> set qs. \<exists>(g, p) \<in> set gs. \<exists>es. queueEntries (in_Revision input) (group_flights g flights) = Inr es \<and>
      q \<in> set (all_slot_offers p (in_Revision input) g tm validity es)"
proof -
  have "((g, p) \<in> set gs \<longrightarrow> (\<exists>es. queueEntries (in_Revision input) (group_flights g flights) = Inr es \<and>
      filter (\<lambda>q. qo_RunwayGroupID q = g) qs = all_slot_offers p (in_Revision input) g tm validity es)) \<and>
    (\<forall>q \<in> set qs. \<exists>(g, p) \<in> set gs. \<exists>es. queueEntries (in_Revision input) (group_flights g flights) = Inr es \<and>
      q \<in> set (all_slot_offers p (in_Revision input) g tm validity es))"
    using assms
  proof (induction input tm validity flights gs arbitrary: qs rule: group_offers.induct)
    case (2 input tm validity flights h p' gs)
    from "2.prems"(1) obtain es rest where e: "queueEntries (in_Revision input) (group_flights h flights) = Inr es"
        "group_offers input tm validity flights gs = Inr rest" "qs = all_slot_offers p' (in_Revision input) h tm validity es @ rest"
      by (auto split: sum.splits)
    from "2.IH" [OF e(1,2)] "2.prems"(2) have IH: "(g, p) \<in> set gs \<longrightarrow> (\<exists>es. queueEntries (in_Revision input) (group_flights g flights) = Inr es \<and>
        filter (\<lambda>q. qo_RunwayGroupID q = g) rest = all_slot_offers p (in_Revision input) g tm validity es)"
      "\<forall>q \<in> set rest. \<exists>(g, p) \<in> set gs. \<exists>es. queueEntries (in_Revision input) (group_flights g flights) = Inr es \<and>
        q \<in> set (all_slot_offers p (in_Revision input) g tm validity es)" by simp_all
    have mine: "filter (\<lambda>q. qo_RunwayGroupID q = g) (all_slot_offers p' (in_Revision input) h tm validity es) =
        (if g = h then all_slot_offers p' (in_Revision input) h tm validity es else [])"
      using all_slot_offers_group [OF e(1)] by (simp add: filter_id_conv filter_empty_conv)
    have others: "filter (\<lambda>q. qo_RunwayGroupID q = g) rest = []" if g: "g \<notin> fst ` set gs"
    proof -
      have "qo_RunwayGroupID q \<noteq> g" if q: "q \<in> set rest" for q
      proof -
        from IH(2) q obtain k p es where k: "(k, p) \<in> set gs" "queueEntries (in_Revision input) (group_flights k flights) = Inr es"
            "q \<in> set (all_slot_offers p (in_Revision input) k tm validity es)" by blast
        with all_slot_offers_group [OF k(2)] g show ?thesis by force
      qed
      then show ?thesis by (simp add: filter_empty_conv)
    qed
    show ?case
    proof (intro conjI impI ballI)
      assume m: "(g, p) \<in> set ((h, p') # gs)"
      show "\<exists>es. queueEntries (in_Revision input) (group_flights g flights) = Inr es \<and>
          filter (\<lambda>q. qo_RunwayGroupID q = g) qs = all_slot_offers p (in_Revision input) g tm validity es"
      proof (cases "g = h")
        case True
        with m "2.prems"(2) have "p = p'" "g \<notin> fst ` set gs" by force+
        with True e(1,3) mine others show ?thesis by simp
      next
        case False
        with m IH(1) mine e(3) show ?thesis by auto
      qed
    next
      fix q assume "q \<in> set qs"
      then consider "q \<in> set (all_slot_offers p' (in_Revision input) h tm validity es)" | "q \<in> set rest" unfolding e(3) set_append by blast
      then show "\<exists>(g, p) \<in> set ((h, p') # gs). \<exists>es. queueEntries (in_Revision input) (group_flights g flights) = Inr es \<and>
          q \<in> set (all_slot_offers p (in_Revision input) g tm validity es)"
      proof cases
        case 1
        with e(1) show ?thesis by (intro bexI [of _ "(h, p')"]) simp_all
      next
        case 2
        with IH(2) show ?thesis by (meson list.set_intros(2))
      qed
    qed
  qed simp
  then show "(g, p) \<in> set gs \<Longrightarrow> \<exists>es. queueEntries (in_Revision input) (group_flights g flights) = Inr es \<and>
      filter (\<lambda>q. qo_RunwayGroupID q = g) qs = all_slot_offers p (in_Revision input) g tm validity es"
    and "\<forall>q \<in> set qs. \<exists>(g, p) \<in> set gs. \<exists>es. queueEntries (in_Revision input) (group_flights g flights) = Inr es \<and>
      q \<in> set (all_slot_offers p (in_Revision input) g tm validity es)" by blast+
qed

lemma weak_order_offers: "weak_order offer_less"
  unfolding weak_order_def offer_less_def Let_def go_time by (auto split: if_splits)

section \<open>The offers are exact\<close>

text \<open>
  C19. The offers of a committed slot are exact: it is offered to precisely the flights behind it that
  could take it once its own flight has left (\<open>may_take\<close>, a specification of its own that says nothing
  of the search for a place), in the order of their own slots, numbered from one; each
  offer is for the present revision and ends in the future, at the slot or after the configured time;
  and nothing is offered but committed slots.
\<close>

theorem queue_offers_are_exact:
  assumes "CalculateQueueOffers input validity tm = Inr offers" "prepareInput input = Inr (ps, fs)"
  shows "(\<forall>(g, p) \<in> set ps. \<forall>es i. queueEntries (in_Revision input) (group_flights g fs) = Inr es \<and> i < length es \<longrightarrow>
      (let qs = filter (\<lambda>q. qo_RunwayGroupID q = g \<and> CandidateSlot q = qe_slot (es ! i)) offers in
       map qo_Callsign qs = map (\<lambda>j. queue_name (es ! j)) (filter (may_take p tm es i) [Suc i..<length es]) \<and>
       map QueuePosition qs = [1..<Suc (length qs)] \<and>
       (\<forall>q \<in> set qs. AirportRevision q = in_Revision input \<and> ns tm < ns (ExpiresAt q) \<and>
          ns (ExpiresAt q) \<le> ns (queue_time (es ! i)) \<and> ns (ExpiresAt q) \<le> ns tm + validity))) \<and>
    (\<forall>q \<in> set offers. \<exists>es. queueEntries (in_Revision input) (group_flights (qo_RunwayGroupID q) fs) = Inr es \<and>
      CandidateSlot q \<in> qe_slot ` set es)"
proof -
  from assms have "map_sum id (go_sort offer_less) (group_offers input tm validity fs ps) = Inr offers"
    by (auto simp: CalculateQueueOffers_def split: if_splits)
  then obtain qs where q: "group_offers input tm validity fs ps = Inr qs" "offers = go_sort offer_less qs"
    by (cases "group_offers input tm validity fs ps") auto
  note g = group_offers_Inr [OF q(1) prepareInput_ok(1) [OF assms(2)]]
  have exact: "let qs = filter (\<lambda>q. qo_RunwayGroupID q = g \<and> CandidateSlot q = qe_slot (es ! i)) offers in
       map qo_Callsign qs = map (\<lambda>j. queue_name (es ! j)) (filter (may_take p tm es i) [Suc i..<length es]) \<and>
       map QueuePosition qs = [1..<Suc (length qs)] \<and>
       (\<forall>q \<in> set qs. AirportRevision q = in_Revision input \<and> ns tm < ns (ExpiresAt q) \<and>
          ns (ExpiresAt q) \<le> ns (queue_time (es ! i)) \<and> ns (ExpiresAt q) \<le> ns tm + validity)"
    if "(g, p) \<in> set ps" "queueEntries (in_Revision input) (group_flights g fs) = Inr es" "i < length es" for g p es i
  proof -
    let ?P = "\<lambda>q. qo_RunwayGroupID q = g \<and> CandidateSlot q = qe_slot (es ! i)"
    let ?os = "slot_offers p (in_Revision input) g tm validity es i"
    note seq = queue_sequences(1) [OF that(2)]
    have "prepared_ok p" using prepareInput_ok(2) [OF assms(2) that(1)] by (simp add: policy_ok_def)
    moreover have "0 < validity" using assms(1) by (auto simp: CalculateQueueOffers_def split: if_splits)
    ultimately have takes: "takers p tm validity es i = filter (may_take p tm es i) [Suc i..<length es]"
      unfolding takers_def using offered_iff [OF queue_sequences(2) [OF that(2)]] by (intro filter_cong) auto
    have mine: "filter ?P qs = ?os"
    proof -
      have "filter ?P qs = filter (\<lambda>q. CandidateSlot q = qe_slot (es ! i)) (filter (\<lambda>q. qo_RunwayGroupID q = g) qs)" by (simp add: conj_commute)
      with g(1) [OF that(1)] that(2) filter_slot_offers [OF seq that(3)] show ?thesis by auto
    qed
    have pos: "map QueuePosition ?os = [1..<Suc (length ?os)]"
      unfolding slot_offers_takers [OF seq] by (rule nth_equalityI) (simp_all del: upt_Suc)
    have "filter ?P offers = ?os" unfolding q(2) mine [symmetric]
    proof (rule filter_go_sort [where k = QueuePosition])
      show "sorted_wrt (<) (map QueuePosition (filter ?P qs))" by (simp add: mine pos del: upt_Suc)
    qed (auto simp: weak_order_offers offer_less_def Let_def go_time split: if_splits)
    moreover have "map qo_Callsign ?os = map (\<lambda>j. queue_name (es ! j)) (takers p tm validity es i)"
      unfolding slot_offers_takers [OF seq] by (rule nth_equalityI) (simp_all add: pending_offer_def Let_def)
    ultimately show ?thesis
      using pos slot_offers_fields [OF seq, of _ p "in_Revision input" g tm validity i] by (simp add: takes Let_def)
  qed
  moreover have "\<exists>es. queueEntries (in_Revision input) (group_flights (qo_RunwayGroupID x) fs) = Inr es \<and> CandidateSlot x \<in> qe_slot ` set es"
    if "x \<in> set offers" for x
  proof -
    from that g(2) obtain h p es where h: "queueEntries (in_Revision input) (group_flights h fs) = Inr es"
        "x \<in> set (all_slot_offers p (in_Revision input) h tm validity es)" unfolding q(2)
      by (simp only: set_go_sort) blast
    then obtain i where i: "i < length es" "x \<in> set (slot_offers p (in_Revision input) h tm validity es i)" by auto
    with slot_offers_fields(1,2) [OF queue_sequences(1) [OF h(1)] i(2)] h(1) show ?thesis by auto
  qed
  ultimately show ?thesis by blast
qed

definition offer_traffic :: Input where
  "offer_traffic = \<lparr> in_Revision = 1, in_Policies = [sample_policy False], in_STARFamilyPolicies = [],
     in_Flights = map (\<lambda>(c, m, k). (sample_flight c (3 * hour) ''M'')\<lparr> CurrentSlot := Some ((sample_slot (3 * hour + m * minute) k)\<lparr> slot_Reason := ''rate'' \<rparr>) \<rparr>)
       [(''SAS1'', 0, 1), (''SAS2'', 2, 2), (''SAS3'', 4, 3)] \<rparr>"

definition offer_ready :: "(string \<times> preparedPolicy) list \<times> preparedFlight list" where
  "offer_ready = projr (prepareInput offer_traffic)"

definition offer_queue :: "queueEntry list" where
  "offer_queue = projr (queueEntries 1 (group_flights ''22L'' (snd offer_ready)))"

definition sample_offers :: "QueueOffer list" where
  "sample_offers = projr (CalculateQueueOffers offer_traffic (10 * minute) (Time (2 * hour + 55 * minute) UTC))"

lemma sample_offers_ok:
  "CalculateQueueOffers offer_traffic (10 * minute) (Time (2 * hour + 55 * minute) UTC) = Inr sample_offers"
  "prepareInput offer_traffic = Inr (fst offer_ready, snd offer_ready)"
  "queueEntries (in_Revision offer_traffic) (group_flights ''22L'' (snd offer_ready)) = Inr offer_queue \<and> 0 < length offer_queue"
  "(''22L'', snd (fst offer_ready ! 0)) \<in> set (fst offer_ready)"
  "map (\<lambda>j. queue_name (offer_queue ! j)) (filter (may_take (snd (fst offer_ready ! 0)) (Time (2 * hour + 55 * minute) UTC) offer_queue 0)
     [Suc 0..<length offer_queue]) = [''SAS2'', ''SAS3'']"
  by code_simp+

theorem queue_offers_are_exact_witness:
  "map qo_Callsign (filter (\<lambda>q. qo_RunwayGroupID q = ''22L'' \<and> CandidateSlot q = qe_slot (offer_queue ! 0)) sample_offers) = [''SAS2'', ''SAS3'']"
proof -
  from bspec [OF conjunct1 [OF queue_offers_are_exact [OF sample_offers_ok(1,2)]] sample_offers_ok(4)] sample_offers_ok(3)
  have "map qo_Callsign (filter (\<lambda>q. qo_RunwayGroupID q = ''22L'' \<and> CandidateSlot q = qe_slot (offer_queue ! 0)) sample_offers) =
      map (\<lambda>j. queue_name (offer_queue ! j)) (filter (may_take (snd (fst offer_ready ! 0)) (Time (2 * hour + 55 * minute) UTC) offer_queue 0)
        [Suc 0..<length offer_queue])"
    by (simp add: Let_def del: upt_Suc)
  then show ?thesis by (simp only: sample_offers_ok(5))
qed

end
