(* ===== verification/Sequence_Rebuild.thy ===== *)
theory Sequence_Rebuild
  imports Sequence_Gap_Fill Sequence_Go_Around
begin

text \<open>
  The rebuild of the arrival sequence, \<^verbatim>\<open>internal/aman/sequence/rebuild.go\<close>: the flights of the holding
  stacks are released one by one, the lowest of each stack first and of these the one that has held
  longest, and get landing slots in that order, behind the traffic that is in the terminal area already
  and before the inbound traffic.

  The maps of the code are functions from runway groups or stacks, a missing time being the zero time. The
  code collects the flights of a class from a map and then sorts them by a total order, so the order of the
  map does not matter. The errors of the retained reservations are reported in the order of the policies.
  Diagnostics that name no blocker are the only ones made here, so that field is left out.
\<close>

section \<open>The flights to rebuild\<close>

record RebuildDiagnostic =
  rd_Code :: string
  rd_Callsign :: string
  rd_Message :: string

record RebuildOutcome =
  ReleaseOrder :: "string list"
  Diagnostics :: "RebuildDiagnostic list"

record RebuildDecision = Decision +
  reb_Outcome :: RebuildOutcome

datatype rebuild_error =
    RebuildRefused command_error
  | RebuildEngine seq_error
  | RetainedTooClose string string
  | ReleaseUnplaced string seq_error

definition isRetained :: "'a Flight_scheme \<Rightarrow> bool" where
  "isRetained f \<longleftrightarrow> RebuildRetained f \<or> fl_FreezeReason f \<noteq> FreezeNone"

definition diagnose :: "string \<Rightarrow> 'a Flight_scheme \<Rightarrow> string \<Rightarrow> RebuildDiagnostic" where
  "diagnose code f m = \<lparr> rd_Code = code, rd_Callsign = Callsign f, rd_Message = m \<rparr>"

definition lacks_evidence :: "'a Flight_scheme \<Rightarrow> bool" where
  "lacks_evidence f \<longleftrightarrow> HoldingStackID f \<noteq> '''' \<and> \<not> RebuildTMA f \<and>
     (HoldingAltitudeFeet f = None \<or> HoldingStartedAt f = None \<or> HoldingTransit f \<le> 0)"

definition blocked_stacks :: "Flight list \<Rightarrow> string list" where
  "blocked_stacks fs = map HoldingStackID (filter lacks_evidence fs)"

definition rebuild_flight :: "string list \<Rightarrow> Flight \<Rightarrow> Flight" where
  "rebuild_flight blocked f0 =
     (let f = f0\<lparr> ManualOrder := None, ReleaseRank := None \<rparr>;
          f = (if \<not> RebuildTMA f \<and> HoldingStackID f \<in> set blocked then f\<lparr> RebuildRetained := True \<rparr> else f) in
      if \<not> RebuildRetained f \<and> fl_FreezeReason f \<noteq> FreezeManual
      then (if fl_FreezeReason f = FreezeSuperstable \<or> fl_FreezeReason f = FreezeTMA
            then f\<lparr> ProtectCurrentSlot := False, fl_FreezeReason := FreezeNone, FrozenAt := None, FrozenOperationalTETA := None,
                   CapturedSlot := None \<rparr>
            else f\<lparr> ProtectCurrentSlot := False \<rparr>)
      else if fl_FreezeReason f = FreezeNone \<and> CurrentSlot f \<noteq> None then f\<lparr> ProtectCurrentSlot := True \<rparr>
      else f)"

section \<open>Retained reservations\<close>

definition retained_slot :: "preparedFlight \<Rightarrow> Slot option" where
  "retained_slot f = (case CapturedSlot f of None \<Rightarrow> CurrentSlot f | Some s \<Rightarrow> Some s)"

fun reserve_retained :: "preparedPolicy \<Rightarrow> preparedFlight list \<Rightarrow> rebuild_error + allocatedEntry list \<times> RebuildDiagnostic list" where
  "reserve_retained p [] = Inr ([], [])"
| "reserve_retained p (f # fs) =
     (if \<not> isRetained f then reserve_retained p fs
      else case retained_slot f of
        None \<Rightarrow> map_sum id (\<lambda>(es, ds). (es, diagnose ''retained_without_slot'' f ''Aircraft cannot be rebuilt without usable timing'' # ds))
          (reserve_retained p fs)
      | Some s \<Rightarrow>
          (if blockingClosure p (slot_Time s) \<noteq> None \<or> intervalAt p (slot_Time s) = 0
           then Inl (RebuildRefused (invalidTransition ''retained slot is incompatible with runway availability''))
           else map_sum id (\<lambda>(es, ds). (\<lparr> ent_flight = f, ent_time = slot_Time s, ent_reason = protectedReason f \<rparr> # es, ds))
             (reserve_retained p fs)))"

fun check_retained :: "preparedPolicy \<Rightarrow> gotime \<Rightarrow> allocatedEntry list \<Rightarrow> rebuild_error + unit" where
  "check_retained p tm (a # b # es) =
     (if \<not> before (ent_time b) tm \<and> \<not> adjacentValid p a b
      then Inl (RetainedTooClose (Callsign (ent_flight a)) (Callsign (ent_flight b)))
      else check_retained p tm (b # es))"
| "check_retained p tm _ = Inr ()"

text \<open>The state of the rebuild: the entries of each runway group, the last landing of terminal-area
  traffic, the last release of each stack and of all, and the last landing of a released flight.\<close>

record rebuild_state =
  rb_allocated :: "string \<Rightarrow> allocatedEntry list"
  rb_tma_last :: "string \<Rightarrow> gotime"
  rb_releases :: "string \<Rightarrow> gotime"
  rb_release :: gotime
  rb_held_last :: "string \<Rightarrow> gotime"
  rb_diagnostics :: "RebuildDiagnostic list"

definition last_tma_landing :: "allocatedEntry list \<Rightarrow> gotime" where
  "last_tma_landing es = foldl (\<lambda>t e. if RebuildTMA (ent_flight e) then at_or_after t (ent_time e) else t) zero_time es"

fun reserve_groups :: "(string \<times> preparedPolicy) list \<Rightarrow> preparedFlight list \<Rightarrow> gotime \<Rightarrow> rebuild_state \<Rightarrow> rebuild_error + rebuild_state" where
  "reserve_groups [] fs tm st = Inr st"
| "reserve_groups ((g, p) # gs) fs tm st =
     (case reserve_retained p (group_flights g fs) of Inl e \<Rightarrow> Inl e
      | Inr (es, ds) \<Rightarrow>
          (case check_retained p tm (sortEntries es) of Inl e \<Rightarrow> Inl e
           | Inr _ \<Rightarrow> reserve_groups gs fs tm
               (st\<lparr> rb_allocated := (rb_allocated st)(g := sortEntries es), rb_tma_last := (rb_tma_last st)(g := last_tma_landing es),
                    rb_diagnostics := rb_diagnostics st @ ds \<rparr>)))"

section \<open>Placing one flight\<close>

definition released_at :: "gotime \<Rightarrow> preparedFlight \<Rightarrow> preparedFlight" where
  "released_at lower f = f\<lparr> SlotNotBefore := Some lower, HoldingQueueTime := None, ActiveHoldingSince := None, ArrivalQueueTime := None,
     stableOrder := None \<rparr>"

definition own_bound :: "preparedFlight \<Rightarrow> gotime \<Rightarrow> gotime" where
  "own_bound f lower = (case SlotNotBefore f of None \<Rightarrow> lower | Some b \<Rightarrow> at_or_after lower b)"

definition allocate_flight :: "gotime \<Rightarrow> preparedFlight \<Rightarrow> rebuild_state \<Rightarrow> rebuild_state" where
  "allocate_flight c f st =
     (let g = RunwayGroupID f in
      st\<lparr> rb_allocated := (rb_allocated st)(g := sortEntries (rb_allocated st g @ [\<lparr> ent_flight = f, ent_time = c, ent_reason = ReasonRateWTC \<rparr>])) \<rparr>)"

definition find_in_group :: "(string \<times> preparedPolicy) list \<Rightarrow> rebuild_state \<Rightarrow> preparedFlight \<Rightarrow> seq_error + gotime" where
  "find_in_group policies st f = findCandidate (the (map_of policies (RunwayGroupID f))) (rb_allocated st (RunwayGroupID f)) f"

definition teta_less :: "preparedFlight \<Rightarrow> preparedFlight \<Rightarrow> bool" where
  "teta_less a b =
     (if \<not> t_equal (OperationalTETA a) (OperationalTETA b) then before (OperationalTETA a) (OperationalTETA b) else Callsign a < Callsign b)"

fun place_tma :: "(string \<times> preparedPolicy) list \<Rightarrow> gotime \<Rightarrow> preparedFlight list \<Rightarrow> rebuild_state \<Rightarrow> rebuild_error + rebuild_state" where
  "place_tma policies tm [] st = Inr st"
| "place_tma policies tm (f0 # fs) st =
     (let lower = at_or_after (t_add tm second) (OperationalTETA f0);
          f = released_at (own_bound f0 (at_or_after lower (rb_tma_last st (RunwayGroupID f0)))) f0 in
      case find_in_group policies st f of Inl e \<Rightarrow> Inl (RebuildEngine e)
      | Inr c \<Rightarrow>
          (let st' = allocate_flight c f st in
           place_tma policies tm fs (st'\<lparr> rb_tma_last := (rb_tma_last st')(RunwayGroupID f := c) \<rparr>)))"

definition overtaken :: "rebuild_state \<Rightarrow> string \<Rightarrow> allocatedEntry \<Rightarrow> bool" where
  "overtaken st g e \<longleftrightarrow> isRetained (ent_flight e) \<and> \<not> RebuildTMA (ent_flight e) \<and> before (ent_time e) (rb_tma_last st g)"

definition priority_exceptions :: "rebuild_state \<Rightarrow> string \<Rightarrow> RebuildDiagnostic list" where
  "priority_exceptions st g =
     map (\<lambda>e. diagnose ''protected_tma_priority_exception'' (ent_flight e) ''Retained reservation precedes traffic already in the TMA'')
       (filter (overtaken st g) (rb_allocated st g))"

section \<open>The holding stacks\<close>

text \<open>Flights in the queues have evidence of their level and entry time, so the nil cases do not occur.\<close>

definition holdingAgeLess :: "'a Flight_scheme \<Rightarrow> 'b Flight_scheme \<Rightarrow> bool" where
  "holdingAgeLess a b =
     (case (HoldingStartedAt a, HoldingStartedAt b) of
        (Some x, Some y) \<Rightarrow> (if \<not> t_equal x y then before x y else Callsign a < Callsign b)
      | _ \<Rightarrow> False)"

definition stack_less :: "preparedFlight \<Rightarrow> preparedFlight \<Rightarrow> bool" where
  "stack_less a b =
     (case (HoldingAltitudeFeet a, HoldingAltitudeFeet b) of
        (Some x, Some y) \<Rightarrow> (if x \<noteq> y then x < y else holdingAgeLess a b)
      | _ \<Rightarrow> False)"

definition stack_queues :: "preparedFlight list \<Rightarrow> preparedFlight list list" where
  "stack_queues fs = map (\<lambda>s. go_sort stack_less (filter (\<lambda>f. HoldingStackID f = s) fs)) (remdups (map HoldingStackID fs))"

text \<open>The queue whose head has held longest.\<close>

definition oldest_head :: "preparedFlight list list \<Rightarrow> nat" where
  "oldest_head qs = foldl (\<lambda>s i. if holdingAgeLess (hd (qs ! i)) (hd (qs ! s)) then i else s) 0 [1..<length qs]"

function merge_stacks :: "preparedFlight list list \<Rightarrow> preparedFlight list" where
  "merge_stacks qs =
     (let left = filter (\<lambda>q. q \<noteq> []) qs; s = oldest_head left in
      if left = [] then [] else hd (left ! s) # merge_stacks (left[s := tl (left ! s)]))"
  by pat_completeness auto
termination
proof (relation "measure (\<lambda>qs. sum_list (map length qs))", goal_cases)
  case (2 qs left s)
  let ?q = "left ! s"
  have "s < length left"
  proof -
    have "foldl (\<lambda>s i. if holdingAgeLess (hd (left ! i)) (hd (left ! s)) then i else s) k is < length left"
      if "k < length left" "\<forall>i \<in> set is. i < length left" for k "is"
      using that by (induction "is" arbitrary: k) auto
    with 2 show ?thesis by (auto simp: oldest_head_def)
  qed
  then have s: "?q \<in> set left" by simp
  with 2(1) have ne: "0 < length ?q" by (auto simp: length_greater_0_conv)
  have "sum_list (map length (left[s := tl ?q])) + length ?q = sum_list (map length left) + length (tl ?q)"
    using \<open>s < length left\<close> elem_le_sum_list [of s "map length left"] by (simp add: map_update sum_list_update)
  moreover have "sum_list (map length left) = sum_list (map length qs)"
    unfolding 2(1) by (induction qs) auto
  ultimately have "sum_list (map length (left[s := tl ?q])) < sum_list (map length qs)" using ne by (simp only: length_tl)
  then show ?case by simp
qed simp

declare merge_stacks.simps [simp del]

definition place_held :: "(string \<times> preparedPolicy) list \<Rightarrow> nat \<Rightarrow> preparedFlight \<Rightarrow> rebuild_state \<Rightarrow> rebuild_error + rebuild_state" where
  "place_held policies rank f0 st =
     (let g = RunwayGroupID f0; previous = rb_releases st (HoldingStackID f0) in
      if isRetained f0
      then (case CurrentSlot f0 of None \<Rightarrow> Inr st
            | Some s \<Rightarrow>
                (let release = t_add (slot_Time s) (- HoldingTransit f0) in
                 Inr (st\<lparr> rb_release := at_or_after (rb_release st) release,
                    rb_releases := (rb_releases st)(HoldingStackID f0 := at_or_after previous release),
                    rb_held_last := (rb_held_last st)(g := at_or_after (rb_held_last st g) (slot_Time s)),
                    rb_diagnostics := rb_diagnostics st @
                      (if before release (rb_release st) \<or> ns previous \<noteq> 0 \<and> before release (t_add previous minute)
                       then [diagnose ''protected_release_exception'' f0
                         ''Retained reservation conflicts with the preferred release order; the calculated EAT remains available'']
                       else []) \<rparr>)))
      else
        (let lower = (if ns previous \<noteq> 0 then at_or_after (rb_release st) (t_add previous minute) else rb_release st);
             lower = at_or_after (own_bound f0 (t_add lower (HoldingTransit f0))) (rb_tma_last st g);
             f = (released_at lower f0)\<lparr> OperationalTETA := lower, ReleaseRank := Some (int rank) \<rparr> in
         case find_in_group policies st f of Inl e \<Rightarrow> Inl (ReleaseUnplaced (Callsign f0) e)
         | Inr c \<Rightarrow>
             (let st' = allocate_flight c f st; release = t_add c (- HoldingTransit f0) in
              Inr (st'\<lparr> rb_releases := (rb_releases st')(HoldingStackID f0 := release), rb_release := release,
                 rb_held_last := (rb_held_last st')(g := at_or_after (rb_held_last st' g) c) \<rparr>))))"

fun place_all_held :: "(string \<times> preparedPolicy) list \<Rightarrow> nat \<Rightarrow> preparedFlight list \<Rightarrow> rebuild_state \<Rightarrow> rebuild_error + rebuild_state" where
  "place_all_held policies rank [] st = Inr st"
| "place_all_held policies rank (f # fs) st =
     (case place_held policies rank f st of Inl e \<Rightarrow> Inl e | Inr st' \<Rightarrow> place_all_held policies (Suc rank) fs st')"

fun place_inbound :: "(string \<times> preparedPolicy) list \<Rightarrow> gotime \<Rightarrow> preparedFlight list \<Rightarrow> rebuild_state \<Rightarrow> rebuild_error + rebuild_state" where
  "place_inbound policies tm [] st = Inr st"
| "place_inbound policies tm (f0 # fs) st =
     (let g = RunwayGroupID f0;
          f = released_at (own_bound f0 (at_or_after (at_or_after tm (rb_tma_last st g)) (rb_held_last st g))) f0 in
      case find_in_group policies st f of Inl e \<Rightarrow> Inl (RebuildEngine e)
      | Inr c \<Rightarrow> place_inbound policies tm fs (allocate_flight c f st))"

section \<open>The rebuilt sequence\<close>

text \<open>The bound that put an inbound flight behind the released ones must not keep it from a gap.\<close>

definition unbound :: "preparedFlight list \<Rightarrow> allocatedEntry \<Rightarrow> allocatedEntry" where
  "unbound fs e =
     (let f = ent_flight e in
      if ReleaseRank f = None \<and> \<not> RebuildTMA f \<and> \<not> isRetained f
      then e\<lparr> ent_flight := f\<lparr> SlotNotBefore := Option.bind (find (\<lambda>x. Callsign x = Callsign f) fs) SlotNotBefore \<rparr> \<rparr> else e)"

definition final_entries :: "preparedPolicy \<Rightarrow> preparedFlight list \<Rightarrow> gotime \<Rightarrow> allocatedEntry list \<Rightarrow> allocatedEntry list" where
  "final_entries p fs tm es = fillSTARSpacingGaps p (map (unbound fs) es) tm"

definition rebuilt_entry :: "string \<Rightarrow> nat \<Rightarrow> allocatedEntry \<Rightarrow> CandidateEntry" where
  "rebuilt_entry g i e = (candidate_entry g i e)\<lparr> ce_Protected := isRetained (ent_flight e) \<rparr>"

definition add_rebuilt :: "SeqResult \<Rightarrow> string \<times> allocatedEntry list \<Rightarrow> SeqResult" where
  "add_rebuilt r x =
     (case x of (g, es) \<Rightarrow>
      let cs = map (\<lambda>i. rebuilt_entry g i (es ! i)) [0..<length es] in
      r\<lparr> res_Entries := res_Entries r @ cs,
         res_Movements := res_Movements r @ List.map_filter (\<lambda>i. movementFor (ent_flight (es ! i)) (cs ! i)) [0..<length es] \<rparr>)"

definition rebuilt_groups :: "(string \<times> preparedPolicy) list \<Rightarrow> preparedFlight list \<Rightarrow> gotime \<Rightarrow> rebuild_state \<Rightarrow> (string \<times> allocatedEntry list) list" where
  "rebuilt_groups policies fs tm st =
     map (\<lambda>(g, p). (g, final_entries p fs tm (rb_allocated st g))) (go_sort (\<lambda>a b. fst a < fst b) policies)"

definition rebuilt_result :: "(string \<times> preparedPolicy) list \<Rightarrow> preparedFlight list \<Rightarrow> gotime \<Rightarrow> rebuild_state \<Rightarrow> SeqResult" where
  "rebuilt_result policies fs tm st =
     foldl add_rebuilt \<lparr> res_Operations = [], res_Entries = [], res_Movements = [], res_Warnings = [] \<rparr> (rebuilt_groups policies fs tm st)"

definition tma_flights :: "preparedFlight list \<Rightarrow> preparedFlight list" where
  "tma_flights fs = go_sort teta_less (filter (\<lambda>f. RebuildTMA f \<and> \<not> isRetained f) fs)"

definition in_stack :: "string list \<Rightarrow> 'a Flight_scheme \<Rightarrow> bool" where
  "in_stack blocked f \<longleftrightarrow> \<not> (RebuildTMA f \<and> \<not> isRetained f) \<and> HoldingStackID f \<noteq> '''' \<and> HoldingStackID f \<notin> set blocked \<and> \<not> RebuildTMA f"

definition release_order :: "string list \<Rightarrow> preparedFlight list \<Rightarrow> preparedFlight list" where
  "release_order blocked fs = merge_stacks (stack_queues (filter (in_stack blocked) fs))"

definition inbound_flights :: "string list \<Rightarrow> preparedFlight list \<Rightarrow> preparedFlight list" where
  "inbound_flights blocked fs =
     go_sort teta_less (filter (\<lambda>f. \<not> (RebuildTMA f \<and> \<not> isRetained f) \<and> \<not> in_stack blocked f \<and> \<not> isRetained f) fs)"

definition initial_state :: "gotime \<Rightarrow> RebuildDiagnostic list \<Rightarrow> rebuild_state" where
  "initial_state tm ds =
     \<lparr> rb_allocated = (\<lambda>_. []), rb_tma_last = (\<lambda>_. zero_time), rb_releases = (\<lambda>_. zero_time), rb_release = t_add tm second,
       rb_held_last = (\<lambda>_. zero_time), rb_diagnostics = ds \<rparr>"

text \<open>All placements, in their order: retained reservations, terminal area, stacks, inbound traffic.\<close>

definition place_flights :: "(string \<times> preparedPolicy) list \<Rightarrow> preparedFlight list \<Rightarrow> string list \<Rightarrow> gotime \<Rightarrow> rebuild_state \<Rightarrow> rebuild_error + rebuild_state" where
  "place_flights policies fs blocked tm st =
     (case reserve_groups policies fs tm st of Inl e \<Rightarrow> Inl e
      | Inr reserved \<Rightarrow>
     (case place_tma policies tm (tma_flights fs) reserved of Inl e \<Rightarrow> Inl e
      | Inr arrived \<Rightarrow>
     (case place_all_held policies 1 (release_order blocked fs)
         (arrived\<lparr> rb_diagnostics := rb_diagnostics arrived @ concat (map (priority_exceptions arrived \<circ> fst) policies) \<rparr>) of Inl e \<Rightarrow> Inl e
      | Inr held \<Rightarrow> place_inbound policies tm (inbound_flights blocked fs) held)))"

definition diagnostic_less :: "RebuildDiagnostic \<Rightarrow> RebuildDiagnostic \<Rightarrow> bool" where
  "diagnostic_less a b = (if rd_Callsign a \<noteq> rd_Callsign b then rd_Callsign a < rd_Callsign b else rd_Code a < rd_Code b)"

definition ranked :: "string list \<Rightarrow> Flight \<Rightarrow> Flight" where
  "ranked order f = (case index_where (\<lambda>c. c = Callsign f) order of None \<Rightarrow> f | Some r \<Rightarrow> f\<lparr> ReleaseRank := Some (int r + 1) \<rparr>)"

definition rebuild_input :: "Input \<Rightarrow> Input" where
  "rebuild_input input = (cloneInput input)\<lparr> in_Flights := map (rebuild_flight (blocked_stacks (in_Flights input))) (in_Flights input) \<rparr>"

definition ApplyArrivalSequenceRebuild :: "Input \<Rightarrow> gotime \<Rightarrow> rebuild_error + RebuildDecision" where
  "ApplyArrivalSequenceRebuild input tm =
     (if \<not> valid_utc tm then Inl (RebuildRefused (invalidArgument ''rebuild requires a UTC calculation time''))
      else
        (let blocked = blocked_stacks (in_Flights input);
             missing = map (\<lambda>f. diagnose ''holding_evidence_unavailable'' f
               ''Holding level, entry time or fix-to-runway transit is unavailable; reservations in this hold are retained'')
               (filter lacks_evidence (in_Flights input));
             working = rebuild_input input in
         case prepareInput working of Inl e \<Rightarrow> Inl (RebuildEngine e)
         | Inr (policies, fs) \<Rightarrow>
             (case place_flights policies fs blocked tm (initial_state tm missing) of Inl e \<Rightarrow> Inl e
              | Inr st \<Rightarrow>
                  (let order = map Callsign (release_order blocked fs); result = rebuilt_result policies fs tm st;
                       working = working\<lparr> in_Flights := map (ranked order) (in_Flights working) \<rparr> in
                   Inr \<lparr> dec_Input = working, dec_Candidate = result,
                         dec_Changed = res_Movements result \<noteq> [] \<or> \<not> inputsEqualOrder input working,
                         reb_Outcome = \<lparr> ReleaseOrder = order, Diagnostics = go_sort diagnostic_less (rb_diagnostics st) \<rparr> \<rparr>))))"

section \<open>What a placement keeps\<close>

lemma list_all2_reorder_right:
  assumes "list_all2 R xs ys" "mset ys' = mset ys"
  shows "\<exists>xs'. list_all2 R xs' ys' \<and> mset xs' = mset xs"
proof -
  have "list_all2 (\<lambda>y x. R x y) ys xs" using assms(1) by (simp add: list_all2_conv_all_nth)
  from list_all2_reorder_left_invariance [OF this assms(2)] show ?thesis by (auto simp: list_all2_conv_all_nth)
qed

text \<open>Every comparison answers the opposite with its arguments exchanged.\<close>

lemma less_flip:
  "manual_less b a = map_option Not (manual_less a b)" "stable_less b a = map_option Not (stable_less a b)"
  "holdingAltitudeLess b a = map_option Not (holdingAltitudeLess a b)" "baseline_less b a = map_option Not (baseline_less a b)"
  by (auto simp: manual_less_def stable_less_def holdingAltitudeLess_def baseline_less_def go_time split: option.splits)

lemma flightLess_asym: "flightLess a b \<Longrightarrow> \<not> flightLess b a"
  unfolding flightLess_def less_flip [of b a]
  by (cases "manual_less a b"; cases "stable_less a b"; cases "holdingAltitudeLess a b"; cases "baseline_less a b")
    (auto simp: go_time split: if_splits)

lemma entry_less_asym: "entry_less a b \<Longrightarrow> \<not> entry_less b a"
  using flightLess_asym by (auto simp: entry_less_def go_time split: if_splits)

lemma sortEntries_in_order: "successively (\<lambda>a b. \<not> entry_less b a) (sortEntries es)"
  unfolding sortEntries_def by (rule go_sort_successively) (rule entry_less_asym)

text \<open>What identifies an aircraft, and how it is treated, through all stages.\<close>

definition aircraft :: "preparedFlight \<Rightarrow> _" where
  "aircraft f = (Callsign f, RunwayGroupID f, category f, known f, fl_FreezeReason f, RebuildRetained f, RebuildTMA f)"

definition entry_ok :: "preparedPolicy \<Rightarrow> gotime \<Rightarrow> preparedFlight \<Rightarrow> allocatedEntry \<Rightarrow> bool" where
  "entry_ok p tm f e \<longleftrightarrow> aircraft (ent_flight e) = aircraft f \<and>
     (if isRetained f then retained_slot f \<noteq> None \<and> ent_time e = slot_Time (the (retained_slot f))
      else on_grid p (ent_time e) \<and> slot_open p (ent_time e) \<and> ns tm \<le> at_ns e \<and> not_before f (ent_time e))"

definition group_ok :: "preparedPolicy \<Rightarrow> gotime \<Rightarrow> preparedFlight list \<Rightarrow> allocatedEntry list \<Rightarrow> bool" where
  "group_ok p tm done es \<longleftrightarrow> in_time p es \<and> successively (spaced_since p (Some (ns tm))) es \<and>
     (\<exists>fs. mset fs = mset done \<and> list_all2 (entry_ok p tm) fs es)"

lemma group_ok_insert:
  assumes "group_ok p tm done es" "prepared_ok p" "findCandidate p es f = Inr c" "aircraft f = aircraft f0" "\<not> isRetained f0"
    and "SlotNotBefore f = Some lower" "ns tm \<le> ns lower" "not_before f0 lower"
  shows "group_ok p tm (done @ [f0]) (sortEntries (es @ [\<lparr> ent_flight = f, ent_time = c, ent_reason = ReasonRateWTC \<rparr>]))"
    and "ns lower \<le> ns c"
proof -
  let ?e = "\<lparr> ent_flight = f, ent_time = c, ent_reason = ReasonRateWTC \<rparr>"
  note s = findCandidate_sound [OF assms(3,2)]
  have g: "on_grid p c" "slot_open p c" using s(1) by (simp_all add: legal_slot_def)
  show low: "ns lower \<le> ns c" using placement_valid(1) [OF s(2) [unfolded placement_def]] assms(6) by simp
  from assms(1) have time: "in_time p es" and adj: "successively (spaced_since p (Some (ns tm))) es" by (simp_all add: group_ok_def)
  obtain fs where fs: "mset fs = mset done" "list_all2 (entry_ok p tm) fs es" using assms(1) by (auto simp: group_ok_def)
  have "entry_ok p tm f0 ?e" using assms(4,5,7,8) low g by (auto simp: entry_ok_def not_before_def split: option.splits)
  then have "list_all2 (entry_ok p tm) (fs @ [f0]) (es @ [?e])" using fs(2) by (simp add: list_all2_appendI)
  from list_all2_reorder_right [OF this, of "sortEntries (es @ [?e])"] obtain hs
    where "list_all2 (entry_ok p tm) hs (sortEntries (es @ [?e]))" "mset hs = mset (fs @ [f0])" by auto
  moreover have "in_time p (sortEntries (es @ [?e]))" by (rule in_time_insert [OF assms(2) time]) (simp add: g)
  moreover have "successively (spaced_since p (Some (ns tm))) (sortEntries (es @ [?e]))"
    by (rule insert_spaced [OF assms(2) time adj s(2) [unfolded placement_def]]) simp_all
  ultimately show "group_ok p tm (done @ [f0]) (sortEntries (es @ [?e]))" using fs(1) unfolding group_ok_def by auto
qed

section \<open>Retained reservations are kept\<close>

definition reserved :: "preparedFlight \<Rightarrow> bool" where
  "reserved f \<longleftrightarrow> isRetained f \<and> retained_slot f \<noteq> None"

lemma reserve_retained_ok:
  assumes "reserve_retained p fs = Inr (es, ds)" "prepared_ok p"
  shows "list_all2 (entry_ok p tm) (filter reserved fs) es \<and> (\<forall>e \<in> set es. ns (first_rate p) \<le> at_ns e)"
  using assms
proof (induction p fs arbitrary: es ds rule: reserve_retained.induct)
  case (2 p f fs)
  show ?case
  proof (cases "reserved f")
    case True
    then obtain s where s: "isRetained f" "retained_slot f = Some s" by (auto simp: reserved_def)
    from "2.prems"(1) s obtain xs where x: "reserve_retained p fs = Inr (xs, ds)" "intervalAt p (slot_Time s) \<noteq> 0"
        "es = \<lparr> ent_flight = f, ent_time = slot_Time s, ent_reason = protectedReason f \<rparr> # xs"
      by (cases "reserve_retained p fs") (auto split: if_splits)
    have "entry_ok p tm f \<lparr> ent_flight = f, ent_time = slot_Time s, ent_reason = protectedReason f \<rparr>" using s by (simp add: entry_ok_def)
    moreover have "list_all2 (entry_ok p tm) (filter reserved fs) xs \<and> (\<forall>e \<in> set xs. ns (first_rate p) \<le> at_ns e)"
      using "2.IH"(3) [OF _ s(2) _ x(1) "2.prems"(2)] "2.prems"(1) s by (auto split: if_splits)
    ultimately show ?thesis using rateAt_first [OF "2.prems"(2) x(2)] True x(3) by simp
  next
    case False
    with "2.prems"(1) obtain xs where "reserve_retained p fs = Inr (es, xs)"
      by (cases "reserve_retained p fs") (auto simp: reserved_def split: if_splits)
    with "2.IH"(1,2) "2.prems"(2) False show ?thesis by (cases "isRetained f") (auto simp: reserved_def)
  qed
qed simp

lemma check_retained_spaced:
  assumes "check_retained p tm es = Inr ()" "successively (\<lambda>a b. \<not> entry_less b a) es"
  shows "successively (spaced_since p (Some (ns tm))) es"
  using assms
  by (induction p tm es rule: check_retained.induct) (auto simp: spaced_since_def before_def split: if_splits)

lemma reserved_group_ok:
  assumes "reserve_retained p fs = Inr (es, ds)" "check_retained p tm (sortEntries es) = Inr ()" "prepared_ok p"
  shows "group_ok p tm (filter reserved fs) (sortEntries es)"
proof -
  note r = reserve_retained_ok [OF assms(1,3), of tm]
  from list_all2_reorder_right [OF conjunct1 [OF r], of "sortEntries es"] obtain hs
    where h: "list_all2 (entry_ok p tm) hs (sortEntries es)" "mset hs = mset (filter reserved fs)" by auto
  with r check_retained_spaced [OF assms(2) sortEntries_in_order] show ?thesis
    by (auto simp: group_ok_def in_time_def sorted_sortEntries)
qed

section \<open>All stages\<close>

definition rebuild_ready :: "(string \<times> preparedPolicy) list \<Rightarrow> preparedFlight list \<Rightarrow> bool" where
  "rebuild_ready policies fs \<longleftrightarrow> distinct (map fst policies) \<and> (\<forall>gp \<in> set policies. policy_ok gp) \<and>
     (\<forall>f \<in> set fs. RunwayGroupID f \<in> fst ` set policies)"

lemma prepared_ready:
  assumes "prepareInput input = Inr (policies, fs)"
  shows "rebuild_ready policies fs"
proof -
  have "RunwayGroupID f \<in> fst ` set policies" if "f \<in> set fs" for f
  proof -
    from prepareInput_ok(4) [OF assms that] obtain p where "map_of policies (RunwayGroupID f) = Some p" by (auto simp: flight_ok_def)
    from map_of_SomeD [OF this] show ?thesis by force
  qed
  with prepareInput_ok(1,2) [OF assms] show ?thesis by (simp add: rebuild_ready_def)
qed

definition state_ok :: "(string \<times> preparedPolicy) list \<Rightarrow> gotime \<Rightarrow> preparedFlight list \<Rightarrow> rebuild_state \<Rightarrow> bool" where
  "state_ok policies tm done st \<longleftrightarrow> (\<forall>(g, p) \<in> set policies. group_ok p tm (group_flights g done) (rb_allocated st g))"

lemma state_ok_cong: "rb_allocated st' = rb_allocated st \<Longrightarrow> state_ok policies tm done st' = state_ok policies tm done st"
  by (simp add: state_ok_def)

lemma reserve_groups_Cons:
  assumes "reserve_groups ((g, p) # gs) fs tm st = Inr st'"
  obtains es ds where "reserve_retained p (group_flights g fs) = Inr (es, ds)" "check_retained p tm (sortEntries es) = Inr ()"
    "reserve_groups gs fs tm (st\<lparr> rb_allocated := (rb_allocated st)(g := sortEntries es), rb_tma_last := (rb_tma_last st)(g := last_tma_landing es),
       rb_diagnostics := rb_diagnostics st @ ds \<rparr>) = Inr st'"
  using assms by (simp split: sum.splits prod.splits)

lemma reserve_groups_ok:
  assumes "reserve_groups gs fs tm st = Inr st'" "distinct (map fst gs)" "\<forall>gp \<in> set gs. policy_ok gp"
  shows "(\<forall>(g, p) \<in> set gs. group_ok p tm (filter reserved (group_flights g fs)) (rb_allocated st' g)) \<and>
    (\<forall>g. g \<notin> fst ` set gs \<longrightarrow> rb_allocated st' g = rb_allocated st g) \<and> rb_release st' = rb_release st \<and> rb_releases st' = rb_releases st"
  using assms
proof (induction gs arbitrary: st)
  case (Cons gp gs)
  obtain g p where gp: "gp = (g, p)" by (cases gp)
  obtain es ds where r: "reserve_retained p (group_flights g fs) = Inr (es, ds)" "check_retained p tm (sortEntries es) = Inr ()"
      "reserve_groups gs fs tm (st\<lparr> rb_allocated := (rb_allocated st)(g := sortEntries es), rb_tma_last := (rb_tma_last st)(g := last_tma_landing es),
         rb_diagnostics := rb_diagnostics st @ ds \<rparr>) = Inr st'"
    using Cons.prems(1) unfolding gp by (rule reserve_groups_Cons)
  have IH: "\<forall>(g, p) \<in> set gs. group_ok p tm (filter reserved (group_flights g fs)) (rb_allocated st' g)"
      "\<forall>h. h \<notin> fst ` set gs \<longrightarrow> rb_allocated st' h = ((rb_allocated st)(g := sortEntries es)) h"
      "rb_release st' = rb_release st" "rb_releases st' = rb_releases st"
    using Cons.IH [OF r(3)] Cons.prems(2,3) by simp_all
  have "prepared_ok p" using Cons.prems(3) by (simp add: gp policy_ok_def)
  note ok = reserved_group_ok [OF r(1,2) this]
  have "g \<notin> fst ` set gs" using Cons.prems(2) by (simp add: gp)
  then have "rb_allocated st' g = sortEntries es" using IH(2) by simp
  with ok IH show ?case by (simp add: gp)
qed simp

lemma own_bound_ge: "ns l \<le> ns (own_bound f l)" "not_before f (own_bound f l)"
  using at_or_after_ge by (auto simp: own_bound_def not_before_def split: option.split)

lemma not_before_later: "not_before f a \<Longrightarrow> ns a \<le> ns b \<Longrightarrow> not_before f b"
  by (auto simp: not_before_def split: option.splits)

lemma released_fields [simp]:
  "SlotNotBefore (released_at l f) = Some l" "aircraft (released_at l f) = aircraft f" "RunwayGroupID (released_at l f) = RunwayGroupID f"
  "aircraft (f\<lparr> OperationalTETA := t, ReleaseRank := r \<rparr>) = aircraft f" "Callsign (released_at l f) = Callsign f"
  by (simp_all add: released_at_def aircraft_def)

lemma allocate_fields [simp]:
  "rb_tma_last (allocate_flight c f st) = rb_tma_last st" "rb_releases (allocate_flight c f st) = rb_releases st"
  "rb_release (allocate_flight c f st) = rb_release st" "rb_held_last (allocate_flight c f st) = rb_held_last st"
  "rb_diagnostics (allocate_flight c f st) = rb_diagnostics st"
  by (simp_all add: allocate_flight_def Let_def)

lemma place_step:
  assumes "state_ok policies tm done st" "rebuild_ready policies fs" "f0 \<in> set fs" "\<not> isRetained f0" "aircraft f = aircraft f0"
    and "SlotNotBefore f = Some lower" "ns tm \<le> ns lower" "not_before f0 lower" "find_in_group policies st f = Inr c"
  shows "state_ok policies tm (done @ [f0]) (allocate_flight c f st) \<and> ns lower \<le> ns c"
proof -
  let ?g = "RunwayGroupID f0"
  have g: "RunwayGroupID f = ?g" using assms(5) by (simp add: aircraft_def)
  from assms(2,3) obtain p where p: "(?g, p) \<in> set policies" "prepared_ok p" "distinct (map fst policies)"
    by (fastforce simp: rebuild_ready_def policy_ok_def)
  then have m: "map_of policies ?g = Some p" by simp
  with assms(9) g have c: "findCandidate p (rb_allocated st ?g) f = Inr c" by (simp add: find_in_group_def)
  have ok: "group_ok p tm (group_flights ?g done) (rb_allocated st ?g)" using assms(1) p(1) by (auto simp: state_ok_def)
  note ins = group_ok_insert [OF ok p(2) c assms(5,4,6,7,8)]
  have "group_ok q tm (group_flights h (done @ [f0])) (rb_allocated (allocate_flight c f st) h)" if "(h, q) \<in> set policies" for h q
  proof (cases "h = ?g")
    case True
    with that m p(3) have "q = p" by (metis map_of_eq_Some_iff option.inject)
    with ins(1) True g show ?thesis by (simp add: allocate_flight_def group_flights_def Let_def)
  next
    case False
    with assms(1) that g show ?thesis by (fastforce simp: state_ok_def allocate_flight_def group_flights_def Let_def)
  qed
  with ins(2) show ?thesis by (auto simp: state_ok_def)
qed

lemma place_tma_ok:
  assumes "place_tma policies tm xs st = Inr st'" "state_ok policies tm done st" "rebuild_ready policies fs" "set xs \<subseteq> set fs"
    and "\<forall>f \<in> set xs. \<not> isRetained f"
  shows "state_ok policies tm (done @ xs) st' \<and> rb_release st' = rb_release st \<and> rb_releases st' = rb_releases st"
  using assms
proof (induction policies tm xs st arbitrary: "done" rule: place_tma.induct)
  case (2 policies tm f0 xs st)
  let ?bound = "at_or_after (at_or_after (t_add tm second) (OperationalTETA f0)) (rb_tma_last st (RunwayGroupID f0))"
  let ?f = "released_at (own_bound f0 ?bound) f0"
  from "2.prems"(1) obtain c where c: "find_in_group policies st ?f = Inr c"
      "place_tma policies tm xs ((allocate_flight c ?f st)\<lparr> rb_tma_last := (rb_tma_last (allocate_flight c ?f st))(RunwayGroupID ?f := c) \<rparr>) = Inr st'"
    by (auto simp: Let_def split: sum.splits)
  have "ns tm \<le> ns (t_add tm second)" by (simp add: t_add_def)
  also have "\<dots> \<le> ns ?bound" using at_or_after_ge(1) order_trans by blast
  also have "\<dots> \<le> ns (own_bound f0 ?bound)" by (rule own_bound_ge(1))
  finally have low: "ns tm \<le> ns (own_bound f0 ?bound)" .
  have f0: "f0 \<in> set fs" "\<not> isRetained f0" "set xs \<subseteq> set fs" "\<forall>f \<in> set xs. \<not> isRetained f" using "2.prems"(4,5) by auto
  from place_step [OF "2.prems"(2,3) f0(1,2) _ _ low own_bound_ge(2) c(1)]
  have "state_ok policies tm (done @ [f0]) (allocate_flight c ?f st)" by simp
  then have st: "state_ok policies tm (done @ [f0]) ((allocate_flight c ?f st)\<lparr> rb_tma_last := (rb_tma_last (allocate_flight c ?f st))(RunwayGroupID ?f := c) \<rparr>)"
    by (subst state_ok_cong) simp_all
  from "2.IH" [OF refl refl c(1) refl c(2) st "2.prems"(3) f0(3,4)] show ?case by simp
qed simp

lemma place_inbound_ok:
  assumes "place_inbound policies tm xs st = Inr st'" "state_ok policies tm done st" "rebuild_ready policies fs" "set xs \<subseteq> set fs"
    and "\<forall>f \<in> set xs. \<not> isRetained f"
  shows "state_ok policies tm (done @ xs) st' \<and> (\<forall>g. set (rb_allocated st g) \<subseteq> set (rb_allocated st' g)) \<and>
    rb_release st' = rb_release st \<and> rb_releases st' = rb_releases st"
  using assms
proof (induction policies tm xs st arbitrary: "done" rule: place_inbound.induct)
  case (2 policies tm f0 xs st)
  let ?bound = "at_or_after (at_or_after tm (rb_tma_last st (RunwayGroupID f0))) (rb_held_last st (RunwayGroupID f0))"
  let ?f = "released_at (own_bound f0 ?bound) f0"
  from "2.prems"(1) obtain c where c: "find_in_group policies st ?f = Inr c" "place_inbound policies tm xs (allocate_flight c ?f st) = Inr st'"
    by (auto simp: Let_def split: sum.splits)
  have "ns tm \<le> ns ?bound" using at_or_after_ge(1) order_trans by blast
  also have "\<dots> \<le> ns (own_bound f0 ?bound)" by (rule own_bound_ge(1))
  finally have low: "ns tm \<le> ns (own_bound f0 ?bound)" .
  have f0: "f0 \<in> set fs" "\<not> isRetained f0" "set xs \<subseteq> set fs" "\<forall>f \<in> set xs. \<not> isRetained f" using "2.prems"(4,5) by auto
  from place_step [OF "2.prems"(2,3) f0(1,2) _ _ low own_bound_ge(2) c(1)]
  have st: "state_ok policies tm (done @ [f0]) (allocate_flight c ?f st)" by simp
  have grow: "set (rb_allocated st g) \<subseteq> set (rb_allocated (allocate_flight c ?f st) g)" for g
    by (auto simp: allocate_flight_def Let_def)
  from "2.IH" [OF refl refl c(1) c(2) st "2.prems"(3) f0(3,4)] grow show ?case by auto
qed simp

section \<open>Releases are in order\<close>

text \<open>The release of a flight that holds is its landing less the flight time from the holding fix.\<close>

definition released :: "rebuild_state \<Rightarrow> preparedFlight \<Rightarrow> int \<Rightarrow> bool" where
  "released st f r \<longleftrightarrow> (\<exists>e \<in> set (rb_allocated st (RunwayGroupID f)). aircraft (ent_flight e) = aircraft f \<and>
     ReleaseRank (ent_flight e) \<noteq> None \<and> at_ns e - HoldingTransit f = r)"

definition release_pair :: "preparedFlight \<times> int \<Rightarrow> preparedFlight \<times> int \<Rightarrow> bool" where
  "release_pair a b \<longleftrightarrow> snd a \<le> snd b \<and> (HoldingStackID (fst a) = HoldingStackID (fst b) \<longrightarrow> snd a + minute \<le> snd b)"

definition releases_ok :: "gotime \<Rightarrow> rebuild_state \<Rightarrow> (preparedFlight \<times> int) list \<Rightarrow> bool" where
  "releases_ok tm st xs \<longleftrightarrow> sorted_wrt release_pair xs \<and> ns tm + second \<le> ns (rb_release st) \<and>
     (\<forall>(f, r) \<in> set xs. released st f r \<and> ns tm + second \<le> r \<and> r \<le> ns (rb_release st) \<and> r \<le> ns (rb_releases st (HoldingStackID f)))"

lemma released_grows:
  assumes "released st f r" "\<And>g. set (rb_allocated st g) \<subseteq> set (rb_allocated st' g)"
  shows "released st' f r"
  using assms unfolding released_def by blast

lemma releases_ok_grows:
  assumes "releases_ok tm st xs" "\<And>g. set (rb_allocated st g) \<subseteq> set (rb_allocated st' g)" "ns (rb_release st) \<le> ns (rb_release st')"
    and later: "\<And>s. ns (rb_releases st s) \<le> ns (rb_releases st' s)"
  shows "releases_ok tm st' xs"
proof -
  have "released st' f r \<and> ns tm + second \<le> r \<and> r \<le> ns (rb_release st') \<and> r \<le> ns (rb_releases st' (HoldingStackID f))"
    if "(f, r) \<in> set xs" for f r
  proof -
    from that assms(1) have f: "released st f r" "ns tm + second \<le> r" "r \<le> ns (rb_release st)" "r \<le> ns (rb_releases st (HoldingStackID f))"
      by (auto simp: releases_ok_def)
    with released_grows [OF f(1) assms(2)] assms(3) later [of "HoldingStackID f"] show ?thesis by linarith
  qed
  with assms(1,3) show ?thesis by (auto simp: releases_ok_def)
qed

lemma place_held_retained:
  assumes "place_held policies rank f0 st = Inr st'" "isRetained f0"
  shows "rb_allocated st' = rb_allocated st" "ns (rb_release st) \<le> ns (rb_release st')" "ns (rb_releases st s) \<le> ns (rb_releases st' s)"
  using assms at_or_after_ge(1) by (cases "CurrentSlot f0"; simp add: place_held_def Let_def; force)+

lemma place_held_ok:
  assumes "place_held policies rank f0 st = Inr st'" "state_ok policies tm done st" "rebuild_ready policies fs" "f0 \<in> set fs"
    and "\<not> isRetained f0 \<Longrightarrow> 0 \<le> HoldingTransit f0" "releases_ok tm st xs" "0 \<le> ns tm"
  shows "\<exists>ys. map fst ys = filter (\<lambda>f. \<not> isRetained f) [f0] \<and> state_ok policies tm (done @ map fst ys) st' \<and> releases_ok tm st' (xs @ ys)"
proof (cases "isRetained f0")
  case True
  note kept = place_held_retained [OF assms(1) True]
  have "releases_ok tm st' xs" by (rule releases_ok_grows [OF assms(6)]) (simp_all add: kept)
  with state_ok_cong [OF kept(1)] assms(2) True show ?thesis by (intro exI [of _ "[]"]) simp
next
  case False
  let ?stack = "HoldingStackID f0" and ?g = "RunwayGroupID f0"
  let ?previous = "rb_releases st ?stack"
  let ?base = "if ns ?previous \<noteq> 0 then at_or_after (rb_release st) (t_add ?previous minute) else rb_release st"
  let ?own = "own_bound f0 (t_add ?base (HoldingTransit f0))"
  let ?lower = "at_or_after ?own (rb_tma_last st ?g)"
  let ?f = "(released_at ?lower f0)\<lparr> OperationalTETA := ?lower, ReleaseRank := Some (int rank) \<rparr>"
  from assms(1) False obtain c where c: "find_in_group policies st ?f = Inr c"
      "st' = (allocate_flight c ?f st)\<lparr> rb_releases := (rb_releases st)(?stack := t_add c (- HoldingTransit f0)),
         rb_release := t_add c (- HoldingTransit f0), rb_held_last := (rb_held_last st)(?g := at_or_after (rb_held_last st ?g) c) \<rparr>"
    by (auto simp: place_held_def Let_def split: sum.splits)
  let ?r = "ns c - HoldingTransit f0"
  have transit: "0 \<le> HoldingTransit f0" using False assms(5) by blast
  have tm: "ns tm + second \<le> ns (rb_release st)" using assms(6) by (simp add: releases_ok_def)
  have l0: "ns (rb_release st) \<le> ns ?base" using at_or_after_ge(1) by simp
  have l1: "ns ?base + HoldingTransit f0 \<le> ns ?own" using own_bound_ge(1) [of "t_add ?base (HoldingTransit f0)" f0] by (simp add: t_add_def)
  have l2: "ns ?own \<le> ns ?lower" by (rule at_or_after_ge(1))
  have low: "ns tm \<le> ns ?lower" using tm l0 l1 l2 transit by linarith
  have nb: "not_before f0 ?lower" using own_bound_ge(2) l2 by (rule not_before_later)
  have air: "aircraft ?f = aircraft f0" by simp
  from place_step [OF assms(2,3,4) False air _ low nb c(1)]
  have step: "state_ok policies tm (done @ [f0]) (allocate_flight c ?f st)" "ns ?lower \<le> ns c" by (simp_all add: released_at_def)
  have r: "ns ?base \<le> ?r" using step(2) l1 l2 by linarith
  have here: "released st' f0 ?r" unfolding released_def
    by (rule bexI [of _ "\<lparr> ent_flight = ?f, ent_time = c, ent_reason = ReasonRateWTC \<rparr>"])
      (simp_all add: c(2) allocate_flight_def Let_def del: fun_upd_apply, simp add: released_at_def aircraft_def)
  have grow: "set (rb_allocated st h) \<subseteq> set (rb_allocated st' h)" for h
    by (auto simp: c(2) allocate_flight_def Let_def)
  have all: "released st' f s \<and> ns tm + second \<le> s \<and> s \<le> ?r \<and> s \<le> ns (rb_releases st' (HoldingStackID f)) \<and> release_pair (f, s) (f0, ?r)"
    if "(f, s) \<in> set xs" for f s
  proof -
    from that assms(6) have f: "released st f s" "ns tm + second \<le> s" "s \<le> ns (rb_release st)" "s \<le> ns (rb_releases st (HoldingStackID f))"
      by (auto simp: releases_ok_def)
    have "s + minute \<le> ?r" if "HoldingStackID f = ?stack"
    proof -
      from that f(2,4) assms(7) have "ns ?previous \<noteq> 0" "s \<le> ns ?previous" by auto
      with at_or_after_ge(2) [of "t_add ?previous minute" "rb_release st"] r show ?thesis by (simp add: t_add_def)
    qed
    moreover have "s \<le> ?r" using f(3) l0 r by linarith
    ultimately show ?thesis using f released_grows [OF f(1) grow] by (auto simp: release_pair_def c(2) t_add_def)
  qed
  have "state_ok policies tm (done @ [f0]) st'" using step(1) c(2) by (simp add: state_ok_def)
  moreover have "releases_ok tm st' (xs @ [(f0, ?r)])"
    using all here assms(6) tm l0 r by (auto simp: releases_ok_def sorted_wrt_append c(2) t_add_def)
  ultimately show ?thesis using False by (intro exI [of _ "[(f0, ?r)]"]) simp
qed

lemma place_all_held_ok:
  assumes "place_all_held policies rank hs st = Inr st'" "state_ok policies tm done st" "rebuild_ready policies fs" "set hs \<subseteq> set fs"
    and "\<forall>f \<in> set hs. \<not> isRetained f \<longrightarrow> 0 \<le> HoldingTransit f" "releases_ok tm st xs" "0 \<le> ns tm"
  shows "\<exists>ys. map fst ys = filter (\<lambda>f. \<not> isRetained f) hs \<and> state_ok policies tm (done @ map fst ys) st' \<and> releases_ok tm st' (xs @ ys)"
  using assms
proof (induction policies rank hs st arbitrary: "done" xs rule: place_all_held.induct)
  case (2 policies rank f hs st)
  from "2.prems"(1) obtain st1 where s: "place_held policies rank f st = Inr st1" "place_all_held policies (Suc rank) hs st1 = Inr st'"
    by (auto split: sum.splits)
  have f: "f \<in> set fs" "\<not> isRetained f \<Longrightarrow> 0 \<le> HoldingTransit f" using "2.prems"(4,5) by auto
  from place_held_ok [OF s(1) "2.prems"(2,3) f "2.prems"(6,7)] obtain ys where
    y: "map fst ys = filter (\<lambda>f. \<not> isRetained f) [f]" "state_ok policies tm (done @ map fst ys) st1" "releases_ok tm st1 (xs @ ys)" by blast
  have rest: "set hs \<subseteq> set fs" "\<forall>f \<in> set hs. \<not> isRetained f \<longrightarrow> 0 \<le> HoldingTransit f" using "2.prems"(4,5) by auto
  from "2.IH" [OF s(1,2) y(2) "2.prems"(3) rest y(3) "2.prems"(7)] obtain zs where
    z: "map fst zs = filter (\<lambda>f. \<not> isRetained f) hs" "state_ok policies tm ((done @ map fst ys) @ map fst zs) st'" "releases_ok tm st' ((xs @ ys) @ zs)"
    by blast
  with y(1) show ?case by (intro exI [of _ "ys @ zs"]) simp
qed (auto intro: exI [of _ "[]"])

section \<open>Filling the gaps of the rebuilt sequence\<close>

text \<open>After the reset at the start, only flights retained for want of evidence are still Superstable.\<close>

definition reset_freezes :: "preparedFlight list \<Rightarrow> bool" where
  "reset_freezes fs \<longleftrightarrow> (\<forall>f \<in> set fs. \<not> RebuildRetained f \<longrightarrow> fl_FreezeReason f \<noteq> FreezeSuperstable)"

lemma promotion_in_future: "ns tm < ns (promotionLowerBound p f tm)"
  by (auto simp: promotionLowerBound_def Let_def go_time split: option.splits)

lemma other_bound:
  "aircraft (f\<lparr> SlotNotBefore := t \<rparr>) = aircraft f" "ReleaseRank (f\<lparr> SlotNotBefore := t \<rparr>) = ReleaseRank f"
  "requiredGap p (f\<lparr> SlotNotBefore := t \<rparr>) g u = requiredGap p f g u" "requiredGap p g (f\<lparr> SlotNotBefore := t \<rparr>) u = requiredGap p g f u"
  by (simp_all add: aircraft_def requiredGap_def sameSTARGap_def cong: if_cong)

lemma other_bound_less: "flightLess (f\<lparr> SlotNotBefore := t \<rparr>) g = flightLess f g" "flightLess g (f\<lparr> SlotNotBefore := t \<rparr>) = flightLess g f"
proof -
  have "is_protected (f\<lparr> SlotNotBefore := t \<rparr>) = is_protected f" by (simp add: is_protected_def)
  moreover have "manual_less (f\<lparr> SlotNotBefore := t \<rparr>) g = manual_less f g" "manual_less g (f\<lparr> SlotNotBefore := t \<rparr>) = manual_less g f"
    by (simp_all add: manual_less_def)
  moreover have "stable_less (f\<lparr> SlotNotBefore := t \<rparr>) g = stable_less f g" "stable_less g (f\<lparr> SlotNotBefore := t \<rparr>) = stable_less g f"
    by (simp_all add: stable_less_def split: option.split)
  moreover have "holdingAltitudeLess (f\<lparr> SlotNotBefore := t \<rparr>) g = holdingAltitudeLess f g"
      "holdingAltitudeLess g (f\<lparr> SlotNotBefore := t \<rparr>) = holdingAltitudeLess g f"
    by (simp_all add: holdingAltitudeLess_def)
  moreover have "baseline_less (f\<lparr> SlotNotBefore := t \<rparr>) g = baseline_less f g" "baseline_less g (f\<lparr> SlotNotBefore := t \<rparr>) = baseline_less g f"
    by (simp_all add: baseline_less_def)
  moreover have "fl_State (f\<lparr> SlotNotBefore := t \<rparr>) = fl_State f" "OperationalTETA (f\<lparr> SlotNotBefore := t \<rparr>) = OperationalTETA f"
      "Callsign (f\<lparr> SlotNotBefore := t \<rparr>) = Callsign f" by simp_all
  ultimately show "flightLess (f\<lparr> SlotNotBefore := t \<rparr>) g = flightLess f g" "flightLess g (f\<lparr> SlotNotBefore := t \<rparr>) = flightLess g f"
    by (simp_all only: flightLess_def)
qed

lemma unbound_flight: "\<exists>t. ent_flight (unbound fs e) = (ent_flight e)\<lparr> SlotNotBefore := t \<rparr>"
proof (cases "ReleaseRank (ent_flight e) = None \<and> \<not> RebuildTMA (ent_flight e) \<and> \<not> isRetained (ent_flight e)")
  case True
  then show ?thesis unfolding unbound_def Let_def if_P [OF True] by (intro exI) simp
next
  case False
  show ?thesis unfolding unbound_def Let_def if_not_P [OF False] by (rule exI [of _ "SlotNotBefore (ent_flight e)"]) simp
qed

lemma unbound_fields [simp]:
  "ent_time (unbound fs e) = ent_time e" "aircraft (ent_flight (unbound fs e)) = aircraft (ent_flight e)"
  "requiredGap p (ent_flight (unbound fs a)) (ent_flight (unbound fs b)) at_time = requiredGap p (ent_flight a) (ent_flight b) at_time"
  "flightLess (ent_flight (unbound fs a)) (ent_flight (unbound fs b)) = flightLess (ent_flight a) (ent_flight b)"
  "ReleaseRank (ent_flight (unbound fs e)) = ReleaseRank (ent_flight e)"
proof -
  show "ent_time (unbound fs e) = ent_time e" by (simp add: unbound_def Let_def)
  obtain t where "ent_flight (unbound fs e) = (ent_flight e)\<lparr> SlotNotBefore := t \<rparr>" using unbound_flight by blast
  then show "aircraft (ent_flight (unbound fs e)) = aircraft (ent_flight e)" "ReleaseRank (ent_flight (unbound fs e)) = ReleaseRank (ent_flight e)"
    by (simp_all only: other_bound)
  obtain u v where "ent_flight (unbound fs a) = (ent_flight a)\<lparr> SlotNotBefore := u \<rparr>" "ent_flight (unbound fs b) = (ent_flight b)\<lparr> SlotNotBefore := v \<rparr>"
    using unbound_flight by blast
  then show "requiredGap p (ent_flight (unbound fs a)) (ent_flight (unbound fs b)) at_time = requiredGap p (ent_flight a) (ent_flight b) at_time"
      "flightLess (ent_flight (unbound fs a)) (ent_flight (unbound fs b)) = flightLess (ent_flight a) (ent_flight b)"
    by (simp_all only: other_bound other_bound_less)
qed

lemma unbound_spaced: "spaced_since p since (unbound fs a) (unbound fs b) = spaced_since p since a b"
proof -
  have "entry_less (unbound fs b) (unbound fs a) = entry_less b a" by (simp add: entry_less_def)
  then show ?thesis by (cases since) (simp_all add: spaced_since_def adjacentValid_def)
qed

lemma unbound_in_time: "in_time p (map (unbound fs) es) = in_time p es"
  by (simp add: in_time_def comp_def)

lemma find_named: "distinct (map Callsign fs) \<Longrightarrow> f \<in> set fs \<Longrightarrow> find (\<lambda>x. Callsign x = Callsign f) fs = Some f"
  by (induction fs) (auto simp: rev_image_eqI)

lemma aircraft_same:
  assumes "aircraft g = aircraft f"
  shows "Callsign g = Callsign f" "RebuildTMA g = RebuildTMA f" "isRetained g = isRetained f" "RebuildRetained g = RebuildRetained f"
    "category g = category f" "known g = known f" "fl_FreezeReason g = fl_FreezeReason f"
  using assms by (simp_all add: aircraft_def isRetained_def)

lemma eligible_unbound:
  assumes "gapFillEligible (ent_flight (unbound fs e))" "aircraft (ent_flight e) = aircraft f" "f \<in> set fs" "distinct (map Callsign fs)" "reset_freezes fs"
  shows "\<not> isRetained f" "SlotNotBefore (ent_flight (unbound fs e)) = SlotNotBefore f"
proof -
  have u: "aircraft (ent_flight (unbound fs e)) = aircraft f" using assms(2) by simp
  note same = aircraft_same [OF u] aircraft_same [OF assms(2)]
  have f: "\<not> RebuildRetained f" "\<not> RebuildTMA f" "freeze_passable (fl_FreezeReason f)" "ReleaseRank (ent_flight e) = None"
    using assms(1) by (simp_all add: gapFillEligible_def same)
  then show r: "\<not> isRetained f" using assms(3,5) by (auto simp: isRetained_def reset_freezes_def freeze_passable_def)
  have "find (\<lambda>x. Callsign x = Callsign f) fs = Some f" by (rule find_named [OF assms(4,3)])
  with f r show "SlotNotBefore (ent_flight (unbound fs e)) = SlotNotBefore f" by (simp add: unbound_def Let_def same)
qed

lemma filled_entry_ok:
  assumes "entry_ok p tm f e" "advanced p tm (unbound fs e) y" "f \<in> set fs" "distinct (map Callsign fs)" "reset_freezes fs"
  shows "entry_ok p tm f y"
proof (cases "y = unbound fs e")
  case True
  with assms(1) show ?thesis by (simp add: entry_ok_def)
next
  case False
  with assms(2) have adv: "core (ent_flight y) = core (ent_flight (unbound fs e))" "gapFillEligible (ent_flight (unbound fs e))"
      "on_grid p (ent_time y)" "slot_open p (ent_time y)" "ns (promotionLowerBound p (ent_flight (unbound fs e)) tm) \<le> at_ns y"
      "not_before (ent_flight (unbound fs e)) (ent_time y)"
    by (auto simp: advanced_def)
  have air: "aircraft (ent_flight e) = aircraft f" using assms(1) by (simp add: entry_ok_def)
  note el = eligible_unbound [OF adv(2) air assms(3-5)]
  have "aircraft (core h) = aircraft h" for h by (simp add: aircraft_def core_def)
  then have "aircraft (ent_flight y) = aircraft f" using adv(1) air by (metis unbound_fields(2))
  moreover have "ns tm \<le> at_ns y" using promotion_in_future adv(5) by (meson less_imp_le order_trans)
  ultimately show ?thesis using el adv(3,4,6) by (simp add: entry_ok_def not_before_def)
qed

lemma final_entries_ok:
  assumes "group_ok p tm done es" "prepared_ok p" "set done \<subseteq> set fs" "distinct (map Callsign fs)" "reset_freezes fs"
  shows "group_ok p tm done (final_entries p fs tm es)"
    and "e \<in> set es \<Longrightarrow> ReleaseRank (ent_flight e) \<noteq> None \<Longrightarrow> e \<in> set (final_entries p fs tm es)"
proof -
  let ?us = "map (unbound fs) es"
  from assms(1) obtain hs where h: "mset hs = mset done" "list_all2 (entry_ok p tm) hs es" by (auto simp: group_ok_def)
  have us: "in_time p ?us" "successively (spaced_since p (Some (ns tm))) ?us"
    using assms(1) by (simp_all add: group_ok_def unbound_in_time successively_map unbound_spaced)
  have fin: "in_time p (final_entries p fs tm es)" "successively (spaced_since p (Some (ns tm))) (final_entries p fs tm es)"
      "rearranged p tm ?us (final_entries p fs tm es)"
    using us fill_gaps_safe [OF assms(2) us] rearranged_refl by (auto simp: final_entries_def fillSTARSpacingGaps_def)
  from fin(3) obtain ys where y: "mset ys = mset (final_entries p fs tm es)" "list_all2 (advanced p tm) ?us ys" by (auto simp: rearranged_def)
  have "list_all2 (entry_ok p tm) hs ys"
  proof (rule list_all2_all_nthI)
    show len: "length hs = length ys" using h(2) y(2) by (metis length_map list_all2_lengthD)
    fix n assume n: "n < length hs"
    have "hs ! n \<in> set fs" using n h(1) assms(3) nth_mem mset_eq_setD by blast
    moreover have "entry_ok p tm (hs ! n) (es ! n)" using h(2) n by (rule list_all2_nthD)
    moreover have "advanced p tm (unbound fs (es ! n)) (ys ! n)"
      using list_all2_nthD2 [OF y(2), of n] n len list_all2_lengthD [OF h(2)] by simp
    ultimately show "entry_ok p tm (hs ! n) (ys ! n)" using filled_entry_ok assms(4,5) by blast
  qed
  from list_all2_reorder_right [OF this, of "final_entries p fs tm es"] y(1) h(1) obtain hs'
    where "list_all2 (entry_ok p tm) hs' (final_entries p fs tm es)" "mset hs' = mset done" by auto
  with fin(1,2) show "group_ok p tm done (final_entries p fs tm es)" unfolding group_ok_def by blast
  assume e: "e \<in> set es" "ReleaseRank (ent_flight e) \<noteq> None"
  then have u: "unbound fs e = e" by (simp only: unbound_def Let_def) simp
  from e(1) obtain n where n: "n < length es" "es ! n = e" by (auto simp: in_set_conv_nth)
  have "advanced p tm e (ys ! n)" using list_all2_nthD [OF y(2), of n] n u by simp
  then have "ys ! n = e" using e(2) by (auto simp: advanced_def gapFillEligible_def)
  with n y show "e \<in> set (final_entries p fs tm es)" by (metis length_map list_all2_lengthD mset_eq_setD nth_mem)
qed

section \<open>What preparation keeps of the holding evidence\<close>

definition hold_view :: "'a Flight_scheme \<Rightarrow> _" where
  "hold_view f = (RebuildRetained f, fl_FreezeReason f, HoldingStackID f, RebuildTMA f, HoldingAltitudeFeet f, HoldingStartedAt f, HoldingTransit f)"

lemma hold_view_prepared: "hold_view (prepare_flight p raw) = hold_view raw"
  by (simp add: hold_view_def prepare_flight_def Let_def Flight.defs preparedFlight.defs)

lemma hold_view_flights: "prepare_flights seen ps raws = Inr fs \<Longrightarrow> map hold_view fs = map hold_view raws"
  by (induction seen ps raws arbitrary: fs rule: prepare_flights.induct)
    (auto simp: hold_view_prepared split: if_splits option.splits sum.splits)

lemma rebuild_flight_view:
  "hold_view (rebuild_flight blocked f) = hold_view (if \<not> RebuildTMA f \<and> HoldingStackID f \<in> set blocked then f\<lparr> RebuildRetained := True \<rparr> else f) \<or>
   hold_view (rebuild_flight blocked f) = hold_view (f\<lparr> fl_FreezeReason := FreezeNone \<rparr>)"
  by (simp add: rebuild_flight_def hold_view_def Let_def)

lemma rebuild_flight_fields:
  "HoldingStackID (rebuild_flight blocked f) = HoldingStackID f" "RebuildTMA (rebuild_flight blocked f) = RebuildTMA f"
  "HoldingAltitudeFeet (rebuild_flight blocked f) = HoldingAltitudeFeet f" "HoldingStartedAt (rebuild_flight blocked f) = HoldingStartedAt f"
  "HoldingTransit (rebuild_flight blocked f) = HoldingTransit f"
  "\<not> RebuildRetained (rebuild_flight blocked f) \<Longrightarrow> fl_FreezeReason (rebuild_flight blocked f) \<noteq> FreezeSuperstable"
  by (simp_all add: rebuild_flight_def Let_def split: if_splits)

lemma rebuild_prepared:
  assumes "prepareInput (rebuild_input input) = Inr (policies, fs)" "f \<in> set fs"
  obtains raw where "raw \<in> set (in_Flights input)" "hold_view f = hold_view (rebuild_flight (blocked_stacks (in_Flights input)) raw)"
proof -
  let ?raws = "in_Flights (rebuild_input input)"
  from assms(1) obtain ps where "prepare_flights [] ps ?raws = Inr fs"
    by (auto simp: prepareInput_def prepareFlights_def split: sum.splits)
  from arg_cong [OF hold_view_flights [OF this], of set] assms(2) obtain r where "r \<in> set ?raws" "hold_view f = hold_view r"
    by (metis (no_types, lifting) imageE imageI list.set_map)
  then show ?thesis using that by (auto simp: rebuild_input_def cloneInput_def)
qed

lemma rebuild_resets_freezes: "prepareInput (rebuild_input input) = Inr (policies, fs) \<Longrightarrow> reset_freezes fs"
  unfolding reset_freezes_def
proof (intro ballI impI)
  fix f assume "prepareInput (rebuild_input input) = Inr (policies, fs)" "f \<in> set fs" and r: "\<not> RebuildRetained f"
  then obtain raw where "hold_view f = hold_view (rebuild_flight (blocked_stacks (in_Flights input)) raw)" by (blast elim: rebuild_prepared)
  with r rebuild_flight_fields(6) show "fl_FreezeReason f \<noteq> FreezeSuperstable" by (simp add: hold_view_def)
qed

text \<open>Every flight of a queue has the evidence that the order of its stack needs.\<close>

definition has_evidence :: "preparedFlight \<Rightarrow> bool" where
  "has_evidence f \<longleftrightarrow> HoldingAltitudeFeet f \<noteq> None \<and> HoldingStartedAt f \<noteq> None \<and> 0 < HoldingTransit f"

lemma queued_evidence:
  assumes "prepareInput (rebuild_input input) = Inr (policies, fs)" "f \<in> set fs" "in_stack (blocked_stacks (in_Flights input)) f"
  shows "has_evidence f"
proof -
  from assms(1,2) obtain raw where raw: "raw \<in> set (in_Flights input)"
      "hold_view f = hold_view (rebuild_flight (blocked_stacks (in_Flights input)) raw)" by (rule rebuild_prepared)
  then have v: "HoldingStackID f = HoldingStackID raw" "RebuildTMA f = RebuildTMA raw" "HoldingAltitudeFeet f = HoldingAltitudeFeet raw"
      "HoldingStartedAt f = HoldingStartedAt raw" "HoldingTransit f = HoldingTransit raw"
    by (simp_all add: hold_view_def rebuild_flight_fields)
  have "\<not> lacks_evidence raw" using assms(3) raw(1) by (force simp: in_stack_def blocked_stacks_def v)
  with assms(3) show ?thesis by (auto simp: has_evidence_def lacks_evidence_def in_stack_def v)
qed

section \<open>The candidate of a rebuild\<close>

definition rebuilt_candidates :: "string \<Rightarrow> allocatedEntry list \<Rightarrow> CandidateEntry list" where
  "rebuilt_candidates g es = map (\<lambda>i. rebuilt_entry g i (es ! i)) [0..<length es]"

lemma rebuilt_entries: "res_Entries (foldl add_rebuilt r xs) = res_Entries r @ concat (map (\<lambda>(g, es). rebuilt_candidates g es) xs)"
  by (induction xs arbitrary: r) (auto simp: add_rebuilt_def rebuilt_candidates_def Let_def)

lemma filter_rebuilt: "filter (\<lambda>e. ce_RunwayGroupID e = g) (rebuilt_candidates h es) = (if h = g then rebuilt_candidates h es else [])"
  by (auto simp: filter_id_conv filter_empty_conv rebuilt_candidates_def rebuilt_entry_def candidate_entry_def Let_def)

lemma filter_rebuilt_groups:
  assumes "distinct (map fst xs)" "(g, es) \<in> set xs"
  shows "filter (\<lambda>e. ce_RunwayGroupID e = g) (concat (map (\<lambda>(g, es). rebuilt_candidates g es) xs)) = rebuilt_candidates g es"
  using assms
proof (induction xs)
  case (Cons x xs)
  obtain h hs where x: "x = (h, hs)" by (cases x)
  have none: "filter (\<lambda>e. ce_RunwayGroupID e = g) (concat (map (\<lambda>(g, es). rebuilt_candidates g es) xs)) = []" if "g \<notin> fst ` set xs"
    using that by (induction xs) (auto simp: filter_rebuilt)
  show ?case
  proof (cases "h = g")
    case True
    with Cons.prems x have "g \<notin> fst ` set xs" "hs = es" by (auto simp: image_iff)
    with none True show ?thesis by (simp add: x filter_rebuilt)
  next
    case False
    with Cons show ?thesis by (simp add: x filter_rebuilt)
  qed
qed simp

lemma rebuilt_group:
  assumes "distinct (map fst policies)" "(g, p) \<in> set policies"
  shows "filter (\<lambda>e. ce_RunwayGroupID e = g) (res_Entries (rebuilt_result policies fs tm st)) =
    rebuilt_candidates g (final_entries p fs tm (rb_allocated st g))"
proof -
  have fsts: "map fst (rebuilt_groups policies fs tm st) = map fst (go_sort (\<lambda>a b. fst a < fst b) policies)"
    by (simp add: rebuilt_groups_def comp_def case_prod_unfold)
  have "mset (map fst (go_sort (\<lambda>a b. fst a < fst b) policies)) = mset (map fst policies)" by (simp only: mset_map mset_go_sort)
  then have "distinct (map fst (rebuilt_groups policies fs tm st))" unfolding fsts using assms(1) mset_eq_imp_distinct_iff by blast
  moreover have "(g, final_entries p fs tm (rb_allocated st g)) \<in> set (rebuilt_groups policies fs tm st)"
    using assms(2) by (force simp: rebuilt_groups_def)
  ultimately show ?thesis by (simp add: rebuilt_result_def rebuilt_entries filter_rebuilt_groups)
qed

section \<open>The release order\<close>

text \<open>
  Each released flight is the lowest of its stack among those still to be released, and the lowest flight
  of no other stack has held longer.
\<close>

fun oldest_first :: "preparedFlight list \<Rightarrow> bool" where
  "oldest_first [] = True"
| "oldest_first (x # os) =
     ((\<forall>y \<in> set os. HoldingStackID y = HoldingStackID x \<longrightarrow> stack_less x y) \<and>
      (\<forall>y \<in> set os. HoldingStackID y \<noteq> HoldingStackID x \<longrightarrow>
         \<not> holdingAgeLess (the (find (\<lambda>z. HoldingStackID z = HoldingStackID y) os)) x) \<and>
      oldest_first os)"

lemma age_order:
  assumes "has_evidence a" "has_evidence b"
  shows "holdingAgeLess a b \<Longrightarrow> \<not> holdingAgeLess b a"
    "has_evidence c \<Longrightarrow> \<not> holdingAgeLess b a \<Longrightarrow> \<not> holdingAgeLess c b \<Longrightarrow> \<not> holdingAgeLess c a"
  using assms by (auto simp: has_evidence_def holdingAgeLess_def go_time split: if_splits)

lemma oldest_index:
  assumes "\<forall>i \<in> insert k (set js). has_evidence (hd (qs ! i))"
  defines "r \<equiv> foldl (\<lambda>s i. if holdingAgeLess (hd (qs ! i)) (hd (qs ! s)) then i else s) k js"
  shows "r \<in> insert k (set js) \<and> (\<forall>i \<in> insert k (set js). \<not> holdingAgeLess (hd (qs ! i)) (hd (qs ! r)))"
  using assms(1) unfolding r_def
proof (induction js arbitrary: k)
  case Nil
  then show ?case using age_order(1) by auto
next
  case (Cons j js)
  let ?less = "\<lambda>a b. holdingAgeLess (hd (qs ! a)) (hd (qs ! b))"
  let ?k = "if ?less j k then j else k"
  let ?r = "foldl (\<lambda>s i. if ?less i s then i else s) ?k js"
  have ev: "has_evidence (hd (qs ! i))" if "i \<in> insert k (insert j (set js))" for i using that Cons.prems by auto
  have IH: "?r \<in> insert ?k (set js)" "\<forall>i \<in> insert ?k (set js). \<not> ?less i ?r" using Cons.IH [of ?k] ev by auto
  then have r: "?r \<in> insert k (insert j (set js))" by (auto split: if_splits)
  have "\<not> ?less k ?r \<and> \<not> ?less j ?r"
  proof (cases "?less j k")
    case True
    then have "\<not> ?less k j" using age_order(1) ev by blast
    moreover have "\<not> ?less j ?r" using IH(2) True by auto
    ultimately show ?thesis using age_order(2) [OF ev [OF r] ev ev, of j k] by simp
  next
    case False
    moreover have "\<not> ?less k ?r" using IH(2) False by auto
    ultimately show ?thesis using age_order(2) [OF ev [OF r] ev ev, of k j] by simp
  qed
  with IH r show ?case by auto
qed

lemma oldest_head_oldest:
  assumes "qs \<noteq> []" "\<forall>q \<in> set qs. has_evidence (hd q)"
  shows "oldest_head qs < length qs" "i < length qs \<Longrightarrow> \<not> holdingAgeLess (hd (qs ! i)) (hd (qs ! oldest_head qs))"
proof -
  have all: "insert 0 (set [1..<length qs]) = {..<length qs}" using assms(1) by auto
  have "\<forall>i \<in> insert 0 (set [1..<length qs]). has_evidence (hd (qs ! i))" unfolding all using assms(2) by simp
  from oldest_index [OF this] show "oldest_head qs < length qs" "i < length qs \<Longrightarrow> \<not> holdingAgeLess (hd (qs ! i)) (hd (qs ! oldest_head qs))"
    unfolding oldest_head_def all by auto
qed

text \<open>Queues of different stacks, each of one stack and sorted.\<close>

definition one_queue :: "preparedFlight list \<Rightarrow> bool" where
  "one_queue q \<longleftrightarrow> sorted_wrt stack_less q \<and> (\<forall>x \<in> set q. has_evidence x) \<and> (\<forall>x \<in> set q. \<forall>y \<in> set q. HoldingStackID x = HoldingStackID y)"

definition apart :: "preparedFlight list \<Rightarrow> preparedFlight list \<Rightarrow> bool" where
  "apart q r \<longleftrightarrow> (\<forall>x \<in> set q. \<forall>y \<in> set r. HoldingStackID x \<noteq> HoldingStackID y)"

definition queues_ok :: "preparedFlight list list \<Rightarrow> bool" where
  "queues_ok qs \<longleftrightarrow> (\<forall>q \<in> set qs. one_queue q) \<and> sorted_wrt apart qs"

lemma queues_ok_filter: "queues_ok qs \<Longrightarrow> queues_ok (filter P qs)"
  by (auto simp: queues_ok_def sorted_wrt_filter)

lemma queues_ok_update:
  assumes "queues_ok qs" "s < length qs" "one_queue q" "set q \<subseteq> set (qs ! s)"
  shows "queues_ok (qs[s := q])"
  using assms
proof (induction qs arbitrary: s)
  case (Cons r qs)
  show ?case
  proof (cases s)
    case 0
    with Cons.prems show ?thesis by (auto simp: queues_ok_def apart_def)
  next
    case (Suc k)
    with Cons.prems have k: "k < length qs" "queues_ok qs" "set q \<subseteq> set (qs ! k)" by (auto simp: queues_ok_def)
    have "apart r x" if "x \<in> set (qs[k := q])" for x
    proof -
      have "qs ! k \<in> set qs" using k(1) by simp
      with Cons.prems(1) have "apart r q" using k(3) by (auto simp: queues_ok_def apart_def)
      with Cons.prems(1) that set_update_subset_insert [of qs k q] show ?thesis by (auto simp: queues_ok_def)
    qed
    with Cons.IH [OF k(2,1) Cons.prems(3) k(3)] Cons.prems(1) Suc show ?thesis by (auto simp: queues_ok_def)
  qed
qed simp

lemma one_queue_tl: "one_queue q \<Longrightarrow> one_queue (tl q)"
proof (cases q)
  case (Cons x xs)
  moreover assume "one_queue q"
  ultimately show ?thesis unfolding one_queue_def by (metis list.sel(3) list.set_intros(2) sorted_wrt.simps(2))
qed simp

lemma queues_ok_step:
  assumes "queues_ok qs" "s < length qs"
  shows "queues_ok (qs[s := tl (qs ! s)])"
proof (rule queues_ok_update [OF assms])
  show "one_queue (tl (qs ! s))" using assms by (auto simp: queues_ok_def intro: one_queue_tl)
  show "set (tl (qs ! s)) \<subseteq> set (qs ! s)" by (cases "qs ! s") auto
qed

lemma queues_apart:
  assumes "queues_ok qs" "i < length qs" "j < length qs" "i \<noteq> j" "x \<in> set (qs ! i)" "y \<in> set (qs ! j)"
  shows "HoldingStackID x \<noteq> HoldingStackID y"
proof -
  have "sorted_wrt apart qs" using assms(1) by (simp add: queues_ok_def)
  then have "apart (qs ! i) (qs ! j) \<or> apart (qs ! j) (qs ! i)"
    using assms(2-4) by (metis linorder_neqE_nat sorted_wrt_nth_less)
  with assms(5,6) show ?thesis unfolding apart_def by metis
qed

text \<open>One round of the merge takes the head of one queue.\<close>

lemma concat_nonempty: "concat (filter (\<lambda>q. q \<noteq> []) qs) = concat qs"
  by (induction qs) auto

lemma merge_round:
  assumes "queues_ok qs" "concat qs \<noteq> []"
  obtains l x q r where "filter (\<lambda>q. q \<noteq> []) qs = l @ (x # q) # r" "merge_stacks qs = x # merge_stacks (l @ q # r)" "queues_ok (l @ (x # q) # r)"
    "queues_ok (l @ q # r)" "\<And>u. u \<in> set (l @ r) \<Longrightarrow> u \<noteq> [] \<and> \<not> holdingAgeLess (hd u) x"
proof -
  let ?left = "filter (\<lambda>q. q \<noteq> []) qs"
  let ?s = "oldest_head ?left"
  have ne: "?left \<noteq> []" using assms(2) by (auto simp: filter_empty_conv)
  have ok: "queues_ok ?left" using assms(1) by (rule queues_ok_filter)
  have ev: "\<forall>q \<in> set ?left. has_evidence (hd q)" using assms(1) by (auto simp: queues_ok_def one_queue_def)
  note old = oldest_head_oldest [OF ne ev]
  from old(1) have "?left ! ?s \<in> set ?left" by (rule nth_mem)
  then have "?left ! ?s \<noteq> []" unfolding set_filter mem_Collect_eq by (rule conjunct2)
  then obtain x q where x: "?left ! ?s = x # q" by (cases "?left ! ?s") blast+
  define l r where "l = take ?s ?left" and "r = drop (Suc ?s) ?left"
  have split: "?left = l @ (x # q) # r" using id_take_nth_drop [OF old(1)] by (simp add: l_def r_def x)
  have upd: "?left[?s := q] = l @ q # r" using old(1) by (simp add: upd_conv_take_nth_drop l_def r_def x)
  have "merge_stacks qs = x # merge_stacks (l @ q # r)"
    using ne by (subst merge_stacks.simps) (simp only: Let_def if_False x list.sel upd)
  moreover have "queues_ok (l @ q # r)" using queues_ok_step [OF ok old(1)] x upd by simp
  moreover have "u \<noteq> [] \<and> \<not> holdingAgeLess (hd u) x" if "u \<in> set (l @ r)" for u
  proof -
    from that have "u \<in> set ?left" unfolding split by auto
    then obtain i where "i < length ?left" "?left ! i = u" unfolding in_set_conv_nth by blast
    with old(2) [of i] x \<open>u \<in> set ?left\<close> show ?thesis by auto
  qed
  ultimately show ?thesis using that [OF split] ok split by simp
qed

lemma merge_done: "concat qs = [] \<Longrightarrow> merge_stacks qs = []"
  by (subst merge_stacks.simps) (auto simp: filter_empty_conv)

lemma merge_induct [consumes 1, case_names Done Round]:
  assumes "queues_ok qs" "\<And>qs. concat qs = [] \<Longrightarrow> P qs"
    and "\<And>qs l x q r. queues_ok qs \<Longrightarrow> filter (\<lambda>q. q \<noteq> []) qs = l @ (x # q) # r \<Longrightarrow> merge_stacks qs = x # merge_stacks (l @ q # r) \<Longrightarrow>
       queues_ok (l @ (x # q) # r) \<Longrightarrow> (\<And>u. u \<in> set (l @ r) \<Longrightarrow> u \<noteq> [] \<and> \<not> holdingAgeLess (hd u) x) \<Longrightarrow> P (l @ q # r) \<Longrightarrow> P qs"
  shows "P qs"
  using assms(1)
proof (induction "length (concat qs)" arbitrary: qs rule: less_induct)
  case less
  show ?case
  proof (cases "concat qs = []")
    case True
    then show ?thesis by (rule assms(2))
  next
    case False
    obtain l x q r where m: "filter (\<lambda>q. q \<noteq> []) qs = l @ (x # q) # r" "merge_stacks qs = x # merge_stacks (l @ q # r)" "queues_ok (l @ (x # q) # r)"
        "queues_ok (l @ q # r)" "\<And>u. u \<in> set (l @ r) \<Longrightarrow> u \<noteq> [] \<and> \<not> holdingAgeLess (hd u) x"
      using less.prems False by (rule merge_round) blast
    have "concat qs = concat (l @ (x # q) # r)" using concat_nonempty [of qs] m(1) by simp
    then have "length (concat (l @ q # r)) < length (concat qs)" by simp
    from assms(3) [OF less.prems m(1,2,3,5) less.hyps [OF this m(4)]] show ?thesis by blast
  qed
qed

lemma filter_nonempty_concat: "filter (\<lambda>q. q \<noteq> []) qs = us \<Longrightarrow> concat (map (filter P) qs) = concat (map (filter P) us)"
  by (induction qs arbitrary: us) auto

lemma merge_mset: "queues_ok qs \<Longrightarrow> mset (merge_stacks qs) = mset (concat qs)"
proof (induction qs rule: merge_induct)
  case (Round qs l x q r)
  have "concat qs = concat (l @ (x # q) # r)" using concat_nonempty [of qs] Round(2) by simp
  with Round(3,6) show ?case by simp
qed (simp add: merge_done)

lemma merge_stack:
  assumes "queues_ok qs"
  shows "filter (\<lambda>z. HoldingStackID z = s) (merge_stacks qs) = concat (map (filter (\<lambda>z. HoldingStackID z = s)) qs)"
  using assms
proof (induction qs rule: merge_induct)
  case (Round qs l x q r)
  let ?F = "filter (\<lambda>z. HoldingStackID z = s)"
  have qs: "concat (map ?F qs) = concat (map ?F l) @ ?F (x # q) @ concat (map ?F r)" using filter_nonempty_concat [OF Round(2)] by simp
  have "concat (map ?F l) = []" if "HoldingStackID x = s"
    using Round(4) that by (force simp: queues_ok_def sorted_wrt_append apart_def filter_empty_conv)
  with Round(3,6) qs show ?case by (cases "HoldingStackID x = s") auto
qed (auto simp: merge_done filter_empty_conv)

lemma find_filter: "find P xs = (case filter P xs of [] \<Rightarrow> None | y # ys \<Rightarrow> Some y)"
  by (induction xs) auto

lemma merge_oldest_first: "queues_ok qs \<Longrightarrow> oldest_first (merge_stacks qs)"
proof (induction qs rule: merge_induct)
  case (Round qs l x q r)
  let ?rest = "merge_stacks (l @ q # r)"
  have next_ok: "queues_ok (l @ q # r)"
    using queues_ok_step [OF Round(4), of "length l"] by simp
  have one: "one_queue (x # q)" using Round(4) by (simp add: queues_ok_def)
  have "apart u (x # q) \<or> apart (x # q) u" if "u \<in> set (l @ r)" for u
    using Round(4) that by (auto simp: queues_ok_def sorted_wrt_append)
  then have other: "HoldingStackID y \<noteq> HoldingStackID x" if "u \<in> set (l @ r)" "y \<in> set u" for u y
    using that unfolding apart_def by (metis list.set_intros(1))
  have mem: "y \<in> set q \<or> (\<exists>u \<in> set (l @ r). y \<in> set u)" if "y \<in> set ?rest" for y
    using that mset_eq_setD [OF merge_mset [OF next_ok]] by auto
  have "\<forall>y \<in> set q. stack_less x y" using one by (simp add: one_queue_def)
  then have "stack_less x y" if y: "y \<in> set ?rest" "HoldingStackID y = HoldingStackID x" for y
    using mem [OF y(1)] other y(2) by blast
  moreover have "\<not> holdingAgeLess (the (find (\<lambda>z. HoldingStackID z = HoldingStackID y) ?rest)) x"
    if y: "y \<in> set ?rest" "HoldingStackID y \<noteq> HoldingStackID x" for y
  proof -
    have "y \<notin> set q" using y(2) one unfolding one_queue_def by (metis list.set_intros(1,2))
    with mem [OF y(1)] obtain u where u: "u \<in> set (l @ r)" "y \<in> set u" by blast
    let ?F = "filter (\<lambda>z. HoldingStackID z = HoldingStackID y)"
    have "one_queue u" using Round(4) u(1) by (auto simp: queues_ok_def)
    then have "\<forall>z \<in> set u. HoldingStackID z = HoldingStackID y" using u(2) unfolding one_queue_def by blast
    then have mine: "?F u = u" by (simp only: filter_id_conv)
    have "u \<in> set (l @ q # r)" using u(1) by auto
    from split_list [OF this] obtain a b where ab: "l @ q # r = a @ u # b" by blast
    have "?F v = []" if v: "v \<in> set (a @ b)" for v
    proof -
      have "apart v u \<or> apart u v" using next_ok v unfolding ab by (auto simp: queues_ok_def sorted_wrt_append)
      then show ?thesis using u(2) unfolding apart_def filter_empty_conv by metis
    qed
    then have "concat (map ?F a) = []" "concat (map ?F b) = []" unfolding concat_eq_Nil_conv by auto
    then have "concat (map ?F (l @ q # r)) = u" by (simp only: ab map_append list.map concat_append concat.simps mine append_Nil append_Nil2)
    then have "?F ?rest = u" using merge_stack [OF next_ok] by simp
    with u(2) have "the (find (\<lambda>z. HoldingStackID z = HoldingStackID y) ?rest) = hd u" by (cases u) (simp_all add: find_filter)
    with Round(5) [OF u(1)] show ?thesis by simp
  qed
  ultimately show ?case using Round(3,6) by simp
qed (simp add: merge_done)

text \<open>On flights with evidence the order of a stack is total.\<close>

definition low_less :: "preparedFlight \<Rightarrow> preparedFlight \<Rightarrow> bool" where
  "low_less a b =
     (if the (HoldingAltitudeFeet a) \<noteq> the (HoldingAltitudeFeet b) then the (HoldingAltitudeFeet a) < the (HoldingAltitudeFeet b)
      else if \<not> t_equal (the (HoldingStartedAt a)) (the (HoldingStartedAt b)) then before (the (HoldingStartedAt a)) (the (HoldingStartedAt b))
      else Callsign a < Callsign b)"

lemma stack_less_low: "has_evidence a \<Longrightarrow> has_evidence b \<Longrightarrow> stack_less a b = low_less a b"
  by (auto simp: has_evidence_def stack_less_def low_less_def holdingAgeLess_def)

lemma low_less_order: "weak_order low_less" unfolding weak_order_def low_less_def go_time by (auto split: if_splits)

lemma sorted_stack:
  assumes "\<forall>f \<in> set xs. has_evidence f" "distinct (map Callsign xs)"
  shows "sorted_wrt stack_less (go_sort stack_less xs)"
proof -
  have same: "go_sort stack_less xs = go_sort low_less xs" using assms(1) stack_less_low by (intro go_sort_cong) blast
  let ?ys = "go_sort low_less xs"
  have "mset (map Callsign ?ys) = mset (map Callsign xs)" by (simp only: mset_map mset_go_sort)
  then have d: "distinct (map Callsign ?ys)" using assms(2) mset_eq_imp_distinct_iff by blast
  have srt: "sorted_wrt (\<lambda>a b. \<not> low_less b a) ?ys" by (rule sorted_go_sort [OF low_less_order])
  have "stack_less (?ys ! i) (?ys ! j)" if "i < j" "j < length ?ys" for i j
  proof -
    have m: "?ys ! i \<in> set xs" "?ys ! j \<in> set xs" using that nth_mem [of i ?ys] nth_mem [of j ?ys] by simp_all
    have "Callsign (?ys ! i) \<noteq> Callsign (?ys ! j)" using nth_eq_iff_index_eq [OF d, of i j] that by simp
    moreover have "\<not> low_less (?ys ! j) (?ys ! i)" using sorted_wrt_nth_less [OF srt] that by blast
    ultimately have "low_less (?ys ! i) (?ys ! j)" by (auto simp: low_less_def go_time split: if_splits)
    with m assms(1) show ?thesis by (simp add: stack_less_low)
  qed
  then show ?thesis unfolding same by (simp add: sorted_wrt_iff_nth_less)
qed

lemma stack_queues_ok:
  assumes "\<forall>f \<in> set fs. has_evidence f" "distinct (map Callsign fs)"
  shows "queues_ok (stack_queues fs)" "mset (concat (stack_queues fs)) = mset fs"
proof -
  let ?q = "\<lambda>s. go_sort stack_less (filter (\<lambda>f. HoldingStackID f = s) fs)"
  have "one_queue (?q s)" for s
    using assms sorted_stack [of "filter (\<lambda>f. HoldingStackID f = s) fs"] by (simp add: one_queue_def distinct_map_filter)
  moreover have "sorted_wrt apart (map ?q ss)" if "distinct ss" for ss
    using that by (induction ss) (auto simp: apart_def)
  ultimately show "queues_ok (stack_queues fs)" by (auto simp: queues_ok_def stack_queues_def)
  have "mset (concat (map ?q ss)) = mset (filter (\<lambda>f. HoldingStackID f \<in> set ss) fs)" if "distinct ss" for ss
    using that
  proof (induction ss)
    case (Cons s ss)
    have "mset (filter (\<lambda>f. HoldingStackID f \<in> set (s # ss)) fs) =
        mset (filter (\<lambda>f. HoldingStackID f = s) fs) + mset (filter (\<lambda>f. HoldingStackID f \<in> set ss) fs)"
      using Cons.prems by (induction fs) auto
    with Cons show ?case by simp
  qed simp
  from this [OF distinct_remdups, of "map HoldingStackID fs"] show "mset (concat (stack_queues fs)) = mset fs"
    by (simp add: stack_queues_def)
qed

section \<open>All placements together\<close>

definition kept_in_sequence :: "preparedFlight \<Rightarrow> bool" where
  "kept_in_sequence f \<longleftrightarrow> (isRetained f \<longrightarrow> retained_slot f \<noteq> None)"

lemma filter_four:
  assumes "\<And>x. K x \<longleftrightarrow> A x \<or> B x \<or> C x \<or> D x"
    and "\<And>x. A x \<Longrightarrow> \<not> B x \<and> \<not> C x \<and> \<not> D x" "\<And>x. B x \<Longrightarrow> \<not> C x \<and> \<not> D x" "\<And>x. C x \<Longrightarrow> \<not> D x"
  shows "mset (filter K xs) = mset (filter A xs) + mset (filter B xs) + mset (filter C xs) + mset (filter D xs)"
proof (induction xs)
  case (Cons x xs)
  then show ?case using assms(1) [of x] assms(2-4) [of x] by (cases "A x"; cases "B x"; cases "C x"; cases "D x") simp_all
qed simp

lemma placed_ok:
  assumes "place_flights policies fs blocked tm (initial_state tm ds) = Inr st" "rebuild_ready policies fs" "distinct (map Callsign fs)"
    and "\<forall>f \<in> set fs. in_stack blocked f \<longrightarrow> has_evidence f" "0 \<le> ns tm"
  obtains "done" ys where "state_ok policies tm done st" "mset done = mset (filter kept_in_sequence fs)"
    "map fst ys = filter (\<lambda>f. \<not> isRetained f) (release_order blocked fs)" "releases_ok tm st ys"
    "oldest_first (release_order blocked fs)" "mset (release_order blocked fs) = mset (filter (in_stack blocked) fs)"
proof -
  let ?held = "release_order blocked fs"
  from assms(1) obtain st1 st2 st3 where s: "reserve_groups policies fs tm (initial_state tm ds) = Inr st1" "place_tma policies tm (tma_flights fs) st1 = Inr st2"
      "place_all_held policies 1 ?held (st2\<lparr> rb_diagnostics := rb_diagnostics st2 @ concat (map (priority_exceptions st2 \<circ> fst) policies) \<rparr>) = Inr st3"
      "place_inbound policies tm (inbound_flights blocked fs) st3 = Inr st"
    by (auto simp: place_flights_def split: sum.splits)
  have pol: "distinct (map fst policies)" "\<forall>gp \<in> set policies. policy_ok gp" using assms(2) by (simp_all add: rebuild_ready_def)
  note r = reserve_groups_ok [OF s(1) pol]
  have st1: "state_ok policies tm (filter reserved fs) st1" using r by (simp add: state_ok_def group_flights_def conj_commute)
  have tma: "set (tma_flights fs) \<subseteq> set fs" "\<forall>f \<in> set (tma_flights fs). \<not> isRetained f" by (auto simp: tma_flights_def)
  note t = place_tma_ok [OF s(2) st1 assms(2) tma]
  let ?st2 = "st2\<lparr> rb_diagnostics := rb_diagnostics st2 @ concat (map (priority_exceptions st2 \<circ> fst) policies) \<rparr>"
  have st2: "state_ok policies tm (filter reserved fs @ tma_flights fs) ?st2" using t by (subst state_ok_cong [of _ st2]) simp_all
  have ev: "\<forall>f \<in> set (filter (in_stack blocked) fs). has_evidence f" using assms(4) by simp
  note q = stack_queues_ok [OF ev distinct_map_filter [OF assms(3)]]
  have held: "mset ?held = mset (filter (in_stack blocked) fs)" "oldest_first ?held"
    using merge_mset [OF q(1)] q(2) merge_oldest_first [OF q(1)] by (simp_all add: release_order_def)
  from mset_eq_setD [OF held(1)] have hset: "set ?held = {f \<in> set fs. in_stack blocked f}" by simp
  have h: "set ?held \<subseteq> set fs" "\<forall>f \<in> set ?held. \<not> isRetained f \<longrightarrow> 0 \<le> HoldingTransit f"
    using hset assms(4) by (auto simp: has_evidence_def)
  have start: "releases_ok tm ?st2 []" using r t by (simp add: releases_ok_def initial_state_def t_add_def)
  from place_all_held_ok [OF s(3) st2 assms(2) h start assms(5)] obtain ys where y: "map fst ys = filter (\<lambda>f. \<not> isRetained f) ?held"
      "state_ok policies tm ((filter reserved fs @ tma_flights fs) @ map fst ys) st3" "releases_ok tm st3 ys" by auto
  have inb: "set (inbound_flights blocked fs) \<subseteq> set fs" "\<forall>f \<in> set (inbound_flights blocked fs). \<not> isRetained f"
    by (auto simp: inbound_flights_def)
  note i = place_inbound_ok [OF s(4) y(2) assms(2) inb]
  have "releases_ok tm st ys" using i by (intro releases_ok_grows [OF y(3)]) simp_all
  moreover have "mset (((filter reserved fs @ tma_flights fs) @ map fst ys) @ inbound_flights blocked fs) = mset (filter kept_in_sequence fs)"
  proof -
    have "mset (filter (\<lambda>f. \<not> isRetained f) ?held) = filter_mset (\<lambda>f. \<not> isRetained f) (mset ?held)" by (rule mset_filter)
    also have "\<dots> = mset (filter (\<lambda>f. in_stack blocked f \<and> \<not> isRetained f) fs)" by (simp add: held(1) filter_filter_mset conj_commute)
    finally have out: "mset (map fst ys) = mset (filter (\<lambda>f. in_stack blocked f \<and> \<not> isRetained f) fs)" using y(1) by simp
    have "mset (filter kept_in_sequence fs) = mset (filter reserved fs) + mset (filter (\<lambda>f. RebuildTMA f \<and> \<not> isRetained f) fs) +
        mset (filter (\<lambda>f. in_stack blocked f \<and> \<not> isRetained f) fs) +
        mset (filter (\<lambda>f. \<not> (RebuildTMA f \<and> \<not> isRetained f) \<and> \<not> in_stack blocked f \<and> \<not> isRetained f) fs)"
      by (rule filter_four) (auto simp: kept_in_sequence_def reserved_def in_stack_def)
    then show ?thesis by (simp only: out mset_append tma_flights_def inbound_flights_def mset_go_sort)
  qed
  ultimately show ?thesis using that conjunct1 [OF i] y(1) held by blast
qed

section \<open>The rebuilt sequence is safe\<close>

lemma rebuild_outcome:
  assumes "ApplyArrivalSequenceRebuild input tm = Inr d" "prepareInput (rebuild_input input) = Inr (policies, fs)" "0 \<le> ns tm"
  obtains st "done" ys where "dec_Candidate d = rebuilt_result policies fs tm st" "state_ok policies tm done st"
    "mset done = mset (filter kept_in_sequence fs)" "ReleaseOrder (reb_Outcome d) = map Callsign (release_order (blocked_stacks (in_Flights input)) fs)"
    "map fst ys = filter (\<lambda>f. \<not> isRetained f) (release_order (blocked_stacks (in_Flights input)) fs)" "releases_ok tm st ys"
    "oldest_first (release_order (blocked_stacks (in_Flights input)) fs)"
    "mset (release_order (blocked_stacks (in_Flights input)) fs) = mset (filter (in_stack (blocked_stacks (in_Flights input))) fs)"
proof -
  let ?blocked = "blocked_stacks (in_Flights input)"
  from assms(1,2) obtain ds st where p: "place_flights policies fs ?blocked tm (initial_state tm ds) = Inr st"
      "dec_Candidate d = rebuilt_result policies fs tm st" "ReleaseOrder (reb_Outcome d) = map Callsign (release_order ?blocked fs)"
    by (auto simp: ApplyArrivalSequenceRebuild_def Let_def split: if_splits sum.splits)
  have ev: "\<forall>f \<in> set fs. in_stack ?blocked f \<longrightarrow> has_evidence f" using queued_evidence [OF assms(2)] by blast
  show ?thesis
    by (rule placed_ok [OF p(1) prepared_ready [OF assms(2)] prepareInput_ok(3) [OF assms(2)] ev assms(3)]) (rule that [OF p(2) _ _ p(3)])
qed

definition rebuilt_as :: "preparedPolicy \<Rightarrow> gotime \<Rightarrow> preparedFlight \<Rightarrow> CandidateEntry \<Rightarrow> bool" where
  "rebuilt_as p tm f e \<longleftrightarrow> ce_Callsign e = Callsign f \<and>
     (if isRetained f then ce_Time e = slot_Time (the (retained_slot f))
      else on_grid p (ce_Time e) \<and> slot_open p (ce_Time e) \<and> ns tm \<le> ns (ce_Time e) \<and> not_before f (ce_Time e))"

lemma rebuilt_candidates_successively:
  assumes "successively P es" "\<And>a b i j. a \<in> set es \<Longrightarrow> b \<in> set es \<Longrightarrow> P a b \<Longrightarrow> Q (rebuilt_entry g i a) (rebuilt_entry g j b)"
  shows "successively Q (rebuilt_candidates g es)"
  using assms by (auto simp: successively_conv_nth rebuilt_candidates_def)

lemma rebuilt_group_ok:
  assumes "dec_Candidate d = rebuilt_result policies fs tm st" "state_ok policies tm done st" "mset done = mset (filter kept_in_sequence fs)"
    and "prepareInput (rebuild_input input) = Inr (policies, fs)" "(g, p) \<in> set policies"
  obtains es where "filter (\<lambda>e. ce_RunwayGroupID e = g) (res_Entries (dec_Candidate d)) = rebuilt_candidates g es"
    "group_ok p tm (group_flights g done) es" "prepared_ok p"
    "\<And>e. e \<in> set (rb_allocated st g) \<Longrightarrow> ReleaseRank (ent_flight e) \<noteq> None \<Longrightarrow> e \<in> set es"
proof -
  have ok: "prepared_ok p" using prepareInput_ok(2) [OF assms(4,5)] by (simp add: policy_ok_def)
  have grp: "group_ok p tm (group_flights g done) (rb_allocated st g)" using assms(2,5) by (auto simp: state_ok_def)
  have sub: "set (group_flights g done) \<subseteq> set fs" using mset_eq_setD [OF assms(3)] by (auto simp: group_flights_def)
  note fin = final_entries_ok [OF grp ok sub prepareInput_ok(3) [OF assms(4)] rebuild_resets_freezes [OF assms(4)]]
  show ?thesis
    by (rule that [OF _ fin(1) ok fin(2)]) (simp_all add: assms(1) rebuilt_group [OF prepareInput_ok(1) [OF assms(4)] assms(5)])
qed

lemma rebuilt_fields:
  "ce_Sequence (rebuilt_entry g i a) = i + 1" "ce_Time (rebuilt_entry g i a) = ent_time a" "ce_Callsign (rebuilt_entry g i a) = entry_name a"
  "ce_WakeCategory (rebuilt_entry g i a) = category (ent_flight a)"
  by (simp_all add: rebuilt_entry_def candidate_entry_def Let_def)

lemma rebuilt_candidates_nth:
  "length (rebuilt_candidates g es) = length es" "i < length es \<Longrightarrow> rebuilt_candidates g es ! i = rebuilt_entry g i (es ! i)"
  by (simp_all add: rebuilt_candidates_def)

lemma rebuilt_numbers: "map ce_Sequence (rebuilt_candidates g es) = [1..<Suc (length es)]"
  by (rule nth_equalityI) (simp_all add: rebuilt_candidates_nth rebuilt_fields del: upt_Suc)

lemma rebuilt_times: "map (\<lambda>e. ns (ce_Time e)) (rebuilt_candidates g es) = map at_ns es"
  by (rule nth_equalityI) (simp_all add: rebuilt_candidates_nth rebuilt_fields)

lemma rebuilt_as_entries: "list_all2 (entry_ok p tm) hs es \<Longrightarrow> list_all2 (rebuilt_as p tm) hs (rebuilt_candidates g es)"
proof (rule list_all2_all_nthI)
  assume h: "list_all2 (entry_ok p tm) hs es"
  show "length hs = length (rebuilt_candidates g es)" using list_all2_lengthD [OF h] by (simp add: rebuilt_candidates_nth)
  fix n assume n: "n < length hs"
  have ok: "entry_ok p tm (hs ! n) (es ! n)" using h n by (rule list_all2_nthD)
  then have "aircraft (ent_flight (es ! n)) = aircraft (hs ! n)" by (simp add: entry_ok_def)
  from aircraft_same(1) [OF this] ok n list_all2_lengthD [OF h] show "rebuilt_as p tm (hs ! n) (rebuilt_candidates g es ! n)"
    by (simp add: rebuilt_as_def entry_ok_def rebuilt_candidates_nth rebuilt_fields)
qed

lemma entry_separated:
  assumes "spaced_since p (Some t) a b" "known (ent_flight a) \<longleftrightarrow> category (ent_flight a) \<in> set (categories p)"
    and "known (ent_flight b) \<longleftrightarrow> category (ent_flight b) \<in> set (categories p)"
  shows "at_ns b < t \<or> separated p (rebuilt_entry g i a) (rebuilt_entry g j b)"
proof (cases "adjacentValid p a b")
  case True
  with assms(2,3) show ?thesis
    by (simp add: separated_def rebuilt_fields adjacentValid_def requiredGap_def wake_minimum_def Let_def go_time)
next
  case False
  with assms(1) show ?thesis by (simp add: spaced_since_def)
qed

text \<open>
  C9. The rebuilt sequence of a runway group is safe. It holds every flight that can be sequenced once,
  numbered by increasing time. Retained reservations keep their time exactly; every other flight gets an open
  slot of the grid, not before the rebuild and not before its own bound. From the time of the rebuild on, each landing
  follows the one before it by the rate interval and the wake minimum.
\<close>

theorem rebuilt_sequence_is_safe:
  assumes "ApplyArrivalSequenceRebuild input tm = Inr d" "prepareInput (rebuild_input input) = Inr (policies, fs)" "(g, p) \<in> set policies"
    and "0 \<le> ns tm"
  shows "let es = filter (\<lambda>e. ce_RunwayGroupID e = g) (res_Entries (dec_Candidate d)) in
     map ce_Sequence es = [1..<Suc (length es)] \<and> sorted (map (\<lambda>e. ns (ce_Time e)) es) \<and>
     successively (\<lambda>a b. before (ce_Time b) tm \<or> separated p a b) es \<and>
     (\<exists>hs. mset hs = mset (filter kept_in_sequence (group_flights g fs)) \<and> list_all2 (rebuilt_as p tm) hs es)"
proof -
  obtain st "done" where d: "dec_Candidate d = rebuilt_result policies fs tm st" "state_ok policies tm done st"
      "mset done = mset (filter kept_in_sequence fs)"
    using assms(1,2,4) by (rule rebuild_outcome) blast
  obtain es where e: "filter (\<lambda>e. ce_RunwayGroupID e = g) (res_Entries (dec_Candidate d)) = rebuilt_candidates g es"
      "group_ok p tm (group_flights g done) es"
    by (rule rebuilt_group_ok [OF d assms(2,3)]) (rule that)
  obtain hs where h: "mset hs = mset (group_flights g done)" "list_all2 (entry_ok p tm) hs es"
    using e(2) unfolding group_ok_def by blast
  have "mset (group_flights g done) = mset (filter kept_in_sequence (group_flights g fs))"
    using d(3) by (simp add: group_flights_def filter_filter_mset conj_commute)
  with h(1) have m: "mset hs = mset (filter kept_in_sequence (group_flights g fs))" by simp
  from mset_eq_setD [OF this] have hset: "set hs \<subseteq> set (group_flights g fs)" by simp
  have known: "known (ent_flight a) \<longleftrightarrow> category (ent_flight a) \<in> set (categories p)" if "a \<in> set es" for a
  proof -
    from that obtain n where n: "n < length es" "es ! n = a" by (auto simp: in_set_conv_nth)
    have f: "hs ! n \<in> set (group_flights g fs)" using n(1) list_all2_lengthD [OF h(2)] hset nth_mem [of n hs] by auto
    have "entry_ok p tm (hs ! n) a" using list_all2_nthD2 [OF h(2) n(1)] n(2) by simp
    then have "aircraft (ent_flight a) = aircraft (hs ! n)" by (simp add: entry_ok_def)
    from aircraft_same(5,6) [OF this] flight_known [OF assms(2,3) f] show ?thesis by simp
  qed
  have "successively (\<lambda>a b. before (ce_Time b) tm \<or> separated p a b) (rebuilt_candidates g es)"
  proof (rule rebuilt_candidates_successively)
    show "successively (spaced_since p (Some (ns tm))) es" using e(2) by (simp add: group_ok_def)
    fix a b i j assume "a \<in> set es" "b \<in> set es" and spaced: "spaced_since p (Some (ns tm)) a b"
    from entry_separated [OF spaced known known] this(1,2)
    show "before (ce_Time (rebuilt_entry g j b)) tm \<or> separated p (rebuilt_entry g i a) (rebuilt_entry g j b)"
      by (simp add: before_def rebuilt_fields)
  qed
  moreover have "sorted (map (\<lambda>e. ns (ce_Time e)) (rebuilt_candidates g es))"
    using e(2) by (simp add: rebuilt_times group_ok_def in_time_def)
  ultimately show ?thesis
    unfolding e(1) Let_def using m rebuilt_as_entries [OF h(2)] rebuilt_numbers by (auto simp: rebuilt_candidates_nth(1))
qed

lemma released_candidate:
  assumes "released st f r" "dec_Candidate d = rebuilt_result policies fs tm st" "state_ok policies tm done st"
    and "mset done = mset (filter kept_in_sequence fs)" "prepareInput (rebuild_input input) = Inr (policies, fs)" "f \<in> set fs"
  shows "\<exists>e \<in> set (res_Entries (dec_Candidate d)). ce_Callsign e = Callsign f \<and> ns (ce_Time e) - HoldingTransit f = r"
proof -
  obtain a where a: "a \<in> set (rb_allocated st (RunwayGroupID f))" "aircraft (ent_flight a) = aircraft f" "ReleaseRank (ent_flight a) \<noteq> None"
      "at_ns a - HoldingTransit f = r" using assms(1) unfolding released_def by blast
  have "RunwayGroupID f \<in> fst ` set policies" using prepared_ready [OF assms(5)] assms(6) by (simp add: rebuild_ready_def)
  then obtain p where p: "(RunwayGroupID f, p) \<in> set policies" by force
  obtain es where e: "filter (\<lambda>e. ce_RunwayGroupID e = RunwayGroupID f) (res_Entries (dec_Candidate d)) = rebuilt_candidates (RunwayGroupID f) es"
      "\<And>e. e \<in> set (rb_allocated st (RunwayGroupID f)) \<Longrightarrow> ReleaseRank (ent_flight e) \<noteq> None \<Longrightarrow> e \<in> set es"
    by (rule rebuilt_group_ok [OF assms(2-5) p]) (rule that)
  from e(2) [OF a(1,3)] obtain i where i: "i < length es" "es ! i = a" by (auto simp: in_set_conv_nth)
  let ?e = "rebuilt_entry (RunwayGroupID f) i a"
  have "?e \<in> set (rebuilt_candidates (RunwayGroupID f) es)" unfolding rebuilt_candidates_def using i by (auto intro!: image_eqI [of _ _ i])
  then have "?e \<in> set (res_Entries (dec_Candidate d))" unfolding e(1) [symmetric] by simp
  moreover have "ce_Callsign ?e = Callsign f" "ns (ce_Time ?e) - HoldingTransit f = r"
    using a(4) aircraft_same(1) [OF a(2)] by (simp_all add: rebuilt_entry_def candidate_entry_def Let_def)
  ultimately show ?thesis by blast
qed

text \<open>
  C34. The release order of a rebuild follows the holding stacks: every flight of a usable stack is in it, once;
  each is the lowest of its stack when its turn comes, and the lowest flight of no other stack has held
  longer. The flights that are not retained leave their holds in this order, none earlier than a second after
  the rebuild, and at least a minute apart from the same stack.
\<close>

theorem releases_follow_the_stacks:
  assumes "ApplyArrivalSequenceRebuild input tm = Inr d" "prepareInput (rebuild_input input) = Inr (policies, fs)" "0 \<le> ns tm"
  shows "\<exists>order ys. ReleaseOrder (reb_Outcome d) = map Callsign order \<and>
     mset order = mset (filter (in_stack (blocked_stacks (in_Flights input))) fs) \<and> oldest_first order \<and>
     map fst ys = filter (\<lambda>f. \<not> isRetained f) order \<and> sorted_wrt release_pair ys \<and>
     (\<forall>(f, r) \<in> set ys. ns tm + second \<le> r \<and>
        (\<exists>e \<in> set (res_Entries (dec_Candidate d)). ce_Callsign e = Callsign f \<and> ns (ce_Time e) - HoldingTransit f = r))"
proof -
  let ?order = "release_order (blocked_stacks (in_Flights input)) fs"
  obtain st "done" ys where d: "dec_Candidate d = rebuilt_result policies fs tm st" "state_ok policies tm done st"
      "mset done = mset (filter kept_in_sequence fs)" "ReleaseOrder (reb_Outcome d) = map Callsign ?order"
      "map fst ys = filter (\<lambda>f. \<not> isRetained f) ?order" "releases_ok tm st ys" "oldest_first ?order"
      "mset ?order = mset (filter (in_stack (blocked_stacks (in_Flights input))) fs)"
    using assms by (rule rebuild_outcome) blast
  have "ns tm + second \<le> r \<and>
      (\<exists>e \<in> set (res_Entries (dec_Candidate d)). ce_Callsign e = Callsign f \<and> ns (ce_Time e) - HoldingTransit f = r)"
    if "(f, r) \<in> set ys" for f r
  proof -
    from that have "f \<in> set (map fst ys)" by force
    then have "f \<in> set ?order" unfolding d(5) by simp
    then have "f \<in> set fs" unfolding mset_eq_setD [OF d(8)] by simp
    moreover have "released st f r" "ns tm + second \<le> r" using that d(6) by (auto simp: releases_ok_def)
    ultimately show ?thesis using released_candidate [OF _ d(1-3) assms(2)] by blast
  qed
  moreover have "sorted_wrt release_pair ys" using d(6) by (simp add: releases_ok_def)
  ultimately show ?thesis using d(4,5,7,8) by blast
qed

section \<open>A sample rebuild\<close>

text \<open>
  Two stacks, one with two flights, a flight in the terminal area, an inbound flight and one with a
  manual freeze: the lower flight of the first stack is released first although the other stack's has held
  longer than the upper one.
\<close>

definition held_flight :: "string \<Rightarrow> string \<Rightarrow> int \<Rightarrow> int \<Rightarrow> Flight" where
  "held_flight c stack level started = (sample_flight c (3 * hour) ''M'')\<lparr> HoldingStackID := stack, HoldingAltitudeFeet := Some level,
     HoldingStartedAt := Some (Time started UTC), HoldingTransit := 10 * minute \<rparr>"

definition rebuild_traffic :: Input where
  "rebuild_traffic = \<lparr> in_Revision = 1, in_Policies = [sample_policy False], in_STARFamilyPolicies = [],
     in_Flights = [held_flight ''SAS1'' ''ROSBI'' 8000 (2 * hour), held_flight ''SAS2'' ''ROSBI'' 7000 (2 * hour + 5 * minute),
       held_flight ''SAS3'' ''TUDLO'' 7000 (2 * hour + 10 * minute), (sample_flight ''SAS4'' (2 * hour + 40 * minute) ''H'')\<lparr> RebuildTMA := True \<rparr>,
       sample_flight ''SAS5'' (2 * hour + 50 * minute) ''M'',
       (sample_flight ''SAS6'' (2 * hour + 45 * minute) ''M'')\<lparr> fl_FreezeReason := FreezeManual,
         CapturedSlot := Some (sample_slot (2 * hour + 46 * minute) 1), CurrentSlot := Some (sample_slot (2 * hour + 46 * minute) 1) \<rparr>] \<rparr>"

definition rebuild_time :: gotime where "rebuild_time = Time (2 * hour + 30 * minute) UTC"
definition sample_rebuild :: RebuildDecision where "sample_rebuild = projr (ApplyArrivalSequenceRebuild rebuild_traffic rebuild_time)"
definition rebuild_prepared_traffic :: "(string \<times> preparedPolicy) list \<times> preparedFlight list" where
  "rebuild_prepared_traffic = projr (prepareInput (rebuild_input rebuild_traffic))"

lemma sample_rebuild_ok:
  "ApplyArrivalSequenceRebuild rebuild_traffic rebuild_time = Inr sample_rebuild"
  "prepareInput (rebuild_input rebuild_traffic) = Inr (fst rebuild_prepared_traffic, snd rebuild_prepared_traffic)"
  "(''22L'', snd (fst rebuild_prepared_traffic ! 0)) \<in> set (fst rebuild_prepared_traffic)"
  "0 \<le> ns rebuild_time"
  "ReleaseOrder (reb_Outcome sample_rebuild) = [''SAS2'', ''SAS1'', ''SAS3'']"
  "map ce_Callsign (filter (\<lambda>e. ce_RunwayGroupID e = ''22L'') (res_Entries (dec_Candidate sample_rebuild))) =
     [''SAS4'', ''SAS2'', ''SAS6'', ''SAS1'', ''SAS3'', ''SAS5'']"
  by code_simp+

theorem rebuilt_sequence_is_safe_witness:
  "let es = filter (\<lambda>e. ce_RunwayGroupID e = ''22L'') (res_Entries (dec_Candidate sample_rebuild)) in
     map ce_Sequence es = [1, 2, 3, 4, 5, 6] \<and> sorted (map (\<lambda>e. ns (ce_Time e)) es) \<and>
     successively (\<lambda>a b. before (ce_Time b) rebuild_time \<or> separated (snd (fst rebuild_prepared_traffic ! 0)) a b) es"
proof -
  let ?es = "filter (\<lambda>e. ce_RunwayGroupID e = ''22L'') (res_Entries (dec_Candidate sample_rebuild))"
  have "length ?es = 6" using arg_cong [OF sample_rebuild_ok(6), of length] by simp
  moreover have "[1..<Suc 6] = [1, 2, 3, 4, 5, 6]" by (simp add: upt_rec)
  ultimately show ?thesis
    using rebuilt_sequence_is_safe [OF sample_rebuild_ok(1-4)] unfolding Let_def by simp
qed

theorem releases_follow_the_stacks_witness:
  "\<exists>order ys. map Callsign order = [''SAS2'', ''SAS1'', ''SAS3''] \<and> oldest_first order \<and>
     map fst ys = filter (\<lambda>f. \<not> isRetained f) order \<and> sorted_wrt release_pair ys"
proof -
  obtain order ys where "ReleaseOrder (reb_Outcome sample_rebuild) = map Callsign order" "oldest_first order"
      "map fst ys = filter (\<lambda>f. \<not> isRetained f) order" "sorted_wrt release_pair ys"
    using releases_follow_the_stacks [OF sample_rebuild_ok(1,2,4)] by blast
  with sample_rebuild_ok(5) show ?thesis by metis
qed

end
