(* ===== verification/Go_Float.thy ===== *)
theory Go_Float
  imports Complex_Main "HOL-Library.Log_Nat"
begin

text \<open>
  Go's \<^verbatim>\<open>float64\<close> as the backend's clock arithmetic uses it: a finite value is the rational it
  denotes, and every operation is the exact operation followed by \<open>fl\<close>, rounding to a 53-bit
  significand, ties to even. Overflow and subnormal results do not occur in the modelled code,
  whose values are zero or lie between a thousandth and a few thousand.

  The locale \<open>rounding\<close> states what the clients rely on: integers are exact and the relative error
  is at most half a unit in the last place. It is interpreted on \<open>fl\<close>.
\<close>

definition float_exp :: "rat \<Rightarrow> int" where
  "float_exp x = (case quotient_of x of (n, d) \<Rightarrow>
     let b = bitlen n - bitlen d in if 2 powi b \<le> x then b else b - 1)"

definition round_even :: "rat \<Rightarrow> int" where
  "round_even x = (let f = \<lfloor>x\<rfloor>; r = x - of_int f in
     if r < 1 / 2 then f else if 1 / 2 < r then f + 1 else if even f then f else f + 1)"

definition fl :: "rat \<Rightarrow> rat" where
  "fl x = (if x = 0 then 0
     else let q = 2 powi (float_exp \<bar>x\<bar> - 52) in of_int (round_even (x / q)) * q)"

text \<open>\<^verbatim>\<open>math.Round\<close>: half away from zero.\<close>

definition math_round :: "rat \<Rightarrow> int" where
  "math_round x = (if x < 0 then - \<lfloor>- x + 1 / 2\<rfloor> else \<lfloor>x + 1 / 2\<rfloor>)"

lemma math_round_int [simp]: "math_round (of_int n) = n"
proof -
  have *: "\<lfloor>rat_of_int m + 1 / 2\<rfloor> = m" for m by (simp add: floor_eq_iff)
  from * [of n] * [of "- n"] show ?thesis by (simp add: math_round_def)
qed

lemma round_even_err: "\<bar>of_int (round_even x) - x\<bar> \<le> 1 / 2"
proof -
  have "of_int \<lfloor>x\<rfloor> \<le> x" "x < of_int \<lfloor>x\<rfloor> + 1" by linarith+
  then show ?thesis by (auto simp: round_even_def Let_def abs_le_iff)
qed

lemma round_even_int [simp]: "round_even (of_int n) = n"
  by (simp add: round_even_def)

lemma float_exp_bounds:
  assumes "0 < x"
  shows "2 powi float_exp x \<le> x" "x < 2 powi (float_exp x + 1)"
proof -
  obtain n d where q: "quotient_of x = (n, d)" by (cases "quotient_of x")
  have d: "0 < d" using quotient_of_denom_pos [OF q] .
  have x: "x = of_int n / of_int d" using quotient_of_div [OF q] .
  with assms d have n: "0 < n" by (simp add: zero_less_divide_iff)
  have pw: "(of_int (2 ^ nat k) :: rat) = 2 powi k" if "0 \<le> k" for k using that by (simp add: power_int_def)
  have b1: "1 \<le> bitlen n" "1 \<le> bitlen d"
    using n d bitlen_nonneg [of n] bitlen_nonneg [of d] bitlen_eq_zero_iff [of n] bitlen_eq_zero_iff [of d] by linarith+
  have "of_int (2 ^ nat (bitlen n - 1)) \<le> rat_of_int n" "rat_of_int n < of_int (2 ^ nat (bitlen n))"
       "of_int (2 ^ nat (bitlen d - 1)) \<le> rat_of_int d" "rat_of_int d < of_int (2 ^ nat (bitlen d))"
    using bitlen_bounds [OF n] bitlen_bounds [OF d] by (simp_all only: of_int_le_iff of_int_less_iff)
  then have n2: "2 powi (bitlen n - 1) \<le> rat_of_int n" "rat_of_int n < 2 powi bitlen n"
    and d2: "2 powi (bitlen d - 1) \<le> rat_of_int d" "rat_of_int d < 2 powi bitlen d"
    using b1 pw [of "bitlen n - 1"] pw [of "bitlen n"] pw [of "bitlen d - 1"] pw [of "bitlen d"] by linarith+
  let ?b = "bitlen n - bitlen d"
  have "2 powi (?b - 1) * rat_of_int d \<le> 2 powi (?b - 1) * 2 powi bitlen d"
    by (rule mult_left_mono) (use d2 in simp_all)
  also have "\<dots> = 2 powi (bitlen n - 1)" by (simp flip: power_int_add)
  also have "\<dots> \<le> rat_of_int n" by (rule n2)
  finally have lo: "2 powi (?b - 1) \<le> x" using d by (simp add: x field_simps)
  have "rat_of_int n < 2 powi bitlen n" by (rule n2)
  also have "\<dots> = 2 powi (?b + 1) * 2 powi (bitlen d - 1)" by (simp flip: power_int_add)
  also have "\<dots> \<le> 2 powi (?b + 1) * rat_of_int d" by (rule mult_left_mono) (use d2 in simp_all)
  finally have hi: "x < 2 powi (?b + 1)" using d by (simp add: x field_simps)
  show "2 powi float_exp x \<le> x" "x < 2 powi (float_exp x + 1)"
    using lo hi by (auto simp: float_exp_def q Let_def)
qed

lemma fl_error: "\<bar>fl x - x\<bar> \<le> \<bar>x\<bar> / 2 ^ 53"
proof (cases "x = 0")
  case False
  define q :: rat where "q = 2 powi (float_exp \<bar>x\<bar> - 52)"
  have q: "0 < q" by (simp add: q_def)
  have "fl x - x = (of_int (round_even (x / q)) - x / q) * q"
    using False q by (simp add: fl_def Let_def algebra_simps flip: q_def)
  then have "\<bar>fl x - x\<bar> = \<bar>of_int (round_even (x / q)) - x / q\<bar> * q" using q by (simp add: abs_mult)
  also have "\<dots> \<le> 1 / 2 * q" by (rule mult_right_mono [OF round_even_err]) (use q in simp)
  also have "\<dots> = 2 powi float_exp \<bar>x\<bar> / 2 ^ 53" by (simp add: q_def power_int_diff)
  also have "\<dots> \<le> \<bar>x\<bar> / 2 ^ 53" using float_exp_bounds(1) [of "\<bar>x\<bar>"] False by (simp add: divide_right_mono)
  finally show ?thesis .
qed (simp add: fl_def)

lemma fl_int:
  assumes "\<bar>n\<bar> < 2 ^ 53"
  shows "fl (of_int n) = of_int n"
proof (cases "n = 0")
  case False
  define e where "e = float_exp \<bar>of_int n :: rat\<bar>"
  have "2 powi e \<le> \<bar>of_int n :: rat\<bar>" using float_exp_bounds(1) [of "\<bar>of_int n\<bar>"] False by (simp add: e_def)
  also have "\<dots> < of_int (2 ^ 53)" using assms by (simp only: flip: of_int_abs of_int_less_iff)
  also have "\<dots> = 2 powi 53" by simp
  finally have "e < 53" using power_int_increasing [of 53 e "2 :: rat"] by (cases "e < 53") simp_all
  then have k: "0 \<le> 52 - e" by simp
  define q :: rat where "q = 2 powi (e - 52)"
  have p: "2 powi (52 - e) = rat_of_int (2 ^ nat (52 - e))" using k by (simp add: power_int_def)
  have "q * 2 powi (52 - e) = 1" using power_int_add [of "2 :: rat" "e - 52" "52 - e"] by (simp add: q_def)
  then have "inverse q = 2 powi (52 - e)" by (rule inverse_unique)
  then have "of_int n / q = of_int (n * 2 ^ nat (52 - e))" by (simp only: divide_inverse p of_int_mult)
  then have "of_int (round_even (of_int n / q)) * q = of_int n / q * q" by (simp only: round_even_int)
  also have "\<dots> = of_int n" by (simp add: q_def)
  finally show ?thesis using False by (simp add: fl_def Let_def flip: e_def q_def)
qed (simp add: fl_def)

lemma fl_zero [simp]: "fl 0 = 0"
  by (simp add: fl_def)

locale rounding =
  fixes rd :: "rat \<Rightarrow> rat"
  assumes rd_int: "\<bar>n\<bar> < 2 ^ 53 \<Longrightarrow> rd (of_int n) = of_int n"
    and rd_error: "\<bar>rd x - x\<bar> \<le> \<bar>x\<bar> / 2 ^ 53"
begin

lemma rd_zero: "rd 0 = 0"
  using rd_int [of 0] by simp

lemma rd_close:
  assumes "\<bar>x\<bar> \<le> B"
  shows "\<bar>rd x - x\<bar> \<le> B / 2 ^ 53"
  by (rule order_trans [OF rd_error divide_right_mono [OF assms]]) simp

text \<open>A sum of a rounded term and an integer, rounded again.\<close>

lemma rd_shift:
  assumes "\<bar>x\<bar> \<le> B" "\<bar>x + of_int n\<bar> \<le> B" "0 \<le> B"
  shows "\<bar>rd (rd x + of_int n) - (x + of_int n)\<bar> \<le> 3 * B / 2 ^ 53"
proof -
  have 1: "\<bar>rd x - x\<bar> \<le> B / 2 ^ 53" by (rule rd_close [OF assms(1)])
  then have "\<bar>rd x + of_int n\<bar> \<le> B + B / 2 ^ 53" using assms(2) by linarith
  also have "\<dots> \<le> 2 * B" using assms(3) by (simp add: field_simps)
  finally have 2: "\<bar>rd (rd x + of_int n) - (rd x + of_int n)\<bar> \<le> 2 * B / 2 ^ 53" by (rule rd_close)
  have "2 * B / 2 ^ 53 + B / 2 ^ 53 = 3 * B / 2 ^ 53" by simp
  with 1 2 show ?thesis by linarith
qed

text \<open>A comparison of rounded values decides the comparison of the exact ones up to the error.\<close>

lemma rd_quotient_below:
  assumes "\<bar>d - of_int g / 60\<bar> \<le> 1 / 2 ^ 40" "rd (60 / of_int r) \<le> d" "1 \<le> r" "r < 3600"
  shows "3600 \<le> g * r"
proof -
  have r: "1 \<le> rat_of_int r" "rat_of_int r < 3600" using assms(3,4) by simp_all
  have "\<bar>rd (60 / of_int r) - 60 / of_int r\<bar> \<le> 60 / 2 ^ 53" by (rule rd_close) (use r in \<open>simp add: field_simps\<close>)
  with assms(1,2) have "60 / of_int r - 60 / 2 ^ 53 - 1 / 2 ^ 40 \<le> of_int g / (60 :: rat)" by linarith
  then have "60 / of_int r - 1 / 2 ^ 39 \<le> of_int g / (60 :: rat)" by simp
  then have "(60 / of_int r - 1 / 2 ^ 39) * (60 * of_int r) \<le> of_int g / 60 * (60 * rat_of_int r)"
    by (rule mult_right_mono) (use r in simp)
  then have "3600 - 60 * of_int r / 2 ^ 39 \<le> rat_of_int g * of_int r" using r by (simp add: left_diff_distrib)
  moreover have "60 * rat_of_int r / 2 ^ 39 < 1" using r by simp
  ultimately have "rat_of_int 3599 < of_int (g * r)" by (simp del: of_int_less_iff)
  then show ?thesis by (simp only: of_int_less_iff)
qed

end

interpretation fl: rounding fl
  by unfold_locales (fact fl_int, fact fl_error)

end
