(* ===== verification/Cdm_Clock.thy ===== *)
theory Cdm_Clock
  imports Go_Format Go_Float
begin

text \<open>
  The clock arithmetic of the CDM (\<^verbatim>\<open>backend/internal/cdm/time_math.go\<close>): wall-clock values are the
  strings \<^verbatim>\<open>HHMM\<close> or \<^verbatim>\<open>HHMMSS\<close>, differences are \<^verbatim>\<open>float64\<close> minutes on the shorter way around
  the day. Nothing in the code keeps a date.

  The lemmas relate the strings to seconds of the day: \<open>parseClock\<close> reads back what \<open>formatClock\<close>
  prints, \<open>minuteOffset\<close> adds modulo a day, and \<open>minutesBetween\<close>, although computed in floating
  point, orders clock values exactly as the shorter way \<open>clock_gap\<close> in whole seconds does.
\<close>

section \<open>Definitions\<close>

definition dayMinutes :: int where "dayMinutes = 24 * 60"

abbreviation day_seconds :: int where "day_seconds \<equiv> 86400"

definition toHHMMSS :: "string \<Rightarrow> string" where
  "toHHMMSS hhmm = (let v = trim_space hhmm in if length v = 4 then v @ ''00'' else v)"

definition is_digit :: "char \<Rightarrow> bool" where
  "is_digit c \<longleftrightarrow> 48 \<le> (of_char c :: int) \<and> (of_char c :: int) < 58"

text \<open>\<^verbatim>\<open>strconv.Atoi\<close>: an optional sign, then digits, within the range of a 64-bit integer.\<close>

fun split_sign :: "string \<Rightarrow> bool \<times> string" where
  "split_sign [] = (False, [])"
| "split_sign (c # cs) = (if c = CHR ''-'' then (True, cs) else if c = CHR ''+'' then (False, cs) else (False, c # cs))"

definition atoi :: "string \<Rightarrow> int option" where
  "atoi s = (case split_sign s of (neg, ds) \<Rightarrow>
     if ds = [] \<or> \<not> list_all is_digit ds then None
     else (let v = (if neg then - read_decimal ds else read_decimal ds) in
       if - (2 ^ 63) \<le> v \<and> v < 2 ^ 63 then Some v else None))"

definition parseClock :: "string \<Rightarrow> int option" where
  "parseClock value =
     (let v = toHHMMSS value in
      if length v \<noteq> 6 then None
      else (case atoi (take 2 v) of None \<Rightarrow> None
        | Some hh \<Rightarrow> (case atoi (take 2 (drop 2 v)) of None \<Rightarrow> None
          | Some mm \<Rightarrow> (case atoi (take 2 (drop 4 v)) of None \<Rightarrow> None
            | Some ss \<Rightarrow>
                (if hh < 0 \<or> 23 < hh \<or> mm < 0 \<or> 59 < mm \<or> ss < 0 \<or> 59 < ss then None
                 else Some (hh * 3600 + mm * 60 + ss))))))"

text \<open>\<^verbatim>\<open>%02d\<close>, the sign counting towards the width.\<close>

definition sprintf_02d :: "int \<Rightarrow> string" where
  "sprintf_02d n = (if n < 0 then CHR ''-'' # pad_num 1 (- n) else pad_num 2 n)"

definition formatClock :: "int \<Rightarrow> string" where
  "formatClock totalSeconds =
     sprintf_02d (go_quot totalSeconds 3600) @ sprintf_02d (go_quot (go_rem totalSeconds 3600) 60) @
     sprintf_02d (go_rem totalSeconds 60)"

definition minuteOffset :: "string \<Rightarrow> rat \<Rightarrow> string" where
  "minuteOffset hhmmss minutes =
     (case parseClock hhmmss of None \<Rightarrow> hhmmss
      | Some base \<Rightarrow>
          (let seconds = math_round (fl (minutes * 60));
               result = go_rem (base + seconds) (dayMinutes * 60) in
           formatClock (if result < 0 then result + dayMinutes * 60 else result)))"

definition addMinutes :: "string \<Rightarrow> rat \<Rightarrow> string" where
  "addMinutes hhmmss minutes = minuteOffset hhmmss minutes"

definition subtractMinutes :: "string \<Rightarrow> rat \<Rightarrow> string" where
  "subtractMinutes hhmmss minutes = minuteOffset hhmmss (- minutes)"

text \<open>\<^verbatim>\<open>float64(n)\<close> for an integer.\<close>

definition float64 :: "int \<Rightarrow> rat" where
  "float64 n = fl (of_int n)"

definition minutesBetween :: "string \<Rightarrow> string \<Rightarrow> rat" where
  "minutesBetween fr to' =
     (case (parseClock fr, parseClock to') of
        (Some fromSec, Some toSec) \<Rightarrow>
          (let diff = fl (float64 (toSec - fromSec) / 60);
               diff = (if diff \<le> - 720 then fl (diff + 1440) else diff) in
           if 720 < diff then fl (diff - 1440) else diff)
      | _ \<Rightarrow> 0)"

definition isAfterOrEqual :: "string \<Rightarrow> string \<Rightarrow> bool" where
  "isAfterOrEqual a b \<longleftrightarrow> 0 \<le> minutesBetween b a"

definition isMoreThanMinutesPast :: "string \<Rightarrow> string \<Rightarrow> rat \<Rightarrow> bool" where
  "isMoreThanMinutesPast value reference threshold \<longleftrightarrow> threshold < minutesBetween value reference"

definition tobtTsatWindow :: "string \<Rightarrow> string \<Rightarrow> rat option" where
  "tobtTsatWindow tobt tsat =
     (if parseClock tobt = None \<or> parseClock tsat = None then None else Some (minutesBetween tsat tobt))"

definition clockSortKey :: "string \<Rightarrow> gotime \<Rightarrow> int option" where
  "clockSortKey value anchor =
     (case parseClock value of None \<Rightarrow> None
      | Some seconds \<Rightarrow>
          (let offset = seconds - utc_seconds_of_day anchor;
               offset = (if offset \<le> - (12 * 3600) then offset + dayMinutes * 60 else offset) in
           Some (if 12 * 3600 < offset then offset - dayMinutes * 60 else offset)))"

definition compareClockForSort :: "string \<Rightarrow> string \<Rightarrow> gotime \<Rightarrow> int" where
  "compareClockForSort left right anchor =
     (case (clockSortKey left anchor, clockSortKey right anchor) of
        (None, None) \<Rightarrow> 0
      | (None, Some _) \<Rightarrow> 1
      | (Some _, None) \<Rightarrow> - 1
      | (Some l, Some r) \<Rightarrow> if l < r then - 1 else if r < l then 1 else 0)"

text \<open>\<^verbatim>\<open>now.UTC().Format("150405")\<close>\<close>

definition timeToClock :: "gotime \<Rightarrow> string" where
  "timeToClock now =
     (let s = utc_seconds_of_day now in two_digits (s div 3600) @ two_digits (s div 60 mod 60) @ two_digits (s mod 60))"

definition normalizeCalculationClock :: "string \<Rightarrow> string" where
  "normalizeCalculationClock value = trim_space value"

section \<open>Clock strings and seconds of the day\<close>

definition plain_clock :: "string \<Rightarrow> bool" where
  "plain_clock v \<longleftrightarrow> list_all is_digit (toHHMMSS v)"

lemma digit_char_is_digit: "0 \<le> d \<Longrightarrow> d < 10 \<Longrightarrow> is_digit (digit_char d)"
  by (simp add: is_digit_def of_char_digit)

lemma digit_of_is_digit:
  assumes "is_digit c"
  obtains d where "0 \<le> d" "d < 10" "c = digit_char d"
proof
  show "0 \<le> (of_char c :: int) - 48" "(of_char c :: int) - 48 < 10" using assms by (auto simp: is_digit_def)
  show "c = digit_char (of_char c - 48)" by (simp add: digit_char_def)
qed

lemma atoi_two_digits:
  assumes "0 \<le> n" "n < 100"
  shows "atoi (two_digits n) = Some n"
proof -
  have d: "0 \<le> n div 10" "n div 10 < 10" "0 \<le> n mod 10" "n mod 10 < 10" using assms by auto
  have "digit_char (n div 10) \<noteq> CHR ''-''" "digit_char (n div 10) \<noteq> CHR ''+''"
    using digit_char_is_digit [OF d(1,2)] by (auto simp: is_digit_def)
  then show ?thesis
    using d assms by (simp add: atoi_def two_digits_def digit_char_is_digit read_decimal_def of_char_digit)
qed

lemma atoi_digits2:
  assumes "is_digit a" "is_digit b"
  obtains n where "0 \<le> n" "n < 100" "[a, b] = two_digits n" "atoi [a, b] = Some n"
proof -
  obtain x y where xy: "0 \<le> x" "x < 10" "a = digit_char x" "0 \<le> y" "y < 10" "b = digit_char y"
    using assms by (metis digit_of_is_digit)
  then have "[a, b] = two_digits (10 * x + y)" by (simp add: two_digits_def)
  with xy that [of "10 * x + y"] atoi_two_digits [of "10 * x + y"] show ?thesis by simp
qed

lemma sprintf_02d_two_digits: "0 \<le> n \<Longrightarrow> n < 100 \<Longrightarrow> sprintf_02d n = two_digits n"
  by (simp add: sprintf_02d_def pad_num_two_digits)

lemma two_digits_digits: "0 \<le> n \<Longrightarrow> n < 100 \<Longrightarrow> list_all is_digit (two_digits n)"
  by (simp add: two_digits_def digit_char_is_digit)

lemma length_two_digits [simp]: "length (two_digits n) = 2"
  by (simp add: two_digits_def)

lemma strip_space_digit:
  assumes "list_all (\<lambda>w. w = [] \<or> \<not> is_digit (hd w)) ws" "s = [] \<or> is_digit (hd s)"
  shows "strip_space ws s = None"
proof -
  have "\<not> (w \<noteq> [] \<and> take (length w) s = w)" if "w \<in> set ws" for w
  proof
    assume w: "w \<noteq> [] \<and> take (length w) s = w"
    then have "s \<noteq> []" "hd s = hd w" by (cases s; cases w; auto)+
    with assms that w show False by (auto simp: list_all_iff)
  qed
  then have "find (\<lambda>w. w \<noteq> [] \<and> take (length w) s = w) ws = None" by (auto simp: find_None_iff)
  then show ?thesis by (simp add: strip_space_def)
qed

lemma trim_space_digits:
  assumes "list_all is_digit s"
  shows "trim_space s = s"
proof -
  have "list_all (\<lambda>w. w = [] \<or> \<not> is_digit (hd w)) go_spaces" "list_all (\<lambda>w. w = [] \<or> \<not> is_digit (hd w)) (map rev go_spaces)"
    by code_simp+
  moreover have "s = [] \<or> is_digit (hd s)" "rev s = [] \<or> is_digit (hd (rev s))"
    using assms by (cases s; simp; fail) (metis assms hd_in_set list_all_iff set_rev)
  ultimately have "strip_space go_spaces s = None" "strip_space (map rev go_spaces) (rev s) = None"
    by (simp_all only: strip_space_digit)
  then show ?thesis by (simp add: trim_space_def trim_with_id)
qed

lemma toHHMMSS_trim [simp]: "toHHMMSS (trim_space v) = toHHMMSS v"
  by (simp add: toHHMMSS_def)

lemma parseClock_trim [simp]: "parseClock (trim_space v) = parseClock v"
  by (simp add: parseClock_def)

definition clock_text :: "int \<Rightarrow> string" where
  "clock_text s = two_digits (s div 3600) @ two_digits (s div 60 mod 60) @ two_digits (s mod 60)"

lemma clock_parts:
  fixes s :: int
  assumes "0 \<le> s" "s < day_seconds"
  shows "0 \<le> s div 3600" "s div 3600 < 24" "0 \<le> s div 60 mod 60" "s div 60 mod 60 < 60" "0 \<le> s mod 60" "s mod 60 < 60"
    "s = (s div 3600) * 3600 + (s div 60 mod 60) * 60 + s mod 60"
proof -
  have "s div 3600 = s div 60 div 60" using zdiv_zmult2_eq [of 60 s 60] by simp
  moreover have "s = s div 60 * 60 + s mod 60" "s div 60 = s div 60 div 60 * 60 + s div 60 mod 60" by simp_all
  ultimately show "s = (s div 3600) * 3600 + (s div 60 mod 60) * 60 + s mod 60" by linarith
qed (use assms in simp_all)

lemma clock_parts_unique:
  fixes h m t :: int
  assumes "0 \<le> m" "m < 60" "0 \<le> t" "t < 60" "s = h * 3600 + m * 60 + t"
  shows "s div 3600 = h" "s div 60 mod 60 = m" "s mod 60 = t"
proof -
  have "s = 60 * (h * 60 + m) + t" using assms(5) by simp
  then have s: "s div 60 = 60 * h + m" "s mod 60 = t"
    using assms(3,4) by (simp_all only: div_mult_self4 mod_mult_self4 mod_mult_self2_is_0 div_pos_pos_trivial mod_pos_pos_trivial)
  with assms(1,2) show "s div 60 mod 60 = m" "s mod 60 = t" by simp_all
  have "s div 3600 = s div 60 div 60" using zdiv_zmult2_eq [of 60 s 60] by simp
  with s assms(1,2) show "s div 3600 = h" by simp
qed

lemma formatClock_parts:
  assumes "0 \<le> h" "h < 24" "0 \<le> m" "m < 60" "0 \<le> t" "t < 60"
  shows "formatClock (h * 3600 + m * 60 + t) = two_digits h @ two_digits m @ two_digits t"
proof -
  let ?s = "h * 3600 + m * 60 + t"
  have s: "0 \<le> ?s" "?s div 3600 = h" "?s mod 60 = t" "?s mod 3600 = 60 * m + t"
    using assms clock_parts_unique [of m t ?s h] by (simp_all add: minus_div_mult_eq_mod [symmetric, of ?s 3600])
  moreover have "(60 * m + t) div 60 = m" using assms by simp
  ultimately show ?thesis
    using assms by (simp only: formatClock_def go_quot_nonneg go_rem_nonneg zero_less_numeral)
      (simp add: go_quot_nonneg sprintf_02d_two_digits)
qed

lemma formatClock_text:
  assumes "0 \<le> s" "s < day_seconds"
  shows "formatClock s = clock_text s"
  using formatClock_parts [OF clock_parts(1-6) [OF assms]] clock_parts(7) [OF assms] by (simp only: clock_text_def)

lemma timeToClock_text: "timeToClock now = clock_text (utc_seconds_of_day now)"
  by (simp add: timeToClock_def clock_text_def Let_def)

lemma clock_text_digits: "0 \<le> s \<Longrightarrow> s < day_seconds \<Longrightarrow> list_all is_digit (clock_text s)"
  using clock_parts [of s] by (simp add: clock_text_def two_digits_digits)

lemma length_clock_text [simp]: "length (clock_text s) = 6"
  by (simp add: clock_text_def)

lemma toHHMMSS_clock_text: "0 \<le> s \<Longrightarrow> s < day_seconds \<Longrightarrow> toHHMMSS (clock_text s) = clock_text s"
  by (simp add: toHHMMSS_def trim_space_digits clock_text_digits)

lemma parseClock_parts:
  assumes "0 \<le> h" "h < 24" "0 \<le> m" "m < 60" "0 \<le> t" "t < 60"
  shows "parseClock (two_digits h @ two_digits m @ two_digits t) = Some (h * 3600 + m * 60 + t)"
proof -
  have "toHHMMSS (two_digits h @ two_digits m @ two_digits t) = two_digits h @ two_digits m @ two_digits t"
    using assms by (simp add: toHHMMSS_def trim_space_digits two_digits_digits)
  then show ?thesis using assms by (simp add: parseClock_def atoi_two_digits)
qed

lemma parseClock_clock_text:
  assumes "0 \<le> s" "s < day_seconds"
  shows "parseClock (clock_text s) = Some s"
  using parseClock_parts [OF clock_parts(1-6) [OF assms]] clock_parts(7) [OF assms] by (simp only: clock_text_def)

lemma parseClock_range: "parseClock v = Some s \<Longrightarrow> 0 \<le> s \<and> s < day_seconds"
  by (auto simp: parseClock_def Let_def split: if_splits option.splits)

lemma list6_cases:
  assumes "length v = 6"
  obtains a b c d e f where "v = [a, b, c, d, e, f]"
  using assms by (auto simp: numeral_eq_Suc length_Suc_conv)

lemma plain_clock_text:
  assumes "parseClock v = Some s" "plain_clock v"
  shows "toHHMMSS v = clock_text s"
proof -
  have "length (toHHMMSS v) = 6" using assms(1) by (auto simp: parseClock_def Let_def split: if_splits)
  then obtain a b c d e f where v: "toHHMMSS v = [a, b, c, d, e, f]" by (rule list6_cases)
  then have "is_digit a" "is_digit b" "is_digit c" "is_digit d" "is_digit e" "is_digit f"
    using assms(2) by (simp_all add: plain_clock_def)
  then obtain h m t where "[a, b] = two_digits h" "atoi [a, b] = Some h" "[c, d] = two_digits m" "atoi [c, d] = Some m"
      "[e, f] = two_digits t" "atoi [e, f] = Some t" by (metis atoi_digits2)
  moreover from this assms(1) have "0 \<le> h" "h \<le> 23" "0 \<le> m" "m \<le> 59" "0 \<le> t" "t \<le> 59" "s = h * 3600 + m * 60 + t"
    by (simp_all add: parseClock_def v split: if_splits)
  moreover from this have "s div 3600 = h" "s div 60 mod 60 = m" "s mod 60 = t" by (simp_all add: clock_parts_unique)
  ultimately show ?thesis by (simp add: v clock_text_def)
qed

lemma plain_clock_parsed: "0 \<le> s \<Longrightarrow> s < day_seconds \<Longrightarrow> plain_clock (clock_text s)"
  by (simp add: plain_clock_def toHHMMSS_clock_text clock_text_digits)

lemma minuteOffset_text:
  assumes "parseClock v = Some s"
  shows "minuteOffset v m = clock_text ((s + math_round (fl (m * 60))) mod day_seconds)"
proof -
  let ?x = "s + math_round (fl (m * 60))"
  have "dayMinutes * 60 = day_seconds" by (simp add: dayMinutes_def)
  then show ?thesis
    by (simp only: minuteOffset_def assms Let_def option.case go_rem_wrap) (simp add: go_rem_wrap formatClock_text)
qed

lemma minuteOffset_bad: "parseClock v = None \<Longrightarrow> minuteOffset v m = v"
  by (simp add: minuteOffset_def)

section \<open>Differences in floating point and in seconds\<close>

text \<open>The shorter way from one second of the day to another, forward half a day at the tie.\<close>

definition clock_gap :: "int \<Rightarrow> int \<Rightarrow> int" where
  "clock_gap a b = (let d = b - a in if d \<le> - 43200 then d + day_seconds else if 43200 < d then d - day_seconds else d)"

definition minutes_close :: "rat \<Rightarrow> int \<Rightarrow> bool" where
  "minutes_close x g \<longleftrightarrow> \<bar>x - of_int g / 60\<bar> \<le> 1 / 2 ^ 40 \<and> (60 dvd g \<longrightarrow> x = of_int g / 60)"

lemma minutes_close_less:
  assumes "minutes_close x g"
  shows "of_int n < x \<longleftrightarrow> 60 * n < g" "x < of_int n \<longleftrightarrow> g < 60 * n"
proof -
  have close: "\<bar>x - of_int g / 60\<bar> \<le> 1 / 2 ^ 40" using assms by (simp only: minutes_close_def)
  have "of_int n < x \<longleftrightarrow> 60 * n < g \<and> True" "x < of_int n \<longleftrightarrow> g < 60 * n \<and> True" if "g = 60 * n"
    using assms that by (simp_all add: minutes_close_def)
  moreover have "of_int n < x \<and> \<not> x < of_int n" if "60 * n < g"
  proof -
    have "rat_of_int (60 * n + 1) \<le> of_int g" using that by (subst of_int_le_iff) simp
    then have "of_int n + 1 / 60 \<le> rat_of_int g / 60" by (simp add: field_simps)
    moreover have "rat_of_int g / 60 - x \<le> 1 / 2 ^ 40" using close by linarith
    moreover have "(1 :: rat) / 2 ^ 40 < 1 / 60" by simp
    ultimately have "of_int n < x" by linarith
    then show ?thesis by simp
  qed
  moreover have "\<not> of_int n < x \<and> x < of_int n" if "g < 60 * n"
  proof -
    have "rat_of_int (g + 1) \<le> of_int (60 * n)" using that by (subst of_int_le_iff) simp
    then have "rat_of_int g / 60 \<le> of_int n - 1 / 60" by (simp add: field_simps)
    moreover have "x - rat_of_int g / 60 \<le> 1 / 2 ^ 40" using close by linarith
    moreover have "(1 :: rat) / 2 ^ 40 < 1 / 60" by simp
    ultimately have "x < of_int n" by linarith
    then show ?thesis by simp
  qed
  ultimately show "of_int n < x \<longleftrightarrow> 60 * n < g" "x < of_int n \<longleftrightarrow> g < 60 * n"
    by (cases g "60 * n" rule: linorder_cases; simp)+
qed

lemma minutes_close_div:
  assumes "\<bar>k\<bar> \<le> day_seconds"
  shows "minutes_close (fl (float64 k / 60)) k"
proof -
  have k: "float64 k = of_int k" using assms by (simp add: float64_def fl_int)
  have "\<bar>rat_of_int k\<bar> \<le> of_int day_seconds" using assms by (simp only: flip: of_int_abs)
  then have "\<bar>rat_of_int k / 60\<bar> \<le> 1440" by simp
  from fl.rd_close [OF this] have "\<bar>fl (of_int k / 60) - of_int k / 60\<bar> \<le> 1 / 2 ^ 40" by simp
  moreover have "fl (of_int k / 60) = of_int k / 60" if "60 dvd k"
  proof -
    from that obtain m where m: "k = 60 * m" by blast
    with assms have "\<bar>m\<bar> < 2 ^ 53" by simp
    from fl_int [OF this] show ?thesis by (simp add: m)
  qed
  ultimately show ?thesis by (simp add: minutes_close_def k)
qed

lemma minutes_close_shift:
  assumes "\<bar>k\<bar> \<le> day_seconds" "\<bar>k + 60 * n\<bar> \<le> day_seconds"
  shows "minutes_close (fl (fl (float64 k / 60) + of_int n)) (k + 60 * n)"
proof -
  have k: "float64 k = of_int k" using assms by (simp add: float64_def fl_int)
  have *: "rat_of_int (k + 60 * n) / 60 = of_int k / 60 + of_int n" by simp
  have "\<bar>rat_of_int k\<bar> \<le> of_int day_seconds" "\<bar>rat_of_int (k + 60 * n)\<bar> \<le> of_int day_seconds"
    using assms by (simp_all only: flip: of_int_abs)
  then have "\<bar>rat_of_int k / 60\<bar> \<le> 1440" "\<bar>rat_of_int (k + 60 * n) / 60\<bar> \<le> 1440" by simp_all
  then have "\<bar>fl (fl (of_int k / 60) + of_int n) - (of_int k / 60 + of_int n)\<bar> \<le> 3 * 1440 / 2 ^ 53"
    unfolding * by (intro fl.rd_shift) simp_all
  then have "\<bar>fl (fl (of_int k / 60) + of_int n) - (of_int k / 60 + of_int n)\<bar> \<le> 1 / 2 ^ 40" by simp
  moreover have "fl (fl (of_int k / 60) + of_int n) = of_int k / 60 + of_int n" if d: "60 dvd k + 60 * n"
  proof -
    from d have "60 dvd k" by (simp add: dvd_add_left_iff)
    then obtain m where m: "k = 60 * m" by blast
    with assms have "\<bar>m\<bar> < 2 ^ 53" "\<bar>m + n\<bar> < 2 ^ 53" by simp_all
    then show ?thesis using fl_int [of m] fl_int [of "m + n"] by (simp add: m)
  qed
  ultimately show ?thesis unfolding minutes_close_def k * by blast
qed

lemma minutesBetween_close:
  assumes "parseClock a = Some s" "parseClock b = Some t"
  shows "minutes_close (minutesBetween a b) (clock_gap s t)"
proof -
  let ?k = "t - s" and ?x = "fl (float64 (t - s) / 60)"
  have r: "0 \<le> s" "s < day_seconds" "0 \<le> t" "t < day_seconds" using assms parseClock_range by blast+
  then have c: "minutes_close ?x ?k" by (intro minutes_close_div) simp
  note lt = minutes_close_less [OF c]
  consider (low) "?k \<le> - 43200" | (high) "43200 < ?k" | (mid) "- 43200 < ?k" "?k \<le> 43200" by linarith
  then show ?thesis
  proof cases
    case low
    have c': "minutes_close (fl (?x + 1440)) (?k + day_seconds)"
      using minutes_close_shift [of ?k 1440] r low by simp
    have "?x \<le> - 720" "\<not> 720 < fl (?x + 1440)"
      using lt(1) [of "- 720"] low minutes_close_less(1) [OF c', of 720] by (simp_all add: not_less [symmetric] del: not_less)
    then have "minutesBetween a b = fl (?x + 1440)" by (simp add: minutesBetween_def assms Let_def)
    with c' low show ?thesis by (simp add: clock_gap_def)
  next
    case high
    have c': "minutes_close (fl (?x - 1440)) (?k - day_seconds)"
      using minutes_close_shift [of ?k "- 1440"] r high by simp
    have "\<not> ?x \<le> - 720" "720 < ?x" using lt(1) [of "720"] lt(1) [of "- 720"] high by auto
    then have "minutesBetween a b = fl (?x - 1440)" by (simp add: minutesBetween_def assms Let_def)
    with c' high show ?thesis by (simp add: clock_gap_def)
  next
    case mid
    have "\<not> ?x \<le> - 720" "\<not> 720 < ?x" using lt(1) [of "720"] lt(1) [of "- 720"] mid by auto
    then have "minutesBetween a b = ?x" by (simp add: minutesBetween_def assms Let_def)
    with c mid show ?thesis by (simp add: clock_gap_def)
  qed
qed

lemma clock_gap_range: "0 \<le> a \<Longrightarrow> a < day_seconds \<Longrightarrow> 0 \<le> b \<Longrightarrow> b < day_seconds \<Longrightarrow> - 43200 < clock_gap a b \<and> clock_gap a b \<le> 43200"
  by (auto simp: clock_gap_def Let_def)

lemma clock_gap_zero: "0 \<le> a \<Longrightarrow> a < day_seconds \<Longrightarrow> 0 \<le> b \<Longrightarrow> b < day_seconds \<Longrightarrow> clock_gap a b = 0 \<longleftrightarrow> a = b"
  by (auto simp: clock_gap_def Let_def)

lemma clock_gap_mod: "clock_gap a b mod day_seconds = (b - a) mod day_seconds"
  by (simp add: clock_gap_def Let_def)

lemma isAfterOrEqual_iff:
  assumes "parseClock a = Some s" "parseClock b = Some t"
  shows "isAfterOrEqual a b \<longleftrightarrow> 0 \<le> clock_gap t s"
  using minutes_close_less(2) [OF minutesBetween_close [OF assms(2,1)], of 0]
  by (simp add: isAfterOrEqual_def not_less [symmetric])

lemma isMoreThanMinutesPast_iff:
  assumes "parseClock a = Some s" "parseClock b = Some t"
  shows "isMoreThanMinutesPast a b (of_int n) \<longleftrightarrow> 60 * n < clock_gap s t"
  using minutes_close_less(1) [OF minutesBetween_close [OF assms]] by (simp add: isMoreThanMinutesPast_def)

text \<open>
  C30. A clock value survives printing and parsing: every second of the day is printed as six digits
  that are read back as the same second, and a clock written in digits is printed again as it was.
\<close>

theorem clock_roundtrip:
  assumes "0 \<le> s" "s < 86400" "parseClock v = Some t" "plain_clock v"
  shows "length (formatClock s) = 6 \<and> list_all is_digit (formatClock s) \<and> parseClock (formatClock s) = Some s \<and>
    formatClock t = toHHMMSS v"
proof -
  have "0 \<le> t" "t < day_seconds" using parseClock_range [OF assms(3)] by simp_all
  then show ?thesis
    using assms(1,2) plain_clock_text [OF assms(3,4)] by (simp add: formatClock_text clock_text_digits parseClock_clock_text)
qed

theorem clock_roundtrip_witness:
  "length (formatClock 86399) = 6 \<and> list_all is_digit (formatClock 86399) \<and> parseClock (formatClock 86399) = Some 86399 \<and>
    formatClock 34200 = toHHMMSS ''0930''"
proof -
  have "parseClock ''0930'' = Some 34200" "plain_clock ''0930''" by code_simp+
  from clock_roundtrip [OF _ _ this, of 86399] show ?thesis by simp
qed

end
