(* ===== verification/Cdm_Config.thy ===== *)
theory Cdm_Config
  imports Cdm_Clock
begin

text \<open>
  The CDM airport configuration (\<^verbatim>\<open>backend/internal/cdm/config.go\<close>, \<^verbatim>\<open>adverse_conditions.go\<close>,
  \<^verbatim>\<open>deice_minutes.go\<close>, \<^verbatim>\<open>wake_spacing.go\<close>): departure rates per runway combination, SID intervals,
  taxi zones, published delays and wake separation.

  A nil \<^verbatim>\<open>*CdmAirportConfig\<close> is \<open>None\<close>. Point-in-polygon tests are made by the \<^verbatim>\<open>golang/geo/s2\<close>
  package, which is the parameter \<open>contains_point\<close> of the functions that look up a position.

  The lemmas: rates and taxi times are always positive, SID intervals and runway dependence are
  symmetric, and the wake table is positive for all known categories.
\<close>

section \<open>Data\<close>

definition DefaultCDMRate :: int where "DefaultCDMRate = 20"
definition DefaultCDMRateLVO :: int where "DefaultCDMRateLVO = 14"
definition DefaultCDMTaxiMinutes :: int where "DefaultCDMTaxiMinutes = 10"

record CdmRate =
  rt_Airport :: string
  rt_ArrRwyYes :: "string list"
  rt_ArrRwyNo :: "string list"
  rt_DepRwyYes :: "string list"
  rt_DepRwyNo :: "string list"
  rt_DependentRwy :: "string list"
  rt_Rates :: "string list"
  rt_RatesLvo :: "string list"

record CdmSidInterval =
  si_Airport :: string
  si_Runway :: string
  si_Sid1 :: string
  si_Sid2 :: string
  si_Value :: rat

text \<open>A coordinate can be any \<^verbatim>\<open>float64\<close>.\<close>

datatype coordinate = Finite rat | Infinite bool | NotANumber

record CdmTaxiPoint =
  tp_Lat :: coordinate
  tp_Lon :: coordinate

record CdmTaxiZone =
  tz_Airport :: string
  tz_Runway :: string
  tz_Minutes :: int
  tz_Polygon :: "CdmTaxiPoint list"
  tz_RemoteTaxiMinutes :: "int list"

record CdmDelay =
  dl_Airport :: string
  dl_Runway :: string
  dl_Time :: string
  dl_Type :: string

record CdmDeicePlatformConfig =
  dp_Name :: string
  dp_Time :: int

record CdmDeiceConfig =
  di_Light :: int
  di_Medium :: int
  di_Heavy :: int
  di_Super :: int
  di_Platform :: "CdmDeicePlatformConfig list"

record CdmAirportConfig =
  ac_Airport :: string
  ac_Rates :: "CdmRate list"
  ac_SidIntervals :: "CdmSidInterval list"
  ac_TaxiZones :: "CdmTaxiZone list"
  ac_Delays :: "CdmDelay list"
  ac_DefaultRate :: int
  ac_DefaultRateLvo :: int
  ac_DefaultTaxiMinutes :: int
  ac_LvoActive :: bool
  ac_ActiveArrivalRunways :: "string list"
  ac_ActiveDepartureRunways :: "string list"
  ac_DeiceConfig :: CdmDeiceConfig

text \<open>The active runways of a session; a slice that is nil is \<open>None\<close>.\<close>

record ActiveRunways =
  ar_ArrivalRunways :: "string list option"
  ar_DepartureRunways :: "string list option"

section \<open>Tokens, runways and SIDs\<close>

definition normalizeToken :: "string \<Rightarrow> string" where
  "normalizeToken value = to_upper (trim_space value)"

definition sameRunway :: "string \<Rightarrow> string \<Rightarrow> bool" where
  "sameRunway a b \<longleftrightarrow> equal_fold (trim_space a) (trim_space b)"

definition parsePositiveInt :: "string \<Rightarrow> int option" where
  "parsePositiveInt value =
     (case atoi (trim_space value) of None \<Rightarrow> None | Some parsed \<Rightarrow> if parsed \<le> 0 then None else Some parsed)"

definition sidVariants :: "string \<Rightarrow> string list" where
  "sidVariants value =
     (let trimmed = to_upper (trim_space value) in
      if trimmed = '''' then []
      else if 3 < length trimmed then [trimmed, take (length trimmed - 2) trimmed] else [trimmed])"

definition sameSID :: "string \<Rightarrow> string \<Rightarrow> bool" where
  "sameSID a b \<longleftrightarrow> list_ex (\<lambda>l. list_ex (\<lambda>r. l \<noteq> '''' \<and> l = r) (sidVariants b)) (sidVariants a)"

definition isWildcardList :: "string list \<Rightarrow> bool" where
  "isWildcardList values \<longleftrightarrow> list_ex (\<lambda>v. trim_space v = ''*'') values"

definition listMatchesActive :: "string list \<Rightarrow> string list \<Rightarrow> bool \<Rightarrow> bool" where
  "listMatchesActive configured active emptyIsMatch =
     (if configured = [] then emptyIsMatch
      else if isWildcardList configured then True
      else if active = [] then True
      else list_ex (\<lambda>c. list_ex (sameRunway c) active) configured)"

definition listExcludesActive :: "string list \<Rightarrow> string list \<Rightarrow> bool" where
  "listExcludesActive configured active =
     (if configured = [] \<or> isWildcardList configured \<or> active = [] then True
      else \<not> list_ex (\<lambda>c. list_ex (sameRunway c) active) configured)"

section \<open>Rates\<close>

definition depRwyMatches :: "CdmRate \<Rightarrow> string \<Rightarrow> bool" where
  "depRwyMatches r depRwy \<longleftrightarrow> list_ex (\<lambda>runway. runway = ''*'' \<or> equal_fold runway depRwy) (rt_DepRwyYes r)"

definition matches :: "CdmRate \<Rightarrow> string \<Rightarrow> string list \<Rightarrow> string list \<Rightarrow> bool" where
  "matches r depRwy activeArrivals activeDepartures \<longleftrightarrow>
     depRwyMatches r depRwy \<and>
     listMatchesActive (rt_ArrRwyYes r) activeArrivals True \<and>
     listExcludesActive (rt_ArrRwyNo r) activeArrivals \<and>
     listMatchesActive (rt_DepRwyYes r) activeDepartures True \<and>
     listExcludesActive (rt_DepRwyNo r) activeDepartures"

fun runway_index :: "string \<Rightarrow> nat \<Rightarrow> nat \<Rightarrow> string list \<Rightarrow> nat" where
  "runway_index depRwy values idx [] = 0"
| "runway_index depRwy values idx (runway # rest) =
     (if values \<le> idx then 0
      else if equal_fold runway depRwy then idx
      else runway_index depRwy values (Suc idx) rest)"

definition valueIndex :: "CdmRate \<Rightarrow> string \<Rightarrow> nat \<Rightarrow> nat" where
  "valueIndex r depRwy values = (if values \<le> 1 then 0 else runway_index depRwy values 0 (rt_DepRwyYes r))"

definition default_rate :: "CdmAirportConfig \<Rightarrow> int" where
  "default_rate c =
     (if ac_LvoActive c then (if ac_DefaultRateLvo c \<le> 0 then DefaultCDMRateLVO else ac_DefaultRateLvo c)
      else if ac_DefaultRate c \<le> 0 then DefaultCDMRate else ac_DefaultRate c)"

definition rate_value :: "CdmAirportConfig \<Rightarrow> CdmRate \<Rightarrow> string \<Rightarrow> int" where
  "rate_value c rate depRwy =
     (let values = (if ac_LvoActive c \<and> rt_RatesLvo rate \<noteq> [] then rt_RatesLvo rate else rt_Rates rate) in
      if values = [] then default_rate c
      else (case parsePositiveInt (values ! valueIndex rate depRwy (length values)) of
          Some parsed \<Rightarrow> parsed | None \<Rightarrow> default_rate c))"

definition RateForRunway :: "CdmAirportConfig option \<Rightarrow> string \<Rightarrow> int" where
  "RateForRunway config depRwy =
     (case config of None \<Rightarrow> DefaultCDMRate
      | Some c \<Rightarrow>
          (case find (\<lambda>rate. equal_fold (rt_Airport rate) (ac_Airport c) \<and>
                matches rate depRwy (ac_ActiveArrivalRunways c) (ac_ActiveDepartureRunways c)) (ac_Rates c) of
             None \<Rightarrow> default_rate c
           | Some rate \<Rightarrow> rate_value c rate depRwy))"

definition DependentRunways :: "CdmAirportConfig option \<Rightarrow> string \<Rightarrow> string list" where
  "DependentRunways config depRwy =
     (case config of None \<Rightarrow> []
      | Some c \<Rightarrow>
          (case find (\<lambda>rate. depRwyMatches rate depRwy) (ac_Rates c) of
             None \<Rightarrow> []
           | Some rate \<Rightarrow>
               if rt_DependentRwy rate = [] \<or> isWildcardList (rt_DependentRwy rate) then [] else rt_DependentRwy rate))"

definition SidIntervalMinutes :: "CdmAirportConfig option \<Rightarrow> string \<Rightarrow> string \<Rightarrow> string \<Rightarrow> rat" where
  "SidIntervalMinutes config depRwy sid1 sid2 =
     (case config of None \<Rightarrow> 0
      | Some c \<Rightarrow>
          (if sameSID sid1 sid2 then 0
           else (case find (\<lambda>i. equal_fold (si_Runway i) depRwy \<and>
                   (sameSID (si_Sid1 i) sid1 \<and> sameSID (si_Sid2 i) sid2 \<or>
                    sameSID (si_Sid1 i) sid2 \<and> sameSID (si_Sid2 i) sid1)) (ac_SidIntervals c) of
               None \<Rightarrow> 0 | Some i \<Rightarrow> si_Value i)))"

section \<open>Taxi times\<close>

definition TaxiMinutesForRunway :: "CdmAirportConfig option \<Rightarrow> string \<Rightarrow> int" where
  "TaxiMinutesForRunway config depRwy =
     (case config of None \<Rightarrow> DefaultCDMTaxiMinutes
      | Some c \<Rightarrow>
          (case find (\<lambda>z. equal_fold (tz_Runway z) depRwy \<and> 0 < tz_Minutes z) (ac_TaxiZones c) of
             Some z \<Rightarrow> tz_Minutes z
           | None \<Rightarrow> if 0 < ac_DefaultTaxiMinutes c then ac_DefaultTaxiMinutes c else DefaultCDMTaxiMinutes))"

fun is_finite :: "coordinate \<Rightarrow> bool" where
  "is_finite (Finite _) = True"
| "is_finite _ = False"

definition isUsableTaxiPosition :: "coordinate \<Rightarrow> coordinate \<Rightarrow> bool" where
  "isUsableTaxiPosition lat lon \<longleftrightarrow> is_finite lat \<and> is_finite lon \<and> (lat \<noteq> Finite 0 \<or> lon \<noteq> Finite 0)"

definition TaxiMinutesForPosition ::
    "(CdmTaxiPoint list \<Rightarrow> coordinate \<times> coordinate \<Rightarrow> bool) \<Rightarrow> CdmAirportConfig option \<Rightarrow> string \<Rightarrow> coordinate \<Rightarrow> coordinate \<Rightarrow> int option" where
  "TaxiMinutesForPosition contains_point config depRwy lat lon =
     (case config of None \<Rightarrow> None
      | Some c \<Rightarrow>
          (if \<not> isUsableTaxiPosition lat lon then None
           else map_option tz_Minutes (find (\<lambda>z. equal_fold (tz_Runway z) depRwy \<and> 0 < tz_Minutes z \<and>
             3 \<le> length (tz_Polygon z) \<and> contains_point (tz_Polygon z) (lat, lon)) (ac_TaxiZones c))))"

definition deiceTaxiMinutes :: "CdmTaxiZone \<Rightarrow> string \<Rightarrow> int option" where
  "deiceTaxiMinutes z platform =
     (let p = normalizeToken platform;
          index = (if p = ''A'' then Some 0 else if p = ''B'' then Some 1 else if p = ''V'' then Some 2 else None) in
      case index of None \<Rightarrow> None
      | Some i \<Rightarrow> if length (tz_RemoteTaxiMinutes z) \<le> i then None else Some (tz_RemoteTaxiMinutes z ! i))"

definition DeiceTaxiMinutesForPosition ::
    "(CdmTaxiPoint list \<Rightarrow> coordinate \<times> coordinate \<Rightarrow> bool) \<Rightarrow> CdmAirportConfig option \<Rightarrow> string \<Rightarrow> string \<Rightarrow> coordinate \<Rightarrow> coordinate \<Rightarrow> int option" where
  "DeiceTaxiMinutesForPosition contains_point config depRwy platform lat lon =
     (case config of None \<Rightarrow> None
      | Some c \<Rightarrow>
          (if \<not> isUsableTaxiPosition lat lon then None
           else (case find (\<lambda>z. equal_fold (tz_Runway z) depRwy \<and> 3 \<le> length (tz_Polygon z) \<and>
                   contains_point (tz_Polygon z) (lat, lon)) (ac_TaxiZones c) of
               None \<Rightarrow> None | Some z \<Rightarrow> deiceTaxiMinutes z platform)))"

definition DeiceTaxiMinutesForRunway :: "CdmAirportConfig option \<Rightarrow> string \<Rightarrow> string \<Rightarrow> int option" where
  "DeiceTaxiMinutesForRunway config depRwy platform =
     (case config of None \<Rightarrow> None
      | Some c \<Rightarrow> (case find (\<lambda>z. equal_fold (tz_Runway z) depRwy) (ac_TaxiZones c) of
          None \<Rightarrow> None | Some z \<Rightarrow> deiceTaxiMinutes z platform))"

definition DeiceMinutesForWtc :: "CdmAirportConfig option \<Rightarrow> string \<Rightarrow> int" where
  "DeiceMinutesForWtc config wtc =
     (case config of None \<Rightarrow> 0
      | Some c \<Rightarrow> (let w = to_upper (trim_space wtc); d = ac_DeiceConfig c in
          if w = ''L'' then di_Light d else if w = ''M'' then di_Medium d
          else if w = ''H'' then di_Heavy d else if w = ''J'' then di_Super d else 0))"

definition DeiceMinutesForPlatform :: "CdmAirportConfig option \<Rightarrow> string \<Rightarrow> int option" where
  "DeiceMinutesForPlatform config platform =
     (case config of None \<Rightarrow> None
      | Some c \<Rightarrow> map_option dp_Time (find (\<lambda>p. equal_fold (dp_Name p) platform) (di_Platform (ac_DeiceConfig c))))"

definition deiceTypeToMinutes :: "CdmAirportConfig option \<Rightarrow> string \<Rightarrow> int" where
  "deiceTypeToMinutes config deiceType =
     (let configured = DeiceMinutesForWtc config deiceType; w = to_upper (trim_space deiceType) in
      if 0 < configured then configured
      else if w = ''L'' then 7 else if w = ''M'' then 10 else if w = ''H'' then 13 else if w = ''J'' then 18 else 0)"

section \<open>Configuration snapshots\<close>

text \<open>A clone has the value of the original; the copies of the slices only separate the memory.\<close>

definition NewDefaultAirportConfig :: "string \<Rightarrow> CdmAirportConfig" where
  "NewDefaultAirportConfig airport =
     \<lparr> ac_Airport = normalizeToken airport, ac_Rates = [], ac_SidIntervals = [], ac_TaxiZones = [], ac_Delays = [],
       ac_DefaultRate = DefaultCDMRate, ac_DefaultRateLvo = DefaultCDMRateLVO, ac_DefaultTaxiMinutes = DefaultCDMTaxiMinutes,
       ac_LvoActive = False, ac_ActiveArrivalRunways = [], ac_ActiveDepartureRunways = [],
       ac_DeiceConfig = \<lparr> di_Light = 0, di_Medium = 0, di_Heavy = 0, di_Super = 0, di_Platform = [] \<rparr> \<rparr>"

definition Clone :: "CdmAirportConfig option \<Rightarrow> CdmAirportConfig option" where
  "Clone c = c"

definition SnapshotWithRunways :: "CdmAirportConfig option \<Rightarrow> string list \<Rightarrow> string list \<Rightarrow> CdmAirportConfig option" where
  "SnapshotWithRunways c arrivals departures =
     map_option (\<lambda>x. x\<lparr> ac_ActiveArrivalRunways := arrivals, ac_ActiveDepartureRunways := departures \<rparr>) (Clone c)"

definition WithActiveRunways :: "CdmAirportConfig option \<Rightarrow> ActiveRunways \<Rightarrow> CdmAirportConfig option" where
  "WithActiveRunways c active =
     (if ar_ArrivalRunways active = None \<and> ar_DepartureRunways active = None then Clone c
      else SnapshotWithRunways c (case ar_ArrivalRunways active of None \<Rightarrow> [] | Some a \<Rightarrow> a)
             (case ar_DepartureRunways active of None \<Rightarrow> [] | Some d \<Rightarrow> d))"

section \<open>Published delays\<close>

definition adverseDelayMaxLookAhead :: duration where
  "adverseDelayMaxLookAhead = 6 * hour"

definition day_start :: "gotime \<Rightarrow> int" where
  "day_start t = ns t - ns t mod (24 * hour)"

definition resolveDelayFloorTime :: "gotime \<Rightarrow> string \<Rightarrow> gotime option" where
  "resolveDelayFloorTime now value =
     (case parseClock (normalizeCalculationClock value) of None \<Rightarrow> None
      | Some totalSeconds \<Rightarrow>
          (if totalSeconds \<le> 0 then None
           else (let candidate = Time (day_start now + totalSeconds * second) UTC;
                     candidate = (if before candidate now then t_add candidate (24 * hour) else candidate) in
             if adverseDelayMaxLookAhead < t_sub candidate now then None else Some candidate)))"

definition delayMatchesAirport :: "string \<Rightarrow> string \<Rightarrow> bool" where
  "delayMatchesAirport delayAirport configAirport \<longleftrightarrow>
     normalizeToken delayAirport = '''' \<or> normalizeToken delayAirport = normalizeToken configAirport"

definition delayMatchesRunway :: "string \<Rightarrow> string \<Rightarrow> bool" where
  "delayMatchesRunway configured depRwy \<longleftrightarrow>
     trim_space configured = '''' \<or> trim_space configured = ''*'' \<or> sameRunway configured depRwy"

definition later_floor :: "CdmAirportConfig \<Rightarrow> string \<Rightarrow> gotime \<Rightarrow> CdmDelay \<Rightarrow> gotime \<Rightarrow> gotime" where
  "later_floor c depRwy now delay latest =
     (if \<not> delayMatchesAirport (dl_Airport delay) (ac_Airport c) \<or> \<not> delayMatchesRunway (dl_Runway delay) depRwy then latest
      else (case resolveDelayFloorTime now (dl_Time delay) of None \<Rightarrow> latest
        | Some bound \<Rightarrow> if is_zero latest \<or> after bound latest then bound else latest))"

definition DelayFloorForRunway :: "CdmAirportConfig option \<Rightarrow> string \<Rightarrow> gotime \<Rightarrow> string option" where
  "DelayFloorForRunway config depRwy now =
     (case config of None \<Rightarrow> None
      | Some c \<Rightarrow>
          (let latest = fold (later_floor c depRwy now) (ac_Delays c) zero_time in
           if is_zero latest then None else Some (timeToClock latest)))"

section \<open>Wake separation\<close>

definition normalizeWakeCategory :: "string \<Rightarrow> string" where
  "normalizeWakeCategory value =
     (let n = to_upper (trim_space value) in
      if n \<in> set [''L'', ''M'', ''H'', ''J''] then n else if n = ''S'' \<or> n = ''SUPER'' then ''J'' else '''')"

definition wakeSeparationMinutes :: "string \<Rightarrow> string \<Rightarrow> int" where
  "wakeSeparationMinutes trailing leading =
     (let tr = normalizeWakeCategory trailing; ld = normalizeWakeCategory leading in
      if tr = ''L'' then
        (if ld = ''L'' then 1 else if ld = ''M'' \<or> ld = ''H'' then 2 else if ld = ''J'' then 3 else 0)
      else if tr = ''M'' then
        (if ld = ''L'' \<or> ld = ''M'' then 1 else if ld = ''H'' then 2 else if ld = ''J'' then 3 else 0)
      else if tr = ''H'' then
        (if ld = ''L'' \<or> ld = ''M'' \<or> ld = ''H'' then 1 else if ld = ''J'' then 2 else 0)
      else if tr = ''J'' then
        (if ld = ''L'' \<or> ld = ''M'' \<or> ld = ''H'' \<or> ld = ''J'' then 1 else 0)
      else 0)"

section \<open>Lemmas\<close>

lemma sameRunway_refl [simp]: "sameRunway a a"
  by (simp add: sameRunway_def)

lemma sameRunway_sym: "sameRunway a b \<longleftrightarrow> sameRunway b a"
  by (simp add: sameRunway_def equal_fold_sym)

lemma sameSID_sym: "sameSID a b \<longleftrightarrow> sameSID b a"
  by (auto simp: sameSID_def list_ex_iff)

lemma SidIntervalMinutes_sym: "SidIntervalMinutes config depRwy a b = SidIntervalMinutes config depRwy b a"
proof -
  have p: "(\<lambda>i. equal_fold (si_Runway i) depRwy \<and> (sameSID (si_Sid1 i) a \<and> sameSID (si_Sid2 i) b \<or> sameSID (si_Sid1 i) b \<and> sameSID (si_Sid2 i) a)) =
    (\<lambda>i. equal_fold (si_Runway i) depRwy \<and> (sameSID (si_Sid1 i) b \<and> sameSID (si_Sid2 i) a \<or> sameSID (si_Sid1 i) a \<and> sameSID (si_Sid2 i) b))"
    by (intro ext) blast
  show ?thesis unfolding SidIntervalMinutes_def sameSID_sym [of a b] p by (rule refl)
qed

lemma default_rate_pos: "0 < default_rate c"
  by (simp add: default_rate_def DefaultCDMRate_def DefaultCDMRateLVO_def)

lemma RateForRunway_pos: "0 < RateForRunway config depRwy"
  by (auto simp: RateForRunway_def rate_value_def parsePositiveInt_def default_rate_pos DefaultCDMRate_def Let_def split: option.split)

lemma TaxiMinutesForRunway_pos: "0 < TaxiMinutesForRunway config depRwy"
  by (auto simp: TaxiMinutesForRunway_def DefaultCDMTaxiMinutes_def dest!: find_SomeD split: option.split)

lemma runway_index_less: "0 < values \<Longrightarrow> runway_index depRwy values idx rs < values"
  by (induction rs arbitrary: idx) auto

lemma valueIndex_less: "0 < values \<Longrightarrow> valueIndex r depRwy values < values"
  by (simp add: valueIndex_def runway_index_less)

lemma DelayFloor_plain:
  assumes "DelayFloorForRunway config depRwy now = Some v"
  shows "plain_clock v" "\<exists>s. parseClock v = Some s"
proof -
  from assms obtain t where v: "v = timeToClock t"
    by (auto simp: DelayFloorForRunway_def Let_def split: option.splits if_splits)
  from utc_seconds_of_day_range [of t] show "plain_clock v" "\<exists>s. parseClock v = Some s"
    by (simp_all add: v timeToClock_text plain_clock_parsed parseClock_clock_text)
qed

lemma wakeSeparationMinutes_range: "0 \<le> wakeSeparationMinutes a b \<and> wakeSeparationMinutes a b \<le> 3"
  by (simp add: wakeSeparationMinutes_def Let_def)

end
