(* ===== verification/Cdm_Calculate.thy ===== *)
theory Cdm_Calculate
  imports Cdm_Config Machines
begin

text \<open>
  The departure slot calculation of the CDM (\<^verbatim>\<open>backend/internal/cdm/calculate.go\<close>): the target
  take-off time of a flight starts at its off-block time plus taxi and de-icing time, is raised to
  the flight's CTOT and the published delay, and is then pushed back by half a minute as long as
  it conflicts with a slot already given.

  The loop of \<^verbatim>\<open>calculateWithTrace\<close> has no bound. It is a \<^theory_text>\<open>partial_function\<close> into \<open>option\<close>, where
  \<open>None\<close> is a call that never returns, and the theorems say when that happens.
\<close>

section \<open>Definitions\<close>

definition sameDestinationSeparationMinutes :: rat where "sameDestinationSeparationMinutes = 3"

record CalcInput =
  ci_Callsign :: string
  ci_Origin :: string
  ci_Destination :: string
  ci_DepRwy :: string
  ci_Sid :: string
  ci_WakeCat :: string
  ci_Eobt :: string
  ci_Tobt :: string
  ci_TobtAuthoritative :: bool
  ci_Ctot :: string
  ci_Aobt :: string
  ci_Asat :: string
  ci_TaxiMin :: int
  ci_DeIceMin :: int
  ci_DeiceTaxiMin :: int
  ci_HasManCtot :: bool
  ci_ManCtot :: string

record SlotEntry =
  sl_Callsign :: string
  sl_Origin :: string
  sl_Destination :: string
  sl_DepRwy :: string
  sl_Sid :: string
  sl_WakeCat :: string
  sl_Ttot :: string
  sl_HasManCtot :: bool
  sl_ManCtot :: string

record CalcResult =
  cres_Tsat :: string
  cres_Ttot :: string

record calculationTraceEntry =
  te_Kind :: string
  te_AgainstCallsign :: string
  te_AgainstTtot :: string
  te_AgainstRunway :: string
  te_AgainstSid :: string
  te_RequiredSpacingMinutes :: rat
  te_FromTtot :: string
  te_ToTtot :: string

definition no_result :: CalcResult where
  "no_result = \<lparr> cres_Tsat = '''', cres_Ttot = '''' \<rparr>"

definition exotMinutes :: "CalcInput \<Rightarrow> int" where
  "exotMinutes input = ci_TaxiMin input + ci_DeIceMin input + ci_DeiceTaxiMin input"

definition selectCalculationBaseWithSource :: "CalcInput \<Rightarrow> string \<times> string" where
  "selectCalculationBaseWithSource input =
     (let base = normalizeCalculationClock (ci_Tobt input); eobt = normalizeCalculationClock (ci_Eobt input) in
      if base = '''' then (if eobt = '''' then ('''', '''') else (eobt, ''EOBT'')) else (base, ''TOBT''))"

definition selectCalculationBase :: "CalcInput \<Rightarrow> string" where
  "selectCalculationBase input = fst (selectCalculationBaseWithSource input)"

definition hasStarted :: "CalcInput \<Rightarrow> bool" where
  "hasStarted input \<longleftrightarrow> normalizeCalculationClock (ci_Asat input) \<noteq> '''' \<or> normalizeCalculationClock (ci_Aobt input) \<noteq> ''''"

definition shouldInvalidateStaleTobt :: "CalcInput \<Rightarrow> string \<Rightarrow> bool" where
  "shouldInvalidateStaleTobt input nowHHMMSS =
     (if hasStarted input then False
      else (let tobt = normalizeCalculationClock (ci_Tobt input) in
        if tobt = '''' then False else isMoreThanMinutesPast tobt nowHHMMSS 5))"

definition shouldInvalidateStaleTsat :: "CalcInput \<Rightarrow> string \<Rightarrow> string \<Rightarrow> bool" where
  "shouldInvalidateStaleTsat input tsat nowHHMMSS =
     (if hasStarted input then False else tsat \<noteq> '''' \<and> isMoreThanMinutesPast tsat nowHHMMSS 5)"

definition resolveAdverseConditionImpact :: "CalcInput \<Rightarrow> CdmAirportConfig option \<Rightarrow> gotime \<Rightarrow> string" where
  "resolveAdverseConditionImpact input config now =
     (case DelayFloorForRunway config (ci_DepRwy input) now of None \<Rightarrow> '''' | Some delayFloor \<Rightarrow> delayFloor)"

definition applyAdverseConditionFloor :: "string \<Rightarrow> string \<Rightarrow> string" where
  "applyAdverseConditionFloor candidate delayFloor =
     (if delayFloor = '''' then candidate
      else if candidate = '''' \<or> \<not> isAfterOrEqual candidate delayFloor then delayFloor else candidate)"

definition at_least :: "string \<Rightarrow> string \<Rightarrow> string" where
  "at_least ttot bound = (if \<not> isAfterOrEqual ttot bound then bound else ttot)"

definition unconstrainedTtot :: "CalcInput \<Rightarrow> CdmAirportConfig option \<Rightarrow> gotime \<Rightarrow> string" where
  "unconstrainedTtot input config now =
     (let base = selectCalculationBase input in
      if base = '''' then ''''
      else
        (let ttot = addMinutes (toHHMMSS base) (float64 (exotMinutes input));
             ttot = (if ci_HasManCtot input \<and> trim_space (ci_ManCtot input) \<noteq> ''''
                     then at_least ttot (toHHMMSS (ci_ManCtot input)) else ttot);
             ctot = toHHMMSS (trim_space (ci_Ctot input));
             ttot = (if ctot \<noteq> '''' then at_least ttot ctot else ttot) in
         applyAdverseConditionFloor ttot (resolveAdverseConditionImpact input config now)))"

definition shouldApplyRateWindow :: "bool \<Rightarrow> bool \<Rightarrow> bool" where
  "shouldApplyRateWindow currentManual existingManual =
     (if currentManual = existingManual then True else \<not> currentManual \<and> \<not> existingManual)"

definition sameOrDependentRunway :: "string \<Rightarrow> string \<Rightarrow> CdmAirportConfig option \<Rightarrow> bool" where
  "sameOrDependentRunway current other config \<longleftrightarrow>
     sameRunway current other \<or>
     (config \<noteq> None \<and>
       (list_ex (\<lambda>d. sameRunway d other) (DependentRunways config current) \<or>
        list_ex (\<lambda>d. sameRunway d current) (DependentRunways config other)))"

definition withinWindow :: "string \<Rightarrow> string \<Rightarrow> rat \<Rightarrow> bool" where
  "withinWindow candidate slot windowMinutes =
     (if windowMinutes \<le> 0 then False
      else (let diff = \<bar>minutesBetween slot candidate\<bar> in 0 < diff \<and> diff < windowMinutes))"

definition sameDestination :: "string \<Rightarrow> string \<Rightarrow> bool" where
  "sameDestination current other \<longleftrightarrow> normalizeToken current \<noteq> '''' \<and> normalizeToken current = normalizeToken other"

definition violatesSameDestinationSeparation :: "string \<Rightarrow> string \<Rightarrow> string \<Rightarrow> string \<Rightarrow> bool" where
  "violatesSameDestinationSeparation candidateTtot candidateDestination slotTtot slotDestination =
     (if \<not> sameDestination candidateDestination slotDestination then False
      else toHHMMSS slotTtot = toHHMMSS candidateTtot \<or>
        withinWindow candidateTtot slotTtot sameDestinationSeparationMinutes)"

definition next_ttot :: "string \<Rightarrow> string" where
  "next_ttot ttot = addMinutes ttot (1 / 2)"

definition trace_entry :: "string \<Rightarrow> SlotEntry \<Rightarrow> rat \<Rightarrow> string \<Rightarrow> calculationTraceEntry" where
  "trace_entry kind slot required ttot =
     \<lparr> te_Kind = kind, te_AgainstCallsign = sl_Callsign slot, te_AgainstTtot = sl_Ttot slot,
       te_AgainstRunway = sl_DepRwy slot, te_AgainstSid = sl_Sid slot, te_RequiredSpacingMinutes = required,
       te_FromTtot = ttot, te_ToTtot = next_ttot ttot \<rparr>"

definition wake_minutes :: "CalcInput \<Rightarrow> string \<Rightarrow> SlotEntry \<Rightarrow> int" where
  "wake_minutes input ttot slot =
     (if \<not> isAfterOrEqual ttot (sl_Ttot slot) then wakeSeparationMinutes (sl_WakeCat slot) (ci_WakeCat input)
      else wakeSeparationMinutes (ci_WakeCat input) (sl_WakeCat slot))"

text \<open>The body of the loop over the slots: the entry with which it breaks, if it does.\<close>

definition slot_conflict :: "CalcInput \<Rightarrow> CdmAirportConfig option \<Rightarrow> rat \<Rightarrow> string \<Rightarrow> SlotEntry \<Rightarrow> calculationTraceEntry option" where
  "slot_conflict input config rateWindow ttot slot =
     (if \<not> equal_fold (trim_space (sl_Origin slot)) (trim_space (ci_Origin input)) then None
      else if equal_fold (trim_space (sl_Callsign slot)) (trim_space (ci_Callsign input)) then None
      else if violatesSameDestinationSeparation ttot (ci_Destination input) (sl_Ttot slot) (sl_Destination slot)
      then Some (trace_entry ''same_destination_separation'' slot sameDestinationSeparationMinutes ttot)
      else if \<not> sameOrDependentRunway (ci_DepRwy input) (sl_DepRwy slot) config then None
      else if toHHMMSS (sl_Ttot slot) = ttot then Some (trace_entry ''runway_slot_collision'' slot 0 ttot)
      else if shouldApplyRateWindow (ci_HasManCtot input) (sl_HasManCtot slot) \<and> withinWindow ttot (sl_Ttot slot) rateWindow
      then Some (trace_entry ''runway_rate_window'' slot rateWindow ttot)
      else if sameRunway (ci_DepRwy input) (sl_DepRwy slot) \<and> 0 < wake_minutes input ttot slot \<and>
        withinWindow ttot (sl_Ttot slot) (float64 (wake_minutes input ttot slot))
      then Some (trace_entry ''wake_separation'' slot (float64 (wake_minutes input ttot slot)) ttot)
      else (let interval = SidIntervalMinutes config (ci_DepRwy input) (ci_Sid input) (sl_Sid slot) in
        if config \<noteq> None \<and> 0 < interval \<and> withinWindow ttot (sl_Ttot slot) interval
        then Some (trace_entry ''sid_interval'' slot interval ttot) else None))"

fun first_conflict :: "CalcInput \<Rightarrow> CdmAirportConfig option \<Rightarrow> rat \<Rightarrow> string \<Rightarrow> SlotEntry list \<Rightarrow> calculationTraceEntry option" where
  "first_conflict input config rateWindow ttot [] = None"
| "first_conflict input config rateWindow ttot (slot # slots) =
     (case slot_conflict input config rateWindow ttot slot of
        Some e \<Rightarrow> Some e
      | None \<Rightarrow> first_conflict input config rateWindow ttot slots)"

partial_function (option) push_back ::
    "CalcInput \<Rightarrow> CdmAirportConfig option \<Rightarrow> rat \<Rightarrow> SlotEntry list \<Rightarrow> string \<Rightarrow> calculationTraceEntry list \<Rightarrow> (string \<times> calculationTraceEntry list) option" where
  "push_back input config rateWindow slots ttot trace =
     (case first_conflict input config rateWindow ttot slots of
        None \<Rightarrow> Some (ttot, trace)
      | Some e \<Rightarrow> push_back input config rateWindow slots (next_ttot ttot) (trace @ [e]))"

declare push_back.simps [code]

definition rate_window :: "CalcInput \<Rightarrow> CdmAirportConfig option \<Rightarrow> rat" where
  "rate_window input config =
     (let rate = (case config of None \<Rightarrow> DefaultCDMRate | Some _ \<Rightarrow> RateForRunway config (ci_DepRwy input));
          rate = (if rate \<le> 0 then DefaultCDMRate else rate) in
      fl (60 / float64 rate))"

definition slot_result :: "CalcInput \<Rightarrow> gotime \<Rightarrow> string \<Rightarrow> CalcResult" where
  "slot_result input now ttot =
     (let tsat = subtractMinutes ttot (float64 (exotMinutes input)) in
      if shouldInvalidateStaleTsat input tsat (timeToClock now) then no_result
      else \<lparr> cres_Tsat = tsat, cres_Ttot = ttot \<rparr>)"

definition calculateWithTrace ::
    "CalcInput \<Rightarrow> SlotEntry list \<Rightarrow> CdmAirportConfig option \<Rightarrow> gotime \<Rightarrow> (CalcResult \<times> calculationTraceEntry list) option" where
  "calculateWithTrace input slots config now =
     (if shouldInvalidateStaleTobt input (timeToClock now) then Some (no_result, [])
      else (let ttot = unconstrainedTtot input config now in
        if ttot = '''' then Some (no_result, [])
        else if parseClock ttot = None then Some (no_result, [])
        else (case push_back input config (rate_window input config) slots ttot [] of
            None \<Rightarrow> None
          | Some (ttot, trace) \<Rightarrow> Some (slot_result input now ttot, trace))))"

definition Calculate :: "CalcInput \<Rightarrow> SlotEntry list \<Rightarrow> CdmAirportConfig option \<Rightarrow> gotime \<Rightarrow> CalcResult option" where
  "Calculate input slots config now = map_option fst (calculateWithTrace input slots config now)"

section \<open>The loop\<close>

lemma first_conflict_None: "first_conflict input config w ttot slots = None \<longleftrightarrow> list_all (\<lambda>s. slot_conflict input config w ttot s = None) slots"
  by (induction slots) (auto split: option.split)

definition slot_free :: "CalcInput \<Rightarrow> SlotEntry list \<Rightarrow> CdmAirportConfig option \<Rightarrow> string \<Rightarrow> bool" where
  "slot_free input slots config ttot \<longleftrightarrow> list_all (\<lambda>s. slot_conflict input config (rate_window input config) ttot s = None) slots"

text \<open>A search that advances along a cycle sees everything it can see in one turn.\<close>

locale cyclic_search =
  fixes advance :: "'s \<Rightarrow> 's" and good :: "'s \<Rightarrow> bool" and period :: nat
  assumes period_pos: "0 < period"
    and cycle: "good s \<Longrightarrow> 0 < n \<Longrightarrow> (advance ^^ (n + period)) s = (advance ^^ n) s"
begin

lemma found_within_period:
  assumes "good s" "P ((advance ^^ n) s)"
  shows "\<exists>m \<le> period. P ((advance ^^ m) s)"
  using assms(2)
proof (induction n rule: less_induct)
  case (less n)
  show ?case
  proof (cases "n \<le> period")
    case False
    then have "(advance ^^ n) s = (advance ^^ (n - period)) s" using cycle [OF assms(1), of "n - period"] by simp
    with less False period_pos show ?thesis by (intro less.IH [of "n - period"]) simp_all
  qed (use less.prems in blast)
qed

end

lemma next_ttot_text:
  assumes "parseClock t = Some s"
  shows "next_ttot t = clock_text ((s + 30) mod day_seconds)"
proof -
  have "fl ((1 / 2) * 60) = 30" using fl_int [of 30] by simp
  then have "math_round (fl ((1 / 2) * 60)) = 30" using math_round_int [of 30] by simp
  then show ?thesis by (simp only: next_ttot_def addMinutes_def minuteOffset_text [OF assms])
qed

lemma next_ttot_steps:
  assumes "parseClock t = Some s"
  shows "(next_ttot ^^ Suc n) t = clock_text ((s + 30 * int (Suc n)) mod day_seconds)"
proof (induction n)
  case 0
  show ?case by (simp add: next_ttot_text [OF assms])
next
  case (Suc n)
  let ?m = "(s + 30 * int (Suc n)) mod day_seconds"
  have p: "parseClock (clock_text ?m) = Some ?m" by (rule parseClock_clock_text) simp_all
  have "(next_ttot ^^ Suc (Suc n)) t = next_ttot ((next_ttot ^^ Suc n) t)" by (simp only: funpow.simps o_apply)
  also have "\<dots> = clock_text ((?m + 30) mod day_seconds)" by (simp only: Suc.IH next_ttot_text [OF p])
  also have "(?m + 30) mod day_seconds = (s + 30 * int (Suc (Suc n))) mod day_seconds"
    by (simp only: mod_add_left_eq) (simp add: algebra_simps)
  finally show ?case .
qed

interpretation half_minutes: cyclic_search next_ttot "\<lambda>t. parseClock t \<noteq> None" 2880
proof
  fix t :: string and n :: nat
  assume t: "parseClock t \<noteq> None" and n: "0 < n"
  then obtain s m where s: "parseClock t = Some s" and m: "n = Suc m" by (auto simp: gr0_conv_Suc)
  have "s + 30 * int (Suc (m + 2880)) = s + 30 * int (Suc m) + day_seconds" by simp
  then have "(s + 30 * int (Suc (m + 2880))) mod day_seconds = (s + 30 * int (Suc m)) mod day_seconds"
    by (simp only: mod_add_self2)
  then show "(next_ttot ^^ (n + 2880)) t = (next_ttot ^^ n) t"
    unfolding m add_Suc next_ttot_steps [OF s] by simp
qed simp

lemma push_back_found:
  assumes "first_conflict input config w ((next_ttot ^^ n) t) slots = None"
    and "\<And>i. i < n \<Longrightarrow> first_conflict input config w ((next_ttot ^^ i) t) slots \<noteq> None"
  shows "\<exists>tr'. push_back input config w slots t tr = Some ((next_ttot ^^ n) t, tr')"
  using assms
proof (induction n arbitrary: t tr)
  case 0
  then show ?case by (simp add: push_back.simps [of input config w slots t])
next
  case (Suc n)
  from Suc.prems(2) [of 0] obtain e where e: "first_conflict input config w t slots = Some e" by auto
  have "first_conflict input config w ((next_ttot ^^ i) (next_ttot t)) slots \<noteq> None" if "i < n" for i
    using Suc.prems(2) [of "Suc i"] that by (simp add: funpow_swap1)
  then obtain tr' where "push_back input config w slots (next_ttot t) (tr @ [e]) = Some ((next_ttot ^^ n) (next_ttot t), tr')"
    using Suc.IH [of "next_ttot t" "tr @ [e]"] Suc.prems(1) by (auto simp: funpow_swap1)
  then show ?case by (simp add: push_back.simps [of input config w slots t] e funpow_swap1)
qed

lemma push_back_returns:
  assumes "push_back input config w slots t tr = Some (t', tr')"
  shows "\<exists>n. t' = (next_ttot ^^ n) t \<and> first_conflict input config w t' slots = None"
proof -
  have "\<exists>n. fst (t', tr') = (next_ttot ^^ n) t \<and> first_conflict input config w (fst (t', tr')) slots = None"
  proof (rule push_back.raw_induct [where P = "\<lambda>i c w' ss t tr r. \<exists>n. fst r = (next_ttot ^^ n) t \<and> first_conflict i c w' (fst r) ss = None",
      OF _ assms], goal_cases)
    case (1 pb i c w' ss t tr r)
    show ?case
    proof (cases "first_conflict i c w' t ss")
      case None
      with 1 show ?thesis by (intro exI [of _ 0]) auto
    next
      case (Some e)
      with 1 obtain n where "fst r = (next_ttot ^^ n) (next_ttot t)" "first_conflict i c w' (fst r) ss = None" by fastforce
      then show ?thesis by (intro exI [of _ "Suc n"]) (simp add: funpow_swap1)
    qed
  qed
  then show ?thesis by simp
qed

section \<open>The reference definition\<close>

text \<open>The half-minute steps of one day from a clock value on.\<close>

definition half_minute_steps :: "string \<Rightarrow> string list" where
  "half_minute_steps t = (case parseClock t of None \<Rightarrow> [t]
     | Some s \<Rightarrow> t # map (\<lambda>n. clock_text ((s + 30 * int n) mod day_seconds)) [1..<2881])"

lemma half_minute_steps_nth:
  assumes "parseClock t = Some s"
  shows "half_minute_steps t = map (\<lambda>n. (next_ttot ^^ n) t) [0..<2881]"
proof -
  have "map (\<lambda>n. (next_ttot ^^ n) t) [1..<2881] = map (\<lambda>n. clock_text ((s + 30 * int n) mod day_seconds)) [1..<2881]"
  proof (rule map_cong [OF refl])
    fix n :: nat
    assume "n \<in> set [1..<2881]"
    then have "0 < n" by (simp del: upt_Suc)
    then obtain m where n: "n = Suc m" by (auto simp: gr0_conv_Suc)
    show "(next_ttot ^^ n) t = clock_text ((s + 30 * int n) mod day_seconds)" unfolding n by (rule next_ttot_steps [OF assms])
  qed
  moreover have "[0..<2881] = 0 # [1..<2881 :: nat]" by (subst upt_conv_Cons) simp_all
  ultimately show ?thesis by (simp add: half_minute_steps_def assms)
qed

lemma push_back_spec:
  assumes "parseClock t = Some s"
  shows "map_option fst (push_back input config (rate_window input config) slots t tr) =
    find (slot_free input slots config) (half_minute_steps t)"
proof -
  let ?w = "rate_window input config"
  have free: "slot_free input slots config u \<longleftrightarrow> first_conflict input config ?w u slots = None" for u
    by (simp add: slot_free_def first_conflict_None)
  show ?thesis
  proof (cases "\<exists>n. slot_free input slots config ((next_ttot ^^ n) t)")
    case True
    define n where "n = (LEAST n. slot_free input slots config ((next_ttot ^^ n) t))"
    have n: "slot_free input slots config ((next_ttot ^^ n) t)" using LeastI_ex [OF True] by (simp add: n_def)
    have less: "\<not> slot_free input slots config ((next_ttot ^^ i) t)" if "i < n" for i
      using not_less_Least [of i] that by (simp add: n_def)
    obtain tr' where "push_back input config ?w slots t tr = Some ((next_ttot ^^ n) t, tr')"
      using push_back_found [of input config ?w n t slots tr] n less by (auto simp: free)
    moreover have "\<exists>m \<le> 2880. slot_free input slots config ((next_ttot ^^ m) t)"
      using half_minutes.found_within_period [of t "slot_free input slots config" n] n assms by simp
    then have "n < 2881" using Least_le [of "\<lambda>n. slot_free input slots config ((next_ttot ^^ n) t)"] by (fastforce simp: n_def)
    then have "find (slot_free input slots config) (half_minute_steps t) = Some ((next_ttot ^^ n) t)"
      unfolding half_minute_steps_nth [OF assms] find_Some_iff using n less
      by (intro exI [of _ n]) (simp del: funpow.simps upt_Suc)
    ultimately show ?thesis by simp
  next
    case False
    have "push_back input config ?w slots t tr = None"
    proof (rule ccontr)
      assume "push_back input config ?w slots t tr \<noteq> None"
      then obtain t' tr' where "push_back input config ?w slots t tr = Some (t', tr')" by auto
      from push_back_returns [OF this] obtain n where "slot_free input slots config ((next_ttot ^^ n) t)" by (auto simp: free)
      with False show False by blast
    qed
    moreover have "find (slot_free input slots config) (half_minute_steps t) = None"
      unfolding half_minute_steps_nth [OF assms] find_None_iff using False by auto
    ultimately show ?thesis by simp
  qed
qed

section \<open>Separation in seconds\<close>

definition separated_in_seconds :: "CalcInput \<Rightarrow> CdmAirportConfig option \<Rightarrow> int \<Rightarrow> SlotEntry \<Rightarrow> int \<Rightarrow> bool" where
  "separated_in_seconds input config t slot s \<longleftrightarrow>
     (sameDestination (ci_Destination input) (sl_Destination slot) \<longrightarrow> 180 \<le> \<bar>clock_gap s t\<bar>) \<and>
     (sameOrDependentRunway (ci_DepRwy input) (sl_DepRwy slot) config \<longrightarrow>
        s \<noteq> t \<and>
        (ci_HasManCtot input = sl_HasManCtot slot \<longrightarrow> 3600 \<le> \<bar>clock_gap s t\<bar> * RateForRunway config (ci_DepRwy input)) \<and>
        (sameRunway (ci_DepRwy input) (sl_DepRwy slot) \<longrightarrow>
           60 * (if clock_gap s t < 0 then wakeSeparationMinutes (sl_WakeCat slot) (ci_WakeCat input)
                 else wakeSeparationMinutes (ci_WakeCat input) (sl_WakeCat slot)) \<le> \<bar>clock_gap s t\<bar>) \<and>
        \<lfloor>60 * SidIntervalMinutes config (ci_DepRwy input) (ci_Sid input) (sl_Sid slot)\<rfloor> \<le> \<bar>clock_gap s t\<bar>)"

lemma minutes_close_abs: "minutes_close x g \<Longrightarrow> minutes_close \<bar>x\<bar> \<bar>g\<bar>"
  using abs_triangle_ineq3 [of x "of_int g / 60"]
  by (auto simp: minutes_close_def abs_divide simp del: abs_triangle_ineq3)

lemma outside_window:
  assumes "parseClock c = Some t" "parseClock v = Some s" "s \<noteq> t" "\<not> withinWindow c v w" "0 < w"
  shows "w \<le> \<bar>minutesBetween v c\<bar>" "minutes_close \<bar>minutesBetween v c\<bar> \<bar>clock_gap s t\<bar>" "0 < \<bar>clock_gap s t\<bar>"
proof -
  show close: "minutes_close \<bar>minutesBetween v c\<bar> \<bar>clock_gap s t\<bar>"
    by (rule minutes_close_abs [OF minutesBetween_close [OF assms(2,1)]])
  show g: "0 < \<bar>clock_gap s t\<bar>"
    using assms(3) clock_gap_zero [of s t] parseClock_range [OF assms(1)] parseClock_range [OF assms(2)] by auto
  have "0 < \<bar>minutesBetween v c\<bar>" using minutes_close_less(1) [OF close, of 0] g by simp
  with assms(4,5) show "w \<le> \<bar>minutesBetween v c\<bar>" by (simp add: withinWindow_def Let_def)
qed

lemma outside_int_window:
  assumes "parseClock c = Some t" "parseClock v = Some s" "s \<noteq> t" "\<not> withinWindow c v (of_int n)" "0 < n"
  shows "60 * n \<le> \<bar>clock_gap s t\<bar>"
proof -
  have "0 < rat_of_int n" using assms(5) by simp
  note * = outside_window [OF assms(1-4) this]
  from minutes_close_less(2) [OF *(2), of n] *(1) show ?thesis by simp
qed

lemma outside_rate_window:
  assumes "parseClock c = Some t" "parseClock v = Some s" "s \<noteq> t" "\<not> withinWindow c v (fl (60 / float64 r))" "0 < r"
  shows "3600 \<le> \<bar>clock_gap s t\<bar> * r"
proof (cases "r < 3600")
  case True
  then have r: "float64 r = of_int r" using assms(5) by (simp add: float64_def fl_int)
  have "\<bar>fl (60 / of_int r) - 60 / of_int r\<bar> \<le> \<bar>60 / rat_of_int r\<bar> / 2 ^ 53" by (rule fl_error)
  moreover have "\<bar>60 / rat_of_int r\<bar> / 2 ^ 53 < 60 / of_int r" using assms(5) by (simp add: field_simps)
  ultimately have "0 < fl (60 / float64 r)" unfolding r by linarith
  note * = outside_window [OF assms(1-4) this]
  show ?thesis
    using fl.rd_quotient_below [of "\<bar>minutesBetween v c\<bar>" "\<bar>clock_gap s t\<bar>" r] *(1,2) assms(5) True
    by (simp only: minutes_close_def r)
next
  case False
  have "0 < \<bar>clock_gap s t\<bar>"
    using assms(3) clock_gap_zero [of s t] parseClock_range [OF assms(1)] parseClock_range [OF assms(2)] by auto
  then have "1 * r \<le> \<bar>clock_gap s t\<bar> * r" using assms(5) by (intro mult_right_mono) simp_all
  with False show ?thesis by linarith
qed

lemma outside_interval:
  assumes "parseClock c = Some t" "parseClock v = Some s" "s \<noteq> t" "\<not> withinWindow c v w" "0 < w"
  shows "\<lfloor>60 * w\<rfloor> \<le> \<bar>clock_gap s t\<bar>"
proof -
  note * = outside_window [OF assms]
  have "\<bar>\<bar>minutesBetween v c\<bar> - of_int \<bar>clock_gap s t\<bar> / 60\<bar> \<le> 1 / 2 ^ 40" using *(2) by (simp only: minutes_close_def)
  with *(1) have "w \<le> of_int \<bar>clock_gap s t\<bar> / 60 + 1 / 2 ^ 40" by linarith
  then have "60 * w \<le> of_int \<bar>clock_gap s t\<bar> + 60 / 2 ^ 40" by simp
  also have "\<dots> < of_int \<bar>clock_gap s t\<bar> + 1" by simp
  finally have "60 * w < of_int (\<bar>clock_gap s t\<bar> + 1)" by simp
  then have "\<lfloor>60 * w\<rfloor> < \<bar>clock_gap s t\<bar> + 1" by (simp only: floor_less_iff)
  then show ?thesis by simp
qed

lemma rate_window_fl: "rate_window input config = fl (60 / float64 (RateForRunway config (ci_DepRwy input)))"
proof -
  have "(case config of None \<Rightarrow> DefaultCDMRate | Some _ \<Rightarrow> RateForRunway config (ci_DepRwy input)) = RateForRunway config (ci_DepRwy input)"
    by (cases config) (simp_all add: RateForRunway_def)
  then show ?thesis using RateForRunway_pos [of config "ci_DepRwy input"] by (simp add: rate_window_def Let_def)
qed

lemma no_conflict_separated:
  assumes "slot_conflict input config (rate_window input config) c slot = None"
    and origin: "equal_fold (trim_space (sl_Origin slot)) (trim_space (ci_Origin input))"
    and other: "\<not> equal_fold (trim_space (sl_Callsign slot)) (trim_space (ci_Callsign input))"
    and c: "parseClock c = Some t" "plain_clock c" "toHHMMSS c = c"
    and s: "parseClock (sl_Ttot slot) = Some s" "plain_clock (sl_Ttot slot)"
  shows "separated_in_seconds input config t slot s"
proof -
  have eq: "toHHMMSS (sl_Ttot slot) = c \<longleftrightarrow> s = t"
    using plain_clock_text [OF c(1,2)] plain_clock_text [OF s] c(1,3) s(1)
      parseClock_clock_text [of s] parseClock_clock_text [of t] parseClock_range by (metis option.inject)
  have dest: "180 \<le> \<bar>clock_gap s t\<bar>" if "sameDestination (ci_Destination input) (sl_Destination slot)"
  proof -
    have "s \<noteq> t" "\<not> withinWindow c (sl_Ttot slot) (of_int 3)"
      using assms(1) origin other that eq c(3)
      by (auto simp: slot_conflict_def violatesSameDestinationSeparation_def sameDestinationSeparationMinutes_def split: if_splits)
    from outside_int_window [OF c(1) s(1) this] show ?thesis by simp
  qed
  moreover have "s \<noteq> t \<and>
        (ci_HasManCtot input = sl_HasManCtot slot \<longrightarrow> 3600 \<le> \<bar>clock_gap s t\<bar> * RateForRunway config (ci_DepRwy input)) \<and>
        (sameRunway (ci_DepRwy input) (sl_DepRwy slot) \<longrightarrow>
           60 * (if clock_gap s t < 0 then wakeSeparationMinutes (sl_WakeCat slot) (ci_WakeCat input)
                 else wakeSeparationMinutes (ci_WakeCat input) (sl_WakeCat slot)) \<le> \<bar>clock_gap s t\<bar>) \<and>
        \<lfloor>60 * SidIntervalMinutes config (ci_DepRwy input) (ci_Sid input) (sl_Sid slot)\<rfloor> \<le> \<bar>clock_gap s t\<bar>"
    if rwy: "sameOrDependentRunway (ci_DepRwy input) (sl_DepRwy slot) config"
  proof (intro conjI impI)
    show ne: "s \<noteq> t" using assms(1) origin other rwy eq by (auto simp: slot_conflict_def split: if_splits)
    show "3600 \<le> \<bar>clock_gap s t\<bar> * RateForRunway config (ci_DepRwy input)" if "ci_HasManCtot input = sl_HasManCtot slot"
    proof (rule outside_rate_window [OF c(1) s(1) ne _ RateForRunway_pos])
      show "\<not> withinWindow c (sl_Ttot slot) (fl (60 / float64 (RateForRunway config (ci_DepRwy input))))"
        unfolding rate_window_fl [symmetric] using assms(1) origin other rwy that
        by (auto simp: slot_conflict_def shouldApplyRateWindow_def split: if_splits)
    qed
    show "60 * (if clock_gap s t < 0 then wakeSeparationMinutes (sl_WakeCat slot) (ci_WakeCat input)
                 else wakeSeparationMinutes (ci_WakeCat input) (sl_WakeCat slot)) \<le> \<bar>clock_gap s t\<bar>"
      if same: "sameRunway (ci_DepRwy input) (sl_DepRwy slot)"
    proof -
      let ?n = "wake_minutes input c slot"
      have n: "?n = (if clock_gap s t < 0 then wakeSeparationMinutes (sl_WakeCat slot) (ci_WakeCat input)
                 else wakeSeparationMinutes (ci_WakeCat input) (sl_WakeCat slot))"
        using isAfterOrEqual_iff [OF c(1) s(1)] by (auto simp: wake_minutes_def)
      have r: "0 \<le> ?n" "?n \<le> 3" using wakeSeparationMinutes_range by (auto simp: wake_minutes_def)
      have "60 * ?n \<le> \<bar>clock_gap s t\<bar>"
      proof (cases "0 < ?n")
        case True
        have "float64 ?n = of_int ?n" using r by (simp add: float64_def fl_int)
        then have "\<not> withinWindow c (sl_Ttot slot) (of_int ?n)"
          using assms(1) origin other rwy same True by (auto simp: slot_conflict_def split: if_splits)
        from outside_int_window [OF c(1) s(1) ne this True] show ?thesis .
      qed (use r in simp)
      then show ?thesis unfolding n .
    qed
    show "\<lfloor>60 * SidIntervalMinutes config (ci_DepRwy input) (ci_Sid input) (sl_Sid slot)\<rfloor> \<le> \<bar>clock_gap s t\<bar>"
    proof (cases "0 < SidIntervalMinutes config (ci_DepRwy input) (ci_Sid input) (sl_Sid slot)")
      case True
      then have "config \<noteq> None" by (cases config) (simp_all add: SidIntervalMinutes_def)
      with True have "\<not> withinWindow c (sl_Ttot slot) (SidIntervalMinutes config (ci_DepRwy input) (ci_Sid input) (sl_Sid slot))"
        using assms(1) origin other rwy by (auto simp: slot_conflict_def Let_def split: if_splits)
      from outside_interval [OF c(1) s(1) ne this True] show ?thesis .
    next
      case False
      then have "\<lfloor>60 * SidIntervalMinutes config (ci_DepRwy input) (ci_Sid input) (sl_Sid slot)\<rfloor> \<le> 0" by simp
      then show ?thesis by (rule order_trans [OF _ abs_ge_zero])
    qed
  qed
  ultimately show ?thesis by (simp only: separated_in_seconds_def) blast
qed

section \<open>The start of the search\<close>

definition clock_ok :: "string \<Rightarrow> bool" where
  "clock_ok v \<longleftrightarrow> toHHMMSS v = v \<and> plain_clock v"

lemma toHHMMSS_idem [simp]: "toHHMMSS (toHHMMSS v) = toHHMMSS v" if "plain_clock v"
  using that by (simp add: plain_clock_def toHHMMSS_def trim_space_digits Let_def)

lemma clock_ok_text: "0 \<le> s \<Longrightarrow> s < day_seconds \<Longrightarrow> clock_ok (clock_text s)"
  by (simp add: clock_ok_def toHHMMSS_clock_text plain_clock_parsed)

lemma clock_ok_HHMMSS: "plain_clock v \<Longrightarrow> clock_ok (toHHMMSS v)"
  by (simp add: clock_ok_def) (simp add: plain_clock_def)

lemma clock_ok_next: "clock_ok t \<Longrightarrow> parseClock t = Some s \<Longrightarrow> clock_ok ((next_ttot ^^ n) t)"
  by (cases n) (simp_all only: funpow_0 next_ttot_steps, simp add: clock_ok_text)

text \<open>The times of the input that can reach the result unchanged are written in digits.\<close>

definition plain_input :: "CalcInput \<Rightarrow> bool" where
  "plain_input input \<longleftrightarrow> plain_clock (ci_Ctot input) \<and> plain_clock (ci_ManCtot input)"

definition clock_or_bad :: "string \<Rightarrow> bool" where
  "clock_or_bad v \<longleftrightarrow> parseClock v = None \<or> clock_ok v"

lemma clock_or_bad_addMinutes: "clock_or_bad (addMinutes v m)"
  by (cases "parseClock v") (simp_all add: clock_or_bad_def addMinutes_def minuteOffset_bad minuteOffset_text clock_ok_text)

lemma clock_or_bad_at_least: "clock_or_bad a \<Longrightarrow> clock_or_bad b \<Longrightarrow> clock_or_bad (at_least a b)"
  by (simp add: at_least_def)

lemma clock_or_bad_floor: "clock_or_bad a \<Longrightarrow> clock_or_bad (applyAdverseConditionFloor a (resolveAdverseConditionImpact input config now))"
  using utc_seconds_of_day_range
  by (auto simp: applyAdverseConditionFloor_def clock_or_bad_def resolveAdverseConditionImpact_def DelayFloorForRunway_def Let_def
      timeToClock_text clock_ok_text split: option.split)

lemma parseClock_Nil [simp]: "parseClock '''' = None"
  by (simp add: parseClock_def toHHMMSS_def)

lemma unconstrainedTtot_ok:
  assumes "plain_input input"
  shows "clock_or_bad (unconstrainedTtot input config now)"
proof -
  have "clock_or_bad (toHHMMSS (ci_ManCtot input))" "clock_or_bad (toHHMMSS (trim_space (ci_Ctot input)))" "clock_or_bad ''''"
    using assms by (simp_all add: plain_input_def clock_ok_HHMMSS clock_or_bad_def)
  then show ?thesis
    by (auto simp: unconstrainedTtot_def Let_def intro!: clock_or_bad_floor clock_or_bad_at_least clock_or_bad_addMinutes)
qed

lemma half_minute_steps_ok:
  assumes "clock_ok t" "parseClock t = Some s" "u \<in> set (half_minute_steps t)"
  shows "clock_ok u" "\<exists>x. parseClock u = Some x"
  using assms by (auto simp: half_minute_steps_def clock_ok_text parseClock_clock_text)

section \<open>Properties\<close>

text \<open>The calculation as a search of one day, half a minute at a time, for the first free slot.\<close>

definition calculate_reference :: "CalcInput \<Rightarrow> SlotEntry list \<Rightarrow> CdmAirportConfig option \<Rightarrow> gotime \<Rightarrow> CalcResult option" where
  "calculate_reference input slots config now =
     (let ttot = unconstrainedTtot input config now in
      if shouldInvalidateStaleTobt input (timeToClock now) \<or> parseClock ttot = None then Some no_result
      else map_option (slot_result input now) (find (slot_free input slots config) (half_minute_steps ttot)))"

lemma Calculate_reference: "Calculate input slots config now = calculate_reference input slots config now"
proof (cases "shouldInvalidateStaleTobt input (timeToClock now) \<or> parseClock (unconstrainedTtot input config now) = None")
  case True
  then show ?thesis by (auto simp: Calculate_def calculateWithTrace_def calculate_reference_def Let_def)
next
  case False
  then obtain s where s: "parseClock (unconstrainedTtot input config now) = Some s" by auto
  then have "unconstrainedTtot input config now \<noteq> ''''" by auto
  with False s show ?thesis
    by (auto simp: Calculate_def calculateWithTrace_def calculate_reference_def Let_def
        option.map_comp comp_def split: option.split simp flip: push_back_spec [OF s, of input config slots "[]"])
qed

lemma Calculate_separated:
  assumes "Calculate input slots config now = Some r" "cres_Ttot r \<noteq> ''''" "plain_input input"
    and "slot \<in> set slots" "equal_fold (trim_space (sl_Origin slot)) (trim_space (ci_Origin input))"
    and "\<not> equal_fold (trim_space (sl_Callsign slot)) (trim_space (ci_Callsign input))"
    and "parseClock (sl_Ttot slot) = Some s" "plain_clock (sl_Ttot slot)"
  shows "\<exists>t. parseClock (cres_Ttot r) = Some t \<and> separated_in_seconds input config t slot s"
proof -
  let ?u = "unconstrainedTtot input config now"
  from assms(1,2) have p: "parseClock ?u \<noteq> None" and r: "map_option (slot_result input now)
      (find (slot_free input slots config) (half_minute_steps ?u)) = Some r"
    by (auto simp: Calculate_reference calculate_reference_def no_result_def Let_def split: if_splits)
  then obtain u0 c where u0: "parseClock ?u = Some u0"
    and c: "find (slot_free input slots config) (half_minute_steps ?u) = Some c" and rc: "r = slot_result input now c" by auto
  then have rt: "cres_Ttot r = c" using assms(2) by (auto simp: slot_result_def no_result_def Let_def split: if_splits)
  from c have c_in: "c \<in> set (half_minute_steps ?u)" and free: "slot_free input slots config c" by (auto dest: find_SomeD)
  have "clock_ok ?u" using unconstrainedTtot_ok [OF assms(3), of config now] u0 by (simp add: clock_or_bad_def)
  from half_minute_steps_ok [OF this u0 c_in] obtain t where ok: "clock_ok c" and t: "parseClock c = Some t" by auto
  have "slot_conflict input config (rate_window input config) c slot = None"
    using free assms(4) by (simp add: slot_free_def list_all_iff)
  from no_conflict_separated [OF this assms(5,6) t _ _ assms(7,8)] ok
  have "separated_in_seconds input config t slot s" by (simp add: clock_ok_def)
  with t rt show ?thesis by blast
qed

text \<open>
  C31. The unbounded loop is the search of a single day: \<open>Calculate\<close> gives the first of the 2881
  half-minute steps from the unconstrained take-off time on that conflicts with no slot, and does not
  return exactly when all of them conflict.
\<close>

theorem calculate_finds_first_free_step:
  "Calculate input slots config now =
     (let ttot = unconstrainedTtot input config now in
      if shouldInvalidateStaleTobt input (timeToClock now) \<or> parseClock ttot = None then Some no_result
      else map_option (slot_result input now) (find (slot_free input slots config) (half_minute_steps ttot)))"
  unfolding Calculate_reference calculate_reference_def ..

text \<open>
  C32. A calculated take-off time keeps, to the second and whatever the rounding of the floating-point
  minutes, the separation from every slot of another flight at the airport: three minutes to the same
  destination, and on the same or a dependent runway the rate interval, the wake minimum and the SID
  interval.
\<close>

theorem calculated_slot_is_separated:
  assumes "Calculate input slots config now = Some r" "cres_Ttot r \<noteq> ''''" "plain_input input"
    and "slot \<in> set slots" "equal_fold (trim_space (sl_Origin slot)) (trim_space (ci_Origin input))"
    and "\<not> equal_fold (trim_space (sl_Callsign slot)) (trim_space (ci_Callsign input))"
    and "parseClock (sl_Ttot slot) = Some s" "plain_clock (sl_Ttot slot)"
  shows "\<exists>t. parseClock (cres_Ttot r) = Some t \<and> separated_in_seconds input config t slot s"
  by (rule Calculate_separated [OF assms])

section \<open>How much of the day a slot blocks\<close>

lemma rate_window_le:
  assumes "0 < r" "60 \<le> w * r" "0 < w" "w \<le> 1440"
  shows "fl (60 / float64 r) \<le> of_int w"
proof (cases "r < 3600")
  case True
  have r: "float64 r = of_int r" using True assms(1) by (simp add: float64_def fl_int)
  have pos: "0 < rat_of_int r" using assms(1) by simp
  show ?thesis
  proof (cases "w * r = 60")
    case True
    then have "60 / rat_of_int r = of_int w" using pos by (simp add: field_simps flip: of_int_mult)
    moreover have "fl (of_int w) = of_int w" by (rule fl_int) (use assms in simp)
    ultimately show ?thesis by (simp add: r)
  next
    case False
    with assms(2) have "rat_of_int 61 \<le> of_int (w * r)" by (subst of_int_le_iff) simp
    then have "60 / rat_of_int r + 1 / of_int r \<le> of_int w" using pos by (simp add: field_simps)
    moreover have "\<bar>fl (60 / of_int r) - 60 / of_int r\<bar> \<le> \<bar>60 / rat_of_int r\<bar> / 2 ^ 53" by (rule fl_error)
    moreover have "\<bar>60 / rat_of_int r\<bar> / 2 ^ 53 \<le> 1 / of_int r" using pos by (simp add: field_simps)
    ultimately show ?thesis unfolding r by linarith
  qed
next
  case False
  have big: "3600 \<le> rat_of_int r" using False by simp
  have "\<bar>float64 r - of_int r\<bar> \<le> \<bar>rat_of_int r\<bar> / 2 ^ 53" unfolding float64_def by (rule fl_error)
  moreover have "\<bar>rat_of_int r\<bar> / 2 ^ 53 \<le> of_int r / 2" using big by simp
  ultimately have f: "1800 \<le> float64 r" using big by linarith
  then have q: "60 / float64 r \<le> 1 / 30" "0 \<le> 60 / float64 r" by (simp_all add: field_simps)
  have "\<bar>fl (60 / float64 r) - 60 / float64 r\<bar> \<le> (1 / 30) / 2 ^ 53" by (rule fl.rd_close) (use q in simp)
  moreover have "(1 / 30) / 2 ^ 53 \<le> (1 / 30 :: rat)" by simp
  ultimately have "fl (60 / float64 r) \<le> 1" using q by linarith
  also have "\<dots> \<le> of_int w" using assms(3) by simp
  finally show ?thesis .
qed

lemma inside_window:
  assumes "withinWindow c v w" "w \<le> of_int n" "parseClock c = Some t"
  shows "\<exists>s. parseClock v = Some s \<and> \<bar>clock_gap s t\<bar> < 60 * n"
proof (cases "parseClock v")
  case None
  with assms(1) show ?thesis by (simp add: withinWindow_def minutesBetween_def split: if_splits)
next
  case (Some s)
  have "\<bar>minutesBetween v c\<bar> < of_int n" using assms(1,2) by (simp add: withinWindow_def Let_def split: if_splits)
  with minutes_close_less(2) [OF minutes_close_abs [OF minutesBetween_close [OF Some assms(3)]]] show ?thesis using Some by simp
qed

lemma conflict_is_near:
  assumes "slot_conflict input config (rate_window input config) c slot \<noteq> None"
    and "clock_ok c" "parseClock c = Some t"
    and "3 \<le> n" "n \<le> 1440" "60 \<le> n * RateForRunway config (ci_DepRwy input)"
    and "SidIntervalMinutes config (ci_DepRwy input) (ci_Sid input) (sl_Sid slot) \<le> of_int n"
  shows "\<exists>s. parseClock (sl_Ttot slot) = Some s \<and> \<bar>clock_gap s t\<bar> < 60 * n"
proof -
  let ?v = "sl_Ttot slot"
  have near: "\<exists>s. parseClock ?v = Some s \<and> \<bar>clock_gap s t\<bar> < 60 * n" if "withinWindow c ?v w" "w \<le> of_int n" for w
    using inside_window [OF that assms(3)] .
  have same: "\<exists>s. parseClock ?v = Some s \<and> \<bar>clock_gap s t\<bar> < 60 * n" if "toHHMMSS ?v = c"
  proof -
    have "parseClock ?v = parseClock c" using that assms(2) by (simp add: parseClock_def clock_ok_def)
    with assms(3,4) show ?thesis by (simp add: clock_gap_def)
  qed
  have d: "sameDestinationSeparationMinutes \<le> of_int n" using assms(4) by (simp add: sameDestinationSeparationMinutes_def)
  have r: "rate_window input config \<le> of_int n"
    unfolding rate_window_fl by (rule rate_window_le) (use assms RateForRunway_pos in simp_all)
  have w: "float64 (wake_minutes input c slot) \<le> of_int n"
  proof -
    have "0 \<le> wake_minutes input c slot" "wake_minutes input c slot \<le> 3"
      using wakeSeparationMinutes_range by (auto simp: wake_minutes_def)
    with assms(4) show ?thesis by (simp add: float64_def fl_int)
  qed
  have "toHHMMSS c = c" using assms(2) by (simp add: clock_ok_def)
  with assms(1) have "toHHMMSS ?v = c \<or> withinWindow c ?v sameDestinationSeparationMinutes \<or> withinWindow c ?v (rate_window input config) \<or>
      withinWindow c ?v (float64 (wake_minutes input c slot)) \<or>
      withinWindow c ?v (SidIntervalMinutes config (ci_DepRwy input) (ci_Sid input) (sl_Sid slot))"
    by (auto simp: slot_conflict_def violatesSameDestinationSeparation_def Let_def split: if_splits)
  with same near d r w assms(7) show ?thesis by blast
qed

lemma near_steps:
  assumes "0 < n"
  shows "int (card {k \<in> {1..2880 :: nat}. \<bar>clock_gap s ((u + 30 * int k) mod day_seconds)\<bar> < 60 * n}) \<le> 4 * n"
proof -
  let ?g = "\<lambda>k. clock_gap s ((u + 30 * int k) mod day_seconds)"
  let ?B = "{k \<in> {1..2880 :: nat}. \<bar>?g k\<bar> < 60 * n}"
  have gm: "?g k mod day_seconds = (u + 30 * int k - s) mod day_seconds" for k
    by (simp add: clock_gap_mod mod_diff_left_eq)
  have "inj_on (\<lambda>k. ?g k div 30) ?B"
  proof (rule inj_onI)
    fix k m
    assume k: "k \<in> ?B" and m: "m \<in> ?B" and eq: "?g k div 30 = ?g m div 30"
    have r: "?g j mod 30 = (u - s) mod 30" for j
    proof -
      have "?g j mod 30 = ?g j mod day_seconds mod 30" by (simp add: mod_mod_cancel)
      also have "\<dots> = (u + 30 * int j - s) mod 30" unfolding gm by (simp add: mod_mod_cancel)
      also have "\<dots> = (u - s + 30 * int j) mod 30" by (simp add: algebra_simps)
      finally show ?thesis by simp
    qed
    have "?g k = ?g k div 30 * 30 + ?g k mod 30" "?g m = ?g m div 30 * 30 + ?g m mod 30" by simp_all
    then have "?g k = ?g m" using eq r [of k] r [of m] by linarith
    then have "(u + 30 * int k - s) mod day_seconds = (u + 30 * int m - s) mod day_seconds" using gm [of k] gm [of m] by simp
    then have "day_seconds dvd (u + 30 * int k - s) - (u + 30 * int m - s)" by (simp only: mod_eq_dvd_iff)
    then have "30 * 2880 dvd 30 * (int k - int m)" by (simp add: algebra_simps)
    then have "2880 dvd int k - int m" by (subst (asm) dvd_mult_cancel_left) simp
    moreover have "\<bar>int k - int m\<bar> < 2880" using k m by auto
    ultimately show "k = m" using dvd_imp_le_int [of "int k - int m" 2880] by force
  qed
  then have "card ?B = card ((\<lambda>k. ?g k div 30) ` ?B)" by (simp add: card_image)
  also have "\<dots> \<le> card {- (2 * n)..2 * n - 1}"
  proof (rule card_mono)
    show "(\<lambda>k. ?g k div 30) ` ?B \<subseteq> {- (2 * n)..2 * n - 1}"
    proof (intro subsetI, elim imageE)
      fix x k
      assume x: "x = ?g k div 30" and "k \<in> ?B"
      then have g: "- (60 * n) < ?g k" "?g k < 60 * n" by auto
      have "?g k = x * 30 + ?g k mod 30" "0 \<le> ?g k mod 30" "?g k mod 30 < 30" unfolding x by simp_all
      with g have "- (2 * n) \<le> x" "x \<le> 2 * n - 1" by linarith+
      then show "x \<in> {- (2 * n)..2 * n - 1}" by simp
    qed
  qed simp
  finally show ?thesis using assms by simp
qed

lemma Calculate_returns:
  assumes "3 \<le> n" "n \<le> 1440" "60 \<le> n * RateForRunway config (ci_DepRwy input)"
    and "\<forall>slot \<in> set slots. SidIntervalMinutes config (ci_DepRwy input) (ci_Sid input) (sl_Sid slot) \<le> of_int n"
    and "int (length slots) * (4 * n) < 2880"
  shows "\<exists>r. Calculate input slots config now = Some r"
proof (rule ccontr)
  assume no: "\<nexists>r. Calculate input slots config now = Some r"
  let ?u = "unconstrainedTtot input config now"
  from no obtain u where u: "parseClock ?u = Some u" and none: "find (slot_free input slots config) (half_minute_steps ?u) = None"
    by (auto simp: Calculate_reference calculate_reference_def Let_def split: if_splits)
  let ?t = "\<lambda>k. (u + 30 * int k) mod day_seconds"
  let ?B = "\<lambda>s. {k \<in> {1..2880 :: nat}. \<bar>clock_gap s (?t k)\<bar> < 60 * n}"
  let ?A = "\<lambda>slot. case parseClock (sl_Ttot slot) of None \<Rightarrow> {} | Some s \<Rightarrow> ?B s"
  have "{1..2880 :: nat} \<subseteq> (\<Union>slot \<in> set slots. ?A slot)"
  proof
    fix k :: nat
    assume k: "k \<in> {1..2880}"
    then have "clock_text (?t k) \<in> set (half_minute_steps ?u)" by (auto simp: half_minute_steps_def u simp del: upt_Suc)
    with none obtain slot where slot: "slot \<in> set slots"
        "slot_conflict input config (rate_window input config) (clock_text (?t k)) slot \<noteq> None"
      by (auto simp: find_None_iff slot_free_def list_all_iff simp del: upt_Suc)
    have "\<exists>s. parseClock (sl_Ttot slot) = Some s \<and> \<bar>clock_gap s (?t k)\<bar> < 60 * n"
      by (rule conflict_is_near [OF slot(2) _ _ assms(1-3)]) (use assms(4) slot(1) in \<open>simp_all add: clock_ok_text parseClock_clock_text\<close>)
    with slot(1) k show "k \<in> (\<Union>slot \<in> set slots. ?A slot)" by force
  qed
  then have "card {1..2880 :: nat} \<le> card (\<Union>slot \<in> set slots. ?A slot)"
    by (intro card_mono) (auto split: option.split)
  also have "\<dots> \<le> (\<Sum>slot \<in> set slots. card (?A slot))" by (rule card_UN_le) simp
  also have "\<dots> \<le> (\<Sum>slot \<in> set slots. nat (4 * n))"
  proof (rule sum_mono)
    fix slot
    show "card (?A slot) \<le> nat (4 * n)" using near_steps [of n _ u] assms(1) by (cases "parseClock (sl_Ttot slot)") (simp_all add: nat_le_iff le_nat_iff)
  qed
  also have "\<dots> = card (set slots) * nat (4 * n)" by simp
  also have "\<dots> \<le> length slots * nat (4 * n)" by (intro mult_right_mono card_length) simp
  finally have "2880 \<le> length slots * nat (4 * n)" by simp
  then have "int 2880 \<le> int (length slots * nat (4 * n))" by (simp only: of_nat_le_iff)
  with assms(1,5) show False by simp
qed

text \<open>
The calculation cannot hang on a day that is not crowded: when the rate interval and every SID
  interval are at most \<open>n\<close> minutes and there are fewer than \<open>720 / n\<close> slots, \<open>Calculate\<close> returns.
\<close>

theorem calculate_returns:
  assumes "3 \<le> n" "n \<le> 1440" "60 \<le> n * RateForRunway config (ci_DepRwy input)"
    and "\<forall>slot \<in> set slots. SidIntervalMinutes config (ci_DepRwy input) (ci_Sid input) (sl_Sid slot) \<le> of_int n"
    and "int (length slots) * (4 * n) < 2880"
  shows "\<exists>r. Calculate input slots config now = Some r"
  by (rule Calculate_returns [OF assms])

section \<open>A day without a free step\<close>

definition full_day_config :: CdmAirportConfig where
  "full_day_config = (NewDefaultAirportConfig ''EKCH'')\<lparr> ac_DefaultRate := 1 \<rparr>"

definition sample_input :: CalcInput where
  "sample_input = \<lparr> ci_Callsign = ''SAS1'', ci_Origin = ''EKCH'', ci_Destination = ''ESSA'', ci_DepRwy = ''22R'', ci_Sid = ''BETUD2C'',
     ci_WakeCat = ''M'', ci_Eobt = ''1000'', ci_Tobt = '''', ci_TobtAuthoritative = False, ci_Ctot = '''', ci_Aobt = '''', ci_Asat = '''',
     ci_TaxiMin = 10, ci_DeIceMin = 0, ci_DeiceTaxiMin = 0, ci_HasManCtot = False, ci_ManCtot = '''' \<rparr>"

definition sample_slot :: "string \<Rightarrow> string \<Rightarrow> SlotEntry" where
  "sample_slot callsign ttot = \<lparr> sl_Callsign = callsign, sl_Origin = ''EKCH'', sl_Destination = ''EGLL'', sl_DepRwy = ''22R'',
     sl_Sid = ''LANGO2C'', sl_WakeCat = ''M'', sl_Ttot = ttot, sl_HasManCtot = False, sl_ManCtot = '''' \<rparr>"

definition hourly_slots :: "SlotEntry list" where
  "hourly_slots = map (\<lambda>h. sample_slot ''BAW1'' (clock_text (3600 * int h))) [0..<24]"

lemma sample_ttot: "parseClock (unconstrainedTtot sample_input (Some full_day_config) zero_time) = Some 36600"
  by code_simp

lemma sample_tobt: "shouldInvalidateStaleTobt sample_input (timeToClock zero_time) = False"
  by code_simp

lemma hourly_slots_block:
  assumes "0 \<le> t" "t < day_seconds"
  shows "\<not> slot_free sample_input hourly_slots (Some full_day_config) (clock_text t)"
proof -
  let ?h = "t div 3600" and ?c = "clock_text t"
  let ?s = "sample_slot ''BAW1'' (clock_text (3600 * ?h))"
  have h: "0 \<le> ?h" "?h < 24" using assms by auto
  have "?s \<in> set hourly_slots" unfolding hourly_slots_def set_map using h by (intro image_eqI [of _ _ "nat ?h"]) auto
  moreover have "slot_conflict sample_input (Some full_day_config) (rate_window sample_input (Some full_day_config)) ?c ?s \<noteq> None"
  proof
    assume none: "slot_conflict sample_input (Some full_day_config) (rate_window sample_input (Some full_day_config)) ?c ?s = None"
    have s: "parseClock (clock_text (3600 * ?h)) = Some (3600 * ?h)" "plain_clock (clock_text (3600 * ?h))"
      using h by (simp_all add: parseClock_clock_text plain_clock_parsed)
    have c: "parseClock ?c = Some t" "plain_clock ?c" "toHHMMSS ?c = ?c"
      using assms by (simp_all add: parseClock_clock_text plain_clock_parsed toHHMMSS_clock_text)
    have "equal_fold (trim_space (sl_Origin ?s)) (trim_space (ci_Origin sample_input))"
      "\<not> equal_fold (trim_space (sl_Callsign ?s)) (trim_space (ci_Callsign sample_input))"
      unfolding sample_slot_def sample_input_def SlotEntry.simps CalcInput.simps by code_simp+
    from no_conflict_separated [OF none this c] s
    have sep: "separated_in_seconds sample_input (Some full_day_config) t ?s (3600 * ?h)" by (simp add: sample_slot_def)
    have "sameOrDependentRunway (ci_DepRwy sample_input) (sl_DepRwy ?s) (Some full_day_config)"
      "ci_HasManCtot sample_input = sl_HasManCtot ?s" "RateForRunway (Some full_day_config) (ci_DepRwy sample_input) = 1"
      unfolding sample_slot_def sample_input_def SlotEntry.simps CalcInput.simps by code_simp+
    with sep have "3600 \<le> \<bar>clock_gap (3600 * ?h) t\<bar>" by (simp only: separated_in_seconds_def) simp
    moreover have "\<bar>clock_gap (3600 * ?h) t\<bar> < 3600"
    proof -
      obtain m where "m = t - 3600 * ?h" "0 \<le> m" "m < 3600" by (simp add: minus_mult_div_eq_mod)
      then show ?thesis by (simp add: clock_gap_def Let_def)
    qed
    ultimately show False by simp
  qed
  ultimately show ?thesis by (auto simp: slot_free_def list_all_iff)
qed

text \<open>
  \<open>Calculate\<close> can run forever: with one departure an hour and a slot on every hour of the day
  every half-minute step is taken, and the loop, which has no bound, never ends.
\<close>

theorem calculate_never_returns: "Calculate sample_input hourly_slots (Some full_day_config) zero_time = None"
proof -
  let ?u = "unconstrainedTtot sample_input (Some full_day_config) zero_time"
  have u: "?u = clock_text 36600" by code_simp
  have "find (slot_free sample_input hourly_slots (Some full_day_config)) (half_minute_steps ?u) = None"
    unfolding half_minute_steps_def sample_ttot by (auto simp: find_None_iff u hourly_slots_block)
  then show ?thesis
    by (simp add: Calculate_reference calculate_reference_def Let_def sample_tobt sample_ttot)
qed

section \<open>Witnesses\<close>

definition sample_config :: CdmAirportConfig where
  "sample_config = NewDefaultAirportConfig ''EKCH''"

lemma sample_result: "Calculate sample_input [sample_slot ''BAW1'' ''1010''] (Some sample_config) zero_time =
    Some \<lparr> cres_Tsat = ''100300'', cres_Ttot = ''101300'' \<rparr>"
  by code_simp

theorem calculated_slot_is_separated_witness:
  "\<exists>t. parseClock ''101300'' = Some t \<and> separated_in_seconds sample_input (Some sample_config) t (sample_slot ''BAW1'' ''1010'') 36600"
proof -
  have "plain_input sample_input" "equal_fold (trim_space (sl_Origin (sample_slot ''BAW1'' ''1010''))) (trim_space (ci_Origin sample_input))"
    "\<not> equal_fold (trim_space (sl_Callsign (sample_slot ''BAW1'' ''1010''))) (trim_space (ci_Callsign sample_input))"
    "parseClock (sl_Ttot (sample_slot ''BAW1'' ''1010'')) = Some 36600" "plain_clock (sl_Ttot (sample_slot ''BAW1'' ''1010''))"
    by code_simp+
  from calculated_slot_is_separated [OF sample_result _ this(1) _ this(2-5)] show ?thesis by simp
qed

theorem calculate_returns_witness:
  "\<exists>r. Calculate sample_input (map (\<lambda>i. sample_slot ''BAW1'' ''1010'') [0..<200]) (Some sample_config) zero_time = Some r"
proof -
  have "RateForRunway (Some sample_config) (ci_DepRwy sample_input) = 20" by code_simp
  moreover have "SidIntervalMinutes (Some sample_config) (ci_DepRwy sample_input) (ci_Sid sample_input) s \<le> of_int 3" for s
    by (simp add: SidIntervalMinutes_def sample_config_def NewDefaultAirportConfig_def)
  ultimately show ?thesis by (intro calculate_returns [of 3]) simp_all
qed

end
