(* ===== verification/Cdm_Data.thy ===== *)
theory Cdm_Data
  imports Cdm_Calculate
begin

text \<open>
  The CDM document of a strip (\<^verbatim>\<open>backend/internal/models/cdm_data.go\<close>) and the reason markers
  of a calculation (\<^verbatim>\<open>backend/internal/cdm/markers.go\<close>, \<^verbatim>\<open>webapi.go\<close>).

  The record has the fields that sequencing reads or writes; the others (the ATFCM, milestone, ready
  and restriction fields and the wire-only ones) are copied unchanged by every function modelled here. A
  clone has the value of the original. \<^verbatim>\<open>Normalize\<close> and the \<^verbatim>\<open>Effective*\<close> accessors of a nil
  document are those of \<open>empty_cdm\<close>.
\<close>

section \<open>Data\<close>

definition CtotSourceManual :: string where "CtotSourceManual = ''Manual''"
definition CdmInvalidReasonStaleTobt :: string where "CdmInvalidReasonStaleTobt = ''STALE_TOBT''"
definition CdmInvalidReasonStaleTsat :: string where "CdmInvalidReasonStaleTsat = ''STALE_TSAT''"
definition CdmRecalculationRequired :: string where "CdmRecalculationRequired = ''required''"
definition CdmRecalculationImproveOnly :: string where "CdmRecalculationImproveOnly = ''improve_only''"

record CdmReasonMarker =
  rm_Kind :: string
  rm_Message :: string
  rm_AgainstCallsign :: "string option"
  rm_AgainstRunway :: "string option"
  rm_AgainstTtot :: "string option"
  rm_FromTtot :: "string option"
  rm_ToTtot :: "string option"
  rm_RequiredSpacingMinutes :: "rat option"

record CdmCalculation =
  cc_BaseTime :: "string option"
  cc_BaseSource :: "string option"
  cc_TaxiMinutes :: "int option"
  cc_TaxiRunway :: "string option"
  cc_InvalidReason :: "string option"
  cc_SequencePosition :: "int option"
  cc_LeaderCallsign :: "string option"
  cc_LeaderTtot :: "string option"
  cc_ReasonMarkers :: "CdmReasonMarker list"

record CdmData =
  cd_ViffAuthority :: string
  cd_Tobt :: "string option"
  cd_TobtSetBy :: "string option"
  cd_TobtConfirmedBy :: "string option"
  cd_TobtAutoSynced :: bool
  cd_TobtAutoAdjusted :: bool
  cd_TobtManuallyConfirmed :: bool
  cd_Tsat :: "string option"
  cd_ExpiredTsat :: "string option"
  cd_ViffProposalTsat :: "string option"
  cd_ViffProposalTtot :: "string option"
  cd_Ttot :: "string option"
  cd_Ctot :: "string option"
  cd_CtotSource :: "string option"
  cd_Aobt :: "string option"
  cd_Asat :: "string option"
  cd_Eobt :: "string option"
  cd_DeIce :: "string option"
  cd_DeicePlatform :: "string option"
  cd_Phase :: "string option"
  cd_Calculation :: "CdmCalculation option"
  cd_Recalculate :: bool
  cd_RecalculationMode :: string
  cd_PushbackRecalculate :: bool
  cd_CtotRecalculate :: bool

definition empty_calculation :: CdmCalculation where
  "empty_calculation = \<lparr> cc_BaseTime = None, cc_BaseSource = None, cc_TaxiMinutes = None, cc_TaxiRunway = None, cc_InvalidReason = None,
     cc_SequencePosition = None, cc_LeaderCallsign = None, cc_LeaderTtot = None, cc_ReasonMarkers = [] \<rparr>"

definition empty_cdm :: CdmData where
  "empty_cdm = \<lparr> cd_ViffAuthority = '''', cd_Tobt = None, cd_TobtSetBy = None, cd_TobtConfirmedBy = None, cd_TobtAutoSynced = False,
     cd_TobtAutoAdjusted = False, cd_TobtManuallyConfirmed = False, cd_Tsat = None, cd_ExpiredTsat = None, cd_ViffProposalTsat = None,
     cd_ViffProposalTtot = None, cd_Ttot = None, cd_Ctot = None, cd_CtotSource = None, cd_Aobt = None, cd_Asat = None, cd_Eobt = None,
     cd_DeIce = None, cd_DeicePlatform = None, cd_Phase = None, cd_Calculation = None, cd_Recalculate = False, cd_RecalculationMode = '''',
     cd_PushbackRecalculate = False, cd_CtotRecalculate = False \<rparr>"

section \<open>Methods of the document\<close>

definition calculationIsEmpty :: "CdmCalculation option \<Rightarrow> bool" where
  "calculationIsEmpty c \<longleftrightarrow> (case c of None \<Rightarrow> True
     | Some c \<Rightarrow> cc_BaseTime c = None \<and> cc_BaseSource c = None \<and> cc_TaxiMinutes c = None \<and> cc_TaxiRunway c = None \<and>
         cc_InvalidReason c = None \<and> cc_SequencePosition c = None \<and> cc_LeaderCallsign c = None \<and> cc_LeaderTtot c = None \<and>
         cc_ReasonMarkers c = [])"

definition Normalize :: "CdmData \<Rightarrow> CdmData" where
  "Normalize d = (if calculationIsEmpty (cd_Calculation d) then d\<lparr> cd_Calculation := None \<rparr> else d)"

definition EffectiveCalculation :: "CdmData \<Rightarrow> CdmCalculation option" where
  "EffectiveCalculation d = cd_Calculation (Normalize d)"

definition NeedsLocalRecalculation :: "CdmData option \<Rightarrow> bool" where
  "NeedsLocalRecalculation d \<longleftrightarrow> (case d of None \<Rightarrow> False | Some d \<Rightarrow> cd_Recalculate d)"

definition MarkLocalRecalculationPending :: "CdmData \<Rightarrow> CdmData" where
  "MarkLocalRecalculationPending d = d\<lparr> cd_Recalculate := True, cd_RecalculationMode := CdmRecalculationRequired \<rparr>"

definition MarkLocalImprovementPending :: "CdmData \<Rightarrow> CdmData" where
  "MarkLocalImprovementPending d = d\<lparr> cd_Recalculate := True, cd_RecalculationMode := CdmRecalculationImproveOnly \<rparr>"

definition MarkCtotRecalculationPending :: "CdmData \<Rightarrow> CdmData" where
  "MarkCtotRecalculationPending d = (MarkLocalRecalculationPending d)\<lparr> cd_CtotRecalculate := True \<rparr>"

definition ClearLocalRecalculationPending :: "CdmData \<Rightarrow> CdmData" where
  "ClearLocalRecalculationPending d =
     d\<lparr> cd_Recalculate := False, cd_RecalculationMode := '''', cd_PushbackRecalculate := False, cd_CtotRecalculate := False \<rparr>"

definition IsImprovementOnlyRecalculation :: "CdmData option \<Rightarrow> bool" where
  "IsImprovementOnlyRecalculation d \<longleftrightarrow>
     (case d of None \<Rightarrow> False | Some d \<Rightarrow> cd_Recalculate d \<and> cd_RecalculationMode d = CdmRecalculationImproveOnly)"

definition HasManualCtot :: "CdmData \<Rightarrow> bool" where
  "HasManualCtot d \<longleftrightarrow> cd_CtotSource d = Some CtotSourceManual \<and> cd_Ctot d \<noteq> None \<and> cd_Ctot d \<noteq> Some ''''"

definition EffectiveTaxiMinutesForRunway :: "CdmData \<Rightarrow> string \<Rightarrow> int option" where
  "EffectiveTaxiMinutesForRunway d runway =
     (case EffectiveCalculation d of None \<Rightarrow> None
      | Some c \<Rightarrow> (case cc_TaxiMinutes c of None \<Rightarrow> None
          | Some m \<Rightarrow> (let storedRunway = trim_space (value_or_empty (cc_TaxiRunway c)) in
              if storedRunway = '''' \<or> runway = '''' \<or> equal_fold storedRunway (trim_space runway) then Some m else None)))"

section \<open>Small helpers\<close>

definition stringPointerIfPresent :: "string \<Rightarrow> string option" where
  "stringPointerIfPresent value = (if trim_space value = '''' then None else Some value)"

definition intPointerIfPositive :: "int \<Rightarrow> int option" where
  "intPointerIfPositive value = (if value \<le> 0 then None else Some value)"

definition intValue :: "int option \<Rightarrow> int" where
  "intValue value = (case value of None \<Rightarrow> 0 | Some v \<Rightarrow> v)"

definition truncateCDMClockValue :: "string \<Rightarrow> string" where
  "truncateCDMClockValue value = (let v = trim_space value in if 4 < length v then take 4 v else v)"

definition applyAutoSyncedTobtUpdate :: "CdmData \<Rightarrow> string \<Rightarrow> CdmData" where
  "applyAutoSyncedTobtUpdate updated tobt =
     updated\<lparr> cd_Tobt := Some tobt, cd_ExpiredTsat := None, cd_Eobt := Some tobt, cd_TobtSetBy := None, cd_TobtConfirmedBy := None,
       cd_TobtAutoSynced := True, cd_TobtAutoAdjusted := False, cd_TobtManuallyConfirmed := False \<rparr>"

definition groundStateAllowsAsat :: "string \<Rightarrow> bool" where
  "groundStateAllowsAsat groundState \<longleftrightarrow>
     to_upper (trim_space groundState) \<in> set [''STUP'', ''ST-UP'', ''PUSH'', ''TAXI'', ''LINEUP'', ''DEPA'']"

section \<open>Reason markers\<close>

definition marker :: "string \<Rightarrow> string \<Rightarrow> string \<Rightarrow> CdmReasonMarker" where
  "marker kind message against =
     \<lparr> rm_Kind = kind, rm_Message = message, rm_AgainstCallsign = (if against \<noteq> '''' then stringPointerIfPresent against else None),
       rm_AgainstRunway = None, rm_AgainstTtot = None, rm_FromTtot = None, rm_ToTtot = None, rm_RequiredSpacingMinutes = None \<rparr>"

definition isPersistentReasonKind :: "string \<Rightarrow> bool" where
  "isPersistentReasonKind kind \<longleftrightarrow> kind = ''eobt_capped''"

definition persistentReasonMarkers :: "CdmCalculation \<Rightarrow> CdmReasonMarker list" where
  "persistentReasonMarkers c = filter (\<lambda>m. isPersistentReasonKind (rm_Kind m)) (cc_ReasonMarkers c)"

definition calculation_or_new :: "CdmData \<Rightarrow> CdmCalculation" where
  "calculation_or_new d = (case cd_Calculation d of None \<Rightarrow> empty_calculation | Some c \<Rightarrow> c)"

definition setCalculationReasonMarkers :: "CdmData \<Rightarrow> CdmReasonMarker list \<Rightarrow> CdmData" where
  "setCalculationReasonMarkers data markers =
     (let c = calculation_or_new data in
      Normalize (data\<lparr> cd_Calculation := Some (c\<lparr> cc_ReasonMarkers := persistentReasonMarkers c @ markers \<rparr>) \<rparr>))"

definition traceReasonFamily :: "string \<Rightarrow> string" where
  "traceReasonFamily kind =
     (if kind = ''runway_slot_collision'' \<or> kind = ''runway_rate_window'' \<or> kind = ''runway_spacing'' then ''runway_spacing'' else kind)"

definition normalizeTraceEntryKind :: "calculationTraceEntry \<Rightarrow> calculationTraceEntry" where
  "normalizeTraceEntryKind e = (if traceReasonFamily (te_Kind e) = ''runway_spacing'' then e\<lparr> te_Kind := ''runway_spacing'' \<rparr> else e)"

definition shouldSkipTraceEntry :: "calculationTraceEntry \<Rightarrow> bool" where
  "shouldSkipTraceEntry e \<longleftrightarrow>
     (let fr = normalizeCalculationClock (te_FromTtot e); to' = normalizeCalculationClock (te_ToTtot e) in
      fr \<noteq> '''' \<and> to' \<noteq> '''' \<and> fr = to')"

definition shouldMergeTraceEntries :: "calculationTraceEntry \<Rightarrow> calculationTraceEntry \<Rightarrow> bool" where
  "shouldMergeTraceEntries previous current =
     (if \<not> equal_fold (trim_space (te_AgainstCallsign previous)) (trim_space (te_AgainstCallsign current)) then False
      else if traceReasonFamily (te_Kind previous) \<noteq> traceReasonFamily (te_Kind current) then False
      else if traceReasonFamily (te_Kind previous) = ''runway_spacing''
      then equal_fold (trim_space (te_AgainstRunway previous)) (trim_space (te_AgainstRunway current))
      else equal_fold (trim_space (te_Kind previous)) (trim_space (te_Kind current)))"

definition mergeTraceEntries :: "calculationTraceEntry \<Rightarrow> calculationTraceEntry \<Rightarrow> calculationTraceEntry" where
  "mergeTraceEntries previous current =
     (let m = normalizeTraceEntryKind previous; c = normalizeTraceEntryKind current in
      m\<lparr> te_Kind := te_Kind c,
         te_AgainstCallsign := (if te_AgainstCallsign m = '''' then te_AgainstCallsign c else te_AgainstCallsign m),
         te_AgainstRunway := (if te_AgainstRunway m = '''' then te_AgainstRunway c else te_AgainstRunway m),
         te_AgainstTtot := (if te_AgainstTtot m = '''' then te_AgainstTtot c else te_AgainstTtot m),
         te_AgainstSid := (if te_AgainstSid m = '''' then te_AgainstSid c else te_AgainstSid m),
         te_FromTtot := (if te_FromTtot m = '''' then te_FromTtot c else te_FromTtot m),
         te_ToTtot := (if te_ToTtot c \<noteq> '''' then te_ToTtot c else te_ToTtot m),
         te_RequiredSpacingMinutes := (if te_RequiredSpacingMinutes m < te_RequiredSpacingMinutes c
            then te_RequiredSpacingMinutes c else te_RequiredSpacingMinutes m) \<rparr>)"

text \<open>The compacted trace is built reversed, its head being the last entry.\<close>

fun compact_onto :: "calculationTraceEntry list \<Rightarrow> calculationTraceEntry list \<Rightarrow> calculationTraceEntry list" where
  "compact_onto compacted [] = compacted"
| "compact_onto compacted (entry # trace) =
     (if shouldSkipTraceEntry entry then compact_onto compacted trace
      else (case compacted of
          [] \<Rightarrow> compact_onto [normalizeTraceEntryKind entry] trace
        | lst # earlier \<Rightarrow>
            (if shouldMergeTraceEntries lst entry then compact_onto (mergeTraceEntries lst entry # earlier) trace
             else compact_onto (normalizeTraceEntryKind entry # compacted) trace)))"

definition compactCalculationTrace :: "calculationTraceEntry list \<Rightarrow> calculationTraceEntry list" where
  "compactCalculationTrace trace = rev (compact_onto [] trace)"

definition reasonMarkerFromTrace :: "calculationTraceEntry \<Rightarrow> CdmReasonMarker" where
  "reasonMarkerFromTrace e =
     \<lparr> rm_Kind = te_Kind (normalizeTraceEntryKind e), rm_Message = '''',
       rm_AgainstCallsign = stringPointerIfPresent (trim_space (te_AgainstCallsign e)),
       rm_AgainstRunway = stringPointerIfPresent (trim_space (te_AgainstRunway e)),
       rm_AgainstTtot = stringPointerIfPresent (normalizeCalculationClock (te_AgainstTtot e)),
       rm_FromTtot = stringPointerIfPresent (normalizeCalculationClock (te_FromTtot e)),
       rm_ToTtot = stringPointerIfPresent (normalizeCalculationClock (te_ToTtot e)),
       rm_RequiredSpacingMinutes = (if 0 < te_RequiredSpacingMinutes e then Some (te_RequiredSpacingMinutes e) else None) \<rparr>"

definition movementReasonMarkersFromTrace :: "calculationTraceEntry list \<Rightarrow> CdmReasonMarker list" where
  "movementReasonMarkersFromTrace trace =
     (if trace = [] then []
      else if compactCalculationTrace trace = [] then []
      else [reasonMarkerFromTrace (last (compactCalculationTrace trace))])"

text \<open>Kind and message.\<close>

definition buildInvalidReason :: "CdmData \<Rightarrow> string \<times> string" where
  "buildInvalidReason data =
     (let r = (case EffectiveCalculation data of None \<Rightarrow> '''' | Some c \<Rightarrow> value_or_empty (cc_InvalidReason c)) in
      if r = CdmInvalidReasonStaleTsat
      then (''stale_tsat'', ''The previous TSAT has expired, so the flight is waiting for a fresh recalculation.'')
      else if r = CdmInvalidReasonStaleTobt
      then (''stale_tobt'', ''The TOBT is more than 5 minutes in the past, so the flight is waiting for an updated TOBT before it can be resequenced.'')
      else (''unsequenced'', ''The flight does not currently have a valid TTOT for sequencing.''))"

definition invalidReasonMarker :: "CdmData \<Rightarrow> CdmReasonMarker list" where
  "invalidReasonMarker data =
     (case buildInvalidReason data of (kind, message) \<Rightarrow> if kind = ''unsequenced'' then [] else [marker kind message ''''])"

section \<open>The snapshot of a calculation\<close>

definition applyCalculationSnapshot :: "CdmData \<Rightarrow> CalcInput \<Rightarrow> string \<Rightarrow> string \<Rightarrow> CdmData" where
  "applyCalculationSnapshot data input runway invalidReason =
     (case selectCalculationBaseWithSource input of (baseTime, baseSource) \<Rightarrow>
        Normalize (data\<lparr> cd_Calculation := Some ((calculation_or_new data)\<lparr>
          cc_BaseTime := stringPointerIfPresent baseTime, cc_BaseSource := stringPointerIfPresent baseSource,
          cc_TaxiMinutes := intPointerIfPositive (ci_TaxiMin input), cc_TaxiRunway := stringPointerIfPresent runway,
          cc_InvalidReason := stringPointerIfPresent invalidReason \<rparr>) \<rparr>))"

definition calculationInvalidReason :: "CalcInput \<Rightarrow> CalcResult \<Rightarrow> gotime \<Rightarrow> string" where
  "calculationInvalidReason input result now =
     (if cres_Tsat result \<noteq> '''' \<or> cres_Ttot result \<noteq> '''' then ''''
      else if shouldInvalidateStaleTobt input (timeToClock now) then CdmInvalidReasonStaleTobt else '''')"

section \<open>Lemmas\<close>

lemma Normalize_fields [simp]:
  "cd_Tsat (Normalize d) = cd_Tsat d" "cd_Ttot (Normalize d) = cd_Ttot d" "cd_Recalculate (Normalize d) = cd_Recalculate d"
  "cd_Ctot (Normalize d) = cd_Ctot d" "cd_CtotSource (Normalize d) = cd_CtotSource d" "HasManualCtot (Normalize d) = HasManualCtot d"
  by (simp_all add: Normalize_def HasManualCtot_def)

lemma Normalize_idem [simp]: "Normalize (Normalize d) = Normalize d"
  by (simp add: Normalize_def calculationIsEmpty_def)

lemma snapshot_fields [simp]:
  "cd_Tsat (applyCalculationSnapshot d i r v) = cd_Tsat d" "cd_Ttot (applyCalculationSnapshot d i r v) = cd_Ttot d"
  "cd_Recalculate (applyCalculationSnapshot d i r v) = cd_Recalculate d"
  "cd_Ctot (applyCalculationSnapshot d i r v) = cd_Ctot d" "HasManualCtot (applyCalculationSnapshot d i r v) = HasManualCtot d"
  by (simp_all add: applyCalculationSnapshot_def split_beta) (simp_all add: HasManualCtot_def)

lemma markers_fields [simp]:
  "cd_Tsat (setCalculationReasonMarkers d ms) = cd_Tsat d" "cd_Ttot (setCalculationReasonMarkers d ms) = cd_Ttot d"
  "cd_Recalculate (setCalculationReasonMarkers d ms) = cd_Recalculate d"
  "cd_Ctot (setCalculationReasonMarkers d ms) = cd_Ctot d" "HasManualCtot (setCalculationReasonMarkers d ms) = HasManualCtot d"
  by (simp_all add: setCalculationReasonMarkers_def Let_def) (simp_all add: HasManualCtot_def)

lemma clear_fields [simp]:
  "cd_Tsat (ClearLocalRecalculationPending d) = cd_Tsat d" "cd_Ttot (ClearLocalRecalculationPending d) = cd_Ttot d"
  "\<not> cd_Recalculate (ClearLocalRecalculationPending d)"
  "cd_Ctot (ClearLocalRecalculationPending d) = cd_Ctot d" "HasManualCtot (ClearLocalRecalculationPending d) = HasManualCtot d"
  by (simp_all add: ClearLocalRecalculationPending_def HasManualCtot_def)

end
