(* ===== verification/Cdm_Sequence.thy ===== *)
theory Cdm_Sequence
  imports Cdm_Data
begin

text \<open>
  The recalculation of the departures of an airport (\<^verbatim>\<open>backend/internal/cdm/sequence.go\<close>,
  \<^verbatim>\<open>SequenceService.recalculateAirport\<close>): expired flights are recovered, slots that need no
  recalculation are preserved, and the other flights are calculated in order of priority against the
  slots already given.

  The strips are the rows that \<^verbatim>\<open>ListByOrigin\<close> returned, nil entries as \<open>None\<close>; of a strip the fields
  that sequencing reads are kept. What the code calls outside of the calculation is a parameter of the
  run (\<open>services\<close>): the outcome of \<^verbatim>\<open>SetCdmData\<close>, of the capture of the vIFF authority (which may set
  the document's authority token) and of the dispatch of an EuroScope command. The calls that took
  effect are recorded in order (\<open>effect\<close>); logging, tracing and metrics are left out. \<open>None\<close> is a run
  that never returns because a calculation does not.
\<close>

section \<open>Data\<close>

record Strip =
  s_Callsign :: string
  s_Origin :: string
  s_Destination :: string
  s_Sid :: "string option"
  s_Runway :: "string option"
  s_AircraftCategory :: "string option"
  s_State :: "string option"
  s_PositionLatitude :: "coordinate option"
  s_PositionLongitude :: "coordinate option"
  s_CdmData :: "CdmData option"
  s_EuroscopeSeenAt :: "gotime option"

record sequencingCandidate =
  sc_strip :: Strip
  sc_input :: CalcInput
  sc_baseTime :: string
  sc_naturalTtot :: string
  sc_slot :: SlotEntry
  sc_hasSlot :: bool
  sc_hasCtot :: bool
  sc_improvement :: bool
  sc_started :: bool
  sc_staleBase :: bool
  sc_recoveredEobt :: string

datatype recalc_error = ErrStore string | ErrNotPersisted string | ErrAuthority string | ErrDispatch string | ErrUnavailable string

datatype effect = Persist string CdmData | BroadcastEobt string string
  | PublishUpdates "(string \<times> CdmData) list" | AfterPersist string

record services =
  sv_SetCdmData :: "string \<Rightarrow> CdmData \<Rightarrow> string + int"
  sv_CaptureViffAuthority :: "Strip \<Rightarrow> CdmData \<Rightarrow> string + string option"
  sv_DispatchEobt :: "string \<Rightarrow> string \<Rightarrow> string + unit"
  sv_HasAfterPersist :: bool

record run =
  run_slots :: "SlotEntry list"
  run_effects :: "effect list"
  run_updates :: "(string \<times> CdmData) list"

datatype outcome = Continue run | Failed recalc_error run

section \<open>Strips\<close>

definition data_of :: "Strip \<Rightarrow> CdmData" where
  "data_of strip = (case s_CdmData strip of None \<Rightarrow> empty_cdm | Some d \<Rightarrow> d)"

definition stripHasStarted :: "Strip \<Rightarrow> bool" where
  "stripHasStarted strip \<longleftrightarrow>
     value_or_empty (cd_Asat (data_of strip)) \<noteq> '''' \<or> value_or_empty (cd_Aobt (data_of strip)) \<noteq> '''' \<or>
     groundStateAllowsAsat (value_or_empty (s_State strip))"

definition dataAllowsStartedRecalculation :: "Strip \<Rightarrow> bool" where
  "dataAllowsStartedRecalculation strip \<longleftrightarrow>
     s_CdmData strip \<noteq> None \<and> cd_Recalculate (data_of strip) \<and>
     (cd_CtotRecalculate (data_of strip) \<and> stripHasStarted strip \<or>
      cd_PushbackRecalculate (data_of strip) \<and> value_or_empty (cd_Aobt (data_of strip)) = '''')"

definition calculationBaseTime :: "Strip \<Rightarrow> string" where
  "calculationBaseTime strip =
     (let tobt = normalizeCalculationClock (value_or_empty (cd_Tobt (data_of strip)));
          eobt = normalizeCalculationClock (value_or_empty (cd_Eobt (data_of strip))) in
      if tobt \<noteq> '''' then tobt else eobt)"

definition sequenceSortKey :: "Strip \<Rightarrow> string" where
  "sequenceSortKey strip =
     (let base = calculationBaseTime strip in
      if base \<noteq> '''' then base else normalizeCalculationClock (value_or_empty (cd_Ttot (data_of strip))))"

definition shouldSkipStrip :: "Strip \<Rightarrow> bool" where
  "shouldSkipStrip strip =
     (if s_EuroscopeSeenAt strip = None then True
      else if to_upper (trim_space (value_or_empty (s_State strip))) \<in> set [''ARR'', ''DEPA''] then True
      else sequenceSortKey strip = '''')"

definition localCalcTimesExpired :: "Strip \<Rightarrow> gotime \<Rightarrow> bool" where
  "localCalcTimesExpired strip now =
     (case s_CdmData strip of None \<Rightarrow> False
      | Some d \<Rightarrow>
          (let tsat = normalizeCalculationClock (value_or_empty (cd_Tsat d));
               tobt = normalizeCalculationClock (value_or_empty (cd_Tobt d)) in
           if tsat \<noteq> '''' then isMoreThanMinutesPast tsat (timeToClock now) 5
           else if tobt \<noteq> '''' then isMoreThanMinutesPast tobt (timeToClock now) 5 else False))"

definition shouldRecalculateStrip :: "Strip \<Rightarrow> gotime \<Rightarrow> bool" where
  "shouldRecalculateStrip strip now =
     (case s_CdmData strip of None \<Rightarrow> True
      | Some d \<Rightarrow>
          (if stripHasStarted strip then dataAllowsStartedRecalculation strip
           else if cd_Recalculate d then True
           else if value_or_empty (cd_Phase d) = ''I'' then False
           else if localCalcTimesExpired strip now then True
           else normalizeCalculationClock (value_or_empty (cd_Tsat d)) = '''' \<or>
             normalizeCalculationClock (value_or_empty (cd_Ttot d)) = ''''))"

definition isTsatSpecificallyExpired :: "Strip \<Rightarrow> gotime \<Rightarrow> bool" where
  "isTsatSpecificallyExpired strip now =
     (case s_CdmData strip of None \<Rightarrow> False
      | Some d \<Rightarrow>
          (let tsat = normalizeCalculationClock (value_or_empty (cd_Tsat d)) in
           if tsat = '''' then False else isMoreThanMinutesPast tsat (timeToClock now) 5))"

definition recovered_data :: "CdmData \<Rightarrow> gotime \<Rightarrow> CdmData" where
  "recovered_data d now =
     MarkLocalRecalculationPending
       ((applyAutoSyncedTobtUpdate d (truncateCDMClockValue (addMinutes (timeToClock now) 10)))
         \<lparr> cd_TobtAutoAdjusted := True, cd_Tsat := None, cd_Ttot := None, cd_ExpiredTsat := None, cd_Phase := None \<rparr>)"

text \<open>The strip after \<^verbatim>\<open>recoverExpiredTsat\<close>, and whether it was recovered.\<close>

definition recoverExpiredTsat :: "Strip \<Rightarrow> gotime \<Rightarrow> Strip \<times> bool" where
  "recoverExpiredTsat strip now =
     (case s_CdmData strip of None \<Rightarrow> (strip, False)
      | Some d \<Rightarrow>
          (if stripHasStarted strip \<or> cd_Recalculate d then (strip, False)
           else
             (let tsat = normalizeCalculationClock (value_or_empty (cd_Tsat d));
                  stale = (case cd_Calculation d of None \<Rightarrow> False
                    | Some c \<Rightarrow> value_or_empty (cc_InvalidReason c) = CdmInvalidReasonStaleTsat);
                  tsat = (if tsat = '''' \<and> stale then normalizeCalculationClock (value_or_empty (cd_ExpiredTsat d)) else tsat) in
              if parseClock tsat = None \<or> \<not> isMoreThanMinutesPast tsat (timeToClock now) 8 then (strip, False)
              else (strip\<lparr> s_CdmData := Some (recovered_data d now) \<rparr>, True))))"

section \<open>Inputs and slots\<close>

type_synonym polygon_test = "CdmTaxiPoint list \<Rightarrow> coordinate \<times> coordinate \<Rightarrow> bool"

definition resolveTaxiMinutesForStrip :: "polygon_test \<Rightarrow> Strip \<Rightarrow> CdmAirportConfig option \<Rightarrow> int" where
  "resolveTaxiMinutesForStrip contains_point strip config =
     (if config = None then DefaultCDMTaxiMinutes
      else
        (let depRwy = value_or_empty (s_Runway strip);
             position = (case (s_PositionLatitude strip, s_PositionLongitude strip) of
               (Some lat, Some lon) \<Rightarrow> TaxiMinutesForPosition contains_point config depRwy lat lon | _ \<Rightarrow> None);
             stored = (case s_CdmData strip of None \<Rightarrow> None | Some d \<Rightarrow> EffectiveTaxiMinutesForRunway d depRwy) in
         case position of Some m \<Rightarrow> m
         | None \<Rightarrow> (case stored of Some m \<Rightarrow> if 0 < m then m else TaxiMinutesForRunway config depRwy
             | None \<Rightarrow> TaxiMinutesForRunway config depRwy)))"

definition resolveDeiceTaxiMinutes :: "polygon_test \<Rightarrow> Strip \<Rightarrow> CdmAirportConfig option \<Rightarrow> string \<Rightarrow> int" where
  "resolveDeiceTaxiMinutes contains_point strip config platform =
     (if config = None then 0
      else if platform = '''' then 0
      else
        (let depRwy = value_or_empty (s_Runway strip);
             position = (case (s_PositionLatitude strip, s_PositionLongitude strip) of
               (Some lat, Some lon) \<Rightarrow> DeiceTaxiMinutesForPosition contains_point config depRwy platform lat lon | _ \<Rightarrow> None) in
         case position of Some m \<Rightarrow> m
         | None \<Rightarrow> (case DeiceTaxiMinutesForRunway config depRwy platform of Some m \<Rightarrow> m
             | None \<Rightarrow> (case DeiceMinutesForPlatform config platform of Some m \<Rightarrow> m | None \<Rightarrow> 0))))"

definition resolveDeiceTaxiMinutesForStrip :: "polygon_test \<Rightarrow> Strip \<Rightarrow> CdmAirportConfig option \<Rightarrow> int" where
  "resolveDeiceTaxiMinutesForStrip contains_point strip config =
     (case s_CdmData strip of None \<Rightarrow> 0
      | Some d \<Rightarrow> resolveDeiceTaxiMinutes contains_point strip config (value_or_empty (cd_DeicePlatform d)))"

definition buildCalcInput :: "polygon_test \<Rightarrow> Strip \<Rightarrow> CdmAirportConfig option \<Rightarrow> CalcInput" where
  "buildCalcInput contains_point strip config =
     (let data = data_of strip in
      \<lparr> ci_Callsign = s_Callsign strip, ci_Origin = s_Origin strip, ci_Destination = s_Destination strip,
        ci_DepRwy = value_or_empty (s_Runway strip), ci_Sid = value_or_empty (s_Sid strip),
        ci_WakeCat = value_or_empty (s_AircraftCategory strip),
        ci_Eobt = normalizeCalculationClock (value_or_empty (cd_Eobt data)),
        ci_Tobt = normalizeCalculationClock (value_or_empty (cd_Tobt data)),
        ci_TobtAuthoritative = cd_TobtManuallyConfirmed data, ci_Ctot = value_or_empty (cd_Ctot data),
        ci_Aobt = normalizeCalculationClock (value_or_empty (cd_Aobt data)),
        ci_Asat = normalizeCalculationClock (value_or_empty (cd_Asat data)),
        ci_TaxiMin = resolveTaxiMinutesForStrip contains_point strip config,
        ci_DeIceMin = deiceTypeToMinutes config (value_or_empty (cd_DeIce data)),
        ci_DeiceTaxiMin = resolveDeiceTaxiMinutesForStrip contains_point strip config,
        ci_HasManCtot = HasManualCtot data, ci_ManCtot = value_or_empty (cd_Ctot data) \<rparr>)"

definition strip_slot :: "Strip \<Rightarrow> CdmData \<Rightarrow> string \<Rightarrow> SlotEntry" where
  "strip_slot strip data ttot =
     \<lparr> sl_Callsign = s_Callsign strip, sl_Origin = s_Origin strip, sl_Destination = s_Destination strip,
       sl_DepRwy = value_or_empty (s_Runway strip), sl_Sid = value_or_empty (s_Sid strip),
       sl_WakeCat = value_or_empty (s_AircraftCategory strip), sl_Ttot = ttot,
       sl_HasManCtot = HasManualCtot data, sl_ManCtot = value_or_empty (cd_Ctot data) \<rparr>"

definition empty_slot :: SlotEntry where
  "empty_slot = \<lparr> sl_Callsign = '''', sl_Origin = '''', sl_Destination = '''', sl_DepRwy = '''', sl_Sid = '''', sl_WakeCat = '''',
     sl_Ttot = '''', sl_HasManCtot = False, sl_ManCtot = '''' \<rparr>"

definition existingSlotEntry :: "Strip \<Rightarrow> SlotEntry option" where
  "existingSlotEntry strip =
     (case s_CdmData strip of None \<Rightarrow> None
      | Some d \<Rightarrow> (let ttot = normalizeCalculationClock (value_or_empty (cd_Ttot d)) in
          if ttot = '''' then None else Some (strip_slot strip d ttot)))"

definition same_callsign :: "string \<Rightarrow> string \<Rightarrow> bool" where
  "same_callsign a b \<longleftrightarrow> equal_fold (trim_space a) (trim_space b)"

definition hasSlotForCallsign :: "SlotEntry list \<Rightarrow> string \<Rightarrow> bool" where
  "hasSlotForCallsign slots callsign \<longleftrightarrow> list_ex (\<lambda>s. same_callsign (sl_Callsign s) callsign) slots"

fun removeSlotForCallsign :: "SlotEntry list \<Rightarrow> string \<Rightarrow> SlotEntry list" where
  "removeSlotForCallsign [] callsign = []"
| "removeSlotForCallsign (s # slots) callsign =
     (if same_callsign (sl_Callsign s) callsign then slots else s # removeSlotForCallsign slots callsign)"

definition slotForCallsign :: "SlotEntry list \<Rightarrow> string \<Rightarrow> SlotEntry option" where
  "slotForCallsign slots callsign = find (\<lambda>s. same_callsign (sl_Callsign s) callsign) slots"

definition slotsWithoutCallsign :: "SlotEntry list \<Rightarrow> string \<Rightarrow> SlotEntry list" where
  "slotsWithoutCallsign slots callsign = filter (\<lambda>s. \<not> same_callsign (sl_Callsign s) callsign) slots"

definition hasPreservedSlotConflict :: "SlotEntry \<Rightarrow> SlotEntry list \<Rightarrow> CdmAirportConfig option \<Rightarrow> bool" where
  "hasPreservedSlotConflict candidate slots config \<longleftrightarrow>
     list_ex (\<lambda>slot. equal_fold (trim_space (sl_Origin slot)) (trim_space (sl_Origin candidate)) \<and>
       (violatesSameDestinationSeparation (sl_Ttot candidate) (sl_Destination candidate) (sl_Ttot slot) (sl_Destination slot) \<or>
        sameOrDependentRunway (sl_DepRwy candidate) (sl_DepRwy slot) config \<and> toHHMMSS (sl_Ttot slot) = toHHMMSS (sl_Ttot candidate))) slots"

definition isEarlierClock :: "string \<Rightarrow> string \<Rightarrow> bool" where
  "isEarlierClock candidate existing =
     (if parseClock candidate = None then False
      else if parseClock existing = None then True else 0 < minutesBetween candidate existing)"

section \<open>Order\<close>

definition flag_first :: "bool \<Rightarrow> bool \<Rightarrow> int" where
  "flag_first l r = (if l = r then 0 else if l then - 1 else 1)"

definition string_compare :: "string \<Rightarrow> string \<Rightarrow> int" where
  "string_compare a b = (if a < b then - 1 else if a = b then 0 else 1)"

fun first_nonzero :: "int list \<Rightarrow> int" where
  "first_nonzero [] = 0"
| "first_nonzero (x # xs) = (if x \<noteq> 0 then x else first_nonzero xs)"

definition compareSequencingCandidates :: "sequencingCandidate \<Rightarrow> sequencingCandidate \<Rightarrow> gotime \<Rightarrow> bool \<Rightarrow> int" where
  "compareSequencingCandidates left right anchor preserveExistingSlots =
     first_nonzero
       [if preserveExistingSlots then flag_first (sc_started left) (sc_started right) else 0,
        flag_first (sc_hasCtot left) (sc_hasCtot right),
        flag_first (ci_TobtAuthoritative (sc_input left)) (ci_TobtAuthoritative (sc_input right)),
        if preserveExistingSlots then compareClockForSort (sl_Ttot (sc_slot left)) (sl_Ttot (sc_slot right)) anchor else 0,
        - flag_first (sc_staleBase left) (sc_staleBase right),
        compareClockForSort (sc_naturalTtot left) (sc_naturalTtot right) anchor,
        compareClockForSort (sc_baseTime left) (sc_baseTime right) anchor,
        string_compare (trim_space (s_Callsign (sc_strip left))) (trim_space (s_Callsign (sc_strip right)))]"

definition preserved_less :: "gotime \<Rightarrow> sequencingCandidate \<Rightarrow> sequencingCandidate \<Rightarrow> bool" where
  "preserved_less now l r \<longleftrightarrow> compareSequencingCandidates l r now True < 0"

definition recalculate_less :: "gotime \<Rightarrow> sequencingCandidate \<Rightarrow> sequencingCandidate \<Rightarrow> bool" where
  "recalculate_less now l r =
     (let cmp = compareClockForSort (sl_Ttot (sc_slot l)) (sl_Ttot (sc_slot r)) now in
      if sc_improvement l \<and> sc_improvement r \<and> sc_hasSlot l \<and> sc_hasSlot r \<and> cmp \<noteq> 0 then cmp < 0
      else compareSequencingCandidates l r now False < 0)"

section \<open>Preserved slots\<close>

definition candidate_of :: "polygon_test \<Rightarrow> CdmAirportConfig option \<Rightarrow> gotime \<Rightarrow> Strip \<Rightarrow> sequencingCandidate" where
  "candidate_of contains_point config now row =
     (case recoverExpiredTsat row now of (strip, recovered) \<Rightarrow>
       (let input = buildCalcInput contains_point strip config in
        \<lparr> sc_strip = strip, sc_input = input, sc_baseTime = selectCalculationBase input,
          sc_naturalTtot = unconstrainedTtot input config now,
          sc_slot = (case existingSlotEntry strip of None \<Rightarrow> empty_slot | Some s \<Rightarrow> s),
          sc_hasSlot = (existingSlotEntry strip \<noteq> None),
          sc_hasCtot = (trim_space (value_or_empty (cd_Ctot (data_of strip))) \<noteq> ''''),
          sc_improvement = IsImprovementOnlyRecalculation (s_CdmData strip),
          sc_started = stripHasStarted strip,
          sc_staleBase = shouldInvalidateStaleTobt input (timeToClock now),
          sc_recoveredEobt = (if recovered then value_or_empty (cd_Eobt (data_of strip)) else '''') \<rparr>))"

fun live_strips :: "Strip option list \<Rightarrow> Strip list" where
  "live_strips [] = []"
| "live_strips (None # rows) = live_strips rows"
| "live_strips (Some strip # rows) = (if shouldSkipStrip strip then live_strips rows else strip # live_strips rows)"

definition candidates_of :: "polygon_test \<Rightarrow> CdmAirportConfig option \<Rightarrow> gotime \<Rightarrow> Strip option list \<Rightarrow> sequencingCandidate list" where
  "candidates_of contains_point config now rows = map (candidate_of contains_point config now) (live_strips rows)"

definition to_recalculate :: "gotime \<Rightarrow> sequencingCandidate \<Rightarrow> bool" where
  "to_recalculate now c \<longleftrightarrow> shouldRecalculateStrip (sc_strip c) now \<or> \<not> sc_hasSlot c"

definition calculateWithSinglePreservedSlot ::
    "SlotEntry \<Rightarrow> sequencingCandidate \<Rightarrow> CdmAirportConfig option \<Rightarrow> gotime \<Rightarrow> string option" where
  "calculateWithSinglePreservedSlot preserved candidate config now =
     map_option cres_Ttot (Calculate (sc_input candidate) [preserved] config now)"

fun preserved_blocks :: "CdmAirportConfig option \<Rightarrow> gotime \<Rightarrow> sequencingCandidate \<Rightarrow> sequencingCandidate list \<Rightarrow> bool option" where
  "preserved_blocks config now candidate [] = Some False"
| "preserved_blocks config now candidate (pending # rest) =
     (if sc_improvement pending \<or> sc_started pending \<or> sc_naturalTtot pending = '''' \<or>
         \<not> sc_hasCtot pending \<and> \<not> ci_TobtAuthoritative (sc_input pending)
      then preserved_blocks config now candidate rest
      else if compareSequencingCandidates pending candidate now False \<ge> 0
      then preserved_blocks config now candidate rest
      else (case calculateWithSinglePreservedSlot (sc_slot candidate) pending config now of
          None \<Rightarrow> None
        | Some ttot \<Rightarrow> if ttot \<noteq> sc_naturalTtot pending then Some True else preserved_blocks config now candidate rest))"

definition preservedSlotBlocksHigherPriorityCandidate ::
    "sequencingCandidate \<Rightarrow> sequencingCandidate list \<Rightarrow> CdmAirportConfig option \<Rightarrow> gotime \<Rightarrow> bool option" where
  "preservedSlotBlocksHigherPriorityCandidate candidate recalculate config now =
     (if sc_started candidate then Some False else preserved_blocks config now candidate recalculate)"

fun preserve :: "CdmAirportConfig option \<Rightarrow> gotime \<Rightarrow> sequencingCandidate list \<Rightarrow> SlotEntry list \<Rightarrow> sequencingCandidate list
    \<Rightarrow> (SlotEntry list \<times> sequencingCandidate list) option" where
  "preserve config now [] slots recalculate = Some (slots, recalculate)"
| "preserve config now (candidate # rest) slots recalculate =
     (if sc_started candidate then preserve config now rest (slots @ [sc_slot candidate]) recalculate
      else if hasPreservedSlotConflict (sc_slot candidate) slots config
      then preserve config now rest slots (recalculate @ [candidate])
      else (case preservedSlotBlocksHigherPriorityCandidate candidate recalculate config now of
          None \<Rightarrow> None
        | Some True \<Rightarrow> preserve config now rest slots (recalculate @ [candidate])
        | Some False \<Rightarrow> preserve config now rest (slots @ [sc_slot candidate]) recalculate))"

definition reserve :: "gotime \<Rightarrow> sequencingCandidate \<Rightarrow> SlotEntry list \<Rightarrow> SlotEntry list" where
  "reserve now candidate slots =
     (if sc_improvement candidate \<and> sc_hasSlot candidate \<and> \<not> isTsatSpecificallyExpired (sc_strip candidate) now \<and>
         \<not> hasSlotForCallsign slots (s_Callsign (sc_strip candidate))
      then slots @ [sc_slot candidate] else slots)"

section \<open>Improvements and retained slots\<close>

fun keeps_order :: "CdmAirportConfig option \<Rightarrow> gotime \<Rightarrow> sequencingCandidate \<Rightarrow> string \<Rightarrow> SlotEntry list \<Rightarrow> SlotEntry list
    \<Rightarrow> sequencingCandidate list \<Rightarrow> bool option" where
  "keeps_order config anchor candidate proposedTtot slots probeSlots [] = Some True"
| "keeps_order config anchor candidate proposedTtot slots probeSlots (predecessor # rest) =
     (let go_on = keeps_order config anchor candidate proposedTtot slots probeSlots rest;
          currentSlot = (case slotForCallsign slots (s_Callsign (sc_strip predecessor)) of Some s \<Rightarrow> s | None \<Rightarrow> sc_slot predecessor) in
      if \<not> sc_hasSlot predecessor \<or> sc_started predecessor \<or>
         same_callsign (s_Callsign (sc_strip predecessor)) (s_Callsign (sc_strip candidate)) \<or>
         \<not> equal_fold (trim_space (sl_Origin (sc_slot predecessor))) (trim_space (sl_Origin (sc_slot candidate))) \<or>
         \<not> sameOrDependentRunway (sl_DepRwy (sc_slot candidate)) (sl_DepRwy (sc_slot predecessor)) config
      then go_on
      else if compareClockForSort (sl_Ttot (sc_slot predecessor)) (sl_Ttot (sc_slot candidate)) anchor \<ge> 0 then go_on
      else if compareClockForSort (sl_Ttot currentSlot) proposedTtot anchor < 0 then go_on
      else (case Calculate (sc_input predecessor) probeSlots config anchor of
          None \<Rightarrow> None
        | Some r \<Rightarrow>
            (let earliest = cres_Ttot r in
             if earliest = '''' \<or> compareClockForSort earliest (sl_Ttot currentSlot) anchor \<ge> 0 then go_on
             else if compareClockForSort earliest proposedTtot anchor \<le> 0 then Some False
             else go_on)))"

definition improvementKeepsQueueOrder ::
    "sequencingCandidate \<Rightarrow> string \<Rightarrow> SlotEntry list \<Rightarrow> sequencingCandidate list \<Rightarrow> CdmAirportConfig option \<Rightarrow> gotime \<Rightarrow> bool option" where
  "improvementKeepsQueueOrder candidate proposedTtot slots candidates config anchor =
     (if \<not> sc_hasSlot candidate \<or> trim_space proposedTtot = '''' then Some (sc_hasSlot candidate)
      else keeps_order config anchor candidate proposedTtot slots
             (slotsWithoutCallsign slots (s_Callsign (sc_strip candidate))) candidates)"

definition canRetainExistingSlot ::
    "sequencingCandidate \<Rightarrow> SlotEntry \<Rightarrow> SlotEntry list \<Rightarrow> CdmAirportConfig option \<Rightarrow> gotime \<Rightarrow> bool option" where
  "canRetainExistingSlot candidate slot slots config now =
     (if sc_started candidate then Some True
      else map_option (\<lambda>r. toHHMMSS (cres_Ttot r) = toHHMMSS (sl_Ttot slot)) (Calculate (sc_input candidate) slots config now))"

section \<open>One flight\<close>

definition persist_data :: "services \<Rightarrow> bool \<Rightarrow> Strip \<Rightarrow> CdmData \<Rightarrow> run \<Rightarrow> outcome" where
  "persist_data sv notify strip updated st =
     (case sv_CaptureViffAuthority sv strip updated of
        Inl e \<Rightarrow> Failed (ErrAuthority e) st
      | Inr token \<Rightarrow>
          (let updated = Normalize (case token of None \<Rightarrow> updated | Some t \<Rightarrow> updated\<lparr> cd_ViffAuthority := t \<rparr>) in
           case sv_SetCdmData sv (s_Callsign strip) updated of
             Inl e \<Rightarrow> Failed (ErrStore e) st
           | Inr rows \<Rightarrow>
               (if rows \<noteq> 1 then Failed (ErrNotPersisted (s_Callsign strip)) st
                else Continue (st\<lparr> run_effects := run_effects st @ [Persist (s_Callsign strip) updated],
                       run_updates := (if notify then run_updates st @ [(s_Callsign strip, updated)] else run_updates st) \<rparr>))))"

definition expired_data :: "CdmData \<Rightarrow> CalcInput \<Rightarrow> string \<Rightarrow> CdmData" where
  "expired_data data input runway =
     (let updated = data\<lparr> cd_Phase := Some ''I'', cd_ExpiredTsat := stringPointerIfPresent (value_or_empty (cd_Tsat data)),
            cd_Tsat := None, cd_Ttot := None \<rparr>;
          updated = applyCalculationSnapshot updated input runway CdmInvalidReasonStaleTsat in
      ClearLocalRecalculationPending (setCalculationReasonMarkers updated (invalidReasonMarker updated)))"

definition expire_strip :: "services \<Rightarrow> bool \<Rightarrow> sequencingCandidate \<Rightarrow> run \<Rightarrow> outcome" where
  "expire_strip sv notify candidate st =
     (let strip = sc_strip candidate; data = data_of strip;
          st = (if sc_improvement candidate
                then st\<lparr> run_slots := removeSlotForCallsign (run_slots st) (s_Callsign strip) \<rparr> else st);
          alreadyInvalid = (value_or_empty (cd_Phase data) = ''I'' \<and> cd_Tsat data = None \<and> cd_Ttot data = None) in
      if alreadyInvalid then Continue st
      else persist_data sv notify strip (expired_data data (sc_input candidate) (value_or_empty (s_Runway strip))) st)"

definition adopted_data :: "CdmData \<Rightarrow> CalcInput \<Rightarrow> CalcResult \<Rightarrow> calculationTraceEntry list \<Rightarrow> CalcResult \<Rightarrow> string \<Rightarrow> gotime \<Rightarrow> CdmData" where
  "adopted_data data input result trace proposal runway now =
     (let d = data\<lparr> cd_ViffProposalTsat := stringPointerIfPresent (cres_Tsat proposal),
            cd_ViffProposalTtot := stringPointerIfPresent (cres_Ttot proposal),
            cd_Phase := None, cd_Tsat := stringPointerIfPresent (cres_Tsat result) \<rparr>;
          expired = (cres_Tsat result = '''' \<and> value_or_empty (cd_ExpiredTsat d) \<noteq> '''');
          invalidReason = (if expired then CdmInvalidReasonStaleTsat else calculationInvalidReason input result now);
          d = (if expired then d\<lparr> cd_Phase := stringPointerIfPresent ''I'' \<rparr> else d\<lparr> cd_ExpiredTsat := None \<rparr>);
          d = d\<lparr> cd_Ttot := stringPointerIfPresent (cres_Ttot result) \<rparr>;
          d = applyCalculationSnapshot d input runway invalidReason in
      setCalculationReasonMarkers d (movementReasonMarkersFromTrace trace))"

definition taxi_minutes_of :: "CdmData \<Rightarrow> int option" where
  "taxi_minutes_of d = (case cd_Calculation d of None \<Rightarrow> None | Some c \<Rightarrow> cc_TaxiMinutes c)"

definition taxi_runway_of :: "CdmData \<Rightarrow> string option" where
  "taxi_runway_of d = (case cd_Calculation d of None \<Rightarrow> None | Some c \<Rightarrow> cc_TaxiRunway c)"

definition needs_persist :: "CdmData \<Rightarrow> CalcInput \<Rightarrow> CalcResult \<Rightarrow> CdmData \<Rightarrow> bool" where
  "needs_persist data input result updated \<longleftrightarrow>
     trim_space (value_or_empty (cd_Tsat data)) \<noteq> cres_Tsat result \<or>
     trim_space (value_or_empty (cd_Ttot data)) \<noteq> cres_Ttot result \<or>
     cd_Recalculate data \<or>
     intValue (taxi_minutes_of data) \<noteq> ci_TaxiMin input \<or>
     trim_space (value_or_empty (taxi_runway_of data)) \<noteq> trim_space (value_or_empty (taxi_runway_of updated)) \<or>
     value_or_empty (cd_ViffProposalTsat data) \<noteq> value_or_empty (cd_ViffProposalTsat updated) \<or>
     value_or_empty (cd_ViffProposalTtot data) \<noteq> value_or_empty (cd_ViffProposalTtot updated)"

definition add_slot :: "Strip \<Rightarrow> CdmData \<Rightarrow> CalcResult \<Rightarrow> run \<Rightarrow> run" where
  "add_slot strip updated result st =
     (if cres_Ttot result \<noteq> '''' \<and> \<not> hasSlotForCallsign (run_slots st) (s_Callsign strip)
      then st\<lparr> run_slots := run_slots st @ [strip_slot strip updated (cres_Ttot result)] \<rparr> else st)"

definition dispatch_eobt :: "services \<Rightarrow> sequencingCandidate \<Rightarrow> run \<Rightarrow> outcome" where
  "dispatch_eobt sv candidate st =
     (if sc_recoveredEobt candidate = '''' then Continue st
      else (case sv_DispatchEobt sv (s_Callsign (sc_strip candidate)) (sc_recoveredEobt candidate) of
          Inl e \<Rightarrow> Failed (ErrDispatch e) st
        | Inr _ \<Rightarrow> Continue (st\<lparr> run_effects := run_effects st @
            [BroadcastEobt (s_Callsign (sc_strip candidate)) (sc_recoveredEobt candidate)] \<rparr>)))"

definition finish_strip :: "services \<Rightarrow> bool \<Rightarrow> sequencingCandidate \<Rightarrow> CalcResult \<Rightarrow> CdmData \<Rightarrow> run \<Rightarrow> outcome" where
  "finish_strip sv notify candidate result data st =
     (let strip = sc_strip candidate; updated = ClearLocalRecalculationPending data in
      if \<not> needs_persist (data_of strip) (sc_input candidate) result updated then Continue (add_slot strip updated result st)
      else (case persist_data sv notify strip updated st of
          Failed e st \<Rightarrow> Failed e st
        | Continue st \<Rightarrow> (case dispatch_eobt sv candidate st of
            Failed e st \<Rightarrow> Failed e st
          | Continue st \<Rightarrow> Continue (add_slot strip updated result st))))"

definition calculate_strip :: "services \<Rightarrow> bool \<Rightarrow> CdmAirportConfig option \<Rightarrow> gotime \<Rightarrow> sequencingCandidate list \<Rightarrow> sequencingCandidate \<Rightarrow> run \<Rightarrow> outcome option" where
  "calculate_strip sv notify config now candidates candidate st =
     (let strip = sc_strip candidate; data = data_of strip; input = sc_input candidate; slots = run_slots st;
          beforeTsat = trim_space (value_or_empty (cd_Tsat data)); beforeTtot = trim_space (value_or_empty (cd_Ttot data)) in
      case calculateWithTrace input slots config now of
        None \<Rightarrow> None
      | Some (result, trace) \<Rightarrow>
          (case (if isEarlierClock (cres_Tsat result) beforeTsat
                 then improvementKeepsQueueOrder candidate (cres_Ttot result) slots candidates config now else Some False) of
             None \<Rightarrow> None
           | Some canAdoptImprovement \<Rightarrow>
               (if sc_improvement candidate \<and> \<not> canAdoptImprovement
                then Some (finish_strip sv notify candidate \<lparr> cres_Tsat = beforeTsat, cres_Ttot = beforeTtot \<rparr> data st)
                else
                  (let slots = (if sc_improvement candidate then removeSlotForCallsign slots (s_Callsign strip) else slots);
                       proposalInput = (if HasManualCtot data then input
                         else input\<lparr> ci_Ctot := '''', ci_HasManCtot := False, ci_ManCtot := '''' \<rparr>) in
                   case Calculate proposalInput slots config now of
                     None \<Rightarrow> None
                   | Some proposal \<Rightarrow>
                       Some (finish_strip sv notify candidate result
                         (adopted_data data input result trace proposal (value_or_empty (s_Runway strip)) now)
                         (st\<lparr> run_slots := slots \<rparr>))))))"

definition process_strip :: "services \<Rightarrow> bool \<Rightarrow> CdmAirportConfig option \<Rightarrow> gotime \<Rightarrow> sequencingCandidate list \<Rightarrow> sequencingCandidate \<Rightarrow> run \<Rightarrow> outcome option" where
  "process_strip sv notify config now candidates candidate st =
     (let strip = sc_strip candidate;
          recalculated =
            (if isTsatSpecificallyExpired strip now \<and> \<not> dataAllowsStartedRecalculation strip
             then Some (expire_strip sv notify candidate st)
             else calculate_strip sv notify config now candidates candidate st) in
      if shouldRecalculateStrip strip now then recalculated
      else (case existingSlotEntry strip of
          None \<Rightarrow> Some (Continue st)
        | Some slot \<Rightarrow>
            (case (if sc_started candidate then Some True else canRetainExistingSlot candidate slot (run_slots st) config now) of
               None \<Rightarrow> None
             | Some True \<Rightarrow> Some (Continue (st\<lparr> run_slots := run_slots st @ [slot] \<rparr>))
             | Some False \<Rightarrow> recalculated)))"

fun process_strips :: "services \<Rightarrow> bool \<Rightarrow> CdmAirportConfig option \<Rightarrow> gotime \<Rightarrow> sequencingCandidate list \<Rightarrow> sequencingCandidate list \<Rightarrow> run \<Rightarrow> outcome option" where
  "process_strips sv notify config now candidates [] st = Some (Continue st)"
| "process_strips sv notify config now candidates (candidate # rest) st =
     (case process_strip sv notify config now candidates candidate st of
        None \<Rightarrow> None
      | Some (Failed e st) \<Rightarrow> Some (Failed e st)
      | Some (Continue st) \<Rightarrow> process_strips sv notify config now candidates rest st)"

section \<open>The airport\<close>

definition empty_run :: run where
  "empty_run = \<lparr> run_slots = [], run_effects = [], run_updates = [] \<rparr>"

definition publish :: "services \<Rightarrow> bool \<Rightarrow> run \<Rightarrow> run" where
  "publish sv notify st =
     (if notify then st\<lparr> run_effects := run_effects st @ [PublishUpdates (run_updates st)] @
        (if sv_HasAfterPersist sv then map (AfterPersist \<circ> fst) (run_updates st) else []) \<rparr> else st)"

text \<open>
  \<open>rows\<close> is the answer of \<^verbatim>\<open>ListByOrigin\<close>, \<open>session\<close> that of the session look-up with the configuration
  for its runways.
\<close>

definition recalculateAirport :: "polygon_test \<Rightarrow> services \<Rightarrow> string + Strip option list \<Rightarrow> string + CdmAirportConfig option \<Rightarrow> gotime \<Rightarrow> bool \<Rightarrow> outcome option" where
  "recalculateAirport contains_point sv rows session now notify =
     (case rows of Inl e \<Rightarrow> Some (Failed (ErrStore e) empty_run)
      | Inr rows \<Rightarrow>
     (case session of Inl e \<Rightarrow> Some (Failed (ErrStore e) empty_run)
      | Inr None \<Rightarrow> Some (Failed (ErrUnavailable ''CDM unavailable for airport'') empty_run)
      | Inr config \<Rightarrow>
     (let candidates = candidates_of contains_point config now rows;
          preserved = go_sort (preserved_less now) (filter (\<lambda>c. \<not> to_recalculate now c) candidates) in
      case preserve config now preserved [] (filter (to_recalculate now) candidates) of
        None \<Rightarrow> None
      | Some (slots, recalculate) \<Rightarrow>
          (let slots = fold (reserve now) recalculate slots in
           case process_strips sv notify config now candidates (go_sort (recalculate_less now) recalculate)
                  (empty_run\<lparr> run_slots := slots \<rparr>) of
             None \<Rightarrow> None
           | Some (Failed e st) \<Rightarrow> Some (Failed e st)
           | Some (Continue st) \<Rightarrow> Some (Continue (publish sv notify st))))))"

section \<open>What one flight writes\<close>

fun run_of :: "outcome \<Rightarrow> run" where
  "run_of (Continue st) = st"
| "run_of (Failed e st) = st"

text \<open>
  The documents that may be written for a strip, told from the fields of the strip. A flight has started
  when its document has an actual start-up or off-block time or its ground state is past start-up; a
  started flight may be recalculated when its document asks for the recalculation of its CTOT, or,
  before it is off its blocks, of its pushback. A start-up time has lapsed when it is more than five
  minutes old. A pending flight whose time has lapsed has its times withdrawn, unless such a request
  covers it; and a flight that asks for an improvement otherwise keeps its times or starts earlier.
\<close>

definition has_text :: "string option \<Rightarrow> bool" where
  "has_text v \<longleftrightarrow> v \<noteq> None \<and> v \<noteq> Some ''''"

definition start_given :: "Strip \<Rightarrow> bool" where
  "start_given strip \<longleftrightarrow> has_text (cd_Asat (data_of strip)) \<or> has_text (cd_Aobt (data_of strip)) \<or>
     (case s_State strip of None \<Rightarrow> False
      | Some state \<Rightarrow> to_upper (trim_space state) \<in> {''STUP'', ''ST-UP'', ''PUSH'', ''TAXI'', ''LINEUP'', ''DEPA''})"

definition start_covered :: "Strip \<Rightarrow> bool" where
  "start_covered strip \<longleftrightarrow> cd_Recalculate (data_of strip) \<and>
     (cd_CtotRecalculate (data_of strip) \<and> start_given strip \<or>
      cd_PushbackRecalculate (data_of strip) \<and> \<not> has_text (cd_Aobt (data_of strip)))"

definition tsat_lapsed :: "Strip \<Rightarrow> gotime \<Rightarrow> bool" where
  "tsat_lapsed strip now \<longleftrightarrow>
     (case cd_Tsat (data_of strip) of None \<Rightarrow> False
      | Some v \<Rightarrow> trim_space v \<noteq> '''' \<and> 5 < minutesBetween (trim_space v) (timeToClock now))"

definition keeps_or_earlier :: "Strip \<Rightarrow> CdmData \<Rightarrow> bool" where
  "keeps_or_earlier strip d \<longleftrightarrow>
     cd_Tsat d = cd_Tsat (data_of strip) \<and> cd_Ttot d = cd_Ttot (data_of strip) \<or>
     (case cd_Tsat d of None \<Rightarrow> False
      | Some new \<Rightarrow> parseClock new \<noteq> None \<and>
          (case cd_Tsat (data_of strip) of None \<Rightarrow> True
           | Some old \<Rightarrow> parseClock (trim_space old) = None \<or> 0 < minutesBetween new (trim_space old)))"

definition allowed_write :: "Strip \<Rightarrow> gotime \<Rightarrow> CdmData \<Rightarrow> bool" where
  "allowed_write strip now d \<longleftrightarrow>
     \<not> cd_Recalculate d \<and>
     (start_given strip \<longrightarrow> start_covered strip) \<and>
     (cd_Recalculate (data_of strip) \<and> tsat_lapsed strip now \<and> \<not> start_covered strip \<longrightarrow> cd_Tsat d = None \<and> cd_Ttot d = None) \<and>
     (cd_Recalculate (data_of strip) \<and> cd_RecalculationMode (data_of strip) = CdmRecalculationImproveOnly \<and>
        \<not> (tsat_lapsed strip now \<and> \<not> start_covered strip) \<longrightarrow> keeps_or_earlier strip d)"

lemma trim_empty: "trim_space [] = []"
  by code_simp

lemma value_has_text: "value_or_empty v \<noteq> '''' \<longleftrightarrow> has_text v"
  by (cases v) (simp_all add: value_or_empty_def has_text_def)

lemma started_iff: "stripHasStarted strip \<longleftrightarrow> start_given strip"
proof -
  have "to_upper (trim_space []) = []" by (simp add: trim_empty to_upper_def)
  then have "groundStateAllowsAsat (value_or_empty (s_State strip)) \<longleftrightarrow>
      (case s_State strip of None \<Rightarrow> False
       | Some state \<Rightarrow> to_upper (trim_space state) \<in> {''STUP'', ''ST-UP'', ''PUSH'', ''TAXI'', ''LINEUP'', ''DEPA''})"
    by (cases "s_State strip") (simp_all add: groundStateAllowsAsat_def value_or_empty_def)
  then show ?thesis by (simp add: stripHasStarted_def start_given_def value_has_text)
qed

lemma empty_not_pending: "s_CdmData strip = None \<Longrightarrow> \<not> cd_Recalculate (data_of strip) \<and> cd_Tsat (data_of strip) = None"
  by (simp add: data_of_def empty_cdm_def)

lemma covered_iff: "dataAllowsStartedRecalculation strip \<longleftrightarrow> start_covered strip"
  using empty_not_pending [of strip] value_has_text [of "cd_Aobt (data_of strip)"]
  by (auto simp: dataAllowsStartedRecalculation_def start_covered_def started_iff)

lemma lapsed_iff: "isTsatSpecificallyExpired strip now \<longleftrightarrow> tsat_lapsed strip now"
proof (cases "s_CdmData strip")
  case None
  then show ?thesis using empty_not_pending [OF None] by (simp add: isTsatSpecificallyExpired_def tsat_lapsed_def)
next
  case (Some d)
  then show ?thesis
    by (cases "cd_Tsat d") (simp_all add: trim_empty isTsatSpecificallyExpired_def tsat_lapsed_def data_of_def Let_def
        normalizeCalculationClock_def value_or_empty_def isMoreThanMinutesPast_def)
qed

lemma improvement_iff:
  "IsImprovementOnlyRecalculation (s_CdmData strip) \<longleftrightarrow>
     cd_Recalculate (data_of strip) \<and> cd_RecalculationMode (data_of strip) = CdmRecalculationImproveOnly"
  using empty_not_pending [of strip] by (auto simp: IsImprovementOnlyRecalculation_def data_of_def split: option.splits)

lemma parse_empty [simp]: "parseClock [] = None"
  by (simp add: parseClock_def toHHMMSS_def trim_empty)

lemma earlier_keeps:
  assumes "isEarlierClock (value_or_empty (cd_Tsat d)) (trim_space (value_or_empty (cd_Tsat (data_of strip))))"
  shows "keeps_or_earlier strip d"
  using assms
  by (cases "cd_Tsat d"; cases "cd_Tsat (data_of strip)")
    (auto simp: keeps_or_earlier_def isEarlierClock_def value_or_empty_def split: if_splits)

definition candidate_ok :: "sequencingCandidate \<Rightarrow> bool" where
  "candidate_ok c \<longleftrightarrow> sc_improvement c = IsImprovementOnlyRecalculation (s_CdmData (sc_strip c)) \<and>
     sc_started c = stripHasStarted (sc_strip c) \<and> sc_hasSlot c = (existingSlotEntry (sc_strip c) \<noteq> None) \<and>
     (\<forall>s. existingSlotEntry (sc_strip c) = Some s \<longrightarrow> sc_slot c = s) \<and> s_CdmData (sc_strip c) \<noteq> None"

definition written_for :: "sequencingCandidate \<Rightarrow> gotime \<Rightarrow> effect \<Rightarrow> bool" where
  "written_for c now e \<longleftrightarrow>
     (case e of Persist callsign d \<Rightarrow> callsign = s_Callsign (sc_strip c) \<and> allowed_write (sc_strip c) now d
      | BroadcastEobt callsign eobt \<Rightarrow> callsign = s_Callsign (sc_strip c) \<and> eobt = sc_recoveredEobt c
      | _ \<Rightarrow> False)"

definition extends :: "sequencingCandidate \<Rightarrow> gotime \<Rightarrow> run \<Rightarrow> outcome \<Rightarrow> bool" where
  "extends c now st oc \<longleftrightarrow> (\<exists>new. run_effects (run_of oc) = run_effects st @ new \<and> list_all (written_for c now) new)"

lemma extends_refl: "run_effects (run_of oc) = run_effects st \<Longrightarrow> extends c now st oc"
  by (simp add: extends_def)

lemma authority_fields [simp]:
  "cd_Tsat (d\<lparr> cd_ViffAuthority := a \<rparr>) = cd_Tsat d" "cd_Ttot (d\<lparr> cd_ViffAuthority := a \<rparr>) = cd_Ttot d"
  "cd_Recalculate (d\<lparr> cd_ViffAuthority := a \<rparr>) = cd_Recalculate d"
  by simp_all

lemma persist_data_cases:
  obtains (fails) e where "persist_data sv notify strip d st = Failed e st"
  | (writes) d' where "persist_data sv notify strip d st =
      Continue (st\<lparr> run_effects := run_effects st @ [Persist (s_Callsign strip) d'],
        run_updates := (if notify then run_updates st @ [(s_Callsign strip, d')] else run_updates st) \<rparr>)"
      "cd_Tsat d' = cd_Tsat d" "cd_Ttot d' = cd_Ttot d" "cd_Recalculate d' = cd_Recalculate d"
proof (cases "persist_data sv notify strip d st")
  case (Failed e st')
  then have "st' = st" by (auto simp: persist_data_def Let_def split: sum.splits if_splits)
  with Failed fails show ?thesis by blast
next
  case (Continue st')
  then obtain token where token: "sv_CaptureViffAuthority sv strip d = Inr token"
    by (auto simp: persist_data_def split: sum.splits)
  let ?d = "Normalize (case token of None \<Rightarrow> d | Some t \<Rightarrow> d\<lparr> cd_ViffAuthority := t \<rparr>)"
  have "st' = st\<lparr> run_effects := run_effects st @ [Persist (s_Callsign strip) ?d],
      run_updates := (if notify then run_updates st @ [(s_Callsign strip, ?d)] else run_updates st) \<rparr>"
    using Continue by (auto simp: persist_data_def token Let_def split: sum.splits if_splits)
  with Continue show ?thesis by (intro writes [of ?d]) (simp_all split: option.split)
qed

lemma finish_strip_extends:
  assumes "allowed_write (sc_strip c) now (ClearLocalRecalculationPending data)"
    and "\<And>d. cd_Tsat d = cd_Tsat data \<Longrightarrow> cd_Ttot d = cd_Ttot data \<Longrightarrow> \<not> cd_Recalculate d \<Longrightarrow> allowed_write (sc_strip c) now d"
  shows "extends c now st (finish_strip sv notify c result data st)"
proof -
  let ?u = "ClearLocalRecalculationPending data"
  have add: "run_effects (add_slot s u r x) = run_effects x" for s u r x by (simp add: add_slot_def)
  show ?thesis
  proof (cases "needs_persist (data_of (sc_strip c)) (sc_input c) result ?u")
    case False
    then show ?thesis by (simp add: finish_strip_def Let_def extends_def add)
  next
    case True
    show ?thesis
    proof (cases rule: persist_data_cases [of sv notify "sc_strip c" ?u st])
      case (fails e)
      with True show ?thesis by (simp add: finish_strip_def Let_def extends_def)
    next
      case (writes d')
      then have "allowed_write (sc_strip c) now d'" by (intro assms(2)) simp_all
      with True show ?thesis
        by (auto simp: finish_strip_def Let_def writes(1) dispatch_eobt_def extends_def add written_for_def split: sum.split)
    qed
  qed
qed

lemma data_of_Some: "s_CdmData strip = Some d \<Longrightarrow> data_of strip = d"
  by (simp add: data_of_def)

lemma allowed_same:
  assumes "\<not> cd_Recalculate d" "stripHasStarted strip \<longrightarrow> dataAllowsStartedRecalculation strip"
    and "\<not> (isTsatSpecificallyExpired strip now \<and> \<not> dataAllowsStartedRecalculation strip)"
    and "cd_Tsat d = cd_Tsat (data_of strip)" "cd_Ttot d = cd_Ttot (data_of strip)"
  shows "allowed_write strip now d"
  using assms by (auto simp: allowed_write_def started_iff covered_iff lapsed_iff keeps_or_earlier_def)

lemma stringPointer_value: "parseClock v \<noteq> None \<Longrightarrow> value_or_empty (stringPointerIfPresent v) = v"
proof -
  assume "parseClock v \<noteq> None"
  then have "trim_space v \<noteq> ''''" by (auto simp: parseClock_def toHHMMSS_def)
  then show ?thesis by (simp add: stringPointerIfPresent_def value_or_empty_def)
qed

lemma adopted_fields:
  "cd_Tsat (adopted_data d i r tr p w now) = stringPointerIfPresent (cres_Tsat r)"
  "cd_Ttot (adopted_data d i r tr p w now) = stringPointerIfPresent (cres_Ttot r)"
  "HasManualCtot (adopted_data d i r tr p w now) = HasManualCtot d"
  "cd_Ctot (adopted_data d i r tr p w now) = cd_Ctot d"
  by (simp_all add: adopted_data_def Let_def) (simp add: HasManualCtot_def)

lemma calculate_strip_extends:
  assumes "calculate_strip sv notify config now cands c st = Some oc" "candidate_ok c"
    and "stripHasStarted (sc_strip c) \<longrightarrow> dataAllowsStartedRecalculation (sc_strip c)"
    and "\<not> (isTsatSpecificallyExpired (sc_strip c) now \<and> \<not> dataAllowsStartedRecalculation (sc_strip c))"
  shows "extends c now st oc"
proof -
  let ?strip = "sc_strip c" and ?data = "data_of (sc_strip c)"
  from assms(1) obtain result trace where calc: "calculateWithTrace (sc_input c) (run_slots st) config now = Some (result, trace)"
    by (auto simp: calculate_strip_def Let_def split: option.splits)
  from assms(1) obtain adopt where adopt: "(if isEarlierClock (cres_Tsat result) (trim_space (value_or_empty (cd_Tsat ?data)))
      then improvementKeepsQueueOrder c (cres_Ttot result) (run_slots st) cands config now else Some False) = Some adopt"
    by (auto simp: calculate_strip_def Let_def calc split: option.splits)
  show ?thesis
  proof (cases "sc_improvement c \<and> \<not> adopt")
    case True
    then have "oc = finish_strip sv notify c \<lparr> cres_Tsat = trim_space (value_or_empty (cd_Tsat ?data)),
        cres_Ttot = trim_space (value_or_empty (cd_Ttot ?data)) \<rparr> ?data st"
      using assms(1) by (simp add: calculate_strip_def Let_def calc adopt del: split_paired_All)
    then show ?thesis using assms(3,4) by (auto intro!: finish_strip_extends allowed_same)
  next
    case False
    then obtain proposal slots where oc: "oc = finish_strip sv notify c result
        (adopted_data ?data (sc_input c) result trace proposal (value_or_empty (s_Runway ?strip)) now) (st\<lparr> run_slots := slots \<rparr>)"
      using assms(1) unfolding calculate_strip_def Let_def calc adopt option.case prod.case if_not_P [OF False]
      by (auto split: option.splits split del: if_split)
    let ?d = "adopted_data ?data (sc_input c) result trace proposal (value_or_empty (s_Runway ?strip)) now"
    have earlier: "isEarlierClock (value_or_empty (cd_Tsat d)) (trim_space (value_or_empty (cd_Tsat ?data)))"
      if "sc_improvement c" "cd_Tsat d = cd_Tsat ?d" for d
    proof -
      from False that(1) adopt have e: "isEarlierClock (cres_Tsat result) (trim_space (value_or_empty (cd_Tsat ?data)))"
        by (auto split: if_splits)
      then have "parseClock (cres_Tsat result) \<noteq> None" by (cases "parseClock (cres_Tsat result)") (simp_all add: isEarlierClock_def)
      with e that(2) show ?thesis by (simp add: adopted_fields stringPointer_value)
    qed
    have ok: "allowed_write ?strip now d" if "cd_Tsat d = cd_Tsat ?d" "\<not> cd_Recalculate d" for d
      using that earlier_keeps [OF earlier [OF _ that(1)]] assms(2-4)
      by (auto simp: allowed_write_def candidate_ok_def started_iff covered_iff lapsed_iff improvement_iff)
    have "extends c now (st\<lparr> run_slots := slots \<rparr>) oc"
      unfolding oc by (intro finish_strip_extends) (simp_all add: ok)
    then show ?thesis by (simp add: extends_def)
  qed
qed

lemma expire_strip_extends:
  assumes "isTsatSpecificallyExpired (sc_strip c) now" "\<not> dataAllowsStartedRecalculation (sc_strip c)" "\<not> stripHasStarted (sc_strip c)"
  shows "extends c now st (expire_strip sv notify c st)"
proof -
  let ?d = "expired_data (data_of (sc_strip c)) (sc_input c) (value_or_empty (s_Runway (sc_strip c)))"
  let ?st = "if sc_improvement c then st\<lparr> run_slots := removeSlotForCallsign (run_slots st) (s_Callsign (sc_strip c)) \<rparr> else st"
  have e: "run_effects ?st = run_effects st" by simp
  have rec: "\<not> cd_Recalculate ?d" "cd_Tsat ?d = None" "cd_Ttot ?d = None" by (simp_all add: expired_data_def Let_def)
  have ok: "allowed_write (sc_strip c) now d" if "\<not> cd_Recalculate d" "cd_Tsat d = None" "cd_Ttot d = None" for d
    using that assms by (simp add: allowed_write_def started_iff covered_iff lapsed_iff)
  have "extends c now st (persist_data sv notify (sc_strip c) ?d ?st)"
  proof (cases rule: persist_data_cases [of sv notify "sc_strip c" ?d ?st])
    case (fails x)
    then show ?thesis by (simp add: extends_def)
  next
    case (writes d')
    with rec ok [of d'] show ?thesis by (simp add: extends_def written_for_def)
  qed
  then show ?thesis unfolding expire_strip_def Let_def by (simp add: extends_def)
qed

lemma started_recalculation:
  assumes "shouldRecalculateStrip strip now" "s_CdmData strip \<noteq> None"
  shows "stripHasStarted strip \<longrightarrow> dataAllowsStartedRecalculation strip"
  using assms by (auto simp: shouldRecalculateStrip_def)

lemma process_strip_extends:
  assumes "process_strip sv notify config now cands c st = Some oc" "candidate_ok c"
  shows "extends c now st oc"
proof -
  let ?strip = "sc_strip c"
  define again where "again = (if isTsatSpecificallyExpired ?strip now \<and> \<not> dataAllowsStartedRecalculation ?strip
      then Some (expire_strip sv notify c st) else calculate_strip sv notify config now cands c st)"
  have again: "extends c now st oc"
    if "again = Some oc" "stripHasStarted ?strip \<longrightarrow> dataAllowsStartedRecalculation ?strip"
    using that calculate_strip_extends [OF _ assms(2), of sv notify config now cands st oc] expire_strip_extends [of c now st sv notify]
    by (auto simp: again_def split: if_splits)
  show ?thesis
  proof (cases "shouldRecalculateStrip ?strip now")
    case True
    then have "again = Some oc" using assms(1) by (simp add: process_strip_def Let_def again_def)
    with started_recalculation [OF True] assms(2) show ?thesis by (intro again) (simp_all add: candidate_ok_def)
  next
    case False
    then have p: "(case existingSlotEntry ?strip of
          None \<Rightarrow> Some (Continue st)
        | Some slot \<Rightarrow>
            (case (if sc_started c then Some True else canRetainExistingSlot c slot (run_slots st) config now) of
               None \<Rightarrow> None
             | Some True \<Rightarrow> Some (Continue (st\<lparr> run_slots := run_slots st @ [slot] \<rparr>))
             | Some False \<Rightarrow> again)) = Some oc"
      using assms(1) unfolding process_strip_def Let_def again_def by simp
    show ?thesis
    proof (cases "existingSlotEntry ?strip")
      case None
      with p show ?thesis by (auto simp: extends_def)
    next
      case (Some slot)
      show ?thesis
      proof (cases "sc_started c")
        case True
        with p Some show ?thesis by (auto simp: extends_def)
      next
        case ns: False
        with p Some obtain b where b: "canRetainExistingSlot c slot (run_slots st) config now = Some b"
          by (auto split: option.splits)
        show ?thesis
        proof (cases b)
          case True
          with p Some b ns show ?thesis by (auto simp: extends_def)
        next
          case False
          with p Some b ns have "again = Some oc" by simp
          with ns assms(2) show ?thesis by (intro again) (simp_all add: candidate_ok_def)
        qed
      qed
    qed
  qed
qed

section \<open>The candidates\<close>

lemma live_strips_set: "strip \<in> set (live_strips rows) \<longleftrightarrow> Some strip \<in> set rows \<and> \<not> shouldSkipStrip strip"
  by (induction rows rule: live_strips.induct) auto

lemma live_has_data: "\<not> shouldSkipStrip strip \<Longrightarrow> s_CdmData strip \<noteq> None"
proof
  assume "\<not> shouldSkipStrip strip" "s_CdmData strip = None"
  then have "sequenceSortKey strip = ''''"
    by (simp add: sequenceSortKey_def calculationBaseTime_def data_of_def empty_cdm_def normalizeCalculationClock_def)
  with \<open>\<not> shouldSkipStrip strip\<close> show False by (simp add: shouldSkipStrip_def split: if_splits)
qed

lemma recoverExpiredTsat_cases:
  obtains (same) "recoverExpiredTsat strip now = (strip, False)"
  | (recovered) d where "s_CdmData strip = Some d" "recoverExpiredTsat strip now = (strip\<lparr> s_CdmData := Some (recovered_data d now) \<rparr>, True)"
      "\<not> stripHasStarted strip" "\<not> cd_Recalculate d"
proof (cases "recoverExpiredTsat strip now = (strip, False)")
  case False
  then obtain d where d: "s_CdmData strip = Some d" by (cases "s_CdmData strip") (auto simp: recoverExpiredTsat_def)
  have pick: "(if a then x else if b then x else y) = x \<or> (if a then x else if b then x else y) = y \<and> \<not> a" for a b and x y :: "Strip \<times> bool"
    by simp
  have "recoverExpiredTsat strip now = (strip, False) \<or>
      recoverExpiredTsat strip now = (strip\<lparr> s_CdmData := Some (recovered_data d now) \<rparr>, True) \<and> \<not> (stripHasStarted strip \<or> cd_Recalculate d)"
    unfolding recoverExpiredTsat_def d option.case Let_def by (rule pick)
  with False d recovered show ?thesis by blast
qed (rule same)

lemma recovered_data_fields [simp]:
  "cd_Recalculate (recovered_data d now)" "cd_Asat (recovered_data d now) = cd_Asat d" "cd_Aobt (recovered_data d now) = cd_Aobt d"
  "cd_Tsat (recovered_data d now) = None" "cd_Ttot (recovered_data d now) = None" "cd_Ctot (recovered_data d now) = cd_Ctot d"
  "cd_RecalculationMode (recovered_data d now) = CdmRecalculationRequired"
  by (simp_all add: recovered_data_def MarkLocalRecalculationPending_def applyAutoSyncedTobtUpdate_def)

lemma candidate_of_fields:
  "sc_strip (candidate_of contains_point config now row) = fst (recoverExpiredTsat row now)"
    "sc_input (candidate_of contains_point config now row) = buildCalcInput contains_point (fst (recoverExpiredTsat row now)) config"
    "sc_slot (candidate_of contains_point config now row) = (case existingSlotEntry (fst (recoverExpiredTsat row now)) of None \<Rightarrow> empty_slot | Some s \<Rightarrow> s)"
    "sc_hasSlot (candidate_of contains_point config now row) = (existingSlotEntry (fst (recoverExpiredTsat row now)) \<noteq> None)"
    "sc_improvement (candidate_of contains_point config now row) = IsImprovementOnlyRecalculation (s_CdmData (fst (recoverExpiredTsat row now)))"
    "sc_started (candidate_of contains_point config now row) = stripHasStarted (fst (recoverExpiredTsat row now))"
  unfolding candidate_of_def by (simp_all add: split_beta Let_def)

lemma recovered_strip:
  "s_Callsign (fst (recoverExpiredTsat row now)) = s_Callsign row" "stripHasStarted (fst (recoverExpiredTsat row now)) = stripHasStarted row"
    "cd_Ctot (data_of (fst (recoverExpiredTsat row now))) = cd_Ctot (data_of row)" "s_CdmData row \<noteq> None \<Longrightarrow> s_CdmData (fst (recoverExpiredTsat row now)) \<noteq> None"
    "fst (recoverExpiredTsat row now) = row \<or> \<not> stripHasStarted row \<and> \<not> cd_Recalculate (data_of row) \<and> NeedsLocalRecalculation (s_CdmData (fst (recoverExpiredTsat row now)))"
  by (cases rule: recoverExpiredTsat_cases [of row now]; simp add: stripHasStarted_def data_of_def NeedsLocalRecalculation_def)+

lemma candidate_of_strip:
  assumes "\<not> shouldSkipStrip row" and c_def: "c = candidate_of contains_point config now row"
  shows "candidate_ok c" "s_Callsign (sc_strip c) = s_Callsign row" "stripHasStarted (sc_strip c) = stripHasStarted row"
    "cd_Ctot (data_of (sc_strip c)) = cd_Ctot (data_of row)" "sc_input c = buildCalcInput contains_point (sc_strip c) config"
    "sc_strip c = row \<or> \<not> stripHasStarted row \<and> \<not> cd_Recalculate (data_of row) \<and> NeedsLocalRecalculation (s_CdmData (sc_strip c))"
  unfolding c_def candidate_ok_def candidate_of_fields
  using recovered_strip [where row = row and now = now] live_has_data [OF assms(1)] by (simp_all split: option.split)

lemma candidates_of_set:
  "c \<in> set (candidates_of contains_point config now rows) \<longleftrightarrow>
     (\<exists>row. Some row \<in> set rows \<and> \<not> shouldSkipStrip row \<and> c = candidate_of contains_point config now row)"
  by (auto simp: candidates_of_def live_strips_set)

lemma allowed_write_row:
  assumes "\<not> shouldSkipStrip row" "allowed_write (sc_strip (candidate_of contains_point config now row)) now d"
  shows "allowed_write row now d"
  using candidate_of_strip(6) [OF assms(1) refl, of contains_point config now]
proof
  assume "sc_strip (candidate_of contains_point config now row) = row"
  with assms(2) show ?thesis by simp
next
  assume r: "\<not> stripHasStarted row \<and> \<not> cd_Recalculate (data_of row) \<and> NeedsLocalRecalculation (s_CdmData (sc_strip (candidate_of contains_point config now row)))"
  with assms(2) show ?thesis by (simp add: allowed_write_def started_iff)
qed

section \<open>The run\<close>

lemma preserve_recalculate:
  assumes "preserve config now cs slots rs = Some (slots', rs')"
  shows "\<exists>kept moved. slots' = slots @ map sc_slot kept \<and> rs' = rs @ moved \<and> mset kept + mset moved = mset cs"
  using assms
proof (induction config now cs slots rs rule: preserve.induct)
  case (2 config now c cs slots rs)
  have kept: ?case if "preserve config now cs (slots @ [sc_slot c]) rs = Some (slots', rs')"
      "preserve config now cs (slots @ [sc_slot c]) rs = Some (slots', rs') \<Longrightarrow>
        \<exists>kept moved. slots' = (slots @ [sc_slot c]) @ map sc_slot kept \<and> rs' = rs @ moved \<and> mset kept + mset moved = mset cs"
  proof -
    from that obtain kept moved where "slots' = (slots @ [sc_slot c]) @ map sc_slot kept" "rs' = rs @ moved" "mset kept + mset moved = mset cs" by blast
    then show ?thesis by (intro exI [of _ "c # kept"] exI [of _ moved]) simp
  qed
  have moved: ?case if "preserve config now cs slots (rs @ [c]) = Some (slots', rs')"
      "preserve config now cs slots (rs @ [c]) = Some (slots', rs') \<Longrightarrow>
        \<exists>kept moved. slots' = slots @ map sc_slot kept \<and> rs' = (rs @ [c]) @ moved \<and> mset kept + mset moved = mset cs"
  proof -
    from that obtain kept moved where "slots' = slots @ map sc_slot kept" "rs' = (rs @ [c]) @ moved" "mset kept + mset moved = mset cs" by blast
    then show ?thesis by (intro exI [of _ kept] exI [of _ "c # moved"]) simp
  qed
  show ?case
  proof (cases "sc_started c")
    case True
    with 2 show ?thesis by (intro kept) simp_all
  next
    case ns: False
    show ?thesis
    proof (cases "hasPreservedSlotConflict (sc_slot c) slots config")
      case True
      with 2 ns show ?thesis by (intro moved) simp_all
    next
      case nc: False
      with 2 ns obtain b where b: "preservedSlotBlocksHigherPriorityCandidate c rs config now = Some b" by (auto split: option.splits)
      show ?thesis
      proof (cases b)
        case True
        with 2 ns nc b show ?thesis by (intro moved) simp_all
      next
        case False
        with 2 ns nc b show ?thesis by (intro kept) simp_all
      qed
    qed
  qed
qed simp

lemma process_strips_cases:
  assumes "process_strips sv notify config now cands (c # cs) st = Some oc"
  obtains (failed) e st' where "process_strip sv notify config now cands c st = Some (Failed e st')" "oc = Failed e st'"
  | (go_on) st' where "process_strip sv notify config now cands c st = Some (Continue st')"
      "process_strips sv notify config now cands cs st' = Some oc"
  using assms by (auto split: option.splits outcome.splits)

lemma process_strips_extends:
  assumes "process_strips sv notify config now cands cs st = Some oc" "list_all candidate_ok cs"
  shows "\<exists>new. run_effects (run_of oc) = run_effects st @ new \<and> (\<forall>e \<in> set new. \<exists>c \<in> set cs. written_for c now e)"
  using assms
proof (induction cs arbitrary: st)
  case (Cons c cs)
  from Cons.prems(1) show ?case
  proof (cases rule: process_strips_cases)
    case (failed e st')
    from process_strip_extends [OF failed(1)] Cons.prems(2) failed(2) show ?thesis
      by (fastforce simp: extends_def list_all_iff)
  next
    case (go_on st')
    from process_strip_extends [OF go_on(1)] Cons.prems(2) obtain n1 where
      n1: "run_effects st' = run_effects st @ n1" "list_all (written_for c now) n1" by (auto simp: extends_def)
    from Cons.IH [OF go_on(2)] Cons.prems(2) obtain n2 where
      n2: "run_effects (run_of oc) = run_effects st' @ n2" "\<forall>e \<in> set n2. \<exists>c \<in> set cs. written_for c now e" by auto
    from n1 n2 show ?thesis by (intro exI [of _ "n1 @ n2"]) (auto simp: list_all_iff)
  qed
qed auto

text \<open>A run that reaches the calculation, taken apart.\<close>

lemma recalculate_run:
  assumes "recalculateAirport contains_point sv rows session now notify = Some oc" "run_effects (run_of oc) \<noteq> [] \<or> oc = Continue st"
  obtains strips cfg slots rs oc' where "rows = Inr strips" "session = Inr (Some cfg)"
    "preserve (Some cfg) now (go_sort (preserved_less now) (filter (\<lambda>c. \<not> to_recalculate now c) (candidates_of contains_point (Some cfg) now strips))) []
       (filter (to_recalculate now) (candidates_of contains_point (Some cfg) now strips)) = Some (slots, rs)"
    "process_strips sv notify (Some cfg) now (candidates_of contains_point (Some cfg) now strips) (go_sort (recalculate_less now) rs)
       (empty_run\<lparr> run_slots := fold (reserve now) rs slots \<rparr>) = Some oc'"
    "oc = (case oc' of Failed e st \<Rightarrow> Failed e st | Continue st \<Rightarrow> Continue (publish sv notify st))"
proof -
  from assms obtain strips cfg where s: "rows = Inr strips" "session = Inr (Some cfg)"
    by (auto simp: recalculateAirport_def empty_run_def split: sum.splits option.splits)
  from assms(1) obtain slots rs where p: "preserve (Some cfg) now (go_sort (preserved_less now) (filter (\<lambda>c. \<not> to_recalculate now c) (candidates_of contains_point (Some cfg) now strips))) []
       (filter (to_recalculate now) (candidates_of contains_point (Some cfg) now strips)) = Some (slots, rs)"
    by (auto simp: recalculateAirport_def s Let_def split: option.splits)
  from assms(1) obtain oc' where q: "process_strips sv notify (Some cfg) now (candidates_of contains_point (Some cfg) now strips) (go_sort (recalculate_less now) rs)
       (empty_run\<lparr> run_slots := fold (reserve now) rs slots \<rparr>) = Some oc'"
    by (auto simp: recalculateAirport_def s p Let_def split: option.splits)
  have "Some oc = Some (case oc' of Failed e st \<Rightarrow> Failed e st | Continue st \<Rightarrow> Continue (publish sv notify st))"
    unfolding assms(1) [symmetric] by (cases oc') (simp_all add: recalculateAirport_def s p q Let_def)
  then have "oc = (case oc' of Failed e st \<Rightarrow> Failed e st | Continue st \<Rightarrow> Continue (publish sv notify st))" by (simp only: option.inject)
  with s p q that show ?thesis by blast
qed

lemma recalculate_completes:
  assumes "recalculateAirport contains_point sv (Inr strips) session now notify = Some (Continue st)"
  obtains cfg slots rs st1 where "session = Inr (Some cfg)"
    "preserve (Some cfg) now (go_sort (preserved_less now) (filter (\<lambda>c. \<not> to_recalculate now c) (candidates_of contains_point (Some cfg) now strips))) []
       (filter (to_recalculate now) (candidates_of contains_point (Some cfg) now strips)) = Some (slots, rs)"
    "process_strips sv notify (Some cfg) now (candidates_of contains_point (Some cfg) now strips) (go_sort (recalculate_less now) rs)
       (empty_run\<lparr> run_slots := fold (reserve now) rs slots \<rparr>) = Some (Continue st1)"
    "st = publish sv notify st1"
proof (rule recalculate_run [OF assms, of st])
  fix strips' cfg slots rs oc'
  assume r: "Inr strips = Inr strips'" "session = Inr (Some cfg)"
    "preserve (Some cfg) now (go_sort (preserved_less now) (filter (\<lambda>c. \<not> to_recalculate now c) (candidates_of contains_point (Some cfg) now strips'))) []
       (filter (to_recalculate now) (candidates_of contains_point (Some cfg) now strips')) = Some (slots, rs)"
    "process_strips sv notify (Some cfg) now (candidates_of contains_point (Some cfg) now strips') (go_sort (recalculate_less now) rs)
       (empty_run\<lparr> run_slots := fold (reserve now) rs slots \<rparr>) = Some oc'"
    "Continue st = (case oc' of Failed e st \<Rightarrow> Failed e st | Continue st \<Rightarrow> Continue (publish sv notify st))"
  from r(5) obtain st1 where "oc' = Continue st1" "st = publish sv notify st1" by (cases oc') auto
  with r(1-4) show thesis by (intro that [of cfg slots rs st1]) simp_all
qed simp

lemma recalculate_members:
  assumes "preserve config now (go_sort lt (filter (\<lambda>c. \<not> P c) cands)) [] (filter P cands) = Some (slots, rs)"
  shows "\<exists>kept. slots = map sc_slot kept \<and> mset kept + mset rs = mset cands" "set rs \<subseteq> set cands" "set (filter P cands) \<subseteq> set rs"
proof -
  from preserve_recalculate [OF assms] obtain kept moved where k: "slots = map sc_slot kept" "rs = filter P cands @ moved"
      "mset kept + mset moved = mset (filter (\<lambda>c. \<not> P c) cands)" by auto
  have "mset kept + mset moved + filter_mset P (mset cands) = mset cands"
    unfolding k(3) mset_filter using multiset_partition [of "mset cands" P] by (simp only: add.commute)
  then have m: "mset kept + mset rs = mset cands" by (simp add: k(2) ac_simps)
  with k show "\<exists>kept. slots = map sc_slot kept \<and> mset kept + mset rs = mset cands" by blast
  show "set rs \<subseteq> set cands" using arg_cong [OF m, of set_mset] by auto
  show "set (filter P cands) \<subseteq> set rs" using k by auto
qed

lemma candidates_all_ok: "c \<in> set (candidates_of contains_point config now strips) \<Longrightarrow> candidate_ok c"
  using candidate_of_strip(1) by (auto simp only: candidates_of_set)

text \<open>
  C35. Recalculation writes only what it may: every document that a run writes, whether it completes or
  fails half-way, is that of a listed flight that EuroScope sees and that is not an arrival, has its
  pending marker cleared, and belongs to a started flight only if a CTOT or pushback request covers it.
  For a flight that asked for an improvement it never sets a later start-up time: it keeps the times or
  moves the start-up forward, or withdraws times that had lapsed, which a pending flight without such
  a request always gets.
\<close>

theorem recalculation_writes_are_allowed:
  assumes "recalculateAirport contains_point sv rows session now notify = Some oc" "Persist callsign d \<in> set (run_effects (run_of oc))"
  shows "\<exists>strips strip. rows = Inr strips \<and> Some strip \<in> set strips \<and> \<not> shouldSkipStrip strip \<and> callsign = s_Callsign strip \<and>
    allowed_write strip now d"
proof -
  from assms(2) have "run_effects (run_of oc) \<noteq> []" by auto
  then obtain strips cfg slots rs oc' where r: "rows = Inr strips" "session = Inr (Some cfg)"
    "preserve (Some cfg) now (go_sort (preserved_less now) (filter (\<lambda>c. \<not> to_recalculate now c) (candidates_of contains_point (Some cfg) now strips))) []
       (filter (to_recalculate now) (candidates_of contains_point (Some cfg) now strips)) = Some (slots, rs)"
    "process_strips sv notify (Some cfg) now (candidates_of contains_point (Some cfg) now strips) (go_sort (recalculate_less now) rs)
       (empty_run\<lparr> run_slots := fold (reserve now) rs slots \<rparr>) = Some oc'"
    "oc = (case oc' of Failed e st \<Rightarrow> Failed e st | Continue st \<Rightarrow> Continue (publish sv notify st))"
    using recalculate_run [OF assms(1)] by metis
  note sub = recalculate_members(2) [OF r(3)]
  then have "list_all candidate_ok (go_sort (recalculate_less now) rs)" using candidates_all_ok by (auto simp: list_all_iff)
  from process_strips_extends [OF r(4) this] have
    w: "\<forall>e \<in> set (run_effects (run_of oc')). \<exists>c \<in> set rs. written_for c now e" by (auto simp: empty_run_def)
  have "Persist callsign d \<in> set (run_effects (run_of oc'))"
    using assms(2) by (cases oc') (auto simp: r(5) publish_def split: if_splits)
  with w sub obtain c where c: "c \<in> set (candidates_of contains_point (Some cfg) now strips)" "written_for c now (Persist callsign d)" by blast
  then obtain row where row: "Some row \<in> set strips" "\<not> shouldSkipStrip row" "c = candidate_of contains_point (Some cfg) now row"
    by (auto simp: candidates_of_set)
  with c(2) have "callsign = s_Callsign row" "allowed_write row now d"
    using candidate_of_strip(2) [OF row(2,3)] allowed_write_row [OF row(2)] by (auto simp: written_for_def)
  with r(1) row show ?thesis by blast
qed

section \<open>Pending requests\<close>

lemma persist_data_Continue:
  assumes "persist_data sv notify strip d st = Continue st'"
  shows "\<exists>d'. Persist (s_Callsign strip) d' \<in> set (run_effects st')"
  by (cases rule: persist_data_cases [of sv notify strip d st]) (use assms in auto)

lemma finish_strip_Continue:
  assumes "finish_strip sv notify c result data st = Continue st'" "cd_Recalculate (data_of (sc_strip c))"
  shows "\<exists>d. Persist (s_Callsign (sc_strip c)) d \<in> set (run_effects st')"
proof -
  let ?u = "ClearLocalRecalculationPending data"
  have n: "needs_persist (data_of (sc_strip c)) (sc_input c) result ?u" using assms(2) by (simp add: needs_persist_def)
  with assms(1) obtain st1 where st1: "persist_data sv notify (sc_strip c) ?u st = Continue st1"
    by (auto simp: finish_strip_def Let_def split: outcome.splits)
  with assms(1) n obtain st2 where st2: "dispatch_eobt sv c st1 = Continue st2" "st' = add_slot (sc_strip c) ?u result st2"
    by (auto simp: finish_strip_def Let_def split: outcome.splits)
  have "set (run_effects st1) \<subseteq> set (run_effects st2)" using st2(1) by (auto simp: dispatch_eobt_def split: if_splits sum.splits)
  moreover have "run_effects st' = run_effects st2" by (simp add: st2(2) add_slot_def)
  ultimately show ?thesis using persist_data_Continue [OF st1] by auto
qed

lemma process_pending:
  assumes "process_strip sv notify config now cands c st = Some (Continue st')" "shouldRecalculateStrip (sc_strip c) now"
    and "cd_Recalculate (data_of (sc_strip c))"
  shows "\<exists>d. Persist (s_Callsign (sc_strip c)) d \<in> set (run_effects st')"
proof (cases "isTsatSpecificallyExpired (sc_strip c) now \<and> \<not> dataAllowsStartedRecalculation (sc_strip c)")
  case True
  have "cd_Tsat (data_of (sc_strip c)) \<noteq> None"
  proof
    assume "cd_Tsat (data_of (sc_strip c)) = None"
    with True show False
      by (auto simp: isTsatSpecificallyExpired_def data_of_def normalizeCalculationClock_def Let_def split: option.splits)
  qed
  moreover have "expire_strip sv notify c st = Continue st'" using assms(1,2) True by (simp add: process_strip_def Let_def)
  ultimately show ?thesis unfolding expire_strip_def Let_def by (auto dest: persist_data_Continue)
next
  case False
  with assms(1,2) have "calculate_strip sv notify config now cands c st = Some (Continue st')" by (simp add: process_strip_def Let_def)
  then obtain result data x where "finish_strip sv notify c result data x = Continue st'"
    by (auto simp: calculate_strip_def Let_def split: option.splits if_splits)
  from finish_strip_Continue [OF this assms(3)] show ?thesis .
qed

lemma process_strips_pending:
  assumes "process_strips sv notify config now cands cs st = Some (Continue st')" "list_all candidate_ok cs"
    and "c \<in> set cs" "shouldRecalculateStrip (sc_strip c) now" "cd_Recalculate (data_of (sc_strip c))"
  shows "\<exists>d. Persist (s_Callsign (sc_strip c)) d \<in> set (run_effects st')"
  using assms(1-3)
proof (induction cs arbitrary: st)
  case (Cons x cs)
  from Cons.prems(1) show ?case
  proof (cases rule: process_strips_cases)
    case (go_on st1)
    show ?thesis
    proof (cases "c = x")
      case True
      with process_pending [OF go_on(1)] assms(4,5) obtain d where "Persist (s_Callsign (sc_strip c)) d \<in> set (run_effects st1)" by blast
      moreover obtain new where "run_effects st' = run_effects st1 @ new"
        using process_strips_extends [OF go_on(2)] Cons.prems(2) by auto
      ultimately show ?thesis by auto
    next
      case False
      with Cons.IH [OF go_on(2)] Cons.prems show ?thesis by simp
    qed
  qed simp
qed simp

lemma pending_served:
  assumes "recalculateAirport contains_point sv (Inr strips) session now notify = Some (Continue st)"
    and "Some strip \<in> set strips" "\<not> shouldSkipStrip strip" "NeedsLocalRecalculation (s_CdmData strip)"
    and "stripHasStarted strip \<longrightarrow> dataAllowsStartedRecalculation strip"
  shows "\<exists>d. Persist (s_Callsign strip) d \<in> set (run_effects st) \<and> \<not> cd_Recalculate d"
proof -
  obtain cfg slots rs st1 where r:
    "preserve (Some cfg) now (go_sort (preserved_less now) (filter (\<lambda>c. \<not> to_recalculate now c) (candidates_of contains_point (Some cfg) now strips))) []
       (filter (to_recalculate now) (candidates_of contains_point (Some cfg) now strips)) = Some (slots, rs)"
    "process_strips sv notify (Some cfg) now (candidates_of contains_point (Some cfg) now strips) (go_sort (recalculate_less now) rs)
       (empty_run\<lparr> run_slots := fold (reserve now) rs slots \<rparr>) = Some (Continue st1)"
    "st = publish sv notify st1"
    by (rule recalculate_completes [OF assms(1)])
  let ?c = "candidate_of contains_point (Some cfg) now strip"
  note c = candidate_of_strip [OF assms(3) refl, of contains_point "Some cfg" now]
  have rec: "cd_Recalculate (data_of strip)" using assms(4) by (auto simp: NeedsLocalRecalculation_def data_of_def split: option.splits)
  with c(6) have same: "sc_strip ?c = strip" by blast
  have should: "shouldRecalculateStrip strip now"
    using rec assms(5) live_has_data [OF assms(3)] by (auto simp: shouldRecalculateStrip_def data_of_def)
  have "?c \<in> set (filter (to_recalculate now) (candidates_of contains_point (Some cfg) now strips))"
    using assms(2,3) should by (auto simp: candidates_of_set to_recalculate_def same)
  then have "?c \<in> set (go_sort (recalculate_less now) rs)" using recalculate_members(3) [OF r(1)] by auto
  moreover have "list_all candidate_ok (go_sort (recalculate_less now) rs)"
    using recalculate_members(2) [OF r(1)] candidates_all_ok by (auto simp: list_all_iff)
  ultimately obtain d where d: "Persist (s_Callsign strip) d \<in> set (run_effects st1)"
    using process_strips_pending [OF r(2), of ?c] should rec unfolding same by blast
  then have "Persist (s_Callsign strip) d \<in> set (run_effects st)" by (auto simp: r(3) publish_def)
  moreover obtain new where "run_effects st1 = run_effects (empty_run\<lparr> run_slots := fold (reserve now) rs slots \<rparr>) @ new"
      "\<forall>e \<in> set new. \<exists>c \<in> set (go_sort (recalculate_less now) rs). written_for c now e"
    using process_strips_extends [OF r(2) \<open>list_all candidate_ok (go_sort (recalculate_less now) rs)\<close>] by auto
  with d have "\<not> cd_Recalculate d" by (auto simp: empty_run_def written_for_def allowed_write_def)
  ultimately show ?thesis by blast
qed

text \<open>
  C36. No request for a recalculation is lost: when a run completes, a document with a cleared marker has
  been written for every listed live flight whose recalculation was pending and may be made.
\<close>

theorem pending_requests_are_served:
  assumes "recalculateAirport contains_point sv (Inr strips) session now notify = Some (Continue st)"
    and "Some strip \<in> set strips" "\<not> shouldSkipStrip strip" "NeedsLocalRecalculation (s_CdmData strip)"
    and "stripHasStarted strip \<longrightarrow> dataAllowsStartedRecalculation strip"
  shows "\<exists>d. Persist (s_Callsign strip) d \<in> set (run_effects st) \<and> \<not> cd_Recalculate d"
  using assms by (rule pending_served)

section \<open>Separation of the slots of a run\<close>

text \<open>The calculation input that a slot stands for, as far as separation depends on it.\<close>

definition slot_input :: "SlotEntry \<Rightarrow> CalcInput" where
  "slot_input a = \<lparr> ci_Callsign = sl_Callsign a, ci_Origin = sl_Origin a, ci_Destination = sl_Destination a, ci_DepRwy = sl_DepRwy a,
     ci_Sid = sl_Sid a, ci_WakeCat = sl_WakeCat a, ci_Eobt = '''', ci_Tobt = '''', ci_TobtAuthoritative = False, ci_Ctot = '''',
     ci_Aobt = '''', ci_Asat = '''', ci_TaxiMin = 0, ci_DeIceMin = 0, ci_DeiceTaxiMin = 0, ci_HasManCtot = sl_HasManCtot a, ci_ManCtot = '''' \<rparr>"

text \<open>The slot \<open>a\<close> is separated, in seconds, from the slot \<open>b\<close> of another flight of the airport whose time is a clock value.\<close>

definition keeps_clear :: "CdmAirportConfig option \<Rightarrow> SlotEntry \<Rightarrow> SlotEntry \<Rightarrow> bool" where
  "keeps_clear config a b \<longleftrightarrow>
     (equal_fold (trim_space (sl_Origin b)) (trim_space (sl_Origin a)) \<and> \<not> same_callsign (sl_Callsign b) (sl_Callsign a) \<and>
      plain_clock (sl_Ttot b) \<longrightarrow>
      (\<forall>s. parseClock (sl_Ttot b) = Some s \<longrightarrow>
         (\<exists>t. parseClock (sl_Ttot a) = Some t \<and> separated_in_seconds (slot_input a) config t b s)))"

definition fits_input :: "SlotEntry \<Rightarrow> CalcInput \<Rightarrow> bool" where
  "fits_input a input \<longleftrightarrow> sl_Callsign a = ci_Callsign input \<and> sl_Origin a = ci_Origin input \<and> sl_Destination a = ci_Destination input \<and>
     sl_DepRwy a = ci_DepRwy input \<and> sl_Sid a = ci_Sid input \<and> sl_WakeCat a = ci_WakeCat input \<and> sl_HasManCtot a = ci_HasManCtot input"

lemma calculated_keeps_clear:
  assumes "Calculate input slots config now = Some r" "cres_Ttot r \<noteq> ''''" "plain_input input"
    and "fits_input a input" "toHHMMSS (sl_Ttot a) = toHHMMSS (cres_Ttot r)" "b \<in> set slots"
  shows "keeps_clear config a b"
  unfolding keeps_clear_def
proof (intro impI allI)
  fix s
  assume b: "equal_fold (trim_space (sl_Origin b)) (trim_space (sl_Origin a)) \<and> \<not> same_callsign (sl_Callsign b) (sl_Callsign a) \<and> plain_clock (sl_Ttot b)"
    and s: "parseClock (sl_Ttot b) = Some s"
  have "\<exists>t. parseClock (cres_Ttot r) = Some t \<and> separated_in_seconds input config t b s"
    using b assms(4) by (intro Calculate_separated [OF assms(1-3,6) _ _ s]) (auto simp: fits_input_def same_callsign_def)
  moreover have "parseClock (sl_Ttot a) = parseClock (cres_Ttot r)" using assms(5) by (simp add: parseClock_def)
  moreover have "separated_in_seconds (slot_input a) config t b s = separated_in_seconds input config t b s" for t
    using assms(4) by (simp add: separated_in_seconds_def fits_input_def slot_input_def)
  ultimately show "\<exists>t. parseClock (sl_Ttot a) = Some t \<and> separated_in_seconds (slot_input a) config t b s" by simp
qed

definition own_slots :: "sequencingCandidate \<Rightarrow> SlotEntry list \<Rightarrow> SlotEntry list" where
  "own_slots c slots = filter (\<lambda>s. same_callsign (sl_Callsign s) (s_Callsign (sc_strip c))) slots"

lemma same_callsign_trans: "same_callsign a b \<Longrightarrow> same_callsign b c \<Longrightarrow> same_callsign a c"
  by (simp add: same_callsign_def equal_fold_def)

lemma same_callsign_sym: "same_callsign a b \<longleftrightarrow> same_callsign b a"
  by (auto simp: same_callsign_def equal_fold_def)

lemma same_callsign_refl [simp]: "same_callsign a a"
  by (simp add: same_callsign_def)

lemma hasSlot_own: "hasSlotForCallsign slots (s_Callsign (sc_strip c)) \<longleftrightarrow> own_slots c slots \<noteq> []"
  by (simp add: hasSlotForCallsign_def own_slots_def list_ex_iff filter_empty_conv)

lemma remove_set: "set (removeSlotForCallsign slots callsign) \<subseteq> set slots"
  by (induction slots callsign rule: removeSlotForCallsign.induct) auto

lemma remove_sorted: "sorted_wrt P slots \<Longrightarrow> sorted_wrt P (removeSlotForCallsign slots callsign)"
  by (induction slots callsign rule: removeSlotForCallsign.induct) (use remove_set in auto)

lemma remove_keeps: "s \<in> set slots \<Longrightarrow> \<not> same_callsign (sl_Callsign s) callsign \<Longrightarrow> s \<in> set (removeSlotForCallsign slots callsign)"
  by (induction slots callsign rule: removeSlotForCallsign.induct) auto

lemma remove_own_other:
  assumes "\<not> same_callsign callsign (s_Callsign (sc_strip c))"
  shows "own_slots c (removeSlotForCallsign slots callsign) = own_slots c slots"
  using assms
proof (induction slots callsign rule: removeSlotForCallsign.induct)
  case (2 s slots callsign)
  then show ?case
    using same_callsign_trans [of callsign "sl_Callsign s" "s_Callsign (sc_strip c)"] same_callsign_sym
    by (auto simp: own_slots_def)
qed (simp add: own_slots_def)

lemma remove_own_single:
  assumes "own_slots c slots = [x]"
  shows "own_slots c (removeSlotForCallsign slots (s_Callsign (sc_strip c))) = []"
  using assms
proof (induction slots)
  case (Cons s slots)
  then show ?case by (auto simp: own_slots_def split: if_splits)
qed (simp add: own_slots_def)

text \<open>How the slots change while one flight is processed.\<close>

definition slot_step :: "CdmAirportConfig option \<Rightarrow> sequencingCandidate \<Rightarrow> SlotEntry list \<Rightarrow> SlotEntry list \<Rightarrow> bool" where
  "slot_step config c before_slots after_slots \<longleftrightarrow>
     (\<exists>slots. (slots = before_slots \<or> slots = removeSlotForCallsign before_slots (s_Callsign (sc_strip c))) \<and>
        (after_slots = slots \<or>
         (\<exists>a. after_slots = slots @ [a] \<and> sl_Callsign a = s_Callsign (sc_strip c) \<and>
            (existingSlotEntry (sc_strip c) = Some a \<or> (\<forall>b \<in> set slots. keeps_clear config a b)))))"

definition own_ok :: "SlotEntry list \<Rightarrow> sequencingCandidate \<Rightarrow> bool" where
  "own_ok slots c \<longleftrightarrow> own_slots c slots = [] \<or> sc_improvement c \<and> own_slots c slots = [sc_slot c] \<and> sc_hasSlot c"

text \<open>The slot of a written take-off time is among the slots.\<close>

definition slot_held :: "SlotEntry list \<Rightarrow> effect \<Rightarrow> bool" where
  "slot_held slots e \<longleftrightarrow>
     (case e of Persist callsign d \<Rightarrow>
        (\<forall>t. cd_Ttot d = Some t \<and> trim_space t \<noteq> '''' \<longrightarrow>
           (\<exists>a \<in> set slots. sl_Callsign a = callsign \<and> toHHMMSS (sl_Ttot a) = toHHMMSS t))
      | _ \<Rightarrow> True)"

definition input_ok :: "CdmAirportConfig option \<Rightarrow> sequencingCandidate \<Rightarrow> bool" where
  "input_ok config c \<longleftrightarrow> plain_input (sc_input c) \<and> (\<exists>contains_point. sc_input c = buildCalcInput contains_point (sc_strip c) config)"

lemma strip_slot_fits: "input_ok config c \<Longrightarrow> HasManualCtot d = HasManualCtot (data_of (sc_strip c)) \<Longrightarrow> fits_input (strip_slot (sc_strip c) d t) (sc_input c)"
  by (auto simp: input_ok_def fits_input_def strip_slot_def buildCalcInput_def Let_def)

lemma strip_slot_fields [simp]: "sl_Callsign (strip_slot s d t) = s_Callsign s" "sl_Ttot (strip_slot s d t) = t"
  by (simp_all add: strip_slot_def)

lemma existing_slot_fields:
  assumes "existingSlotEntry strip = Some slot"
  shows "slot = strip_slot strip (data_of strip) (trim_space (value_or_empty (cd_Ttot (data_of strip))))" "sl_Ttot slot \<noteq> ''''"
  using assms by (auto simp: existingSlotEntry_def normalizeCalculationClock_def data_of_def Let_def split: option.splits if_splits)

lemma existing_slot_exists:
  assumes "s_CdmData strip \<noteq> None" "trim_space (value_or_empty (cd_Ttot (data_of strip))) \<noteq> ''''"
  shows "existingSlotEntry strip = Some (strip_slot strip (data_of strip) (trim_space (value_or_empty (cd_Ttot (data_of strip)))))"
  using assms by (auto simp: existingSlotEntry_def normalizeCalculationClock_def data_of_def Let_def)

lemma persist_data_steps:
  assumes "persist_data sv notify strip d st = Continue st'"
  shows "run_slots st' = run_slots st \<and> (\<exists>d'. run_effects st' = run_effects st @ [Persist (s_Callsign strip) d'] \<and> cd_Ttot d' = cd_Ttot d)"
  by (cases rule: persist_data_cases [of sv notify strip d st]) (use assms in auto)

lemma finish_strip_slots:
  assumes "finish_strip sv notify c result data st = Continue st'"
  shows "run_slots st' = (if cres_Ttot result \<noteq> '''' \<and> own_slots c (run_slots st) = []
      then run_slots st @ [strip_slot (sc_strip c) data (cres_Ttot result)] else run_slots st)" (is ?slots)
    and "\<exists>new. run_effects st' = run_effects st @ new \<and>
      (\<forall>e \<in> set new. case e of Persist callsign d \<Rightarrow> callsign = s_Callsign (sc_strip c) \<and> cd_Ttot d = cd_Ttot data | _ \<Rightarrow> True)" (is ?effects)
proof -
  let ?u = "ClearLocalRecalculationPending data"
  have slot: "strip_slot (sc_strip c) ?u t = strip_slot (sc_strip c) data t" for t by (simp add: strip_slot_def)
  have add: "run_effects (add_slot (sc_strip c) ?u result x) = run_effects x"
    "run_slots (add_slot (sc_strip c) ?u result x) = (if cres_Ttot result \<noteq> '''' \<and> own_slots c (run_slots x) = []
      then run_slots x @ [strip_slot (sc_strip c) data (cres_Ttot result)] else run_slots x)" for x
    by (simp_all add: add_slot_def hasSlot_own slot)
  have "?slots \<and> ?effects"
  proof (cases "needs_persist (data_of (sc_strip c)) (sc_input c) result ?u")
    case False
    with assms have "st' = add_slot (sc_strip c) ?u result st" by (simp add: finish_strip_def Let_def)
    then show ?thesis by (simp add: add)
  next
    case True
    with assms obtain st1 where st1: "persist_data sv notify (sc_strip c) ?u st = Continue st1"
      by (auto simp: finish_strip_def Let_def split: outcome.splits)
    with assms True obtain st2 where st2: "dispatch_eobt sv c st1 = Continue st2" "st' = add_slot (sc_strip c) ?u result st2"
      by (auto simp: finish_strip_def Let_def split: outcome.splits)
    from persist_data_steps [OF st1] obtain d' where d': "run_slots st1 = run_slots st"
        "run_effects st1 = run_effects st @ [Persist (s_Callsign (sc_strip c)) d']" "cd_Ttot d' = cd_Ttot data" by auto
    obtain more where more: "run_slots st2 = run_slots st1" "run_effects st2 = run_effects st1 @ more" "\<forall>e \<in> set more. \<exists>a b. e = BroadcastEobt a b"
      using st2(1) by (auto simp: dispatch_eobt_def split: if_splits sum.splits)
    have "?slots" by (simp add: st2(2) add more(1) d'(1))
    moreover have "?effects"
      by (rule exI [of _ "Persist (s_Callsign (sc_strip c)) d' # more"]) (use more(3) in \<open>auto simp: st2(2) add more(2) d'(2,3)\<close>)
    ultimately show ?thesis ..
  qed
  then show ?slots ?effects by simp_all
qed

definition step_ok :: "CdmAirportConfig option \<Rightarrow> sequencingCandidate \<Rightarrow> run \<Rightarrow> run \<Rightarrow> bool" where
  "step_ok config c st st' \<longleftrightarrow> slot_step config c (run_slots st) (run_slots st') \<and>
     (\<exists>new. run_effects st' = run_effects st @ new \<and>
       (\<forall>e \<in> set new. slot_held (run_slots st') e \<and> (\<forall>callsign d. e = Persist callsign d \<longrightarrow> callsign = s_Callsign (sc_strip c))))"

lemma step_okI:
  assumes "slot_step config c (run_slots st) (run_slots st')" "run_effects st' = run_effects st @ new"
    and "\<forall>e \<in> set new. case e of Persist callsign d \<Rightarrow> callsign = s_Callsign (sc_strip c) \<and> cd_Ttot d = ttot | _ \<Rightarrow> True"
    and "\<And>t. ttot = Some t \<Longrightarrow> trim_space t \<noteq> '''' \<Longrightarrow>
      \<exists>a \<in> set (run_slots st'). sl_Callsign a = s_Callsign (sc_strip c) \<and> toHHMMSS (sl_Ttot a) = toHHMMSS t"
  shows "step_ok config c st st'"
  unfolding step_ok_def
proof (intro conjI exI [of _ new] ballI assms(1,2))
  fix e
  assume "e \<in> set new"
  with assms(3) have e: "case e of Persist callsign d \<Rightarrow> callsign = s_Callsign (sc_strip c) \<and> cd_Ttot d = ttot | _ \<Rightarrow> True" by blast
  then show "\<forall>callsign d. e = Persist callsign d \<longrightarrow> callsign = s_Callsign (sc_strip c)" by auto
  from e assms(4) show "slot_held (run_slots st') e" by (auto simp: slot_held_def split: effect.split)
qed

lemma expire_strip_step:
  assumes "expire_strip sv notify c st = Continue st'"
  shows "step_ok config c st st'"
proof -
  let ?d = "expired_data (data_of (sc_strip c)) (sc_input c) (value_or_empty (s_Runway (sc_strip c)))"
  let ?S = "if sc_improvement c then removeSlotForCallsign (run_slots st) (s_Callsign (sc_strip c)) else run_slots st"
  let ?st = "if sc_improvement c then st\<lparr> run_slots := removeSlotForCallsign (run_slots st) (s_Callsign (sc_strip c)) \<rparr> else st"
  have S: "run_slots ?st = ?S" "run_effects ?st = run_effects st" by simp_all
  have "st' = ?st \<or> persist_data sv notify (sc_strip c) ?d ?st = Continue st'"
    using assms unfolding expire_strip_def Let_def by (auto split: if_splits)
  then obtain new where "run_slots st' = ?S" "run_effects st' = run_effects st @ new"
      "\<forall>e \<in> set new. case e of Persist callsign d \<Rightarrow> callsign = s_Callsign (sc_strip c) \<and> cd_Ttot d = None | _ \<Rightarrow> True"
  proof
    assume "st' = ?st"
    with S that [of "[]"] show thesis by simp
  next
    assume "persist_data sv notify (sc_strip c) ?d ?st = Continue st'"
    from persist_data_steps [OF this] obtain d' where "run_slots st' = ?S"
        "run_effects st' = run_effects st @ [Persist (s_Callsign (sc_strip c)) d']" "cd_Ttot d' = cd_Ttot ?d" unfolding S by blast
    moreover have "cd_Ttot ?d = None" by (simp add: expired_data_def Let_def)
    ultimately show thesis using that [of "[Persist (s_Callsign (sc_strip c)) d']"] by simp
  qed
  then show ?thesis by (intro step_okI [of _ _ _ _ new None]) (auto simp: slot_step_def)
qed

lemma calculate_strip_step:
  assumes "calculate_strip sv notify config now cands c st = Some (Continue st')" "candidate_ok c" "input_ok config c" "own_ok (run_slots st) c"
  shows "step_ok config c st st'"
proof -
  let ?strip = "sc_strip c" and ?data = "data_of (sc_strip c)"
  let ?t = "trim_space (value_or_empty (cd_Ttot ?data))"
  from assms(1) obtain result trace where calc: "calculateWithTrace (sc_input c) (run_slots st) config now = Some (result, trace)"
    by (auto simp: calculate_strip_def Let_def split: option.splits)
  from assms(1) obtain adopt where adopt: "(if isEarlierClock (cres_Tsat result) (trim_space (value_or_empty (cd_Tsat ?data)))
      then improvementKeepsQueueOrder c (cres_Ttot result) (run_slots st) cands config now else Some False) = Some adopt"
    by (auto simp: calculate_strip_def Let_def calc split: option.splits)
  show ?thesis
  proof (cases "sc_improvement c \<and> \<not> adopt")
    case True
    let ?r = "\<lparr> cres_Tsat = trim_space (value_or_empty (cd_Tsat ?data)), cres_Ttot = ?t \<rparr>"
    have f: "finish_strip sv notify c ?r ?data st = Continue st'"
      using assms(1) True by (simp add: calculate_strip_def Let_def calc adopt)
    note slots = finish_strip_slots(1) [OF f, simplified]
    from finish_strip_slots(2) [OF f] obtain new where new: "run_effects st' = run_effects st @ new"
        "\<forall>e \<in> set new. case e of Persist callsign d \<Rightarrow> callsign = s_Callsign ?strip \<and> cd_Ttot d = cd_Ttot ?data | _ \<Rightarrow> True" by blast
    have ex: "existingSlotEntry ?strip = Some (strip_slot ?strip ?data ?t)" if "?t \<noteq> ''''"
      using existing_slot_exists [OF _ that] assms(2) by (simp add: candidate_ok_def)
    show ?thesis
    proof (rule step_okI [OF _ new])
      show "slot_step config c (run_slots st) (run_slots st')" using slots ex by (auto simp: slot_step_def split: if_splits)
    next
      fix t
      assume t: "cd_Ttot ?data = Some t" "trim_space t \<noteq> ''''"
      then have tt: "?t = trim_space t" by (simp add: value_or_empty_def)
      with ex t have e: "existingSlotEntry ?strip = Some (strip_slot ?strip ?data ?t)" by simp
      have "strip_slot ?strip ?data ?t \<in> set (run_slots st')"
      proof (cases "own_slots c (run_slots st) = []")
        case True
        with slots t tt show ?thesis by simp
      next
        case False
        with assms(4) have "own_slots c (run_slots st) = [sc_slot c]" by (simp add: own_ok_def)
        moreover have "sc_slot c = strip_slot ?strip ?data ?t" using e assms(2) by (simp add: candidate_ok_def)
        ultimately have "strip_slot ?strip ?data ?t \<in> set (own_slots c (run_slots st))" by simp
        with slots False show ?thesis by (simp add: own_slots_def)
      qed
      then show "\<exists>a \<in> set (run_slots st'). sl_Callsign a = s_Callsign ?strip \<and> toHHMMSS (sl_Ttot a) = toHHMMSS t"
        by (rule bexI [rotated]) (simp add: tt)
    qed
  next
    case False
    let ?S = "if sc_improvement c then removeSlotForCallsign (run_slots st) (s_Callsign ?strip) else run_slots st"
    from assms(1) obtain proposal where f: "finish_strip sv notify c result
        (adopted_data ?data (sc_input c) result trace proposal (value_or_empty (s_Runway ?strip)) now) (st\<lparr> run_slots := ?S \<rparr>) = Continue st'"
      unfolding calculate_strip_def Let_def calc adopt option.case prod.case if_not_P [OF False]
      by (auto split: option.splits split del: if_split)
    let ?d = "adopted_data ?data (sc_input c) result trace proposal (value_or_empty (s_Runway ?strip)) now"
    have own: "own_slots c ?S = []"
    proof (cases "own_slots c (run_slots st) = []")
      case True
      then show ?thesis using remove_set [of "run_slots st" "s_Callsign ?strip"] by (auto simp: own_slots_def filter_empty_conv)
    next
      case False
      with assms(4) show ?thesis using remove_own_single [of c "run_slots st" "sc_slot c"] by (auto simp: own_ok_def)
    qed
    have sub: "set ?S \<subseteq> set (run_slots st)" using remove_set by auto
    have slots: "run_slots st' = (if cres_Ttot result \<noteq> '''' then ?S @ [strip_slot ?strip ?d (cres_Ttot result)] else ?S)"
      using finish_strip_slots(1) [OF f] own by simp
    from finish_strip_slots(2) [OF f] obtain new where new: "run_effects st' = run_effects st @ new"
        "\<forall>e \<in> set new. case e of Persist callsign d \<Rightarrow> callsign = s_Callsign ?strip \<and> cd_Ttot d = cd_Ttot ?d | _ \<Rightarrow> True" by auto
    have clear: "\<forall>b \<in> set ?S. keeps_clear config (strip_slot ?strip ?d (cres_Ttot result)) b" if "cres_Ttot result \<noteq> ''''"
    proof
      fix b
      assume "b \<in> set ?S"
      with sub have b: "b \<in> set (run_slots st)" by blast
      have "Calculate (sc_input c) (run_slots st) config now = Some result" by (simp add: Calculate_def calc)
      from calculated_keeps_clear [OF this that _ _ _ b] show "keeps_clear config (strip_slot ?strip ?d (cres_Ttot result)) b"
        using assms(3) strip_slot_fits [OF assms(3), of ?d "cres_Ttot result"] by (simp add: input_ok_def adopted_fields)
    qed
    show ?thesis
    proof (rule step_okI [OF _ new])
      show "slot_step config c (run_slots st) (run_slots st')"
        unfolding slot_step_def using slots clear by (intro exI [of _ ?S]) auto
    next
      fix t
      assume t: "cd_Ttot ?d = Some t" "trim_space t \<noteq> ''''"
      then have "t = cres_Ttot result" "cres_Ttot result \<noteq> ''''" by (auto simp: adopted_fields stringPointerIfPresent_def split: if_splits)
      with slots show "\<exists>a \<in> set (run_slots st'). sl_Callsign a = s_Callsign ?strip \<and> toHHMMSS (sl_Ttot a) = toHHMMSS t" by auto
    qed
  qed
qed

lemma process_strip_step:
  assumes "process_strip sv notify config now cands c st = Some (Continue st')" "candidate_ok c" "input_ok config c" "own_ok (run_slots st) c"
  shows "step_ok config c st st'"
proof -
  let ?strip = "sc_strip c"
  define again where "again = (if isTsatSpecificallyExpired ?strip now \<and> \<not> dataAllowsStartedRecalculation ?strip
      then Some (expire_strip sv notify c st) else calculate_strip sv notify config now cands c st)"
  have again: "step_ok config c st st'" if "again = Some (Continue st')"
    using that calculate_strip_step [OF _ assms(2-4)] expire_strip_step by (auto simp: again_def split: if_splits)
  have p: "(if shouldRecalculateStrip ?strip now then again
      else (case existingSlotEntry ?strip of
          None \<Rightarrow> Some (Continue st)
        | Some slot \<Rightarrow>
            (case (if sc_started c then Some True else canRetainExistingSlot c slot (run_slots st) config now) of
               None \<Rightarrow> None
             | Some True \<Rightarrow> Some (Continue (st\<lparr> run_slots := run_slots st @ [slot] \<rparr>))
             | Some False \<Rightarrow> again))) = Some (Continue st')"
    using assms(1) unfolding process_strip_def Let_def again_def .
  have noeff: "step_ok config c st st'" if "run_effects st' = run_effects st" "slot_step config c (run_slots st) (run_slots st')"
    using that by (intro step_okI [of _ _ _ _ "[]" None]) simp_all
  show ?thesis
  proof (cases "shouldRecalculateStrip ?strip now")
    case True
    with p again show ?thesis by simp
  next
    case no: False
    show ?thesis
    proof (cases "existingSlotEntry ?strip")
      case None
      with no p show ?thesis by (intro noeff) (auto simp: slot_step_def)
    next
      case (Some slot)
      have kept: ?thesis if "st' = st\<lparr> run_slots := run_slots st @ [slot] \<rparr>"
        using existing_slot_fields [OF Some] Some that
        by (intro noeff) (auto simp: slot_step_def intro!: exI [of _ "run_slots st"])
      obtain b where b: "(if sc_started c then Some True else canRetainExistingSlot c slot (run_slots st) config now) = Some b"
        using no p Some by (auto split: option.splits)
      show ?thesis
      proof (cases b)
        case True
        with no p Some b show ?thesis by (intro kept) simp
      next
        case False
        with no p Some b show ?thesis by (intro again) simp
      qed
    qed
  qed
qed

definition callsign_key :: "Strip \<Rightarrow> string" where
  "callsign_key strip = to_upper (trim_space (s_Callsign strip))"

lemma same_callsign_key: "same_callsign (s_Callsign a) (s_Callsign b) \<longleftrightarrow> callsign_key a = callsign_key b"
  by (simp add: same_callsign_def equal_fold_def callsign_key_def)

definition ordered_clear :: "CdmAirportConfig option \<Rightarrow> SlotEntry set \<Rightarrow> SlotEntry list \<Rightarrow> bool" where
  "ordered_clear config given slots \<longleftrightarrow> sorted_wrt (\<lambda>b a. a \<in> given \<or> keeps_clear config a b) slots"

definition run_ok :: "CdmAirportConfig option \<Rightarrow> SlotEntry set \<Rightarrow> sequencingCandidate list \<Rightarrow> run \<Rightarrow> bool" where
  "run_ok config given cs st \<longleftrightarrow> list_all (own_ok (run_slots st)) cs \<and> ordered_clear config given (run_slots st) \<and>
     (\<forall>e \<in> set (run_effects st). slot_held (run_slots st) e \<and>
        (\<forall>callsign d c. e = Persist callsign d \<longrightarrow> c \<in> set cs \<longrightarrow> \<not> same_callsign callsign (s_Callsign (sc_strip c))))"

lemma slot_step_other:
  assumes "slot_step config c slots slots'" "\<not> same_callsign (s_Callsign (sc_strip c)) (s_Callsign (sc_strip x))"
  shows "own_slots x slots' = own_slots x slots"
proof -
  from assms(1) obtain S where S: "S = slots \<or> S = removeSlotForCallsign slots (s_Callsign (sc_strip c))"
      "slots' = S \<or> (\<exists>a. slots' = S @ [a] \<and> sl_Callsign a = s_Callsign (sc_strip c))" by (auto simp: slot_step_def)
  have "own_slots x S = own_slots x slots" using S(1) remove_own_other [OF assms(2)] by auto
  then show ?thesis using S(2) assms(2) by (auto simp: own_slots_def)
qed

lemma slot_step_keeps:
  assumes "slot_step config c slots slots'" "s \<in> set slots" "\<not> same_callsign (sl_Callsign s) (s_Callsign (sc_strip c))"
  shows "s \<in> set slots'"
  using assms remove_keeps [OF assms(2,3)] by (auto simp: slot_step_def)

lemma slot_step_ordered:
  assumes "slot_step config c slots slots'" "ordered_clear config given slots" "\<And>a. existingSlotEntry (sc_strip c) = Some a \<Longrightarrow> a \<in> given"
  shows "ordered_clear config given slots'"
proof -
  from assms(1) obtain S where S: "S = slots \<or> S = removeSlotForCallsign slots (s_Callsign (sc_strip c))"
      "slots' = S \<or> (\<exists>a. slots' = S @ [a] \<and> (existingSlotEntry (sc_strip c) = Some a \<or> (\<forall>b \<in> set S. keeps_clear config a b)))"
    by (auto simp: slot_step_def)
  have "sorted_wrt (\<lambda>b a. a \<in> given \<or> keeps_clear config a b) S"
    using S(1) assms(2) remove_sorted [of "\<lambda>b a. a \<in> given \<or> keeps_clear config a b" slots] by (auto simp: ordered_clear_def)
  with S(2) assms(3) show ?thesis by (auto simp: ordered_clear_def sorted_wrt_append)
qed

lemma slot_held_step:
  assumes "slot_held slots e" "slot_step config c slots slots'"
    and "\<And>callsign d. e = Persist callsign d \<Longrightarrow> \<not> same_callsign callsign (s_Callsign (sc_strip c))"
  shows "slot_held slots' e"
  using assms(1,3) slot_step_keeps [OF assms(2)] by (fastforce simp: slot_held_def split: effect.splits)

lemma process_strips_ok:
  assumes "process_strips sv notify config now cands cs st = Some (Continue st')" "run_ok config given cs st"
    and "distinct (map (callsign_key \<circ> sc_strip) cs)" "list_all candidate_ok cs" "list_all (input_ok config) cs"
    and "\<forall>c \<in> set cs. \<forall>a. existingSlotEntry (sc_strip c) = Some a \<longrightarrow> a \<in> given"
  shows "run_ok config given [] st'"
  using assms
proof (induction cs arbitrary: st)
  case (Cons c cs)
  from Cons.prems(1) show ?case
  proof (cases rule: process_strips_cases)
    case (go_on st1)
    have own: "own_ok (run_slots st) c" using Cons.prems(2) by (simp add: run_ok_def)
    from process_strip_step [OF go_on(1) _ _ own] Cons.prems(4,5) have "step_ok config c st st1" by simp
    then obtain new where step: "slot_step config c (run_slots st) (run_slots st1)" "run_effects st1 = run_effects st @ new"
        "\<forall>e \<in> set new. slot_held (run_slots st1) e \<and> (\<forall>callsign d. e = Persist callsign d \<longrightarrow> callsign = s_Callsign (sc_strip c))"
      by (auto simp: step_ok_def)
    have other: "\<not> same_callsign (s_Callsign (sc_strip c)) (s_Callsign (sc_strip x))" if "x \<in> set cs" for x
      using Cons.prems(3) that by (auto simp: same_callsign_key)
    have "run_ok config given cs st1"
      unfolding run_ok_def
    proof (intro conjI)
      show "list_all (own_ok (run_slots st1)) cs"
        using Cons.prems(2) slot_step_other [OF step(1) other] by (auto simp: run_ok_def list_all_iff own_ok_def)
      show "ordered_clear config given (run_slots st1)"
        using slot_step_ordered [OF step(1)] Cons.prems(2,6) by (simp add: run_ok_def)
      show "\<forall>e \<in> set (run_effects st1). slot_held (run_slots st1) e \<and>
        (\<forall>callsign d x. e = Persist callsign d \<longrightarrow> x \<in> set cs \<longrightarrow> \<not> same_callsign callsign (s_Callsign (sc_strip x)))"
      proof
      fix e
      assume "e \<in> set (run_effects st1)"
      then consider (old) "e \<in> set (run_effects st)" | (new) "e \<in> set new" by (auto simp: step(2))
      then show "slot_held (run_slots st1) e \<and> (\<forall>callsign d x. e = Persist callsign d \<longrightarrow> x \<in> set cs \<longrightarrow> \<not> same_callsign callsign (s_Callsign (sc_strip x)))"
      proof cases
        case old
        with Cons.prems(2) have h: "slot_held (run_slots st) e"
          "\<And>callsign d x. e = Persist callsign d \<Longrightarrow> x \<in> set (c # cs) \<Longrightarrow> \<not> same_callsign callsign (s_Callsign (sc_strip x))"
          by (auto simp: run_ok_def)
        then show ?thesis using slot_held_step [OF h(1) step(1)] by auto
      next
        case new
        with step(3) other show ?thesis by auto
      qed
      qed
    qed
    with Cons.IH [OF go_on(2)] Cons.prems(3-6) show ?thesis by simp
  qed simp
qed (simp add: run_ok_def)

lemma reserve_own:
  assumes "x \<in> set rs" "candidate_ok x" "distinct (map (callsign_key \<circ> sc_strip) rs)" "list_all candidate_ok rs" "list_all (own_ok slots) rs"
  shows "list_all (own_ok (reserve now x slots)) rs"
proof (cases "reserve now x slots = slots")
  case False
  then have r: "reserve now x slots = slots @ [sc_slot x]" "sc_improvement x" "sc_hasSlot x" "own_slots x slots = []"
    by (auto simp: reserve_def hasSlot_own split: if_splits)
  from r(3) assms(2) obtain s where "existingSlotEntry (sc_strip x) = Some s" "sc_slot x = s" by (auto simp: candidate_ok_def)
  then have cs: "sl_Callsign (sc_slot x) = s_Callsign (sc_strip x)" using existing_slot_fields by (metis strip_slot_fields(1))
  show ?thesis
    unfolding list_all_iff
  proof
    fix c
    assume c: "c \<in> set rs"
    show "own_ok (reserve now x slots) c"
    proof (cases "c = x")
      case True
      with r cs show ?thesis by (simp add: own_ok_def own_slots_def)
    next
      case False
      with assms(1,3) c have "callsign_key (sc_strip x) \<noteq> callsign_key (sc_strip c)" by (auto simp: distinct_map inj_on_def)
      then have "own_slots c (slots @ [sc_slot x]) = own_slots c slots" using cs by (simp add: own_slots_def same_callsign_key)
      with assms(5) c show ?thesis by (auto simp: r(1) own_ok_def list_all_iff)
    qed
  qed
qed (use assms in simp)

lemma reserve_all_own:
  assumes "set xs \<subseteq> set rs" "distinct (map (callsign_key \<circ> sc_strip) rs)" "list_all candidate_ok rs" "list_all (own_ok slots) rs"
  shows "list_all (own_ok (fold (reserve now) xs slots)) rs"
  using assms
proof (induction xs arbitrary: slots)
  case (Cons x xs)
  from Cons.prems have "list_all (own_ok (reserve now x slots)) rs" by (intro reserve_own) (auto simp: list_all_iff comp_def)
  with Cons show ?case by simp
qed simp

lemma reserve_given:
  assumes "set slots \<subseteq> given" "\<forall>c \<in> set xs. candidate_ok c \<and> (\<forall>a. existingSlotEntry (sc_strip c) = Some a \<longrightarrow> a \<in> given)"
  shows "set (fold (reserve now) xs slots) \<subseteq> given"
  using assms
proof (induction xs arbitrary: slots)
  case (Cons x xs)
  from Cons.prems have "set (reserve now x slots) \<subseteq> given" by (auto simp: reserve_def candidate_ok_def)
  with Cons show ?case by simp
qed simp

lemma given_ordered: "set slots \<subseteq> given \<Longrightarrow> ordered_clear config given slots"
  by (induction slots) (auto simp: ordered_clear_def)

text \<open>The slots that the live flights had before the run, after the recovery of expired ones.\<close>

definition given_slots :: "gotime \<Rightarrow> Strip option list \<Rightarrow> SlotEntry set" where
  "given_slots now strips = {a. \<exists>strip \<in> set (live_strips strips). existingSlotEntry (fst (recoverExpiredTsat strip now)) = Some a}"

text \<open>
  C37. After a completed recalculation every slot is either one that its flight had before or keeps
  clear, in seconds, of all slots before it in the list, and every take-off time that was written is
  that of a slot in the list.
\<close>

theorem recalculated_slots_are_separated:
  assumes "recalculateAirport contains_point sv (Inr strips) (Inr (Some cfg)) now notify = Some (Continue st)"
    and "distinct (map callsign_key (live_strips strips))"
    and "list_all (\<lambda>strip. plain_clock (value_or_empty (cd_Ctot (data_of strip)))) (live_strips strips)"
  shows "sorted_wrt (\<lambda>b a. a \<in> given_slots now strips \<or> keeps_clear (Some cfg) a b) (run_slots st) \<and>
    (\<forall>callsign d t. Persist callsign d \<in> set (run_effects st) \<longrightarrow> cd_Ttot d = Some t \<longrightarrow> trim_space t \<noteq> '''' \<longrightarrow>
       (\<exists>a \<in> set (run_slots st). sl_Callsign a = callsign \<and> toHHMMSS (sl_Ttot a) = toHHMMSS t))"
proof -
  let ?cands = "candidates_of contains_point (Some cfg) now strips" and ?given = "given_slots now strips"
  obtain cfg' slots rs st1 where r: "(Inr (Some cfg) :: string + CdmAirportConfig option) = Inr (Some cfg')"
    "preserve (Some cfg') now (go_sort (preserved_less now) (filter (\<lambda>c. \<not> to_recalculate now c) (candidates_of contains_point (Some cfg') now strips))) []
       (filter (to_recalculate now) (candidates_of contains_point (Some cfg') now strips)) = Some (slots, rs)"
    "process_strips sv notify (Some cfg') now (candidates_of contains_point (Some cfg') now strips) (go_sort (recalculate_less now) rs)
       (empty_run\<lparr> run_slots := fold (reserve now) rs slots \<rparr>) = Some (Continue st1)"
    "st = publish sv notify st1"
    by (rule recalculate_completes [OF assms(1)])
  then have cfg: "cfg' = cfg" by simp
  note r = r(2-4) [unfolded cfg]
  let ?cs = "go_sort (recalculate_less now) rs"
  have ok: "candidate_ok c" if "c \<in> set ?cands" for c using that by (rule candidates_all_ok)
  have input: "input_ok (Some cfg) c" if c: "c \<in> set ?cands" for c
  proof -
    from c obtain row where row: "row \<in> set (live_strips strips)" "c = candidate_of contains_point (Some cfg) now row" by (auto simp: candidates_of_def)
    then have live: "\<not> shouldSkipStrip row" by (simp add: live_strips_set)
    note s = candidate_of_strip [OF live row(2)]
    have "plain_clock (value_or_empty (cd_Ctot (data_of row)))" using assms(3) row(1) by (simp add: list_all_iff)
    then have "plain_input (sc_input c)" using s(4) by (simp add: s(5) plain_input_def buildCalcInput_def Let_def)
    with s(5) show ?thesis by (auto simp: input_ok_def)
  qed
  have given: "a \<in> ?given" if "c \<in> set ?cands" "existingSlotEntry (sc_strip c) = Some a" for a c
    using that by (auto simp: candidates_of_def given_slots_def candidate_of_fields)
  have key: "callsign_key (sc_strip (candidate_of contains_point (Some cfg) now row)) = callsign_key row" for row
    by (simp add: candidate_of_fields callsign_key_def recovered_strip(1))
  have dist: "distinct (map (callsign_key \<circ> sc_strip) ?cands)" using assms(2) by (simp add: candidates_of_def comp_def key)
  obtain kept where kept: "slots = map sc_slot kept" "mset kept + mset rs = mset ?cands" using recalculate_members(1) [OF r(1)] by blast
  have "mset (map (callsign_key \<circ> sc_strip) (kept @ rs)) = mset (map (callsign_key \<circ> sc_strip) ?cands)"
    using kept(2) by (simp only: mset_map mset_append)
  with dist have dist2: "distinct (map (callsign_key \<circ> sc_strip) (kept @ rs))" by (metis mset_eq_imp_distinct_iff)
  have sub: "set kept \<subseteq> set ?cands" "set rs \<subseteq> set ?cands" using arg_cong [OF kept(2), of set_mset] by auto
  have rs: "distinct (map (callsign_key \<circ> sc_strip) rs)" "list_all candidate_ok rs" using dist2 sub ok by (auto simp: list_all_iff)
  have kept_slot: "existingSlotEntry (sc_strip k) = Some (sc_slot k)" if k: "k \<in> set kept" for k
  proof -
    have "sc_hasSlot k"
    proof (rule ccontr)
      assume "\<not> sc_hasSlot k"
      then have "k \<in> set rs" using recalculate_members(3) [OF r(1)] k sub by (auto simp: to_recalculate_def)
      with dist2 k show False by (auto simp: distinct_map)
    qed
    with ok sub k show ?thesis by (auto simp: candidate_ok_def)
  qed
  have "own_slots c slots = []" if c: "c \<in> set rs" for c
  proof -
    have "\<not> same_callsign (sl_Callsign (sc_slot k)) (s_Callsign (sc_strip c))" if k: "k \<in> set kept" for k
    proof -
      have "sl_Callsign (sc_slot k) = s_Callsign (sc_strip k)" using existing_slot_fields(1) [OF kept_slot [OF k]] by (metis strip_slot_fields(1))
      moreover have "callsign_key (sc_strip k) \<noteq> callsign_key (sc_strip c)" using dist2 k c by auto
      ultimately show ?thesis by (simp add: same_callsign_key)
    qed
    then show ?thesis by (auto simp: own_slots_def kept(1) filter_empty_conv)
  qed
  then have "list_all (own_ok slots) rs" by (simp add: list_all_iff own_ok_def)
  with rs have own: "list_all (own_ok (fold (reserve now) rs slots)) rs" by (intro reserve_all_own) simp_all
  have "set slots \<subseteq> ?given" using kept(1) kept_slot given sub by auto
  then have "set (fold (reserve now) rs slots) \<subseteq> ?given" using ok given sub by (intro reserve_given) auto
  then have "run_ok (Some cfg) ?given ?cs (empty_run\<lparr> run_slots := fold (reserve now) rs slots \<rparr>)"
    using own given_ordered by (simp add: run_ok_def empty_run_def list_all_iff)
  moreover have "distinct (map (callsign_key \<circ> sc_strip) ?cs)"
    using rs(1) by (metis mset_go_sort mset_map mset_eq_imp_distinct_iff)
  ultimately have final: "run_ok (Some cfg) ?given [] st1"
    using rs(2) sub input given by (intro process_strips_ok [OF r(2)]) (auto simp: list_all_iff)
  have slots: "run_slots st = run_slots st1" by (simp add: r(3) publish_def)
  have eff: "Persist callsign d \<in> set (run_effects st1)" if "Persist callsign d \<in> set (run_effects st)" for callsign d
    using that by (auto simp: r(3) publish_def split: if_splits)
  from final show ?thesis using eff unfolding slots run_ok_def ordered_clear_def by (fastforce simp: slot_held_def)
qed

section \<open>Runs return\<close>

definition uncrowded :: "int \<Rightarrow> CdmAirportConfig \<Rightarrow> bool" where
  "uncrowded n cfg \<longleftrightarrow> 3 \<le> n \<and> n \<le> 1440 \<and> (\<forall>rwy. 60 \<le> n * RateForRunway (Some cfg) rwy) \<and>
     list_all (\<lambda>i. si_Value i \<le> of_int n) (ac_SidIntervals cfg)"

lemma uncrowded_interval:
  assumes "uncrowded n cfg"
  shows "SidIntervalMinutes (Some cfg) rwy a b \<le> of_int n"
proof -
  have "0 \<le> rat_of_int n" using assms by (simp add: uncrowded_def)
  then show ?thesis
    using assms by (auto simp: SidIntervalMinutes_def uncrowded_def list_all_iff dest!: find_SomeD split: option.split)
qed

lemma uncrowded_returns:
  assumes "uncrowded n cfg" "int (length slots) * (4 * n) < 2880"
  shows "Calculate input slots (Some cfg) now \<noteq> None"
  using Calculate_returns [of n "Some cfg" input slots now] assms uncrowded_interval [OF assms(1)]
  by (auto simp: uncrowded_def)

lemma uncrowded_trace:
  assumes "uncrowded n cfg" "int (length slots) * (4 * n) < 2880"
  shows "calculateWithTrace input slots (Some cfg) now \<noteq> None"
  using uncrowded_returns [OF assms] by (simp add: Calculate_def)

lemma fewer_slots: "0 \<le> n \<Longrightarrow> int (length b) * (4 * n) < 2880 \<Longrightarrow> length a \<le> length b \<Longrightarrow> int (length a) * (4 * n) < 2880"
proof -
  assume "0 \<le> n" "int (length b) * (4 * n) < 2880" "length a \<le> length b"
  moreover from this have "int (length a) * (4 * n) \<le> int (length b) * (4 * n)" by (intro mult_right_mono) simp_all
  ultimately show ?thesis by linarith
qed

lemma preserved_blocks_returns:
  assumes "uncrowded n cfg" "4 * n < 2880"
  shows "preserved_blocks (Some cfg) now c pending \<noteq> None"
proof (induction pending)
  case (Cons p pending)
  have "Calculate (sc_input p) [sc_slot c] (Some cfg) now \<noteq> None" by (rule uncrowded_returns [OF assms(1)]) (use assms(2) in simp)
  with Cons show ?case by (auto simp: calculateWithSinglePreservedSlot_def)
qed simp

lemma preserve_returns:
  assumes "uncrowded n cfg" "4 * n < 2880"
  shows "preserve (Some cfg) now cs slots rs \<noteq> None"
proof (induction cs arbitrary: slots rs)
  case (Cons c cs)
  have "preservedSlotBlocksHigherPriorityCandidate c rs (Some cfg) now \<noteq> None"
    using preserved_blocks_returns [OF assms, of now c rs] by (auto simp: preservedSlotBlocksHigherPriorityCandidate_def)
  then obtain b where "preservedSlotBlocksHigherPriorityCandidate c rs (Some cfg) now = Some b" by auto
  with Cons show ?case by (cases b) auto
qed simp

lemma keeps_order_returns:
  assumes "uncrowded n cfg" "int (length probe) * (4 * n) < 2880"
  shows "keeps_order (Some cfg) now c t slots probe cands \<noteq> None"
proof (induction cands)
  case (Cons p cands)
  from uncrowded_returns [OF assms, of "sc_input p" now] obtain r where "Calculate (sc_input p) probe (Some cfg) now = Some r" by auto
  with Cons show ?case by (simp add: Let_def del: not_None_eq)
qed simp

lemma remove_length: "length (removeSlotForCallsign slots callsign) \<le> length slots"
  by (induction slots callsign rule: removeSlotForCallsign.induct) auto

lemma calculate_strip_returns:
  assumes "uncrowded n cfg" "int (length (run_slots st)) * (4 * n) < 2880"
  shows "calculate_strip sv notify (Some cfg) now cands c st \<noteq> None"
proof -
  let ?data = "data_of (sc_strip c)" and ?slots = "run_slots st"
  have n: "0 \<le> n" using assms(1) by (simp add: uncrowded_def)
  obtain result trace where calc: "calculateWithTrace (sc_input c) ?slots (Some cfg) now = Some (result, trace)"
    using uncrowded_trace [OF assms, of "sc_input c" now] by auto
  have "improvementKeepsQueueOrder c (cres_Ttot result) ?slots cands (Some cfg) now \<noteq> None"
    using keeps_order_returns [OF assms(1) fewer_slots [OF n assms(2)], of "slotsWithoutCallsign ?slots (s_Callsign (sc_strip c))"]
    by (simp add: improvementKeepsQueueOrder_def slotsWithoutCallsign_def)
  then obtain adopt where adopt: "(if isEarlierClock (cres_Tsat result) (trim_space (value_or_empty (cd_Tsat ?data)))
      then improvementKeepsQueueOrder c (cres_Ttot result) ?slots cands (Some cfg) now else Some False) = Some adopt"
    by (cases "isEarlierClock (cres_Tsat result) (trim_space (value_or_empty (cd_Tsat ?data)))") auto
  have ret: "\<forall>i. Calculate i (if sc_improvement c then removeSlotForCallsign ?slots (s_Callsign (sc_strip c)) else ?slots) (Some cfg) now \<noteq> None"
    by (intro allI uncrowded_returns [OF assms(1) fewer_slots [OF n assms(2)]]) (simp add: remove_length)
  show ?thesis
  proof (cases "sc_improvement c \<and> \<not> adopt")
    case True
    then show ?thesis by (simp add: calculate_strip_def Let_def calc adopt)
  next
    case False
    from ret obtain proposal where "Calculate (if HasManualCtot ?data then sc_input c
        else sc_input c\<lparr> ci_Ctot := '''', ci_HasManCtot := False, ci_ManCtot := '''' \<rparr>)
        (if sc_improvement c then removeSlotForCallsign ?slots (s_Callsign (sc_strip c)) else ?slots) (Some cfg) now = Some proposal"
      by blast
    then show ?thesis unfolding calculate_strip_def Let_def calc adopt option.case prod.case if_not_P [OF False] by simp
  qed
qed

lemma process_strip_returns:
  assumes "uncrowded n cfg" "int (length (run_slots st)) * (4 * n) < 2880"
  shows "process_strip sv notify (Some cfg) now cands c st \<noteq> None"
proof -
  have "calculate_strip sv notify (Some cfg) now cands c st \<noteq> None" by (rule calculate_strip_returns [OF assms])
  then obtain oc where recalc: "(if isTsatSpecificallyExpired (sc_strip c) now \<and> \<not> dataAllowsStartedRecalculation (sc_strip c)
      then Some (expire_strip sv notify c st) else calculate_strip sv notify (Some cfg) now cands c st) = Some oc" by fastforce
  have retain: "\<exists>b. (if sc_started c then Some True else canRetainExistingSlot c slot (run_slots st) (Some cfg) now) = Some b" for slot
    using uncrowded_returns [OF assms, of "sc_input c" now] by (auto simp: canRetainExistingSlot_def)
  show ?thesis
  proof (cases "existingSlotEntry (sc_strip c)")
    case None
    with recalc show ?thesis by (simp add: process_strip_def Let_def)
  next
    case (Some slot)
    from retain [of slot] obtain b where "(if sc_started c then Some True else canRetainExistingSlot c slot (run_slots st) (Some cfg) now) = Some b" by blast
    with recalc Some show ?thesis by (cases b) (simp_all add: process_strip_def Let_def)
  qed
qed

lemma calculate_strip_grows:
  assumes "calculate_strip sv notify config now cands c st = Some (Continue st')"
  shows "length (run_slots st') \<le> Suc (length (run_slots st))"
proof -
  let ?strip = "sc_strip c" and ?data = "data_of (sc_strip c)"
  let ?S = "if sc_improvement c then removeSlotForCallsign (run_slots st) (s_Callsign ?strip) else run_slots st"
  from assms obtain result trace where calc: "calculateWithTrace (sc_input c) (run_slots st) config now = Some (result, trace)"
    by (auto simp: calculate_strip_def Let_def split: option.splits)
  from assms obtain adopt where adopt: "(if isEarlierClock (cres_Tsat result) (trim_space (value_or_empty (cd_Tsat ?data)))
      then improvementKeepsQueueOrder c (cres_Ttot result) (run_slots st) cands config now else Some False) = Some adopt"
    by (auto simp: calculate_strip_def Let_def calc split: option.splits)
  obtain result data S where "finish_strip sv notify c result data (st\<lparr> run_slots := S \<rparr>) = Continue st'" "length S \<le> length (run_slots st)"
  proof (cases "sc_improvement c \<and> \<not> adopt")
    case True
    with assms have "finish_strip sv notify c \<lparr> cres_Tsat = trim_space (value_or_empty (cd_Tsat ?data)),
        cres_Ttot = trim_space (value_or_empty (cd_Ttot ?data)) \<rparr> ?data st = Continue st'" by (simp add: calculate_strip_def Let_def calc adopt)
    then have "finish_strip sv notify c \<lparr> cres_Tsat = trim_space (value_or_empty (cd_Tsat ?data)),
        cres_Ttot = trim_space (value_or_empty (cd_Ttot ?data)) \<rparr> ?data (st\<lparr> run_slots := run_slots st \<rparr>) = Continue st'" by simp
    from that [OF this] show thesis by simp
  next
    case False
    from assms obtain data where "finish_strip sv notify c result data (st\<lparr> run_slots := ?S \<rparr>) = Continue st'"
      unfolding calculate_strip_def Let_def calc adopt option.case prod.case if_not_P [OF False]
      by (auto split: option.splits split del: if_split)
    from that [OF this] remove_length show thesis by simp
  qed
  with finish_strip_slots(1) [of sv notify c result data "st\<lparr> run_slots := S \<rparr>" st'] show ?thesis by (auto split: if_splits)
qed

lemma expire_strip_grows:
  assumes "expire_strip sv notify c st = Continue st'"
  shows "length (run_slots st') \<le> Suc (length (run_slots st))"
  using expire_strip_step [OF assms, of None] remove_length [of "run_slots st" "s_Callsign (sc_strip c)"]
  by (auto simp: step_ok_def slot_step_def)

lemma process_strip_grows:
  assumes "process_strip sv notify config now cands c st = Some (Continue st')"
  shows "length (run_slots st') \<le> Suc (length (run_slots st))"
  using assms calculate_strip_grows [of sv notify config now cands c st st'] expire_strip_grows [of sv notify c st st']
  by (auto simp: process_strip_def Let_def split: option.splits bool.splits if_splits)

lemma process_strips_returns:
  assumes "uncrowded n cfg" "int (length (run_slots st) + length cs) * (4 * n) < 2880"
  shows "process_strips sv notify (Some cfg) now cands cs st \<noteq> None"
  using assms(2)
proof (induction cs arbitrary: st)
  case (Cons c cs)
  have n: "0 \<le> n" using assms(1) by (simp add: uncrowded_def)
  have "int (length (run_slots st)) * (4 * n) < 2880"
    using fewer_slots [OF n, of "run_slots st @ map sc_slot (c # cs)" "run_slots st"] Cons.prems by simp
  from process_strip_returns [OF assms(1) this, of sv notify now cands c] obtain oc where oc: "process_strip sv notify (Some cfg) now cands c st = Some oc" by auto
  show ?case
  proof (cases oc)
    case (Continue st1)
    with oc process_strip_grows have "length (run_slots st1) + length cs \<le> length (run_slots st) + length (c # cs)" by fastforce
    then have "int (length (run_slots st1) + length cs) * (4 * n) < 2880"
      using fewer_slots [OF n, of "run_slots st @ map sc_slot (c # cs)" "run_slots st1 @ map sc_slot cs"] Cons.prems by simp
    with Cons.IH oc Continue show ?thesis by simp
  qed (use oc in simp)
qed simp

lemma reserve_length: "length (fold (reserve now) xs slots) \<le> length slots + length xs"
proof (induction xs arbitrary: slots)
  case (Cons x xs)
  have "length (reserve now x slots) \<le> Suc (length slots)" by (simp add: reserve_def)
  with Cons [of "reserve now x slots"] show ?case by simp
qed simp

lemma live_strips_length: "length (live_strips rows) \<le> length rows"
  by (induction rows rule: live_strips.induct) auto

lemma airport_returns:
  assumes "uncrowded n cfg" "int (2 * length strips) * (4 * n) < 2880"
  shows "\<exists>oc. recalculateAirport contains_point sv (Inr strips) (Inr (Some cfg)) now notify = Some oc"
proof (cases "strips = []")
  case True
  then show ?thesis by (auto simp: recalculateAirport_def candidates_of_def)
next
  case False
  let ?cands = "candidates_of contains_point (Some cfg) now strips"
  have n: "0 \<le> n" using assms(1) by (simp add: uncrowded_def)
  have "4 * n < 2880" using fewer_slots [OF n, of "strips @ strips" "[0 :: nat]"] assms(2) False by (cases strips) auto
  from preserve_returns [OF assms(1) this] obtain slots rs where
    p: "preserve (Some cfg) now (go_sort (preserved_less now) (filter (\<lambda>c. \<not> to_recalculate now c) ?cands)) [] (filter (to_recalculate now) ?cands) = Some (slots, rs)"
    by (metis not_Some_eq surj_pair)
  from recalculate_members(1) [OF p] obtain kept where kept: "slots = map sc_slot kept" "mset kept + mset rs = mset ?cands" by blast
  have len: "length slots + length rs = length ?cands" using arg_cong [OF kept(2), of size] by (simp add: kept(1))
  have "length (fold (reserve now) rs slots) + length (go_sort (recalculate_less now) rs) \<le> 2 * length strips"
    using reserve_length [of now rs slots] len live_strips_length [of strips] by (simp add: candidates_of_def)
  then have "int (length (run_slots (empty_run\<lparr> run_slots := fold (reserve now) rs slots \<rparr>)) + length (go_sort (recalculate_less now) rs)) * (4 * n) < 2880"
    using fewer_slots [OF n, of "strips @ strips" "fold (reserve now) rs slots @ map sc_slot rs"] assms(2) by simp
  from process_strips_returns [OF assms(1) this, of sv notify now ?cands] obtain oc where
    "process_strips sv notify (Some cfg) now ?cands (go_sort (recalculate_less now) rs) (empty_run\<lparr> run_slots := fold (reserve now) rs slots \<rparr>) = Some oc"
    by auto
  then show ?thesis by (cases oc) (simp_all add: recalculateAirport_def Let_def p)
qed

text \<open>Services that always succeed, and touch one row for each write.\<close>

definition reliable :: "services \<Rightarrow> bool" where
  "reliable sv \<longleftrightarrow> (\<forall>strip d. \<exists>t. sv_CaptureViffAuthority sv strip d = Inr t) \<and>
     (\<forall>callsign d. sv_SetCdmData sv callsign d = Inr 1) \<and> (\<forall>callsign eobt. sv_DispatchEobt sv callsign eobt = Inr ())"

lemma reliable_persists:
  assumes "reliable sv"
  shows "\<exists>st'. persist_data sv notify strip d st = Continue st'"
proof -
  from assms obtain t where "sv_CaptureViffAuthority sv strip d = Inr t" unfolding reliable_def by blast
  with assms show ?thesis by (simp add: reliable_def persist_data_def Let_def)
qed

lemma reliable_dispatches: "reliable sv \<Longrightarrow> \<exists>st'. dispatch_eobt sv c st = Continue st'"
  by (simp add: reliable_def dispatch_eobt_def)

lemma reliable_finishes:
  assumes "reliable sv"
  shows "\<exists>st'. finish_strip sv notify c result data st = Continue st'"
proof -
  obtain st1 where "persist_data sv notify (sc_strip c) (ClearLocalRecalculationPending data) st = Continue st1"
    using reliable_persists [OF assms] by blast
  moreover obtain st2 where "dispatch_eobt sv c st1 = Continue st2" using reliable_dispatches [OF assms] by blast
  ultimately show ?thesis by (simp add: finish_strip_def Let_def)
qed

lemma reliable_calculates:
  assumes "reliable sv" "calculate_strip sv notify config now cands c st = Some oc"
  shows "\<exists>st'. oc = Continue st'"
  using assms(2) reliable_finishes [OF assms(1)]
  by (force simp: calculate_strip_def Let_def split: option.splits prod.splits if_splits)

lemma reliable_expires: "reliable sv \<Longrightarrow> \<exists>st'. expire_strip sv notify c st = Continue st'"
  using reliable_persists by (auto simp: expire_strip_def Let_def)

lemma reliable_processes:
  assumes "reliable sv" "process_strip sv notify config now cands c st = Some oc"
  shows "\<exists>st'. oc = Continue st'"
  using assms(2) reliable_expires [OF assms(1)] reliable_calculates [OF assms(1)]
  by (force simp: process_strip_def Let_def split: option.splits bool.splits if_splits)

lemma reliable_completes:
  assumes "reliable sv" "recalculateAirport contains_point sv (Inr strips) (Inr (Some cfg)) now notify = Some oc"
  shows "\<exists>st. oc = Continue st"
proof -
  have all: "\<exists>st'. oc' = Continue st'" if "process_strips sv notify (Some cfg) now cands cs st = Some oc'" for cands cs st oc'
    using that
  proof (induction cs arbitrary: st)
    case (Cons c cs)
    then obtain oc1 where oc1: "process_strip sv notify (Some cfg) now cands c st = Some oc1" by (auto split: option.splits)
    from reliable_processes [OF assms(1) oc1] obtain st1 where "oc1 = Continue st1" by blast
    with Cons oc1 show ?case by simp
  qed auto
  from assms(2) show ?thesis by (auto simp: recalculateAirport_def Let_def split: option.splits outcome.splits dest: all)
qed

text \<open>
  C38. A recalculation returns when the day is not crowded: with rate and SID intervals of at most \<open>n\<close>
  minutes and fewer than \<open>360 / n\<close> strips it completes or reports an error, whatever the strips hold, and
  it completes when no service fails.
\<close>

theorem recalculation_returns:
  assumes "uncrowded n cfg" "int (2 * length strips) * (4 * n) < 2880"
  shows "\<exists>oc. recalculateAirport contains_point sv (Inr strips) (Inr (Some cfg)) now notify = Some oc \<and>
    (reliable sv \<longrightarrow> (\<exists>st. oc = Continue st))"
proof -
  from airport_returns [OF assms] obtain oc where "recalculateAirport contains_point sv (Inr strips) (Inr (Some cfg)) now notify = Some oc" by blast
  with reliable_completes show ?thesis by blast
qed

section \<open>A concrete run\<close>

definition sample_document :: "string option \<Rightarrow> string option \<Rightarrow> bool \<Rightarrow> CdmData" where
  "sample_document tsat ttot pending =
     empty_cdm\<lparr> cd_Eobt := Some ''1000'', cd_Tsat := tsat, cd_Ttot := ttot, cd_Recalculate := pending,
       cd_RecalculationMode := (if pending then CdmRecalculationRequired else '''') \<rparr>"

definition sample_strip :: "string \<Rightarrow> string \<Rightarrow> CdmData \<Rightarrow> Strip" where
  "sample_strip callsign destination document =
     \<lparr> s_Callsign = callsign, s_Origin = ''EKCH'', s_Destination = destination, s_Sid = Some ''BETUD2C'', s_Runway = Some ''22R'',
       s_AircraftCategory = Some ''M'', s_State = Some ''NOTSET'', s_PositionLatitude = None, s_PositionLongitude = None,
       s_CdmData = Some document, s_EuroscopeSeenAt = Some zero_time \<rparr>"

definition kept_strip :: Strip where
  "kept_strip = sample_strip ''BAW1'' ''EGLL'' (sample_document (Some ''095800'') (Some ''100800'') False)"

definition pending_strip :: Strip where
  "pending_strip = sample_strip ''SAS1'' ''ESSA'' (sample_document None None True)"

definition sample_services :: services where
  "sample_services = \<lparr> sv_SetCdmData = (\<lambda>_ _. Inr 1), sv_CaptureViffAuthority = (\<lambda>_ _. Inr None),
     sv_DispatchEobt = (\<lambda>_ _. Inr ()), sv_HasAfterPersist = False \<rparr>"

definition sample_run :: "outcome option" where
  "sample_run = recalculateAirport (\<lambda>_ _. False) sample_services (Inr [Some kept_strip, None, Some pending_strip])
     (Inr (Some sample_config)) zero_time True"

lemma sample_uncrowded: "uncrowded 3 sample_config"
proof -
  have "20 \<le> RateForRunway (Some sample_config) rwy" for rwy
    by (simp add: RateForRunway_def sample_config_def NewDefaultAirportConfig_def default_rate_def DefaultCDMRate_def)
  then have "60 \<le> 3 * RateForRunway (Some sample_config) rwy" for rwy using mult_left_mono [of 20 "RateForRunway (Some sample_config) rwy" 3] by simp
  then show ?thesis by (simp add: uncrowded_def) (simp add: sample_config_def NewDefaultAirportConfig_def)
qed

lemma sample_completes:
  obtains st where "recalculateAirport (\<lambda>_ _. False) sample_services (Inr [Some kept_strip, None, Some pending_strip])
    (Inr (Some sample_config)) zero_time True = Some (Continue st)"
proof -
  have "reliable sample_services" by (simp add: reliable_def sample_services_def)
  moreover obtain oc where oc: "recalculateAirport (\<lambda>_ _. False) sample_services (Inr [Some kept_strip, None, Some pending_strip])
    (Inr (Some sample_config)) zero_time True = Some oc"
    using airport_returns [OF sample_uncrowded, of "[Some kept_strip, None, Some pending_strip]" "\<lambda>_ _. False" sample_services zero_time True] by auto
  ultimately obtain st where "oc = Continue st" using reliable_completes by blast
  with oc that show thesis by simp
qed

lemma sample_pending: "\<not> shouldSkipStrip pending_strip \<and> NeedsLocalRecalculation (s_CdmData pending_strip) \<and> \<not> stripHasStarted pending_strip"
  by code_simp

theorem recalculation_writes_are_allowed_witness:
  "\<exists>st d. sample_run = Some (Continue st) \<and> Persist ''SAS1'' d \<in> set (run_effects st) \<and> allowed_write pending_strip zero_time d"
proof -
  obtain st where run: "recalculateAirport (\<lambda>_ _. False) sample_services (Inr [Some kept_strip, None, Some pending_strip])
    (Inr (Some sample_config)) zero_time True = Some (Continue st)" by (rule sample_completes)
  obtain d where d: "Persist ''SAS1'' d \<in> set (run_effects st)"
    using pending_served [OF run, of pending_strip] sample_pending by (auto simp: pending_strip_def sample_strip_def)
  have "''SAS1'' \<noteq> s_Callsign kept_strip" by (simp add: kept_strip_def sample_strip_def)
  with recalculation_writes_are_allowed [OF run, of "''SAS1''" d] d have "allowed_write pending_strip zero_time d" by auto
  with run d show ?thesis by (auto simp: sample_run_def)
qed

theorem pending_requests_are_served_witness:
  "\<exists>st d. sample_run = Some (Continue st) \<and> Persist ''SAS1'' d \<in> set (run_effects st) \<and> \<not> cd_Recalculate d"
proof -
  obtain st where run: "recalculateAirport (\<lambda>_ _. False) sample_services (Inr [Some kept_strip, None, Some pending_strip])
    (Inr (Some sample_config)) zero_time True = Some (Continue st)" by (rule sample_completes)
  from pending_requests_are_served [OF run, of pending_strip] run sample_pending show ?thesis
    by (auto simp: sample_run_def pending_strip_def sample_strip_def)
qed

theorem recalculated_slots_are_separated_witness:
  "\<exists>st. sample_run = Some (Continue st) \<and>
    sorted_wrt (\<lambda>b a. a \<in> given_slots zero_time [Some kept_strip, None, Some pending_strip] \<or> keeps_clear (Some sample_config) a b) (run_slots st)"
proof -
  obtain st where run: "recalculateAirport (\<lambda>_ _. False) sample_services (Inr [Some kept_strip, None, Some pending_strip])
    (Inr (Some sample_config)) zero_time True = Some (Continue st)" by (rule sample_completes)
  have "distinct (map callsign_key (live_strips [Some kept_strip, None, Some pending_strip]))"
    "list_all (\<lambda>strip. plain_clock (value_or_empty (cd_Ctot (data_of strip)))) (live_strips [Some kept_strip, None, Some pending_strip])"
    by code_simp+
  from recalculated_slots_are_separated [OF run this] run show ?thesis by (simp add: sample_run_def)
qed

theorem recalculation_returns_witness: "\<exists>st. sample_run = Some (Continue st)"
proof -
  have "reliable sample_services" by (simp add: reliable_def sample_services_def)
  with recalculation_returns [OF sample_uncrowded, of "[Some kept_strip, None, Some pending_strip]" "\<lambda>_ _. False" sample_services zero_time True]
  show ?thesis by (auto simp: sample_run_def)
qed

end
