(* ===== verification/Aman_Prediction.thy ===== *)
theory Aman_Prediction
  imports Aman_Types Machines
begin

text \<open>
  Physical predictions become operational landing times
  (\<^verbatim>\<open>internal/aman/prediction/reducer.go\<close>): the three-sample smoothing window, the deadband and the
  rate limit, the freezes and their release, and the controller's manual time.

  \<open>None\<close> is a run-time panic: the dereference of a frozen time that is absent, or the median of no
  samples. An input fact that the code keeps in a pointer is an option.
\<close>

section \<open>Configuration, input and result\<close>

record PredictionConfig =
  pc_Deadband :: duration
  pc_MaximumRoutineMove :: duration
  pc_ExcessiveDrift :: duration

definition DefaultPredictionConfig :: PredictionConfig where
  "DefaultPredictionConfig = \<lparr> pc_Deadband = 30 * second, pc_MaximumRoutineMove = minute, pc_ExcessiveDrift = 2 * minute \<rparr>"

datatype prediction_error = PlainError string | RawPredictionError domain_error | PredictionDomainError domain_error

definition PredictionConfig_Validate :: "PredictionConfig \<Rightarrow> prediction_error + unit" where
  "PredictionConfig_Validate c =
     and_then (ensure (\<not> pc_Deadband c < 0) (PlainError ''prediction deadband cannot be negative''))
     (and_then (ensure (\<not> pc_MaximumRoutineMove c \<le> 0) (PlainError ''prediction maximum routine movement must be greater than zero''))
     (ensure (\<not> pc_ExcessiveDrift c \<le> 0) (PlainError ''prediction excessive drift threshold must be greater than zero'')))"

record PredictionInput =
  in_RefreshCalculation :: bool
  in_Raw :: Prediction
  in_State :: FlightState
  in_RouteRevision :: bool
  in_ReacquiredRoute :: bool
  in_RunwayGroupChanged :: bool
  in_ManualOverride :: "gotime option"
  in_ReleaseFreeze :: bool
  in_ConfirmedGoAround :: bool
  in_FreezeForTMA :: bool
  in_ReplacePreliminaryPrediction :: bool
  in_Slot :: "Slot option"

record PredictionResult =
  out_Flight :: AMANFlight
  out_RawDrift :: duration
  out_ExcessiveDrift :: bool

section \<open>The smoothing window\<close>

definition smoothingWindowSize :: nat where "smoothingWindowSize = 3"

definition staleRaw :: "RawTETASample list \<Rightarrow> Prediction \<Rightarrow> bool" where
  "staleRaw history raw =
     (if history = [] then False
      else \<not> after (pred_GeneratedAt raw) (sample_GeneratedAt (last history)) \<or>
        \<not> is_zero (pred_InputObservedAt raw) \<and> \<not> is_zero (sample_ObservedAt (last history)) \<and>
        \<not> after (pred_InputObservedAt raw) (sample_ObservedAt (last history)))"

definition sample_of :: "Prediction \<Rightarrow> RawTETASample" where
  "sample_of raw = \<lparr> sample_TETA = pred_RawTETA raw, sample_GeneratedAt = pred_GeneratedAt raw, sample_ObservedAt = pred_InputObservedAt raw \<rparr>"

definition acceptRaw :: "RawTETASample list \<Rightarrow> Prediction \<Rightarrow> RawTETASample list" where
  "acceptRaw history raw =
     (if staleRaw history raw then history
      else
        (let accepted = history @ [sample_of raw] in
         if smoothingWindowSize < length accepted then drop (length accepted - smoothingWindowSize) accepted else accepted))"

definition inputSamples :: "RawTETASample list \<Rightarrow> gotime list" where
  "inputSamples history = map sample_TETA history"

definition median_time :: "gotime list \<Rightarrow> gotime option" where
  "median_time values =
     (let sorted = go_sort before values; middle = length sorted div 2 in
      if sorted = [] then None
      else if length sorted mod 2 \<noteq> 0 then Some (sorted ! middle)
      else Some (t_add (sorted ! (middle - 1)) (go_quot (t_sub (sorted ! middle) (sorted ! (middle - 1))) 2)))"

section \<open>Parts of the reducer\<close>

definition setOperational :: "AMANFlight \<Rightarrow> Prediction \<Rightarrow> gotime \<Rightarrow> OperationalReason \<Rightarrow> AMANFlight" where
  "setOperational flight raw operational reason =
     flight\<lparr> f_Prediction := Some (raw\<lparr> pred_OperationalTETA := operational, pred_OperationalReason := reason \<rparr>) \<rparr>"

definition clearFreeze :: "AMANFlight \<Rightarrow> AMANFlight" where
  "clearFreeze flight =
     flight\<lparr> f_FreezeReason := FreezeNone, f_FrozenAt := None, f_FrozenOperationalTETA := None, f_FrozenSlot := None \<rparr>"

definition prediction_result :: "PredictionConfig \<Rightarrow> AMANFlight \<Rightarrow> PredictionResult" where
  "prediction_result config flight =
     (case (f_Prediction flight, f_FreezeReason flight, f_FrozenOperationalTETA flight) of
        (Some p, FreezeSuperstable, Some frozen) \<Rightarrow>
          (let drift = absolute (t_sub (pred_RawTETA p) frozen) in
           \<lparr> out_Flight = flight, out_RawDrift = drift, out_ExcessiveDrift = (drift > pc_ExcessiveDrift config) \<rparr>)
      | _ \<Rightarrow> \<lparr> out_Flight = flight, out_RawDrift = 0, out_ExcessiveDrift = False \<rparr>)"

definition validateRaw :: "Prediction \<Rightarrow> prediction_error + unit" where
  "validateRaw raw =
     (case Prediction_Validate (raw\<lparr> pred_OperationalTETA := pred_RawTETA raw, pred_OperationalReason := OperationalReasonPredicted \<rparr>) of
        Inl e \<Rightarrow> Inl (RawPredictionError e) | Inr _ \<Rightarrow> Inr ())"

text \<open>The last part of \<^verbatim>\<open>routineOperational\<close>, from the median of the window.\<close>

definition smoothed :: "PredictionConfig \<Rightarrow> Prediction option \<Rightarrow> gotime \<Rightarrow> gotime \<times> OperationalReason" where
  "smoothed config prediction median =
     (case prediction of None \<Rightarrow> (median, OperationalReasonPredicted)
      | Some p \<Rightarrow>
          (let previous = pred_OperationalTETA p; delta = t_sub median previous in
           if absolute delta \<le> pc_Deadband config then (previous, OperationalReasonDeadband)
           else if absolute delta > pc_MaximumRoutineMove config then
             (if delta < 0 then (t_add previous (- pc_MaximumRoutineMove config), OperationalReasonRateLimited)
              else (t_add previous (pc_MaximumRoutineMove config), OperationalReasonRateLimited))
           else (median, OperationalReasonSmoothed)))"

definition routineOperational :: "PredictionConfig \<Rightarrow> AMANFlight \<Rightarrow> FlightState \<Rightarrow> PredictionInput \<Rightarrow> (gotime \<times> OperationalReason) option" where
  "routineOperational config flight previousState i =
     (if in_ReacquiredRoute i then Some (pred_RawTETA (in_Raw i), OperationalReasonRouteRecovery)
      else if in_ReplacePreliminaryPrediction i then Some (pred_RawTETA (in_Raw i), OperationalReasonPredicted)
      else if in_RouteRevision i then Some (pred_RawTETA (in_Raw i), OperationalReasonRouteRevision)
      else if in_RunwayGroupChanged i then Some (pred_RawTETA (in_Raw i), OperationalReasonRunwayGroupChanged)
      else if in_State i = StateUnstable \<and> previousState \<noteq> StateUnstable then Some (pred_RawTETA (in_Raw i), OperationalReasonFirstUnstable)
      else map_option (smoothed config (f_Prediction flight)) (median_time (inputSamples (f_RawTETASamples flight))))"

section \<open>The reducer\<close>

text \<open>An input that is taken even when its sample is not newer than the last one.\<close>

definition explicit_change :: "PredictionInput \<Rightarrow> bool" where
  "explicit_change i \<longleftrightarrow> in_RefreshCalculation i \<or> in_RouteRevision i \<or> in_RunwayGroupChanged i \<or> in_ConfirmedGoAround i \<or>
     in_ManualOverride i \<noteq> None \<or> in_ReleaseFreeze i \<or> in_FreezeForTMA i \<or> in_ReplacePreliminaryPrediction i"

text \<open>The flight with the slot, the state, the window and the update time of the input.\<close>

definition sampled :: "AMANFlight \<Rightarrow> PredictionInput \<Rightarrow> AMANFlight" where
  "sampled flight i =
     (let history = (if in_ReacquiredRoute i \<or> in_RouteRevision i \<or> in_RunwayGroupChanged i \<or> in_ConfirmedGoAround i
            then [] else f_RawTETASamples flight);
          slot = (case in_Slot i of None \<Rightarrow> f_Slot flight
            | Some s \<Rightarrow> (if f_FreezeReason flight \<noteq> FreezeSuperstable \<or> in_ReleaseFreeze i \<or> in_ManualOverride i \<noteq> None \<or> in_ConfirmedGoAround i
                then Some s else f_Slot flight)) in
      flight\<lparr> f_Slot := slot, f_State := in_State i, f_RawTETASamples := acceptRaw history (in_Raw i),
        f_UpdatedAt := pred_GeneratedAt (in_Raw i) \<rparr>)"

definition go_around :: "AMANFlight \<Rightarrow> PredictionInput \<Rightarrow> AMANFlight" where
  "go_around flight i =
     setOperational ((clearFreeze flight)\<lparr> f_Slot := None \<rparr>) (in_Raw i) (pred_RawTETA (in_Raw i)) OperationalReasonGoAround"

definition tma_frozen_value :: "PredictionConfig \<Rightarrow> AMANFlight \<Rightarrow> FlightState \<Rightarrow> PredictionInput \<Rightarrow> gotime option" where
  "tma_frozen_value config flight previousState i =
     (case f_FrozenOperationalTETA flight of Some t \<Rightarrow> Some t
      | None \<Rightarrow> (if f_Prediction flight \<noteq> None then map_option fst (routineOperational config flight previousState i)
          else Some (pred_RawTETA (in_Raw i))))"

definition freeze_for_tma :: "AMANFlight \<Rightarrow> PredictionInput \<Rightarrow> gotime \<Rightarrow> AMANFlight" where
  "freeze_for_tma flight i frozen =
     setOperational (flight\<lparr> f_FreezeReason := FreezeTMA, f_FrozenAt := Some (pred_GeneratedAt (in_Raw i)),
        f_FrozenOperationalTETA := Some frozen, f_FrozenSlot := f_Slot flight \<rparr>) (in_Raw i) frozen OperationalReasonTMAFreeze"

definition manual_override :: "AMANFlight \<Rightarrow> PredictionInput \<Rightarrow> gotime \<Rightarrow> AMANFlight" where
  "manual_override flight i manual =
     setOperational (flight\<lparr> f_FreezeReason := FreezeManual, f_FrozenAt := Some (pred_GeneratedAt (in_Raw i)),
        f_FrozenOperationalTETA := Some manual, f_FrozenSlot := None \<rparr>) (in_Raw i) manual OperationalReasonManualOverride"

definition frozen_reason :: "FreezeReason \<Rightarrow> OperationalReason option" where
  "frozen_reason r = (case r of FreezeSuperstable \<Rightarrow> Some OperationalReasonSuperstableFreeze
     | FreezeTMA \<Rightarrow> Some OperationalReasonTMAFreeze | FreezeManual \<Rightarrow> Some OperationalReasonManualOverride | _ \<Rightarrow> None)"

definition routine_update :: "PredictionConfig \<Rightarrow> AMANFlight \<Rightarrow> FlightState \<Rightarrow> PredictionInput \<Rightarrow> AMANFlight option" where
  "routine_update config flight previousState i =
     (let flight = (if in_ReleaseFreeze i \<and> f_FreezeReason flight \<noteq> FreezeTMA then clearFreeze flight else flight) in
      case frozen_reason (f_FreezeReason flight) of
        Some reason \<Rightarrow> map_option (\<lambda>t. setOperational flight (in_Raw i) t reason) (f_FrozenOperationalTETA flight)
      | None \<Rightarrow> map_option (\<lambda>(candidate, reason). setOperational flight (in_Raw i) candidate reason)
          (routineOperational config flight previousState i))"

definition reduced_flight :: "PredictionConfig \<Rightarrow> AMANFlight \<Rightarrow> PredictionInput \<Rightarrow> AMANFlight option" where
  "reduced_flight config flight i =
     (let previousState = f_State flight; flight = sampled flight i in
      if in_ConfirmedGoAround i then Some (go_around flight i)
      else if in_FreezeForTMA i then map_option (freeze_for_tma flight i) (tma_frozen_value config flight previousState i)
      else (case in_ManualOverride i of
          Some manual \<Rightarrow> Some (manual_override flight i manual)
        | None \<Rightarrow> routine_update config flight previousState i))"

definition reduce_checks :: "PredictionConfig \<Rightarrow> PredictionInput \<Rightarrow> prediction_error + unit" where
  "reduce_checks config i =
     and_then (PredictionConfig_Validate config)
     (and_then (ensure (FlightState_Valid (in_State i)) (PlainError ''prediction state is invalid''))
     (and_then (validateRaw (in_Raw i))
     (case in_ManualOverride i of None \<Rightarrow> Inr ()
      | Some m \<Rightarrow> ensure (\<not> (is_zero m \<or> loc m \<noteq> UTC)) (PlainError ''manual operational TETA must be UTC''))))"

definition Prediction_Reduce :: "PredictionConfig \<Rightarrow> AMANFlight \<Rightarrow> PredictionInput \<Rightarrow> (prediction_error + PredictionResult) option" where
  "Prediction_Reduce config flight i =
     (case reduce_checks config i of
        Inl e \<Rightarrow> Some (Inl e)
      | Inr _ \<Rightarrow>
          (if staleRaw (f_RawTETASamples flight) (in_Raw i) \<and> \<not> explicit_change i then Some (Inr (prediction_result config flight))
           else map_option (\<lambda>f. Inr (prediction_result config f)) (reduced_flight config flight i)))"

section \<open>The controller's manual time\<close>

definition prediction_invalidArgument :: "string \<Rightarrow> domain_error" where
  "prediction_invalidArgument msg = DomainError ErrorInvalidArgument msg"

definition prediction_invalidTransition :: "string \<Rightarrow> domain_error" where
  "prediction_invalidTransition msg = DomainError ErrorInvalidTransition msg"

definition ApplyManualOperationalTETA :: "AMANFlight \<Rightarrow> gotime \<Rightarrow> gotime \<Rightarrow> domain_error + AMANFlight" where
  "ApplyManualOperationalTETA flight operationalTETA actionAt =
     (if f_FreezeReason flight = FreezeTMA
      then Inl (prediction_invalidTransition ''TMA freeze can only be released by a confirmed go-around'')
      else (case f_Prediction flight of
          None \<Rightarrow> Inl (prediction_invalidArgument ''manual operational TETA requires a current prediction'')
        | Some p \<Rightarrow>
            (if is_zero operationalTETA \<or> loc operationalTETA \<noteq> UTC \<or> \<not> after operationalTETA actionAt
             then Inl (prediction_invalidArgument ''manual operational TETA must be a future UTC value'')
             else if is_zero actionAt \<or> loc actionAt \<noteq> UTC \<or> before actionAt (f_UpdatedAt flight)
             then Inl (prediction_invalidArgument ''manual operational TETA action time is invalid'')
             else Inr ((setOperational (flight\<lparr> f_FreezeReason := FreezeManual, f_FrozenAt := Some actionAt,
                 f_FrozenOperationalTETA := Some operationalTETA, f_FrozenSlot := None \<rparr>) p operationalTETA OperationalReasonManualOverride)
               \<lparr> f_UpdatedAt := actionAt \<rparr>))))"

definition routine_input :: "Prediction \<Rightarrow> FlightState \<Rightarrow> PredictionInput" where
  "routine_input raw state =
     \<lparr> in_RefreshCalculation = False, in_Raw = raw, in_State = state, in_RouteRevision = False, in_ReacquiredRoute = False,
       in_RunwayGroupChanged = False, in_ManualOverride = None, in_ReleaseFreeze = False, in_ConfirmedGoAround = False,
       in_FreezeForTMA = False, in_ReplacePreliminaryPrediction = False, in_Slot = None \<rparr>"

definition ReleaseManualOperationalTETA :: "PredictionConfig \<Rightarrow> AMANFlight \<Rightarrow> gotime \<Rightarrow> (prediction_error + AMANFlight) option" where
  "ReleaseManualOperationalTETA config flight actionAt =
     (if f_FreezeReason flight = FreezeTMA
      then Some (Inl (PredictionDomainError (prediction_invalidTransition ''TMA freeze can only be released by a confirmed go-around'')))
      else (case PredictionConfig_Validate config of Inl e \<Rightarrow> Some (Inl e)
        | Inr _ \<Rightarrow>
            (if f_FreezeReason flight \<noteq> FreezeManual \<or> f_Prediction flight = None \<or> f_RawTETASamples flight = []
             then Some (Inl (PredictionDomainError (prediction_invalidTransition ''manual operational TETA is not active'')))
             else if is_zero actionAt \<or> loc actionAt \<noteq> UTC \<or> before actionAt (f_UpdatedAt flight)
             then Some (Inl (PredictionDomainError (prediction_invalidArgument ''manual operational TETA action time is invalid'')))
             else (case f_Prediction flight of None \<Rightarrow> None
               | Some p \<Rightarrow>
                   map_option (\<lambda>(candidate, reason). Inr ((setOperational (clearFreeze flight) p candidate reason)\<lparr> f_UpdatedAt := actionAt \<rparr>))
                     (routineOperational config (clearFreeze flight) (f_State flight) (routine_input p (f_State flight)))))))"

section \<open>The window and its median\<close>

lemma acceptRaw_nonempty: "acceptRaw history raw \<noteq> []"
  by (auto simp: acceptRaw_def staleRaw_def smoothingWindowSize_def Let_def)

lemma acceptRaw_members: "x \<in> set (acceptRaw history raw) \<Longrightarrow> x \<in> set history \<or> x = sample_of raw"
  by (auto simp: acceptRaw_def Let_def split: if_splits dest: in_set_dropD)

lemma median_time_returns: "values \<noteq> [] \<Longrightarrow> \<exists>m. median_time values = Some m"
proof -
  assume "values \<noteq> []"
  then have "go_sort before values \<noteq> []" by (metis length_go_sort length_0_conv)
  then show ?thesis by (auto simp: median_time_def Let_def)
qed

lemma halfway: "a \<le> b \<or> b \<le> a \<Longrightarrow> \<exists>lo \<in> {a, b}. \<exists>hi \<in> {a, b}. lo \<le> a + go_quot (b - a) 2 \<and> a + go_quot (b - a) 2 \<le> (hi :: int)"
proof -
  have "go_quot d 2 = d div 2" if "0 \<le> d" for d using that by (rule go_quot_nonneg) simp
  moreover have "go_quot d 2 = - (- d div 2)" if "d < 0" for d using that by (simp add: go_quot_def)
  ultimately show ?thesis by (cases "a \<le> b") auto
qed

lemma median_time_between:
  assumes "median_time values = Some m"
  obtains a b where "a \<in> set values" "b \<in> set values" "ns a \<le> ns m" "ns m \<le> ns b" "loc m \<in> loc ` set values"
proof -
  let ?s = "go_sort before values" and ?k = "length (go_sort before values) div 2"
  have ne: "?s \<noteq> []" using assms by (auto simp: median_time_def Let_def)
  have mem: "?s ! j \<in> set values" if "j < length ?s" for j using nth_mem [OF that] by simp
  have k: "?k < length ?s" "?k - 1 < length ?s" using ne by (metis div_less_dividend length_greater_0_conv less_imp_diff_less one_less_numeral_iff semiring_norm(76))+
  show thesis
  proof (cases "length ?s mod 2 \<noteq> 0")
    case True
    with assms ne have "m = ?s ! ?k" by (simp add: median_time_def Let_def)
    with mem [OF k(1)] that show thesis by auto
  next
    case False
    let ?a = "?s ! (?k - 1)" and ?b = "?s ! ?k"
    have m: "m = t_add ?a (go_quot (t_sub ?b ?a) 2)" using False assms ne by (simp add: median_time_def Let_def)
    have "ns m = ns ?a + go_quot (ns ?b - ns ?a) 2" by (simp add: m t_add_def t_sub_def)
    with halfway [OF linear, of "ns ?a" "ns ?b"] obtain lo hi where
      "lo \<in> {ns ?a, ns ?b}" "hi \<in> {ns ?a, ns ?b}" "lo \<le> ns m" "ns m \<le> hi" by metis
    moreover have "loc m = loc ?a" by (simp add: m t_add_def)
    ultimately show thesis using mem [OF k(1)] mem [OF k(2)] that by auto
  qed
qed

lemma median_time_const:
  assumes "values \<noteq> []" "\<And>v. v \<in> set values \<Longrightarrow> v = c"
  shows "median_time values = Some c"
proof -
  from median_time_returns [OF assms(1)] obtain m where m: "median_time values = Some m" by blast
  then show ?thesis
    by (rule median_time_between) (use assms(2) m in \<open>metis imageE order_antisym utc_eqI\<close>)
qed

text \<open>An instant of the calendar: in UTC and after the zero time.\<close>

definition timely :: "gotime \<Rightarrow> bool" where
  "timely t \<longleftrightarrow> loc t = UTC \<and> 0 < ns t"

lemma timely_valid: "timely t \<Longrightarrow> valid_utc t"
  by (simp add: timely_def go_time)

lemma median_time_timely:
  assumes "median_time values = Some m" "\<And>v. v \<in> set values \<Longrightarrow> timely v"
  shows "timely m"
  by (rule median_time_between [OF assms(1)]) (use assms(2) in \<open>force simp: timely_def\<close>)

definition window_ordered :: "RawTETASample list \<Rightarrow> bool" where
  "window_ordered = sorted_wrt (\<lambda>a b. ns (sample_GeneratedAt a) < ns (sample_GeneratedAt b))"

lemma validateSamples_from_iff:
  "validateSamples_from prev ss = Inr () \<longleftrightarrow>
     (\<forall>s \<in> set ss. RawTETASample_Validate s = Inr ()) \<and> window_ordered ((case prev of None \<Rightarrow> [] | Some p \<Rightarrow> [p]) @ ss)"
proof (induction prev ss rule: validateSamples_from.induct)
  case (2 prev s ss)
  then show ?case by (cases prev) (fastforce simp: window_ordered_def go_time)+
qed (simp add: window_ordered_def split: option.split)

lemma validateSamples_iff:
  "validateSamples ss = Inr () \<longleftrightarrow> length ss \<le> 3 \<and> (\<forall>s \<in> set ss. RawTETASample_Validate s = Inr ()) \<and> window_ordered ss"
  by (simp add: validateSamples_def validateSamples_from_iff)

lemma acceptRaw_valid:
  assumes "validateSamples history = Inr ()" "RawTETASample_Validate (sample_of raw) = Inr ()"
  shows "validateSamples (acceptRaw history raw) = Inr ()"
proof (cases "staleRaw history raw")
  case False
  have "ns (sample_GeneratedAt s) < ns (pred_GeneratedAt raw)" if s: "s \<in> set history" for s
  proof -
    from s have ne: "history \<noteq> []" by auto
    then have "history = butlast history @ [last history]" by simp
    with assms(1) have "window_ordered (butlast history @ [last history])" by (simp add: validateSamples_iff)
    then have "s \<in> set (butlast history) \<Longrightarrow> ns (sample_GeneratedAt s) < ns (sample_GeneratedAt (last history))"
      by (simp add: window_ordered_def sorted_wrt_append)
    moreover have "ns (sample_GeneratedAt (last history)) < ns (pred_GeneratedAt raw)" using False ne by (simp add: staleRaw_def go_time)
    moreover have "s \<in> set (butlast history) \<or> s = last history" using s ne by (metis append_butlast_last_id in_set_butlast_appendI insert_iff list.simps(15) rotate1.simps(2) set_rotate1)
    ultimately show ?thesis by fastforce
  qed
  with assms have "window_ordered (history @ [sample_of raw])"
    by (simp add: validateSamples_iff window_ordered_def sorted_wrt_append sample_of_def)
  then have "window_ordered (drop n (history @ [sample_of raw]))" for n unfolding window_ordered_def by (rule sorted_wrt_drop)
  from this [of 0] this [of "length history - 2"] assms False show ?thesis
    by (auto simp: validateSamples_iff acceptRaw_def smoothingWindowSize_def Let_def dest: in_set_dropD)
qed (use assms in \<open>simp add: acceptRaw_def\<close>)

section \<open>Well-formed flights\<close>

definition prediction_sound :: "Prediction \<Rightarrow> bool" where
  "prediction_sound p \<longleftrightarrow> Prediction_Validate p = Inr () \<and> timely (pred_OperationalTETA p)"

definition opt_all :: "('a \<Rightarrow> bool) \<Rightarrow> 'a option \<Rightarrow> bool" where
  "opt_all P x \<longleftrightarrow> (case x of None \<Rightarrow> True | Some y \<Rightarrow> P y)"

lemma opt_all_simps [simp]: "opt_all P None" "opt_all P (Some y) \<longleftrightarrow> P y"
  by (simp_all add: opt_all_def)

text \<open>
  The checks of \<^verbatim>\<open>AMANFlight.Validate\<close> on the fields that prediction writes, and that the times it
  computes with lie after the zero time. Not among them are the checks that tie records prediction does not
  write to its fields: the lifecycle reason to the state, and queue offers and the runway gap
  exception to the slot. Whoever calls the reducer brings those in line.
\<close>

definition timing_fields_valid :: "AMANFlight \<Rightarrow> bool" where
  "timing_fields_valid f \<longleftrightarrow>
     FlightState_Valid (f_State f) \<and> FreezeReason_Valid (f_FreezeReason f) \<and> validateFreeze f = Inr () \<and>
     validateSamples (f_RawTETASamples f) = Inr () \<and> (\<forall>s \<in> set (f_RawTETASamples f). timely (sample_TETA s)) \<and>
     opt_all prediction_sound (f_Prediction f) \<and> opt_all (\<lambda>s. Slot_validate s = Inr ()) (f_Slot f) \<and>
     opt_all timely (f_FrozenOperationalTETA f) \<and> valid_utc (f_UpdatedAt f)"

text \<open>What the predictor and the caller promise about an input.\<close>

definition plausible :: "PredictionInput \<Rightarrow> bool" where
  "plausible i \<longleftrightarrow> timely (pred_RawTETA (in_Raw i)) \<and> \<not> after (pred_InputObservedAt (in_Raw i)) (pred_GeneratedAt (in_Raw i)) \<and>
     opt_all timely (in_ManualOverride i) \<and> opt_all (\<lambda>s. Slot_validate s = Inr ()) (in_Slot i)"

lemma validateRaw_fields:
  assumes "validateRaw raw = Inr ()"
  shows "valid_utc (pred_GeneratedAt raw)" "valid_utc (pred_InputObservedAt raw)"
  using assms by (auto simp: validateRaw_def Prediction_Validate_def split: sum.splits)

lemma prediction_soundI:
  assumes "validateRaw raw = Inr ()" "timely t" "OperationalReason_Valid reason"
  shows "prediction_sound (raw\<lparr> pred_OperationalTETA := t, pred_OperationalReason := reason \<rparr>)"
  using assms by (auto simp: validateRaw_def prediction_sound_def Prediction_Validate_def timely_valid split: sum.splits)

lemma setOperational_fields [simp]:
  "f_State (setOperational f raw t r) = f_State f" "f_FreezeReason (setOperational f raw t r) = f_FreezeReason f"
  "f_FrozenAt (setOperational f raw t r) = f_FrozenAt f" "f_FrozenOperationalTETA (setOperational f raw t r) = f_FrozenOperationalTETA f"
  "f_FrozenSlot (setOperational f raw t r) = f_FrozenSlot f" "f_Slot (setOperational f raw t r) = f_Slot f"
  "f_RawTETASamples (setOperational f raw t r) = f_RawTETASamples f" "f_UpdatedAt (setOperational f raw t r) = f_UpdatedAt f"
  "f_Prediction (setOperational f raw t r) = Some (raw\<lparr> pred_OperationalTETA := t, pred_OperationalReason := r \<rparr>)"
  by (simp_all add: setOperational_def)

lemma clearFreeze_fields [simp]:
  "f_State (clearFreeze f) = f_State f" "f_FreezeReason (clearFreeze f) = FreezeNone" "f_FrozenAt (clearFreeze f) = None"
  "f_FrozenOperationalTETA (clearFreeze f) = None" "f_FrozenSlot (clearFreeze f) = None" "f_Slot (clearFreeze f) = f_Slot f"
  "f_RawTETASamples (clearFreeze f) = f_RawTETASamples f" "f_UpdatedAt (clearFreeze f) = f_UpdatedAt f"
  "f_Prediction (clearFreeze f) = f_Prediction f"
  by (simp_all add: clearFreeze_def)

lemma validateFreeze_None [simp]:
  "f_FreezeReason f = FreezeNone \<Longrightarrow> f_FrozenAt f = None \<Longrightarrow> f_FrozenOperationalTETA f = None \<Longrightarrow> f_FrozenSlot f = None \<Longrightarrow>
     validateFreeze f = Inr ()"
  by (simp add: validateFreeze_def)

lemma validateFreeze_cong:
  assumes "f_FreezeReason g = f_FreezeReason f" "f_FrozenAt g = f_FrozenAt f" "f_FrozenOperationalTETA g = f_FrozenOperationalTETA f"
    "f_FrozenSlot g = f_FrozenSlot f" "f_Slot f \<noteq> None \<longrightarrow> f_Slot g \<noteq> None" "validateFreeze f = Inr ()"
  shows "validateFreeze g = Inr ()"
  using assms by (auto simp: validateFreeze_def split: option.splits if_splits)

lemma frozen_has_time: "validateFreeze f = Inr () \<Longrightarrow> f_FreezeReason f \<noteq> FreezeNone \<Longrightarrow> f_FrozenOperationalTETA f \<noteq> None"
  by (auto simp: validateFreeze_def split: option.splits)

lemma sampled_fields [simp]:
  "f_FreezeReason (sampled f i) = f_FreezeReason f" "f_FrozenAt (sampled f i) = f_FrozenAt f"
  "f_FrozenOperationalTETA (sampled f i) = f_FrozenOperationalTETA f" "f_FrozenSlot (sampled f i) = f_FrozenSlot f"
  "f_Prediction (sampled f i) = f_Prediction f" "f_State (sampled f i) = in_State i"
  "f_UpdatedAt (sampled f i) = pred_GeneratedAt (in_Raw i)"
  by (simp_all add: sampled_def Let_def)

lemma sampled_nonempty: "f_RawTETASamples (sampled f i) \<noteq> []"
  by (simp add: sampled_def Let_def acceptRaw_nonempty)

lemma sample_of_valid:
  assumes "plausible i" "validateRaw (in_Raw i) = Inr ()"
  shows "RawTETASample_Validate (sample_of (in_Raw i)) = Inr ()"
  using assms validateRaw_fields [OF assms(2)]
  by (auto simp: RawTETASample_Validate_def sample_of_def plausible_def timely_valid)

lemma sampled_sound:
  assumes "timing_fields_valid f" "plausible i" "validateRaw (in_Raw i) = Inr ()" "FlightState_Valid (in_State i)"
  shows "timing_fields_valid (sampled f i)"
proof -
  let ?g = "sampled f i"
  note f = assms(1) [unfolded timing_fields_valid_def]
  have slot: "f_Slot ?g = f_Slot f \<or> f_Slot ?g = in_Slot i \<and> in_Slot i \<noteq> None" by (auto simp: sampled_def Let_def split: option.split)
  then have "opt_all (\<lambda>s. Slot_validate s = Inr ()) (f_Slot ?g)" using f assms(2) by (auto simp: plausible_def)
  moreover have "validateFreeze ?g = Inr ()" by (rule validateFreeze_cong [of _ f]) (use f slot in auto)
  moreover have "validateSamples (f_RawTETASamples ?g) = Inr ()"
  proof -
    have "validateSamples [] = Inr ()" by (simp add: validateSamples_iff window_ordered_def)
    with f acceptRaw_valid [OF _ sample_of_valid [OF assms(2,3)]] show ?thesis by (simp add: sampled_def Let_def)
  qed
  moreover have "timely (sample_TETA s)" if "s \<in> set (f_RawTETASamples ?g)" for s
    using that f assms(2) acceptRaw_members by (fastforce simp: sampled_def Let_def plausible_def sample_of_def split: if_splits)
  ultimately show ?thesis using f assms validateRaw_fields [OF assms(3)] by (simp add: timing_fields_valid_def)
qed

lemma smoothed_timely:
  assumes "opt_all prediction_sound p" "timely median" "PredictionConfig_Validate config = Inr ()"
  shows "timely (fst (smoothed config p median))" "OperationalReason_Valid (snd (smoothed config p median))"
  using assms by (auto simp: smoothed_def Let_def prediction_sound_def timely_def PredictionConfig_Validate_def t_add_def t_sub_def split: option.split)

lemma routineOperational_timely:
  assumes "timing_fields_valid f" "timely (pred_RawTETA (in_Raw i))" "PredictionConfig_Validate config = Inr ()"
    "routineOperational config f previousState i = Some (t, reason)"
  shows "timely t \<and> OperationalReason_Valid reason"
proof -
  have "timely m" if "median_time (inputSamples (f_RawTETASamples f)) = Some m" for m
    by (rule median_time_timely [OF that]) (use assms(1) in \<open>auto simp: inputSamples_def timing_fields_valid_def\<close>)
  moreover have "opt_all prediction_sound (f_Prediction f)" using assms(1) by (simp add: timing_fields_valid_def)
  ultimately have "timely (fst x) \<and> OperationalReason_Valid (snd x)" if "routineOperational config f previousState i = Some x" for x
    using that assms(2) smoothed_timely [OF _ _ assms(3)] by (auto simp: routineOperational_def split: if_splits)
  from this [OF assms(4)] show ?thesis by simp
qed

lemma routineOperational_returns:
  "f_RawTETASamples f \<noteq> [] \<Longrightarrow> \<exists>x. routineOperational config f previousState i = Some x"
  using median_time_returns [of "inputSamples (f_RawTETASamples f)"] by (auto simp: routineOperational_def inputSamples_def)

lemma with_prediction_sound:
  assumes "timing_fields_valid f" "validateRaw raw = Inr ()" "timely t" "OperationalReason_Valid reason"
  shows "timing_fields_valid (setOperational f raw t reason)"
proof -
  have "validateFreeze (setOperational f raw t reason) = Inr ()" by (rule validateFreeze_cong [of _ f]) (use assms(1) in \<open>simp_all add: timing_fields_valid_def\<close>)
  with assms(1) prediction_soundI [OF assms(2-4)] show ?thesis by (simp add: timing_fields_valid_def)
qed

lemma clearFreeze_sound: "timing_fields_valid f \<Longrightarrow> timing_fields_valid (clearFreeze f)"
  by (simp add: timing_fields_valid_def)

lemma frozen_sound:
  assumes "timing_fields_valid f" "valid_utc at_time" "timely t" "reason = FreezeTMA \<and> slot = f_Slot f \<or> reason = FreezeManual \<and> slot = None"
  shows "timing_fields_valid (f\<lparr> f_FreezeReason := reason, f_FrozenAt := Some at_time, f_FrozenOperationalTETA := Some t, f_FrozenSlot := slot \<rparr>)"
  using assms by (auto simp: timing_fields_valid_def validateFreeze_def timely_valid require_opt_def split: option.split)

lemma go_around_sound:
  assumes "timing_fields_valid f" "validateRaw (in_Raw i) = Inr ()" "timely (pred_RawTETA (in_Raw i))"
  shows "timing_fields_valid (go_around f i)"
  unfolding go_around_def
proof (rule with_prediction_sound)
  show "timing_fields_valid ((clearFreeze f)\<lparr> f_Slot := None \<rparr>)" using clearFreeze_sound [OF assms(1)] by (simp add: timing_fields_valid_def)
qed (use assms in simp_all)

lemma freeze_for_tma_sound:
  assumes "timing_fields_valid f" "validateRaw (in_Raw i) = Inr ()" "timely t"
  shows "timing_fields_valid (freeze_for_tma f i t)"
  unfolding freeze_for_tma_def
  by (rule with_prediction_sound, rule frozen_sound) (use assms validateRaw_fields [OF assms(2)] in simp_all)

lemma manual_override_sound:
  assumes "timing_fields_valid f" "validateRaw (in_Raw i) = Inr ()" "timely t"
  shows "timing_fields_valid (manual_override f i t)"
  unfolding manual_override_def
  by (rule with_prediction_sound, rule frozen_sound) (use assms validateRaw_fields [OF assms(2)] in simp_all)

lemma frozen_reason_valid: "frozen_reason r = Some reason \<Longrightarrow> OperationalReason_Valid reason \<and> r \<noteq> FreezeNone"
  by (auto simp: frozen_reason_def split: FreezeReason.splits)

lemma routine_update_sound:
  assumes "timing_fields_valid f" "f_RawTETASamples f \<noteq> []" "validateRaw (in_Raw i) = Inr ()" "timely (pred_RawTETA (in_Raw i))"
    "PredictionConfig_Validate config = Inr ()"
  shows "\<exists>g. routine_update config f previousState i = Some g \<and> timing_fields_valid g"
proof -
  let ?f = "if in_ReleaseFreeze i \<and> f_FreezeReason f \<noteq> FreezeTMA then clearFreeze f else f"
  have f: "timing_fields_valid ?f" "f_RawTETASamples ?f \<noteq> []" using assms(1,2) clearFreeze_sound by simp_all
  show ?thesis
  proof (cases "frozen_reason (f_FreezeReason ?f)")
    case None
    obtain t reason where x: "routineOperational config ?f previousState i = Some (t, reason)" using routineOperational_returns [OF f(2)] by fast
    with routineOperational_timely [OF f(1) assms(4,5)] have "timely t \<and> OperationalReason_Valid reason" by blast
    with with_prediction_sound [OF f(1) assms(3)] have "timing_fields_valid (setOperational ?f (in_Raw i) t reason)" by blast
    with None x show ?thesis unfolding routine_update_def Let_def by simp
  next
    case (Some reason)
    from frozen_reason_valid [OF this] have "OperationalReason_Valid reason" "f_FreezeReason ?f \<noteq> FreezeNone" by simp_all
    moreover from f(1) frozen_has_time [of ?f] this(2) obtain t where "f_FrozenOperationalTETA ?f = Some t" "timely t"
      unfolding timing_fields_valid_def by (metis not_None_eq opt_all_simps(2))
    ultimately show ?thesis using with_prediction_sound [OF f(1) assms(3)] Some by (simp add: routine_update_def Let_def)
  qed
qed

lemma tma_frozen_value_timely:
  assumes "timing_fields_valid f" "f_RawTETASamples f \<noteq> []" "timely (pred_RawTETA (in_Raw i))" "PredictionConfig_Validate config = Inr ()"
  shows "\<exists>t. tma_frozen_value config f previousState i = Some t \<and> timely t"
proof -
  obtain x where x: "routineOperational config f previousState i = Some x" using routineOperational_returns [OF assms(2)] by blast
  with routineOperational_timely [OF assms(1,3,4), of previousState "fst x" "snd x"] have "timely (fst x)" by simp
  moreover have "opt_all timely (f_FrozenOperationalTETA f)" using assms(1) by (simp add: timing_fields_valid_def)
  ultimately show ?thesis using x assms(3) by (cases "f_FrozenOperationalTETA f") (simp_all add: tma_frozen_value_def)
qed

lemma reduced_flight_sound:
  assumes "timing_fields_valid f" "plausible i" "validateRaw (in_Raw i) = Inr ()" "FlightState_Valid (in_State i)" "PredictionConfig_Validate config = Inr ()"
  shows "\<exists>g. reduced_flight config f i = Some g \<and> timing_fields_valid g"
proof -
  let ?f = "sampled f i"
  note s = sampled_sound [OF assms(1-4)]
  have raw: "timely (pred_RawTETA (in_Raw i))" using assms(2) by (simp add: plausible_def)
  consider "in_ConfirmedGoAround i" | "\<not> in_ConfirmedGoAround i" "in_FreezeForTMA i"
    | m where "\<not> in_ConfirmedGoAround i" "\<not> in_FreezeForTMA i" "in_ManualOverride i = Some m"
    | "\<not> in_ConfirmedGoAround i" "\<not> in_FreezeForTMA i" "in_ManualOverride i = None" by fastforce
  then show ?thesis
  proof cases
    case 1
    with go_around_sound [OF s assms(3) raw] show ?thesis by (simp add: reduced_flight_def Let_def)
  next
    case 2
    from tma_frozen_value_timely [OF s sampled_nonempty raw assms(5)] obtain t where "tma_frozen_value config ?f (f_State f) i = Some t" "timely t" by blast
    with 2 freeze_for_tma_sound [OF s assms(3)] show ?thesis by (simp add: reduced_flight_def Let_def)
  next
    case 3
    with manual_override_sound [OF s assms(3)] assms(2) show ?thesis by (simp add: reduced_flight_def Let_def plausible_def)
  next
    case 4
    with routine_update_sound [OF s sampled_nonempty assms(3) raw assms(5)] show ?thesis by (simp add: reduced_flight_def Let_def)
  qed
qed

lemma prediction_result_flight [simp]: "out_Flight (prediction_result config f) = f"
  by (simp add: prediction_result_def Let_def split: option.split FreezeReason.split)

lemma reduce_accepts:
  assumes "Prediction_Reduce config f i = Some (Inr r)"
  obtains "PredictionConfig_Validate config = Inr ()" "FlightState_Valid (in_State i)" "validateRaw (in_Raw i) = Inr ()"
    "out_Flight r = f" "staleRaw (f_RawTETASamples f) (in_Raw i)" "\<not> explicit_change i"
  | "PredictionConfig_Validate config = Inr ()" "FlightState_Valid (in_State i)" "validateRaw (in_Raw i) = Inr ()"
    "reduced_flight config f i = Some (out_Flight r)" "\<not> staleRaw (f_RawTETASamples f) (in_Raw i) \<or> explicit_change i"
  using assms by (auto simp: Prediction_Reduce_def reduce_checks_def split: sum.splits option.splits if_splits)

lemma reduce_sound:
  assumes "timing_fields_valid f" "plausible i"
  shows "\<exists>x. Prediction_Reduce config f i = Some x \<and> (\<forall>r. x = Inr r \<longrightarrow> timing_fields_valid (out_Flight r))"
proof -
  show ?thesis
  proof (cases "reduce_checks config i")
    case (Inl e)
    then show ?thesis by (simp add: Prediction_Reduce_def)
  next
    case (Inr u)
    then have "PredictionConfig_Validate config = Inr ()" "FlightState_Valid (in_State i)" "validateRaw (in_Raw i) = Inr ()" by (auto simp: reduce_checks_def)
    with reduced_flight_sound [OF assms] obtain g where "reduced_flight config f i = Some g" "timing_fields_valid g" by blast
    with Inr assms(1) show ?thesis by (simp add: Prediction_Reduce_def)
  qed
qed

lemma prediction_sound_update:
  assumes "prediction_sound p" "timely t" "OperationalReason_Valid reason"
  shows "prediction_sound (p\<lparr> pred_OperationalTETA := t, pred_OperationalReason := reason \<rparr>)"
  using assms by (auto simp: prediction_sound_def Prediction_Validate_def timely_valid)

lemma at_action_sound:
  assumes "timing_fields_valid f" "prediction_sound p" "timely t" "OperationalReason_Valid reason" "valid_utc tm"
  shows "timing_fields_valid ((setOperational f p t reason)\<lparr> f_UpdatedAt := tm \<rparr>)"
proof -
  have "validateFreeze ((setOperational f p t reason)\<lparr> f_UpdatedAt := tm \<rparr>) = Inr ()"
    by (rule validateFreeze_cong [of _ f]) (use assms(1) in \<open>simp_all add: timing_fields_valid_def\<close>)
  with assms prediction_sound_update [OF assms(2-4)] show ?thesis by (simp add: timing_fields_valid_def)
qed

lemma apply_manual_sound:
  assumes "timing_fields_valid f" "timely actionAt" "ApplyManualOperationalTETA f t actionAt = Inr g"
  shows "timing_fields_valid g"
proof -
  from assms(3) obtain p where p: "f_Prediction f = Some p" "loc t = UTC" "after t actionAt"
    "g = (setOperational (f\<lparr> f_FreezeReason := FreezeManual, f_FrozenAt := Some actionAt, f_FrozenOperationalTETA := Some t,
        f_FrozenSlot := None \<rparr>) p t OperationalReasonManualOverride)\<lparr> f_UpdatedAt := actionAt \<rparr>"
    by (auto simp: ApplyManualOperationalTETA_def split: option.splits if_splits)
  with assms(2) have "timely t" by (simp add: timely_def after_def)
  moreover have "prediction_sound p" using assms(1) p(1) by (simp add: timing_fields_valid_def)
  ultimately show ?thesis unfolding p(4) using assms(1,2)
    by (intro at_action_sound frozen_sound) (simp_all add: timely_valid)
qed

lemma release_manual_sound:
  assumes "timing_fields_valid f" "timely actionAt"
  shows "\<exists>x. ReleaseManualOperationalTETA config f actionAt = Some x \<and> (\<forall>g. x = Inr g \<longrightarrow> timing_fields_valid g)"
proof -
  let ?c = "clearFreeze f"
  have c: "timing_fields_valid ?c" by (rule clearFreeze_sound [OF assms(1)])
  have "\<exists>x. ReleaseManualOperationalTETA config f actionAt = Some x \<and> (\<forall>g. x = Inr g \<longrightarrow> timing_fields_valid g)"
    if active: "f_FreezeReason f = FreezeManual" "f_Prediction f = Some p" "f_RawTETASamples f \<noteq> []" "PredictionConfig_Validate config = Inr ()" for p
  proof -
    let ?i = "routine_input p (f_State f)"
    have p: "prediction_sound p" using assms(1) active(2) by (simp add: timing_fields_valid_def)
    obtain x where x: "routineOperational config ?c (f_State f) ?i = Some x" using routineOperational_returns [of ?c] active(3) by (simp only: clearFreeze_fields) blast
    obtain m where m: "median_time (inputSamples (f_RawTETASamples f)) = Some m" "x = smoothed config (Some p) m"
      using x active(2) by (auto simp: routineOperational_def routine_input_def)
    have "timely m" by (rule median_time_timely [OF m(1)]) (use assms(1) in \<open>auto simp: inputSamples_def timing_fields_valid_def\<close>)
    then have "timely (fst x) \<and> OperationalReason_Valid (snd x)" using smoothed_timely [of "Some p" m config] p active(4) m(2) by simp
    then have "timing_fields_valid ((setOperational ?c p (fst x) (snd x))\<lparr> f_UpdatedAt := actionAt \<rparr>)"
      using at_action_sound [OF c p] assms(2) by (simp add: timely_valid)
    with active x show ?thesis by (cases x) (simp add: ReleaseManualOperationalTETA_def)
  qed
  then show ?thesis
    by (cases "f_FreezeReason f = FreezeManual \<and> f_Prediction f \<noteq> None \<and> f_RawTETASamples f \<noteq> [] \<and> PredictionConfig_Validate config = Inr ()")
      (auto simp: ReleaseManualOperationalTETA_def split: sum.split)
qed

section \<open>Runs of the reducer\<close>

definition prediction_step :: "PredictionConfig \<Rightarrow> AMANFlight \<Rightarrow> PredictionInput \<Rightarrow> AMANFlight \<Rightarrow> bool" where
  "prediction_step config f i f' \<longleftrightarrow> (\<exists>r. Prediction_Reduce config f i = Some (Inr r) \<and> out_Flight r = f')"

text \<open>An input that may give up the frozen time of a flight: the release of a TMA freeze is ignored.\<close>

definition releases :: "AMANFlight \<Rightarrow> PredictionInput \<Rightarrow> bool" where
  "releases f i \<longleftrightarrow> in_ConfirmedGoAround i \<or> in_ManualOverride i \<noteq> None \<or> in_ReleaseFreeze i \<and> f_FreezeReason f \<noteq> FreezeTMA"

definition unreleased_step :: "PredictionConfig \<Rightarrow> AMANFlight \<Rightarrow> PredictionInput \<Rightarrow> AMANFlight \<Rightarrow> bool" where
  "unreleased_step config f i f' \<longleftrightarrow> prediction_step config f i f' \<and> \<not> releases f i"

text \<open>
  A flight frozen at \<open>t\<close> whose operational time, where it has a prediction, is the frozen one. While the
  freeze is Superstable the slot is \<open>slot\<close> as well.
\<close>

definition held_at :: "gotime \<Rightarrow> Slot option \<Rightarrow> AMANFlight \<Rightarrow> bool" where
  "held_at t slot f \<longleftrightarrow> f_FreezeReason f \<in> {FreezeSuperstable, FreezeTMA, FreezeManual} \<and> f_FrozenOperationalTETA f = Some t \<and>
     opt_all (\<lambda>p. pred_OperationalTETA p = t) (f_Prediction f) \<and> (f_FreezeReason f = FreezeSuperstable \<longrightarrow> f_Slot f = slot)"

lemma sampled_slot_kept: "f_FreezeReason f = FreezeSuperstable \<Longrightarrow> \<not> releases f i \<Longrightarrow> f_Slot (sampled f i) = f_Slot f"
  by (auto simp: sampled_def Let_def releases_def split: option.split)

lemma frozen_reason_frozen: "r \<in> {FreezeSuperstable, FreezeTMA, FreezeManual} \<Longrightarrow> \<exists>reason. frozen_reason r = Some reason"
  by (auto simp: frozen_reason_def)

lemma unreleased_step_held:
  assumes "held_at t slot f" "unreleased_step config f i f'"
  shows "held_at t slot f'"
proof -
  from assms(2) obtain r where r: "Prediction_Reduce config f i = Some (Inr r)" "out_Flight r = f'" and keep: "\<not> releases f i"
    by (auto simp: unreleased_step_def prediction_step_def)
  note held = assms(1) [unfolded held_at_def]
  from r(1) show ?thesis
  proof (cases rule: reduce_accepts)
    case 1
    with r(2) assms(1) show ?thesis by simp
  next
    case 2
    have none: "\<not> in_ConfirmedGoAround i" "in_ManualOverride i = None" using keep by (auto simp: releases_def)
    show ?thesis
    proof (cases "in_FreezeForTMA i")
      case True
      with 2(4) r(2) none held have "f' = freeze_for_tma (sampled f i) i t"
        by (auto simp: reduced_flight_def Let_def tma_frozen_value_def)
      then show ?thesis by (simp add: held_at_def freeze_for_tma_def)
    next
      case False
      obtain reason where "frozen_reason (f_FreezeReason f) = Some reason" using frozen_reason_frozen held by blast
      moreover have nr: "(in_ReleaseFreeze i \<and> f_FreezeReason f \<noteq> FreezeTMA) = False" using keep by (auto simp: releases_def)
      ultimately have "routine_update config (sampled f i) (f_State f) i = Some (setOperational (sampled f i) (in_Raw i) t reason)"
        using held unfolding routine_update_def Let_def sampled_fields nr if_False by simp
      with 2(4) r(2) none False have "f' = setOperational (sampled f i) (in_Raw i) t reason" by (simp add: reduced_flight_def Let_def)
      with held sampled_slot_kept [OF _ keep] show ?thesis by (auto simp: held_at_def)
    qed
  qed
qed

interpretation held: invariant_machine "unreleased_step config" "held_at t slot"
  by unfold_locales (rule unreleased_step_held)

definition plausible_step :: "PredictionConfig \<Rightarrow> AMANFlight \<Rightarrow> PredictionInput \<Rightarrow> AMANFlight \<Rightarrow> bool" where
  "plausible_step config f i f' \<longleftrightarrow> prediction_step config f i f' \<and> plausible i"

interpretation sound: invariant_machine "plausible_step config" timing_fields_valid
proof
  fix f i f'
  assume "timing_fields_valid f" "plausible_step config f i f'"
  with reduce_sound [of f i config] show "timing_fields_valid f'" by (auto simp: plausible_step_def prediction_step_def)
qed

lemma manual_override_ends_tma_freeze:
  assumes "Prediction_Reduce config f i = Some (Inr r)" "in_ManualOverride i = Some m" "\<not> in_ConfirmedGoAround i" "\<not> in_FreezeForTMA i"
  shows "f_FreezeReason (out_Flight r) = FreezeManual"
  using assms(1)
proof (cases rule: reduce_accepts)
  case 2
  with assms have "out_Flight r = manual_override (sampled f i) i m" by (simp add: reduced_flight_def Let_def)
  then show ?thesis by (simp add: manual_override_def)
qed (use assms in \<open>simp add: explicit_change_def\<close>)

section \<open>Routine updates\<close>

lemma routineOperational_clearFreeze [simp]: "routineOperational config (clearFreeze f) previousState i = routineOperational config f previousState i"
  by (simp add: routineOperational_def)

definition routine :: "PredictionInput \<Rightarrow> AMANFlight \<Rightarrow> bool" where
  "routine i f \<longleftrightarrow> \<not> in_ReacquiredRoute i \<and> \<not> in_ReplacePreliminaryPrediction i \<and> \<not> in_RouteRevision i \<and> \<not> in_RunwayGroupChanged i \<and>
     \<not> in_ConfirmedGoAround i \<and> in_ManualOverride i = None \<and> (in_State i = StateUnstable \<longrightarrow> f_State f = StateUnstable)"

definition near :: "PredictionConfig \<Rightarrow> gotime \<Rightarrow> gotime \<Rightarrow> gotime \<Rightarrow> bool" where
  "near config m old new \<longleftrightarrow> \<bar>t_sub new old\<bar> \<le> pc_MaximumRoutineMove config \<and>
     \<bar>t_sub m new\<bar> \<le> max (pc_Deadband config) (\<bar>t_sub m old\<bar> - pc_MaximumRoutineMove config) \<and>
     (\<bar>t_sub m old\<bar> \<le> pc_Deadband config \<longrightarrow> new = old)"

lemma smoothed_near:
  assumes "PredictionConfig_Validate config = Inr ()"
  shows "near config m (pred_OperationalTETA p) (fst (smoothed config (Some p) m))"
  using assms by (auto simp: near_def smoothed_def Let_def PredictionConfig_Validate_def t_add_def t_sub_def max_def)

text \<open>What an accepted routine input does to a flight that is not frozen.\<close>

lemma routine_update_moves:
  assumes "Prediction_Reduce config f i = Some (Inr r)" "f_Prediction f = Some p" "f_FreezeReason f = FreezeNone" "validateFreeze f = Inr ()" "routine i f"
  obtains "out_Flight r = f" "staleRaw (f_RawTETASamples f) (in_Raw i)"
  | m q where "f_RawTETASamples (out_Flight r) = acceptRaw (f_RawTETASamples f) (in_Raw i)"
      "median_time (inputSamples (f_RawTETASamples (out_Flight r))) = Some m" "f_Prediction (out_Flight r) = Some q"
      "near config m (pred_OperationalTETA p) (pred_OperationalTETA q)"
      "\<not> in_FreezeForTMA i \<longrightarrow> f_FreezeReason (out_Flight r) = FreezeNone \<and> validateFreeze (out_Flight r) = Inr ()"
  using assms(1)
proof (cases rule: reduce_accepts)
  case 1
  with that(1) show thesis by simp
next
  case 2
  have unfrozen: "f_FrozenAt f = None" "f_FrozenOperationalTETA f = None" "f_FrozenSlot f = None" using assms(3,4) by (simp_all add: validateFreeze_def)
  let ?f = "sampled f i"
  have samples: "f_RawTETASamples ?f = acceptRaw (f_RawTETASamples f) (in_Raw i)" using assms(5) by (simp add: sampled_def Let_def routine_def)
  obtain m where m: "median_time (inputSamples (f_RawTETASamples ?f)) = Some m"
    using median_time_returns [of "inputSamples (f_RawTETASamples ?f)"] sampled_nonempty [of f i] by (auto simp: inputSamples_def)
  have op: "routineOperational config ?f (f_State f) i = Some (smoothed config (Some p) m)"
    using assms(2,5) m by (auto simp: routineOperational_def routine_def)
  have near: "near config m (pred_OperationalTETA p) (fst (smoothed config (Some p) m))" by (rule smoothed_near [OF 2(1)])
  show thesis
  proof (cases "in_FreezeForTMA i")
    case True
    with 2(4) op unfrozen assms have g: "out_Flight r = freeze_for_tma ?f i (fst (smoothed config (Some p) m))"
      by (simp add: reduced_flight_def Let_def tma_frozen_value_def routine_def)
    show thesis
      by (rule that(2) [of m "(in_Raw i)\<lparr> pred_OperationalTETA := fst (smoothed config (Some p) m), pred_OperationalReason := OperationalReasonTMAFreeze \<rparr>"])
        (use g samples m near True in \<open>simp_all add: freeze_for_tma_def\<close>)
  next
    case False
    let ?g = "if in_ReleaseFreeze i \<and> f_FreezeReason ?f \<noteq> FreezeTMA then clearFreeze ?f else ?f"
    have "routineOperational config ?g (f_State f) i = Some (smoothed config (Some p) m)" using op by simp
    moreover have "frozen_reason (f_FreezeReason ?g) = None" using assms(3) by (simp add: frozen_reason_def)
    ultimately have "routine_update config ?f (f_State f) i =
        Some (setOperational ?g (in_Raw i) (fst (smoothed config (Some p) m)) (snd (smoothed config (Some p) m)))"
      unfolding routine_update_def Let_def by (simp only: option.case option.map case_prod_beta)
    with 2(4) False assms(5) have g: "out_Flight r = setOperational ?g (in_Raw i) (fst (smoothed config (Some p) m)) (snd (smoothed config (Some p) m))"
      by (simp add: reduced_flight_def Let_def routine_def split del: if_split)
    have "validateFreeze (out_Flight r) = Inr ()" "f_FreezeReason (out_Flight r) = FreezeNone" using g unfrozen assms(3) by simp_all
    then show thesis
      by (intro that(2) [of m "(in_Raw i)\<lparr> pred_OperationalTETA := fst (smoothed config (Some p) m), pred_OperationalReason := snd (smoothed config (Some p) m) \<rparr>"])
        (use g samples m near in simp_all)
  qed
qed

section \<open>Steady predictions\<close>

text \<open>A step that takes a routine prediction of the landing time \<open>c\<close> without a freeze.\<close>

definition steady_step :: "PredictionConfig \<Rightarrow> gotime \<Rightarrow> AMANFlight \<Rightarrow> PredictionInput \<Rightarrow> AMANFlight \<Rightarrow> bool" where
  "steady_step config c f i f' \<longleftrightarrow> prediction_step config f i f' \<and> routine i f \<and> \<not> in_FreezeForTMA i \<and>
     pred_RawTETA (in_Raw i) = c \<and> \<not> staleRaw (f_RawTETASamples f) (in_Raw i)"

definition window_at :: "gotime \<Rightarrow> AMANFlight \<Rightarrow> bool" where
  "window_at c f \<longleftrightarrow> f_FreezeReason f = FreezeNone \<and> validateFreeze f = Inr () \<and> (\<forall>s \<in> set (f_RawTETASamples f). sample_TETA s = c)"

lemma steady_step_near:
  assumes "steady_step config c f i f'" "window_at c f" "f_Prediction f = Some p"
  obtains q where "f_Prediction f' = Some q" "near config c (pred_OperationalTETA p) (pred_OperationalTETA q)" "window_at c f'"
proof -
  from assms(1) obtain r where r: "Prediction_Reduce config f i = Some (Inr r)" "out_Flight r = f'" "routine i f" "\<not> in_FreezeForTMA i"
    "pred_RawTETA (in_Raw i) = c" "\<not> staleRaw (f_RawTETASamples f) (in_Raw i)" by (auto simp: steady_step_def prediction_step_def)
  note w = assms(2) [unfolded window_at_def]
  have same: "s \<in> set (acceptRaw (f_RawTETASamples f) (in_Raw i)) \<Longrightarrow> sample_TETA s = c" for s
    using acceptRaw_members w r(5) by (fastforce simp: sample_of_def)
  show thesis
  proof (rule routine_update_moves [OF r(1) assms(3) _ _ r(3)])
    fix m q
    assume 2: "f_RawTETASamples (out_Flight r) = acceptRaw (f_RawTETASamples f) (in_Raw i)"
      "median_time (inputSamples (f_RawTETASamples (out_Flight r))) = Some m" "f_Prediction (out_Flight r) = Some q"
      "near config m (pred_OperationalTETA p) (pred_OperationalTETA q)"
      "\<not> in_FreezeForTMA i \<longrightarrow> f_FreezeReason (out_Flight r) = FreezeNone \<and> validateFreeze (out_Flight r) = Inr ()"
    have "m = c"
      using 2(2) median_time_const [of "inputSamples (f_RawTETASamples (out_Flight r))" c] same 2(1) acceptRaw_nonempty
      by (auto simp: inputSamples_def)
    with 2 r same show thesis by (intro that [of q]) (auto simp: window_at_def)
  qed (use r w in simp_all)
qed

lemma steady_predictions_converge:
  assumes "runs (steady_step config c) f es f'" "window_at c f" "f_Prediction f = Some p" "PredictionConfig_Validate config = Inr ()"
  shows "\<exists>q. f_Prediction f' = Some q \<and>
    \<bar>t_sub c (pred_OperationalTETA q)\<bar> \<le> max (pc_Deadband config) (\<bar>t_sub c (pred_OperationalTETA p)\<bar> - int (length es) * pc_MaximumRoutineMove config)"
  using assms(1-3)
proof (induction arbitrary: p rule: runs.induct)
  case (runs_Cons f i f1 es f')
  from runs_Cons.hyps(1) runs_Cons.prems obtain p1 where p1: "f_Prediction f1 = Some p1" "near config c (pred_OperationalTETA p) (pred_OperationalTETA p1)" "window_at c f1"
    by (rule steady_step_near)
  from runs_Cons.IH [OF p1(3,1)] obtain q where "f_Prediction f' = Some q"
    "\<bar>t_sub c (pred_OperationalTETA q)\<bar> \<le> max (pc_Deadband config) (\<bar>t_sub c (pred_OperationalTETA p1)\<bar> - int (length es) * pc_MaximumRoutineMove config)" by blast
  moreover obtain moved where "moved = int (length es) * pc_MaximumRoutineMove config" "0 \<le> moved"
    "int (length (i # es)) * pc_MaximumRoutineMove config = pc_MaximumRoutineMove config + moved"
    using assms(4) by (simp add: PredictionConfig_Validate_def algebra_simps)
  ultimately show ?case using p1(2) unfolding near_def by (intro exI [of _ q] conjI) (simp, linarith)
qed simp

section \<open>Properties\<close>

text \<open>An arrival with one prediction, for the witnesses.\<close>

definition sample_raw :: "duration \<Rightarrow> duration \<Rightarrow> Prediction" where
  "sample_raw teta generated =
     \<lparr> pred_RawTETA = Time teta UTC, pred_RawRETA = None, pred_OperationalTETA = Time teta UTC,
       pred_OperationalReason = OperationalReasonPredicted, pred_GeneratedAt = Time generated UTC,
       pred_InputObservedAt = Time generated UTC, pred_Confidence = ConfidenceHigh, pred_Publishable = True,
       pred_DegradationReason = None, pred_DatasetVersion = ''d1'', pred_GeometryDigest = ''g1'', pred_DistanceToGoNM = None,
       pred_RemainingRouteFixes = [], pred_HoldingFixETA = None, pred_HoldingPlan = None, pred_HoldingPlanBlockedBy = None,
       pred_ModelVersion = ''m1'', pred_ConfigVersion = ''c1'', pred_Basis = PredictionBasisPerformanceWind,
       pred_PerformanceProfileID = None, pred_WeatherSource = None, pred_Sources = Some [], pred_Calculation = None \<rparr>"

definition sample_arrival :: AMANFlight where
  "sample_arrival =
     \<lparr> f_Callsign = ''SAS123'', f_State = StateUnstable, f_DataStatus = DataFresh, f_Prediction = Some (sample_raw (10 * hour) hour),
       f_PredictionFilter = None, f_FeederETA = None, f_DerivedFeederETA = None,
       f_RawTETASamples = [sample_of (sample_raw (10 * hour) hour)], f_ArrivalBaseline = None, f_FreezeReason = FreezeNone,
       f_FrozenAt = None, f_FrozenOperationalTETA = None, f_FrozenSlot = None, f_Slot = None, f_ETAReview = None,
       f_OperationalException = None, f_Lifecycle = None, f_UpdatedAt = Time hour UTC \<rparr>"

definition later_prediction :: PredictionInput where
  "later_prediction = routine_input (sample_raw (10 * hour + 10 * minute) (hour + minute)) StateUnstable"

definition reduced_of :: "(prediction_error + PredictionResult) option \<Rightarrow> PredictionResult option" where
  "reduced_of x = (case x of Some (Inr r) \<Rightarrow> Some r | _ \<Rightarrow> None)"

lemma reduced_of_Some [simp]: "reduced_of x = Some r \<longleftrightarrow> x = Some (Inr r)"
  by (cases x) (auto simp: reduced_of_def split: sum.split)

lemma sample_arrival_sound: "timing_fields_valid sample_arrival" "plausible later_prediction"
  by code_simp+

text \<open>The flights that differ in the fields prediction writes only.\<close>

definition differs_in_timing :: "AMANFlight \<Rightarrow> AMANFlight \<Rightarrow> bool" where
  "differs_in_timing f g \<longleftrightarrow>
     g = f\<lparr> f_State := f_State g, f_Prediction := f_Prediction g, f_RawTETASamples := f_RawTETASamples g,
       f_FreezeReason := f_FreezeReason g, f_FrozenAt := f_FrozenAt g, f_FrozenOperationalTETA := f_FrozenOperationalTETA g,
       f_FrozenSlot := f_FrozenSlot g, f_Slot := f_Slot g, f_UpdatedAt := f_UpdatedAt g \<rparr>"

definition slot_after :: "AMANFlight \<Rightarrow> PredictionInput \<Rightarrow> AMANFlight \<Rightarrow> bool" where
  "slot_after f i g \<longleftrightarrow>
     (if in_ConfirmedGoAround i then f_Slot g = None else f_Slot g = f_Slot f \<or> in_Slot i \<noteq> None \<and> f_Slot g = in_Slot i)"

lemma routine_update_frame:
  "routine_update config f s i = Some g \<Longrightarrow> differs_in_timing f g \<and> f_Slot g = f_Slot f"
  by (auto simp: routine_update_def differs_in_timing_def setOperational_def clearFreeze_def Let_def split: option.splits if_splits)

lemma sampled_frame:
  "differs_in_timing (sampled f i) g \<Longrightarrow> differs_in_timing f g"
  by (simp add: differs_in_timing_def sampled_def Let_def)

lemma sampled_slot: "f_Slot (sampled f i) = f_Slot f \<or> in_Slot i \<noteq> None \<and> f_Slot (sampled f i) = in_Slot i"
  by (simp add: sampled_def Let_def split: option.split)

lemma reduced_flight_frame:
  assumes "reduced_flight config f i = Some g"
  shows "differs_in_timing f g \<and> slot_after f i g"
proof -
  have "differs_in_timing (sampled f i) g \<and> (if in_ConfirmedGoAround i then f_Slot g = None else f_Slot g = f_Slot (sampled f i))"
    using assms
    by (auto simp: reduced_flight_def Let_def go_around_def freeze_for_tma_def manual_override_def differs_in_timing_def setOperational_def
        clearFreeze_def dest!: routine_update_frame split: if_splits option.splits)
  with sampled_frame sampled_slot [of f i] show ?thesis by (auto simp: slot_after_def)
qed

lemma reduce_frame:
  assumes "Prediction_Reduce config f i = Some (Inr r)"
  shows "differs_in_timing f (out_Flight r) \<and> slot_after f i (out_Flight r)"
  using assms
proof (cases rule: reduce_accepts)
  case 1
  then show ?thesis by (simp add: differs_in_timing_def slot_after_def explicit_change_def)
next
  case 2
  from reduced_flight_frame [OF 2(4)] show ?thesis .
qed

lemma manual_frame:
  "ApplyManualOperationalTETA f t now = Inr g \<Longrightarrow> differs_in_timing f g \<and> f_Slot g = f_Slot f \<and> f_State g = f_State f"
  "ReleaseManualOperationalTETA config f now = Some (Inr g) \<Longrightarrow> differs_in_timing f g \<and> f_Slot g = f_Slot f \<and> f_State g = f_State f"
  by (auto simp: ApplyManualOperationalTETA_def ReleaseManualOperationalTETA_def differs_in_timing_def setOperational_def clearFreeze_def
      split: option.splits if_splits sum.splits)

text \<open>
  C14. Prediction never panics and keeps the fields it writes valid: for every flight whose prediction,
  smoothing window, freeze values, slot, state and update time pass their checks of \<^verbatim>\<open>Validate\<close>, and every plausible
  input, \<open>Reduce\<close> returns, with an error or with a flight of which these fields pass their checks again, and so do the
  selection and the release of a manual landing time. No other field changes; the slot changes only to the
  input's, or to none in a confirmed go-around, and manual times change neither slot nor state.
\<close>

theorem prediction_operations_are_sound:
  assumes "timing_fields_valid f" "plausible i" "timely actionAt"
  shows "(\<exists>x. Prediction_Reduce config f i = Some x \<and>
      (\<forall>r. x = Inr r \<longrightarrow> timing_fields_valid (out_Flight r) \<and> differs_in_timing f (out_Flight r) \<and> slot_after f i (out_Flight r))) \<and>
    (\<forall>t g. ApplyManualOperationalTETA f t actionAt = Inr g \<longrightarrow>
      timing_fields_valid g \<and> differs_in_timing f g \<and> f_Slot g = f_Slot f \<and> f_State g = f_State f) \<and>
    (\<exists>x. ReleaseManualOperationalTETA config f actionAt = Some x \<and>
      (\<forall>g. x = Inr g \<longrightarrow> timing_fields_valid g \<and> differs_in_timing f g \<and> f_Slot g = f_Slot f \<and> f_State g = f_State f))"
proof (intro conjI)
  show "\<exists>x. Prediction_Reduce config f i = Some x \<and>
      (\<forall>r. x = Inr r \<longrightarrow> timing_fields_valid (out_Flight r) \<and> differs_in_timing f (out_Flight r) \<and> slot_after f i (out_Flight r))"
    using reduce_sound [OF assms(1,2), of config] reduce_frame by metis
  show "\<forall>t g. ApplyManualOperationalTETA f t actionAt = Inr g \<longrightarrow>
      timing_fields_valid g \<and> differs_in_timing f g \<and> f_Slot g = f_Slot f \<and> f_State g = f_State f"
    using apply_manual_sound [OF assms(1,3)] manual_frame(1) by metis
  show "\<exists>x. ReleaseManualOperationalTETA config f actionAt = Some x \<and>
      (\<forall>g. x = Inr g \<longrightarrow> timing_fields_valid g \<and> differs_in_timing f g \<and> f_Slot g = f_Slot f \<and> f_State g = f_State f)"
    using release_manual_sound [OF assms(1,3), of config] manual_frame(2) by metis
qed

theorem prediction_operations_are_sound_witness:
  "\<exists>r. Prediction_Reduce DefaultPredictionConfig sample_arrival later_prediction = Some (Inr r) \<and> timing_fields_valid (out_Flight r) \<and>
    length (f_RawTETASamples (out_Flight r)) = 2"
proof -
  have "map_option (\<lambda>r. length (f_RawTETASamples (out_Flight r)))
      (reduced_of (Prediction_Reduce DefaultPredictionConfig sample_arrival later_prediction)) = Some 2" by code_simp
  then obtain r where r: "Prediction_Reduce DefaultPredictionConfig sample_arrival later_prediction = Some (Inr r)"
    "length (f_RawTETASamples (out_Flight r)) = 2" by auto
  have "timely (Time (2 * hour) UTC)" by (simp add: timely_def)
  from prediction_operations_are_sound [OF sample_arrival_sound this, of DefaultPredictionConfig] r show ?thesis by auto
qed

text \<open>
  C21. Routine updates are bounded: an accepted routine prediction of a flight that is not frozen moves
  its operational landing time by at most the configured step, not at all while the median of the window
  is within the deadband, and otherwise closer to that median by the whole step or to within the deadband
  of it. A stale prediction changes nothing.
\<close>

theorem routine_moves_are_bounded:
  assumes "Prediction_Reduce config f i = Some (Inr r)" "f_Prediction f = Some p" "f_FreezeReason f = FreezeNone" "validateFreeze f = Inr ()"
    and "routine i f"
  shows "out_Flight r = f \<or>
    (\<exists>m q. median_time (inputSamples (f_RawTETASamples (out_Flight r))) = Some m \<and> f_Prediction (out_Flight r) = Some q \<and>
      \<bar>t_sub (pred_OperationalTETA q) (pred_OperationalTETA p)\<bar> \<le> pc_MaximumRoutineMove config \<and>
      (\<bar>t_sub m (pred_OperationalTETA p)\<bar> \<le> pc_Deadband config \<longrightarrow> pred_OperationalTETA q = pred_OperationalTETA p) \<and>
      \<bar>t_sub m (pred_OperationalTETA q)\<bar> \<le> max (pc_Deadband config) (\<bar>t_sub m (pred_OperationalTETA p)\<bar> - pc_MaximumRoutineMove config))"
  using assms by (rule routine_update_moves) (auto simp: near_def)

theorem routine_moves_are_bounded_witness:
  "\<exists>r q. Prediction_Reduce DefaultPredictionConfig sample_arrival later_prediction = Some (Inr r) \<and> f_Prediction (out_Flight r) = Some q \<and>
    t_sub (pred_OperationalTETA q) (Time (10 * hour) UTC) = minute \<and>
    \<bar>t_sub (Time (10 * hour + 5 * minute) UTC) (pred_OperationalTETA q)\<bar> \<le> 4 * minute"
proof -
  have "map_option (\<lambda>r. (map_option pred_OperationalTETA (f_Prediction (out_Flight r)), median_time (inputSamples (f_RawTETASamples (out_Flight r)))))
      (reduced_of (Prediction_Reduce DefaultPredictionConfig sample_arrival later_prediction)) =
      Some (Some (Time (10 * hour + minute) UTC), Some (Time (10 * hour + 5 * minute) UTC))" by code_simp
  then obtain r where r: "Prediction_Reduce DefaultPredictionConfig sample_arrival later_prediction = Some (Inr r)"
    and v: "map_option pred_OperationalTETA (f_Prediction (out_Flight r)) = Some (Time (10 * hour + minute) UTC)"
      "median_time (inputSamples (f_RawTETASamples (out_Flight r))) = Some (Time (10 * hour + 5 * minute) UTC)" by auto
  have "out_Flight r \<noteq> sample_arrival" using v r by (auto simp: sample_arrival_def sample_raw_def)
  moreover have "validateFreeze sample_arrival = Inr ()" "routine later_prediction sample_arrival" by code_simp+
  moreover have "f_Prediction sample_arrival = Some (sample_raw (10 * hour) hour)" "f_FreezeReason sample_arrival = FreezeNone"
    by (simp_all add: sample_arrival_def)
  ultimately show ?thesis using routine_moves_are_bounded [OF r] v r
    by (auto simp: DefaultPredictionConfig_def t_sub_def sample_raw_def)
qed

text \<open>
  C23. A frozen landing time is kept: through any run of inputs none of which is a confirmed go-around, a
  new manual time or the release of a freeze, the flight stays frozen at the same operational landing
  time, whatever the raw predictions say, and a Superstable flight keeps its slot. The release of a freeze
  is no such input for a flight frozen for the TMA.
\<close>

theorem frozen_time_is_kept:
  assumes "runs (unreleased_step config) f es f'" "held_at t slot f"
  shows "f_FreezeReason f' \<noteq> FreezeNone \<and> f_FrozenOperationalTETA f' = Some t \<and>
    (\<forall>p. f_Prediction f' = Some p \<longrightarrow> pred_OperationalTETA p = t) \<and> (f_FreezeReason f' = FreezeSuperstable \<longrightarrow> f_Slot f' = slot)"
  using held.runs_inv [OF assms] by (auto simp: held_at_def opt_all_def split: option.splits)

definition superstable_arrival :: AMANFlight where
  "superstable_arrival =
     (let slot = \<lparr> slot_Time = Time (10 * hour) UTC, slot_RunwayGroupID = ''22L'', slot_Sequence = 1, slot_Revision = 1, slot_Reason = ''sequenced'' \<rparr> in
      sample_arrival\<lparr> f_State := StateStable, f_FreezeReason := FreezeSuperstable, f_FrozenAt := Some (Time hour UTC),
        f_FrozenOperationalTETA := Some (Time (10 * hour) UTC), f_FrozenSlot := Some slot, f_Slot := Some slot \<rparr>)"

theorem frozen_time_is_kept_witness:
  "\<exists>r. Prediction_Reduce DefaultPredictionConfig superstable_arrival (later_prediction\<lparr> in_State := StateStable, in_Slot := None \<rparr>) = Some (Inr r) \<and>
    f_FrozenOperationalTETA (out_Flight r) = Some (Time (10 * hour) UTC) \<and>
    (\<forall>p. f_Prediction (out_Flight r) = Some p \<longrightarrow> pred_OperationalTETA p = Time (10 * hour) UTC) \<and> out_ExcessiveDrift r"
proof -
  let ?i = "later_prediction\<lparr> in_State := StateStable, in_Slot := None \<rparr>"
  have v: "map_option out_ExcessiveDrift (reduced_of (Prediction_Reduce DefaultPredictionConfig superstable_arrival ?i)) = Some True"
    by code_simp
  then obtain r where r: "Prediction_Reduce DefaultPredictionConfig superstable_arrival ?i = Some (Inr r)" "out_ExcessiveDrift r"
    by auto
  have "\<not> releases superstable_arrival ?i" by code_simp
  with r have "runs (unreleased_step DefaultPredictionConfig) superstable_arrival [?i] (out_Flight r)"
    by (auto simp: runs_Cons_iff unreleased_step_def prediction_step_def)
  moreover have "held_at (Time (10 * hour) UTC) (f_Slot superstable_arrival) superstable_arrival" by code_simp
  ultimately show ?thesis using frozen_time_is_kept r by blast
qed

end
