(* ===== verification/Aman_Filter.thy ===== *)
theory Aman_Filter
  imports Aman_Prediction
begin

text \<open>
  The spike filter in front of the prediction reducer (\<^verbatim>\<open>internal/aman/prediction/filter.go\<close>) and
  the loop that feeds it: an observation is filtered and, when it is taken, reduced
  (\<^verbatim>\<open>internal/aman/operational/service.go\<close>), while the rest of the service may drop the filter state with the
  arrival path and change the other fields of the flight in any way.
\<close>

section \<open>The filter\<close>

definition SpikeThreshold :: duration where "SpikeThreshold = 3 * minute"
definition SpikeAgreement :: duration where "SpikeAgreement = minute"
definition SpikeMinimumSpan :: duration where "SpikeMinimumSpan = 30 * second"
definition SpikeMaximumAge :: duration where "SpikeMaximumAge = 2 * minute"
definition UnreliablePrediction :: string where "UnreliablePrediction = ''prediction_unreliable''"

datatype filter_outcome = OutcomeDuplicate | OutcomeBypass | OutcomeAccepted | OutcomeSustainedChange | OutcomeFiltered

fun filter_outcome_text :: "filter_outcome \<Rightarrow> string" where
  "filter_outcome_text OutcomeDuplicate = ''duplicate''"
| "filter_outcome_text OutcomeBypass = ''bypass''"
| "filter_outcome_text OutcomeAccepted = ''accepted''"
| "filter_outcome_text OutcomeSustainedChange = ''sustained_change''"
| "filter_outcome_text OutcomeFiltered = ''filtered''"

definition expirePending :: "AMANFlight \<Rightarrow> PredictionFilterState \<Rightarrow> gotime \<Rightarrow> AMANFlight" where
  "expirePending flight state now =
     (case pf_Pending state of None \<Rightarrow> flight\<lparr> f_PredictionFilter := Some state \<rparr>
      | Some c \<Rightarrow>
          (if t_sub now (pcand_Since c) < SpikeMaximumAge then flight\<lparr> f_PredictionFilter := Some state \<rparr>
           else flight\<lparr> f_PredictionFilter := Some (state\<lparr> pf_Unreliable := True \<rparr>),
             f_Prediction := map_option (\<lambda>p. p\<lparr> pred_Publishable := False, pred_DegradationReason := Some UnreliablePrediction \<rparr>)
               (f_Prediction flight) \<rparr>))"

definition ExpireFilter :: "AMANFlight \<Rightarrow> gotime \<Rightarrow> AMANFlight" where
  "ExpireFilter flight now = (case f_PredictionFilter flight of None \<Rightarrow> flight | Some state \<Rightarrow> expirePending flight state now)"

definition filter_time :: "Prediction \<Rightarrow> gotime" where
  "filter_time raw = (if is_zero (pred_InputObservedAt raw) then pred_GeneratedAt raw else pred_InputObservedAt raw)"

text \<open>The state a call starts from, the observation time of the current prediction included.\<close>

definition filter_state :: "AMANFlight \<Rightarrow> PredictionFilterState" where
  "filter_state flight =
     (let state = (case f_PredictionFilter flight of Some s \<Rightarrow> s
            | None \<Rightarrow> \<lparr> pf_LastObservedAt = zero_time, pf_Pending = None, pf_Unreliable = False \<rparr>) in
      if is_zero (pf_LastObservedAt state)
      then (case f_Prediction flight of Some p \<Rightarrow> state\<lparr> pf_LastObservedAt := pred_InputObservedAt p \<rparr> | None \<Rightarrow> state)
      else state)"

definition is_spike :: "AMANFlight \<Rightarrow> Prediction \<Rightarrow> Prediction \<Rightarrow> gotime option \<Rightarrow> bool" where
  "is_spike flight current raw feeder \<longleftrightarrow>
     absolute (t_sub (pred_RawTETA raw) (pred_RawTETA current)) > SpikeThreshold \<or>
     (case (feeder, case f_DerivedFeederETA flight of Some d \<Rightarrow> Some d | None \<Rightarrow> f_FeederETA flight) of
        (Some t, Some prior) \<Rightarrow>
          (case feeder_ETA prior of
             Some eta \<Rightarrow> feeder_Source prior = FeederETASourceRoute \<and> absolute (t_sub t eta) > SpikeThreshold
           | None \<Rightarrow> False)
      | _ \<Rightarrow> False)"

definition candidate_agrees :: "PredictionCandidate \<Rightarrow> Prediction \<Rightarrow> gotime option \<Rightarrow> bool" where
  "candidate_agrees c raw feeder \<longleftrightarrow>
     t_sub (filter_time raw) (pcand_FirstObservedAt c) \<le> SpikeMaximumAge \<and>
     absolute (t_sub (pred_RawTETA raw) (pcand_TETA c)) \<le> SpikeAgreement \<and>
     (case (feeder, pcand_FeederETA c) of (Some t, Some eta) \<Rightarrow> absolute (t_sub t eta) \<le> SpikeAgreement | _ \<Rightarrow> True)"

definition with_filter :: "AMANFlight \<Rightarrow> PredictionFilterState \<Rightarrow> AMANFlight" where
  "with_filter flight state = flight\<lparr> f_PredictionFilter := Some state \<rparr>"

definition new_candidate :: "PredictionCandidate option \<Rightarrow> Prediction \<Rightarrow> gotime option \<Rightarrow> PredictionCandidate" where
  "new_candidate pending raw feeder =
     \<lparr> pcand_TETA = pred_RawTETA raw, pcand_FeederETA = feeder, pcand_FirstObservedAt = filter_time raw,
       pcand_Since = (case pending of None \<Rightarrow> pred_GeneratedAt raw | Some c \<Rightarrow> pcand_Since c), pcand_Samples = 1 \<rparr>"

definition Prediction_Filter :: "AMANFlight \<Rightarrow> Prediction \<Rightarrow> gotime option \<Rightarrow> bool \<Rightarrow> bool \<Rightarrow> AMANFlight \<times> bool \<times> filter_outcome" where
  "Prediction_Filter flight raw feeder bypass disabled =
     (let bypass = (bypass \<or> disabled); at_time = filter_time raw; state = filter_state flight; now = pred_GeneratedAt raw in
      if \<not> bypass \<and> \<not> is_zero (pf_LastObservedAt state) \<and> \<not> after at_time (pf_LastObservedAt state)
      then (expirePending flight state now, False, OutcomeDuplicate)
      else
        (let state = state\<lparr> pf_LastObservedAt := at_time \<rparr>; settled = state\<lparr> pf_Pending := None, pf_Unreliable := False \<rparr> in
         case f_Prediction flight of
           None \<Rightarrow> (with_filter flight settled, True, OutcomeBypass)
         | Some current \<Rightarrow>
             (if bypass \<or> is_zero (pred_RawTETA current) then (with_filter flight settled, True, OutcomeBypass)
              else if \<not> is_spike flight current raw feeder then (with_filter flight settled, True, OutcomeAccepted)
              else (case pf_Pending state of
                  Some c \<Rightarrow>
                    (if candidate_agrees c raw feeder
                     then (let c = c\<lparr> pcand_Samples := pcand_Samples c + 1 \<rparr> in
                       if 2 \<le> pcand_Samples c \<and> SpikeMinimumSpan \<le> t_sub at_time (pcand_FirstObservedAt c)
                       then (with_filter flight settled, True, OutcomeSustainedChange)
                       else (expirePending flight (state\<lparr> pf_Pending := Some c \<rparr>) now, False, OutcomeFiltered))
                     else (expirePending flight (state\<lparr> pf_Pending := Some (new_candidate (Some c) raw feeder) \<rparr>) now, False, OutcomeFiltered))
                | None \<Rightarrow> (expirePending flight (state\<lparr> pf_Pending := Some (new_candidate None raw feeder) \<rparr>) now, False, OutcomeFiltered)))))"

section \<open>The timing loop\<close>

record observation =
  ob_Input :: PredictionInput
  ob_Feeder :: "gotime option"
  ob_Bypass :: bool
  ob_Disabled :: bool

text \<open>
  The outcome and the flight after one observation. A rejected or failing reduction leaves the filtered
  flight, as the service returns it with the error.
\<close>

definition observe :: "PredictionConfig \<Rightarrow> AMANFlight \<Rightarrow> observation \<Rightarrow> (AMANFlight \<times> filter_outcome) option" where
  "observe config flight ob =
     (case Prediction_Filter flight (in_Raw (ob_Input ob)) (ob_Feeder ob) (ob_Bypass ob) (ob_Disabled ob) of
        (filtered, accepted, outcome) \<Rightarrow>
          (if \<not> accepted then Some (filtered, outcome)
           else (case Prediction_Reduce config filtered (ob_Input ob) of
               None \<Rightarrow> None
             | Some (Inl _) \<Rightarrow> Some (filtered, outcome)
             | Some (Inr r) \<Rightarrow> Some (out_Flight r, outcome))))"

text \<open>\<^verbatim>\<open>invalidateRunwayPath\<close> on the fields of the model: new geometry drops the samples and the filter state.\<close>

definition invalidateRunwayPath :: "AMANFlight \<Rightarrow> AMANFlight" where
  "invalidateRunwayPath flight =
     flight\<lparr> f_RawTETASamples := [], f_PredictionFilter := None, f_FeederETA := None, f_DerivedFeederETA := None,
       f_Prediction := map_option (\<lambda>p. p\<lparr> pred_HoldingFixETA := None, pred_HoldingPlan := None \<rparr>) (f_Prediction flight) \<rparr>"

datatype timing_event = Observed observation filter_outcome | Expired gotime | PathInvalidated | Elsewhere

inductive timing_step :: "PredictionConfig \<Rightarrow> AMANFlight \<Rightarrow> timing_event \<Rightarrow> AMANFlight \<Rightarrow> bool" for config where
  Observe: "observe config f ob = Some (f', outcome) \<Longrightarrow> timing_step config f (Observed ob outcome) f'"
| Expire: "timing_step config f (Expired now) (ExpireFilter f now)"
| Invalidate: "timing_step config f PathInvalidated (invalidateRunwayPath f)"
| Change: "f_PredictionFilter f' = f_PredictionFilter f \<Longrightarrow> timing_step config f Elsewhere f'"

inductive_cases observed_step: "timing_step config f (Observed ob outcome) f'"

section \<open>Where a candidate comes from\<close>

definition pending_of :: "AMANFlight \<Rightarrow> PredictionCandidate option" where
  "pending_of f = (case f_PredictionFilter f of None \<Rightarrow> None | Some s \<Rightarrow> pf_Pending s)"

lemma filter_state_pending [simp]: "pf_Pending (filter_state f) = pending_of f"
  by (simp add: filter_state_def pending_of_def Let_def split: option.split)

lemma expirePending_pending [simp]: "pending_of (expirePending f s now) = pf_Pending s"
  by (simp add: expirePending_def pending_of_def split: option.split)

lemma with_filter_pending [simp]: "pending_of (with_filter f s) = pf_Pending s"
  by (simp add: with_filter_def pending_of_def)

lemma ExpireFilter_pending [simp]: "pending_of (ExpireFilter f now) = pending_of f"
proof (cases "f_PredictionFilter f")
  case (Some s)
  have "pending_of f = pf_Pending s" using Some by (simp add: pending_of_def)
  with Some show ?thesis by (simp add: ExpireFilter_def)
qed (simp add: ExpireFilter_def)

lemma setOperational_filter [simp]: "f_PredictionFilter (setOperational f raw t r) = f_PredictionFilter f"
  by (simp add: setOperational_def)

lemma clearFreeze_filter [simp]: "f_PredictionFilter (clearFreeze f) = f_PredictionFilter f"
  by (simp add: clearFreeze_def)

lemma routine_update_filter: "routine_update config f s i = Some g \<Longrightarrow> f_PredictionFilter g = f_PredictionFilter f"
  by (auto simp: routine_update_def Let_def split: option.splits if_splits)

lemma reduced_flight_filter: "reduced_flight config f i = Some g \<Longrightarrow> f_PredictionFilter g = f_PredictionFilter f"
  by (auto simp: reduced_flight_def Let_def go_around_def freeze_for_tma_def manual_override_def sampled_def
      dest: routine_update_filter split: option.splits if_splits)

lemma reduce_filter:
  assumes "Prediction_Reduce config f i = Some (Inr r)"
  shows "f_PredictionFilter (out_Flight r) = f_PredictionFilter f"
  using assms by (cases rule: reduce_accepts) (auto dest: reduced_flight_filter)

lemma filter_outcomes:
  assumes "Prediction_Filter f raw feeder bypass disabled = (g, accepted, outcome)"
  obtains (taken) "accepted" "outcome \<notin> {OutcomeFiltered, OutcomeDuplicate}" "pending_of g = None"
  | (duplicate) "\<not> accepted" "outcome = OutcomeDuplicate" "pending_of g = pending_of f"
  | (kept) c where "\<not> accepted" "outcome = OutcomeFiltered" "pending_of f = Some c" "pending_of g = Some (c\<lparr> pcand_Samples := pcand_Samples c + 1 \<rparr>)"
  | (fresh) "\<not> accepted" "outcome = OutcomeFiltered" "pending_of g = Some (new_candidate (pending_of f) raw feeder)"
proof -
  have "(accepted \<and> outcome \<notin> {OutcomeFiltered, OutcomeDuplicate} \<and> pending_of g = None) \<or>
    (\<not> accepted \<and> outcome = OutcomeDuplicate \<and> pending_of g = pending_of f) \<or>
    (\<exists>c. \<not> accepted \<and> outcome = OutcomeFiltered \<and> pending_of f = Some c \<and> pending_of g = Some (c\<lparr> pcand_Samples := pcand_Samples c + 1 \<rparr>)) \<or>
    (\<not> accepted \<and> outcome = OutcomeFiltered \<and> pending_of g = Some (new_candidate (pending_of f) raw feeder))"
    using assms by (auto simp: Prediction_Filter_def Let_def split: if_splits option.splits)
  then show thesis by (elim disjE exE conjE) (fact that)+
qed

lemma filter_accepts:
  assumes "Prediction_Filter f raw feeder False False = (g, True, outcome)" "f_Prediction f = Some p" "\<not> is_zero (pred_RawTETA p)"
  obtains "\<not> is_spike f p raw feeder"
  | c where "pending_of f = Some c" "candidate_agrees c raw feeder" "SpikeMinimumSpan \<le> t_sub (filter_time raw) (pcand_FirstObservedAt c)"
proof -
  have "\<not> is_spike f p raw feeder \<or>
    (\<exists>c. pending_of f = Some c \<and> candidate_agrees c raw feeder \<and> SpikeMinimumSpan \<le> t_sub (filter_time raw) (pcand_FirstObservedAt c))"
    using assms by (auto simp: Prediction_Filter_def Let_def split: if_splits option.splits)
  with that show thesis by blast
qed

text \<open>Events that took a prediction over, and the filtered observation a candidate was made from.\<close>

fun takes_over :: "timing_event \<Rightarrow> bool" where
  "takes_over (Observed ob outcome) \<longleftrightarrow> outcome \<notin> {OutcomeFiltered, OutcomeDuplicate}"
| "takes_over _ \<longleftrightarrow> False"

definition raw_of :: "observation \<Rightarrow> Prediction" where
  "raw_of ob = in_Raw (ob_Input ob)"

definition made_from :: "PredictionCandidate \<Rightarrow> observation \<Rightarrow> bool" where
  "made_from c ob \<longleftrightarrow> pcand_TETA c = pred_RawTETA (raw_of ob) \<and> pcand_FirstObservedAt c = filter_time (raw_of ob) \<and> pcand_FeederETA c = ob_Feeder ob"

definition recorded :: "timing_event list \<Rightarrow> AMANFlight \<Rightarrow> bool" where
  "recorded es f \<longleftrightarrow> (\<forall>c. pending_of f = Some c \<longrightarrow>
     (\<exists>before ob later. es = before @ Observed ob OutcomeFiltered # later \<and> \<not> list_ex takes_over later \<and>
        PathInvalidated \<notin> set later \<and> made_from c ob))"

lemma recorded_keep:
  assumes "recorded es f" "\<not> takes_over e" "e \<noteq> PathInvalidated" "\<And>c'. pending_of f' = Some c' \<Longrightarrow> \<exists>c. pending_of f = Some c \<and> (\<forall>ob. made_from c ob \<longrightarrow> made_from c' ob)"
  shows "recorded (es @ [e]) f'"
  unfolding recorded_def
proof (intro allI impI)
  fix c' assume "pending_of f' = Some c'"
  with assms(4) obtain c where c: "pending_of f = Some c" "\<And>ob. made_from c ob \<Longrightarrow> made_from c' ob" by blast
  with assms(1) obtain pre ob later where "es = pre @ Observed ob OutcomeFiltered # later" "\<not> list_ex takes_over later"
      "PathInvalidated \<notin> set later" "made_from c ob"
    unfolding recorded_def by blast
  with assms(2,3) c(2) show "\<exists>before ob later. es @ [e] = before @ Observed ob OutcomeFiltered # later \<and> \<not> list_ex takes_over later \<and>
      PathInvalidated \<notin> set later \<and> made_from c' ob"
    by (intro exI [of _ pre] exI [of _ ob] exI [of _ "later @ [e]"]) simp
qed

lemma observe_pending:
  assumes "observe config f ob = Some (f', outcome)"
  obtains g accepted where "Prediction_Filter f (raw_of ob) (ob_Feeder ob) (ob_Bypass ob) (ob_Disabled ob) = (g, accepted, outcome)"
    "pending_of f' = pending_of g"
  using assms
  by (auto simp: observe_def raw_of_def pending_of_def dest!: reduce_filter split: prod.splits if_splits option.splits sum.splits)

lemma recorded_step:
  assumes "timing_step config f e f'" "recorded es f"
  shows "recorded (es @ [e]) f'"
  using assms(1)
proof (cases rule: timing_step.cases)
  case (Observe ob outcome)
  from Observe(2) obtain g accepted where
    g: "Prediction_Filter f (raw_of ob) (ob_Feeder ob) (ob_Bypass ob) (ob_Disabled ob) = (g, accepted, outcome)" "pending_of f' = pending_of g"
    by (rule observe_pending)
  from g(1) show ?thesis
  proof (cases rule: filter_outcomes)
    case taken
    with g(2) show ?thesis by (simp add: recorded_def)
  next
    case duplicate
    with Observe(1) g(2) show ?thesis by (intro recorded_keep [OF assms(2)]) (auto dest: sym)
  next
    case (kept c)
    with Observe(1) g(2) show ?thesis by (intro recorded_keep [OF assms(2)]) (auto simp: made_from_def)
  next
    case fresh
    then have "made_from (new_candidate (pending_of f) (raw_of ob) (ob_Feeder ob)) ob" by (simp add: made_from_def new_candidate_def)
    with fresh Observe(1) g(2) show ?thesis
      unfolding recorded_def by (intro allI impI exI [of _ es] exI [of _ ob] exI [of _ "[]"]) simp
  qed
next
  case (Expire now)
  then show ?thesis by (intro recorded_keep [OF assms(2)]) auto
next
  case Invalidate
  then show ?thesis by (simp add: recorded_def pending_of_def invalidateRunwayPath_def)
next
  case Change
  then show ?thesis by (intro recorded_keep [OF assms(2)]) (auto simp: pending_of_def)
qed

lemma recorded_run:
  assumes "runs (timing_step config) f es f'" "pending_of f = None"
  shows "recorded es f'"
  using assms(1)
proof (induction es arbitrary: f' rule: rev_induct)
  case Nil
  with assms(2) show ?case by (simp add: recorded_def)
next
  case (snoc e es)
  then obtain g where "runs (timing_step config) f es g" "timing_step config g e f'"
    by (auto simp: runs_append_iff runs_Cons_iff)
  with snoc.IH recorded_step show ?case by blast
qed

section \<open>Overdue spikes\<close>

definition unreliable :: "AMANFlight \<Rightarrow> bool" where
  "unreliable f \<longleftrightarrow> (\<forall>p. f_Prediction f = Some p \<longrightarrow> \<not> pred_Publishable p \<and> pred_DegradationReason p = Some UnreliablePrediction)"

lemma expirePending_unreliable:
  assumes "pf_Pending s = Some c" "SpikeMaximumAge \<le> t_sub now (pcand_Since c)"
  shows "unreliable (expirePending f s now)"
  using assms by (auto simp: expirePending_def unreliable_def)

lemma pending_since_kept:
  assumes "Prediction_Filter f raw feeder bypass disabled = (g, False, outcome)" "pending_of f = Some c"
  obtains c' where "pending_of g = Some c'" "pcand_Since c' = pcand_Since c"
  using assms(1) by (cases rule: filter_outcomes) (use assms(2) that in \<open>auto simp: new_candidate_def\<close>)

text \<open>
  While no prediction is taken over, the published one is withdrawn as soon as the spike has been
  pending for two minutes.
\<close>

lemma overdue_spike_is_withdrawn:
  assumes "Prediction_Filter f raw feeder bypass disabled = (g, False, outcome)" "pending_of f = Some c"
    "SpikeMaximumAge \<le> t_sub (pred_GeneratedAt raw) (pcand_Since c)"
  shows "unreliable g"
proof -
  from assms(1,2) obtain c' where c': "pending_of g = Some c'" "pcand_Since c' = pcand_Since c" by (rule pending_since_kept)
  from assms(1) obtain s where "g = expirePending f s (pred_GeneratedAt raw)"
    by (auto simp: Prediction_Filter_def Let_def split: if_splits option.splits)
  with c' assms(3) show ?thesis by (simp add: expirePending_unreliable)
qed

section \<open>Property\<close>

text \<open>
  The specification speaks of the times themselves: an estimate is near the current one if both its landing time and
  its estimate for the feeder fix are, and one observation confirms another if they agree on both.
\<close>

definition current_feeder :: "AMANFlight \<Rightarrow> gotime option" where
  "current_feeder f =
     (case (if f_DerivedFeederETA f \<noteq> None then f_DerivedFeederETA f else f_FeederETA f) of
        None \<Rightarrow> None
      | Some s \<Rightarrow> (if feeder_Source s = FeederETASourceRoute then feeder_ETA s else None))"

definition times_close :: "duration \<Rightarrow> gotime option \<Rightarrow> gotime option \<Rightarrow> bool" where
  "times_close d x y \<longleftrightarrow> (\<forall>t u. x = Some t \<longrightarrow> y = Some u \<longrightarrow> \<bar>ns t - ns u\<bar> \<le> d)"

definition near_current :: "AMANFlight \<Rightarrow> Prediction \<Rightarrow> observation \<Rightarrow> bool" where
  "near_current f p ob \<longleftrightarrow>
     \<bar>ns (pred_RawTETA (raw_of ob)) - ns (pred_RawTETA p)\<bar> \<le> 3 * minute \<and> times_close (3 * minute) (ob_Feeder ob) (current_feeder f)"

definition confirms :: "observation \<Rightarrow> observation \<Rightarrow> bool" where
  "confirms ob0 ob \<longleftrightarrow>
     ns (filter_time (raw_of ob0)) + 30 * second \<le> ns (filter_time (raw_of ob)) \<and>
     ns (filter_time (raw_of ob)) \<le> ns (filter_time (raw_of ob0)) + 2 * minute \<and>
     \<bar>ns (pred_RawTETA (raw_of ob)) - ns (pred_RawTETA (raw_of ob0))\<bar> \<le> minute \<and> times_close minute (ob_Feeder ob) (ob_Feeder ob0)"

definition landing_times :: "AMANFlight \<Rightarrow> (gotime \<times> gotime) option" where
  "landing_times f = map_option (\<lambda>p. (pred_RawTETA p, pred_OperationalTETA p)) (f_Prediction f)"

lemma expirePending_landing: "landing_times (expirePending f s now) = landing_times f"
  by (auto simp: landing_times_def expirePending_def option.map_comp comp_def split: option.split)

lemma withheld_landing:
  assumes "observe config f ob = Some (f', outcome)" "\<not> takes_over (Observed ob outcome)"
  shows "landing_times f' = landing_times f"
proof -
  obtain h accepted where h: "Prediction_Filter f (raw_of ob) (ob_Feeder ob) (ob_Bypass ob) (ob_Disabled ob) = (h, accepted, outcome)"
    using assms(1) by (rule observe_pending)
  have "\<not> accepted" using h by (cases rule: filter_outcomes) (use assms(2) in simp_all)
  with assms(1) h have "f' = h" by (simp add: observe_def raw_of_def)
  moreover obtain s now where "h = expirePending f s now"
    using h \<open>\<not> accepted\<close> by (auto simp: Prediction_Filter_def Let_def split: if_splits option.splits)
  ultimately show ?thesis by (simp add: expirePending_landing)
qed

lemma not_spike: "\<not> is_spike f p (raw_of ob) (ob_Feeder ob) \<Longrightarrow> near_current f p ob"
  by (auto simp: is_spike_def near_current_def times_close_def current_feeder_def SpikeThreshold_def t_sub_def absolute_def
      split: option.splits if_splits)

text \<open>
  C33. No spike gets through unconfirmed. Whenever an observation is taken over or changes the landing times of a
  flight, then (a) the observation was exempt from the filter: by a bypass (new path, runway or state, refresh), because
  filtering is disabled, or for want of a current landing time; or (b) its landing time and its feeder
  estimate are within three minutes of the current ones; or (c) an earlier observation was filtered with a landing
  time and feeder estimate within one minute of it, thirty seconds to two minutes before it, and no
  prediction was taken over and no path invalidated in between. The run starts from a flight without a pending spike.
\<close>

theorem taken_spikes_are_confirmed:
  assumes "runs (timing_step config) f es g" "pending_of f = None" "timing_step config g (Observed ob outcome) g'"
    and "takes_over (Observed ob outcome) \<or> landing_times g' \<noteq> landing_times g"
  shows "ob_Bypass ob \<or> ob_Disabled ob \<or> f_Prediction g = None \<or>
    (\<exists>p. f_Prediction g = Some p \<and> (is_zero (pred_RawTETA p) \<or> near_current g p ob)) \<or>
    (\<exists>earlier ob0 later. es = earlier @ Observed ob0 OutcomeFiltered # later \<and>
       PathInvalidated \<notin> set later \<and> \<not> list_ex takes_over later \<and> confirms ob0 ob)"
proof (rule ccontr)
  assume none: "\<not> ?thesis"
  then obtain p where p: "\<not> ob_Bypass ob" "\<not> ob_Disabled ob" "f_Prediction g = Some p" "\<not> is_zero (pred_RawTETA p)" "\<not> near_current g p ob" by auto
  from assms(3) have o: "observe config g ob = Some (g', outcome)" by (rule observed_step)
  then obtain h accepted where h: "Prediction_Filter g (raw_of ob) (ob_Feeder ob) False False = (h, accepted, outcome)"
    by (rule observe_pending) (use p(1,2) in simp)
  have "takes_over (Observed ob outcome)" using assms(4) withheld_landing [OF o] by blast
  with h have accepted by (cases rule: filter_outcomes) simp_all
  with h have "Prediction_Filter g (raw_of ob) (ob_Feeder ob) False False = (h, True, outcome)" by simp
  from this p(3,4) show False
  proof (cases rule: filter_accepts)
    case 1
    with p(5) not_spike show False by blast
  next
    case (2 c)
    from recorded_run [OF assms(1,2)] 2(1) obtain earlier ob0 later where
      e: "es = earlier @ Observed ob0 OutcomeFiltered # later" "\<not> list_ex takes_over later" "PathInvalidated \<notin> set later" "made_from c ob0"
      unfolding recorded_def by blast
    then have "confirms ob0 ob" using 2(2,3)
      by (auto simp: confirms_def made_from_def candidate_agrees_def times_close_def t_sub_def absolute_def SpikeMinimumSpan_def
          SpikeMaximumAge_def SpikeAgreement_def split: option.splits if_splits)
    with e none show False by blast
  qed
qed

text \<open>A flight whose landing time jumps by ten minutes, seen twice within a minute.\<close>

definition sample_observation :: "duration \<Rightarrow> observation" where
  "sample_observation generated =
     \<lparr> ob_Input = routine_input (sample_raw (10 * hour + 10 * minute) generated) StateUnstable, ob_Feeder = None, ob_Bypass = False, ob_Disabled = False \<rparr>"

theorem taken_spikes_are_confirmed_witness:
  "\<exists>g g'. observe DefaultPredictionConfig sample_arrival (sample_observation (hour + minute)) = Some (g, OutcomeFiltered) \<and>
    observe DefaultPredictionConfig g (sample_observation (hour + 2 * minute)) = Some (g', OutcomeSustainedChange) \<and>
    confirms (sample_observation (hour + minute)) (sample_observation (hour + 2 * minute))"
proof -
  let ?o1 = "sample_observation (hour + minute)" and ?o2 = "sample_observation (hour + 2 * minute)"
  have "map_option snd (observe DefaultPredictionConfig sample_arrival ?o1) = Some OutcomeFiltered" by code_simp
  then obtain g where g: "observe DefaultPredictionConfig sample_arrival ?o1 = Some (g, OutcomeFiltered)" by auto
  have "(case observe DefaultPredictionConfig sample_arrival ?o1 of None \<Rightarrow> None | Some (g, _) \<Rightarrow>
      Some (map_option snd (observe DefaultPredictionConfig g ?o2), map_option pred_RawTETA (f_Prediction g))) =
      Some (Some OutcomeSustainedChange, Some (Time (10 * hour) UTC))" by code_simp
  with g obtain g' p where g': "observe DefaultPredictionConfig g ?o2 = Some (g', OutcomeSustainedChange)"
    "f_Prediction g = Some p" "pred_RawTETA p = Time (10 * hour) UTC" by auto
  have run: "runs (timing_step DefaultPredictionConfig) sample_arrival [Observed ?o1 OutcomeFiltered] g"
    using g by (simp add: runs_Cons_iff timing_step.Observe)
  have pending: "pending_of sample_arrival = None" by code_simp
  have step: "timing_step DefaultPredictionConfig g (Observed ?o2 OutcomeSustainedChange) g'" using g'(1) by (rule timing_step.Observe)
  have subject: "\<not> ob_Bypass ?o2" "\<not> ob_Disabled ?o2" by (simp_all add: sample_observation_def)
  have "\<not> is_zero (pred_RawTETA p)" using g'(3) by (simp add: is_zero_def)
  moreover have "\<not> near_current g p ?o2"
    by (simp add: near_current_def g'(3) raw_of_def sample_observation_def routine_input_def sample_raw_def)
  ultimately have "confirms ?o1 ?o2"
    using taken_spikes_are_confirmed [OF run pending step] subject g'(2) by (auto simp: Cons_eq_append_conv)
  with g g'(1) show ?thesis by blast
qed

end
