(* ===== verification/Aman_EtaReview.thy ===== *)
theory Aman_EtaReview
  imports Aman_Prediction
begin

text \<open>
  The review of the first calculated landing time against the flight-plan baseline
  (\<^verbatim>\<open>internal/aman/etareview/reducer.go\<close>): it opens when the two differ by more than a threshold, a
  controller resolves it before its deadline or it is accepted automatically at the deadline, and a
  resolved review can be reset.
\<close>

section \<open>Configuration, commands and results\<close>

record ReviewConfig =
  rc_DiscrepancyThreshold :: duration
  rc_ReviewDeadline :: duration

definition review_invalidArgument :: "string \<Rightarrow> domain_error" where
  "review_invalidArgument msg = DomainError ErrorInvalidArgument msg"

definition review_invalidTransition :: "string \<Rightarrow> domain_error" where
  "review_invalidTransition msg = DomainError ErrorInvalidTransition (''ETA review: '' @ msg)"

definition ReviewConfig_Validate :: "ReviewConfig \<Rightarrow> domain_error + unit" where
  "ReviewConfig_Validate c =
     and_then (ensure (\<not> rc_DiscrepancyThreshold c < 0) (review_invalidArgument ''ETA review discrepancy threshold cannot be negative''))
     (ensure (\<not> rc_ReviewDeadline c \<le> 0) (review_invalidArgument ''ETA review deadline must be greater than zero''))"

text \<open>\<^verbatim>\<open>AcceptCalculated\<close>, \<^verbatim>\<open>KeepInitial\<close> and \<^verbatim>\<open>Reset\<close> have the same fields; \<^verbatim>\<open>SetManual\<close> has one more.\<close>

record ReviewCommand =
  cmd_At :: gotime
  cmd_Actor :: string
  cmd_Note :: "string option"

record SetManualCommand = ReviewCommand +
  cmd_ManualTETA :: gotime

record ReviewResult =
  rr_Flight :: AMANFlight
  rr_Changed :: bool

section \<open>Checks\<close>

definition validActionTime :: "gotime \<Rightarrow> gotime \<Rightarrow> domain_error + unit" where
  "validActionTime tm previous =
     ensure (\<not> (is_zero tm \<or> loc tm \<noteq> UTC \<or> before tm previous)) (review_invalidArgument ''ETA review action time is invalid'')"

definition validActorCommand :: "gotime \<Rightarrow> gotime \<Rightarrow> string \<Rightarrow> string option \<Rightarrow> domain_error + unit" where
  "validActorCommand tm previous actor note =
     and_then (validActionTime tm previous)
     (and_then (ensure (\<not> (trim_space actor = '''' \<or> actor \<noteq> trim_space actor)) (review_invalidArgument ''ETA review actor is required''))
     (require_opt (\<lambda>n. ensure (\<not> (trim_space n = '''' \<or> n \<noteq> trim_space n)) (review_invalidArgument ''ETA review note must be trimmed and non-empty'')) note))"

definition pendingReview :: "AMANFlight \<Rightarrow> 'a ReviewCommand_scheme \<Rightarrow> domain_error + ETAReview" where
  "pendingReview flight command =
     (case validActorCommand (cmd_At command) (f_UpdatedAt flight) (cmd_Actor command) (cmd_Note command) of
        Inl e \<Rightarrow> Inl e
      | Inr _ \<Rightarrow>
          (case f_ETAReview flight of
             None \<Rightarrow> Inl (review_invalidTransition ''ETA review resolution requires a pending review'')
           | Some r \<Rightarrow>
               (if review_Status r \<noteq> ReviewPending then Inl (review_invalidTransition ''ETA review resolution requires a pending review'')
                else if \<not> before (cmd_At command) (review_DeadlineAt r) then Inl (review_invalidTransition ''ETA review deadline has elapsed'')
                else Inr r)))"

definition resolveByActor :: "ETAReview \<Rightarrow> 'a ReviewCommand_scheme \<Rightarrow> ETAReview" where
  "resolveByActor r command =
     r\<lparr> review_ResolvedAt := Some (cmd_At command), review_Actor := Some (cmd_Actor command), review_Note := cmd_Note command \<rparr>"

section \<open>Operations\<close>

definition Review_Open :: "ReviewConfig \<Rightarrow> AMANFlight \<Rightarrow> gotime \<Rightarrow> domain_error + ReviewResult" where
  "Review_Open config flight createdAt =
     (case and_then (ReviewConfig_Validate config) (validActionTime createdAt (f_UpdatedAt flight)) of
        Inl e \<Rightarrow> Inl e
      | Inr _ \<Rightarrow>
          (let unchanged = Inr \<lparr> rr_Flight = flight, rr_Changed = False \<rparr> in
           if (case f_ETAReview flight of None \<Rightarrow> False | Some r \<Rightarrow> review_Status r \<noteq> ReviewNone) then unchanged
           else (case (f_ArrivalBaseline flight, f_Prediction flight) of
               (Some b, Some p) \<Rightarrow>
                 (if f_State flight \<noteq> StateUnstable \<or> f_DataStatus flight \<noteq> DataFresh \<or> pred_OperationalReason p \<noteq> OperationalReasonFirstUnstable
                  then unchanged
                  else if absolute (t_sub (pred_OperationalTETA p) (base_ArrivalAt b)) \<le> rc_DiscrepancyThreshold config then unchanged
                  else Inr \<lparr> rr_Flight = flight\<lparr> f_ETAReview := Some
                         \<lparr> review_Status = ReviewPending, review_CreatedAt = createdAt,
                           review_DeadlineAt = t_add createdAt (rc_ReviewDeadline config), review_ResolvedAt = None,
                           review_Actor = None, review_Note = None, review_InitialBaselineTETA = base_ArrivalAt b,
                           review_CalculatedOperationalTETA = pred_OperationalTETA p,
                           review_SelectedTETA = pred_OperationalTETA p, review_ManualTETA = None \<rparr>,
                         f_UpdatedAt := createdAt \<rparr>, rr_Changed = True \<rparr>)
             | _ \<Rightarrow> unchanged)))"

definition ResolveAcceptCalculated :: "AMANFlight \<Rightarrow> ReviewCommand \<Rightarrow> domain_error + ReviewResult" where
  "ResolveAcceptCalculated flight command =
     (case pendingReview flight command of Inl e \<Rightarrow> Inl e
      | Inr r \<Rightarrow>
          (let r = resolveByActor (r\<lparr> review_Status := ReviewAcceptedCalculatedTETA,
                 review_SelectedTETA := review_CalculatedOperationalTETA r \<rparr>) command in
           Inr \<lparr> rr_Flight = flight\<lparr> f_ETAReview := Some r, f_UpdatedAt := cmd_At command \<rparr>, rr_Changed = True \<rparr>))"

definition ResolveKeepInitial :: "AMANFlight \<Rightarrow> ReviewCommand \<Rightarrow> domain_error + ReviewResult" where
  "ResolveKeepInitial flight command =
     (case pendingReview flight command of Inl e \<Rightarrow> Inl e
      | Inr r \<Rightarrow> (case ApplyManualOperationalTETA flight (review_InitialBaselineTETA r) (cmd_At command) of Inl e \<Rightarrow> Inl e
         | Inr updated \<Rightarrow>
             (let r = resolveByActor (r\<lparr> review_Status := ReviewKeptInitialFPLETA,
                    review_SelectedTETA := review_InitialBaselineTETA r \<rparr>) command in
              Inr \<lparr> rr_Flight = updated\<lparr> f_ETAReview := Some r \<rparr>, rr_Changed = True \<rparr>)))"

definition ResolveSetManual :: "AMANFlight \<Rightarrow> SetManualCommand \<Rightarrow> domain_error + ReviewResult" where
  "ResolveSetManual flight command =
     (case pendingReview flight command of Inl e \<Rightarrow> Inl e
      | Inr r \<Rightarrow> (case ApplyManualOperationalTETA flight (cmd_ManualTETA command) (cmd_At command) of Inl e \<Rightarrow> Inl e
         | Inr updated \<Rightarrow>
             (let r = resolveByActor (r\<lparr> review_Status := ReviewManualETA, review_SelectedTETA := cmd_ManualTETA command,
                    review_ManualTETA := Some (cmd_ManualTETA command) \<rparr>) command in
              Inr \<lparr> rr_Flight = updated\<lparr> f_ETAReview := Some r \<rparr>, rr_Changed = True \<rparr>)))"

definition AutoAccept :: "AMANFlight \<Rightarrow> gotime \<Rightarrow> domain_error + ReviewResult" where
  "AutoAccept flight observedAt =
     (case validActionTime observedAt (f_UpdatedAt flight) of Inl e \<Rightarrow> Inl e
      | Inr _ \<Rightarrow>
          (let unchanged = Inr \<lparr> rr_Flight = flight, rr_Changed = False \<rparr> in
           case f_ETAReview flight of None \<Rightarrow> unchanged
           | Some r \<Rightarrow>
               (if review_Status r \<noteq> ReviewPending \<or> before observedAt (review_DeadlineAt r) then unchanged
                else Inr \<lparr> rr_Flight = flight\<lparr> f_ETAReview := Some (r\<lparr> review_ResolvedAt := Some (review_DeadlineAt r),
                         review_Status := ReviewAutoAcceptedCalculatedTETA,
                         review_SelectedTETA := review_CalculatedOperationalTETA r \<rparr>), f_UpdatedAt := observedAt \<rparr>,
                       rr_Changed = True \<rparr>)))"

definition ResolveReset :: "PredictionConfig \<Rightarrow> AMANFlight \<Rightarrow> ReviewCommand \<Rightarrow> (prediction_error + ReviewResult) option" where
  "ResolveReset config flight command =
     (case validActorCommand (cmd_At command) (f_UpdatedAt flight) (cmd_Actor command) (cmd_Note command) of
        Inl e \<Rightarrow> Some (Inl (PredictionDomainError e))
      | Inr _ \<Rightarrow>
          (if (case f_ETAReview flight of None \<Rightarrow> True | Some r \<Rightarrow> review_Status r = ReviewNone \<or> review_Status r = ReviewPending)
           then Some (Inl (PredictionDomainError (review_invalidTransition ''ETA review reset requires a resolved review'')))
           else if f_FreezeReason flight = FreezeManual
           then map_option (\<lambda>x. case x of Inl e \<Rightarrow> Inl e
               | Inr updated \<Rightarrow> Inr \<lparr> rr_Flight = updated\<lparr> f_ETAReview := None \<rparr>, rr_Changed = True \<rparr>)
               (ReleaseManualOperationalTETA config flight (cmd_At command))
           else Some (Inr \<lparr> rr_Flight = flight\<lparr> f_UpdatedAt := cmd_At command, f_ETAReview := None \<rparr>, rr_Changed = True \<rparr>)))"

section \<open>Reviews stay valid\<close>

text \<open>
  The review checks of \<^verbatim>\<open>AMANFlight.Validate\<close>, and that a review was created no later than the last
  update of the flight.
\<close>

definition review_sound :: "AMANFlight \<Rightarrow> bool" where
  "review_sound f \<longleftrightarrow> timing_fields_valid f \<and> validateReview f = Inr () \<and>
     opt_all (\<lambda>b. valid_utc (base_ArrivalAt b)) (f_ArrivalBaseline f) \<and>
     opt_all (\<lambda>r. review_Status r \<noteq> ReviewNone \<longrightarrow> \<not> after (review_CreatedAt r) (f_UpdatedAt f)) (f_ETAReview f)"

lemma validActorCommand_Inr [simp]:
  "validActorCommand tm previous actor note = Inr () \<longleftrightarrow>
     valid_utc tm \<and> \<not> before tm previous \<and> trimmed_non_empty actor \<and> opt_all trimmed_non_empty note"
  by (cases "note") (auto simp: validActorCommand_def validActionTime_def trimmed_non_empty_def valid_utc_def require_opt_def)

lemma pendingReview_Inr:
  "pendingReview f c = Inr r \<longleftrightarrow>
     validActorCommand (cmd_At c) (f_UpdatedAt f) (cmd_Actor c) (cmd_Note c) = Inr () \<and> f_ETAReview f = Some r \<and>
     review_Status r = ReviewPending \<and> before (cmd_At c) (review_DeadlineAt r)"
  by (auto simp: pendingReview_def simp del: validActorCommand_Inr split: sum.splits option.splits)

lemma pending_valid:
  assumes "ETAReview_Validate r = Inr ()" "review_Status r = ReviewPending"
  shows "valid_utc (review_CreatedAt r)" "valid_utc (review_DeadlineAt r)" "valid_utc (review_InitialBaselineTETA r)"
    "valid_utc (review_CalculatedOperationalTETA r)" "valid_utc (review_SelectedTETA r)" "after (review_DeadlineAt r) (review_CreatedAt r)"
    "review_ResolvedAt r = None" "review_Actor r = None" "review_Note r = None" "review_ManualTETA r = None"
  using assms by (simp_all add: ETAReview_Validate_def)

lemma pending_review_sound:
  assumes "review_sound f" "pendingReview f c = Inr r"
  obtains "ETAReview_Validate r = Inr ()" "timing_fields_valid f" "review_Status r = ReviewPending"
    "\<not> before (cmd_At c) (review_CreatedAt r)" "before (cmd_At c) (review_DeadlineAt r)" "valid_utc (cmd_At c)"
    "trimmed_non_empty (cmd_Actor c)" "opt_all trimmed_non_empty (cmd_Note c)"
    "\<exists>b. f_ArrivalBaseline f = Some b \<and> t_equal (base_ArrivalAt b) (review_InitialBaselineTETA r)"
proof -
  from assms(2) have p: "valid_utc (cmd_At c)" "\<not> before (cmd_At c) (f_UpdatedAt f)" "trimmed_non_empty (cmd_Actor c)"
    "opt_all trimmed_non_empty (cmd_Note c)" "f_ETAReview f = Some r" "review_Status r = ReviewPending" "before (cmd_At c) (review_DeadlineAt r)"
    by (simp_all add: pendingReview_Inr)
  from assms(1) p(5,6) have "timing_fields_valid f" "ETAReview_Validate r = Inr ()" "\<not> after (review_CreatedAt r) (f_UpdatedAt f)"
    "\<exists>b. f_ArrivalBaseline f = Some b \<and> t_equal (base_ArrivalAt b) (review_InitialBaselineTETA r)"
    by (auto simp: review_sound_def validateReview_def split: option.splits)
  with p that show thesis by (auto simp: go_time)
qed

text \<open>A review that an actor resolved with a time of the resolution's kind.\<close>

lemma resolved_valid:
  assumes "ETAReview_Validate r = Inr ()" "review_Status r = ReviewPending" "\<not> before (cmd_At c) (review_CreatedAt r)"
    "before (cmd_At c) (review_DeadlineAt r)" "valid_utc (cmd_At c)" "trimmed_non_empty (cmd_Actor c)" "opt_all trimmed_non_empty (cmd_Note c)"
    "status = ReviewAcceptedCalculatedTETA \<and> selected = review_CalculatedOperationalTETA r \<and> manual = None \<or>
     status = ReviewKeptInitialFPLETA \<and> selected = review_InitialBaselineTETA r \<and> manual = None \<or>
     status = ReviewManualETA \<and> manual = Some selected \<and> valid_utc selected"
  shows "ETAReview_Validate (resolveByActor (r\<lparr> review_Status := status, review_SelectedTETA := selected, review_ManualTETA := manual \<rparr>) c) = Inr ()"
  using assms(3-8) pending_valid [OF assms(1,2)]
  by (cases "cmd_Note c")
    (auto simp: ETAReview_Validate_def ETAReview_Validate_resolved_def resolveByActor_def validReviewActor_def require_opt_def t_equal_def)

lemma review_soundI:
  assumes "timing_fields_valid g" "ETAReview_Validate r = Inr ()" "opt_all (\<lambda>b. valid_utc (base_ArrivalAt b)) (f_ArrivalBaseline g)"
    "\<exists>b. f_ArrivalBaseline g = Some b \<and> t_equal (base_ArrivalAt b) (review_InitialBaselineTETA r)"
    "\<not> after (review_CreatedAt r) (f_UpdatedAt g)" "f_ETAReview g = Some r"
  shows "review_sound g"
  using assms by (auto simp: review_sound_def validateReview_def)

lemma timing_fields_valid_review:
  assumes "timing_fields_valid f"
  shows "timing_fields_valid (f\<lparr> f_ETAReview := x \<rparr>)" "valid_utc t \<Longrightarrow> timing_fields_valid (f\<lparr> f_ETAReview := x, f_UpdatedAt := t \<rparr>)"
    "valid_utc t \<Longrightarrow> timing_fields_valid (f\<lparr> f_UpdatedAt := t, f_ETAReview := x \<rparr>)"
proof -
  have "validateFreeze (f\<lparr> f_ETAReview := x \<rparr>) = Inr ()" "validateFreeze (f\<lparr> f_ETAReview := x, f_UpdatedAt := t \<rparr>) = Inr ()"
    "validateFreeze (f\<lparr> f_UpdatedAt := t, f_ETAReview := x \<rparr>) = Inr ()"
    using assms by (auto simp: timing_fields_valid_def intro: validateFreeze_cong [of _ f])
  with assms show "timing_fields_valid (f\<lparr> f_ETAReview := x \<rparr>)" "valid_utc t \<Longrightarrow> timing_fields_valid (f\<lparr> f_ETAReview := x, f_UpdatedAt := t \<rparr>)"
    "valid_utc t \<Longrightarrow> timing_fields_valid (f\<lparr> f_UpdatedAt := t, f_ETAReview := x \<rparr>)" by (simp_all add: timing_fields_valid_def)
qed

lemma apply_manual_fields:
  assumes "ApplyManualOperationalTETA f t actionAt = Inr g"
  shows "f_ArrivalBaseline g = f_ArrivalBaseline f" "f_UpdatedAt g = actionAt" "valid_utc t" "f_FreezeReason g = FreezeManual"
    "f_FrozenOperationalTETA g = Some t" "opt_all (\<lambda>p. pred_OperationalTETA p = t) (f_Prediction g)" "f_ETAReview g = f_ETAReview f"
  using assms by (auto simp: ApplyManualOperationalTETA_def setOperational_def valid_utc_def split: option.splits if_splits)

lemma open_sound:
  assumes "review_sound f" "timely createdAt" "Review_Open config f createdAt = Inr res"
  shows "review_sound (rr_Flight res)"
proof (cases "rr_Changed res")
  case True
  with assms(3) obtain b p where o: "ReviewConfig_Validate config = Inr ()" "valid_utc createdAt" "f_ArrivalBaseline f = Some b"
    "f_Prediction f = Some p" "rr_Flight res = f\<lparr> f_ETAReview := Some
        \<lparr> review_Status = ReviewPending, review_CreatedAt = createdAt, review_DeadlineAt = t_add createdAt (rc_ReviewDeadline config),
          review_ResolvedAt = None, review_Actor = None, review_Note = None, review_InitialBaselineTETA = base_ArrivalAt b,
          review_CalculatedOperationalTETA = pred_OperationalTETA p, review_SelectedTETA = pred_OperationalTETA p,
          review_ManualTETA = None \<rparr>, f_UpdatedAt := createdAt \<rparr>"
    by (auto simp: Review_Open_def validActionTime_def valid_utc_def Let_def split: sum.splits option.splits if_splits)
  note f = assms(1) [unfolded review_sound_def]
  have "prediction_sound p" "valid_utc (base_ArrivalAt b)" using f o(3,4) by (simp_all add: timing_fields_valid_def)
  moreover have "0 < rc_ReviewDeadline config" using o(1) by (simp add: ReviewConfig_Validate_def)
  ultimately show ?thesis unfolding o(5) using f assms(2) o(3)
    by (intro review_soundI timing_fields_valid_review)
      (simp_all add: ETAReview_Validate_def require_opt_def t_equal_def timely_valid prediction_sound_def after_def t_add_def timely_def valid_utc_def is_zero_def)
next
  case False
  with assms show ?thesis by (auto simp: Review_Open_def Let_def split: sum.splits option.splits if_splits)
qed

lemma accept_sound:
  assumes "review_sound f" "ResolveAcceptCalculated f c = Inr res"
  shows "review_sound (rr_Flight res)"
proof -
  from assms(2) obtain r where r: "pendingReview f c = Inr r"
    "rr_Flight res = f\<lparr> f_ETAReview := Some (resolveByActor (r\<lparr> review_Status := ReviewAcceptedCalculatedTETA,
        review_SelectedTETA := review_CalculatedOperationalTETA r \<rparr>) c), f_UpdatedAt := cmd_At c \<rparr>"
    by (auto simp: ResolveAcceptCalculated_def Let_def split: sum.splits)
  from pending_review_sound [OF assms(1) r(1)] show ?thesis
  proof cases
    case 1
    have "r\<lparr> review_Status := ReviewAcceptedCalculatedTETA, review_SelectedTETA := review_CalculatedOperationalTETA r, review_ManualTETA := None \<rparr> =
        r\<lparr> review_Status := ReviewAcceptedCalculatedTETA, review_SelectedTETA := review_CalculatedOperationalTETA r \<rparr>"
      using pending_valid(10) [OF 1(1,3)] by simp
    with resolved_valid [OF 1(1,3-8), of ReviewAcceptedCalculatedTETA "review_CalculatedOperationalTETA r" None]
    have "ETAReview_Validate (resolveByActor (r\<lparr> review_Status := ReviewAcceptedCalculatedTETA,
        review_SelectedTETA := review_CalculatedOperationalTETA r \<rparr>) c) = Inr ()" by simp
    with 1 assms(1) show ?thesis unfolding r(2)
      by (intro review_soundI timing_fields_valid_review) (auto simp: resolveByActor_def review_sound_def go_time)
  qed
qed

lemma manual_review_sound:
  assumes "review_sound f" "pendingReview f c = Inr r" "timely (cmd_At c)" "ApplyManualOperationalTETA f selected (cmd_At c) = Inr g"
    "status = ReviewKeptInitialFPLETA \<and> selected = review_InitialBaselineTETA r \<and> manual = None \<or>
     status = ReviewManualETA \<and> manual = Some selected"
  shows "review_sound (g\<lparr> f_ETAReview := Some (resolveByActor (r\<lparr> review_Status := status, review_SelectedTETA := selected,
    review_ManualTETA := manual \<rparr>) c) \<rparr>)"
  using assms(1,2)
proof (rule pending_review_sound)
  assume 1: "ETAReview_Validate r = Inr ()" "timing_fields_valid f" "review_Status r = ReviewPending"
    "\<not> before (cmd_At c) (review_CreatedAt r)" "before (cmd_At c) (review_DeadlineAt r)" "valid_utc (cmd_At c)"
    "trimmed_non_empty (cmd_Actor c)" "opt_all trimmed_non_empty (cmd_Note c)"
    "\<exists>b. f_ArrivalBaseline f = Some b \<and> t_equal (base_ArrivalAt b) (review_InitialBaselineTETA r)"
  note g = apply_manual_fields [OF assms(4)]
  have "ETAReview_Validate (resolveByActor (r\<lparr> review_Status := status, review_SelectedTETA := selected, review_ManualTETA := manual \<rparr>) c) = Inr ()"
    using assms(5) g(3) by (intro resolved_valid [OF 1(1,3-8)]) auto
  with 1 assms(1) g apply_manual_sound [OF 1(2) assms(3,4)] show ?thesis
    by (intro review_soundI timing_fields_valid_review) (auto simp: resolveByActor_def review_sound_def go_time)
qed

lemma keep_initial_cases:
  assumes "ResolveKeepInitial f c = Inr res"
  obtains r g where "pendingReview f c = Inr r" "ApplyManualOperationalTETA f (review_InitialBaselineTETA r) (cmd_At c) = Inr g"
    "rr_Flight res = g\<lparr> f_ETAReview := Some (resolveByActor (r\<lparr> review_Status := ReviewKeptInitialFPLETA,
        review_SelectedTETA := review_InitialBaselineTETA r \<rparr>) c) \<rparr>"
  using assms by (auto simp: ResolveKeepInitial_def Let_def split: sum.splits)

lemma set_manual_cases:
  assumes "ResolveSetManual f c = Inr res"
  obtains r g where "pendingReview f c = Inr r" "ApplyManualOperationalTETA f (cmd_ManualTETA c) (cmd_At c) = Inr g"
    "rr_Flight res = g\<lparr> f_ETAReview := Some (resolveByActor (r\<lparr> review_Status := ReviewManualETA, review_SelectedTETA := cmd_ManualTETA c,
        review_ManualTETA := Some (cmd_ManualTETA c) \<rparr>) c) \<rparr>"
  using assms by (auto simp: ResolveSetManual_def Let_def split: sum.splits)

lemma keep_sound:
  assumes "review_sound f" "timely (cmd_At c)" "ResolveKeepInitial f c = Inr res"
  shows "review_sound (rr_Flight res)"
proof -
  from assms(3) obtain r g where r: "pendingReview f c = Inr r" "ApplyManualOperationalTETA f (review_InitialBaselineTETA r) (cmd_At c) = Inr g"
    "rr_Flight res = g\<lparr> f_ETAReview := Some (resolveByActor (r\<lparr> review_Status := ReviewKeptInitialFPLETA,
        review_SelectedTETA := review_InitialBaselineTETA r \<rparr>) c) \<rparr>"
    by (rule keep_initial_cases)
  have "review_ManualTETA r = None"
    using pending_valid(10) assms(1) r(1) by (auto simp: pendingReview_Inr review_sound_def validateReview_def)
  then have "r\<lparr> review_Status := ReviewKeptInitialFPLETA, review_SelectedTETA := review_InitialBaselineTETA r, review_ManualTETA := None \<rparr> =
      r\<lparr> review_Status := ReviewKeptInitialFPLETA, review_SelectedTETA := review_InitialBaselineTETA r \<rparr>" by simp
  with manual_review_sound [OF assms(1) r(1) assms(2) r(2), of ReviewKeptInitialFPLETA None] show ?thesis by (simp add: r(3))
qed

lemma set_manual_sound:
  assumes "review_sound f" "timely (cmd_At c)" "ResolveSetManual f c = Inr res"
  shows "review_sound (rr_Flight res)"
proof -
  from assms(3) obtain r g where r: "pendingReview f c = Inr r" "ApplyManualOperationalTETA f (cmd_ManualTETA c) (cmd_At c) = Inr g"
    "rr_Flight res = g\<lparr> f_ETAReview := Some (resolveByActor (r\<lparr> review_Status := ReviewManualETA, review_SelectedTETA := cmd_ManualTETA c,
        review_ManualTETA := Some (cmd_ManualTETA c) \<rparr>) c) \<rparr>"
    by (rule set_manual_cases)
  from manual_review_sound [OF assms(1) r(1) assms(2) r(2), of ReviewManualETA "Some (cmd_ManualTETA c)"] show ?thesis by (simp add: r(3))
qed

lemma auto_accept_sound:
  assumes "review_sound f" "AutoAccept f observedAt = Inr res"
  shows "review_sound (rr_Flight res)"
proof (cases "rr_Changed res")
  case True
  with assms(2) obtain r where r: "f_ETAReview f = Some r" "review_Status r = ReviewPending" "\<not> before observedAt (review_DeadlineAt r)" "valid_utc observedAt"
    "rr_Flight res = f\<lparr> f_ETAReview := Some (r\<lparr> review_ResolvedAt := Some (review_DeadlineAt r), review_Status := ReviewAutoAcceptedCalculatedTETA,
        review_SelectedTETA := review_CalculatedOperationalTETA r \<rparr>), f_UpdatedAt := observedAt \<rparr>"
    by (auto simp: AutoAccept_def validActionTime_def valid_utc_def Let_def split: sum.splits option.splits if_splits)
  from assms(1) r(1,2) have f: "timing_fields_valid f" "ETAReview_Validate r = Inr ()" "opt_all (\<lambda>b. valid_utc (base_ArrivalAt b)) (f_ArrivalBaseline f)"
    "\<exists>b. f_ArrivalBaseline f = Some b \<and> t_equal (base_ArrivalAt b) (review_InitialBaselineTETA r)"
    by (auto simp: review_sound_def validateReview_def split: option.splits)
  note p = pending_valid [OF f(2) r(2)]
  then have "ETAReview_Validate (r\<lparr> review_ResolvedAt := Some (review_DeadlineAt r), review_Status := ReviewAutoAcceptedCalculatedTETA,
      review_SelectedTETA := review_CalculatedOperationalTETA r \<rparr>) = Inr ()"
    by (simp add: ETAReview_Validate_def ETAReview_Validate_resolved_def require_opt_def go_time)
  with f p r show ?thesis unfolding r(5) by (intro review_soundI timing_fields_valid_review) (auto simp: go_time)
next
  case False
  with assms show ?thesis by (auto simp: AutoAccept_def Let_def split: sum.splits option.splits if_splits)
qed

lemma reset_sound:
  assumes "review_sound f" "timely (cmd_At c)" "ResolveReset config f c = Some (Inr res)"
  shows "review_sound (rr_Flight res) \<and> f_ETAReview (rr_Flight res) = None"
proof (cases "f_FreezeReason f = FreezeManual")
  case True
  with assms(3) obtain g where g: "ReleaseManualOperationalTETA config f (cmd_At c) = Some (Inr g)" "rr_Flight res = g\<lparr> f_ETAReview := None \<rparr>"
    by (cases "ReleaseManualOperationalTETA config f (cmd_At c)")
      (auto simp: ResolveReset_def split: sum.splits if_splits option.splits sum.split_asm elim: sumE)
  from assms(1) release_manual_sound [OF _ assms(2), of f config] g(1) have "timing_fields_valid g" by (auto simp: review_sound_def)
  moreover have "f_ArrivalBaseline g = f_ArrivalBaseline f"
    using g(1) by (auto simp: ReleaseManualOperationalTETA_def setOperational_def clearFreeze_def split: if_splits sum.splits option.splits)
  ultimately show ?thesis using assms(1) timing_fields_valid_review(1) g(2) by (simp add: review_sound_def validateReview_def)
next
  case False
  with assms(3) have "rr_Flight res = f\<lparr> f_UpdatedAt := cmd_At c, f_ETAReview := None \<rparr>" "valid_utc (cmd_At c)"
    by (auto simp: ResolveReset_def simp del: validActorCommand_Inr split: sum.splits if_splits option.splits) (simp add: assms(2) timely_valid)
  with assms(1) timing_fields_valid_review(3) show ?thesis by (simp add: review_sound_def validateReview_def)
qed

section \<open>Reviews and predictions together\<close>

lemma setOperational_review [simp]: "f_ETAReview (setOperational f raw t r) = f_ETAReview f"
  by (simp add: setOperational_def)

lemma clearFreeze_review [simp]: "f_ETAReview (clearFreeze f) = f_ETAReview f"
  by (simp add: clearFreeze_def)

lemma routine_update_review: "routine_update config f s i = Some g \<Longrightarrow> f_ETAReview g = f_ETAReview f \<and> f_Prediction g \<noteq> None"
  by (auto simp: routine_update_def Let_def split: option.splits if_splits)

lemma reduced_flight_review: "reduced_flight config f i = Some g \<Longrightarrow> f_ETAReview g = f_ETAReview f \<and> f_Prediction g \<noteq> None"
  by (auto simp: reduced_flight_def Let_def go_around_def freeze_for_tma_def manual_override_def sampled_def
      dest: routine_update_review split: option.splits if_splits)

lemma prediction_step_review:
  assumes "prediction_step config f i f'"
  shows "f_ETAReview f' = f_ETAReview f" "f_Prediction f \<noteq> None \<Longrightarrow> f_Prediction f' \<noteq> None"
proof -
  from assms obtain r where r: "Prediction_Reduce config f i = Some (Inr r)" "out_Flight r = f'" by (auto simp: prediction_step_def)
  then have "f_ETAReview f' = f_ETAReview f \<and> (f_Prediction f \<noteq> None \<longrightarrow> f_Prediction f' \<noteq> None)"
    by (cases rule: reduce_accepts) (auto dest: reduced_flight_review)
  then show "f_ETAReview f' = f_ETAReview f" "f_Prediction f \<noteq> None \<Longrightarrow> f_Prediction f' \<noteq> None" by simp_all
qed

datatype review_event = Opened ReviewConfig gotime | Accepted ReviewCommand | Kept ReviewCommand | SetTo SetManualCommand
  | AutoAccepted gotime | Predicted PredictionConfig PredictionInput

text \<open>Every operation but the reset, and every prediction that does not release a freeze.\<close>

inductive governed_step :: "AMANFlight \<Rightarrow> review_event \<Rightarrow> AMANFlight \<Rightarrow> bool" where
  "Review_Open config f tm = Inr res \<Longrightarrow> governed_step f (Opened config tm) (rr_Flight res)"
| "ResolveAcceptCalculated f c = Inr res \<Longrightarrow> governed_step f (Accepted c) (rr_Flight res)"
| "ResolveKeepInitial f c = Inr res \<Longrightarrow> governed_step f (Kept c) (rr_Flight res)"
| "ResolveSetManual f m = Inr res \<Longrightarrow> governed_step f (SetTo m) (rr_Flight res)"
| "AutoAccept f tm = Inr res \<Longrightarrow> governed_step f (AutoAccepted tm) (rr_Flight res)"
| "unreleased_step pconfig f i f' \<Longrightarrow> governed_step f (Predicted pconfig i) f'"

definition governs :: "gotime \<Rightarrow> ETAReviewStatus \<Rightarrow> AMANFlight \<Rightarrow> bool" where
  "governs t status f \<longleftrightarrow> status \<in> {ReviewKeptInitialFPLETA, ReviewManualETA} \<and>
     (\<exists>r. f_ETAReview f = Some r \<and> review_Status r = status \<and> review_SelectedTETA r = t) \<and> f_Prediction f \<noteq> None \<and> held_at t None f"

lemma governs_unchanged:
  assumes "governs t status f"
  shows "Review_Open config f tm = Inr res \<Longrightarrow> rr_Flight res = f" "AutoAccept f tm = Inr res \<Longrightarrow> rr_Flight res = f"
    "pendingReview f c \<noteq> Inr r"
  using assms by (auto simp: governs_def Review_Open_def AutoAccept_def pendingReview_Inr Let_def split: sum.splits option.splits)

lemma governed_step_governs:
  assumes "governs t status f" "governed_step f e f'"
  shows "governs t status f'"
  using assms(2)
proof cases
  case (6 pconfig i)
  then have "prediction_step pconfig f i f'" "held_at t None f'"
    using unreleased_step_held assms(1) by (auto simp: unreleased_step_def governs_def)
  with prediction_step_review assms(1) show ?thesis unfolding governs_def by metis
qed (use assms(1) governs_unchanged(1,2) [OF assms(1)] in
  \<open>auto simp: governs_unchanged(3) [OF assms(1)] ResolveAcceptCalculated_def ResolveKeepInitial_def ResolveSetManual_def split: sum.splits\<close>)

interpretation governed: invariant_machine governed_step "governs t status"
  by unfold_locales (rule governed_step_governs)

definition chosen_by_controller :: "AMANFlight \<Rightarrow> gotime \<Rightarrow> ETAReviewStatus \<Rightarrow> AMANFlight \<Rightarrow> bool" where
  "chosen_by_controller f t status g \<longleftrightarrow>
     (\<exists>m res. ResolveSetManual f m = Inr res \<and> g = rr_Flight res \<and> t = cmd_ManualTETA m \<and> status = ReviewManualETA) \<or>
     (\<exists>c res r. ResolveKeepInitial f c = Inr res \<and> g = rr_Flight res \<and> f_ETAReview f = Some r \<and>
        t = review_InitialBaselineTETA r \<and> status = ReviewKeptInitialFPLETA)"

lemma apply_manual_held:
  assumes "ApplyManualOperationalTETA f t tm = Inr g"
  shows "f_Prediction g \<noteq> None" "held_at t slot g"
  using assms by (auto simp: ApplyManualOperationalTETA_def held_at_def split: option.splits if_splits)

lemma held_at_review [simp]: "held_at t slot (f\<lparr> f_ETAReview := x \<rparr>) = held_at t slot f"
  by (simp add: held_at_def)

lemma chosen_governs:
  assumes "chosen_by_controller f t status g"
  shows "governs t status g"
  using assms unfolding chosen_by_controller_def
proof (elim disjE exE conjE)
  fix m res
  assume m: "ResolveSetManual f m = Inr res" "g = rr_Flight res" "t = cmd_ManualTETA m" "status = ReviewManualETA"
  from m(1) show ?thesis
    by (rule set_manual_cases) (use m(2-4) apply_manual_held in \<open>simp add: governs_def resolveByActor_def del: not_None_eq\<close>)
next
  fix c res r
  assume c: "ResolveKeepInitial f c = Inr res" "g = rr_Flight res" "f_ETAReview f = Some r" "t = review_InitialBaselineTETA r"
    "status = ReviewKeptInitialFPLETA"
  from c(1) show ?thesis
    by (rule keep_initial_cases) (use c(2-5) apply_manual_held in \<open>simp add: pendingReview_Inr governs_def resolveByActor_def del: not_None_eq\<close>)
qed

text \<open>
  C39. A landing time that a controller chose in a review governs until it is reset or released: through
  any sequence of further review operations and predictions, without a reset, a confirmed go-around, a
  new manual time or a release of the freeze, the review keeps its resolution and the operational
  landing time of the flight is the chosen one.
\<close>

theorem chosen_time_governs:
  assumes "chosen_by_controller f t status g" "runs governed_step g es f'"
  shows "\<exists>r p. f_ETAReview f' = Some r \<and> review_Status r = status \<and> review_SelectedTETA r = t \<and>
    f_Prediction f' = Some p \<and> pred_OperationalTETA p = t"
  using governed.runs_inv [OF assms(2) chosen_governs [OF assms(1)]] by (auto simp: governs_def held_at_def)

text \<open>What a resolution by a controller leaves, and when a landing time can be chosen for a flight.\<close>

definition resolved_by :: "'a ReviewCommand_scheme \<Rightarrow> ETAReviewStatus \<Rightarrow> gotime \<Rightarrow> AMANFlight \<Rightarrow> bool" where
  "resolved_by c status t g \<longleftrightarrow>
     (case f_ETAReview g of None \<Rightarrow> False
      | Some r \<Rightarrow> review_Status r = status \<and> review_SelectedTETA r = t \<and> review_ResolvedAt r = Some (cmd_At c) \<and>
          review_Actor r = Some (cmd_Actor c) \<and> review_Note r = cmd_Note c \<and> f_UpdatedAt g = cmd_At c)"

definition selectable :: "AMANFlight \<Rightarrow> gotime \<Rightarrow> gotime \<Rightarrow> bool" where
  "selectable f t now \<longleftrightarrow> f_FreezeReason f \<noteq> FreezeTMA \<and> f_Prediction f \<noteq> None \<and> valid_utc t \<and> ns now < ns t"

definition flies_at :: "gotime \<Rightarrow> AMANFlight \<Rightarrow> bool" where
  "flies_at t g \<longleftrightarrow> f_FreezeReason g = FreezeManual \<and> map_option pred_OperationalTETA (f_Prediction g) = Some t"

lemma apply_manual_selectable:
  assumes "validActionTime now (f_UpdatedAt f) = Inr ()"
  shows "selectable f t now \<Longrightarrow> \<exists>g. ApplyManualOperationalTETA f t now = Inr g \<and> flies_at t g \<and> f_UpdatedAt g = now"
    and "\<not> selectable f t now \<Longrightarrow> \<exists>e. ApplyManualOperationalTETA f t now = Inl e"
  using assms
  by (auto simp: ApplyManualOperationalTETA_def selectable_def flies_at_def validActionTime_def setOperational_def valid_utc_def go_time
      split: option.splits)

lemma resolved_updates [simp]:
  "resolved_by c status t (g\<lparr> f_ETAReview := Some (resolveByActor r c) \<rparr>) \<longleftrightarrow>
     review_Status r = status \<and> review_SelectedTETA r = t \<and> f_UpdatedAt g = cmd_At c"
  "resolved_by c status t (g\<lparr> f_ETAReview := Some (resolveByActor r c), f_UpdatedAt := u \<rparr>) \<longleftrightarrow>
     review_Status r = status \<and> review_SelectedTETA r = t \<and> u = cmd_At c"
  "flies_at t (g\<lparr> f_ETAReview := x \<rparr>) = flies_at t g"
  by (auto simp: resolved_by_def resolveByActor_def flies_at_def)

text \<open>
  C40. A pending review has exactly one way to be resolved at any time. Before its deadline the automatic
  acceptance leaves it alone and a valid command of a controller resolves it: accepting always succeeds, with the
  calculated time; keeping the initial time and setting a manual one succeed exactly if the chosen
  time lies in the future and the flight has a prediction and is not frozen in the terminal area, and then the flight is held at
  that time. From the deadline on every command is refused and the automatic acceptance resolves the
  review, at the deadline, with the calculated time.
\<close>

theorem deadline_decides_the_resolver:
  assumes "f_ETAReview f = Some r" "review_Status r = ReviewPending"
    and "validActorCommand (cmd_At c) (f_UpdatedAt f) (cmd_Actor c) (cmd_Note c) = Inr ()"
  shows "if before (cmd_At c) (review_DeadlineAt r)
    then AutoAccept f (cmd_At c) = Inr \<lparr> rr_Flight = f, rr_Changed = False \<rparr> \<and>
      (\<exists>g. ResolveAcceptCalculated f c = Inr \<lparr> rr_Flight = g, rr_Changed = True \<rparr> \<and>
        resolved_by c ReviewAcceptedCalculatedTETA (review_CalculatedOperationalTETA r) g) \<and>
      (let t = review_InitialBaselineTETA r in
       if selectable f t (cmd_At c)
       then \<exists>g. ResolveKeepInitial f c = Inr \<lparr> rr_Flight = g, rr_Changed = True \<rparr> \<and> resolved_by c ReviewKeptInitialFPLETA t g \<and> flies_at t g
       else isl (ResolveKeepInitial f c)) \<and>
      (\<forall>m. ReviewCommand.truncate m = c \<longrightarrow>
        (let t = cmd_ManualTETA m in
         if selectable f t (cmd_At c)
         then \<exists>g. ResolveSetManual f m = Inr \<lparr> rr_Flight = g, rr_Changed = True \<rparr> \<and> resolved_by c ReviewManualETA t g \<and> flies_at t g
         else isl (ResolveSetManual f m)))
    else (let late = Inl (review_invalidTransition ''ETA review deadline has elapsed'') in
        ResolveAcceptCalculated f c = late \<and> ResolveKeepInitial f c = late \<and>
        (\<forall>m. ReviewCommand.truncate m = c \<longrightarrow> ResolveSetManual f m = late)) \<and>
      (\<exists>g. AutoAccept f (cmd_At c) = Inr \<lparr> rr_Flight = g, rr_Changed = True \<rparr> \<and>
        (\<exists>r'. f_ETAReview g = Some r' \<and> review_Status r' = ReviewAutoAcceptedCalculatedTETA \<and>
          review_ResolvedAt r' = Some (review_DeadlineAt r) \<and> review_Actor r' = review_Actor r \<and>
          review_SelectedTETA r' = review_CalculatedOperationalTETA r))"
proof -
  have tm: "validActionTime (cmd_At c) (f_UpdatedAt f) = Inr ()" using assms(3) by (auto simp: validActorCommand_def)
  note manual = apply_manual_selectable [OF tm]
  have same: "cmd_At m = cmd_At c \<and> cmd_Actor m = cmd_Actor c \<and> cmd_Note m = cmd_Note c"
    if "ReviewCommand.truncate m = c" for m :: SetManualCommand
    unfolding that [symmetric] by (simp add: ReviewCommand.defs)
  show ?thesis
  proof (cases "before (cmd_At c) (review_DeadlineAt r)")
    case True
    with assms have pc: "pendingReview f c = Inr r" by (simp add: pendingReview_Inr)
    have accept: "\<exists>g. ResolveAcceptCalculated f c = Inr \<lparr> rr_Flight = g, rr_Changed = True \<rparr> \<and>
        resolved_by c ReviewAcceptedCalculatedTETA (review_CalculatedOperationalTETA r) g"
      by (simp add: ResolveAcceptCalculated_def pc Let_def)
    have auto: "AutoAccept f (cmd_At c) = Inr \<lparr> rr_Flight = f, rr_Changed = False \<rparr>"
      using True assms(1,2) tm by (simp add: AutoAccept_def Let_def)
    have keep: "if selectable f (review_InitialBaselineTETA r) (cmd_At c)
       then \<exists>g. ResolveKeepInitial f c = Inr \<lparr> rr_Flight = g, rr_Changed = True \<rparr> \<and>
         resolved_by c ReviewKeptInitialFPLETA (review_InitialBaselineTETA r) g \<and> flies_at (review_InitialBaselineTETA r) g
       else isl (ResolveKeepInitial f c)"
      using manual [of "review_InitialBaselineTETA r"] by (auto simp: ResolveKeepInitial_def pc Let_def)
    have set: "if selectable f (cmd_ManualTETA m) (cmd_At c)
       then \<exists>g. ResolveSetManual f m = Inr \<lparr> rr_Flight = g, rr_Changed = True \<rparr> \<and> resolved_by c ReviewManualETA (cmd_ManualTETA m) g \<and>
         flies_at (cmd_ManualTETA m) g
       else isl (ResolveSetManual f m)" if "ReviewCommand.truncate m = c" for m
    proof -
      note m = same [OF that]
      have "pendingReview f m = Inr r" using True assms m by (simp add: pendingReview_Inr)
      moreover have "resolveByActor x m = resolveByActor x c" for x using m by (simp add: resolveByActor_def)
      ultimately show ?thesis using manual [of "cmd_ManualTETA m"] m by (auto simp: ResolveSetManual_def Let_def)
    qed
    show ?thesis using True accept auto keep set by (simp add: Let_def)
  next
    case False
    let ?late = "Inl (review_invalidTransition ''ETA review deadline has elapsed'')"
    have late: "pendingReview f c = ?late" using False assms by (simp add: pendingReview_def del: validActorCommand_Inr)
    have "pendingReview f m = ?late" if "ReviewCommand.truncate m = c" for m :: SetManualCommand
      using same [OF that] False assms by (simp add: pendingReview_def del: validActorCommand_Inr)
    with late False assms(1,2) tm show ?thesis
      by (simp add: ResolveAcceptCalculated_def ResolveKeepInitial_def ResolveSetManual_def AutoAccept_def Let_def)
  qed
qed

text \<open>A review of a landing at ten against a baseline of half past nine, open until one ten.\<close>

definition sample_review :: ETAReview where
  "sample_review =
     \<lparr> review_Status = ReviewPending, review_CreatedAt = Time hour UTC, review_DeadlineAt = Time (hour + 10 * minute) UTC,
       review_ResolvedAt = None, review_Actor = None, review_Note = None, review_InitialBaselineTETA = Time (9 * hour + 30 * minute) UTC,
       review_CalculatedOperationalTETA = Time (10 * hour) UTC, review_SelectedTETA = Time (10 * hour) UTC, review_ManualTETA = None \<rparr>"

definition reviewed_arrival :: AMANFlight where
  "reviewed_arrival = sample_arrival\<lparr> f_ETAReview := Some sample_review \<rparr>"

definition sample_command :: ReviewCommand where
  "sample_command = \<lparr> cmd_At = Time (hour + minute) UTC, cmd_Actor = ''APP'', cmd_Note = None \<rparr>"

theorem chosen_time_governs_witness:
  "\<exists>res g. ResolveKeepInitial reviewed_arrival sample_command = Inr res \<and>
    prediction_step DefaultPredictionConfig (rr_Flight res) (routine_input (sample_raw (11 * hour) (hour + 2 * minute)) StateUnstable) g \<and>
    (\<exists>p. f_Prediction g = Some p \<and> pred_OperationalTETA p = Time (9 * hour + 30 * minute) UTC)"
proof -
  let ?i = "routine_input (sample_raw (11 * hour) (hour + 2 * minute)) StateUnstable"
  have "(case ResolveKeepInitial reviewed_arrival sample_command of Inl _ \<Rightarrow> None
      | Inr res \<Rightarrow> map_option (\<lambda>_. ()) (reduced_of (Prediction_Reduce DefaultPredictionConfig (rr_Flight res) ?i))) = Some ()" by code_simp
  then obtain res r where r: "ResolveKeepInitial reviewed_arrival sample_command = Inr res"
    "Prediction_Reduce DefaultPredictionConfig (rr_Flight res) ?i = Some (Inr r)" by (auto split: sum.splits)
  then have step: "prediction_step DefaultPredictionConfig (rr_Flight res) ?i (out_Flight r)" by (auto simp: prediction_step_def)
  moreover have "\<not> releases (rr_Flight res) ?i" by (simp add: releases_def routine_input_def)
  ultimately have "runs governed_step (rr_Flight res) [Predicted DefaultPredictionConfig ?i] (out_Flight r)"
    by (simp add: runs_Cons_iff governed_step.intros(6) unreleased_step_def)
  moreover have "chosen_by_controller reviewed_arrival (Time (9 * hour + 30 * minute) UTC) ReviewKeptInitialFPLETA (rr_Flight res)"
  proof -
    have "f_ETAReview reviewed_arrival = Some sample_review" "Time (9 * hour + 30 * minute) UTC = review_InitialBaselineTETA sample_review"
      by (simp_all add: reviewed_arrival_def sample_review_def)
    with r(1) show ?thesis unfolding chosen_by_controller_def by blast
  qed
  ultimately have "\<exists>p. f_Prediction (out_Flight r) = Some p \<and> pred_OperationalTETA p = Time (9 * hour + 30 * minute) UTC"
    using chosen_time_governs by blast
  with r(1) step show ?thesis by blast
qed

theorem deadline_decides_the_resolver_witness:
  "(\<exists>g. ResolveKeepInitial reviewed_arrival sample_command = Inr \<lparr> rr_Flight = g, rr_Changed = True \<rparr> \<and>
      flies_at (Time (9 * hour + 30 * minute) UTC) g) \<and>
    AutoAccept reviewed_arrival (cmd_At sample_command) = Inr \<lparr> rr_Flight = reviewed_arrival, rr_Changed = False \<rparr>"
proof -
  have "f_ETAReview reviewed_arrival = Some sample_review" "review_Status sample_review = ReviewPending"
    "review_InitialBaselineTETA sample_review = Time (9 * hour + 30 * minute) UTC"
    by (simp_all add: reviewed_arrival_def sample_review_def)
  moreover have "validActorCommand (cmd_At sample_command) (f_UpdatedAt reviewed_arrival) (cmd_Actor sample_command) (cmd_Note sample_command) = Inr ()"
    "before (cmd_At sample_command) (review_DeadlineAt sample_review)" by code_simp+
  moreover have "selectable reviewed_arrival (Time (9 * hour + 30 * minute) UTC) (cmd_At sample_command)"
    by (simp add: selectable_def reviewed_arrival_def sample_arrival_def sample_command_def valid_utc_def is_zero_def)
  ultimately show ?thesis using deadline_decides_the_resolver [of reviewed_arrival sample_review sample_command] by (auto simp: Let_def)
qed

end
