(* ===== verification/Spec2Isabelle.thy ===== *)
theory Spec2Isabelle
  imports Machines Aman_Lifecycle Coordination_Repository Strip_Ordering Sequence_Generation Sequence_Go_Around
    Sequence_Promotion Sequence_Offers Sequence_Rebuild Cdm_Sequence Aman_Filter Aman_EtaReview
begin

text \<open>
  FlightStrips is an electronic strip board with an arrival manager (AMAN) and departure planning (CDM)
  for a group of air traffic controllers. Its backend, \<^verbatim>\<open>src/backend\<close>, is a Go program: it receives
  flight data from EuroScope plugins and commands from the controllers' browsers, keeps the state of
  each session in PostgreSQL and decides what follows from them. This development models the parts of
  the backend that make those decisions, as functions on values, and proves what makes them correct.
  Paths below are relative to \<^verbatim>\<open>src/backend\<close>.

  \<^bold>\<open>The parts and how they interact.\<close> Radar and flight-plan observations reach an AMAN flight as physical
  predictions. The prediction filter withholds isolated spikes; the prediction reducer smooths what is
  left into the operational landing time, which is frozen in stages; the review compares the first
  airborne prediction with the flight plan and lets a controller choose; the lifecycle reducer moves the
  flight from planned to landed or removed. The sequence engine takes all flights of an airport with
  their operational times and freezes and gives every flight a slot of its runway group. Controllers
  change its input by commands; vacated slots are filled and occupied ones offered between two
  commands. A coordination request asks another controller for a clearance and is decided by its
  recipient. Departures have a CDM document with target times, and the CDM sequence gives each a
  take-off slot. All of them are shown as strips, ordered within bays.

  \<^bold>\<open>The language.\<close> \<open>Go_Base\<close>, \<open>Go_Format\<close>, \<open>Go_Lists\<close> and \<open>Go_Float\<close> model what the code uses of Go
  and its standard library: strings as byte lists, instants as nanoseconds with a location, sorting and
  binary search, decimal and time formats, slices by index and \<^verbatim>\<open>float64\<close> with rounding to 53 bits
  (locale \<open>rounding\<close>). A string enumeration is a datatype with one more constructor for all other
  strings; a pointer that may be nil is an option; a call that may return an error is a sum; a call that
  may panic or never return is an option with \<open>None\<close> for that outcome, and then theorems say when it
  does return. Map iteration of the code is modelled where the result does not depend on its order;
  where only the choice among several errors depends on it, the model reports the first in the order of
  the input.

  \<^bold>\<open>Contracts.\<close> \<open>Machines\<close> states what the stateful components share as locales over a labelled step
  relation: \<open>invariant_machine\<close> (every step keeps a property), \<open>cursor_machine\<close> (every step advances a
  time) and \<open>terminal_machine\<close> (no step leaves a state). Each component interprets them on its own
  steps: the lifecycle reducer (event cursor, removed flights, well-formed metadata, absence timer),
  the prediction operations (soundness, frozen times), the reviews (the time that governs), the request
  aggregate (well-formedness, identity, resolution, chain of transfers), the repository (table invariant,
  resolved rows) and the sequence commands (what they leave alone). \<open>cyclic_search\<close> in \<open>Cdm_Calculate\<close>
  is the contract of an unbounded search on a finite cycle.

  \<^bold>\<open>Arrival flights.\<close>
  \<^item> \<open>Aman_Types\<close>: the records, enumerations and validators of \<^verbatim>\<open>internal/aman/types.go\<close> that the reducers
    read or write.
  \<^item> \<open>Aman_Lifecycle\<close>: \<^verbatim>\<open>internal/aman/lifecycle/reducer.go\<close>; \<open>Reduce\<close> is the whole reducer with its
    order check, fingerprint, absence timer and transition function \<open>nextState\<close>. The lemmas bound every
    accepted event (\<open>accepted_metadata\<close>, \<open>accepted_absence\<close>) and the theorems speak of whole runs; how long a
    flight has been missing is read off the accepted events alone (\<open>watch\<close>), not off the stored timer.
  \<^item> \<open>Aman_Prediction\<close>: \<^verbatim>\<open>internal/aman/prediction/reducer.go\<close>; the lemmas \<open>\<dots>_sound\<close> show of each operation
    that it keeps the fields it may write valid (\<open>timing_fields_valid\<close>) and does not dereference an absent time.
  \<^item> \<open>Aman_Filter\<close>: \<^verbatim>\<open>internal/aman/prediction/filter.go\<close> and the loop of \<^verbatim>\<open>internal/aman/operational/service.go\<close>
    that feeds the reducer from it and drops its state when the path of a flight is invalidated.
  \<^item> \<open>Aman_EtaReview\<close>: \<^verbatim>\<open>internal/aman/etareview/reducer.go\<close>.

  \<^bold>\<open>The arrival sequence\<close> (\<^verbatim>\<open>internal/aman/sequence\<close>).
  \<^item> \<open>Sequence_Policy\<close>: the first half of \<^verbatim>\<open>engine.go\<close>: policies, their preparation and the slot grid. The
    searches forwards and backwards past gaps and closures are exact (\<open>next_grid_exact\<close>).
  \<^item> \<open>Sequence_Placement\<close>: flights, demand, required gaps and the placement of one flight among others.
  \<^item> \<open>Sequence_Engine\<close>: candidates, allocation, local optimisation, protected flights, warnings and
    \<open>generate\<close>; what each stage keeps (\<open>allocate_ok\<close>, \<open>optimize_movable_ok\<close>, \<open>stable_exchanges_ok\<close>).
  \<^item> \<open>Sequence_Generation\<close>: the theorems about a generated sequence as a whole.
  \<^item> \<open>Sequence_Commands\<close>: \<^verbatim>\<open>commands.go\<close>, \<^verbatim>\<open>swap.go\<close> and \<^verbatim>\<open>policy.go\<close>: move, exchange, manual freeze, release and
    rate; \<open>Sequence_Go_Around\<close>: the go-around with its cascade, and what all commands leave alone.
  \<^item> \<open>Sequence_Gap_Fill\<close>: \<^verbatim>\<open>gap_fill.go\<close>; \<open>Sequence_Queue\<close>: \<^verbatim>\<open>queue.go\<close>; \<open>Sequence_Promotion\<close> and
    \<open>Sequence_Offers\<close>: what promotions and offers guarantee; who could take a slot is specified apart
    from the code's search for a place (\<open>may_take\<close>).
  \<^item> \<open>Sequence_Rebuild\<close>: \<^verbatim>\<open>rebuild.go\<close>, the allocation of the whole sequence anew with the flights released
    from the holding stacks one by one. \<open>state_ok\<close> holds between its four passes (retained reservations,
    terminal area, stacks, inbound traffic) and \<open>releases_ok\<close> follows the releases.

  \<^bold>\<open>Coordination.\<close> \<open>Coordination_Request\<close> is the aggregate of \<^verbatim>\<open>internal/coordinationrequest/request.go\<close>,
  \<open>Coordination_Repository\<close> its table, its projection and the service; an operation is one transaction, and a decision of the service
  is modelled with no other operation between its reading of the request and its transaction. That every identifier
  belongs to one airport is a hypothesis of the invariants, as the code does not check it.

  \<^bold>\<open>Strips.\<close> \<open>Strip_Ordering\<close>: the order of the strips of a bay (\<^verbatim>\<open>internal/services/strip_ordering.go\<close> and the
  statements it runs), with 32-bit sequences.

  \<^bold>\<open>Departures\<close> (\<^verbatim>\<open>internal/cdm\<close>). \<open>Cdm_Clock\<close>: \<^verbatim>\<open>time_math.go\<close>; \<open>Cdm_Config\<close>: the airport configuration;
  \<open>Cdm_Calculate\<close>: \<^verbatim>\<open>calculate.go\<close>, the search for a take-off time; \<open>Cdm_Data\<close>: the CDM document and its markers;
  \<open>Cdm_Sequence\<close>: \<^verbatim>\<open>sequence.go\<close>, the recalculation of an airport with its effects in order; \<open>allowed_write\<close> says by the
  fields of a strip which documents it may write.

  \<^bold>\<open>Termination and bounds.\<close> Recursion that is not structural has a measure: the grid searches (every
  round passes one more gap or closure), \<open>fill_gaps\<close> (no flight moves twice),
  \<open>merge_stacks\<close> (every round takes a flight out of the stacks). Three loops of the code have no
  bound and are \<^theory_text>\<open>partial_function (option)\<close>: \<open>take_in_order\<close> returns exactly when no flights wait
  for each other in a circle, the push-back of \<^verbatim>\<open>calculateWithTrace\<close> exactly when one of the 2880 half
  minutes of a day is free, and \<open>compact_search\<close> always for a prepared policy. The searches for a later slot
  (\<open>find_later\<close>, \<open>fill_search\<close>, \<open>go_around_attempts\<close>) have the attempt limits of the code. Times and durations are unbounded integers: the limits of \<^verbatim>\<open>time.Time\<close> and \<^verbatim>\<open>time.Duration\<close>,
  about 292 years, are not reached. \<^verbatim>\<open>int32\<close> strip sequences wrap around. \<^verbatim>\<open>sort.Slice\<close> is the insertion sort that it runs
  on short slices; the theorems use of it that it permutes and that it sorts by a strict weak order.

  \<^bold>\<open>Defects shown.\<close> \<open>accepted_input_without_result\<close> (the engine never returns on an accepted input),
  \<open>go_around_leaves_neighbours_too_close\<close> and \<open>go_around_moves_flight_forward\<close> (the cascade of a go-around),
  \<open>submit_overwrites_other_airport\<close> (a command identifier reused at another airport),
  \<open>calculate_never_returns\<close> (the push-back loop on a full day).

  \<^bold>\<open>Not modelled.\<close>
  \<^item> The AMAN airport aggregate with its validator and what ends in it: \<^verbatim>\<open>ProjectQueueOffers\<close>, the
    coordinator, the operational service with its locks and timers.
  \<^item> Trajectories, terminal volumes, navigation data and the go-around detector: double-precision
    geometry over external data, where a model over exact numbers would not be the code.
  \<^item> The strip lifecycles and validations, stand allocation, pre-departure clearance and the services
    around the CDM sequence: workflows over many collaborators, of which the ordering of strips and
    the CDM sequence are modelled.
  \<^item> The hubs, the persistence beyond the statements named above, the configuration files, the
    pollers of external data and the wiring: input and output.
  \<^item> Logging, tracing, metrics and the diagnostics report of the engine, which no decision reads.
  \<^item> The browser client, the EuroScope plugin and the simulator client, which are other languages.
\<close>

end
